(* ===== verification/Prelude.thy ===== *)
theory Prelude imports Main "HOL-Library.Multiset" begin

text \<open>
  Shared vocabulary of the development: the theorem collections the component proofs use, the
  generic facts on lists, options and maps that more than one component needs, and the Go string
  operations (byte strings as \<open>char list\<close>) the source calls from its standard library.
\<close>

named_theorems go_string \<open>defining equations of the Go string operations\<close>
named_theorems record_defs \<open>definitions unfolded when a record operation is evaluated\<close>

section \<open>Lists\<close>

text \<open>Stable insertion sort by a key, the model of Go's \<open>sort.SliceStable\<close> and
  \<open>slices.SortStableFunc\<close> (and of \<open>slices.SortFunc\<close> where only membership and order of keys
  matter).\<close>

fun insert_by :: "('a \<Rightarrow> 'a \<Rightarrow> bool) \<Rightarrow> 'a \<Rightarrow> 'a list \<Rightarrow> 'a list" where
  "insert_by before x [] = [x]"
| "insert_by before x (y # ys) = (if before y x then y # insert_by before x ys else x # y # ys)"

fun stable_sort_by :: "('a \<Rightarrow> 'a \<Rightarrow> bool) \<Rightarrow> 'a list \<Rightarrow> 'a list" where
  "stable_sort_by before [] = []"
| "stable_sort_by before (x # xs) = insert_by before x (stable_sort_by before xs)"

lemma mset_insert_by [simp]: "mset (insert_by before x xs) = add_mset x (mset xs)"
  by (induction xs) auto

lemma mset_stable_sort_by [simp]: "mset (stable_sort_by before xs) = mset xs"
  by (induction xs) auto

lemma set_insert_by [simp]: "set (insert_by before x xs) = insert x (set xs)"
  by (induction xs) auto

lemma set_stable_sort_by [simp]: "set (stable_sort_by before xs) = set xs"
  by (induction xs) auto

lemma length_stable_sort_by [simp]: "length (stable_sort_by before xs) = length xs"
  by (metis mset_stable_sort_by size_mset)

text \<open>The comparison is strict: \<open>before a b\<close> says \<open>a\<close> sorts strictly ahead of \<open>b\<close>. Under a total
  preorder given by a key, the result is sorted.\<close>

lemma sorted_insert_by:
  fixes k :: "'a \<Rightarrow> 'b::linorder"
  assumes "sorted (map k xs)"
  shows "sorted (map k (insert_by (\<lambda>a b. k a < k b) x xs))"
  using assms by (induction xs) (auto simp: less_imp_le)

lemma sorted_stable_sort_by:
  fixes k :: "'a \<Rightarrow> 'b::linorder"
  shows "sorted (map k (stable_sort_by (\<lambda>a b. k a < k b) xs))"
  by (induction xs) (auto intro: sorted_insert_by)

text \<open>The head of a stable sort is the first of the elements with the least key.\<close>

lemma hd_stable_sort_by:
  fixes k :: "'a \<Rightarrow> 'b::linorder"
  assumes "xs \<noteq> []"
  shows "\<exists>ys zs. xs = ys @ hd (stable_sort_by (\<lambda>a b. k a < k b) xs) # zs \<and>
    (\<forall>y \<in> set ys. k (hd (stable_sort_by (\<lambda>a b. k a < k b) xs)) < k y) \<and>
    (\<forall>z \<in> set zs. k (hd (stable_sort_by (\<lambda>a b. k a < k b) xs)) \<le> k z)"
  using assms
proof (induction xs)
  case (Cons x xs)
  let ?s = "stable_sort_by (\<lambda>a b. k a < k b)"
  show ?case
  proof (cases "xs = []")
    case True
    then show ?thesis by (intro exI [of _ "[]"]) simp
  next
    case False
    then obtain h t where s: "?s xs = h # t"
      by (metis length_0_conv length_stable_sort_by list.exhaust)
    from Cons.IH [OF False] obtain ys zs where d: "xs = ys @ h # zs"
      "\<forall>y \<in> set ys. k h < k y" "\<forall>z \<in> set zs. k h \<le> k z"
      unfolding s list.sel by blast
    show ?thesis
    proof (cases "k h < k x")
      case True
      then have "hd (?s (x # xs)) = h" by (simp add: s)
      then show ?thesis using d True by (intro exI [of _ "x # ys"] exI [of _ zs]) simp
    next
      case F: False
      then have "hd (?s (x # xs)) = x" by (simp add: s)
      moreover have "\<forall>z \<in> set xs. k x \<le> k z" using d F by fastforce
      ultimately show ?thesis by (intro exI [of _ "[]"] exI [of _ xs]) simp
    qed
  qed
qed simp

text \<open>Pairs of a list, and the element \<open>find\<close> returns.\<close>

lemma sorted_wrt_pair:
  "sorted_wrt P xs \<Longrightarrow> x \<in> set xs \<Longrightarrow> y \<in> set xs \<Longrightarrow> x \<noteq> y \<Longrightarrow> P x y \<or> P y x"
  by (induction xs) auto

lemma find_only:
  "r \<in> set rs \<Longrightarrow> p r \<Longrightarrow> (\<And>s. s \<in> set rs \<Longrightarrow> p s \<Longrightarrow> s = r) \<Longrightarrow> find p rs = Some r"
proof (induction rs)
  case (Cons a rs)
  show ?case
  proof (cases "p a")
    case True
    then show ?thesis using Cons.prems(3) [of a] by simp
  next
    case False
    then have "r \<in> set rs" using Cons.prems(1,2) by auto
    then have "find p rs = Some r" using Cons.prems(2,3) by (intro Cons.IH) simp_all
    then show ?thesis using False by simp
  qed
qed simp

lemma find_append_none: "find p xs = None \<Longrightarrow> find p (xs @ ys) = find p ys"
  by (induction xs) (simp_all split: if_splits)

lemma find_SomeD: "find p xs = Some x \<Longrightarrow> x \<in> set xs \<and> p x"
  by (induction xs) (auto split: if_splits)

text \<open>The index of the first element satisfying a predicate.\<close>

fun find_index :: "('a \<Rightarrow> bool) \<Rightarrow> 'a list \<Rightarrow> nat option" where
  "find_index P [] = None"
| "find_index P (x # xs) = (if P x then Some 0 else map_option Suc (find_index P xs))"

lemma find_index_Some:
  "find_index P xs = Some i \<Longrightarrow> i < length xs \<and> P (xs ! i)"
  by (induction xs arbitrary: i) (auto split: if_splits)

lemma find_index_first:
  "find_index P xs = Some i \<Longrightarrow> j < i \<Longrightarrow> \<not> P (xs ! j)"
proof (induction xs arbitrary: i j)
  case Nil
  then show ?case by simp
next
  case (Cons x xs)
  then show ?case by (cases j) (auto split: if_splits)
qed

lemma find_index_None: "find_index P xs = None \<longleftrightarrow> (\<forall>x \<in> set xs. \<not> P x)"
  by (induction xs) auto

section \<open>Go strings\<close>

text \<open>A Go string is a byte sequence; slicing \<open>s[i:j]\<close> is only used by the source where the bounds
  are in range.\<close>

definition slice :: "'a list \<Rightarrow> nat \<Rightarrow> nat \<Rightarrow> 'a list" where
  "slice s i j = take (j - i) (drop i s)"

lemma length_slice: "i \<le> j \<Longrightarrow> j \<le> length s \<Longrightarrow> length (slice s i j) = j - i"
  by (simp add: slice_def)

definition digit_char :: "nat \<Rightarrow> char" where
  "digit_char d = char_of (48 + d)"

definition is_digit :: "char \<Rightarrow> bool" where
  "is_digit c \<longleftrightarrow> 48 \<le> (of_char c :: nat) \<and> (of_char c :: nat) \<le> 57"

definition digit_val :: "char \<Rightarrow> nat" where
  "digit_val c = of_char c - 48"

lemma is_digit_digit_char [simp]: "d < 10 \<Longrightarrow> is_digit (digit_char d)"
  by (simp add: is_digit_def digit_char_def)

lemma digit_val_digit_char [simp]: "d < 10 \<Longrightarrow> digit_val (digit_char d) = d"
  by (simp add: digit_val_def digit_char_def)

text \<open>\<open>%02d\<close> and \<open>%04d\<close> of \<open>fmt.Sprintf\<close> on values that fit the width.\<close>

definition pad2 :: "nat \<Rightarrow> string" where
  "pad2 n = [digit_char (n div 10), digit_char (n mod 10)]"

definition pad4 :: "nat \<Rightarrow> string" where
  "pad4 n = [digit_char (n div 1000), digit_char (n div 100 mod 10),
             digit_char (n div 10 mod 10), digit_char (n mod 10)]"

lemma length_pad2 [simp]: "length (pad2 n) = 2"
  by (simp add: pad2_def)

lemma length_pad4 [simp]: "length (pad4 n) = 4"
  by (simp add: pad4_def)

text \<open>Decimal digits of a natural number (\<open>strconv.Itoa\<close> on it), and \<open>strconv.Atoi\<close>: an optional
  sign and at least one digit, refused outside the 64-bit range.\<close>

fun show_nat :: "nat \<Rightarrow> string" where
  "show_nat n = (if n < 10 then [digit_char n] else show_nat (n div 10) @ [digit_char (n mod 10)])"

declare show_nat.simps [simp del]

definition show_int :: "int \<Rightarrow> string" where
  "show_int i = (if i < 0 then CHR 0x2D # show_nat (nat (- i)) else show_nat (nat i))"

definition digits_val :: "string \<Rightarrow> nat" where
  "digits_val s = foldl (\<lambda>n c. 10 * n + digit_val c) 0 s"

definition atoi_digits :: "string \<Rightarrow> int option" where
  "atoi_digits s = (if s \<noteq> [] \<and> list_all is_digit s then Some (int (digits_val s)) else None)"

definition in_int64 :: "int \<Rightarrow> bool" where
  "in_int64 i \<longleftrightarrow> - (2 ^ 63) \<le> i \<and> i < 2 ^ 63"

definition atoi :: "string \<Rightarrow> int option" where
  "atoi s =
     (let r = (case s of
                 [] \<Rightarrow> None
               | c # cs \<Rightarrow> if c = CHR 0x2D then map_option uminus (atoi_digits cs)
                           else if c = CHR 0x2B then atoi_digits cs
                           else atoi_digits (c # cs))
      in case r of None \<Rightarrow> None | Some i \<Rightarrow> if in_int64 i then Some i else None)"

text \<open>A field of exactly two digits, as \<open>time.Parse\<close> reads the layouts \<open>01\<close> and \<open>02\<close>.\<close>

definition two_digits :: "string \<Rightarrow> nat option" where
  "two_digits s = (if length s = 2 \<and> list_all is_digit s then Some (digits_val s) else None)"

lemma digits_val_pad2: "n < 100 \<Longrightarrow> digits_val (pad2 n) = n"
  by (simp add: digits_val_def pad2_def)

lemma two_digits_pad2 [simp]: "n < 100 \<Longrightarrow> two_digits (pad2 n) = Some n"
  by (simp add: two_digits_def digits_val_pad2) (simp add: pad2_def)

lemma not_digit_sign: "is_digit c \<Longrightarrow> c \<noteq> CHR 0x2D \<and> c \<noteq> CHR 0x2B"
  by (auto simp: is_digit_def)

lemma atoi_pad2 [simp]: "n < 100 \<Longrightarrow> atoi (pad2 n) = Some (int n)"
  using not_digit_sign [of "digit_char (n div 10)"] digits_val_pad2 [of n]
  by (simp add: atoi_def atoi_digits_def pad2_def in_int64_def)

text \<open>\<open>%0wd\<close> of \<open>fmt.Sprintf\<close>: the sign counts towards the width.\<close>

definition zero_pad :: "nat \<Rightarrow> string \<Rightarrow> string" where
  "zero_pad w s = replicate (w - length s) CHR 0x30 @ s"

definition fmt_0d :: "nat \<Rightarrow> int \<Rightarrow> string" where
  "fmt_0d w i = (if i < 0 then CHR 0x2D # zero_pad (w - 1) (show_nat (nat (- i)))
                 else zero_pad w (show_nat (nat i)))"

lemma digit_char_0: "digit_char 0 = CHR 0x30"
  by code_simp

lemma show_nat_1: "n < 10 \<Longrightarrow> show_nat n = [digit_char n]"
  by (simp add: show_nat.simps)

lemma show_nat_step: "10 \<le> n \<Longrightarrow> show_nat n = show_nat (n div 10) @ [digit_char (n mod 10)]"
  by (simp add: show_nat.simps [of n])

lemma fmt_02d [simp]: "n < 100 \<Longrightarrow> fmt_0d 2 (int n) = pad2 n"
  by (cases "n < 10")
    (simp_all add: fmt_0d_def zero_pad_def show_nat_1 show_nat_step pad2_def digit_char_0)

lemma fmt_04d [simp]: "n < 10000 \<Longrightarrow> fmt_0d 4 (int n) = pad4 n"
proof -
  assume n: "n < 10000"
  consider "n < 10" | "10 \<le> n" "n < 100" | "100 \<le> n" "n < 1000" | "1000 \<le> n" by linarith
  then show ?thesis
  proof cases
    case 1
    then show ?thesis by (simp add: fmt_0d_def zero_pad_def show_nat_1 pad4_def digit_char_0 numeral_3_eq_3)
  next
    case 2
    then have "n div 10 < 10" "n div 100 = 0" "n div 1000 = 0" by auto
    with 2 show ?thesis
      by (simp add: fmt_0d_def zero_pad_def show_nat_1 show_nat_step pad4_def digit_char_0 numeral_2_eq_2)
  next
    case 3
    then have "n div 10 div 10 < 10" "10 \<le> n div 10" "n div 100 < 10" "n div 1000 = 0"
      "n div 10 div 10 = n div 100" by auto
    with 3 show ?thesis
      by (simp add: fmt_0d_def zero_pad_def show_nat_1 show_nat_step pad4_def digit_char_0)
  next
    case 4
    then have "n div 1000 < 10" "10 \<le> n div 10" "10 \<le> n div 100" "n div 10 div 10 = n div 100"
      "n div 100 div 10 = n div 1000" using n by auto
    with 4 show ?thesis
      by (simp add: fmt_0d_def zero_pad_def show_nat_1 show_nat_step pad4_def)
  qed
qed

text \<open>\<open>strings.HasPrefix\<close>, \<open>strings.TrimPrefix\<close>, \<open>strings.TrimSpace\<close> on the ASCII white space
  bytes, \<open>strings.ToLower\<close> on ASCII letters.\<close>

fun has_prefix :: "string \<Rightarrow> string \<Rightarrow> bool" where
  "has_prefix s [] = True"
| "has_prefix [] (p # ps) = False"
| "has_prefix (c # cs) (p # ps) = (c = p \<and> has_prefix cs ps)"

definition is_space :: "char \<Rightarrow> bool" where
  "is_space c \<longleftrightarrow> (of_char c :: nat) \<in> {9, 10, 11, 12, 13, 32}"

definition trim_space :: "string \<Rightarrow> string" where
  "trim_space s = rev (dropWhile is_space (rev (dropWhile is_space s)))"

definition to_lower_char :: "char \<Rightarrow> char" where
  "to_lower_char c = (let n = (of_char c :: nat) in if 65 \<le> n \<and> n \<le> 90 then char_of (n + 32) else c)"

definition to_lower :: "string \<Rightarrow> string" where
  "to_lower s = map to_lower_char s"

definition trim_prefix :: "string \<Rightarrow> string \<Rightarrow> string" where
  "trim_prefix s p = (if has_prefix s p then drop (length p) s else s)"

text \<open>\<open>strings.Split\<close> on a one-byte separator: always at least one piece.\<close>

fun split_on :: "char \<Rightarrow> string \<Rightarrow> string list" where
  "split_on sep [] = [[]]"
| "split_on sep (c # cs) =
     (if c = sep then [] # split_on sep cs
      else (case split_on sep cs of [] \<Rightarrow> [[c]] | p # ps \<Rightarrow> (c # p) # ps))"

fun join_with :: "string \<Rightarrow> string list \<Rightarrow> string" where
  "join_with sep [] = []"
| "join_with sep [p] = p"
| "join_with sep (p # q # ps) = p @ sep @ join_with sep (q # ps)"

text \<open>\<open>strings.Fields\<close> on ASCII white space, and \<open>strings.ReplaceAll\<close> of one byte by nothing.\<close>

fun fields_aux :: "string \<Rightarrow> string \<Rightarrow> string list" where
  "fields_aux w [] = (if w = [] then [] else [rev w])"
| "fields_aux w (c # cs) =
     (if is_space c then (if w = [] then fields_aux [] cs else rev w # fields_aux [] cs)
      else fields_aux (c # w) cs)"

definition str_fields :: "string \<Rightarrow> string list" where
  "str_fields s = fields_aux [] s"

definition remove_char :: "char \<Rightarrow> string \<Rightarrow> string" where
  "remove_char c s = filter (\<lambda>x. x \<noteq> c) s"

lemma split_on_not_Nil [simp]: "split_on sep s \<noteq> []"
  by (induction s) (auto split: list.splits)

lemma split_on_append:
  "sep \<notin> set p \<Longrightarrow> split_on sep (p @ sep # s) = p # split_on sep s"
  by (induction p) auto

lemma split_on_piece: "sep \<notin> set p \<Longrightarrow> split_on sep p = [p]"
  by (induction p) auto

lemma digit_not_space: "is_digit c \<Longrightarrow> \<not> is_space c"
  by (auto simp: is_digit_def is_space_def)

lemma trim_space_id: "s \<noteq> [] \<Longrightarrow> \<not> is_space (hd s) \<Longrightarrow> \<not> is_space (last s) \<Longrightarrow> trim_space s = s"
proof -
  assume s: "s \<noteq> []" "\<not> is_space (hd s)" "\<not> is_space (last s)"
  have "dropWhile is_space s = s" using s(1,2) by (cases s) simp_all
  moreover have "dropWhile is_space (rev s) = rev s" using s(1,3) by (cases s rule: rev_cases) simp_all
  ultimately show ?thesis by (simp add: trim_space_def)
qed

lemma digits_no_dash: "list_all is_digit s \<Longrightarrow> CHR 0x2D \<notin> set s"
  using not_digit_sign by (auto simp: list_all_iff)

lemma digits_pad2 [simp]: "n < 100 \<Longrightarrow> list_all is_digit (pad2 n)"
  by (simp add: pad2_def)

lemma digits_pad4 [simp]: "n < 10000 \<Longrightarrow> list_all is_digit (pad4 n)"
  by (simp add: pad4_def)

lemma div_mod_decomp4:
  fixes n :: nat
  shows "10 * (10 * (10 * (n div 1000) + n div 100 mod 10) + n div 10 mod 10) + n mod 10 = n"
proof -
  have a: "n div 1000 = n div 10 div 10 div 10" "n div 100 = n div 10 div 10"
    by (simp_all add: div_mult2_eq [symmetric])
  show ?thesis unfolding a by (simp only: mult_div_mod_eq)
qed

lemma digits_val_pad4: "n < 10000 \<Longrightarrow> digits_val (pad4 n) = n"
proof -
  assume n: "n < 10000"
  have "10 * (10 * (10 * (n div 1000) + n div 100 mod 10) + n div 10 mod 10) + n mod 10 = n"
    by (rule div_mod_decomp4)
  then show ?thesis using n by (simp add: digits_val_def pad4_def)
qed

lemma atoi_pad4 [simp]: "n < 10000 \<Longrightarrow> atoi (pad4 n) = Some (int n)"
proof -
  assume n: "n < 10000"
  then have "is_digit (digit_char (n div 1000))" by simp
  then show ?thesis
    using not_digit_sign [of "digit_char (n div 1000)"] digits_val_pad4 [OF n] digits_pad4 [OF n] n
    by (simp add: atoi_def atoi_digits_def pad4_def in_int64_def)
qed

lemma has_prefix_append [simp]: "has_prefix (p @ s) p"
  by (induction p) auto

lemma has_prefix_iff: "has_prefix s p \<longleftrightarrow> (\<exists>r. s = p @ r)"
  by (induction s p rule: has_prefix.induct) auto

lemmas [go_string] = slice_def digit_char_def is_digit_def digit_val_def pad2_def pad4_def
  is_space_def trim_space_def to_lower_char_def to_lower_def

end
