(* ===== verification/GoTime.thy ===== *)
theory GoTime imports Prelude begin

text \<open>
  The part of Go's \<open>time\<close> package the source relies on: the proleptic Gregorian calendar with the
  normalising constructor \<open>time.Date\<close>, \<open>Time.AddDate\<close>, \<open>Time.Sub\<close> with its saturation, and a
  location as the two conversions a \<open>*time.Location\<close> provides. A civil day is its number counted
  from 1 January of year 1 (Go's own epoch, so the zero \<open>Time\<close> is 0); an instant is a count of
  nanoseconds from that day's midnight in UTC.
\<close>

section \<open>The civil calendar\<close>

definition is_leap :: "int \<Rightarrow> bool" where
  "is_leap y \<longleftrightarrow> y mod 4 = 0 \<and> (y mod 100 \<noteq> 0 \<or> y mod 400 = 0)"

definition days_before_year :: "int \<Rightarrow> int" where
  "days_before_year y = 365 * (y - 1) + (y - 1) div 4 - (y - 1) div 100 + (y - 1) div 400"

text \<open>Days before the month, in a common year (January is 1); a leap year adds one from March on.\<close>

definition month_start :: "int \<Rightarrow> int" where
  "month_start m =
     (if m = 1 then 0 else if m = 2 then 31 else if m = 3 then 59 else if m = 4 then 90
      else if m = 5 then 120 else if m = 6 then 151 else if m = 7 then 181 else if m = 8 then 212
      else if m = 9 then 243 else if m = 10 then 273 else if m = 11 then 304 else 334)"

definition days_before_month :: "int \<Rightarrow> int \<Rightarrow> int" where
  "days_before_month y m = month_start m + (if is_leap y \<and> 2 < m then 1 else 0)"

definition days_in_month :: "int \<Rightarrow> int \<Rightarrow> int" where
  "days_in_month y m =
     (if m = 2 then (if is_leap y then 29 else 28)
      else if m = 4 \<or> m = 6 \<or> m = 9 \<or> m = 11 then 30 else 31)"

text \<open>\<open>time.Date(y, m, d, ...)\<close>: the month is normalised into 1..12 (carrying into the year) and the
  day of the month may be any number.\<close>

definition go_date :: "int \<Rightarrow> int \<Rightarrow> int \<Rightarrow> int" where
  "go_date y m d =
     (let y' = y + (m - 1) div 12; m' = (m - 1) mod 12 + 1
      in days_before_year y' + days_before_month y' m' + (d - 1))"

definition year_of :: "int \<Rightarrow> int" where
  "year_of n =
     (let a = n div 146097; r = n mod 146097;
          b = min 3 (r div 36524); r2 = r - 36524 * b;
          c = r2 div 1461; r3 = r2 mod 1461;
          d = min 3 (r3 div 365)
      in 400 * a + 100 * b + 4 * c + d + 1)"

definition day_of_year :: "int \<Rightarrow> int" where
  "day_of_year n = n - days_before_year (year_of n)"

fun month_scan :: "int \<Rightarrow> int \<Rightarrow> int list \<Rightarrow> int" where
  "month_scan y k [] = 12"
| "month_scan y k (m # ms) = (if k < days_before_month y m then m - 1 else month_scan y k ms)"

definition month_find :: "int \<Rightarrow> int \<Rightarrow> int" where
  "month_find y k = month_scan y k [2, 3, 4, 5, 6, 7, 8, 9, 10, 11, 12]"

definition month_of :: "int \<Rightarrow> int" where
  "month_of n = month_find (year_of n) (day_of_year n)"

definition day_of :: "int \<Rightarrow> int" where
  "day_of n = day_of_year n - days_before_month (year_of n) (month_of n) + 1"

subsection \<open>Years\<close>

lemma days_before_year_split:
  assumes "0 \<le> b" "b \<le> 3" "0 \<le> c" "c \<le> 24" "0 \<le> d" "d \<le> 3"
  shows "days_before_year (400 * a + 100 * b + 4 * c + d + 1)
         = 146097 * a + 36524 * b + 1461 * c + 365 * d"
proof -
  have 1: "(400 * a + 100 * b + 4 * c + d) div 4 = 100 * a + 25 * b + c"
    by (rule int_div_pos_eq [where r = d]) (use assms in auto)
  have 2: "(400 * a + 100 * b + 4 * c + d) div 100 = 4 * a + b"
    by (rule int_div_pos_eq [where r = "4 * c + d"]) (use assms in auto)
  have 3: "(400 * a + 100 * b + 4 * c + d) div 400 = a"
    by (rule int_div_pos_eq [where r = "100 * b + 4 * c + d"]) (use assms in auto)
  show ?thesis unfolding days_before_year_def by (simp add: 1 2 3)
qed

lemma is_leap_split:
  assumes "0 \<le> b" "b \<le> 3" "0 \<le> c" "c \<le> 24" "0 \<le> d" "d \<le> 3"
  shows "is_leap (400 * a + 100 * b + 4 * c + d + 1) \<longleftrightarrow> d = 3 \<and> (c \<noteq> 24 \<or> b = 3)"
proof -
  have 1: "(400 * a + 100 * b + 4 * c + d + 1) mod 4 = 0 \<longleftrightarrow> d = 3"
  proof (cases "d = 3")
    case True
    have "(400 * a + 100 * b + 4 * c + d + 1) mod 4 = 0"
      by (rule int_mod_pos_eq [where q = "100 * a + 25 * b + c + 1"]) (use True in auto)
    with True show ?thesis by simp
  next
    case False
    have "(400 * a + 100 * b + 4 * c + d + 1) mod 4 = d + 1"
      by (rule int_mod_pos_eq [where q = "100 * a + 25 * b + c"]) (use False assms in auto)
    with False assms show ?thesis by simp
  qed
  have 2: "(400 * a + 100 * b + 4 * c + d + 1) mod 100 = 0 \<longleftrightarrow> d = 3 \<and> c = 24"
  proof (cases "d = 3 \<and> c = 24")
    case True
    have "(400 * a + 100 * b + 4 * c + d + 1) mod 100 = 0"
      by (rule int_mod_pos_eq [where q = "4 * a + b + 1"]) (use True in auto)
    with True show ?thesis by simp
  next
    case False
    have "(400 * a + 100 * b + 4 * c + d + 1) mod 100 = 4 * c + d + 1"
      by (rule int_mod_pos_eq [where q = "4 * a + b"]) (use False assms in auto)
    with False assms show ?thesis by simp
  qed
  have 3: "(400 * a + 100 * b + 4 * c + d + 1) mod 400 = 0 \<longleftrightarrow> d = 3 \<and> c = 24 \<and> b = 3"
  proof (cases "d = 3 \<and> c = 24 \<and> b = 3")
    case True
    have "(400 * a + 100 * b + 4 * c + d + 1) mod 400 = 0"
      by (rule int_mod_pos_eq [where q = "a + 1"]) (use True in auto)
    with True show ?thesis by simp
  next
    case False
    have "(400 * a + 100 * b + 4 * c + d + 1) mod 400 = 100 * b + 4 * c + d + 1"
      by (rule int_mod_pos_eq [where q = a]) (use False assms in auto)
    with False assms show ?thesis by simp
  qed
  show ?thesis unfolding is_leap_def by (simp only: 1 2 3) blast
qed

lemma div_pred:
  fixes y k :: int
  assumes "0 < k"
  shows "y div k = (y - 1) div k + (if y mod k = 0 then 1 else 0)"
proof (cases "y mod k = 0")
  case True
  have "(y - 1) div k = y div k - 1"
    by (rule int_div_pos_eq [where r = "k - 1"])
      (use True assms mult_div_mod_eq [of k y] in \<open>auto simp: algebra_simps\<close>)
  with True show ?thesis by simp
next
  case False
  have "(y - 1) div k = y div k"
    by (rule int_div_pos_eq [where r = "y mod k - 1"])
      (use False assms mult_div_mod_eq [of k y] pos_mod_sign [of k y] pos_mod_bound [of k y]
       in \<open>auto simp: less_le\<close>)
  with False show ?thesis by simp
qed

lemma leap_count_step:
  fixes y a b c :: int
  assumes "a' = a + (if A then 1 else 0)" "b' = b + (if B then 1 else 0)"
    and "c' = c + (if C then 1 else 0)" "C \<Longrightarrow> B" "B \<Longrightarrow> A"
  shows "365 * y + a' - b' + c' = 365 * (y - 1) + a - b + c + (if A \<and> (\<not> B \<or> C) then 366 else 365)"
  using assms by (cases A; cases B; cases C) auto

lemma days_before_year_Suc:
  "days_before_year (y + 1) = days_before_year y + (if is_leap y then 366 else 365)"
  unfolding days_before_year_def is_leap_def add_diff_cancel_right'
  by (rule leap_count_step)
    (rule div_pred, simp, rule div_pred, simp, rule div_pred, simp,
     use dvd_trans [of 100 400 y] dvd_trans [of 4 100 y] in \<open>simp_all add: mod_eq_0_iff_dvd\<close>)

lemma days_before_year_mono: "y \<le> z \<Longrightarrow> days_before_year y + 365 * (z - y) \<le> days_before_year z"
proof (induction z rule: int_ge_induct)
  case base
  then show ?case by simp
next
  case (step i)
  then show ?case using days_before_year_Suc [of i] by (auto simp: algebra_simps split: if_splits)
qed

lemma year_of_bounds:
  "days_before_year (year_of n) \<le> n \<and> n < days_before_year (year_of n + 1)"
proof -
  define a where "a = n div 146097"
  define r where "r = n mod 146097"
  define b where "b = min 3 (r div 36524)"
  define r2 where "r2 = r - 36524 * b"
  define c where "c = r2 div 1461"
  define r3 where "r3 = r2 mod 1461"
  define d where "d = min 3 (r3 div 365)"
  have y: "year_of n = 400 * a + 100 * b + 4 * c + d + 1"
    by (simp add: year_of_def Let_def a_def r_def b_def r2_def c_def r3_def d_def)
  have n: "n = 146097 * a + r" and r: "0 \<le> r" "r \<le> 146096" by (auto simp: a_def r_def)
  have b: "0 \<le> b" "b \<le> 3" using r by (auto simp: b_def min_def)
  have r2: "0 \<le> r2" "r2 \<le> 36524" "b \<noteq> 3 \<Longrightarrow> r2 \<le> 36523"
    using r by (auto simp: r2_def b_def min_def)
  have c: "0 \<le> c" "c \<le> 24" using r2 by (auto simp: c_def)
  have r3: "0 \<le> r3" "r3 \<le> 1460" "r2 = 1461 * c + r3" by (auto simp: r3_def c_def)
  have r3': "c = 24 \<Longrightarrow> b \<noteq> 3 \<Longrightarrow> r3 \<le> 1459" using r2 r3 by auto
  have d: "0 \<le> d" "d \<le> 3" using r3 by (auto simp: d_def min_def)
  have rest: "0 \<le> r3 - 365 * d" "d \<noteq> 3 \<Longrightarrow> r3 - 365 * d \<le> 364" "d = 3 \<Longrightarrow> r3 - 365 * d \<le> 365"
    using r3(1,2) unfolding d_def min_def by (auto split: if_splits)
  have tot: "n = 146097 * a + 36524 * b + 1461 * c + r3" using n r3(3) by (simp add: r2_def)
  have dby: "days_before_year (year_of n) = 146097 * a + 36524 * b + 1461 * c + 365 * d"
    unfolding y by (rule days_before_year_split) (use b c d in auto)
  have leap: "is_leap (year_of n) \<longleftrightarrow> d = 3 \<and> (c \<noteq> 24 \<or> b = 3)"
    unfolding y by (rule is_leap_split) (use b c d in auto)
  have "n < days_before_year (year_of n) + (if is_leap (year_of n) then 366 else 365)"
    using tot dby leap rest r3' r3 by auto
  then show ?thesis using tot dby rest(1) days_before_year_Suc [of "year_of n"] by auto
qed

lemma year_of_unique:
  assumes "days_before_year y \<le> n" "n < days_before_year (y + 1)"
  shows "year_of n = y"
proof (rule ccontr)
  assume "year_of n \<noteq> y"
  then consider "year_of n + 1 \<le> y" | "y + 1 \<le> year_of n" by linarith
  then show False
  proof cases
    case 1
    then show False using days_before_year_mono [OF 1] year_of_bounds [of n] assms by auto
  next
    case 2
    then show False using days_before_year_mono [OF 2] year_of_bounds [of n] assms by auto
  qed
qed

subsection \<open>Months and days\<close>

lemma month_cases [consumes 2]:
  fixes m :: int
  assumes "1 \<le> m" "m \<le> 12"
  obtains "m = 1" | "m = 2" | "m = 3" | "m = 4" | "m = 5" | "m = 6" | "m = 7" | "m = 8"
    | "m = 9" | "m = 10" | "m = 11" | "m = 12"
proof -
  have "m = 1 \<or> m = 2 \<or> m = 3 \<or> m = 4 \<or> m = 5 \<or> m = 6 \<or> m = 7 \<or> m = 8 \<or> m = 9 \<or> m = 10
    \<or> m = 11 \<or> m = 12"
    using assms by arith
  then show thesis using that by blast
qed

lemmas month_simps = month_start_def days_before_month_def days_in_month_def

lemma days_before_month_1 [simp]: "days_before_month y 1 = 0"
  by (simp add: month_simps)

lemma days_before_month_Suc:
  assumes "1 \<le> m" "m < 12"
  shows "days_before_month y (m + 1) = days_before_month y m + days_in_month y m"
proof -
  have "m \<le> 12" using assms by simp
  with assms(1) show ?thesis using assms(2)
    by (cases rule: month_cases) (simp_all add: month_simps)
qed

lemma days_before_month_12: "days_before_month y 12 + days_in_month y 12 = (if is_leap y then 366 else 365)"
  by (simp add: month_simps)

lemma days_in_month_bounds: "28 \<le> days_in_month y m" "days_in_month y m \<le> 31"
  by (auto simp: days_in_month_def)

lemma days_before_month_nonneg: "1 \<le> m \<Longrightarrow> m \<le> 12 \<Longrightarrow> 0 \<le> days_before_month y m"
  by (cases rule: month_cases) (simp_all add: month_simps)

lemma days_before_month_end:
  "1 \<le> m \<Longrightarrow> m \<le> 12 \<Longrightarrow> days_before_month y m + days_in_month y m \<le> (if is_leap y then 366 else 365)"
  by (cases rule: month_cases) (simp_all add: month_simps)

text \<open>The month search returns the month whose days contain the day of the year.\<close>

definition leap_day :: "int \<Rightarrow> int" where
  "leap_day y = (if is_leap y then 1 else 0)"

lemma leap_day_bounds: "0 \<le> leap_day y" "leap_day y \<le> 1"
  by (auto simp: leap_day_def)

lemma month_offsets:
  "days_before_month y 2 = 31" "days_before_month y 3 = 59 + leap_day y"
  "days_before_month y 4 = 90 + leap_day y" "days_before_month y 5 = 120 + leap_day y"
  "days_before_month y 6 = 151 + leap_day y" "days_before_month y 7 = 181 + leap_day y"
  "days_before_month y 8 = 212 + leap_day y" "days_before_month y 9 = 243 + leap_day y"
  "days_before_month y 10 = 273 + leap_day y" "days_before_month y 11 = 304 + leap_day y"
  "days_before_month y 12 = 334 + leap_day y"
  by (simp_all add: month_simps leap_day_def)

lemma month_lengths:
  "days_in_month y 1 = 31" "days_in_month y 2 = 28 + leap_day y" "days_in_month y 3 = 31"
  "days_in_month y 4 = 30" "days_in_month y 5 = 31" "days_in_month y 6 = 30" "days_in_month y 7 = 31"
  "days_in_month y 8 = 31" "days_in_month y 9 = 30" "days_in_month y 10 = 31"
  "days_in_month y 11 = 30" "days_in_month y 12 = 31"
  by (simp_all add: month_simps leap_day_def)

lemma month_scan_lt: "k < days_before_month y m \<Longrightarrow> month_scan y k (m # ms) = m - 1"
  by simp

lemma month_scan_ge: "days_before_month y m \<le> k \<Longrightarrow> month_scan y k (m # ms) = month_scan y k ms"
  by simp

lemma month_chain:
  assumes "1 \<le> m" "m \<le> 12" "days_before_month y m \<le> k" "k < days_before_month y m + days_in_month y m"
  shows "month_find y k = m"
  using assms leap_day_bounds [of y] unfolding month_find_def
  by (cases rule: month_cases)
    (simp_all add: month_scan_lt month_scan_ge month_offsets month_lengths del: month_scan.simps(2))

lemma step_exists:
  fixes f :: "nat \<Rightarrow> int"
  shows "f 0 \<le> k \<Longrightarrow> k < f n \<Longrightarrow> \<exists>i < n. f i \<le> k \<and> k < f (Suc i)"
proof (induction n)
  case (Suc n)
  then show ?case by (cases "k < f n") (auto simp: less_Suc_eq)
qed simp

lemma month_exists:
  assumes "0 \<le> k" "k < (if is_leap y then 366 else 365)"
  obtains m where "1 \<le> m" "m \<le> 12" "days_before_month y m \<le> k"
    "k < days_before_month y m + days_in_month y m"
proof -
  define f where "f i = (if i < 12 then days_before_month y (int i + 1)
    else (if is_leap y then 366 else 365))" for i :: nat
  have "f 0 \<le> k" "k < f 12" using assms by (simp_all add: f_def)
  then obtain i where i: "i < 12" "f i \<le> k" "k < f (Suc i)" using step_exists by blast
  have "f (Suc i) = days_before_month y (int i + 1) + days_in_month y (int i + 1)"
  proof (cases "i = 11")
    case True
    then show ?thesis using days_before_month_12 [of y] by (simp add: f_def)
  next
    case False
    then show ?thesis using i(1) days_before_month_Suc [of "int i + 1" y] by (simp add: f_def)
  qed
  with i show thesis by (intro that [of "int i + 1"]) (auto simp: f_def)
qed

lemma month_scan_bounds:
  "(\<forall>m \<in> set ms. 2 \<le> m \<and> m \<le> 12) \<Longrightarrow> 1 \<le> month_scan y k ms \<and> month_scan y k ms \<le> 12"
  by (induction ms) auto

text \<open>A valid date is recovered from its day number.\<close>

lemma civil_of_date:
  assumes m: "1 \<le> m" "m \<le> 12" and d: "1 \<le> d" "d \<le> days_in_month y m"
    and n: "n = days_before_year y + days_before_month y m + (d - 1)"
  shows "year_of n = y" "month_of n = m" "day_of n = d"
proof -
  have k: "0 \<le> days_before_month y m + (d - 1)"
    "days_before_month y m + (d - 1) < (if is_leap y then 366 else 365)"
    using days_before_month_nonneg [OF m, of y] days_before_month_end [OF m, of y] d by auto
  show y: "year_of n = y"
    by (rule year_of_unique) (use n k days_before_year_Suc [of y] in auto)
  have doy: "day_of_year n = days_before_month y m + (d - 1)"
    using n y by (simp add: day_of_year_def)
  show mo: "month_of n = m"
    unfolding month_of_def doy y by (rule month_chain) (use m d in auto)
  show "day_of n = d"
    by (simp add: day_of_def doy y mo)
qed

lemma month_of_bounds: "1 \<le> month_of n" "month_of n \<le> 12"
  using month_scan_bounds [of "[2, 3, 4, 5, 6, 7, 8, 9, 10, 11, 12]"]
  by (simp_all add: month_of_def month_find_def del: month_scan.simps)

text \<open>Every day number is a valid date.\<close>

lemma day_number_date:
  "days_before_year (year_of n) + days_before_month (year_of n) (month_of n) + (day_of n - 1) = n"
  by (simp add: day_of_def day_of_year_def)

lemma day_of_bounds: "1 \<le> day_of n" "day_of n \<le> days_in_month (year_of n) (month_of n)"
proof -
  let ?y = "year_of n"
  have "0 \<le> day_of_year n" "day_of_year n < (if is_leap ?y then 366 else 365)"
    using year_of_bounds [of n] days_before_year_Suc [of ?y] by (auto simp: day_of_year_def)
  then obtain m where m: "1 \<le> m" "m \<le> 12" "days_before_month ?y m \<le> day_of_year n"
    "day_of_year n < days_before_month ?y m + days_in_month ?y m"
    by (rule month_exists)
  then have "month_of n = m" by (simp add: month_of_def month_chain)
  then show "1 \<le> day_of n" "day_of n \<le> days_in_month ?y (month_of n)"
    using m(3,4) by (simp_all add: day_of_def)
qed

subsection \<open>The normalising constructor\<close>

lemma go_date_valid:
  assumes "1 \<le> m" "m \<le> 12" "1 \<le> d" "d \<le> days_in_month y m"
  shows "year_of (go_date y m d) = y" "month_of (go_date y m d) = m" "day_of (go_date y m d) = d"
proof -
  have n: "go_date y m d = days_before_year y + days_before_month y m + (d - 1)"
    using assms(1,2) by (simp add: go_date_def Let_def)
  show "year_of (go_date y m d) = y" by (rule civil_of_date(1) [OF assms n])
  show "month_of (go_date y m d) = m" by (rule civil_of_date(2) [OF assms n])
  show "day_of (go_date y m d) = d" by (rule civil_of_date(3) [OF assms n])
qed

lemma go_date_civil [simp]: "go_date (year_of n) (month_of n) (day_of n) = n"
  using month_of_bounds [of n] day_number_date [of n] by (simp add: go_date_def Let_def)

lemma go_date_day_add: "go_date y m (d + k) = go_date y m d + k"
  by (simp add: go_date_def Let_def)

text \<open>\<open>AddDate(y, m, d)\<close> on the civil day number: the clock reading is kept by the callers.\<close>

definition add_date :: "int \<Rightarrow> int \<Rightarrow> int \<Rightarrow> int \<Rightarrow> int" where
  "add_date n y m d = go_date (year_of n + y) (month_of n + m) (day_of n + d)"

lemma add_date_days [simp]: "add_date n 0 0 k = n + k"
  by (simp add: add_date_def go_date_day_add)

text \<open>The month a number of months away, normalised.\<close>

definition month_shift :: "int \<Rightarrow> int \<Rightarrow> int \<Rightarrow> int \<times> int" where
  "month_shift y m k = (y + (m + k - 1) div 12, (m + k - 1) mod 12 + 1)"

lemma month_shift_bounds: "month_shift y m k = (y', m') \<Longrightarrow> 1 \<le> m' \<and> m' \<le> 12"
  by (auto simp: month_shift_def)

lemma go_date_shift:
  "month_shift y m k = (y', m') \<Longrightarrow> go_date y (m + k) d = go_date y' m' d"
  by (auto simp: month_shift_def go_date_def Let_def algebra_simps)

text \<open>The first of the next month follows the last day of this one.\<close>

lemma go_date_next_month:
  assumes "1 \<le> m" "m \<le> 12"
  shows "go_date y (m + 1) 1 = go_date y m 1 + days_in_month y m"
proof (cases "m = 12")
  case True
  then show ?thesis
    using days_before_month_12 [of y] days_before_year_Suc [of y]
    by (simp add: go_date_def Let_def)
next
  case False
  with assms have m: "m < 12" by simp
  then show ?thesis using assms days_before_month_Suc [of m y]
    by (simp add: go_date_def Let_def)
qed

text \<open>A day of the month past the end of the month overflows into the next one.\<close>

lemma go_date_overflow:
  assumes "1 \<le> m" "m \<le> 12"
  shows "go_date y m d = go_date y (m + 1) (d - days_in_month y m)"
  using go_date_next_month [OF assms, of y] go_date_day_add [of y m 1 "d - 1"]
    go_date_day_add [of y "m + 1" 1 "d - days_in_month y m - 1"] by simp

text \<open>Months counted on one line: the first day of a month index, one month after the other.\<close>

definition first_of :: "int \<Rightarrow> int" where
  "first_of M = go_date (M div 12) (M mod 12 + 1) 1"

lemma go_date_month_index: "go_date y m d = first_of (12 * y + m - 1) + d - 1"
proof -
  have "(12 * y + m - 1) div 12 = y + (m - 1) div 12" "(12 * y + m - 1) mod 12 = (m - 1) mod 12"
    using div_mult_self2 [of 12 "m - 1" y] mod_mult_self2 [of "m - 1" 12 y]
    by (simp_all add: algebra_simps)
  then show ?thesis by (simp add: first_of_def go_date_def Let_def)
qed

lemma first_of_Suc: "first_of M + 28 \<le> first_of (M + 1)"
proof -
  have "first_of (M + 1) = go_date (M div 12) (M mod 12 + 1 + 1) 1"
    unfolding go_date_month_index using mult_div_mod_eq [of 12 M] by (simp add: algebra_simps)
  then show ?thesis
    using go_date_next_month [of "M mod 12 + 1" "M div 12"] days_in_month_bounds(1)
      [of "M div 12" "M mod 12 + 1"] by (simp add: first_of_def)
qed

lemma first_of_mono: "M \<le> N \<Longrightarrow> first_of M \<le> first_of N"
proof (induction N rule: int_ge_induct)
  case (step i)
  then show ?case using first_of_Suc [of i] by simp
qed simp

definition month_index :: "int \<Rightarrow> int" where
  "month_index n = 12 * year_of n + month_of n - 1"

lemma before_next_month: "n < first_of (month_index n + 1)"
proof -
  have "first_of (month_index n + 1) = go_date (year_of n) (month_of n + 1) 1"
    by (simp add: go_date_month_index month_index_def algebra_simps)
  moreover have "n = go_date (year_of n) (month_of n) 1 + (day_of n - 1)"
    using go_date_day_add [of "year_of n" "month_of n" 1 "day_of n - 1"] by simp
  ultimately show ?thesis
    using go_date_next_month [OF month_of_bounds, of "year_of n" n] day_of_bounds(2) [of n] by linarith
qed

lemma add_date_later:
  assumes "1 \<le> k" "1 \<le> d"
  shows "n < first_of (month_index n + k) + d - 1"
  using before_next_month [of n] first_of_mono [of "month_index n + 1" "month_index n + k"] assms
  by linarith

lemma month_shift_later:
  assumes "1 \<le> d" "month_shift (year_of n) (month_of n) k = (y', m')" "1 \<le> k"
  shows "n < go_date y' m' d"
proof -
  have "go_date y' m' d = go_date (year_of n) (month_of n + k) d"
    using go_date_shift [OF assms(2)] by simp
  then show ?thesis using add_date_later [OF assms(3,1), of n]
    by (simp add: go_date_month_index month_index_def algebra_simps)
qed

section \<open>Instants and durations\<close>

text \<open>Durations are nanoseconds; \<open>Time.Sub\<close> saturates at the ends of the 64-bit range.\<close>

definition second :: int where "second = 1000000000"
definition minute :: int where "minute = 60 * second"
definition hour :: int where "hour = 60 * minute"
definition nanos_per_day :: int where "nanos_per_day = 24 * hour"

lemmas dur_defs = second_def minute_def hour_def nanos_per_day_def

definition sub_time :: "int \<Rightarrow> int \<Rightarrow> int" where
  "sub_time t u = max (- (2 ^ 63)) (min (2 ^ 63 - 1) (t - u))"

lemma sub_time_exact: "\<bar>t - u\<bar> < 2 ^ 63 \<Longrightarrow> sub_time t u = t - u"
  by (auto simp: sub_time_def)

text \<open>\<open>math.Round\<close> of a quotient: to the nearest integer, halves away from zero. \<open>int(...)\<close> of a
  quotient truncates towards zero.\<close>

definition round_quot :: "int \<Rightarrow> int \<Rightarrow> int" where
  "round_quot a b = sgn a * ((2 * \<bar>a\<bar> + b) div (2 * b))"

definition trunc_quot :: "int \<Rightarrow> int \<Rightarrow> int" where
  "trunc_quot a b = sgn a * (\<bar>a\<bar> div b)"

lemma round_quot_near:
  assumes b: "0 < b" and e: "2 * \<bar>e\<bar> < b"
  shows "round_quot (k * b + e) b = k"
proof -
  have *: "(2 * \<bar>k * b + e\<bar> + b) div (2 * b) = \<bar>k\<bar>" if "k \<noteq> 0"
  proof -
    have s: "\<bar>k * b + e\<bar> = \<bar>k\<bar> * b + sgn k * e"
    proof (cases "0 < k")
      case True
      then have "b \<le> k * b" using b by simp
      moreover from this have "0 \<le> k * b + e" using e b by linarith
      ultimately show ?thesis using True by simp
    next
      case False
      with that have "k \<le> -1" by simp
      then have "k * b \<le> -1 * b" using b by (intro mult_right_mono) auto
      moreover from this have "k * b + e < 0" using e b by linarith
      ultimately show ?thesis using False that by (simp add: abs_if)
    qed
    have se: "2 * \<bar>sgn k * e\<bar> < b" using e that by (simp add: abs_mult)
    show ?thesis
      by (rule int_div_pos_eq [where r = "2 * (sgn k * e) + b"])
        (use s se b in \<open>auto simp: algebra_simps\<close>)
  qed
  show ?thesis
  proof (cases "k = 0")
    case True
    have "(2 * \<bar>e\<bar> + b) div (2 * b) = 0" using e b by (intro div_pos_pos_trivial) auto
    with True show ?thesis by (simp add: round_quot_def)
  next
    case False
    have "sgn (k * b + e) = sgn k"
    proof (cases "0 < k")
      case True
      then have "b \<le> k * b" using b by simp
      then show ?thesis using True e by simp
    next
      case F: False
      with False have "k \<le> -1" by simp
      then have "k * b \<le> -1 * b" using b by (intro mult_right_mono) auto
      moreover from this have "k * b + e < 0" using e b by linarith
      ultimately show ?thesis using F False by (simp add: sgn_if)
    qed
    then show ?thesis using * [OF False] by (simp add: round_quot_def sgn_mult_abs)
  qed
qed

section \<open>Locations\<close>

text \<open>What a \<open>*time.Location\<close> provides: the local civil day and the nanosecond of the day an instant
  reads as, and the instant of a local reading. The time zone database is outside the source, so a
  location is a parameter; UTC is the one the code names.\<close>

record zone =
  civil_day :: "int \<Rightarrow> int"
  clock_of :: "int \<Rightarrow> int"
  instant_at :: "int \<Rightarrow> int \<Rightarrow> int"

definition utc :: zone where
  "utc = \<lparr>civil_day = (\<lambda>t. t div nanos_per_day), clock_of = (\<lambda>t. t mod nanos_per_day),
          instant_at = (\<lambda>n c. n * nanos_per_day + c)\<rparr>"

definition midnight :: "zone \<Rightarrow> int \<Rightarrow> int" where
  "midnight z n = instant_at z n 0"

definition add_date_in :: "zone \<Rightarrow> int \<Rightarrow> int \<Rightarrow> int \<Rightarrow> int \<Rightarrow> int" where
  "add_date_in z t y m d = instant_at z (add_date (civil_day z t) y m d) (clock_of z t)"

text \<open>A location is regular on a set of days when each has a midnight that reads back as that day,
  later days have later midnights, and the midnights are whole days apart up to less than half a
  day of offset change (a daylight-saving transition moves them by an hour or so).\<close>

definition regular_on :: "zone \<Rightarrow> int set \<Rightarrow> bool" where
  "regular_on z D \<longleftrightarrow>
     (\<forall>n \<in> D. civil_day z (midnight z n) = n \<and> clock_of z (midnight z n) = 0) \<and>
     (\<forall>a \<in> D. \<forall>b \<in> D. a < b \<longrightarrow> midnight z a < midnight z b) \<and>
     (\<forall>a \<in> D. \<forall>b \<in> D. 2 * \<bar>midnight z b - midnight z a - (b - a) * nanos_per_day\<bar> < nanos_per_day)"

lemma regular_utc: "regular_on utc D"
  by (simp add: regular_on_def utc_def midnight_def dur_defs)

lemma regular_less_iff:
  "regular_on z D \<Longrightarrow> a \<in> D \<Longrightarrow> b \<in> D \<Longrightarrow> midnight z a < midnight z b \<longleftrightarrow> a < b"
  unfolding regular_on_def by (metis linorder_neqE_linordered_idom order_less_asym order_less_irrefl)

lemma regular_subset: "regular_on z D \<Longrightarrow> E \<subseteq> D \<Longrightarrow> regular_on z E"
  unfolding regular_on_def by blast

end
