(* ===== verification/Recurrence.thy ===== *)
theory Recurrence imports GoTime begin

text \<open>
  Reminder recurrence and the date formats of notification mails
  (\<open>backend/services/reminder_service.go\<close>): the clamping \<open>addMonths\<close>, the leap-day \<open>addYears\<close>,
  \<open>CalculateNextReminderTime\<close>, the upcoming-reminders rule of the dashboard, and the two display
  formatters, one for instants and one for stored birthday strings.
\<close>

section \<open>Reminders\<close>

record reminder =
  rem_id :: nat
  rem_user :: nat
  rem_message :: string
  rem_by_mail :: "bool option"
  rem_at :: int
  rem_recurrence :: string
  rem_from_completion :: "bool option"
  rem_completed :: bool
  rem_email_sent :: bool
  rem_last_sent :: "int option"
  rem_contact :: "nat option"

section \<open>Month and year arithmetic\<close>

definition addMonths :: "zone \<Rightarrow> int \<Rightarrow> int \<Rightarrow> int" where
  "addMonths z t months =
     (let originalDay = day_of (civil_day z t);
          result = add_date_in z t 0 months 0
      in if day_of (civil_day z result) \<noteq> originalDay
         then add_date_in z result 0 0 (- day_of (civil_day z result))
         else result)"

definition addYears :: "zone \<Rightarrow> int \<Rightarrow> int \<Rightarrow> int" where
  "addYears z t years = add_date_in z t years 0 0"

definition CalculateNextReminderTime :: "int \<Rightarrow> reminder \<Rightarrow> int" where
  "CalculateNextReminderTime now r =
     (let remindAtUTC = rem_at r;
          reoccurFromCompletion = (case rem_from_completion r of None \<Rightarrow> True | Some b \<Rightarrow> b);
          baseTime = (if reoccurFromCompletion
                      then (if now < remindAtUTC then remindAtUTC else midnight utc (civil_day utc now))
                      else remindAtUTC)
      in if rem_recurrence r = ''once'' then rem_at r
         else if rem_recurrence r = ''weekly'' then add_date_in utc baseTime 0 0 7
         else if rem_recurrence r = ''monthly'' then addMonths utc baseTime 1
         else if rem_recurrence r = ''quarterly'' then addMonths utc baseTime 3
         else if rem_recurrence r = ''six-months'' then addMonths utc baseTime 6
         else if rem_recurrence r = ''yearly'' then addYears utc baseTime 1
         else rem_at r)"

subsection \<open>UTC readings\<close>

lemma nanos_pos: "0 < nanos_per_day"
  by (simp add: dur_defs)

lemma utc_day_of_instant [simp]:
  "0 \<le> c \<Longrightarrow> c < nanos_per_day \<Longrightarrow> civil_day utc (instant_at utc n c) = n"
  using nanos_pos by (simp add: utc_def)

lemma utc_clock_of_instant [simp]:
  "0 \<le> c \<Longrightarrow> c < nanos_per_day \<Longrightarrow> clock_of utc (instant_at utc n c) = c"
  by (simp add: utc_def)

lemma utc_clock_bounds [simp]: "0 \<le> clock_of utc t" "clock_of utc t < nanos_per_day"
  using nanos_pos by (simp_all add: utc_def)

lemma utc_instant_split: "instant_at utc (civil_day utc t) (clock_of utc t) = t"
  by (simp add: utc_def)

lemma utc_add_date [simp]:
  "civil_day utc (add_date_in utc t y m d) = add_date (civil_day utc t) y m d"
  "clock_of utc (add_date_in utc t y m d) = clock_of utc t"
  by (simp_all add: add_date_in_def)

lemma utc_day_less: "civil_day utc t < civil_day utc u \<Longrightarrow> t < u"
  using zdiv_mono1 [of u t nanos_per_day] nanos_pos by (force simp: utc_def)

lemma utc_midnight_le: "midnight utc (civil_day utc t) \<le> t"
proof -
  have "t div nanos_per_day * nanos_per_day + t mod nanos_per_day = t" by (rule div_mult_mod_eq)
  then have "t div nanos_per_day * nanos_per_day \<le> t"
    using pos_mod_sign [OF nanos_pos, of t] by linarith
  then show ?thesis by (simp add: midnight_def utc_def)
qed

lemma utc_day_midnight [simp]: "civil_day utc (midnight utc n) = n"
  using nanos_pos by (simp add: midnight_def)

subsection \<open>The month arithmetic in closed form\<close>

definition clamp_day :: "int \<Rightarrow> int \<Rightarrow> int \<Rightarrow> int" where
  "clamp_day y m d = min d (days_in_month y m)"

lemma add_date_months:
  assumes "month_shift (year_of n) (month_of n) k = (y', m')"
  shows "add_date n 0 k 0 = go_date y' m' (day_of n)"
  using go_date_shift [OF assms] by (simp add: add_date_def)

text \<open>Day numbers of the overflowing and of the clamped date.\<close>

lemma overflow_day:
  assumes m: "1 \<le> m" "m \<le> 12" and d: "1 \<le> d" "d \<le> 31"
  shows "day_of (go_date y m d) = (if d \<le> days_in_month y m then d else d - days_in_month y m)"
    and "go_date y m d - (if d \<le> days_in_month y m then 0 else d - days_in_month y m)
         = go_date y m (min d (days_in_month y m))"
proof -
  show "day_of (go_date y m d) = (if d \<le> days_in_month y m then d else d - days_in_month y m)"
  proof (cases "d \<le> days_in_month y m")
    case True
    then show ?thesis using go_date_valid(3) [OF m d(1)] by simp
  next
    case False
    let ?e = "d - days_in_month y m"
    obtain y1 m1 where s: "month_shift y m 1 = (y1, m1)" by fastforce
    have m1: "1 \<le> m1" "m1 \<le> 12" using month_shift_bounds [OF s] by auto
    have e: "1 \<le> ?e" "?e \<le> days_in_month y1 m1"
      using False d days_in_month_bounds(1) [of y m] days_in_month_bounds(1) [of y1 m1] by auto
    have "go_date y m d = go_date y1 m1 ?e"
      using go_date_overflow [OF m, of y d] go_date_shift [OF s, of ?e] by simp
    then show ?thesis using go_date_valid(3) [OF m1 e] False by simp
  qed
  show "go_date y m d - (if d \<le> days_in_month y m then 0 else d - days_in_month y m)
         = go_date y m (min d (days_in_month y m))"
    using go_date_day_add [of y m "days_in_month y m" "d - days_in_month y m"] by (simp add: min_def)
qed

lemma utc_addMonths_day:
  assumes s: "month_shift (year_of (civil_day utc t)) (month_of (civil_day utc t)) k = (y', m')"
  shows "civil_day utc (addMonths utc t k) = go_date y' m' (clamp_day y' m' (day_of (civil_day utc t)))"
    and "clock_of utc (addMonths utc t k) = clock_of utc t"
proof -
  let ?n = "civil_day utc t"
  have m': "1 \<le> m'" "m' \<le> 12" using month_shift_bounds [OF s] by auto
  have d: "1 \<le> day_of ?n" "day_of ?n \<le> 31"
    using day_of_bounds [of ?n] days_in_month_bounds(2) [of "year_of ?n" "month_of ?n"] by auto
  have r: "civil_day utc (add_date_in utc t 0 k 0) = go_date y' m' (day_of ?n)"
    by (simp add: add_date_months [OF s])
  have L: "28 \<le> days_in_month y' m'" by (rule days_in_month_bounds)
  show "civil_day utc (addMonths utc t k) = go_date y' m' (clamp_day y' m' (day_of ?n))"
  proof (cases "day_of ?n \<le> days_in_month y' m'")
    case True
    then show ?thesis using overflow_day(1) [OF m' d, of y']
      by (simp add: addMonths_def Let_def add_date_months [OF s] clamp_day_def)
  next
    case False
    then show ?thesis using overflow_day [OF m' d, of y'] L
      by (simp add: addMonths_def Let_def add_date_months [OF s] clamp_day_def)
  qed
  show "clock_of utc (addMonths utc t k) = clock_of utc t"
    by (simp add: addMonths_def Let_def)
qed

lemma addMonths_later:
  assumes "1 \<le> k"
  shows "civil_day utc t < civil_day utc (addMonths utc t k)"
proof -
  let ?n = "civil_day utc t"
  obtain y' m' where s: "month_shift (year_of ?n) (month_of ?n) k = (y', m')" by fastforce
  have "1 \<le> clamp_day y' m' (day_of ?n)"
    using day_of_bounds(1) [of ?n] days_in_month_bounds(1) [of y' m'] by (simp add: clamp_day_def)
  then have "?n < go_date y' m' (clamp_day y' m' (day_of ?n))"
    by (rule month_shift_later [OF _ s assms])
  then show ?thesis by (simp only: utc_addMonths_day(1) [OF s])
qed

lemma addYears_later:
  assumes "1 \<le> k"
  shows "civil_day utc t < civil_day utc (addYears utc t k)"
proof -
  let ?n = "civil_day utc t"
  have "?n < add_date ?n k 0 0"
    using add_date_later [of "12 * k" "day_of ?n" ?n] assms day_of_bounds(1) [of ?n]
    by (simp add: add_date_def go_date_month_index month_index_def algebra_simps)
  then show ?thesis by (simp add: addYears_def)
qed

text \<open>The periods a reminder can recur with.\<close>

definition recurrence_periods :: "string list" where
  "recurrence_periods = [''weekly'', ''monthly'', ''quarterly'', ''six-months'', ''yearly'']"

definition next_base :: "int \<Rightarrow> reminder \<Rightarrow> int" where
  "next_base now r =
     (if rem_from_completion r = Some False \<or> now < rem_at r then rem_at r
      else midnight utc (civil_day utc now))"

lemma next_from_base:
  "rem_recurrence r = ''weekly'' \<Longrightarrow> CalculateNextReminderTime now r = add_date_in utc (next_base now r) 0 0 7"
  "rem_recurrence r = ''monthly'' \<Longrightarrow> CalculateNextReminderTime now r = addMonths utc (next_base now r) 1"
  "rem_recurrence r = ''quarterly'' \<Longrightarrow> CalculateNextReminderTime now r = addMonths utc (next_base now r) 3"
  "rem_recurrence r = ''six-months'' \<Longrightarrow> CalculateNextReminderTime now r = addMonths utc (next_base now r) 6"
  "rem_recurrence r = ''yearly'' \<Longrightarrow> CalculateNextReminderTime now r = addYears utc (next_base now r) 1"
  by (simp_all add: CalculateNextReminderTime_def next_base_def Let_def split: option.split)

section \<open>Date formats\<close>

text \<open>The layout elements of \<open>Time.Format\<close> the source uses, on a civil day.\<close>

definition fmt_year :: "int \<Rightarrow> string" where
  "fmt_year y = (if y < 0 then ''-'' else []) @
     (let a = nat \<bar>y\<bar> in if a < 10000 then pad4 a else show_nat a)"

definition month_names :: "string list" where
  "month_names = [''January'', ''February'', ''March'', ''April'', ''May'', ''June'', ''July'',
     ''August'', ''September'', ''October'', ''November'', ''December'']"

definition month_abbrevs :: "string list" where
  "month_abbrevs = [''Jan'', ''Feb'', ''Mar'', ''Apr'', ''May'', ''Jun'', ''Jul'', ''Aug'', ''Sep'',
     ''Oct'', ''Nov'', ''Dec'']"

definition fmt_01 :: "int \<Rightarrow> string" where "fmt_01 n = pad2 (nat (month_of n))"
definition fmt_02 :: "int \<Rightarrow> string" where "fmt_02 n = pad2 (nat (day_of n))"
definition fmt_2 :: "int \<Rightarrow> string" where "fmt_2 n = show_nat (nat (day_of n))"
definition fmt_2006 :: "int \<Rightarrow> string" where "fmt_2006 n = fmt_year (year_of n)"
definition fmt_Jan :: "int \<Rightarrow> string" where "fmt_Jan n = month_abbrevs ! nat (month_of n - 1)"
definition fmt_January :: "int \<Rightarrow> string" where "fmt_January n = month_names ! nat (month_of n - 1)"

definition fmt_iso :: "int \<Rightarrow> string" where
  "fmt_iso n = fmt_2006 n @ ''-'' @ fmt_01 n @ ''-'' @ fmt_02 n"

definition formatDateForUser :: "int \<Rightarrow> string \<Rightarrow> string" where
  "formatDateForUser n dateFormat =
     (if dateFormat = ''us'' then fmt_01 n @ ''/'' @ fmt_02 n @ ''/'' @ fmt_2006 n
      else if dateFormat = ''iso'' then fmt_2006 n @ ''-'' @ fmt_01 n @ ''-'' @ fmt_02 n
      else if dateFormat = ''ca'' then fmt_02 n @ ''/'' @ fmt_01 n @ ''/'' @ fmt_2006 n
      else if dateFormat = ''eu-hyphen'' then fmt_02 n @ ''-'' @ fmt_01 n @ ''-'' @ fmt_2006 n
      else if dateFormat = ''us-mmm'' then fmt_Jan n @ '' '' @ fmt_2 n @ '', '' @ fmt_2006 n
      else if dateFormat = ''us-mmmm'' then fmt_January n @ '' '' @ fmt_2 n @ '', '' @ fmt_2006 n
      else if dateFormat = ''eu-mmm'' then fmt_2 n @ '' '' @ fmt_Jan n @ '', '' @ fmt_2006 n
      else if dateFormat = ''eu-mmmm'' then fmt_02 n @ '' '' @ fmt_January n @ '', '' @ fmt_2006 n
      else fmt_02 n @ ''.'' @ fmt_01 n @ ''.'' @ fmt_2006 n)"

definition month_name_from :: "string list \<Rightarrow> string \<Rightarrow> string" where
  "month_name_from names month =
     (case atoi month of
        Some i \<Rightarrow> if 1 \<le> i \<and> i \<le> 12 then names ! nat (i - 1) else month
      | None \<Rightarrow> month)"

definition shortMonthName :: "string \<Rightarrow> string" where
  "shortMonthName month = month_name_from month_abbrevs month"

definition fullMonthName :: "string \<Rightarrow> string" where
  "fullMonthName month = month_name_from month_names month"

definition unpad :: "string \<Rightarrow> string" where
  "unpad s = (if length s = 2 \<and> hd s = CHR 0x30 then tl s else s)"

definition formatBirthdayForUser :: "string \<Rightarrow> string \<Rightarrow> string" where
  "formatBirthdayForUser birthday dateFormat =
     (if birthday = [] then []
      else if 2 \<le> length birthday \<and> slice birthday 0 2 = ''--'' then
        (if 7 \<le> length birthday then
           (let month = slice birthday 2 4; day = slice birthday 5 7
            in if dateFormat = ''us'' then month @ ''/'' @ day
               else if dateFormat = ''iso'' then month @ ''-'' @ day
               else if dateFormat = ''ca'' then day @ ''/'' @ month
               else if dateFormat = ''eu-hyphen'' then day @ ''-'' @ month
               else if dateFormat = ''us-mmm'' then shortMonthName month @ '' '' @ unpad day
               else if dateFormat = ''us-mmmm'' then fullMonthName month @ '' '' @ unpad day
               else if dateFormat = ''eu-mmm'' then unpad day @ '' '' @ shortMonthName month
               else if dateFormat = ''eu-mmmm'' then day @ '' '' @ fullMonthName month
               else day @ ''.'' @ month @ ''.'')
         else birthday)
      else if 10 \<le> length birthday then
        (let year = slice birthday 0 4; month = slice birthday 5 7; day = slice birthday 8 10
         in if dateFormat = ''us'' then month @ ''/'' @ day @ ''/'' @ year
            else if dateFormat = ''iso'' then year @ ''-'' @ month @ ''-'' @ day
            else if dateFormat = ''ca'' then day @ ''/'' @ month @ ''/'' @ year
            else if dateFormat = ''eu-hyphen'' then day @ ''-'' @ month @ ''-'' @ year
            else if dateFormat = ''us-mmm'' then shortMonthName month @ '' '' @ unpad day @ '', '' @ year
            else if dateFormat = ''us-mmmm'' then fullMonthName month @ '' '' @ unpad day @ '', '' @ year
            else if dateFormat = ''eu-mmm'' then unpad day @ '' '' @ shortMonthName month @ '', '' @ year
            else if dateFormat = ''eu-mmmm'' then day @ '' '' @ fullMonthName month @ '', '' @ year
            else day @ ''.'' @ month @ ''.'' @ year)
      else birthday)"

lemma month_name_pad2:
  "1 \<le> m \<Longrightarrow> m \<le> 12 \<Longrightarrow> month_name_from names (pad2 (nat m)) = names ! nat (m - 1)"
  by (simp add: month_name_from_def)

lemma digit_char_eq_0: "d < 10 \<Longrightarrow> digit_char d = CHR 0x30 \<longleftrightarrow> d = 0"
proof -
  have "digit_char 0 = CHR 0x30" by code_simp
  moreover have "digit_val (CHR 0x30) = 0" by (simp add: digit_val_def)
  moreover assume "d < 10"
  ultimately show ?thesis using digit_val_digit_char [of d] by metis
qed

lemma unpad_pad2: "0 < d \<Longrightarrow> d < 100 \<Longrightarrow> unpad (pad2 d) = show_nat d"
proof -
  assume d: "0 < d" "d < 100"
  show ?thesis
  proof (cases "d < 10")
    case True
    then show ?thesis using show_nat.simps [of d] digit_char_eq_0 [of 0] by (simp add: unpad_def pad2_def)
  next
    case False
    then have "digit_char (d div 10) \<noteq> CHR 0x30" using d digit_char_eq_0 [of "d div 10"] by simp
    moreover have "d div 10 < 10" using d by simp
    then have "show_nat d = pad2 d"
      using False show_nat.simps [of d] show_nat.simps [of "d div 10"] by (simp add: pad2_def)
    ultimately show ?thesis by (simp add: unpad_def pad2_def)
  qed
qed

text \<open>The pieces \<open>formatBirthdayForUser\<close> cuts out of an ISO date.\<close>

lemma iso_pieces:
  assumes "0 \<le> year_of n" "year_of n \<le> 9999"
  shows "length (fmt_iso n) = 10" "slice (fmt_iso n) 0 4 = fmt_2006 n"
    "slice (fmt_iso n) 5 7 = fmt_01 n" "slice (fmt_iso n) 8 10 = fmt_02 n"
    "slice (fmt_iso n) 0 2 \<noteq> ''--''"
proof -
  have y: "nat (year_of n) < 10000" using assms by simp
  then have "fmt_2006 n = pad4 (nat (year_of n))"
    using assms(1) by (simp add: fmt_2006_def fmt_year_def Let_def)
  moreover have "digit_char (nat (year_of n) div 1000) \<noteq> CHR 0x2D"
    using not_digit_sign [OF is_digit_digit_char, of "nat (year_of n) div 1000"] y by simp
  ultimately show "length (fmt_iso n) = 10" "slice (fmt_iso n) 0 4 = fmt_2006 n"
    "slice (fmt_iso n) 5 7 = fmt_01 n" "slice (fmt_iso n) 8 10 = fmt_02 n"
    "slice (fmt_iso n) 0 2 \<noteq> ''--''"
    by (simp_all add: fmt_iso_def pad4_def fmt_01_def fmt_02_def pad2_def slice_def)
qed

section \<open>The dashboard's upcoming reminders\<close>

text \<open>The table is a list of rows; \<open>Order("remind_at ASC")\<close> leaves the order of equal keys open and
  the model takes the stable one.\<close>

definition GetUpcomingReminders :: "zone \<Rightarrow> reminder list \<Rightarrow> nat \<Rightarrow> int \<Rightarrow> reminder list" where
  "GetUpcomingReminders z db userID now =
     (let sevenDaysFromNow = add_date_in z now 0 0 7;
          remindersNext7Days = stable_sort_by (\<lambda>a b. rem_at a < rem_at b)
            (filter (\<lambda>r. rem_user r = userID \<and> rem_at r \<le> sevenDaysFromNow \<and> \<not> rem_completed r) db)
      in if 5 < length remindersNext7Days then remindersNext7Days
         else take 5 (stable_sort_by (\<lambda>a b. rem_at a < rem_at b)
                (filter (\<lambda>r. rem_user r = userID \<and> \<not> rem_completed r) db)))"

text \<open>In a list sorted by a key, the rows up to a bound are a prefix.\<close>

lemma sorted_prefix_filter:
  fixes k :: "'a \<Rightarrow> 'b::linorder"
  assumes "sorted (map k xs)"
  shows "filter (\<lambda>x. k x \<le> b) xs = take (length (filter (\<lambda>x. k x \<le> b) xs)) xs"
  using assms
proof (induction xs)
  case (Cons x xs)
  show ?case
  proof (cases "k x \<le> b")
    case True
    then show ?thesis using Cons by simp
  next
    case False
    then have "\<forall>y \<in> set xs. \<not> k y \<le> b" using Cons.prems by auto
    then have "filter (\<lambda>y. k y \<le> b) xs = []" by (simp add: filter_empty_conv)
    then show ?thesis using False by simp
  qed
qed simp

lemma length_filter_sort:
  "length (filter P (stable_sort_by before xs)) = length (filter P xs)"
  by (metis mset_filter mset_stable_sort_by size_mset)

section \<open>Properties\<close>

text \<open>\<open>addMonths\<close> moves a UTC instant by any number of months to the same clock reading on the
  same day of the target month, clamped to that month's last day, and never into the month after.\<close>

lemma addMonths_clamps:
  "let n = civil_day utc t; n' = civil_day utc (addMonths utc t k)
   in (year_of n', month_of n') = month_shift (year_of n) (month_of n) k \<and>
      day_of n' = min (day_of n) (days_in_month (year_of n') (month_of n')) \<and>
      clock_of utc (addMonths utc t k) = clock_of utc t"
proof -
  let ?n = "civil_day utc t"
  obtain y' m' where s: "month_shift (year_of ?n) (month_of ?n) k = (y', m')" by fastforce
  let ?d = "clamp_day y' m' (day_of ?n)"
  have d: "1 \<le> ?d" "?d \<le> days_in_month y' m'"
    using day_of_bounds(1) [of ?n] days_in_month_bounds(1) [of y' m'] by (auto simp: clamp_day_def)
  have m: "1 \<le> m'" "m' \<le> 12" using month_shift_bounds [OF s] by auto
  show ?thesis
    using go_date_valid [OF m d] utc_addMonths_day [OF s] s by (simp add: Let_def clamp_day_def)
qed

text \<open>\<open>addYears\<close> keeps the month and the day of the month in the target year, except that a
  29 February whose target year has none becomes 1 March.\<close>

lemma addYears_leap_rule:
  "let n = civil_day utc t; n' = civil_day utc (addYears utc t k)
   in year_of n' = year_of n + k \<and> clock_of utc (addYears utc t k) = clock_of utc t \<and>
      (month_of n', day_of n') =
        (if month_of n = 2 \<and> day_of n = 29 \<and> \<not> is_leap (year_of n + k) then (3, 1)
         else (month_of n, day_of n))"
proof -
  let ?n = "civil_day utc t"
  let ?y = "year_of ?n + k"
  have m: "1 \<le> month_of ?n" "month_of ?n \<le> 12" by (rule month_of_bounds)+
  have d: "1 \<le> day_of ?n" "day_of ?n \<le> days_in_month (year_of ?n) (month_of ?n)"
    by (rule day_of_bounds)+
  have n': "civil_day utc (addYears utc t k) = go_date ?y (month_of ?n) (day_of ?n)"
    by (simp add: addYears_def add_date_def)
  have c: "clock_of utc (addYears utc t k) = clock_of utc t" by (simp add: addYears_def)
  show ?thesis
  proof (cases "month_of ?n = 2 \<and> day_of ?n = 29 \<and> \<not> is_leap ?y")
    case True
    then have "go_date ?y 2 29 = go_date ?y 3 1"
      using go_date_overflow [of 2 ?y 29] by (simp add: days_in_month_def)
    moreover have "year_of (go_date ?y 3 1) = ?y" "month_of (go_date ?y 3 1) = 3"
      "day_of (go_date ?y 3 1) = 1"
      by (rule go_date_valid; simp add: days_in_month_def)+
    ultimately show ?thesis using True n' c by (simp add: Let_def)
  next
    case False
    then have "day_of ?n \<le> days_in_month ?y (month_of ?n)"
      using d by (auto simp: days_in_month_def split: if_splits)
    from go_date_valid [OF m d(1) this] False n' c show ?thesis by (auto simp: Let_def)
  qed
qed

text \<open>Completing a recurring reminder always moves it forward: for every recurrence other than
  \<open>once\<close> the next time lies after the old one, and after the moment of completion too unless the
  reminder recurs from its due date.\<close>

lemma next_reminder_later:
  assumes "rem_recurrence r \<in> set recurrence_periods"
  shows "rem_at r < CalculateNextReminderTime now r \<and>
         (rem_from_completion r \<noteq> Some False \<longrightarrow> now < CalculateNextReminderTime now r)"
proof -
  let ?b = "next_base now r" and ?n = "CalculateNextReminderTime now r"
  have step: "civil_day utc ?b < civil_day utc ?n"
    using assms addMonths_later [of _ ?b] addYears_later [of _ ?b]
    by (auto simp: recurrence_periods_def next_from_base)
  show ?thesis
  proof (cases "rem_from_completion r = Some False \<or> now < rem_at r")
    case True
    then have "rem_at r < ?n" using utc_day_less [OF step] by (auto simp: next_base_def)
    then show ?thesis using True by auto
  next
    case False
    then have "now < ?n" using utc_day_less [of now ?n] step by (simp add: next_base_def)
    then show ?thesis using False by auto
  qed
qed

definition sample_reminder :: reminder where
  "sample_reminder = \<lparr>rem_id = 7, rem_user = 1, rem_message = ''call'', rem_by_mail = Some True,
     rem_at = midnight utc (go_date 2024 1 31), rem_recurrence = ''monthly'',
     rem_from_completion = None, rem_completed = False, rem_email_sent = False,
     rem_last_sent = None, rem_contact = Some 3\<rparr>"

lemma next_reminder_later_witness:
  "rem_at sample_reminder < CalculateNextReminderTime 0 sample_reminder \<and>
   0 < CalculateNextReminderTime 0 sample_reminder"
proof -
  have "rem_recurrence sample_reminder \<in> set recurrence_periods"
    by (simp add: sample_reminder_def recurrence_periods_def)
  from next_reminder_later [OF this] show ?thesis by (simp add: sample_reminder_def)
qed

text \<open>The two date formatters agree: a full birthday string is shown exactly as the same calendar
  day is shown by the instant formatter, in every date format.\<close>

lemma birthday_format_agrees:
  assumes "0 \<le> year_of n" "year_of n \<le> 9999"
  shows "formatBirthdayForUser (fmt_iso n) f = formatDateForUser n f"
proof -
  have m: "1 \<le> month_of n" "month_of n \<le> 12" by (rule month_of_bounds)+
  have d: "1 \<le> day_of n" "day_of n \<le> 31"
    using day_of_bounds [of n] days_in_month_bounds(2) [of "year_of n" "month_of n"] by auto
  have u: "unpad (fmt_02 n) = fmt_2 n" using d by (simp add: fmt_02_def fmt_2_def unpad_pad2)
  have s: "shortMonthName (fmt_01 n) = fmt_Jan n"
    using month_name_pad2 [OF m] by (simp add: shortMonthName_def fmt_01_def fmt_Jan_def)
  have l: "fullMonthName (fmt_01 n) = fmt_January n"
    using month_name_pad2 [OF m] by (simp add: fullMonthName_def fmt_01_def fmt_January_def)
  have ne: "fmt_iso n \<noteq> []" using iso_pieces(1) [OF assms] by auto
  show ?thesis
    unfolding formatBirthdayForUser_def formatDateForUser_def
    by (simp only: ne iso_pieces [OF assms] u s l Let_def if_False simp_thms) simp
qed

lemma birthday_format_agrees_witness:
  "formatBirthdayForUser (fmt_iso (go_date 1990 7 4)) ''us-mmm'' = formatDateForUser (go_date 1990 7 4) ''us-mmm''"
  by (rule birthday_format_agrees) (simp_all add: go_date_valid days_in_month_def)

text \<open>The dashboard list holds only open reminders of the user, in order of their due time, and
  every one due within seven days is in it, however many there are.\<close>

lemma upcoming_reminders_complete:
  "set (GetUpcomingReminders z db u now) \<subseteq> {r \<in> set db. rem_user r = u \<and> \<not> rem_completed r} \<and>
   {r \<in> set db. rem_user r = u \<and> \<not> rem_completed r \<and> rem_at r \<le> add_date_in z now 0 0 7}
     \<subseteq> set (GetUpcomingReminders z db u now) \<and>
   sorted (map rem_at (GetUpcomingReminders z db u now))"
proof -
  let ?srt = "stable_sort_by (\<lambda>a b. rem_at a < rem_at b)"
  let ?due = "filter (\<lambda>r. rem_user r = u \<and> rem_at r \<le> add_date_in z now 0 0 7 \<and> \<not> rem_completed r) db"
  let ?open = "filter (\<lambda>r. rem_user r = u \<and> \<not> rem_completed r) db"
  show ?thesis
  proof (cases "5 < length ?due")
    case True
    then show ?thesis by (auto simp: GetUpcomingReminders_def Let_def sorted_stable_sort_by)
  next
    case False
    have due: "?due = filter (\<lambda>r. rem_at r \<le> add_date_in z now 0 0 7) ?open"
      by (simp add: conj_ac)
    let ?n = "length (filter (\<lambda>r. rem_at r \<le> add_date_in z now 0 0 7) (?srt ?open))"
    have "?n \<le> 5" using False unfolding due length_filter_sort by simp
    then have "set (take ?n (?srt ?open)) \<subseteq> set (take 5 (?srt ?open))" by (rule set_take_subset_set_take)
    then have "set (filter (\<lambda>r. rem_at r \<le> add_date_in z now 0 0 7) (?srt ?open)) \<subseteq> set (take 5 (?srt ?open))"
      using sorted_prefix_filter [OF sorted_stable_sort_by, of rem_at "add_date_in z now 0 0 7" ?open]
      by simp
    moreover have "sorted (map rem_at (take 5 (?srt ?open)))"
      using sorted_stable_sort_by [of rem_at ?open] by (simp add: take_map [symmetric] sorted_wrt_take)
    ultimately show ?thesis using False
      by (auto simp: GetUpcomingReminders_def Let_def dest: in_set_takeD)
  qed
qed

end
