(* ===== verification/ContactModel.thy ===== *)
theory ContactModel imports Prelude begin

text \<open>
  The neutral contact model (\<open>backend/contactmodel\<close>): the standardised \<open>Card\<close> with every nested
  type, the CRM envelope, the passthrough bag and the \<open>Record\<close> that joins them; partial dates and
  the periods attached to card entries with their validation and pruning; the derived projection.
  A Go pointer is an \<open>option\<close>; a slice is a list (a nil and an empty slice are not told apart);
  a map is a partial map; \<open>json.RawMessage\<close> is an opaque byte string; the float confidence is
  carried as its bit pattern.
\<close>

type_synonym raw_json = string

section \<open>The card\<close>

record timestamp = ts_utc :: string

record partial_date =
  pd_year :: "int option"
  pd_month :: "int option"
  pd_day :: "int option"
  pd_scale :: string

record name_component =
  nc_kind :: string
  nc_value :: string
  nc_phonetic :: string

record card_name =
  nm_components :: "name_component list"
  nm_full :: string
  nm_sort_as :: "(string \<rightharpoonup> string) option"
  nm_is_ordered :: "bool option"
  nm_separator :: string
  nm_phonetic_system :: string
  nm_phonetic_script :: string

record nickname =
  nk_id :: string
  nk_name :: string
  nk_contexts :: "string list"
  nk_pref :: "int option"

record org_unit =
  ou_name :: string
  ou_sort_as :: string

record organization =
  org_id :: string
  org_name :: string
  org_units :: "org_unit list"
  org_sort_as :: string

record title =
  ti_id :: string
  ti_name :: string
  ti_kind :: string
  ti_organization :: string

record email =
  em_id :: string
  em_address :: string
  em_contexts :: "string list"
  em_pref :: "int option"
  em_label :: string

record phone =
  ph_id :: string
  ph_number :: string
  ph_features :: "string list"
  ph_contexts :: "string list"
  ph_pref :: "int option"
  ph_label :: string

record online_service =
  os_id :: string
  os_service :: string
  os_uri :: string
  os_user :: string
  os_contexts :: "string list"
  os_pref :: "int option"
  os_label :: string

record address_component =
  ac_kind :: string
  ac_value :: string
  ac_phonetic :: string

record address =
  ad_id :: string
  ad_components :: "address_component list"
  ad_country_code :: string
  ad_coordinates :: string
  ad_time_zone :: string
  ad_contexts :: "string list"
  ad_pref :: "int option"
  ad_full :: string
  ad_is_ordered :: "bool option"
  ad_separator :: string
  ad_phonetic_system :: string
  ad_phonetic_script :: string
  ad_sensitivity :: string

record anniversary_date =
  an_partial :: "partial_date option"
  an_timestamp :: "string option"

record anniversary =
  an_id :: string
  an_kind :: string
  an_date :: anniversary_date
  an_place :: "address option"

record grammatical_gender =
  gg_id :: string
  gg_value :: string
  gg_language :: string

record pronouns =
  pr_id :: string
  pr_pronouns :: string
  pr_contexts :: "string list"
  pr_pref :: "int option"

record speak_to_as =
  sp_genders :: "grammatical_gender list"
  sp_pronouns :: "pronouns list"

record personal_info =
  pi_id :: string
  pi_kind :: string
  pi_value :: string
  pi_level :: string
  pi_list_as :: "int option"
  pi_label :: string

record author =
  au_name :: string
  au_uri :: string

record card_note =
  nt_id :: string
  nt_note :: string
  nt_author :: "author option"
  nt_created :: "timestamp option"

record resource =
  rs_id :: string
  rs_kind :: string
  rs_uri :: string
  rs_media_type :: string
  rs_label :: string
  rs_contexts :: "string list"
  rs_pref :: "int option"
  rs_list_as :: "int option"

record language_pref =
  lp_id :: string
  lp_language :: string
  lp_contexts :: "string list"
  lp_pref :: "int option"

record relation =
  rl_target :: string
  rl_relations :: "string list"

record card =
  cd_uid :: string
  cd_kind :: string
  cd_language :: string
  cd_prod_id :: string
  cd_created :: "timestamp option"
  cd_updated :: "timestamp option"
  cd_name :: "card_name option"
  cd_nicknames :: "nickname list"
  cd_organizations :: "organization list"
  cd_titles :: "title list"
  cd_emails :: "email list"
  cd_phones :: "phone list"
  cd_impp :: "online_service list"
  cd_social :: "online_service list"
  cd_other_online :: "online_service list"
  cd_addresses :: "address list"
  cd_anniversaries :: "anniversary list"
  cd_speak_to_as :: "speak_to_as option"
  cd_personal_info :: "personal_info list"
  cd_notes :: "card_note list"
  cd_keywords :: "string list"
  cd_media :: "resource list"
  cd_calendars :: "resource list"
  cd_free_busy :: "resource list"
  cd_scheduling :: "resource list"
  cd_crypto_keys :: "resource list"
  cd_directories :: "resource list"
  cd_links :: "resource list"
  cd_contact_uris :: "resource list"
  cd_languages :: "language_pref list"
  cd_related_to :: "relation list"
  cd_members :: "string list"
  cd_localizations :: "string \<rightharpoonup> raw_json"

section \<open>The envelope, the passthrough and the record\<close>

record temporal_range =
  tr_start :: "partial_date option"
  tr_end :: "partial_date option"

record entry_period =
  ep_kind :: string
  ep_entry :: string
  ep_range :: temporal_range

record personal_info_meta =
  pm_sensitivity :: string
  pm_favorite :: bool
  pm_notes :: string
  pm_source :: string
  pm_confidence :: "int option"
  pm_last_confirmed :: "int option"

record crm_envelope =
  ev_kind :: string
  ev_circles :: "string list"
  ev_how_we_met :: string
  ev_work_information :: string
  ev_contact_information :: string
  ev_gender :: string
  ev_periods :: "entry_period list"
  ev_ambient :: "bool option"
  ev_target_closeness :: "string option"
  ev_personal_info_meta :: "(string \<rightharpoonup> personal_info_meta) option"

record jcard_prop =
  jc_name :: string
  jc_params :: "(string \<times> raw_json) list"
  jc_type :: string
  jc_value :: raw_json

record passthrough =
  pt_vcard :: "jcard_prop list"
  pt_jscontact :: "string \<rightharpoonup> raw_json"

record contact_record =
  rc_card :: card
  rc_envelope :: crm_envelope
  rc_passthrough :: passthrough
  rc_uid :: string
  rc_etag :: string

definition NormalizedSensitivity :: "personal_info_meta \<Rightarrow> string" where
  "NormalizedSensitivity m = (if pm_sensitivity m = [] then ''normal'' else pm_sensitivity m)"

definition type_token_to_context :: "(string \<times> string) list" where
  "type_token_to_context = [(''home'', ''private''), (''work'', ''work''), (''billing'', ''billing''),
     (''delivery'', ''delivery'')]"

definition context_to_type_token :: "(string \<times> string) list" where
  "context_to_type_token = [(''private'', ''home''), (''work'', ''work''), (''billing'', ''billing''),
     (''delivery'', ''delivery'')]"

section \<open>Deceased contacts\<close>

definition DeathAnniversary :: "card \<Rightarrow> anniversary option" where
  "DeathAnniversary c = find (\<lambda>a. an_kind a = ''death'') (cd_anniversaries c)"

definition IsDeceased :: "card \<Rightarrow> bool" where
  "IsDeceased c \<longleftrightarrow> DeathAnniversary c \<noteq> None"

section \<open>Partial dates and periods\<close>

definition cmpInt :: "int \<Rightarrow> int \<Rightarrow> int" where
  "cmpInt a b = (if a < b then -1 else if b < a then 1 else 0)"

text \<open>The comparison and whether the two dates are comparable.\<close>

fun ComparePartialDates :: "partial_date option \<Rightarrow> partial_date option \<Rightarrow> int \<times> bool" where
  "ComparePartialDates (Some a) (Some b) =
     (case (pd_year a, pd_year b) of
        (Some ya, Some yb) \<Rightarrow>
          if ya \<noteq> yb then (cmpInt ya yb, True)
          else (case (pd_month a, pd_month b) of
                  (Some ma, Some mb) \<Rightarrow>
                    if ma \<noteq> mb then (cmpInt ma mb, True)
                    else (case (pd_day a, pd_day b) of
                            (Some da, Some db) \<Rightarrow> (cmpInt da db, True)
                          | _ \<Rightarrow> (0, True))
                | _ \<Rightarrow> (0, True))
      | _ \<Rightarrow> (0, False))"
| "ComparePartialDates _ _ = (0, False)"

definition range_is_empty :: "temporal_range \<Rightarrow> bool" where
  "range_is_empty r \<longleftrightarrow> tr_start r = None \<and> tr_end r = None"

definition range_reversed :: "temporal_range \<Rightarrow> bool" where
  "range_reversed r \<longleftrightarrow>
     (let (cmp, ok) = ComparePartialDates (tr_start r) (tr_end r) in ok \<and> 0 < cmp)"

definition envelope_period :: "crm_envelope \<Rightarrow> string \<Rightarrow> string \<Rightarrow> temporal_range option" where
  "envelope_period e kind entry =
     map_option ep_range (find (\<lambda>p. ep_kind p = kind \<and> ep_entry p = entry) (ev_periods e))"

definition CardEntryIDs :: "card \<Rightarrow> string \<Rightarrow> string list option" where
  "CardEntryIDs c kind =
     (let add = filter (\<lambda>i. i \<noteq> [])
      in if kind = ''address'' then Some (add (map ad_id (cd_addresses c)))
         else if kind = ''organization'' then Some (add (map org_id (cd_organizations c)))
         else if kind = ''title'' then Some (add (map ti_id (cd_titles c)))
         else None)"

definition period_resolves :: "card \<Rightarrow> entry_period \<Rightarrow> bool" where
  "period_resolves c p =
     (case CardEntryIDs c (ep_kind p) of None \<Rightarrow> False | Some ids \<Rightarrow> ep_entry p \<in> set ids)"

definition InvalidPeriods :: "crm_envelope \<Rightarrow> card \<Rightarrow> entry_period list" where
  "InvalidPeriods e c =
     filter (\<lambda>p. range_is_empty (ep_range p) \<or> range_reversed (ep_range p) \<or> ep_kind p = [] \<or>
                 ep_entry p = [] \<or> \<not> period_resolves c p) (ev_periods e)"

definition PruneOrphanPeriods :: "crm_envelope \<Rightarrow> card \<Rightarrow> entry_period list" where
  "PruneOrphanPeriods e c = filter (period_resolves c) (ev_periods e)"

lemma cmpInt_swap: "cmpInt b a = - cmpInt a b"
  by (simp add: cmpInt_def)

lemma ComparePartialDates_None [simp]: "ComparePartialDates a None = (0, False)"
  by (cases a) simp_all

section \<open>The projection\<close>

record projection =
  pj_firstname :: string
  pj_lastname :: string
  pj_fn :: string
  pj_primary_email :: string
  pj_primary_phone :: string
  pj_birthday :: string
  pj_org :: string

definition nonEmpty :: "string list \<Rightarrow> string list" where
  "nonEmpty vals = filter (\<lambda>v. v \<noteq> []) vals"

definition effectivePref :: "int option \<Rightarrow> int" where
  "effectivePref p = (case p of None \<Rightarrow> 2 ^ 63 - 1 | Some i \<Rightarrow> i)"

definition fmt_partial :: "partial_date \<Rightarrow> string" where
  "fmt_partial p =
     (case (pd_year p, pd_month p, pd_day p) of
        (Some y, Some m, Some d) \<Rightarrow> fmt_0d 4 y @ ''-'' @ fmt_0d 2 m @ ''-'' @ fmt_0d 2 d
      | (None, Some m, Some d) \<Rightarrow> ''--'' @ fmt_0d 2 m @ ''-'' @ fmt_0d 2 d
      | (Some y, Some m, None) \<Rightarrow> fmt_0d 4 y @ ''-'' @ fmt_0d 2 m
      | (Some y, None, None) \<Rightarrow> fmt_0d 4 y
      | (None, Some m, None) \<Rightarrow> ''--'' @ fmt_0d 2 m
      | _ \<Rightarrow> [])"

definition formatAnniversaryDate :: "anniversary_date \<Rightarrow> string" where
  "formatAnniversaryDate d =
     (case an_timestamp d of
        Some ts \<Rightarrow> if ts \<noteq> [] then (if 10 \<le> length ts then take 10 ts else ts)
                  else (case an_partial d of None \<Rightarrow> [] | Some p \<Rightarrow> fmt_partial p)
      | None \<Rightarrow> (case an_partial d of None \<Rightarrow> [] | Some p \<Rightarrow> fmt_partial p))"

definition first_value :: "string \<Rightarrow> name_component list \<Rightarrow> string" where
  "first_value kind cs = (case find (\<lambda>c. nc_kind c = kind) cs of None \<Rightarrow> [] | Some c \<Rightarrow> nc_value c)"

definition DeriveProjection :: "contact_record option \<Rightarrow> projection" where
  "DeriveProjection r =
     (case r of
        None \<Rightarrow> \<lparr>pj_firstname = [], pj_lastname = [], pj_fn = [], pj_primary_email = [],
                pj_primary_phone = [], pj_birthday = [], pj_org = []\<rparr>
      | Some rc \<Rightarrow>
         (let c = rc_card rc;
              first = (case cd_name c of None \<Rightarrow> [] | Some n \<Rightarrow> first_value ''given'' (nm_components n));
              last = (case cd_name c of None \<Rightarrow> [] | Some n \<Rightarrow> first_value ''surname'' (nm_components n));
              full = (case cd_name c of None \<Rightarrow> [] | Some n \<Rightarrow> nm_full n);
              fn = (if full = [] then trim_space (join_with '' '' (nonEmpty [first, last])) else full)
          in \<lparr>pj_firstname = first, pj_lastname = last, pj_fn = fn,
              pj_primary_email =
                (if cd_emails c = [] then []
                 else em_address (hd (stable_sort_by
                        (\<lambda>a b. effectivePref (em_pref a) < effectivePref (em_pref b)) (cd_emails c)))),
              pj_primary_phone =
                (if cd_phones c = [] then []
                 else ph_number (hd (stable_sort_by
                        (\<lambda>a b. effectivePref (ph_pref a) < effectivePref (ph_pref b)) (cd_phones c)))),
              pj_birthday =
                (case find (\<lambda>a. an_kind a = ''birth'') (cd_anniversaries c) of
                   None \<Rightarrow> [] | Some a \<Rightarrow> formatAnniversaryDate (an_date a)),
              pj_org = (if cd_organizations c = [] then [] else org_name (hd (cd_organizations c)))\<rparr>))"

section \<open>Properties\<close>

lemma resolves_named: "period_resolves c p \<Longrightarrow> ep_kind p \<noteq> [] \<and> ep_entry p \<noteq> []"
  by (auto simp: period_resolves_def CardEntryIDs_def Let_def split: if_splits)

text \<open>Comparing two partial dates the other way round negates the result and agrees on whether
  they are comparable, so no range and its mirror image are both reversed.\<close>

lemma ComparePartialDates_antisym:
  "ComparePartialDates b a = (- fst (ComparePartialDates a b), snd (ComparePartialDates a b))"
  by (cases "(a, b)" rule: ComparePartialDates.cases)
    (auto simp: cmpInt_def split: option.split)

text \<open>Validation and pruning of periods agree: periods that validate all survive pruning, and
  what survives can only fail validation for its range, never for a dangling reference.\<close>

lemma prune_keeps_storable:
  "(InvalidPeriods e c = [] \<longrightarrow> PruneOrphanPeriods e c = ev_periods e) \<and>
   set (InvalidPeriods (e\<lparr>ev_periods := PruneOrphanPeriods e c\<rparr>) c)
     \<subseteq> {p \<in> set (ev_periods e). range_is_empty (ep_range p) \<or> range_reversed (ep_range p)}"
  by (auto simp: InvalidPeriods_def PruneOrphanPeriods_def filter_empty_conv filter_id_conv
      dest: resolves_named)

definition empty_card :: card where
  "empty_card = \<lparr>cd_uid = [], cd_kind = [], cd_language = [], cd_prod_id = [], cd_created = None,
     cd_updated = None, cd_name = None, cd_nicknames = [], cd_organizations = [], cd_titles = [],
     cd_emails = [], cd_phones = [], cd_impp = [], cd_social = [], cd_other_online = [],
     cd_addresses = [], cd_anniversaries = [], cd_speak_to_as = None, cd_personal_info = [],
     cd_notes = [], cd_keywords = [], cd_media = [], cd_calendars = [], cd_free_busy = [],
     cd_scheduling = [], cd_crypto_keys = [], cd_directories = [], cd_links = [],
     cd_contact_uris = [], cd_languages = [], cd_related_to = [], cd_members = [],
     cd_localizations = Map.empty\<rparr>"

definition empty_envelope :: crm_envelope where
  "empty_envelope = \<lparr>ev_kind = [], ev_circles = [], ev_how_we_met = [], ev_work_information = [],
     ev_contact_information = [], ev_gender = [], ev_periods = [], ev_ambient = None,
     ev_target_closeness = None, ev_personal_info_meta = None\<rparr>"

definition record_of_card :: "card \<Rightarrow> contact_record" where
  "record_of_card c = \<lparr>rc_card = c, rc_envelope = empty_envelope,
     rc_passthrough = \<lparr>pt_vcard = [], pt_jscontact = Map.empty\<rparr>, rc_uid = cd_uid c, rc_etag = []\<rparr>"

definition sample_employer :: organization where
  "sample_employer = \<lparr>org_id = ''o1'', org_name = ''Acme'', org_units = [], org_sort_as = []\<rparr>"

definition sample_period :: entry_period where
  "sample_period = \<lparr>ep_kind = ''organization'', ep_entry = ''o1'',
     ep_range = \<lparr>tr_start = Some \<lparr>pd_year = Some 2019, pd_month = None, pd_day = None, pd_scale = []\<rparr>,
                 tr_end = None\<rparr>\<rparr>"

lemma prune_keeps_storable_witness:
  "PruneOrphanPeriods (empty_envelope\<lparr>ev_periods := [sample_period]\<rparr>)
     (empty_card\<lparr>cd_organizations := [sample_employer]\<rparr>) = [sample_period]"
  using prune_keeps_storable [of "empty_envelope\<lparr>ev_periods := [sample_period]\<rparr>"
      "empty_card\<lparr>cd_organizations := [sample_employer]\<rparr>"]
  by (simp add: InvalidPeriods_def period_resolves_def CardEntryIDs_def sample_period_def
      sample_employer_def range_is_empty_def range_reversed_def)

text \<open>The projected primary e-mail address is the first entry of the card among those with the
  least preference value, an entry without one ranking behind every entry that has one.\<close>

lemma primary_email_first_preferred:
  assumes "cd_emails (rc_card r) \<noteq> []"
  shows "\<exists>ys e zs. cd_emails (rc_card r) = ys @ e # zs \<and>
    pj_primary_email (DeriveProjection (Some r)) = em_address e \<and>
    list_all (\<lambda>y. effectivePref (em_pref e) < effectivePref (em_pref y)) ys \<and>
    list_all (\<lambda>z. effectivePref (em_pref e) \<le> effectivePref (em_pref z)) zs"
  using hd_stable_sort_by [OF assms, of "\<lambda>e. effectivePref (em_pref e)"] assms
  by (auto simp: DeriveProjection_def Let_def list_all_iff)

definition sample_email :: "string \<Rightarrow> int option \<Rightarrow> email" where
  "sample_email a p = \<lparr>em_id = [], em_address = a, em_contexts = [], em_pref = p, em_label = []\<rparr>"

definition sample_card :: card where
  "sample_card = empty_card\<lparr>cd_emails := [sample_email ''a@x'' None, sample_email ''b@x'' (Some 1)]\<rparr>"

lemma primary_email_first_preferred_witness:
  "\<exists>ys e zs. cd_emails sample_card = ys @ e # zs \<and>
    pj_primary_email (DeriveProjection (Some (record_of_card sample_card))) = em_address e \<and>
    list_all (\<lambda>y. effectivePref (em_pref e) < effectivePref (em_pref y)) ys \<and>
    list_all (\<lambda>z. effectivePref (em_pref e) \<le> effectivePref (em_pref z)) zs"
  using primary_email_first_preferred [of "record_of_card sample_card"]
  by (simp add: record_of_card_def sample_card_def)

end
