(* ===== verification/Normalize.thy ===== *)
theory Normalize imports ContactModel begin

text \<open>
  Unicode normalisation of a whole record (\<open>backend/contactmodel/normalize.go\<close>). The NFC transform
  itself is a third-party function and a parameter \<open>nfc\<close> of every definition; that it is idempotent
  is the one fact about it the source states and relies on.
\<close>

definition normalizeNameComponent :: "(string \<Rightarrow> string) \<Rightarrow> name_component \<Rightarrow> name_component" where
  "normalizeNameComponent nfc c = c\<lparr>nc_value := nfc (nc_value c), nc_phonetic := nfc (nc_phonetic c)\<rparr>"

definition normalizeName :: "(string \<Rightarrow> string) \<Rightarrow> card_name option \<Rightarrow> card_name option" where
  "normalizeName nfc n = map_option (\<lambda>n. n\<lparr>
     nm_components := map (normalizeNameComponent nfc) (nm_components n),
     nm_full := nfc (nm_full n),
     nm_sort_as := map_option (\<lambda>m k. map_option nfc (m k)) (nm_sort_as n)\<rparr>) n"

definition normalizeNickname :: "(string \<Rightarrow> string) \<Rightarrow> nickname \<Rightarrow> nickname" where
  "normalizeNickname nfc n = n\<lparr>nk_name := nfc (nk_name n)\<rparr>"

definition normalizeOrgUnit :: "(string \<Rightarrow> string) \<Rightarrow> org_unit \<Rightarrow> org_unit" where
  "normalizeOrgUnit nfc u = u\<lparr>ou_name := nfc (ou_name u), ou_sort_as := nfc (ou_sort_as u)\<rparr>"

definition normalizeOrganization :: "(string \<Rightarrow> string) \<Rightarrow> organization \<Rightarrow> organization" where
  "normalizeOrganization nfc o' = o'\<lparr>org_name := nfc (org_name o'), org_sort_as := nfc (org_sort_as o'),
     org_units := map (normalizeOrgUnit nfc) (org_units o')\<rparr>"

definition normalizeTitle :: "(string \<Rightarrow> string) \<Rightarrow> title \<Rightarrow> title" where
  "normalizeTitle nfc t = t\<lparr>ti_name := nfc (ti_name t)\<rparr>"

definition normalizeEmail :: "(string \<Rightarrow> string) \<Rightarrow> email \<Rightarrow> email" where
  "normalizeEmail nfc e = e\<lparr>em_address := nfc (em_address e), em_label := nfc (em_label e)\<rparr>"

definition normalizePhone :: "(string \<Rightarrow> string) \<Rightarrow> phone \<Rightarrow> phone" where
  "normalizePhone nfc p = p\<lparr>ph_number := nfc (ph_number p), ph_label := nfc (ph_label p)\<rparr>"

definition normalizeOnlineService :: "(string \<Rightarrow> string) \<Rightarrow> online_service \<Rightarrow> online_service" where
  "normalizeOnlineService nfc s = s\<lparr>os_service := nfc (os_service s), os_user := nfc (os_user s),
     os_label := nfc (os_label s)\<rparr>"

definition normalizeAddressComponent :: "(string \<Rightarrow> string) \<Rightarrow> address_component \<Rightarrow> address_component" where
  "normalizeAddressComponent nfc c = c\<lparr>ac_value := nfc (ac_value c), ac_phonetic := nfc (ac_phonetic c)\<rparr>"

definition normalizeAddress :: "(string \<Rightarrow> string) \<Rightarrow> address \<Rightarrow> address" where
  "normalizeAddress nfc a = a\<lparr>ad_components := map (normalizeAddressComponent nfc) (ad_components a),
     ad_full := nfc (ad_full a), ad_time_zone := nfc (ad_time_zone a)\<rparr>"

definition normalizeAnniversary :: "(string \<Rightarrow> string) \<Rightarrow> anniversary \<Rightarrow> anniversary" where
  "normalizeAnniversary nfc a = a\<lparr>an_place := map_option (normalizeAddress nfc) (an_place a)\<rparr>"

definition normalizePronouns :: "(string \<Rightarrow> string) \<Rightarrow> pronouns \<Rightarrow> pronouns" where
  "normalizePronouns nfc p = p\<lparr>pr_pronouns := nfc (pr_pronouns p)\<rparr>"

definition normalizeSpeakToAs :: "(string \<Rightarrow> string) \<Rightarrow> speak_to_as option \<Rightarrow> speak_to_as option" where
  "normalizeSpeakToAs nfc s = map_option (\<lambda>s. s\<lparr>
     sp_genders := map (\<lambda>g. g) (sp_genders s),
     sp_pronouns := map (normalizePronouns nfc) (sp_pronouns s)\<rparr>) s"

definition normalizePersonalInfo :: "(string \<Rightarrow> string) \<Rightarrow> personal_info \<Rightarrow> personal_info" where
  "normalizePersonalInfo nfc p = p\<lparr>pi_value := nfc (pi_value p), pi_label := nfc (pi_label p)\<rparr>"

definition normalizeNote :: "(string \<Rightarrow> string) \<Rightarrow> card_note \<Rightarrow> card_note" where
  "normalizeNote nfc n = n\<lparr>nt_note := nfc (nt_note n),
     nt_author := map_option (\<lambda>a. a\<lparr>au_name := nfc (au_name a)\<rparr>) (nt_author n)\<rparr>"

definition normalizeResource :: "(string \<Rightarrow> string) \<Rightarrow> resource \<Rightarrow> resource" where
  "normalizeResource nfc r = r\<lparr>rs_label := nfc (rs_label r)\<rparr>"

definition normalizeCard :: "(string \<Rightarrow> string) \<Rightarrow> card \<Rightarrow> card" where
  "normalizeCard nfc c = c\<lparr>
     cd_name := normalizeName nfc (cd_name c),
     cd_nicknames := map (normalizeNickname nfc) (cd_nicknames c),
     cd_organizations := map (normalizeOrganization nfc) (cd_organizations c),
     cd_titles := map (normalizeTitle nfc) (cd_titles c),
     cd_emails := map (normalizeEmail nfc) (cd_emails c),
     cd_phones := map (normalizePhone nfc) (cd_phones c),
     cd_impp := map (normalizeOnlineService nfc) (cd_impp c),
     cd_social := map (normalizeOnlineService nfc) (cd_social c),
     cd_other_online := map (normalizeOnlineService nfc) (cd_other_online c),
     cd_addresses := map (normalizeAddress nfc) (cd_addresses c),
     cd_anniversaries := map (normalizeAnniversary nfc) (cd_anniversaries c),
     cd_speak_to_as := normalizeSpeakToAs nfc (cd_speak_to_as c),
     cd_personal_info := map (normalizePersonalInfo nfc) (cd_personal_info c),
     cd_notes := map (normalizeNote nfc) (cd_notes c),
     cd_keywords := map nfc (cd_keywords c),
     cd_media := map (normalizeResource nfc) (cd_media c),
     cd_calendars := map (normalizeResource nfc) (cd_calendars c),
     cd_free_busy := map (normalizeResource nfc) (cd_free_busy c),
     cd_scheduling := map (normalizeResource nfc) (cd_scheduling c),
     cd_crypto_keys := map (normalizeResource nfc) (cd_crypto_keys c),
     cd_directories := map (normalizeResource nfc) (cd_directories c),
     cd_links := map (normalizeResource nfc) (cd_links c),
     cd_contact_uris := map (normalizeResource nfc) (cd_contact_uris c)\<rparr>"

definition normalizeMeta :: "(string \<Rightarrow> string) \<Rightarrow> personal_info_meta \<Rightarrow> personal_info_meta" where
  "normalizeMeta nfc m = m\<lparr>pm_notes := nfc (pm_notes m)\<rparr>"

definition normalizeEnvelope :: "(string \<Rightarrow> string) \<Rightarrow> crm_envelope \<Rightarrow> crm_envelope" where
  "normalizeEnvelope nfc e = e\<lparr>
     ev_how_we_met := nfc (ev_how_we_met e),
     ev_work_information := nfc (ev_work_information e),
     ev_contact_information := nfc (ev_contact_information e),
     ev_gender := nfc (ev_gender e),
     ev_personal_info_meta := map_option (\<lambda>m k. map_option (normalizeMeta nfc) (m k)) (ev_personal_info_meta e)\<rparr>"

definition NormalizeRecord :: "(string \<Rightarrow> string) \<Rightarrow> contact_record option \<Rightarrow> contact_record option" where
  "NormalizeRecord nfc r = map_option (\<lambda>r. r\<lparr>
     rc_card := normalizeCard nfc (rc_card r),
     rc_envelope := normalizeEnvelope nfc (rc_envelope r)\<rparr>) r"

section \<open>Idempotence\<close>

text \<open>Each field function is idempotent once \<open>nfc\<close> is; maps over lists and options inherit it.\<close>

definition idem :: "('a \<Rightarrow> 'a) \<Rightarrow> bool" where
  "idem f \<longleftrightarrow> (\<forall>x. f (f x) = f x)"

lemma idemD: "idem f \<Longrightarrow> f (f x) = f x"
  by (simp add: idem_def)

lemma idem_map: "idem f \<Longrightarrow> map f (map f xs) = map f xs"
  by (simp add: idem_def)

lemma idem_map_option: "idem f \<Longrightarrow> map_option f (map_option f x) = map_option f x"
  by (cases x) (simp_all add: idem_def)

named_theorems normalize_defs \<open>the field-level normalisers\<close>

lemmas [normalize_defs] = normalizeNameComponent_def normalizeNickname_def normalizeOrgUnit_def
  normalizeTitle_def normalizeEmail_def normalizePhone_def normalizeOnlineService_def
  normalizeAddressComponent_def normalizePronouns_def normalizePersonalInfo_def
  normalizeResource_def normalizeMeta_def

lemma idem_leaves:
  assumes "idem nfc"
  shows "idem (normalizeNameComponent nfc)" "idem (normalizeNickname nfc)" "idem (normalizeOrgUnit nfc)"
    "idem (normalizeTitle nfc)" "idem (normalizeEmail nfc)" "idem (normalizePhone nfc)"
    "idem (normalizeOnlineService nfc)" "idem (normalizeAddressComponent nfc)"
    "idem (normalizePronouns nfc)" "idem (normalizePersonalInfo nfc)" "idem (normalizeResource nfc)"
    "idem (normalizeMeta nfc)"
  using assms by (simp_all add: idem_def normalize_defs)

lemma idem_nested:
  assumes "idem nfc"
  shows "idem (normalizeOrganization nfc)" "idem (normalizeAddress nfc)" "idem (normalizeNote nfc)"
proof -
  show "idem (normalizeOrganization nfc)"
    using assms idem_map [OF idem_leaves(3) [OF assms]]
    unfolding idem_def by (simp add: normalizeOrganization_def)
  show "idem (normalizeAddress nfc)"
    using assms idem_map [OF idem_leaves(8) [OF assms]]
    unfolding idem_def by (simp add: normalizeAddress_def)
  show "idem (normalizeNote nfc)"
    using assms unfolding idem_def normalizeNote_def by (simp add: option.map_comp o_def)
qed

lemma idem_anniversary: "idem nfc \<Longrightarrow> idem (normalizeAnniversary nfc)"
  using idem_map_option [OF idem_nested(2), of nfc]
  by (simp only: idem_def [of "normalizeAnniversary nfc"] normalizeAnniversary_def) simp

lemma idem_optional:
  assumes "idem nfc"
  shows "idem (normalizeName nfc)" "idem (normalizeSpeakToAs nfc)"
proof -
  show "idem (normalizeName nfc)"
    using assms idem_map [OF idem_leaves(1) [OF assms]]
    by (auto simp: idem_def normalizeName_def option.map_comp o_def intro!: option.map_cong)
  show "idem (normalizeSpeakToAs nfc)"
    using assms idem_map [OF idem_leaves(9) [OF assms]]
    by (auto simp: idem_def normalizeSpeakToAs_def option.map_comp o_def intro!: option.map_cong)
qed

lemma idem_card: "idem nfc \<Longrightarrow> normalizeCard nfc (normalizeCard nfc c) = normalizeCard nfc c"
  by (simp add: normalizeCard_def idem_map idem_leaves idem_nested idem_anniversary
      idemD [OF idem_optional(1)] idemD [OF idem_optional(2)] del: map_map)

lemma idem_envelope:
  assumes "idem nfc"
  shows "normalizeEnvelope nfc (normalizeEnvelope nfc e) = normalizeEnvelope nfc e"
proof -
  have "normalizeMeta nfc (normalizeMeta nfc m) = normalizeMeta nfc m" for m
    using idem_leaves(12) [OF assms] by (rule idemD)
  then show ?thesis using assms
    by (simp add: normalizeEnvelope_def idemD option.map_comp o_def)
qed

section \<open>What normalisation leaves alone\<close>

text \<open>The address data of a card: everything another system or another table refers to it by.\<close>

definition address_data :: "card \<Rightarrow> string \<times> string list list \<times> string list \<times> relation list" where
  "address_data c =
     (cd_uid c,
      [map os_uri (cd_impp c), map os_uri (cd_social c), map os_uri (cd_other_online c),
       map ad_coordinates (cd_addresses c), map rs_uri (cd_media c), map rs_uri (cd_calendars c),
       map rs_uri (cd_free_busy c), map rs_uri (cd_scheduling c), map rs_uri (cd_crypto_keys c),
       map rs_uri (cd_directories c), map rs_uri (cd_links c), map rs_uri (cd_contact_uris c)],
      cd_members c, cd_related_to c)"

lemma ids_kept:
  "ad_id (normalizeAddress nfc a) = ad_id a" "org_id (normalizeOrganization nfc g) = org_id g"
  "ti_id (normalizeTitle nfc t) = ti_id t" "os_uri (normalizeOnlineService nfc s) = os_uri s"
  "ad_coordinates (normalizeAddress nfc a) = ad_coordinates a"
  "rs_uri (normalizeResource nfc r) = rs_uri r"
  by (simp_all add: normalizeAddress_def normalizeOrganization_def normalize_defs)

lemma entry_ids_kept: "CardEntryIDs (normalizeCard nfc c) kind = CardEntryIDs c kind"
  by (simp add: CardEntryIDs_def normalizeCard_def Let_def ids_kept o_def)

section \<open>Properties\<close>

text \<open>Normalising a record twice is normalising it once, whenever the NFC transform itself is
  idempotent, so the start-up backfill can be interrupted and run again.\<close>

lemma NormalizeRecord_idempotent:
  assumes "idem nfc"
  shows "NormalizeRecord nfc (NormalizeRecord nfc r) = NormalizeRecord nfc r"
  by (cases r) (simp_all add: NormalizeRecord_def idem_card [OF assms] idem_envelope [OF assms])

lemma idem_to_lower: "idem to_lower"
proof -
  have "to_lower_char (to_lower_char c) = to_lower_char c" for c
    by (auto simp: to_lower_char_def Let_def)
  then show ?thesis by (simp add: idem_def to_lower_def o_def)
qed

lemma NormalizeRecord_idempotent_witness:
  "NormalizeRecord to_lower (NormalizeRecord to_lower (Some (record_of_card sample_card)))
   = NormalizeRecord to_lower (Some (record_of_card sample_card))"
  by (rule NormalizeRecord_idempotent [OF idem_to_lower])

text \<open>Normalisation never changes what identifies a contact or refers to another resource: the
  uid, every URI, coordinate, member and relation, the passthrough bag and the entry identifiers are
  byte-identical, so the same periods are valid and the same ones survive pruning.\<close>

lemma NormalizeRecord_keeps_identity:
  "map_option (\<lambda>r. (address_data (rc_card r), rc_passthrough r, rc_uid r, rc_etag r,
       InvalidPeriods (rc_envelope r) (rc_card r), PruneOrphanPeriods (rc_envelope r) (rc_card r),
       IsDeceased (rc_card r))) (NormalizeRecord nfc r)
   = map_option (\<lambda>r. (address_data (rc_card r), rc_passthrough r, rc_uid r, rc_etag r,
       InvalidPeriods (rc_envelope r) (rc_card r), PruneOrphanPeriods (rc_envelope r) (rc_card r),
       IsDeceased (rc_card r))) r"
proof (cases r)
  case (Some rc)
  let ?c = "rc_card rc" and ?e = "rc_envelope rc"
  have "address_data (normalizeCard nfc ?c) = address_data ?c"
    by (simp add: address_data_def normalizeCard_def ids_kept o_def)
  moreover have "period_resolves (normalizeCard nfc ?c) = period_resolves ?c"
    by (rule ext) (simp add: period_resolves_def entry_ids_kept)
  moreover have "ev_periods (normalizeEnvelope nfc ?e) = ev_periods ?e"
    by (simp add: normalizeEnvelope_def)
  moreover have "IsDeceased (normalizeCard nfc ?c) = IsDeceased ?c"
    by (simp add: IsDeceased_def DeathAnniversary_def normalizeCard_def find_None_iff
        normalizeAnniversary_def Bex_def)
  ultimately show ?thesis
    by (simp add: Some NormalizeRecord_def InvalidPeriods_def PruneOrphanPeriods_def)
qed (simp add: NormalizeRecord_def)

text \<open>The circle names of the envelope, free text of the user, are not normalised although the
  routine is documented to normalise every free-text string of the envelope.\<close>

lemma circles_not_normalised:
  "map_option (\<lambda>r. ev_circles (rc_envelope r)) (NormalizeRecord nfc r)
   = map_option (\<lambda>r. ev_circles (rc_envelope r)) r"
  by (cases r) (simp_all add: NormalizeRecord_def normalizeEnvelope_def)

end
