(* ===== verification/ContactFlat.thy ===== *)
theory ContactFlat imports Normalize begin

text \<open>
  The stored contact with its flat legacy columns (\<open>backend/models/contact.go\<close>) and the two mappings
  between those columns and the neutral record: \<open>RecordFromContact\<close>
  (\<open>models/contact_record.go\<close>) and \<open>ApplyRecordToContact\<close> (\<open>models/contact_record_reverse.go\<close>).
  Parameters stand for what is outside the mappings: \<open>nfc\<close> for the Unicode transform, \<open>photo\<close> for
  the photo store (the embedded data URI and media type of the stored photo) and \<open>extra\<close> for the
  decoded legacy JSON column of unmapped vCard properties.
\<close>

section \<open>The flat entries\<close>

record contact_email =
  ce_type :: string
  ce_value :: string

record contact_phone =
  cp_type :: string
  cp_value :: string

record contact_url =
  cu_type :: string
  cu_value :: string

record contact_impp =
  ci_type :: string
  ci_value :: string

record contact_address =
  ca_id :: string
  ca_coordinates :: string
  ca_sensitivity :: string
  ca_type :: string
  ca_street :: string
  ca_city :: string
  ca_region :: string
  ca_postal :: string
  ca_country :: string
  ca_pobox :: string
  ca_apartment :: string
  ca_floor :: string

record contact =
  con_id :: nat
  con_user :: nat
  con_firstname :: string
  con_lastname :: string
  con_nickname :: string
  con_gender :: string
  con_email :: string
  con_phone :: string
  con_birthday :: string
  con_photo :: string
  con_photo_thumbnail :: string
  con_address :: string
  con_how_we_met :: string
  con_work_information :: string
  con_contact_information :: string
  con_circles :: "string list"
  con_emails :: "contact_email list"
  con_phones :: "contact_phone list"
  con_addresses :: "contact_address list"
  con_urls :: "contact_url list"
  con_impps :: "contact_impp list"
  con_prefix :: string
  con_middle_name :: string
  con_suffix :: string
  con_organization :: string
  con_department :: string
  con_job_title :: string
  con_role :: string
  con_anniversary :: string
  con_vcard_uid :: string
  con_vcard_extra :: string
  con_etag :: string
  con_revision :: int
  con_archived :: bool
  con_is_favorite :: bool
  con_ambient :: bool
  con_target_closeness :: "string option"
  con_card :: card
  con_crm :: crm_envelope
  con_passthrough :: passthrough
  con_fn :: string
  con_org :: string
  con_addresses_flat :: string
  con_phones_normalized :: string
  con_sort_name :: string
  con_card_set_directly :: bool

definition FormatAddress :: "contact_address \<Rightarrow> string" where
  "FormatAddress a = join_with '', '' (filter (\<lambda>p. trim_space p \<noteq> [])
     [ca_street a, ca_pobox a, ca_apartment a, ca_floor a, ca_city a, ca_region a, ca_postal a,
      ca_country a])"

definition FlattenAddresses :: "contact_address list \<Rightarrow> string" where
  "FlattenAddresses as = join_with '' '' (map FormatAddress as)"

definition NormalizePhoneDigits :: "string \<Rightarrow> string" where
  "NormalizePhoneDigits p = filter is_digit p"

definition PhoneKey :: "string \<Rightarrow> string" where
  "PhoneKey p = (let digits = NormalizePhoneDigits p
     in if length digits < 7 then []
        else if 10 < length digits then drop (length digits - 10) digits else digits)"

definition FlattenPhones :: "contact_phone list \<Rightarrow> string" where
  "FlattenPhones ps = join_with '' '' (concat (map (\<lambda>p.
     let digits = NormalizePhoneDigits (cp_value p); key = PhoneKey (cp_value p)
     in if digits = [] then []
        else digits # (if key \<noteq> [] \<and> key \<noteq> digits then [key] else [])) ps))"

definition DeriveSortName :: "string \<Rightarrow> string \<Rightarrow> string" where
  "DeriveSortName lastname firstname =
     (let trimmed = trim_space lastname
      in if trimmed \<noteq> [] then to_lower trimmed else to_lower (trim_space firstname))"

section \<open>From the contact to the record\<close>

definition named_component :: "string \<Rightarrow> string \<Rightarrow> name_component list" where
  "named_component kind v =
     (if v \<noteq> [] then [\<lparr>nc_kind = kind, nc_value = v, nc_phonetic = []\<rparr>] else [])"

definition buildName :: "contact \<Rightarrow> card_name option" where
  "buildName c =
     (if con_firstname c = [] \<and> con_lastname c = [] \<and> con_middle_name c = [] \<and> con_prefix c = [] \<and>
         con_suffix c = [] then None
      else Some \<lparr>nm_components =
        named_component ''title'' (con_prefix c) @ named_component ''given'' (con_firstname c) @
        named_component ''given2'' (con_middle_name c) @ named_component ''surname'' (con_lastname c) @
        named_component ''credential'' (con_suffix c),
        nm_full = [], nm_sort_as = None, nm_is_ordered = None, nm_separator = [],
        nm_phonetic_system = [], nm_phonetic_script = []\<rparr>)"

definition buildNicknames :: "contact \<Rightarrow> nickname list" where
  "buildNicknames c = (if con_nickname c = [] then []
     else [\<lparr>nk_id = [], nk_name = con_nickname c, nk_contexts = [], nk_pref = None\<rparr>])"

definition buildOrganizations :: "contact \<Rightarrow> organization list" where
  "buildOrganizations c =
     (if con_organization c = [] \<and> con_department c = [] then []
      else [\<lparr>org_id = [], org_name = con_organization c,
             org_units = (if con_department c \<noteq> []
                          then [\<lparr>ou_name = con_department c, ou_sort_as = []\<rparr>] else []),
             org_sort_as = []\<rparr>])"

definition mk_title :: "string \<Rightarrow> string \<Rightarrow> title" where
  "mk_title n k = \<lparr>ti_id = [], ti_name = n, ti_kind = k, ti_organization = []\<rparr>"

definition buildTitles :: "contact \<Rightarrow> title list" where
  "buildTitles c =
     (if con_job_title c \<noteq> [] then [mk_title (con_job_title c) ''title''] else []) @
     (if con_role c \<noteq> [] then [mk_title (con_role c) ''role''] else [])"

definition mk_email :: "string \<Rightarrow> string \<Rightarrow> email" where
  "mk_email a l = \<lparr>em_id = [], em_address = a, em_contexts = [], em_pref = None, em_label = l\<rparr>"

definition buildEmails :: "contact \<Rightarrow> email list" where
  "buildEmails c =
     (let out = map (\<lambda>e. mk_email (ce_value e) (ce_type e)) (con_emails c)
      in if out = [] \<and> con_email c \<noteq> [] then [mk_email (con_email c) []] else out)"

definition mk_phone :: "string \<Rightarrow> string \<Rightarrow> phone" where
  "mk_phone n l = \<lparr>ph_id = [], ph_number = n, ph_features = [], ph_contexts = [], ph_pref = None,
     ph_label = l\<rparr>"

definition buildPhones :: "contact \<Rightarrow> phone list" where
  "buildPhones c =
     (let out = map (\<lambda>p. mk_phone (cp_value p) (cp_type p)) (con_phones c)
      in if out = [] \<and> con_phone c \<noteq> [] then [mk_phone (con_phone c) []] else out)"

definition mk_impp :: "string \<Rightarrow> string \<Rightarrow> online_service" where
  "mk_impp s u = \<lparr>os_id = [], os_service = s, os_uri = u, os_user = [], os_contexts = [],
     os_pref = None, os_label = []\<rparr>"

definition buildImpp :: "contact \<Rightarrow> online_service list" where
  "buildImpp c = map (\<lambda>i. mk_impp (ci_type i) (ci_value i)) (con_impps c)"

definition mk_resource :: "string \<Rightarrow> string \<Rightarrow> string \<Rightarrow> string \<Rightarrow> resource" where
  "mk_resource k u m l = \<lparr>rs_id = [], rs_kind = k, rs_uri = u, rs_media_type = m, rs_label = l,
     rs_contexts = [], rs_pref = None, rs_list_as = None\<rparr>"

definition buildLinks :: "contact \<Rightarrow> resource list" where
  "buildLinks c = map (\<lambda>u. mk_resource [] (cu_value u) [] (cu_type u)) (con_urls c)"

definition buildMedia :: "(contact \<Rightarrow> string \<times> string) \<Rightarrow> contact \<Rightarrow> resource list" where
  "buildMedia photo c =
     (let (uri, mediaType) = photo c
      in if uri = [] then [] else [mk_resource ''photo'' uri mediaType []])"

definition addr_component :: "string \<Rightarrow> string \<Rightarrow> address_component list" where
  "addr_component kind v =
     (if v \<noteq> [] then [\<lparr>ac_kind = kind, ac_value = v, ac_phonetic = []\<rparr>] else [])"

definition blank_address :: address where
  "blank_address = \<lparr>ad_id = [], ad_components = [], ad_country_code = [], ad_coordinates = [],
     ad_time_zone = [], ad_contexts = [], ad_pref = None, ad_full = [], ad_is_ordered = None,
     ad_separator = [], ad_phonetic_system = [], ad_phonetic_script = [], ad_sensitivity = []\<rparr>"

definition AddressFromContactAddress :: "contact_address \<Rightarrow> address" where
  "AddressFromContactAddress a = blank_address\<lparr>
     ad_id := ca_id a,
     ad_components :=
       addr_component ''name'' (ca_street a) @ addr_component ''postOfficeBox'' (ca_pobox a) @
       addr_component ''apartment'' (ca_apartment a) @ addr_component ''floor'' (ca_floor a) @
       addr_component ''locality'' (ca_city a) @ addr_component ''region'' (ca_region a) @
       addr_component ''postcode'' (ca_postal a) @ addr_component ''country'' (ca_country a),
     ad_full := FormatAddress a,
     ad_coordinates := ca_coordinates a,
     ad_sensitivity := ca_sensitivity a,
     ad_contexts := (if ca_type a \<noteq> [] then [ca_type a] else [])\<rparr>"

definition buildAddresses :: "contact \<Rightarrow> address list" where
  "buildAddresses c =
     (let out = map AddressFromContactAddress (con_addresses c)
      in if out = [] \<and> con_address c \<noteq> [] then [blank_address\<lparr>ad_full := con_address c\<rparr>] else out)"

text \<open>\<open>^(--|\d{4}-)\d{2}-\d{2}$\<close>, the shape the birthday validator accepts.\<close>

definition matches_birthday :: "string \<Rightarrow> bool" where
  "matches_birthday s \<longleftrightarrow>
     (length s = 7 \<and> take 2 s = ''--'' \<and> list_all is_digit (slice s 2 4) \<and> s ! 4 = CHR ''-'' \<and>
        list_all is_digit (slice s 5 7)) \<or>
     (length s = 10 \<and> list_all is_digit (take 4 s) \<and> s ! 4 = CHR ''-'' \<and>
        list_all is_digit (slice s 5 7) \<and> s ! 7 = CHR ''-'' \<and> list_all is_digit (slice s 8 10))"

definition mk_partial :: "int option \<Rightarrow> int option \<Rightarrow> int option \<Rightarrow> partial_date" where
  "mk_partial y m d = \<lparr>pd_year = y, pd_month = m, pd_day = d, pd_scale = []\<rparr>"

definition parsePartialDateString :: "string \<Rightarrow> partial_date option" where
  "parsePartialDateString s0 =
     (let s = trim_space s0
      in if s = [] \<or> \<not> matches_birthday s then None
         else if has_prefix s ''--'' then
           (case split_on CHR ''-'' (drop 2 s) of
              [a, b] \<Rightarrow> (case (atoi a, atoi b) of
                           (Some m, Some d) \<Rightarrow> Some (mk_partial None (Some m) (Some d))
                         | _ \<Rightarrow> None)
            | _ \<Rightarrow> None)
         else
           (case split_on CHR ''-'' s of
              [a, b, c] \<Rightarrow> (case (atoi a, atoi b, atoi c) of
                              (Some y, Some m, Some d) \<Rightarrow> Some (mk_partial (Some y) (Some m) (Some d))
                            | _ \<Rightarrow> None)
            | _ \<Rightarrow> None))"

definition mk_anniversary :: "string \<Rightarrow> partial_date \<Rightarrow> anniversary" where
  "mk_anniversary k d = \<lparr>an_id = [], an_kind = k,
     an_date = \<lparr>an_partial = Some d, an_timestamp = None\<rparr>, an_place = None\<rparr>"

definition buildAnniversaries :: "contact \<Rightarrow> anniversary list" where
  "buildAnniversaries c =
     (case parsePartialDateString (con_birthday c) of None \<Rightarrow> [] | Some d \<Rightarrow> [mk_anniversary ''birth'' d]) @
     (case parsePartialDateString (con_anniversary c) of None \<Rightarrow> [] | Some d \<Rightarrow> [mk_anniversary ''wedding'' d])"

definition ambientPtr :: "bool \<Rightarrow> bool option" where
  "ambientPtr v = (if v then Some True else None)"

definition empty_passthrough :: passthrough where
  "empty_passthrough = \<lparr>pt_vcard = [], pt_jscontact = Map.empty\<rparr>"

definition buildPassthrough :: "(string \<Rightarrow> jcard_prop list option) \<Rightarrow> contact \<Rightarrow> passthrough" where
  "buildPassthrough extra c =
     (if con_vcard_extra c = [] then empty_passthrough
      else (case extra (con_vcard_extra c) of
              None \<Rightarrow> empty_passthrough
            | Some ps \<Rightarrow> empty_passthrough\<lparr>pt_vcard := ps\<rparr>))"

definition RecordFromContact ::
  "(contact \<Rightarrow> string \<times> string) \<Rightarrow> (string \<Rightarrow> jcard_prop list option) \<Rightarrow> contact \<Rightarrow> contact_record" where
  "RecordFromContact photo extra c =
     \<lparr>rc_card = empty_card\<lparr>
        cd_uid := con_vcard_uid c, cd_name := buildName c, cd_nicknames := buildNicknames c,
        cd_organizations := buildOrganizations c, cd_titles := buildTitles c,
        cd_emails := buildEmails c, cd_phones := buildPhones c, cd_impp := buildImpp c,
        cd_addresses := buildAddresses c, cd_anniversaries := buildAnniversaries c,
        cd_links := buildLinks c, cd_media := buildMedia photo c\<rparr>,
      rc_envelope = empty_envelope\<lparr>
        ev_circles := con_circles c, ev_how_we_met := con_how_we_met c,
        ev_work_information := con_work_information c,
        ev_contact_information := con_contact_information c, ev_gender := con_gender c,
        ev_ambient := ambientPtr (con_ambient c), ev_target_closeness := con_target_closeness c\<rparr>,
      rc_passthrough = buildPassthrough extra c,
      rc_uid = con_vcard_uid c, rc_etag = con_etag c\<rparr>"

section \<open>From the record to the contact\<close>

text \<open>The value of the last component of a kind, as a loop that overwrites a variable leaves it.\<close>

definition last_value :: "('a \<Rightarrow> string) \<Rightarrow> ('a \<Rightarrow> string) \<Rightarrow> string \<Rightarrow> 'a list \<Rightarrow> string" where
  "last_value kind val k xs = foldl (\<lambda>acc x. if kind x = k then val x else acc) [] xs"

definition name_part :: "card_name option \<Rightarrow> string \<Rightarrow> string" where
  "name_part n k = (case n of None \<Rightarrow> [] | Some nm \<Rightarrow> last_value nc_kind nc_value k (nm_components nm))"

definition applyName :: "card \<Rightarrow> projection \<Rightarrow> contact \<Rightarrow> contact" where
  "applyName cd pj c =
     (let given = name_part (cd_name cd) ''given''; surname = name_part (cd_name cd) ''surname''
      in c\<lparr>con_firstname := (if given = [] then pj_firstname pj else given),
           con_lastname := (if surname = [] then pj_lastname pj else surname),
           con_middle_name := name_part (cd_name cd) ''given2'',
           con_prefix := name_part (cd_name cd) ''title'',
           con_suffix := name_part (cd_name cd) ''credential''\<rparr>)"

definition applyNickname :: "card \<Rightarrow> contact \<Rightarrow> contact" where
  "applyNickname cd c =
     c\<lparr>con_nickname := (case cd_nicknames cd of [] \<Rightarrow> [] | n # _ \<Rightarrow> nk_name n)\<rparr>"

definition org_pair :: "organization list \<Rightarrow> string \<times> string" where
  "org_pair os = (case os of [] \<Rightarrow> ([], [])
     | g # _ \<Rightarrow> (org_name g, case org_units g of [] \<Rightarrow> [] | u # _ \<Rightarrow> ou_name u))"

definition applyOrganization :: "card \<Rightarrow> contact \<Rightarrow> contact" where
  "applyOrganization cd c =
     (let (o', d) = org_pair (cd_organizations cd)
      in c\<lparr>con_organization := o', con_department := d\<rparr>)"

definition title_pair :: "title list \<Rightarrow> string \<times> string" where
  "title_pair ts = (last_value ti_kind ti_name ''title'' ts, last_value ti_kind ti_name ''role'' ts)"

definition applyTitles :: "card \<Rightarrow> contact \<Rightarrow> contact" where
  "applyTitles cd c =
     (let (j, r) = title_pair (cd_titles cd) in c\<lparr>con_job_title := j, con_role := r\<rparr>)"

definition projectEmail :: "email \<Rightarrow> contact_email" where
  "projectEmail e = \<lparr>ce_type = em_label e, ce_value = em_address e\<rparr>"

definition projectPhone :: "phone \<Rightarrow> contact_phone" where
  "projectPhone p = \<lparr>cp_type = ph_label p, cp_value = ph_number p\<rparr>"

definition projectImpp :: "online_service \<Rightarrow> contact_impp" where
  "projectImpp s = \<lparr>ci_type = os_service s, ci_value = os_uri s\<rparr>"

definition projectLink :: "resource \<Rightarrow> contact_url" where
  "projectLink r = \<lparr>cu_type = rs_label r, cu_value = rs_uri r\<rparr>"

definition applyEmails :: "card \<Rightarrow> projection \<Rightarrow> contact \<Rightarrow> contact" where
  "applyEmails cd pj c =
     (let es = map projectEmail (cd_emails cd)
      in c\<lparr>con_emails := es,
           con_email := (case es of [] \<Rightarrow> pj_primary_email pj | e # _ \<Rightarrow> ce_value e)\<rparr>)"

definition applyPhones :: "card \<Rightarrow> projection \<Rightarrow> contact \<Rightarrow> contact" where
  "applyPhones cd pj c =
     (let ps = map projectPhone (cd_phones cd)
      in c\<lparr>con_phones := ps,
           con_phone := (case ps of [] \<Rightarrow> pj_primary_phone pj | p # _ \<Rightarrow> cp_value p)\<rparr>)"

definition applyImpp :: "card \<Rightarrow> contact \<Rightarrow> contact" where
  "applyImpp cd c = c\<lparr>con_impps := map projectImpp (cd_impp cd)\<rparr>"

definition applyLinks :: "card \<Rightarrow> contact \<Rightarrow> contact" where
  "applyLinks cd c = c\<lparr>con_urls := map projectLink (cd_links cd)\<rparr>"

definition contactAddressFromNeutral :: "address \<Rightarrow> contact_address" where
  "contactAddressFromNeutral a =
     (let part = (\<lambda>k. last_value ac_kind ac_value k (ad_components a))
      in \<lparr>ca_id = ad_id a, ca_coordinates = ad_coordinates a, ca_sensitivity = ad_sensitivity a,
          ca_type = (case ad_contexts a of [] \<Rightarrow> []
             | x # _ \<Rightarrow> (case map_of context_to_type_token x of Some tok \<Rightarrow> tok | None \<Rightarrow> x)),
          ca_street = part ''name'', ca_city = part ''locality'', ca_region = part ''region'',
          ca_postal = part ''postcode'', ca_country = part ''country'',
          ca_pobox = part ''postOfficeBox'', ca_apartment = part ''apartment'',
          ca_floor = part ''floor''\<rparr>)"

definition applyAddresses :: "card \<Rightarrow> contact \<Rightarrow> contact" where
  "applyAddresses cd c =
     (let as = map contactAddressFromNeutral (cd_addresses cd)
      in c\<lparr>con_addresses := as,
           con_address := (case as of [] \<Rightarrow> [] | a # _ \<Rightarrow> FormatAddress a)\<rparr>)"

definition applyAnniversaries :: "card \<Rightarrow> projection \<Rightarrow> contact \<Rightarrow> contact" where
  "applyAnniversaries cd pj c =
     c\<lparr>con_birthday := pj_birthday pj,
       con_anniversary := (case find (\<lambda>a. an_kind a = ''wedding'') (cd_anniversaries cd) of
          None \<Rightarrow> [] | Some a \<Rightarrow> formatAnniversaryDate (an_date a))\<rparr>"

text \<open>The mapping with an empty photo directory, where \<open>applyMedia\<close> is a no-op by design (the import
  and preview callers); with a directory that step also writes the photo files.\<close>

definition ApplyRecordToContact :: "(string \<Rightarrow> string) \<Rightarrow> contact option \<Rightarrow> contact_record option \<Rightarrow> contact option" where
  "ApplyRecordToContact nfc c0 r0 =
     (case (c0, NormalizeRecord nfc r0) of
        (Some c, Some r) \<Rightarrow>
          (let cd = rc_card r; pj = DeriveProjection (Some r); env = rc_envelope r;
               previous = ev_personal_info_meta (con_crm c);
               c1 = (applyAnniversaries cd pj o applyAddresses cd o applyLinks cd o applyImpp cd o
                     applyPhones cd pj o applyEmails cd pj o applyTitles cd o applyOrganization cd o
                     applyNickname cd o applyName cd pj) c
           in Some (c1\<lparr>
                con_circles := ev_circles env,
                con_how_we_met := ev_how_we_met env,
                con_work_information := ev_work_information env,
                con_contact_information := ev_contact_information env,
                con_gender := (if ev_gender env \<noteq> [] then ev_gender env else con_gender c1),
                con_ambient := (case ev_ambient env of None \<Rightarrow> con_ambient c1 | Some b \<Rightarrow> b),
                con_vcard_uid := (if cd_uid cd \<noteq> [] then cd_uid cd else con_vcard_uid c1),
                con_card := cd,
                con_crm := (if ev_personal_info_meta env = None
                            then env\<lparr>ev_personal_info_meta := previous\<rparr> else env),
                con_passthrough := rc_passthrough r,
                con_card_set_directly := True\<rparr>))
      | _ \<Rightarrow> c0)"

definition PreserveLocalOnlyCRMFields :: "contact option \<Rightarrow> contact_record option \<Rightarrow> contact_record option" where
  "PreserveLocalOnlyCRMFields existing incoming =
     (case (existing, incoming) of
        (Some c, Some r) \<Rightarrow>
          (let e = rc_envelope r
           in Some (r\<lparr>rc_envelope := e\<lparr>
                ev_circles := (if ev_circles e = [] then con_circles c else ev_circles e),
                ev_how_we_met := (if ev_how_we_met e = [] then con_how_we_met c else ev_how_we_met e),
                ev_work_information :=
                  (if ev_work_information e = [] then con_work_information c else ev_work_information e),
                ev_contact_information :=
                  (if ev_contact_information e = [] then con_contact_information c
                   else ev_contact_information e),
                ev_kind := (if ev_kind e = [] then ev_kind (con_crm c) else ev_kind e),
                ev_periods := (if ev_periods e = [] then ev_periods (con_crm c) else ev_periods e)\<rparr>\<rparr>))
      | _ \<Rightarrow> incoming)"

section \<open>Export loss diagnostics\<close>

text \<open>The concept of each diagnostic; every one has severity \<open>warn\<close> and the same message.\<close>

definition EnvelopeExportLossDiagnostics :: "contact_record option \<Rightarrow> string list" where
  "EnvelopeExportLossDiagnostics r =
     (case r of None \<Rightarrow> []
      | Some rc \<Rightarrow>
         (let e = rc_envelope rc in
           map fst (filter (\<lambda>f. snd f \<noteq> [])
             [(''crm.gender'', ev_gender e), (''crm.how_we_met'', ev_how_we_met e),
              (''crm.work_information'', ev_work_information e),
              (''crm.contact_information'', ev_contact_information e)]) @
           (if ev_circles e \<noteq> [] then [''crm.circles''] else []) @
           (if ev_periods e \<noteq> [] then [''crm.periods''] else []) @
           (if ev_ambient e = Some True then [''crm.ambient''] else []) @
           (case ev_target_closeness e of Some t \<Rightarrow> if t \<noteq> [] then [''crm.target_closeness''] else []
            | None \<Rightarrow> [])))"

end
