(* ===== verification/CardMerge.thy ===== *)
theory CardMerge imports ContactFlat begin

text \<open>
  What a plain save does to the neutral card (\<open>backend/models/contact_card_merge.go\<close>,
  \<open>contact_address_ids.go\<close> and \<open>deriveDenormalized\<close> in \<open>contact.go\<close>): the record derived from the
  flat columns is merged onto the stored one, entry by entry, so that data with no flat column
  survives. Interface \<open>flat_projection\<close>: an entry type with a lossy flat form, whose rebuilt entry
  projects to the same form; it is instantiated for the four projected collections.
\<close>

section \<open>The merge\<close>

fun mergeProjectedArray :: "('a \<Rightarrow> 'f) \<Rightarrow> 'a list \<Rightarrow> 'a list \<Rightarrow> 'a list" where
  "mergeProjectedArray proj loaded [] = []"
| "mergeProjectedArray proj [] (f # fs) = f # mergeProjectedArray proj [] fs"
| "mergeProjectedArray proj (l # ls) (f # fs) =
     (if proj l = proj f then l else f) # mergeProjectedArray proj ls fs"

definition merge_address :: "address \<Rightarrow> address \<Rightarrow> address" where
  "merge_address loaded fresh =
     (let l0 = contactAddressFromNeutral loaded; f0 = contactAddressFromNeutral fresh;
          oneSided = (ca_id l0 = [] \<or> ca_id f0 = []);
          l1 = (if oneSided then l0\<lparr>ca_id := []\<rparr> else l0);
          f = (if oneSided then f0\<lparr>ca_id := []\<rparr> else f0);
          l2 = (if ca_coordinates l1 \<noteq> [] \<and> ca_coordinates f = [] then l1\<lparr>ca_coordinates := []\<rparr> else l1);
          l = (if ca_sensitivity l2 \<noteq> [] \<and> ca_sensitivity f = [] then l2\<lparr>ca_sensitivity := []\<rparr> else l2)
      in if l = f then loaded else fresh)"

fun mergeAddresses :: "address list \<Rightarrow> address list \<Rightarrow> address list" where
  "mergeAddresses loaded [] = []"
| "mergeAddresses [] (f # fs) = f # mergeAddresses [] fs"
| "mergeAddresses (l # ls) (f # fs) = merge_address l f # mergeAddresses ls fs"

definition name_projection :: "card_name option \<Rightarrow> string list" where
  "name_projection n = map (name_part n) [''title'', ''given'', ''given2'', ''surname'', ''credential'']"

definition mergeName :: "card_name option \<Rightarrow> card_name option \<Rightarrow> card_name option" where
  "mergeName loaded fresh = (if name_projection loaded = name_projection fresh then loaded else fresh)"

definition mergeNicknames :: "nickname list \<Rightarrow> nickname list \<Rightarrow> nickname list" where
  "mergeNicknames loaded fresh =
     (if loaded \<noteq> [] \<and> fresh \<noteq> [] \<and> nk_name (hd loaded) = nk_name (hd fresh) then loaded
      else if loaded = [] \<and> fresh = [] then loaded else fresh)"

definition mergeOrganizations :: "organization list \<Rightarrow> organization list \<Rightarrow> organization list" where
  "mergeOrganizations loaded fresh = (if org_pair loaded = org_pair fresh then loaded else fresh)"

definition mergeTitles :: "title list \<Rightarrow> title list \<Rightarrow> title list" where
  "mergeTitles loaded fresh = (if title_pair loaded = title_pair fresh then loaded else fresh)"

definition formatAnniversaryForMerge :: "anniversary_date \<Rightarrow> string" where
  "formatAnniversaryForMerge d =
     pj_birthday (DeriveProjection (Some (record_of_card (empty_card\<lparr>cd_anniversaries :=
       [\<lparr>an_id = [], an_kind = ''birth'', an_date = d, an_place = None\<rparr>]\<rparr>))))"

definition anniversary_pair :: "anniversary list \<Rightarrow> string \<times> string" where
  "anniversary_pair as =
     (last_value an_kind (formatAnniversaryForMerge o an_date) ''birth'' as,
      last_value an_kind (formatAnniversaryForMerge o an_date) ''wedding'' as)"

definition mergeAnniversaries :: "anniversary list \<Rightarrow> anniversary list \<Rightarrow> anniversary list" where
  "mergeAnniversaries loaded fresh =
     (if anniversary_pair loaded = anniversary_pair fresh then loaded else fresh)"

text \<open>\<open>DecodePhotoURI\<close> as far as the merge asks it: whether the value is an http(s) reference.\<close>

definition remote_photo_url :: "string \<Rightarrow> string" where
  "remote_photo_url v =
     (let clean = remove_char (CHR 0x0D) (remove_char (CHR 0x0A) (remove_char (CHR '' '') v))
      in if v = [] then []
         else if has_prefix clean ''http://'' \<or> has_prefix clean ''https://'' then clean else [])"

definition loadedPhotoHasNoFlatHome :: "resource \<Rightarrow> bool" where
  "loadedPhotoHasNoFlatHome r \<longleftrightarrow> remote_photo_url (rs_uri r) \<noteq> []"

definition mergeMedia :: "resource list \<Rightarrow> resource list \<Rightarrow> resource list" where
  "mergeMedia loaded fresh =
     (let photos = filter (\<lambda>r. rs_kind r = ''photo'') fresh
      in photos @ filter (\<lambda>r. rs_kind r \<noteq> ''photo'' \<or> photos = [] \<and> loadedPhotoHasNoFlatHome r) loaded)"

definition mergeCardWithFlat :: "card \<Rightarrow> card \<Rightarrow> card" where
  "mergeCardWithFlat loaded fresh = loaded\<lparr>
     cd_uid := cd_uid fresh,
     cd_name := mergeName (cd_name loaded) (cd_name fresh),
     cd_nicknames := mergeNicknames (cd_nicknames loaded) (cd_nicknames fresh),
     cd_organizations := mergeOrganizations (cd_organizations loaded) (cd_organizations fresh),
     cd_titles := mergeTitles (cd_titles loaded) (cd_titles fresh),
     cd_emails := mergeProjectedArray projectEmail (cd_emails loaded) (cd_emails fresh),
     cd_phones := mergeProjectedArray projectPhone (cd_phones loaded) (cd_phones fresh),
     cd_impp := mergeProjectedArray projectImpp (cd_impp loaded) (cd_impp fresh),
     cd_addresses := mergeAddresses (cd_addresses loaded) (cd_addresses fresh),
     cd_anniversaries := mergeAnniversaries (cd_anniversaries loaded) (cd_anniversaries fresh),
     cd_links := mergeProjectedArray projectLink (cd_links loaded) (cd_links fresh),
     cd_media := mergeMedia (cd_media loaded) (cd_media fresh)\<rparr>"

definition mergeRecordFromFlat :: "contact_record \<Rightarrow> contact_record \<Rightarrow> contact_record" where
  "mergeRecordFromFlat loaded fresh =
     (let mergedCard = mergeCardWithFlat (rc_card loaded) (rc_card fresh);
          le = rc_envelope loaded; fe = rc_envelope fresh
      in \<lparr>rc_card = mergedCard,
          rc_envelope = \<lparr>ev_kind = ev_kind le, ev_circles = ev_circles fe,
            ev_how_we_met = ev_how_we_met fe, ev_work_information = ev_work_information fe,
            ev_contact_information = ev_contact_information fe, ev_gender = ev_gender fe,
            ev_periods = PruneOrphanPeriods le mergedCard, ev_ambient = ev_ambient fe,
            ev_target_closeness = ev_target_closeness fe,
            ev_personal_info_meta = ev_personal_info_meta le\<rparr>,
          rc_passthrough = (if rc_passthrough fresh = empty_passthrough then rc_passthrough loaded
                            else rc_passthrough fresh),
          rc_uid = rc_uid fresh, rc_etag = rc_etag fresh\<rparr>)"

section \<open>Address identifiers and map fields\<close>

definition samePostalFields :: "contact_address \<Rightarrow> contact_address \<Rightarrow> bool" where
  "samePostalFields a b \<longleftrightarrow>
     a\<lparr>ca_id := [], ca_coordinates := [], ca_sensitivity := []\<rparr> =
     b\<lparr>ca_id := [], ca_coordinates := [], ca_sensitivity := []\<rparr>"

text \<open>\<open>mint i\<close> is the identifier \<open>uuid.NewString\<close> returns for position \<open>i\<close>. The first list is the
  flat side, the second the card side; both are returned.\<close>

fun ensure_pairs ::
  "(nat \<Rightarrow> string) \<Rightarrow> nat \<Rightarrow> contact_address list \<Rightarrow> address list \<Rightarrow> contact_address list \<times> address list" where
  "ensure_pairs mint i [] cs = ([], cs)"
| "ensure_pairs mint i (a # as) [] =
     (let (as', cs') = ensure_pairs mint (Suc i) as []
      in ((if ca_id a \<noteq> [] then a else a\<lparr>ca_id := mint i\<rparr>) # as', cs'))"
| "ensure_pairs mint i (a # as) (c # cs) =
     (let (as', cs') = ensure_pairs mint (Suc i) as cs
      in if ca_id a \<noteq> [] then (a # as', c # cs')
         else if samePostalFields (contactAddressFromNeutral c) a then
           (let i' = (if ad_id c = [] then mint i else ad_id c)
            in (a\<lparr>ca_id := i'\<rparr> # as', c\<lparr>ad_id := i'\<rparr> # cs'))
         else (a\<lparr>ca_id := mint i\<rparr> # as', c # cs'))"

fun mirror_ids :: "contact_address list \<Rightarrow> address list \<Rightarrow> contact_address list" where
  "mirror_ids [] cs = []"
| "mirror_ids (a # as) [] = a # as"
| "mirror_ids (a # as) (c # cs) = a\<lparr>ca_id := ad_id c\<rparr> # mirror_ids as cs"

fun mint_ids :: "(nat \<Rightarrow> string) \<Rightarrow> nat \<Rightarrow> address list \<Rightarrow> address list" where
  "mint_ids mint i [] = []"
| "mint_ids mint i (c # cs) =
     (if ad_id c = [] then c\<lparr>ad_id := mint i\<rparr> else c) # mint_ids mint (Suc i) cs"

definition ensureAddressIDs :: "(nat \<Rightarrow> string) \<Rightarrow> bool \<Rightarrow> contact \<Rightarrow> contact" where
  "ensureAddressIDs mint directCard c =
     (if directCard then
        (if cd_addresses (con_card c) = [] then c
         else (let cs = mint_ids mint 0 (cd_addresses (con_card c))
               in c\<lparr>con_card := (con_card c)\<lparr>cd_addresses := cs\<rparr>,
                    con_addresses := mirror_ids (con_addresses c) cs\<rparr>))
      else (let (as, cs) = ensure_pairs mint 0 (con_addresses c) (cd_addresses (con_card c))
            in c\<lparr>con_addresses := as, con_card := (con_card c)\<lparr>cd_addresses := cs\<rparr>\<rparr>))"

fun converge_pairs :: "contact_address list \<Rightarrow> address list \<Rightarrow> contact_address list" where
  "converge_pairs [] cs = []"
| "converge_pairs (a # as) [] = a # as"
| "converge_pairs (a # as) (c # cs) =
     a\<lparr>ca_coordinates := (if ca_coordinates a = [] \<and> ad_coordinates c \<noteq> [] then ad_coordinates c
                          else ca_coordinates a),
       ca_sensitivity := (if ca_sensitivity a = [] \<and> ad_sensitivity c \<noteq> [] then ad_sensitivity c
                          else ca_sensitivity a)\<rparr> # converge_pairs as cs"

definition convergeAddressMapFieldsFromCard :: "contact \<Rightarrow> contact" where
  "convergeAddressMapFieldsFromCard c =
     c\<lparr>con_addresses := converge_pairs (con_addresses c) (cd_addresses (con_card c))\<rparr>"

definition FindAddressByID :: "contact \<Rightarrow> string \<Rightarrow> nat option" where
  "FindAddressByID c i = (if i = [] then None else find_index (\<lambda>a. ca_id a = i) (con_addresses c))"

definition SetAddressCoordinates :: "contact \<Rightarrow> string \<Rightarrow> string \<Rightarrow> contact \<times> bool" where
  "SetAddressCoordinates c i coords =
     (case FindAddressByID c i of
        None \<Rightarrow> (c, False)
      | Some k \<Rightarrow>
         (let as = (con_addresses c)[k := (con_addresses c ! k)\<lparr>ca_coordinates := coords\<rparr>];
              cs = cd_addresses (con_card c);
              cs' = (case find_index (\<lambda>a. ad_id a = i) cs of
                       None \<Rightarrow> cs | Some j \<Rightarrow> cs[j := (cs ! j)\<lparr>ad_coordinates := coords\<rparr>])
          in (c\<lparr>con_addresses := as, con_card := (con_card c)\<lparr>cd_addresses := cs'\<rparr>\<rparr>, True)))"

section \<open>Personal-info identifiers\<close>

fun mint_info_ids :: "(nat \<Rightarrow> string) \<Rightarrow> nat \<Rightarrow> personal_info list \<Rightarrow> personal_info list" where
  "mint_info_ids mint i [] = []"
| "mint_info_ids mint i (p # ps) =
     (if pi_id p = [] then p\<lparr>pi_id := mint i\<rparr> else p) # mint_info_ids mint (Suc i) ps"

definition live_info_ids :: "card \<Rightarrow> string list" where
  "live_info_ids c = filter (\<lambda>i. i \<noteq> []) (map pi_id (cd_personal_info c))"

definition ensurePersonalInfoIDs :: "(nat \<Rightarrow> string) \<Rightarrow> contact \<Rightarrow> contact" where
  "ensurePersonalInfoIDs mint c =
     (let cd = (con_card c)\<lparr>cd_personal_info := mint_info_ids mint 0 (cd_personal_info (con_card c))\<rparr>;
          live = live_info_ids cd; e = con_crm c
      in c\<lparr>con_card := cd,
           con_crm := (case ev_personal_info_meta e of
              None \<Rightarrow> e
            | Some m \<Rightarrow> if dom m \<subseteq> set live then e
                        else e\<lparr>ev_personal_info_meta :=
                               (if list_ex (\<lambda>i. m i \<noteq> None) live then Some (m |` set live) else None)\<rparr>)\<rparr>)"

section \<open>The save hook\<close>

definition deriveDenormalized ::
  "(contact \<Rightarrow> string \<times> string) \<Rightarrow> (string \<Rightarrow> jcard_prop list option) \<Rightarrow> (nat \<Rightarrow> string) \<Rightarrow>
   (nat \<Rightarrow> string) \<Rightarrow> contact \<Rightarrow> contact" where
  "deriveDenormalized photo extra mintA mintP c0 =
     (let c1 = ensurePersonalInfoIDs mintP (ensureAddressIDs mintA (con_card_set_directly c0) c0);
          c2 = c1\<lparr>
            con_email := (case con_emails c1 of [] \<Rightarrow> con_email c1 | e # _ \<Rightarrow> ce_value e),
            con_phone := (case con_phones c1 of [] \<Rightarrow> con_phone c1 | p # _ \<Rightarrow> cp_value p),
            con_address := (case con_addresses c1 of [] \<Rightarrow> con_address c1 | a # _ \<Rightarrow> FormatAddress a),
            con_addresses_flat := FlattenAddresses (con_addresses c1),
            con_phones_normalized := FlattenPhones (con_phones c1)\<rparr>;
          stored = \<lparr>rc_card = con_card c2, rc_envelope = con_crm c2,
                    rc_passthrough = con_passthrough c2, rc_uid = [], rc_etag = []\<rparr>;
          record = (if con_card_set_directly c2 then stored
                    else mergeRecordFromFlat stored (RecordFromContact photo extra c2));
          c3 = (if con_card_set_directly c2 then c2\<lparr>con_card_set_directly := False\<rparr>
                else convergeAddressMapFieldsFromCard
                       (c2\<lparr>con_card := rc_card record, con_crm := rc_envelope record,
                           con_passthrough := rc_passthrough record\<rparr>));
          env = (rc_envelope record)\<lparr>ev_ambient := ambientPtr (con_ambient c3),
                  ev_target_closeness := con_target_closeness c3\<rparr>;
          pj = DeriveProjection (Some (record\<lparr>rc_envelope := env\<rparr>));
          c4 = c3\<lparr>con_crm := env,
            con_firstname := (if pj_firstname pj \<noteq> [] then pj_firstname pj else con_firstname c3),
            con_lastname := (if pj_lastname pj \<noteq> [] then pj_lastname pj else con_lastname c3),
            con_email := (if pj_primary_email pj \<noteq> [] then pj_primary_email pj else con_email c3),
            con_phone := (if pj_primary_phone pj \<noteq> [] then pj_primary_phone pj else con_phone c3),
            con_birthday := (if pj_birthday pj \<noteq> [] then pj_birthday pj else con_birthday c3),
            con_fn := pj_fn pj, con_org := pj_org pj\<rparr>
      in c4\<lparr>con_sort_name := DeriveSortName (con_lastname c4) (con_firstname c4)\<rparr>)"

section \<open>Entries that project back to themselves\<close>

text \<open>The contract between a projection and the builder that inverts it on the flat side: the built
  entry projects to the flat form it was built from. Under it, a save whose flat entries are exactly
  the projections of the stored ones keeps every stored entry.\<close>

locale flat_projection =
  fixes proj :: "'a \<Rightarrow> 'f" and build :: "'f \<Rightarrow> 'a"
  assumes proj_build: "proj (build f) = f"
begin

lemma merge_untouched: "mergeProjectedArray proj loaded (map (build \<circ> proj) loaded) = loaded"
  by (induction loaded) (simp_all add: proj_build)

lemma merge_appended:
  "mergeProjectedArray proj loaded (map (build \<circ> proj) loaded @ map build new) = loaded @ map build new"
proof (induction loaded)
  case Nil
  have "mergeProjectedArray proj [] fs = fs" for fs by (induction fs) auto
  then show ?case by simp
qed (simp add: proj_build)

lemma merge_truncated:
  "mergeProjectedArray proj loaded (map (build \<circ> proj) (take n loaded)) = take n loaded"
proof (induction loaded arbitrary: n)
  case (Cons l ls)
  then show ?case by (cases n) (simp_all add: proj_build)
qed simp

lemma flat_after_merge: "map proj (mergeProjectedArray proj loaded (map build fs)) = fs"
proof (induction fs arbitrary: loaded)
  case (Cons f fs)
  then show ?case by (cases loaded) (auto simp: proj_build)
qed simp

end

definition email_of_flat :: "contact_email \<Rightarrow> email" where
  "email_of_flat e = mk_email (ce_value e) (ce_type e)"

definition phone_of_flat :: "contact_phone \<Rightarrow> phone" where
  "phone_of_flat p = mk_phone (cp_value p) (cp_type p)"

definition impp_of_flat :: "contact_impp \<Rightarrow> online_service" where
  "impp_of_flat i = mk_impp (ci_type i) (ci_value i)"

definition link_of_flat :: "contact_url \<Rightarrow> resource" where
  "link_of_flat u = mk_resource [] (cu_value u) [] (cu_type u)"

interpretation em: flat_projection projectEmail email_of_flat
  by unfold_locales (simp add: projectEmail_def email_of_flat_def mk_email_def)

interpretation ph: flat_projection projectPhone phone_of_flat
  by unfold_locales (simp add: projectPhone_def phone_of_flat_def mk_phone_def)

interpretation im: flat_projection projectImpp impp_of_flat
  by unfold_locales (simp add: projectImpp_def impp_of_flat_def mk_impp_def)

interpretation ln: flat_projection projectLink link_of_flat
  by unfold_locales (simp add: projectLink_def link_of_flat_def mk_resource_def)

end
