(* ===== verification/PlainSave.thy ===== *)
theory PlainSave imports CardMerge begin

text \<open>
  Correctness of the two mappings and of the plain-save merge: dates round-trip through their flat
  string, flat addresses and names round-trip through their components, a contact read back from a
  record and saved again keeps the whole card, and which cards do not.
\<close>

section \<open>Partial dates and their flat strings\<close>

definition storable_partial :: "partial_date \<Rightarrow> bool" where
  "storable_partial p \<longleftrightarrow>
     (case pd_year p of None \<Rightarrow> True | Some y \<Rightarrow> 0 \<le> y \<and> y \<le> 9999) \<and>
     (case pd_month p of None \<Rightarrow> False | Some m \<Rightarrow> 0 \<le> m \<and> m \<le> 99) \<and>
     (case pd_day p of None \<Rightarrow> False | Some d \<Rightarrow> 0 \<le> d \<and> d \<le> 99)"

lemma dash_pieces:
  assumes "a < 100" "b < 100"
  shows "split_on CHR 0x2D (pad2 a @ CHR 0x2D # pad2 b) = [pad2 a, pad2 b]"
  using split_on_append [OF digits_no_dash [OF digits_pad2 [OF assms(1)]]]
    split_on_piece [OF digits_no_dash [OF digits_pad2 [OF assms(2)]]] by simp

lemma parse_full:
  assumes y: "y < 10000" and m: "m < 100" and d: "d < 100"
  shows "parsePartialDateString (pad4 y @ ''-'' @ pad2 m @ ''-'' @ pad2 d)
         = Some (mk_partial (Some (int y)) (Some (int m)) (Some (int d)))"
proof -
  let ?s = "pad4 y @ ''-'' @ pad2 m @ ''-'' @ pad2 d"
  have dy: "is_digit (hd ?s)" using digits_pad4 [OF y] by (simp add: pad4_def)
  have dd: "is_digit (last ?s)" using digits_pad2 [OF d] by (simp add: pad2_def)
  have t: "trim_space ?s = ?s"
    by (rule trim_space_id) (use dy dd digit_not_space in auto)
  have np: "\<not> has_prefix ?s ''--''"
    using not_digit_sign [OF dy] by (simp add: pad4_def)
  have mb: "matches_birthday ?s"
    using digits_pad4 [OF y] digits_pad2 [OF m] digits_pad2 [OF d]
    by (simp add: matches_birthday_def slice_def pad4_def pad2_def)
  have sp: "split_on CHR 0x2D ?s = [pad4 y, pad2 m, pad2 d]"
    using split_on_append [OF digits_no_dash [OF digits_pad4 [OF y]]] dash_pieces [OF m d] by simp
  have ne: "?s \<noteq> []" by simp
  define s where "s = ?s"
  show ?thesis
    using np sp ne t mb unfolding s_def [symmetric]
    by (simp add: parsePartialDateString_def Let_def y m d)
qed

lemma parse_yearless:
  assumes m: "m < 100" and d: "d < 100"
  shows "parsePartialDateString (''--'' @ pad2 m @ ''-'' @ pad2 d)
         = Some (mk_partial None (Some (int m)) (Some (int d)))"
proof -
  let ?s = "''--'' @ pad2 m @ ''-'' @ pad2 d"
  have dd: "is_digit (last ?s)" using digits_pad2 [OF d] by (simp add: pad2_def)
  have t: "trim_space ?s = ?s"
    by (rule trim_space_id) (use dd digit_not_space in \<open>auto simp: is_space_def\<close>)
  have mb: "matches_birthday ?s"
    using digits_pad2 [OF m] digits_pad2 [OF d]
    by (simp add: matches_birthday_def slice_def pad2_def)
  show ?thesis
    using dash_pieces [OF m d] t mb by (simp add: parsePartialDateString_def Let_def m d)
qed

lemma parse_fmt_partial:
  assumes "storable_partial p"
  shows "parsePartialDateString (fmt_partial p) = Some (p\<lparr>pd_scale := []\<rparr>)"
proof -
  obtain m d where md: "pd_month p = Some m" "pd_day p = Some d" "0 \<le> m" "m \<le> 99" "0 \<le> d" "d \<le> 99"
    using assms by (auto simp: storable_partial_def split: option.splits)
  have eqs: "fmt_0d 2 m = pad2 (nat m)" "fmt_0d 2 d = pad2 (nat d)"
    using fmt_02d [of "nat m"] fmt_02d [of "nat d"] md by simp_all
  show ?thesis
  proof (cases "pd_year p")
    case None
    then show ?thesis using parse_yearless [of "nat m" "nat d"] md eqs
      by (simp add: fmt_partial_def mk_partial_def)
  next
    case (Some y)
    then have y: "0 \<le> y" "y \<le> 9999" using assms by (auto simp: storable_partial_def)
    then have "fmt_0d 4 y = pad4 (nat y)" using fmt_04d [of "nat y"] by simp
    then show ?thesis using parse_full [of "nat y" "nat m" "nat d"] md eqs Some y
      by (simp add: fmt_partial_def mk_partial_def)
  qed
qed

lemma fmt_partial_scale: "fmt_partial (p\<lparr>pd_scale := s\<rparr>) = fmt_partial p"
  by (simp add: fmt_partial_def)

lemma parse_Nil: "parsePartialDateString [] = None"
  by (simp add: parsePartialDateString_def trim_space_def)

section \<open>Names and addresses\<close>

lemma last_value_named:
  "foldl (\<lambda>acc x. if nc_kind x = k then nc_value x else acc) a (named_component k' v)
   = (if k' = k \<and> v \<noteq> [] then v else a)"
  by (simp add: named_component_def)

lemma name_part_built:
  "name_part (buildName c) ''title'' = con_prefix c"
  "name_part (buildName c) ''given'' = con_firstname c"
  "name_part (buildName c) ''given2'' = con_middle_name c"
  "name_part (buildName c) ''surname'' = con_lastname c"
  "name_part (buildName c) ''credential'' = con_suffix c"
  by (auto simp: buildName_def name_part_def last_value_def last_value_named)

lemma last_value_addr:
  "foldl (\<lambda>acc x. if ac_kind x = k then ac_value x else acc) a (addr_component k' v)
   = (if k' = k \<and> v \<noteq> [] then v else a)"
  by (simp add: addr_component_def)

lemma contact_address_roundtrip:
  assumes "ca_type a \<noteq> ''private''"
  shows "contactAddressFromNeutral (AddressFromContactAddress a) = a"
proof -
  have "(case map_of context_to_type_token (ca_type a) of Some tok \<Rightarrow> tok | None \<Rightarrow> ca_type a) = ca_type a"
    using assms by (auto simp: context_to_type_token_def)
  then show ?thesis
    by (simp add: contactAddressFromNeutral_def AddressFromContactAddress_def blank_address_def Let_def
        last_value_def last_value_addr)
qed

lemma flat_type_not_private: "ca_type (contactAddressFromNeutral a) \<noteq> ''private''"
  by (auto simp: contactAddressFromNeutral_def context_to_type_token_def Let_def
      split: list.splits option.splits if_splits)

lemma merge_address_untouched:
  "merge_address a (AddressFromContactAddress (contactAddressFromNeutral a)) = a"
  by (simp add: merge_address_def Let_def contact_address_roundtrip flat_type_not_private)

lemma mergeAddresses_untouched:
  "mergeAddresses as (map AddressFromContactAddress (map contactAddressFromNeutral as)) = as"
  by (induction as) (simp_all add: merge_address_untouched)

section \<open>The stored card and the record derived from the flat columns\<close>

text \<open>What makes a card survive a plain save unchanged: no empty given name or surname hides a later
  one, the first nickname is not empty, and each of birth and wedding is recorded at most once with a
  date the flat string can carry.\<close>

definition name_stable :: "card \<Rightarrow> bool" where
  "name_stable c \<longleftrightarrow> (case cd_name c of None \<Rightarrow> True | Some n \<Rightarrow>
     (name_part (cd_name c) ''given'' = [] \<longrightarrow> first_value ''given'' (nm_components n) = []) \<and>
     (name_part (cd_name c) ''surname'' = [] \<longrightarrow> first_value ''surname'' (nm_components n) = []))"

definition nickname_stable :: "card \<Rightarrow> bool" where
  "nickname_stable c \<longleftrightarrow> (case cd_nicknames c of [] \<Rightarrow> True | n # _ \<Rightarrow> nk_name n \<noteq> [])"

definition date_stable :: "anniversary_date \<Rightarrow> bool" where
  "date_stable d \<longleftrightarrow> an_timestamp d = None \<and>
     (case an_partial d of None \<Rightarrow> False | Some p \<Rightarrow> storable_partial p)"

definition once_stable :: "string \<Rightarrow> anniversary list \<Rightarrow> bool" where
  "once_stable k as \<longleftrightarrow> length (filter (\<lambda>a. an_kind a = k) as) \<le> 1 \<and>
     list_all (\<lambda>a. an_kind a = k \<longrightarrow> date_stable (an_date a)) as"

definition flat_stable :: "card \<Rightarrow> bool" where
  "flat_stable c \<longleftrightarrow> name_stable c \<and> nickname_stable c \<and>
     once_stable ''birth'' (cd_anniversaries c) \<and> once_stable ''wedding'' (cd_anniversaries c)"

lemma formatAnniversaryForMerge_eq [simp]: "formatAnniversaryForMerge d = formatAnniversaryDate d"
  by (simp add: formatAnniversaryForMerge_def DeriveProjection_def record_of_card_def empty_card_def Let_def)

lemma last_value_foldl_none:
  "list_all (\<lambda>x. kind x \<noteq> k) xs \<Longrightarrow> foldl (\<lambda>acc x. if kind x = k then val x else acc) a xs = a"
  by (induction xs arbitrary: a) auto

lemma last_value_once:
  "length (filter (\<lambda>x. kind x = k) xs) \<le> 1 \<Longrightarrow>
   last_value kind val k xs = (case find (\<lambda>x. kind x = k) xs of None \<Rightarrow> [] | Some x \<Rightarrow> val x)"
proof (induction xs)
  case (Cons x xs)
  then show ?case
    by (auto simp: last_value_def list_all_iff filter_empty_conv intro!: last_value_foldl_none)
qed (simp add: last_value_def)

lemma date_roundtrip:
  assumes "date_stable d"
  shows "\<exists>p. parsePartialDateString (formatAnniversaryDate d) = Some p \<and>
    formatAnniversaryDate \<lparr>an_partial = Some p, an_timestamp = None\<rparr> = formatAnniversaryDate d"
  using assms by (auto simp: date_stable_def formatAnniversaryDate_def parse_fmt_partial fmt_partial_scale
      split: option.splits)

definition flat_date :: "string \<Rightarrow> anniversary list \<Rightarrow> string" where
  "flat_date k as = (case find (\<lambda>a. an_kind a = k) as of None \<Rightarrow> [] | Some a \<Rightarrow> formatAnniversaryDate (an_date a))"

lemma anniversaries_untouched:
  assumes "once_stable ''birth'' as" "once_stable ''wedding'' as"
    and "con_birthday c = flat_date ''birth'' as" "con_anniversary c = flat_date ''wedding'' as"
  shows "mergeAnniversaries as (buildAnniversaries c) = as"
proof -
  have built: "(case parsePartialDateString (flat_date k as) of None \<Rightarrow> []
      | Some d \<Rightarrow> fmt_partial d) = flat_date k as" if "once_stable k as" for k
  proof (cases "find (\<lambda>a. an_kind a = k) as")
    case None
    then show ?thesis by (simp add: flat_date_def parse_Nil)
  next
    case (Some a)
    then have "date_stable (an_date a)"
      using that by (auto simp: once_stable_def list_all_iff find_Some_iff)
    then show ?thesis using date_roundtrip [of "an_date a"] Some
      by (auto simp: flat_date_def formatAnniversaryDate_def)
  qed
  have pair: "anniversary_pair as = (flat_date ''birth'' as, flat_date ''wedding'' as)"
    using assms(1,2) by (simp add: anniversary_pair_def last_value_once once_stable_def flat_date_def
        split: option.split)
  have "anniversary_pair (buildAnniversaries c) = (flat_date ''birth'' as, flat_date ''wedding'' as)"
    using built [OF assms(1)] built [OF assms(2)]
    by (auto simp: anniversary_pair_def buildAnniversaries_def assms(3,4) mk_anniversary_def
        last_value_def formatAnniversaryDate_def split: option.splits)
  then show ?thesis by (simp add: mergeAnniversaries_def pair)
qed

section \<open>A contact just applied from a record\<close>

lemmas apply_defs = applyName_def applyNickname_def applyOrganization_def applyTitles_def
  applyEmails_def applyPhones_def applyImpp_def applyLinks_def applyAddresses_def
  applyAnniversaries_def

lemma applied_fields:
  assumes "ApplyRecordToContact nfc (Some c0) (Some r) = Some c"
  defines "cd \<equiv> con_card c" and "pj \<equiv> DeriveProjection (Some (record_of_card (con_card c)))"
  shows "con_emails c = map projectEmail (cd_emails cd)"
    and "con_phones c = map projectPhone (cd_phones cd)"
    and "con_impps c = map projectImpp (cd_impp cd)"
    and "con_urls c = map projectLink (cd_links cd)"
    and "con_addresses c = map contactAddressFromNeutral (cd_addresses cd)"
    and "con_emails c = [] \<Longrightarrow> con_email c = []"
    and "con_phones c = [] \<Longrightarrow> con_phone c = []"
    and "con_addresses c = [] \<Longrightarrow> con_address c = []"
    and "con_nickname c = (case cd_nicknames cd of [] \<Rightarrow> [] | n # _ \<Rightarrow> nk_name n)"
    and "(con_organization c, con_department c) = org_pair (cd_organizations cd)"
    and "(con_job_title c, con_role c) = title_pair (cd_titles cd)"
    and "con_birthday c = flat_date ''birth'' (cd_anniversaries cd)"
    and "con_anniversary c = flat_date ''wedding'' (cd_anniversaries cd)"
    and "con_prefix c = name_part (cd_name cd) ''title''"
    and "con_middle_name c = name_part (cd_name cd) ''given2''"
    and "con_suffix c = name_part (cd_name cd) ''credential''"
    and "con_firstname c = (if name_part (cd_name cd) ''given'' = [] then pj_firstname pj
           else name_part (cd_name cd) ''given'')"
    and "con_lastname c = (if name_part (cd_name cd) ''surname'' = [] then pj_lastname pj
           else name_part (cd_name cd) ''surname'')"
proof -
  let ?cd = "normalizeCard nfc (rc_card r)"
  let ?pj = "DeriveProjection (Some (record_of_card ?cd))"
  have pj: "DeriveProjection (Some r') = DeriveProjection (Some (record_of_card (rc_card r')))" for r'
    by (simp add: DeriveProjection_def record_of_card_def)
  have N: "NormalizeRecord nfc (Some r) = Some (r\<lparr>rc_card := ?cd, rc_envelope := normalizeEnvelope nfc (rc_envelope r)\<rparr>)"
    by (simp add: NormalizeRecord_def)
  have cd: "cd = ?cd" using assms(1)
    by (auto simp: ApplyRecordToContact_def N Let_def cd_def)
  note c = assms(1) [unfolded ApplyRecordToContact_def N prod.case option.case Let_def option.inject
      pj [of "r\<lparr>rc_card := ?cd, rc_envelope := normalizeEnvelope nfc (rc_envelope r)\<rparr>"], symmetric]
  have birthday: "pj_birthday ?pj = flat_date ''birth'' (cd_anniversaries ?cd)"
    and e: "cd_emails ?cd = [] \<Longrightarrow> pj_primary_email ?pj = []"
    and p: "cd_phones ?cd = [] \<Longrightarrow> pj_primary_phone ?pj = []"
    by (simp_all add: DeriveProjection_def record_of_card_def Let_def flat_date_def)
  note d = c cd pj_def [unfolded cd_def [symmetric] cd] apply_defs case_prod_beta Let_def
  show "con_emails c = map projectEmail (cd_emails cd)"
    by (simp add: d)
  show "con_phones c = map projectPhone (cd_phones cd)"
    by (simp add: d)
  show "con_impps c = map projectImpp (cd_impp cd)"
    by (simp add: d)
  show "con_urls c = map projectLink (cd_links cd)"
    by (simp add: d)
  show "con_addresses c = map contactAddressFromNeutral (cd_addresses cd)"
    by (simp add: d)
  show "con_emails c = [] \<Longrightarrow> con_email c = []"
    by (simp add: d e)
  show "con_phones c = [] \<Longrightarrow> con_phone c = []"
    by (simp add: d p)
  show "con_addresses c = [] \<Longrightarrow> con_address c = []"
    by (simp add: d)
  show "con_nickname c = (case cd_nicknames cd of [] \<Rightarrow> [] | n # _ \<Rightarrow> nk_name n)"
    by (simp add: d)
  show "(con_organization c, con_department c) = org_pair (cd_organizations cd)"
    by (simp add: d)
  show "(con_job_title c, con_role c) = title_pair (cd_titles cd)"
    by (simp add: d)
  show "con_birthday c = flat_date ''birth'' (cd_anniversaries cd)"
    by (simp add: d birthday)
  show "con_anniversary c = flat_date ''wedding'' (cd_anniversaries cd)"
    by (simp add: d flat_date_def)
  show "con_prefix c = name_part (cd_name cd) ''title''"
    by (simp add: d)
  show "con_middle_name c = name_part (cd_name cd) ''given2''"
    by (simp add: d)
  show "con_suffix c = name_part (cd_name cd) ''credential''"
    by (simp add: d)
  show "con_firstname c = (if name_part (cd_name cd) ''given'' = [] then pj_firstname pj
           else name_part (cd_name cd) ''given'')"
    by (simp add: d)
  show "con_lastname c = (if name_part (cd_name cd) ''surname'' = [] then pj_lastname pj
           else name_part (cd_name cd) ''surname'')"
    by (simp add: d)
qed

lemma applied_name:
  assumes "ApplyRecordToContact nfc (Some c0) (Some r) = Some c" "name_stable (con_card c)"
  shows "mergeName (cd_name (con_card c)) (buildName c) = cd_name (con_card c)"
proof -
  have "con_firstname c = name_part (cd_name (con_card c)) ''given''"
    using applied_fields(17) [OF assms(1)] assms(2)
    by (auto simp: name_stable_def DeriveProjection_def record_of_card_def Let_def name_part_def
        split: option.splits if_splits)
  moreover have "con_lastname c = name_part (cd_name (con_card c)) ''surname''"
    using applied_fields(18) [OF assms(1)] assms(2)
    by (auto simp: name_stable_def DeriveProjection_def record_of_card_def Let_def name_part_def
        split: option.splits if_splits)
  ultimately show ?thesis
    using applied_fields(14-16) [OF assms(1)]
    by (simp add: mergeName_def name_projection_def name_part_built)
qed

lemma applied_nickname:
  assumes "ApplyRecordToContact nfc (Some c0) (Some r) = Some c" "nickname_stable (con_card c)"
  shows "mergeNicknames (cd_nicknames (con_card c)) (buildNicknames c) = cd_nicknames (con_card c)"
  using applied_fields(9) [OF assms(1)] assms(2)
  by (auto simp: mergeNicknames_def buildNicknames_def nickname_stable_def split: list.splits)

lemma org_pair_built: "org_pair (buildOrganizations c) = (con_organization c, con_department c)"
  by (auto simp: org_pair_def buildOrganizations_def)

lemma title_pair_built: "title_pair (buildTitles c) = (con_job_title c, con_role c)"
  by (auto simp: title_pair_def buildTitles_def mk_title_def last_value_def)

lemma buildEmails_alt: "con_emails c \<noteq> [] \<or> con_email c = [] \<Longrightarrow>
    buildEmails c = map email_of_flat (con_emails c)"
  by (auto simp: buildEmails_def email_of_flat_def Let_def)

lemma buildPhones_alt: "con_phones c \<noteq> [] \<or> con_phone c = [] \<Longrightarrow>
    buildPhones c = map phone_of_flat (con_phones c)"
  by (auto simp: buildPhones_def phone_of_flat_def Let_def)

lemma buildAddresses_alt: "con_addresses c \<noteq> [] \<or> con_address c = [] \<Longrightarrow>
    buildAddresses c = map AddressFromContactAddress (con_addresses c)"
  by (auto simp: buildAddresses_def Let_def)

lemma buildImpp_alt: "buildImpp c = map impp_of_flat (con_impps c)"
  by (simp add: buildImpp_def impp_of_flat_def)

lemma buildLinks_alt: "buildLinks c = map link_of_flat (con_urls c)"
  by (simp add: buildLinks_def link_of_flat_def)

lemma applied_collections:
  assumes c: "ApplyRecordToContact nfc (Some c0) (Some r) = Some c"
  defines "cd \<equiv> con_card c"
  shows "mergeProjectedArray projectEmail (cd_emails cd) (buildEmails c) = cd_emails cd"
    and "mergeProjectedArray projectPhone (cd_phones cd) (buildPhones c) = cd_phones cd"
    and "mergeProjectedArray projectImpp (cd_impp cd) (buildImpp c) = cd_impp cd"
    and "mergeProjectedArray projectLink (cd_links cd) (buildLinks c) = cd_links cd"
    and "mergeAddresses (cd_addresses cd) (buildAddresses c) = cd_addresses cd"
  using applied_fields(1-8) [OF c] em.merge_untouched [of "cd_emails cd"]
    ph.merge_untouched [of "cd_phones cd"] im.merge_untouched [of "cd_impp cd"]
    ln.merge_untouched [of "cd_links cd"] mergeAddresses_untouched [of "cd_addresses cd"]
  by (auto simp: cd_def buildEmails_alt buildPhones_alt buildAddresses_alt buildImpp_alt buildLinks_alt)

section \<open>Properties\<close>


definition blank_contact :: contact where
  "blank_contact = \<lparr>con_id = 1, con_user = 1, con_firstname = [], con_lastname = [], con_nickname = [],
     con_gender = [], con_email = [], con_phone = [], con_birthday = [], con_photo = [],
     con_photo_thumbnail = [], con_address = [], con_how_we_met = [], con_work_information = [],
     con_contact_information = [], con_circles = [], con_emails = [], con_phones = [],
     con_addresses = [], con_urls = [], con_impps = [], con_prefix = [], con_middle_name = [],
     con_suffix = [], con_organization = [], con_department = [], con_job_title = [], con_role = [],
     con_anniversary = [], con_vcard_uid = ''u1'', con_vcard_extra = [], con_etag = ''e-1-1'',
     con_revision = 1, con_archived = False, con_is_favorite = False, con_ambient = False,
     con_target_closeness = None, con_card = empty_card, con_crm = empty_envelope,
     con_passthrough = empty_passthrough, con_fn = [], con_org = [], con_addresses_flat = [],
     con_phones_normalized = [], con_sort_name = [], con_card_set_directly = False\<rparr>"

definition no_photo :: "contact \<Rightarrow> string \<times> string" where
  "no_photo c = ([], [])"

definition no_extra :: "string \<Rightarrow> jcard_prop list option" where
  "no_extra s = None"

definition dated :: "string \<Rightarrow> partial_date \<Rightarrow> card" where
  "dated uid birth = sample_card\<lparr>cd_uid := uid,
     cd_anniversaries := [mk_anniversary ''birth'' birth,
       mk_anniversary ''death'' (mk_partial (Some 2020) (Some 3) (Some 9))]\<rparr>"

definition applied_sample :: "partial_date \<Rightarrow> contact" where
  "applied_sample birth =
     (case ApplyRecordToContact (\<lambda>s. s) (Some blank_contact) (Some (record_of_card (dated ''u1'' birth))) of
        Some c \<Rightarrow> c | None \<Rightarrow> blank_contact)"

lemma normalize_leaf_id:
  "normalizeNameComponent (\<lambda>s. s) = (\<lambda>x. x)" "normalizePronouns (\<lambda>s. s) = (\<lambda>x. x)"
  "normalizeAddressComponent (\<lambda>s. s) = (\<lambda>x. x)" "normalizeOrgUnit (\<lambda>s. s) = (\<lambda>x. x)"
  "normalizeNickname (\<lambda>s. s) = (\<lambda>x. x)" "normalizeTitle (\<lambda>s. s) = (\<lambda>x. x)"
  "normalizeEmail (\<lambda>s. s) = (\<lambda>x. x)" "normalizePhone (\<lambda>s. s) = (\<lambda>x. x)"
  "normalizeOnlineService (\<lambda>s. s) = (\<lambda>x. x)" "normalizePersonalInfo (\<lambda>s. s) = (\<lambda>x. x)"
  "normalizeResource (\<lambda>s. s) = (\<lambda>x. x)"
  by (rule ext, simp add: normalize_defs)+

lemma normalize_nested_id:
  "normalizeOrganization (\<lambda>s. s) = (\<lambda>x. x)" "normalizeAddress (\<lambda>s. s) = (\<lambda>x. x)"
  "normalizeNote (\<lambda>s. s) = (\<lambda>x. x)"
  by (rule ext, simp add: normalizeOrganization_def normalizeAddress_def normalizeNote_def
      normalize_leaf_id option.map_ident)+

lemma normalize_id: "normalizeCard (\<lambda>s. s) c = c"
proof -
  have "normalizeAnniversary (\<lambda>s. s) = (\<lambda>x. x)"
    by (rule ext) (simp add: normalizeAnniversary_def normalize_nested_id option.map_ident)
  moreover have "normalizeName (\<lambda>s. s) n = n" for n
    by (cases n) (simp_all add: normalizeName_def normalize_leaf_id option.map_ident)
  moreover have "normalizeSpeakToAs (\<lambda>s. s) s = s" for s
    by (cases s) (simp_all add: normalizeSpeakToAs_def normalize_leaf_id)
  ultimately show ?thesis by (simp add: normalizeCard_def normalize_leaf_id normalize_nested_id)
qed

lemma applied_sample_apply:
  "ApplyRecordToContact (\<lambda>s. s) (Some blank_contact) (Some (record_of_card (dated ''u1'' b)))
   = Some (applied_sample b)"
  "con_card (applied_sample b) = dated ''u1'' b"
  by (simp_all add: applied_sample_def ApplyRecordToContact_def NormalizeRecord_def Let_def
      record_of_card_def normalize_id)

lemma sample_stable: "storable_partial b \<Longrightarrow> flat_stable (dated u b)"
  by (simp add: flat_stable_def name_stable_def nickname_stable_def once_stable_def dated_def
      sample_card_def empty_card_def mk_anniversary_def date_stable_def)


text \<open>The merge loses data when the birthday has no flat form: if the stored birth date renders to
  a string the birthday parser rejects (a year alone, a year and a month), the next plain save
  replaces all anniversaries by the flat ones, so a recorded death disappears and the contact is no
  longer deceased.\<close>

lemma partial_birthday_drops_death:
  assumes "ApplyRecordToContact nfc (Some c0) (Some r) = Some c"
    and "length (filter (\<lambda>a. an_kind a = ''birth'') (cd_anniversaries (con_card c))) = 1"
    and "flat_date ''birth'' (cd_anniversaries (con_card c)) \<noteq> []"
    and "parsePartialDateString (flat_date ''birth'' (cd_anniversaries (con_card c))) = None"
  shows "\<not> IsDeceased (mergeCardWithFlat (con_card c) (rc_card (RecordFromContact photo extra c)))"
proof -
  let ?as = "cd_anniversaries (con_card c)"
  have "fst (anniversary_pair ?as) = flat_date ''birth'' ?as"
    using assms(2) by (simp add: anniversary_pair_def last_value_once flat_date_def split: option.split)
  moreover have "fst (anniversary_pair (buildAnniversaries c)) = []"
    using applied_fields(12) [OF assms(1)] assms(4)
    by (simp add: anniversary_pair_def buildAnniversaries_def last_value_def mk_anniversary_def
        split: option.split)
  ultimately have "mergeAnniversaries ?as (buildAnniversaries c) = buildAnniversaries c"
    using assms(3) by (auto simp: mergeAnniversaries_def)
  then show ?thesis
    by (auto simp: IsDeceased_def DeathAnniversary_def mergeCardWithFlat_def RecordFromContact_def
        buildAnniversaries_def mk_anniversary_def find_None_iff split: option.split)
qed

lemma year_only_sample:
  "flat_date ''birth'' (cd_anniversaries (dated u (mk_partial (Some 1985) None None))) = ''1985''"
proof -
  have "fmt_0d 4 1985 = ''1985''" by code_simp
  then show ?thesis
    by (simp add: flat_date_def dated_def mk_anniversary_def mk_partial_def formatAnniversaryDate_def
        fmt_partial_def)
qed

lemma partial_birthday_drops_death_witness:
  "IsDeceased (con_card (applied_sample (mk_partial (Some 1985) None None))) \<and>
   \<not> IsDeceased (mergeCardWithFlat (con_card (applied_sample (mk_partial (Some 1985) None None)))
      (rc_card (RecordFromContact no_photo no_extra (applied_sample (mk_partial (Some 1985) None None)))))"
proof
  show "IsDeceased (con_card (applied_sample (mk_partial (Some 1985) None None)))"
    by (simp add: applied_sample_apply(2) IsDeceased_def DeathAnniversary_def dated_def mk_anniversary_def)
  have "parsePartialDateString ''1985'' = None" by code_simp
  then show "\<not> IsDeceased (mergeCardWithFlat (con_card (applied_sample (mk_partial (Some 1985) None None)))
      (rc_card (RecordFromContact no_photo no_extra (applied_sample (mk_partial (Some 1985) None None)))))"
    by (intro partial_birthday_drops_death [OF applied_sample_apply(1)])
      (simp_all add: applied_sample_apply(2) year_only_sample, simp_all add: dated_def mk_anniversary_def)
qed


definition sample_flat :: contact where
  "sample_flat = blank_contact\<lparr>con_firstname := ''Ada'', con_lastname := ''King'',
     con_addresses := [contactAddressFromNeutral (blank_address\<lparr>ad_contexts := [''private'']\<rparr>)]\<rparr>"

definition sample_flat_back :: contact where
  "sample_flat_back =
     (case ApplyRecordToContact (\<lambda>s. s) (Some sample_flat) (Some (RecordFromContact no_photo no_extra sample_flat)) of
        Some c \<Rightarrow> c | None \<Rightarrow> blank_contact)"


text \<open>Two envelope fields with no home in an export format go unreported.\<close>

lemma kind_and_meta_unreported:
  "EnvelopeExportLossDiagnostics (Some ((record_of_card c)\<lparr>rc_envelope :=
     empty_envelope\<lparr>ev_kind := k, ev_personal_info_meta := m\<rparr>\<rparr>)) = []"
  by (simp add: EnvelopeExportLossDiagnostics_def empty_envelope_def)

end
