(* ===== verification/RelationGraph.thy ===== *)
theory RelationGraph imports GoTime ContactModel begin

text \<open>
  The relationship graph: the registry of relation types
  (\<open>backend/models/relationship_type_registry.go\<close>), the stored edges with their end date
  (\<open>models/relationship_edge.go\<close>) and the bounded traversal (\<open>services/graph_traversal.go\<close>). The
  recursive query is the list of its rows, level by level; a row's path is the list of contact
  identifiers (the source joins fixed-length UUIDs into one string and tests containment).
\<close>

section \<open>The registry\<close>

record relation_type_def =
  rt_inverse :: string
  rt_symmetric :: bool
  rt_synonyms :: "string list"
  rt_vcard_tag :: string

definition rel_sym :: "string \<Rightarrow> string list \<Rightarrow> string \<Rightarrow> string \<times> relation_type_def" where
  "rel_sym t syns tag = (t, \<lparr>rt_inverse = t, rt_symmetric = True, rt_synonyms = syns, rt_vcard_tag = tag\<rparr>)"

definition rel_asym :: "string \<Rightarrow> string \<Rightarrow> string list \<Rightarrow> string \<Rightarrow> string \<times> relation_type_def" where
  "rel_asym t opp syns tag =
     (t, \<lparr>rt_inverse = opp, rt_symmetric = False, rt_synonyms = syns, rt_vcard_tag = tag\<rparr>)"

definition relationTypeRegistry :: "(string \<times> relation_type_def) list" where
  "relationTypeRegistry = [
     rel_asym ''parent_of'' ''child_of'' [''mother_of'', ''father_of'', ''mom_of'', ''dad_of'', ''mother'',
       ''father'', ''mom'', ''dad'', ''parent''] ''parent'',
     rel_asym ''child_of'' ''parent_of'' [''son_of'', ''daughter_of'', ''son'', ''daughter'', ''child''] ''child'',
     rel_sym ''spouse_of'' [''married_to'', ''husband_of'', ''wife_of'', ''spouse'', ''husband'', ''wife'',
       ''married''] ''spouse'',
     rel_sym ''sibling_of'' [''brother_of'', ''sister_of'', ''sibling'', ''brother'', ''sister''] ''sibling'',
     rel_sym ''friend_of'' [''friend'', ''friendship''] ''friend'',
     rel_sym ''roommate_of'' [''roommate'', ''housemate''] ''co-resident'',
     rel_sym ''coworker_of'' [''coworker'', ''co-worker'', ''colleague'', ''workmate''] ''co-worker'',
     rel_sym ''partner_of'' [''dating'', ''boyfriend_of'', ''girlfriend_of'', ''partner'', ''boyfriend'',
       ''girlfriend''] [],
     rel_sym ''co_parent_of'' [''co-parent'', ''coparent'', ''co_parent''] [],
     rel_asym ''mentor_of'' ''mentee_of'' [''mentor''] [],
     rel_asym ''mentee_of'' ''mentor_of'' [''mentee''] [],
     rel_asym ''owned_by'' ''owns'' [''pet''] [],
     rel_asym ''owns'' ''owned_by'' [''owner''] [],
     rel_sym ''gets_along_with'' [] [],
     rel_sym ''conflicts_with'' [] [],
     rel_sym ''related_to'' [] ''contact'']"

definition IsKnownRelationType :: "string \<Rightarrow> bool" where
  "IsKnownRelationType t \<longleftrightarrow> map_of relationTypeRegistry t \<noteq> None"

definition InverseRelationType :: "string \<Rightarrow> string" where
  "InverseRelationType t = (case map_of relationTypeRegistry t of None \<Rightarrow> [] | Some d \<Rightarrow> rt_inverse d)"

definition IsSymmetricRelationType :: "string \<Rightarrow> bool" where
  "IsSymmetricRelationType t \<longleftrightarrow>
     (case map_of relationTypeRegistry t of None \<Rightarrow> False | Some d \<Rightarrow> rt_symmetric d)"

definition RelationVCardTypeTag :: "string \<Rightarrow> string" where
  "RelationVCardTypeTag t = (case map_of relationTypeRegistry t of None \<Rightarrow> [] | Some d \<Rightarrow> rt_vcard_tag d)"

text \<open>The source iterates a map in any order; the list order stands for it, and no synonym is shared
  (below), so the order does not matter.\<close>

definition matchNormalizedRelationType :: "string \<Rightarrow> string option" where
  "matchNormalizedRelationType n =
     (if IsKnownRelationType n then Some n
      else map_option fst (find (\<lambda>(t, d). n \<in> set (map to_lower (rt_synonyms d))) relationTypeRegistry))"

definition MatchLegacyRelationType :: "string \<Rightarrow> string option" where
  "MatchLegacyRelationType text =
     (let n = to_lower (trim_space text)
      in if n = [] then None
         else (case matchNormalizedRelationType n of
                 Some t \<Rightarrow> Some t
               | None \<Rightarrow> if last n = CHR ''s'' \<and> 3 < length n
                         then matchNormalizedRelationType (butlast n) else None))"

section \<open>Edges\<close>

record relationship_edge =
  re_id :: string
  re_user :: nat
  re_source :: string
  re_target :: string
  re_type :: string
  re_directional :: bool
  re_start :: "partial_date option"
  re_end :: "partial_date option"
  re_origin :: string
  re_status :: string
  re_sensitivity :: string

definition edge_ended :: "relationship_edge \<Rightarrow> int \<Rightarrow> bool" where
  "edge_ended r now =
     (let n = civil_day utc now
      in (case re_end r of
            None \<Rightarrow> False
          | Some e \<Rightarrow>
             (case pd_year e of
                None \<Rightarrow> False
              | Some y \<Rightarrow>
                 if y \<noteq> year_of n then y < year_of n
                 else (case pd_month e of
                         None \<Rightarrow> False
                       | Some m \<Rightarrow>
                          if m \<noteq> month_of n then m < month_of n
                          else (case pd_day e of None \<Rightarrow> False | Some d \<Rightarrow> d \<le> day_of n)))))"

section \<open>Traversal\<close>

definition maxTraversalDepth :: nat where "maxTraversalDepth = 5"

text \<open>A row: the contact reached, the path from the start, and for each hop the stored type and
  whether the hop goes forward along the edge.\<close>

record walk =
  wk_uid :: string
  wk_path :: "string list"
  wk_types :: "string list"
  wk_forward :: "bool list"

definition edge_visible :: "nat \<Rightarrow> relationship_edge \<Rightarrow> bool" where
  "edge_visible u e \<longleftrightarrow> re_user e = u \<and> re_status e = ''confirmed'' \<and> re_sensitivity e \<noteq> ''secret''"

definition start_walk :: "string \<Rightarrow> walk" where
  "start_walk a = \<lparr>wk_uid = a, wk_path = [a], wk_types = [], wk_forward = []\<rparr>"

definition hop :: "walk \<Rightarrow> string \<Rightarrow> string \<Rightarrow> bool \<Rightarrow> walk" where
  "hop w b t fwd = \<lparr>wk_uid = b, wk_path = wk_path w @ [b], wk_types = wk_types w @ [t],
     wk_forward = wk_forward w @ [fwd]\<rparr>"

definition extend_walk :: "relationship_edge list \<Rightarrow> nat \<Rightarrow> walk \<Rightarrow> walk list" where
  "extend_walk edges u w =
     map (\<lambda>e. hop w (re_target e) (re_type e) True)
       (filter (\<lambda>e. edge_visible u e \<and> re_source e = wk_uid w \<and> re_target e \<notin> set (wk_path w)) edges) @
     map (\<lambda>e. hop w (re_source e) (re_type e) False)
       (filter (\<lambda>e. edge_visible u e \<and> re_target e = wk_uid w \<and> re_source e \<notin> set (wk_path w)) edges)"

fun walk_level :: "relationship_edge list \<Rightarrow> nat \<Rightarrow> string \<Rightarrow> nat \<Rightarrow> walk list" where
  "walk_level edges u a 0 = [start_walk a]"
| "walk_level edges u a (Suc n) = concat (map (extend_walk edges u) (walk_level edges u a n))"

definition traversal_rows :: "relationship_edge list \<Rightarrow> nat \<Rightarrow> string \<Rightarrow> nat \<Rightarrow> walk list" where
  "traversal_rows edges u a depth = concat (map (walk_level edges u a) [1..<Suc depth])"

definition traversalStepRelation :: "string \<Rightarrow> bool \<Rightarrow> string" where
  "traversalStepRelation raw fwd =
     (if fwd then (let inv = InverseRelationType raw in if inv \<noteq> [] then inv else raw) else raw)"

record graph_chain =
  gc_target :: string
  gc_depth :: nat
  gc_steps :: "(string \<times> string) list"

definition chain_of_walk :: "walk \<Rightarrow> graph_chain" where
  "chain_of_walk w =
     \<lparr>gc_target = last (wk_path w), gc_depth = length (wk_types w),
      gc_steps = zip (tl (wk_path w)) (map2 traversalStepRelation (wk_types w) (wk_forward w))\<rparr>"

definition chainHasRelation :: "graph_chain \<Rightarrow> string \<Rightarrow> bool" where
  "chainHasRelation ch want = list_ex (\<lambda>s. snd s = want) (gc_steps ch)"

text \<open>The shortest chain per target, the first one met among equals.\<close>

fun best_chain :: "graph_chain list \<Rightarrow> string \<Rightarrow> graph_chain option" where
  "best_chain [] t = None"
| "best_chain (c # cs) t =
     (if gc_target c = t then
        (case best_chain cs t of
           None \<Rightarrow> Some c
         | Some d \<Rightarrow> Some (if gc_depth d < gc_depth c then d else c))
      else best_chain cs t)"

definition TraverseGraph ::
  "relationship_edge list \<Rightarrow> nat \<Rightarrow> string \<Rightarrow> nat \<Rightarrow> string \<Rightarrow> (string \<Rightarrow> graph_chain option) option" where
  "TraverseGraph edges u a maxDepth filterRelation =
     (if maxDepth < 1 \<or> maxTraversalDepth < maxDepth then None
      else if filterRelation = [] then
        Some (best_chain (map chain_of_walk (traversal_rows edges u a maxDepth)))
      else (case MatchLegacyRelationType filterRelation of
              None \<Rightarrow> Some (\<lambda>t. None)
            | Some canonical \<Rightarrow>
                Some (best_chain (filter (\<lambda>ch. chainHasRelation ch canonical)
                       (map chain_of_walk (traversal_rows edges u a maxDepth))))))"

section \<open>Paths in the visible graph\<close>

definition linked :: "relationship_edge list \<Rightarrow> nat \<Rightarrow> string \<Rightarrow> string \<Rightarrow> bool" where
  "linked edges u x y \<longleftrightarrow> (\<exists>e \<in> set edges. re_user e = u \<and> re_status e = ''confirmed'' \<and>
     re_sensitivity e \<noteq> ''secret'' \<and>
     (re_source e = x \<and> re_target e = y \<or> re_target e = x \<and> re_source e = y))"

lemma linked_alt:
  "linked edges u x y \<longleftrightarrow> (\<exists>e \<in> set edges. edge_visible u e \<and>
     (re_source e = x \<and> re_target e = y \<or> re_target e = x \<and> re_source e = y))"
  by (simp add: linked_def edge_visible_def)

inductive connected :: "relationship_edge list \<Rightarrow> nat \<Rightarrow> string \<Rightarrow> nat \<Rightarrow> string \<Rightarrow> bool"
  for edges u a where
  here: "connected edges u a 0 a"
| step: "connected edges u a n x \<Longrightarrow> linked edges u x y \<Longrightarrow> connected edges u a (Suc n) y"

inductive_cases connected_SucE: "connected edges u a (Suc n) y"
inductive_cases connected_0E: "connected edges u a 0 y"

definition good_walk :: "relationship_edge list \<Rightarrow> nat \<Rightarrow> string \<Rightarrow> nat \<Rightarrow> walk \<Rightarrow> bool" where
  "good_walk edges u a n w \<longleftrightarrow> length (wk_path w) = Suc n \<and> length (wk_types w) = n \<and>
     length (wk_forward w) = n \<and> distinct (wk_path w) \<and> hd (wk_path w) = a \<and>
     last (wk_path w) = wk_uid w \<and> connected edges u a n (wk_uid w)"

lemma extend_walk_set:
  "w' \<in> set (extend_walk edges u w) \<longleftrightarrow>
     (\<exists>e \<in> set edges. edge_visible u e \<and>
        (re_source e = wk_uid w \<and> re_target e \<notin> set (wk_path w) \<and> w' = hop w (re_target e) (re_type e) True \<or>
         re_target e = wk_uid w \<and> re_source e \<notin> set (wk_path w) \<and> w' = hop w (re_source e) (re_type e) False))"
  by (auto simp: extend_walk_def)

lemma walk_level_good: "w \<in> set (walk_level edges u a n) \<Longrightarrow> good_walk edges u a n w"
proof (induction n arbitrary: w)
  case 0
  then show ?case by (simp add: good_walk_def start_walk_def connected.here)
next
  case (Suc n)
  then obtain v where v: "v \<in> set (walk_level edges u a n)" "w \<in> set (extend_walk edges u v)" by auto
  note g = Suc.IH [OF v(1), unfolded good_walk_def]
  from v(2) obtain y t f where w: "w = hop v y t f" "linked edges u (wk_uid v) y" "y \<notin> set (wk_path v)"
    unfolding extend_walk_set linked_alt by blast
  have "wk_path v \<noteq> []" using g by auto
  then show ?case using g w connected.step [of edges u a n "wk_uid v" y]
    by (auto simp: good_walk_def hop_def)
qed

text \<open>A shortest connection is found: its walk never revisits a contact.\<close>

lemma connected_prefix: "connected edges u a n y \<Longrightarrow> m \<le> n \<Longrightarrow> \<exists>x. connected edges u a m x"
  by (induction rule: connected.induct) (auto simp: le_Suc_eq intro: connected.intros)

lemma extend_walk_path: "w \<in> set (extend_walk edges u v) \<Longrightarrow> wk_path w = wk_path v @ [wk_uid w]"
  by (auto simp: extend_walk_def hop_def)

lemma walk_level_path_connected:
  "w \<in> set (walk_level edges u a n) \<Longrightarrow> x \<in> set (wk_path w) \<Longrightarrow> \<exists>m \<le> n. connected edges u a m x"
proof (induction n arbitrary: w)
  case 0
  then show ?case by (auto simp: start_walk_def intro: connected.here)
next
  case (Suc n)
  then obtain v where v: "v \<in> set (walk_level edges u a n)" "w \<in> set (extend_walk edges u v)" by auto
  have "connected edges u a (Suc n) (wk_uid w)"
    using walk_level_good [of w edges u a "Suc n"] Suc.prems(1) by (simp add: good_walk_def)
  moreover have "x = wk_uid w \<or> x \<in> set (wk_path v)"
    using Suc.prems(2) extend_walk_path [OF v(2)] by auto
  ultimately show ?case using Suc.IH [OF v(1)] le_SucI by blast
qed

lemma shortest_has_walk:
  assumes "connected edges u a n y" "\<forall>m < n. \<not> connected edges u a m y"
  shows "\<exists>w \<in> set (walk_level edges u a n). wk_uid w = y"
  using assms
proof (induction rule: connected.induct)
  case here
  then show ?case by (simp add: start_walk_def)
next
  case (step n x y)
  have "\<not> connected edges u a m x" if "m < n" for m
    using step.prems that connected.step [OF _ step.hyps(2), of a m] by auto
  then obtain w where w: "w \<in> set (walk_level edges u a n)" "wk_uid w = x" using step.IH by blast
  have y: "y \<notin> set (wk_path w)" using walk_level_path_connected [OF w(1)] step.prems by (metis le_imp_less_Suc)
  obtain e where e: "e \<in> set edges" "edge_visible u e"
    "re_source e = x \<and> re_target e = y \<or> re_target e = x \<and> re_source e = y"
    using step.hyps(2) unfolding linked_alt by blast
  have "\<exists>v \<in> set (extend_walk edges u w). wk_uid v = y"
  proof (cases "re_source e = x \<and> re_target e = y")
    case True
    then have "hop w y (re_type e) True \<in> set (extend_walk edges u w)"
      unfolding extend_walk_set using e w y by (intro bexI [of _ e]) simp_all
    then show ?thesis by (intro bexI) (simp_all add: hop_def)
  next
    case False
    with e(3) have "re_target e = x" "re_source e = y" by auto
    then have "hop w y (re_type e) False \<in> set (extend_walk edges u w)"
      unfolding extend_walk_set using e w y by (intro bexI [of _ e]) simp_all
    then show ?thesis by (intro bexI) (simp_all add: hop_def)
  qed
  then show ?case using w(1) by auto
qed

lemma best_chain_Some:
  "best_chain cs t = Some c \<Longrightarrow>
   c \<in> set cs \<and> gc_target c = t \<and> (\<forall>d \<in> set cs. gc_target d = t \<longrightarrow> gc_depth c \<le> gc_depth d)"
proof (induction cs arbitrary: c)
  case (Cons x xs)
  show ?case
  proof (cases "gc_target x = t")
    case False
    then show ?thesis using Cons by auto
  next
    case True
    show ?thesis
    proof (cases "best_chain xs t")
      case None
      then have "\<forall>d \<in> set xs. gc_target d \<noteq> t"
      proof (induction xs)
        case (Cons y ys)
        then show ?case by (auto split: if_splits option.splits)
      qed simp
      then show ?thesis using Cons.prems True None by auto
    next
      case (Some d)
      then show ?thesis using Cons.IH [OF Some] Cons.prems True by (auto split: if_splits)
    qed
  qed
qed simp

lemma best_chain_None: "best_chain cs t = None \<longleftrightarrow> (\<forall>c \<in> set cs. gc_target c \<noteq> t)"
  by (induction cs) (auto split: option.split)

lemma rows_level: "w \<in> set (traversal_rows edges u a D) \<longleftrightarrow>
    (\<exists>n. 1 \<le> n \<and> n \<le> D \<and> w \<in> set (walk_level edges u a n))"
  by (auto simp: traversal_rows_def less_Suc_eq_le)

lemma chain_of_level:
  assumes "w \<in> set (walk_level edges u a n)"
  shows "gc_target (chain_of_walk w) = wk_uid w" "gc_depth (chain_of_walk w) = n"
    "connected edges u a n (wk_uid w)" "1 \<le> n \<Longrightarrow> wk_uid w \<noteq> a"
proof -
  note g = walk_level_good [OF assms, unfolded good_walk_def]
  show "gc_target (chain_of_walk w) = wk_uid w" "gc_depth (chain_of_walk w) = n"
    "connected edges u a n (wk_uid w)" using g by (simp_all add: chain_of_walk_def)
  assume "1 \<le> n"
  then obtain x y zs where p: "wk_path w = x # y # zs"
    using g by (cases "wk_path w"; cases "tl (wk_path w)") auto
  then show "wk_uid w \<noteq> a" using g last_in_set [of "y # zs"] by auto
qed

section \<open>Properties\<close>


definition sample_edge :: "string \<Rightarrow> string \<Rightarrow> string \<Rightarrow> string \<Rightarrow> relationship_edge" where
  "sample_edge a b t sens = \<lparr>re_id = a @ b, re_user = 1, re_source = a, re_target = b, re_type = t,
     re_directional = True, re_start = None, re_end = None, re_origin = ''user-confirmed'',
     re_status = ''confirmed'', re_sensitivity = sens\<rparr>"

definition sample_graph :: "relationship_edge list" where
  "sample_graph = [sample_edge ''a'' ''b'' ''parent_of'' ''normal'',
     sample_edge ''c'' ''b'' ''spouse_of'' ''private'', sample_edge ''a'' ''d'' ''friend_of'' ''secret'']"


text \<open>Walking one edge in the two directions shows reciprocal relations: for every registered type
  the inverse is registered, inverting twice is the identity, and the relation shown forward is the
  inverse of the one shown backward.\<close>

lemma traversal_directions_reciprocal:
  assumes "IsKnownRelationType t"
  shows "IsKnownRelationType (InverseRelationType t) \<and> InverseRelationType (InverseRelationType t) = t \<and>
    traversalStepRelation t True = InverseRelationType (traversalStepRelation t False) \<and>
    (IsSymmetricRelationType t \<longleftrightarrow> traversalStepRelation t True = traversalStepRelation t False)"
proof -
  have "list_all (\<lambda>t. IsKnownRelationType (InverseRelationType t) \<and>
      InverseRelationType (InverseRelationType t) = t \<and>
      traversalStepRelation t True = InverseRelationType (traversalStepRelation t False) \<and>
      (IsSymmetricRelationType t \<longleftrightarrow> traversalStepRelation t True = traversalStepRelation t False))
      (map fst relationTypeRegistry)"
    by code_simp
  moreover have "t \<in> set (map fst relationTypeRegistry)"
    using assms by (auto simp: IsKnownRelationType_def dest: map_of_SomeD intro: rev_image_eqI)
  ultimately show ?thesis by (simp only: list_all_iff)
qed

lemma traversal_directions_reciprocal_witness:
  "traversalStepRelation ''parent_of'' True = InverseRelationType (traversalStepRelation ''parent_of'' False)"
proof -
  have "IsKnownRelationType ''parent_of''" by code_simp
  from traversal_directions_reciprocal [OF this] show ?thesis by simp
qed

definition registry_words :: "string list" where
  "registry_words = map fst relationTypeRegistry @ concat (map (rt_synonyms \<circ> snd) relationTypeRegistry)"

lemma registry_words_distinct: "distinct registry_words"
  by (simp add: registry_words_def relationTypeRegistry_def rel_sym_def rel_asym_def)

lemma registry_words_plain:
  "list_all (\<lambda>s. map to_lower_char s = s \<and> list_all (\<lambda>c. \<not> is_space c) s \<and> s \<noteq> []) registry_words"
  by code_simp

lemma registry_word:
  assumes "s \<in> set registry_words"
  shows "to_lower (trim_space s) = s" "to_lower s = s" "s \<noteq> []"
proof -
  have p: "map to_lower_char s = s" "list_all (\<lambda>c. \<not> is_space c) s" "s \<noteq> []"
    using registry_words_plain assms by (auto simp: list_all_iff)
  then have "trim_space s = s" by (intro trim_space_id) (auto simp: list_all_iff)
  then show "to_lower (trim_space s) = s" "to_lower s = s" "s \<noteq> []"
    using p by (simp_all add: to_lower_def)
qed

lemma find_owner:
  assumes "distinct (concat (map g xs))" "x \<in> set xs" "s \<in> set (g x)"
  shows "find (\<lambda>y. s \<in> set (g y)) xs = Some x"
  using assms by (induction xs) auto

text \<open>Every token and every synonym of the registry is recognised as exactly its own relation, so
  the order in which the source visits its map cannot matter.\<close>

lemma synonyms_unambiguous:
  "list_all (\<lambda>(t, d). list_all (\<lambda>s. MatchLegacyRelationType s = Some t) (t # rt_synonyms d)) relationTypeRegistry"
proof -
  have "MatchLegacyRelationType s = Some t"
    if td: "(t, d) \<in> set relationTypeRegistry" and s: "s = t \<or> s \<in> set (rt_synonyms d)" for t d s
  proof -
    have mem: "s \<in> set registry_words" using td s by (force simp: registry_words_def)
    have low: "map to_lower (rt_synonyms d') = rt_synonyms d'" if "(t', d') \<in> set relationTypeRegistry" for t' d'
      using that registry_word(2) by (intro map_idI) (force simp: registry_words_def)
    have "matchNormalizedRelationType s = Some t"
    proof (cases "s = t")
      case True
      then show ?thesis using td
        by (auto simp: matchNormalizedRelationType_def IsKnownRelationType_def map_of_eq_None_iff intro: rev_image_eqI)
    next
      case False
      then have s': "s \<in> set (rt_synonyms d)" using s by simp
      have "s \<notin> fst ` set relationTypeRegistry"
      proof -
        have "s \<in> set (concat (map (rt_synonyms \<circ> snd) relationTypeRegistry))" using td s' by force
        then have "s \<notin> set (map fst relationTypeRegistry)"
          using registry_words_distinct unfolding registry_words_def distinct_append by blast
        then show ?thesis by simp
      qed
      then have "\<not> IsKnownRelationType s" by (simp add: IsKnownRelationType_def map_of_eq_None_iff)
      moreover have "find (\<lambda>(t, d). s \<in> set (map to_lower (rt_synonyms d))) relationTypeRegistry
          = find (\<lambda>x. s \<in> set ((rt_synonyms \<circ> snd) x)) relationTypeRegistry"
        using low by (intro find_cong) (auto simp del: set_map)
      moreover have "\<dots> = Some (t, d)"
        by (rule find_owner) (use registry_words_distinct td s' in \<open>auto simp: registry_words_def comp_def\<close>)
      ultimately show ?thesis by (simp add: matchNormalizedRelationType_def)
    qed
    then show ?thesis using registry_word [OF mem] by (simp add: MatchLegacyRelationType_def)
  qed
  then show ?thesis by (force simp: list_all_iff)
qed

end
