(* ===== verification/Sharing.thy ===== *)
theory Sharing imports PlainSave RelationGraph begin

text \<open>
  What leaves the instance: field selection (\<open>backend/models/field_selection.go\<close>), the read-time
  projections of edges, tags, hobbies and custom fields onto a record
  (\<open>models/contact_record.go\<close>), the outward record of the export, share and DAV surfaces, and the
  write half that puts withheld addresses back (\<open>models/contact_card_merge.go\<close>). Interface
  \<open>default_deny\<close>: a filter that drops what a predicate calls sensitive and nothing else.
\<close>

section \<open>Field selection\<close>

definition FieldSections :: "string list" where
  "FieldSections = [''emails'', ''phones'', ''addresses'', ''organizations'', ''anniversaries'',
     ''media'', ''online_services'', ''links'', ''notes'', ''keywords'', ''related_to'',
     ''personal_info'', ''speak_to_as'', ''members'', ''languages'', ''custom_fields'']"

definition IsSensitiveSection :: "string \<Rightarrow> bool" where
  "IsSensitiveSection t \<longleftrightarrow>
     t \<in> set [''addresses'', ''related_to'', ''personal_info'', ''custom_fields'']"

record field_selection =
  fs_sections :: "string list"
  fs_include_sensitive :: bool

definition NewFieldSelection :: field_selection where
  "NewFieldSelection = \<lparr>fs_sections = [], fs_include_sensitive = False\<rparr>"

definition FieldSelectionAll :: field_selection where
  "FieldSelectionAll = \<lparr>fs_sections = FieldSections, fs_include_sensitive = False\<rparr>"

definition Enable :: "field_selection \<Rightarrow> string \<Rightarrow> field_selection option" where
  "Enable f token = (if token \<in> set FieldSections
     then Some (f\<lparr>fs_sections := token # fs_sections f\<rparr>) else None)"

definition Has :: "field_selection option \<Rightarrow> string \<Rightarrow> bool" where
  "Has f token \<longleftrightarrow> (case f of None \<Rightarrow> False | Some s \<Rightarrow> token \<in> set (fs_sections s))"

definition isSensitiveAddressSensitivity :: "string \<Rightarrow> bool" where
  "isSensitiveAddressSensitivity s \<longleftrightarrow> s \<noteq> [] \<and> s \<noteq> ''normal''"

definition filterSensitiveAddresses :: "address list \<Rightarrow> address list" where
  "filterSensitiveAddresses as =
     (if length (filter (\<lambda>a. isSensitiveAddressSensitivity (ad_sensitivity a)) as) = 0 then as
      else filter (\<lambda>a. \<not> isSensitiveAddressSensitivity (ad_sensitivity a)) as)"

definition ApplyFieldSelection :: "contact_record \<Rightarrow> field_selection option \<Rightarrow> contact_record" where
  "ApplyFieldSelection r sel =
     (case sel of None \<Rightarrow> r
      | Some s \<Rightarrow>
         (let c = rc_card r; has = Has sel; p = rc_passthrough r
          in r\<lparr>rc_card := c\<lparr>
                cd_emails := (if has ''emails'' then cd_emails c else []),
                cd_phones := (if has ''phones'' then cd_phones c else []),
                cd_addresses := (if \<not> has ''addresses'' then []
                  else if \<not> fs_include_sensitive s then filterSensitiveAddresses (cd_addresses c)
                  else cd_addresses c),
                cd_organizations := (if has ''organizations'' then cd_organizations c else []),
                cd_titles := (if has ''organizations'' then cd_titles c else []),
                cd_anniversaries := (if has ''anniversaries'' then cd_anniversaries c else []),
                cd_media := (if has ''media'' then cd_media c else []),
                cd_impp := (if has ''online_services'' then cd_impp c else []),
                cd_social := (if has ''online_services'' then cd_social c else []),
                cd_other_online := (if has ''online_services'' then cd_other_online c else []),
                cd_links := (if has ''links'' then cd_links c else []),
                cd_contact_uris := (if has ''links'' then cd_contact_uris c else []),
                cd_notes := (if has ''notes'' then cd_notes c else []),
                cd_keywords := (if has ''keywords'' then cd_keywords c else []),
                cd_related_to := (if has ''related_to'' then cd_related_to c else []),
                cd_personal_info := (if has ''personal_info'' then cd_personal_info c else []),
                cd_speak_to_as := (if has ''speak_to_as'' then cd_speak_to_as c else None),
                cd_members := (if has ''members'' then cd_members c else []),
                cd_languages := (if has ''languages'' then cd_languages c else [])\<rparr>,
              rc_passthrough := (if has ''custom_fields'' then p else empty_passthrough)\<rparr>))"

section \<open>Sensitive personal info\<close>

definition isSensitivePersonalInfoMeta :: "personal_info_meta option \<Rightarrow> bool" where
  "isSensitivePersonalInfoMeta m \<longleftrightarrow>
     (case m of None \<Rightarrow> False | Some x \<Rightarrow> NormalizedSensitivity x \<in> set [''private'', ''secret''])"

definition meta_lookup :: "(string \<rightharpoonup> personal_info_meta) option \<Rightarrow> string \<Rightarrow> personal_info_meta option" where
  "meta_lookup meta i = (case meta of None \<Rightarrow> None | Some m \<Rightarrow> m i)"

definition filterSensitivePersonalInfo ::
  "personal_info list \<Rightarrow> (string \<rightharpoonup> personal_info_meta) option
   \<Rightarrow> personal_info list \<times> (string \<rightharpoonup> personal_info_meta) option" where
  "filterSensitivePersonalInfo entries meta =
     (let bad = (\<lambda>p. isSensitivePersonalInfoMeta (meta_lookup meta (pi_id p)))
      in if filter bad entries = [] then (entries, meta)
         else (let out = filter (\<lambda>p. \<not> bad p) entries;
                   kept = (\<lambda>i. if i \<in> set (map pi_id out) then meta_lookup meta i else None)
               in (out, if list_all (\<lambda>p. kept (pi_id p) = None) out then None else Some kept)))"

section \<open>Read-time projections\<close>

record contact_tag =
  ct_tag :: string
  ct_user :: nat
  ct_contact :: string

record tag =
  tg_id :: string
  tg_user :: nat
  tg_name :: string

record preference =
  pf_user :: nat
  pf_entity :: string
  pf_category :: string
  pf_key :: string
  pf_value :: string
  pf_level :: "string option"
  pf_sensitivity :: string

record field_definition =
  fd_id :: string
  fd_user :: nat
  fd_projection :: string
  fd_sensitivity :: string

record field_value =
  fv_definition :: string
  fv_user :: nat
  fv_entity :: string
  fv_value :: raw_json

record crm_db =
  db_edges :: "relationship_edge list"
  db_taggings :: "contact_tag list"
  db_tags :: "tag list"
  db_preferences :: "preference list"
  db_field_definitions :: "field_definition list"
  db_field_values :: "field_value list"

text \<open>Appending what is not there yet, by a key; the keys already present come first.\<close>

fun append_new :: "('a \<Rightarrow> 'k) \<Rightarrow> 'k list \<Rightarrow> 'a list \<Rightarrow> 'a list" where
  "append_new key seen [] = []"
| "append_new key seen (x # xs) =
     (if key x \<in> set seen then append_new key seen xs
      else x # append_new key (key x # seen) xs)"

lemma append_new_subset: "set (append_new key seen xs) \<subseteq> set xs"
  by (induction xs arbitrary: seen) auto

lemma append_new_distinct:
  "distinct (map key (append_new key seen xs)) \<and> set (map key (append_new key seen xs)) \<inter> set seen = {}"
proof (induction xs arbitrary: seen)
  case (Cons x xs)
  show ?case using Cons [of seen] Cons [of "key x # seen"] by auto
qed simp

lemma append_new_complete:
  "x \<in> set xs \<Longrightarrow> key x \<in> set seen \<union> set (map key (append_new key seen xs))"
proof (induction xs arbitrary: seen)
  case (Cons y ys)
  show ?case
  proof (cases "x = y")
    case True
    then show ?thesis by simp
  next
    case False
    then have "x \<in> set ys" using Cons.prems by simp
    from Cons.IH [OF this, of seen] Cons.IH [OF this, of "key y # seen"] show ?thesis by auto
  qed
qed simp

definition mk_relation :: "string \<Rightarrow> string \<Rightarrow> relation" where
  "mk_relation uid tag = \<lparr>rl_target = ''urn:uuid:'' @ uid, rl_relations = [tag]\<rparr>"

definition edge_relations :: "string \<Rightarrow> relationship_edge \<Rightarrow> (string \<times> string) list" where
  "edge_relations uid e = filter (\<lambda>(t, tag). tag \<noteq> [])
     ((if re_source e = uid then [(re_target e, RelationVCardTypeTag (InverseRelationType (re_type e)))] else []) @
      (if re_target e = uid then [(re_source e, RelationVCardTypeTag (re_type e))] else []))"

definition edge_projected :: "nat \<Rightarrow> string \<Rightarrow> bool \<Rightarrow> relationship_edge \<Rightarrow> bool" where
  "edge_projected u uid sens e \<longleftrightarrow> re_user e = u \<and> (re_source e = uid \<or> re_target e = uid) \<and>
     re_status e = ''confirmed'' \<and> (sens \<or> re_sensitivity e = ''normal'')"

definition projectRelationshipEdges ::
  "crm_db option \<Rightarrow> nat \<Rightarrow> string \<Rightarrow> relation list \<Rightarrow> bool \<Rightarrow> relation list" where
  "projectRelationshipEdges db u uid existing sens =
     (case db of None \<Rightarrow> existing
      | Some d \<Rightarrow> if uid = [] then existing
         else existing @ map (\<lambda>(t, tag). mk_relation t tag)
           (append_new (\<lambda>(t, tag). (''urn:uuid:'' @ t, tag))
              (concat (map (\<lambda>r. map (\<lambda>tag. (rl_target r, tag)) (rl_relations r)) existing))
              (concat (map (edge_relations uid) (filter (edge_projected u uid sens) (db_edges d))))))"

definition projectTags :: "crm_db option \<Rightarrow> nat \<Rightarrow> string \<Rightarrow> string list \<Rightarrow> string list" where
  "projectTags db u uid existing =
     (case db of None \<Rightarrow> existing
      | Some d \<Rightarrow> if uid = [] then existing
         else (let ids = map ct_tag (filter (\<lambda>t. ct_user t = u \<and> ct_contact t = uid) (db_taggings d))
               in existing @ append_new (\<lambda>n. n) ([] # existing)
                    (map tg_name (filter (\<lambda>t. tg_id t \<in> set ids \<and> tg_user t = u) (db_tags d)))))"

definition preference_projected :: "nat \<Rightarrow> string \<Rightarrow> bool \<Rightarrow> preference \<Rightarrow> bool" where
  "preference_projected u uid sens p \<longleftrightarrow> pf_user p = u \<and> pf_entity p = uid \<and> pf_category p = ''hobby'' \<and>
     (sens \<or> pf_sensitivity p = ''normal'')"

definition hobby_of :: "preference \<Rightarrow> personal_info" where
  "hobby_of p = \<lparr>pi_id = [], pi_kind = ''hobby'', pi_value = pf_value p,
     pi_level = (case pf_level p of None \<Rightarrow> [] | Some l \<Rightarrow> l), pi_list_as = None, pi_label = []\<rparr>"

definition projectPreferences ::
  "crm_db option \<Rightarrow> nat \<Rightarrow> string \<Rightarrow> personal_info list \<Rightarrow> bool \<Rightarrow> personal_info list" where
  "projectPreferences db u uid existing sens =
     (case db of None \<Rightarrow> existing
      | Some d \<Rightarrow> if uid = [] then existing
         else existing @ append_new pi_value ([] # map pi_value existing)
           (map hobby_of (filter (\<lambda>p. pf_key p \<noteq> ''dislike'')
              (filter (preference_projected u uid sens) (db_preferences d)))))"

definition field_projected :: "nat \<Rightarrow> string \<Rightarrow> bool \<Rightarrow> field_value \<Rightarrow> field_definition \<Rightarrow> bool" where
  "field_projected u uid sens v f \<longleftrightarrow> fd_id f = fv_definition v \<and> fv_user v = u \<and> fv_entity v = uid \<and>
     fd_user f = u \<and> has_prefix (to_lower (fd_projection f)) ''vcard:'' \<and> (sens \<or> fd_sensitivity f = ''normal'')"

definition projected_prop :: "field_value \<times> field_definition \<Rightarrow> jcard_prop" where
  "projected_prop vf = \<lparr>jc_name = trim_prefix (fd_projection (snd vf)) ''vcard:'', jc_params = [], jc_type = ''text'',
     jc_value = fv_value (fst vf)\<rparr>"

definition projectCustomFields ::
  "crm_db option \<Rightarrow> nat \<Rightarrow> string \<Rightarrow> jcard_prop list \<Rightarrow> bool \<Rightarrow> jcard_prop list" where
  "projectCustomFields db u uid existing sens =
     (case db of None \<Rightarrow> existing
      | Some d \<Rightarrow> if uid = [] then existing
         else existing @ append_new jc_name ([] # map jc_name existing)
           (map projected_prop (filter (\<lambda>(v, f). field_projected u uid sens v f)
              (List.product (db_field_values d) (db_field_definitions d)))))"

section \<open>The outward record\<close>

definition RecordForContactFiltered ::
  "(contact \<Rightarrow> string \<times> string) \<Rightarrow> (string \<Rightarrow> jcard_prop list option) \<Rightarrow> contact \<Rightarrow> crm_db option \<Rightarrow>
   field_selection option \<Rightarrow> contact_record" where
  "RecordForContactFiltered photo extra c db sel =
     (let sens = (case sel of None \<Rightarrow> False | Some s \<Rightarrow> fs_include_sensitive s);
          outward = (case sel of None \<Rightarrow> False | Some s \<Rightarrow> \<not> fs_include_sensitive s);
          u = con_user c
      in if con_card c \<noteq> empty_card then
           (let c0 = con_card c; uid = con_vcard_uid c;
                infos = projectPreferences db u uid (cd_personal_info c0) sens;
                env = (con_crm c)\<lparr>ev_ambient := ambientPtr (con_ambient c),
                                  ev_target_closeness := con_target_closeness c\<rparr>;
                (infos', meta') = (if outward then filterSensitivePersonalInfo infos (ev_personal_info_meta env)
                                   else (infos, ev_personal_info_meta env))
            in ApplyFieldSelection
                 \<lparr>rc_card = c0\<lparr>cd_uid := (if cd_uid c0 = [] then uid else cd_uid c0),
                     cd_related_to := projectRelationshipEdges db u uid (cd_related_to c0) sens,
                     cd_keywords := projectTags db u uid (cd_keywords c0),
                     cd_personal_info := infos'\<rparr>,
                  rc_envelope = env\<lparr>ev_personal_info_meta := meta'\<rparr>,
                  rc_passthrough = (con_passthrough c)\<lparr>pt_vcard :=
                     projectCustomFields db u uid (pt_vcard (con_passthrough c)) sens\<rparr>,
                  rc_uid = uid, rc_etag = con_etag c\<rparr> sel)
         else
           (let r = RecordFromContact photo extra c; c0 = rc_card r; uid = rc_uid r;
                infos = projectPreferences db u uid (cd_personal_info c0) sens;
                env = rc_envelope r;
                (infos', meta') = (if outward then filterSensitivePersonalInfo infos (ev_personal_info_meta env)
                                   else (infos, ev_personal_info_meta env))
            in ApplyFieldSelection
                 (r\<lparr>rc_card := c0\<lparr>
                     cd_related_to := projectRelationshipEdges db u uid (cd_related_to c0) sens,
                     cd_keywords := projectTags db u uid (cd_keywords c0),
                     cd_personal_info := infos'\<rparr>,
                    rc_envelope := env\<lparr>ev_personal_info_meta := meta'\<rparr>,
                    rc_passthrough := (rc_passthrough r)\<lparr>pt_vcard :=
                      projectCustomFields db u uid (pt_vcard (rc_passthrough r)) sens\<rparr>\<rparr>) sel))"

definition RecordForContact where
  "RecordForContact photo extra c db = RecordForContactFiltered photo extra c db None"

definition RecordForContactForSync where
  "RecordForContactForSync photo extra c db =
     RecordForContactFiltered photo extra c db (Some FieldSelectionAll)"

section \<open>Putting withheld addresses back\<close>

definition normalizedAddressLine :: "contact_address \<Rightarrow> string" where
  "normalizedAddressLine a = join_with '' '' (str_fields (to_lower (FormatAddress a)))"

definition address_line :: "address \<Rightarrow> string" where
  "address_line a = normalizedAddressLine (contactAddressFromNeutral a)"

definition matchAddressIndex :: "address list \<Rightarrow> address \<Rightarrow> nat option" where
  "matchAddressIndex as e =
     (case (if ad_id e \<noteq> [] then find_index (\<lambda>a. ad_id a = ad_id e) as else None) of
        Some i \<Rightarrow> Some i
      | None \<Rightarrow> if address_line e = [] then None
                else find_index (\<lambda>a. address_line a = address_line e) as)"

definition put_back :: "address list \<Rightarrow> address \<Rightarrow> address list" where
  "put_back out e =
     (if \<not> isSensitiveAddressSensitivity (ad_sensitivity e) then out
      else (case matchAddressIndex out e of Some i \<Rightarrow> out[i := e] | None \<Rightarrow> out @ [e]))"

definition PreserveSensitiveAddresses :: "address list \<Rightarrow> address list \<Rightarrow> address list" where
  "PreserveSensitiveAddresses existing incoming =
     (if \<not> list_ex (\<lambda>e. isSensitiveAddressSensitivity (ad_sensitivity e)) existing then incoming
      else foldl put_back incoming existing)"

definition carry_one :: "address list \<Rightarrow> address \<Rightarrow> address list" where
  "carry_one out e =
     (if \<not> isSensitiveAddressSensitivity (ad_sensitivity e) then out
      else (case matchAddressIndex out e of
              Some i \<Rightarrow> out[i := (out ! i)\<lparr>ad_sensitivity := ad_sensitivity e\<rparr>] | None \<Rightarrow> out))"

definition CarryForwardAddressSensitivity :: "address list \<Rightarrow> address list \<Rightarrow> address list" where
  "CarryForwardAddressSensitivity existing incoming = foldl carry_one incoming existing"

text \<open>Hobbies: metadata of an entry the remote never saw is carried forward with the entry.\<close>

definition matchPersonalInfoIndex :: "personal_info list \<Rightarrow> personal_info \<Rightarrow> nat option" where
  "matchPersonalInfoIndex entries local =
     (let value = to_lower (trim_space (pi_value local)) in
      case (if pi_id local \<noteq> [] then find_index (\<lambda>e. pi_id e = pi_id local) entries else None) of
        Some i \<Rightarrow> Some i
      | None \<Rightarrow> if value = [] then None
          else find_index (\<lambda>e. to_lower (trim_space (pi_value e)) = value \<and>
            (pi_kind local = [] \<or> pi_kind e = [] \<or> pi_kind e = pi_kind local)) entries)"

definition merge_remote_info :: "(string \<rightharpoonup> personal_info_meta) \<Rightarrow>
    personal_info list \<times> (string \<times> personal_info_meta) list \<Rightarrow> personal_info \<Rightarrow>
    personal_info list \<times> (string \<times> personal_info_meta) list" where
  "merge_remote_info meta st local =
     (case (pi_id local = [], meta (pi_id local)) of
        (False, Some m) \<Rightarrow>
          (case matchPersonalInfoIndex (fst st) local of
             None \<Rightarrow> if isSensitivePersonalInfoMeta (Some m)
                     then (fst st @ [local], (pi_id local, m) # snd st) else st
           | Some i \<Rightarrow> ((fst st)[i := (fst st ! i)\<lparr>pi_id := pi_id local\<rparr>], (pi_id local, m) # snd st))
      | _ \<Rightarrow> st)"

definition MergePersonalInfoFromRemote ::
  "personal_info list \<Rightarrow> (string \<times> personal_info_meta) list \<Rightarrow> personal_info list
   \<Rightarrow> personal_info list \<times> (string \<times> personal_info_meta) list" where
  "MergePersonalInfoFromRemote existing meta incoming =
     (if meta = [] then (incoming, []) else foldl (merge_remote_info (map_of meta)) (incoming, []) existing)"

end
