(* ===== verification/SharingRules.thy ===== *)
theory SharingRules imports Sharing begin

text \<open>
  What the outward copy withholds and what a write puts back. Interface \<open>default_deny\<close>: a filter that
  removes exactly the entries a predicate calls sensitive; the code's two filters (addresses, personal
  info), each with a shortcut for ``nothing to drop'', are its interpretations.
\<close>

section \<open>The default-deny contract\<close>

locale default_deny =
  fixes sens :: "'a \<Rightarrow> bool" and filt :: "'a list \<Rightarrow> 'a list"
  assumes member: "x \<in> set (filt xs) \<longleftrightarrow> x \<in> set xs \<and> \<not> sens x"
    and order: "\<exists>keep. filt xs = filter keep xs"
begin

lemma filt_eq: "filt xs = filter (\<lambda>x. \<not> sens x) xs"
proof -
  obtain keep where k: "filt xs = filter keep xs" using order by blast
  have "keep x \<longleftrightarrow> \<not> sens x" if "x \<in> set xs" for x using member [of x xs] that by (simp add: k)
  then show ?thesis unfolding k by (intro filter_cong) auto
qed

lemma withheld: "list_all (\<lambda>x. \<not> sens x) (filt xs)"
  by (simp add: list_all_iff member)

lemma idempotent: "filt (filt xs) = filt xs"
  by (simp add: filt_eq)

lemma unchanged_iff: "filt xs = xs \<longleftrightarrow> list_all (\<lambda>x. \<not> sens x) xs"
  by (simp add: filt_eq filter_id_conv list_all_iff)

end

abbreviation sensitive_address :: "address \<Rightarrow> bool" where
  "sensitive_address a \<equiv> isSensitiveAddressSensitivity (ad_sensitivity a)"

abbreviation sensitive_info :: "(string \<rightharpoonup> personal_info_meta) option \<Rightarrow> personal_info \<Rightarrow> bool" where
  "sensitive_info meta p \<equiv> isSensitivePersonalInfoMeta (meta_lookup meta (pi_id p))"

interpretation addr: default_deny sensitive_address filterSensitiveAddresses
proof
  fix x :: address and xs
  have "filterSensitiveAddresses xs = filter (\<lambda>a. \<not> sensitive_address a) xs"
    by (auto simp: filterSensitiveAddresses_def filter_empty_conv filter_id_conv)
  then show "x \<in> set (filterSensitiveAddresses xs) \<longleftrightarrow> x \<in> set xs \<and> \<not> sensitive_address x"
    and "\<exists>keep. filterSensitiveAddresses xs = filter keep xs" by auto
qed

interpretation info: default_deny "sensitive_info meta" "\<lambda>xs. fst (filterSensitivePersonalInfo xs meta)" for meta
proof
  fix x :: personal_info and xs
  have "fst (filterSensitivePersonalInfo xs meta) = filter (\<lambda>p. \<not> sensitive_info meta p) xs"
    by (auto simp: filterSensitivePersonalInfo_def Let_def filter_empty_conv filter_id_conv)
  then show "x \<in> set (fst (filterSensitivePersonalInfo xs meta)) \<longleftrightarrow> x \<in> set xs \<and> \<not> sensitive_info meta x"
    and "\<exists>keep. fst (filterSensitivePersonalInfo xs meta) = filter keep xs" by auto
qed

section \<open>The outward record\<close>

lemma sync_has [simp]: "t \<in> set FieldSections \<Longrightarrow> Has (Some FieldSelectionAll) t"
  by (simp add: Has_def FieldSelectionAll_def)

lemma sync_fields:
  fixes photo extra db
  assumes "con_card c \<noteq> empty_card"
  defines "r \<equiv> RecordForContactForSync photo extra c db"
  shows "cd_addresses (rc_card r) = filterSensitiveAddresses (cd_addresses (con_card c))"
    and "cd_personal_info (rc_card r) =
      fst (filterSensitivePersonalInfo (projectPreferences db (con_user c) (con_vcard_uid c)
        (cd_personal_info (con_card c)) False) (ev_personal_info_meta (con_crm c)))"
    and "cd_related_to (rc_card r) =
      projectRelationshipEdges db (con_user c) (con_vcard_uid c) (cd_related_to (con_card c)) False"
    and "pt_vcard (rc_passthrough r) =
      projectCustomFields db (con_user c) (con_vcard_uid c) (pt_vcard (con_passthrough c)) False"
    and "cd_keywords (rc_card r) =
      projectTags db (con_user c) (con_vcard_uid c) (cd_keywords (con_card c))"
  using assms(1) unfolding r_def
  by (simp_all add: RecordForContactForSync_def RecordForContactFiltered_def ApplyFieldSelection_def
      Has_def FieldSelectionAll_def FieldSections_def Let_def split: prod.split)


definition secret_home :: "string \<Rightarrow> address" where
  "secret_home i = blank_address\<lparr>ad_id := i, ad_sensitivity := ''secret'',
     ad_components := [\<lparr>ac_kind = ''name'', ac_value = ''1 Oak St'', ac_phonetic = []\<rparr>]\<rparr>"

definition shared_home :: address where
  "shared_home = blank_address\<lparr>ad_id := ''a1'', ad_full := ''2 Elm St''\<rparr>"


section \<open>Relations on the outward record\<close>

lemma append_new_image:
  assumes "inj_on key (set xs)"
  shows "x \<in> set (append_new key seen xs) \<longleftrightarrow> x \<in> set xs \<and> key x \<notin> set seen"
  using assms
proof (induction xs arbitrary: seen)
  case (Cons y ys)
  then have "inj_on key (set ys)" by simp
  note IH = Cons.IH [OF this]
  have "key x = key y \<Longrightarrow> x = y" if "x \<in> set ys" using inj_onD [OF Cons.prems, of x y] that by simp
  then show ?case by (auto simp: IH)
qed simp

lemma projected_relation_iff:
  assumes "uid \<noteq> []"
  shows "rel \<in> set (projectRelationshipEdges (Some d) u uid existing sens) \<longleftrightarrow>
     rel \<in> set existing \<or>
     (\<exists>e \<in> set (db_edges d). edge_projected u uid sens e \<and>
        (\<exists>(t, tag) \<in> set (edge_relations uid e). rel = mk_relation t tag \<and>
           list_all (\<lambda>r. \<not> (rl_target r = ''urn:uuid:'' @ t \<and> tag \<in> set (rl_relations r))) existing))"
    (is "?L \<longleftrightarrow> rel \<in> set existing \<or> ?R")
proof -
  let ?key = "\<lambda>(t, tag). (''urn:uuid:'' @ t, tag)"
  let ?seen = "concat (map (\<lambda>r. map (\<lambda>tag. (rl_target r, tag)) (rl_relations r)) existing)"
  let ?new = "concat (map (edge_relations uid) (filter (edge_projected u uid sens) (db_edges d)))"
  have inj: "inj_on ?key (set ?new)" by (auto intro: inj_onI)
  have seen: "?key (t, tag) \<notin> set ?seen \<longleftrightarrow>
      list_all (\<lambda>r. \<not> (rl_target r = ''urn:uuid:'' @ t \<and> tag \<in> set (rl_relations r))) existing" for t tag
    by (auto simp: list_all_iff)
  have new: "(t, tag) \<in> set ?new \<longleftrightarrow> (\<exists>e \<in> set (db_edges d). edge_projected u uid sens e \<and>
      (t, tag) \<in> set (edge_relations uid e))" for t tag
    by auto
  have "?L \<longleftrightarrow> rel \<in> set existing \<or>
      (\<exists>t tag. (t, tag) \<in> set (append_new ?key ?seen ?new) \<and> rel = mk_relation t tag)"
    using assms by (auto simp: projectRelationshipEdges_def image_iff split: prod.splits)
  moreover have "(\<exists>t tag. (t, tag) \<in> set (append_new ?key ?seen ?new) \<and> rel = mk_relation t tag) \<longleftrightarrow> ?R"
    unfolding append_new_image [OF inj] new seen by blast
  ultimately show ?thesis by simp
qed

text \<open>C5: a relation on the copy a sync client receives is a stored one or describes a confirmed edge at
  normal sensitivity that touches the contact, by the tag of its type read from that side; and every
  such edge with a tag is listed, in its own entry or in a stored one.\<close>

theorem sync_relations_exact:
  assumes "con_card c \<noteq> empty_card" "con_vcard_uid c \<noteq> []"
    "r = RecordForContactForSync photo extra c (Some d)"
  shows "rel \<in> set (cd_related_to (rc_card r)) \<longleftrightarrow>
     rel \<in> set (cd_related_to (con_card c)) \<or>
     (\<exists>e \<in> set (db_edges d). re_user e = con_user c \<and> re_status e = ''confirmed'' \<and>
        re_sensitivity e = ''normal'' \<and>
        (\<exists>t tag. tag \<noteq> [] \<and> rel = mk_relation t tag \<and>
           (re_source e = con_vcard_uid c \<and> t = re_target e \<and>
              tag = RelationVCardTypeTag (InverseRelationType (re_type e)) \<or>
            re_target e = con_vcard_uid c \<and> t = re_source e \<and> tag = RelationVCardTypeTag (re_type e)) \<and>
           list_all (\<lambda>r. \<not> (rl_target r = ''urn:uuid:'' @ t \<and> tag \<in> set (rl_relations r)))
             (cd_related_to (con_card c))))"
proof -
  have e: "(\<exists>(t, tag) \<in> set (edge_relations uid e). P t tag) \<longleftrightarrow>
      (\<exists>t tag. tag \<noteq> [] \<and> (re_source e = uid \<and> t = re_target e \<and>
            tag = RelationVCardTypeTag (InverseRelationType (re_type e)) \<or>
          re_target e = uid \<and> t = re_source e \<and> tag = RelationVCardTypeTag (re_type e)) \<and> P t tag)"
    for uid e P
    by (auto simp: edge_relations_def)
  show ?thesis
    unfolding assms(3) sync_fields(3) [OF assms(1)] projected_relation_iff [OF assms(2)] e
      edge_projected_def
    by blast
qed

section \<open>Putting withheld addresses back\<close>

definition addr_match :: "address \<Rightarrow> address \<Rightarrow> bool" where
  "addr_match a e \<longleftrightarrow> ad_id e \<noteq> [] \<and> ad_id a = ad_id e \<or> address_line e \<noteq> [] \<and> address_line a = address_line e"

lemma find_index_ex: "find_index P xs = Some i \<Longrightarrow> \<exists>x \<in> set xs. P x"
  using find_index_Some nth_mem by metis

lemma match_None: "matchAddressIndex as e = None \<longleftrightarrow> (\<forall>a \<in> set as. \<not> addr_match a e)"
  by (fastforce simp: matchAddressIndex_def addr_match_def find_index_None dest!: find_index_ex
      split: option.splits if_splits)

lemma match_Some:
  assumes "matchAddressIndex as e = Some i"
  shows "i < length as \<and> addr_match (as ! i) e"
  using assms
  by (auto simp: matchAddressIndex_def addr_match_def dest: find_index_Some split: option.splits if_splits)

lemma put_back_keeps:
  assumes "x \<in> set out" "\<not> addr_match x e"
  shows "x \<in> set (put_back out e)"
proof (cases "matchAddressIndex out e")
  case None
  then show ?thesis using assms by (simp add: put_back_def)
next
  case (Some i)
  obtain j where j: "j < length out" "out ! j = x" using assms(1) by (auto simp: in_set_conv_nth)
  have "j \<noteq> i" using match_Some [OF Some] j(2) assms(2) by auto
  then have "out[i := e] ! j = x" using j by simp
  then have "x \<in> set (out[i := e])" using j nth_mem [of j "out[i := e]"] by simp
  then show ?thesis using Some assms(1) by (simp add: put_back_def)
qed

lemma put_back_puts: "sensitive_address e \<Longrightarrow> e \<in> set (put_back out e)"
  by (auto simp: put_back_def set_update_memI split: option.split dest: match_Some)

lemma put_back_all:
  assumes "sorted_wrt (\<lambda>a e. \<not> addr_match a e) (filter sensitive_address es)"
    "x \<in> set out" "\<forall>e \<in> set es. sensitive_address e \<longrightarrow> \<not> addr_match x e"
  shows "x \<in> set (foldl put_back out es)"
  using assms
proof (induction es arbitrary: out)
  case (Cons e es)
  have "x \<in> set (put_back out e)"
  proof (cases "sensitive_address e")
    case True
    then show ?thesis using Cons.prems by (intro put_back_keeps) auto
  qed (use Cons.prems in \<open>simp add: put_back_def\<close>)
  then show ?case using Cons.prems by (auto intro!: Cons.IH split: if_splits)
qed simp

lemma foldl_put_back:
  assumes "sorted_wrt (\<lambda>a e. \<not> addr_match a e) (filter sensitive_address es)"
    "e \<in> set es" "sensitive_address e"
  shows "e \<in> set (foldl put_back out es)"
  using assms
proof (induction es arbitrary: out)
  case (Cons d es)
  show ?case
  proof (cases "e \<in> set es")
    case True
    then show ?thesis using Cons by (auto split: if_splits)
  next
    case False
    then have "e = d" using Cons.prems(2) by simp
    with Cons.prems show ?thesis
      by (auto intro!: put_back_all put_back_puts simp: put_back_puts)
  qed
qed simp


lemma foldl_put_back_append:
  assumes "sorted_wrt (\<lambda>a e. \<not> addr_match a e) (out @ filter sensitive_address es)"
  shows "foldl put_back out es = out @ filter sensitive_address es"
  using assms
proof (induction es arbitrary: out)
  case (Cons e es)
  show ?case
  proof (cases "sensitive_address e")
    case True
    then have "matchAddressIndex out e = None" using Cons.prems by (auto simp: match_None sorted_wrt_append)
    then have "put_back out e = out @ [e]" using True by (simp add: put_back_def)
    then show ?thesis using Cons.IH [of "out @ [e]"] Cons.prems True by simp
  qed (use Cons in \<open>simp add: put_back_def\<close>)
qed simp

text \<open>A client that sends back exactly the copy it received changes nothing: the server ends with the
  same addresses, the withheld ones after the others.\<close>

lemma echo_restores_addresses:
  assumes "con_card c \<noteq> empty_card"
    and "sorted_wrt (\<lambda>a e. \<not> addr_match a e)
      (filter (\<lambda>a. \<not> sensitive_address a) (cd_addresses (con_card c)) @
       filter sensitive_address (cd_addresses (con_card c)))"
  shows "PreserveSensitiveAddresses (cd_addresses (con_card c))
      (cd_addresses (rc_card (RecordForContactForSync photo extra c db))) =
    filter (\<lambda>a. \<not> sensitive_address a) (cd_addresses (con_card c)) @
    filter sensitive_address (cd_addresses (con_card c))"
proof (cases "list_ex sensitive_address (cd_addresses (con_card c))")
  case True
  then show ?thesis
    using foldl_put_back_append [OF assms(2)]
    by (simp add: PreserveSensitiveAddresses_def sync_fields(1) [OF assms(1)] addr.filt_eq)
next
  case False
  then have "filter sensitive_address (cd_addresses (con_card c)) = []"
    "filter (\<lambda>a. \<not> sensitive_address a) (cd_addresses (con_card c)) = cd_addresses (con_card c)"
    by (auto simp: list_ex_iff filter_empty_conv filter_id_conv)
  with False show ?thesis
    by (simp add: PreserveSensitiveAddresses_def sync_fields(1) [OF assms(1)] addr.filt_eq)
qed

text \<open>Two private addresses that render to the same line under different identifiers (the same house
  kept as home and as work) do not both survive: the second takes the place of the first.\<close>

lemma same_line_overwritten:
  assumes "sensitive_address e1" "sensitive_address e2" "ad_id e1 \<noteq> ad_id e2"
    and "address_line e2 = address_line e1" "address_line e2 \<noteq> []"
  shows "PreserveSensitiveAddresses [e1, e2] [] = [e2]"
  using assms
  by (simp add: PreserveSensitiveAddresses_def put_back_def matchAddressIndex_def)

section \<open>Carrying a classification forward\<close>

lemma address_line_sens [simp]: "address_line (a\<lparr>ad_sensitivity := s\<rparr>) = address_line a"
  by (simp add: address_line_def normalizedAddressLine_def contactAddressFromNeutral_def FormatAddress_def Let_def)

lemma find_index_update:
  assumes "P y = P (xs ! i)"
  shows "find_index P (xs[i := y]) = find_index P xs"
  using assms
proof (induction xs arbitrary: i)
  case (Cons x xs)
  then show ?case by (cases i) auto
qed simp

lemma match_sens:
  "matchAddressIndex (out[i := (out ! i)\<lparr>ad_sensitivity := s\<rparr>]) e = matchAddressIndex out e"
proof -
  let ?out = "out[i := (out ! i)\<lparr>ad_sensitivity := s\<rparr>]"
  have i: "find_index (\<lambda>a. ad_id a = ad_id e) ?out = find_index (\<lambda>a. ad_id a = ad_id e) out"
    by (rule find_index_update) simp
  have l: "find_index (\<lambda>a. address_line a = address_line e) ?out
      = find_index (\<lambda>a. address_line a = address_line e) out"
    by (rule find_index_update) simp
  show ?thesis unfolding matchAddressIndex_def i l ..
qed

lemma carry_one_content:
  "map (ad_sensitivity_update (\<lambda>_. [])) (carry_one out e) = map (ad_sensitivity_update (\<lambda>_. [])) out"
proof (cases "sensitive_address e")
  case True
  show ?thesis
  proof (cases "matchAddressIndex out e")
    case (Some i)
    have "i < length out" using match_Some [OF Some] by simp
    then have "(map (ad_sensitivity_update (\<lambda>_. [])) out)[i := (out ! i)\<lparr>ad_sensitivity := []\<rparr>]
        = map (ad_sensitivity_update (\<lambda>_. [])) out"
      by (metis list_update_id nth_map)
    then show ?thesis using True Some by (simp add: carry_one_def map_update)
  qed (use True in \<open>simp add: carry_one_def\<close>)
qed (simp add: carry_one_def)

lemma carry_one_facts:
  "length (carry_one out e) = length out"
  "matchAddressIndex (carry_one out e) d = matchAddressIndex out d"
  "i < length out \<Longrightarrow> sensitive_address (out ! i) \<Longrightarrow> sensitive_address (carry_one out e ! i)"
  "sensitive_address e \<Longrightarrow> matchAddressIndex out e = Some i \<Longrightarrow> sensitive_address (carry_one out e ! i)"
  using match_Some [of out e] match_sens
  by (auto simp: carry_one_def nth_list_update split: option.split)

lemma carry_content:
  "map (ad_sensitivity_update (\<lambda>_. [])) (foldl carry_one out es) = map (ad_sensitivity_update (\<lambda>_. [])) out"
  by (induction es arbitrary: out) (simp_all add: carry_one_content)

lemma carry_stays:
  "i < length out \<Longrightarrow> sensitive_address (out ! i) \<Longrightarrow> sensitive_address (foldl carry_one out es ! i)"
  by (induction es arbitrary: out) (simp_all add: carry_one_facts)

text \<open>The subscription reconcile takes the remote server's addresses as they are, in content and
  number, and an entry that matches a private or secret local one is never left at normal sensitivity.\<close>

lemma carry_forward_protects:
  assumes "e \<in> set existing" "sensitive_address e" "matchAddressIndex incoming e = Some i"
  shows "sensitive_address (CarryForwardAddressSensitivity existing incoming ! i) \<and>
     map (ad_sensitivity_update (\<lambda>_. [])) (CarryForwardAddressSensitivity existing incoming) =
     map (ad_sensitivity_update (\<lambda>_. [])) incoming"
proof
  show "sensitive_address (CarryForwardAddressSensitivity existing incoming ! i)"
    unfolding CarryForwardAddressSensitivity_def
    using assms
  proof (induction existing arbitrary: incoming)
    case (Cons d es)
    have i: "i < length (carry_one incoming e)" using match_Some [OF Cons.prems(3)] by (simp add: carry_one_facts)
    show ?case
    proof (cases "e = d")
      case True
      then show ?thesis using carry_stays [OF i] carry_one_facts(4) [OF Cons.prems(2,3)] by simp
    next
      case False
      then show ?thesis using Cons by (simp add: carry_one_facts)
    qed
  qed simp
qed (simp add: CarryForwardAddressSensitivity_def carry_content)

section \<open>Hobbies coming back from a remote server\<close>

definition info_match :: "personal_info \<Rightarrow> personal_info \<Rightarrow> bool" where
  "info_match e local \<longleftrightarrow> matchPersonalInfoIndex [e] local \<noteq> None"

lemma info_match_id: "pi_id local \<noteq> [] \<Longrightarrow> info_match (e\<lparr>pi_id := pi_id local\<rparr>) local"
  by (simp add: info_match_def matchPersonalInfoIndex_def)

lemma match_info_Some:
  assumes "matchPersonalInfoIndex es local = Some i"
  shows "i < length es \<and> info_match (es ! i) local"
  using assms
  by (auto simp: matchPersonalInfoIndex_def info_match_def Let_def dest: find_index_Some
      split: option.splits if_splits)

lemma match_info_None:
  "matchPersonalInfoIndex es local = None \<longleftrightarrow> (\<forall>e \<in> set es. \<not> info_match e local)"
  by (fastforce simp: matchPersonalInfoIndex_def info_match_def Let_def find_index_None
      dest!: find_index_ex split: option.splits if_splits)

lemma info_match_retag:
  "info_match (e\<lparr>pi_id := i\<rparr>) p \<Longrightarrow> \<not> info_match e p \<Longrightarrow> i = pi_id p"
  by (auto simp: info_match_def matchPersonalInfoIndex_def Let_def split: if_splits)

lemma merge_info_no_match:
  assumes "\<forall>e \<in> set (fst st). \<not> info_match e p" "\<not> info_match q p" "pi_id q \<noteq> pi_id p"
  shows "\<forall>e \<in> set (fst (merge_remote_info meta st q)). \<not> info_match e p"
proof -
  have "\<not> info_match ((fst st ! i)\<lparr>pi_id := pi_id q\<rparr>) p" if "i < length (fst st)" for i
    using info_match_retag [where e = "fst st ! i" and i = "pi_id q" and p = p] assms that by auto
  then show ?thesis
    using assms match_info_Some [of "fst st" q]
    by (auto simp: merge_remote_info_def split: option.splits bool.splits dest!: set_update_subset_insert [THEN subsetD])
qed

lemma merge_info_no_match_all:
  assumes "\<forall>e \<in> set (fst st). \<not> info_match e p" "\<forall>q \<in> set qs. \<not> info_match q p \<and> pi_id q \<noteq> pi_id p"
  shows "\<forall>e \<in> set (fst (foldl (merge_remote_info meta) st qs)). \<not> info_match e p"
  using assms
proof (induction qs arbitrary: st)
  case (Cons q qs)
  have "\<forall>e \<in> set (fst (merge_remote_info meta st q)). \<not> info_match e p"
    using Cons.prems by (intro merge_info_no_match) simp_all
  then show ?case using Cons.prems(2) Cons.IH [of "merge_remote_info meta st q"] by simp
qed simp

lemma merge_info_keeps:
  assumes "p \<in> set (fst st)" "\<not> info_match p q"
  shows "p \<in> set (fst (merge_remote_info meta st q))"
proof (cases "matchPersonalInfoIndex (fst st) q")
  case None
  then show ?thesis using assms(1) by (auto simp: merge_remote_info_def split: option.split bool.split)
next
  case (Some i)
  obtain j where j: "j < length (fst st)" "fst st ! j = p" using assms(1) by (auto simp: in_set_conv_nth)
  have "j \<noteq> i" using match_info_Some [OF Some] j(2) assms(2) by auto
  then have "p \<in> set ((fst st)[i := x])" for x using j nth_mem [of j "(fst st)[i := x]"] by simp
  then show ?thesis using Some assms(1) by (auto simp: merge_remote_info_def split: option.split bool.split)
qed

lemma merge_info_keeps_all:
  "p \<in> set (fst st) \<Longrightarrow> \<forall>q \<in> set qs. \<not> info_match p q \<Longrightarrow> p \<in> set (fst (foldl (merge_remote_info meta) st qs))"
proof (induction qs arbitrary: st)
  case (Cons q qs)
  then show ?case using Cons.IH [of "merge_remote_info meta st q"] merge_info_keeps by simp
qed simp

lemma merge_info_meta:
  "x \<in> set (snd st) \<Longrightarrow> x \<in> set (snd (foldl (merge_remote_info meta) st qs))"
proof (induction qs arbitrary: st)
  case (Cons q qs)
  have "x \<in> set (snd (merge_remote_info meta st q))"
    using Cons.prems by (auto simp: merge_remote_info_def split: option.split bool.split)
  then show ?case by (simp add: Cons.IH)
qed simp

text \<open>A private or secret hobby the remote server never received survives a full overwrite from it,
  with its metadata, when nothing the server sent and no other local hobby reads like it.\<close>

lemma remote_keeps_private_hobby:
  assumes "existing = as @ p # bs" "pi_id p \<noteq> []" "map_of meta (pi_id p) = Some m"
    and "isSensitivePersonalInfoMeta (Some m)" "\<forall>e \<in> set incoming. \<not> info_match e p"
    and "\<forall>q \<in> set (as @ bs). \<not> info_match q p \<and> \<not> info_match p q \<and> pi_id q \<noteq> pi_id p"
    and "MergePersonalInfoFromRemote existing meta incoming = (out, kept)"
  shows "p \<in> set out \<and> (pi_id p, m) \<in> set kept"
proof -
  let ?f = "merge_remote_info (map_of meta)"
  let ?st = "foldl ?f (incoming, []) as"
  have meta: "meta \<noteq> []" using assms(3) by auto
  have "\<forall>e \<in> set (fst ?st). \<not> info_match e p"
    using assms(5,6) by (intro merge_info_no_match_all) auto
  then have "?f ?st p = (fst ?st @ [p], (pi_id p, m) # snd ?st)"
    using assms(2-4) by (simp add: merge_remote_info_def match_info_None [symmetric])
  then have eq: "(out, kept) = foldl ?f (fst ?st @ [p], (pi_id p, m) # snd ?st) bs"
    using assms(7) meta by (simp add: MergePersonalInfoFromRemote_def assms(1))
  have "p \<in> set (fst (out, kept))" unfolding eq using assms(6) by (intro merge_info_keeps_all) auto
  moreover have "(pi_id p, m) \<in> set (snd (out, kept))" unfolding eq by (intro merge_info_meta) simp
  ultimately show ?thesis by simp
qed

text \<open>Two local hobbies of the same kind and text, one private and one shared, both with metadata: when
  the remote server returns the shared one, the private entry claims it first and the shared one takes it
  over, so the entry with the private identifier is gone although its metadata is kept.\<close>

lemma private_twin_lost:
  assumes "p = \<lparr>pi_id = i, pi_kind = k, pi_value = v, pi_level = [], pi_list_as = None, pi_label = []\<rparr>"
    and "q = p\<lparr>pi_id := j\<rparr>" "i \<noteq> []" "j \<noteq> []" "i \<noteq> j" "to_lower (trim_space v) \<noteq> []"
    and "isSensitivePersonalInfoMeta (Some m)"
  shows "MergePersonalInfoFromRemote [p, q] [(i, m), (j, n)] [q] = ([q], [(j, n), (i, m)])"
  using assms(3-7)
  by (simp add: assms(1,2) MergePersonalInfoFromRemote_def merge_remote_info_def matchPersonalInfoIndex_def)

section \<open>Concrete runs\<close>

lemma sample_lines:
  "address_line (secret_home i) = ''1 oak st''" "address_line shared_home = []"
proof -
  have "FormatAddress (contactAddressFromNeutral (secret_home i)) = FormatAddress (contactAddressFromNeutral (secret_home []))"
    by (simp add: FormatAddress_def contactAddressFromNeutral_def secret_home_def Let_def)
  moreover have "normalizedAddressLine (contactAddressFromNeutral (secret_home [])) = ''1 oak st''"
    by code_simp
  ultimately show "address_line (secret_home i) = ''1 oak st''"
    by (simp add: address_line_def normalizedAddressLine_def)
  show "address_line shared_home = []" by code_simp
qed

lemma sample_sens:
  "sensitive_address (secret_home i)" "\<not> sensitive_address shared_home" "ad_id (secret_home i) = i"
  "ad_id shared_home = ''a1''"
  by (simp_all add: secret_home_def shared_home_def blank_address_def isSensitiveAddressSensitivity_def)


definition sample_store :: contact where
  "sample_store = blank_contact\<lparr>con_card := empty_card\<lparr>cd_addresses := [secret_home ''s'', shared_home]\<rparr>,
     con_user := 1, con_vcard_uid := ''a''\<rparr>"

lemma sample_store_card: "con_card sample_store \<noteq> empty_card"
  "cd_addresses (con_card sample_store) = [secret_home ''s'', shared_home]"
  by (simp_all add: sample_store_def empty_card_def)

lemma echo_restores_addresses_witness:
  "PreserveSensitiveAddresses [secret_home ''s'', shared_home]
     (cd_addresses (rc_card (RecordForContactForSync no_photo no_extra sample_store None))) =
   [shared_home, secret_home ''s'']"
  using echo_restores_addresses [OF sample_store_card(1), of no_photo no_extra None]
  by (simp add: sample_store_card sample_sens addr_match_def sample_lines)

lemma same_line_overwritten_witness:
  "PreserveSensitiveAddresses [secret_home ''h'', secret_home ''w''] [] = [secret_home ''w'']"
  by (rule same_line_overwritten) (simp_all add: sample_sens sample_lines)

lemma carry_forward_protects_witness:
  "sensitive_address (CarryForwardAddressSensitivity [secret_home ''s'']
     [(secret_home ''s'')\<lparr>ad_sensitivity := []\<rparr>] ! 0)"
  using carry_forward_protects [of "secret_home ''s''" "[secret_home ''s'']"
      "[(secret_home ''s'')\<lparr>ad_sensitivity := []\<rparr>]" 0]
  by (simp add: sample_sens matchAddressIndex_def)

definition hobby :: "string \<Rightarrow> string \<Rightarrow> personal_info" where
  "hobby i v = \<lparr>pi_id = i, pi_kind = ''hobby'', pi_value = v, pi_level = [], pi_list_as = None, pi_label = []\<rparr>"

definition hobby_meta :: "string \<Rightarrow> personal_info_meta" where
  "hobby_meta s = \<lparr>pm_sensitivity = s, pm_favorite = False, pm_notes = [], pm_source = [],
     pm_confidence = None, pm_last_confirmed = None\<rparr>"

lemma hobby_words: "to_lower (trim_space ''Go'') = ''go''" "to_lower (trim_space ''Chess'') = ''chess''"
  by code_simp+

lemma remote_keeps_private_hobby_witness:
  "hobby ''p'' ''Go'' \<in> set (fst (MergePersonalInfoFromRemote [hobby ''p'' ''Go'', hobby ''q'' ''Chess'']
     [(''p'', hobby_meta ''private'')] [hobby ''q'' ''Chess'']))"
proof -
  obtain out kept where eq: "MergePersonalInfoFromRemote ([] @ hobby ''p'' ''Go'' # [hobby ''q'' ''Chess''])
     [(''p'', hobby_meta ''private'')] [hobby ''q'' ''Chess''] = (out, kept)" by (meson surj_pair)
  have "hobby ''p'' ''Go'' \<in> set out \<and> (pi_id (hobby ''p'' ''Go''), hobby_meta ''private'') \<in> set kept"
    by (rule remote_keeps_private_hobby [OF refl _ _ _ _ _ eq])
      (simp_all add: hobby_def hobby_meta_def isSensitivePersonalInfoMeta_def NormalizedSensitivity_def
        info_match_def matchPersonalInfoIndex_def hobby_words)
  then show ?thesis using eq by simp
qed

lemma private_twin_lost_witness:
  "MergePersonalInfoFromRemote [hobby ''p'' ''Go'', hobby ''q'' ''Go'']
     [(''p'', hobby_meta ''private''), (''q'', hobby_meta ''normal'')] [hobby ''q'' ''Go''] =
   ([hobby ''q'' ''Go''], [(''q'', hobby_meta ''normal''), (''p'', hobby_meta ''private'')])"
  by (rule private_twin_lost [where k = "''hobby''" and v = "''Go''"])
    (simp_all add: hobby_def hobby_words hobby_meta_def isSensitivePersonalInfoMeta_def NormalizedSensitivity_def)

definition sample_db :: crm_db where
  "sample_db = \<lparr>db_edges = [sample_edge ''p'' ''a'' ''parent_of'' ''normal'',
     sample_edge ''x'' ''a'' ''spouse_of'' ''secret''], db_taggings = [], db_tags = [],
     db_preferences = [], db_field_definitions = [], db_field_values = []\<rparr>"

lemma parent_tag: "RelationVCardTypeTag ''parent_of'' = ''parent''"
  by code_simp

lemma sync_relations_exact_witness:
  "mk_relation ''p'' ''parent'' \<in> set (cd_related_to (rc_card
     (RecordForContactForSync no_photo no_extra sample_store (Some sample_db))))"
  by (subst sync_relations_exact [OF sample_store_card(1) _ refl])
    (simp_all add: sample_store_def sample_db_def sample_edge_def parent_tag empty_card_def)

end
