(* ===== verification/Birthdays.thy ===== *)
theory Birthdays imports Recurrence PlainSave "HOL-Library.List_Lexorder" "HOL-Library.Char_ord" begin

text \<open>
  Annual dates: the birthday countdown and the dashboard list (\<open>backend/services/birthday_service.go\<close>),
  the resolution of an annual month and day and the occasions list (\<open>services/occasion_service.go\<close>).
  An instant is read in the zone of \<open>now\<close>; \<open>calendarDaysBetween\<close> (\<open>services/cadence_service.go\<close>)
  rounds the distance of two midnights to whole days.
\<close>

section \<open>The countdown\<close>

text \<open>\<open>a\<close> is an instant in zone \<open>z\<close>, \<open>b\<close> one in zone \<open>zb\<close>; both days are taken to midnights of \<open>z\<close>.\<close>

definition calendarDaysBetween :: "zone \<Rightarrow> int \<Rightarrow> zone \<Rightarrow> int \<Rightarrow> int" where
  "calendarDaysBetween z a zb b =
     round_quot (sub_time (midnight z (civil_day zb b)) (midnight z (civil_day z a))) (24 * hour)"

text \<open>\<open>time.Parse\<close> of the layouts \<open>02\<close> and \<open>01\<close>; the day is checked against January of year 0.\<close>

definition parse_02 :: "string \<Rightarrow> int option" where
  "parse_02 s = (case two_digits s of None \<Rightarrow> None
     | Some d \<Rightarrow> if 1 \<le> d \<and> d \<le> 31 then Some (int d) else None)"

definition parse_01 :: "string \<Rightarrow> int option" where
  "parse_01 s = (case two_digits s of None \<Rightarrow> None
     | Some m \<Rightarrow> if 1 \<le> m \<and> m \<le> 12 then Some (int m) else None)"

definition end_month :: "string \<Rightarrow> string" where
  "end_month s = take 2 (drop (length s - 5) s)"

definition end_day :: "string \<Rightarrow> string" where
  "end_day s = drop (length s - 2) s"

definition DaysUntilBirthday :: "string \<Rightarrow> zone \<Rightarrow> int \<Rightarrow> int" where
  "DaysUntilBirthday birthday z now =
     (if length birthday < 7 then 999
      else (case (parse_02 (end_day birthday), parse_01 (end_month birthday)) of
              (Some d, Some m) \<Rightarrow>
                (let n = civil_day z now;
                     birthdayThisYear = midnight z (go_date (year_of n) m d);
                     today = midnight z (go_date (year_of n) (month_of n) (day_of n));
                     next_one = (if birthdayThisYear < today then add_date_in z birthdayThisYear 1 0 0
                                 else birthdayThisYear)
                 in calendarDaysBetween z today z next_one)
            | _ \<Rightarrow> 999))"

definition isLeapYear :: "int \<Rightarrow> bool" where
  "isLeapYear y \<longleftrightarrow> day_of_year (go_date y 12 31) + 1 = 366"

lemma isLeapYear_iff: "isLeapYear y \<longleftrightarrow> is_leap y"
proof -
  have "year_of (go_date y 12 31) = y" by (rule go_date_valid(1)) (simp_all add: days_in_month_def)
  then show ?thesis
    by (simp add: isLeapYear_def day_of_year_def go_date_def month_simps)
qed

subsection \<open>Days between midnights\<close>

lemma midnights_apart:
  assumes "regular_on z D" "a \<in> D" "b \<in> D" "\<bar>b - a\<bar> \<le> 10000"
  shows "round_quot (sub_time (midnight z b) (midnight z a)) (24 * hour) = b - a"
proof -
  define e where "e = midnight z b - midnight z a - (b - a) * nanos_per_day"
  have e: "2 * \<bar>e\<bar> < nanos_per_day" using assms(1-3) unfolding regular_on_def e_def by blast
  have eq: "midnight z b - midnight z a = (b - a) * nanos_per_day + e" by (simp add: e_def)
  have "\<bar>(b - a) * nanos_per_day\<bar> \<le> 10000 * nanos_per_day"
    unfolding abs_mult by (intro mult_mono) (use assms(4) in \<open>auto simp: dur_defs\<close>)
  then have "\<bar>midnight z b - midnight z a\<bar> < 2 ^ 63"
    unfolding eq using e by (simp add: dur_defs)
  then have "sub_time (midnight z b) (midnight z a) = (b - a) * nanos_per_day + e"
    using eq by (simp add: sub_time_exact)
  then show ?thesis
    using round_quot_near [of nanos_per_day e "b - a"] e nanos_pos by (simp add: nanos_per_day_def)
qed

lemma midnight_reads:
  "regular_on z D \<Longrightarrow> a \<in> D \<Longrightarrow> civil_day z (midnight z a) = a \<and> clock_of z (midnight z a) = 0"
  by (simp add: regular_on_def)

lemma calendarDaysBetween_midnights:
  assumes "regular_on z D" "a \<in> D" "b \<in> D" "\<bar>b - a\<bar> \<le> 10000"
  shows "calendarDaysBetween z (midnight z a) z (midnight z b) = b - a"
  using midnights_apart [OF assms] midnight_reads [OF assms(1)] assms(2,3)
  by (simp add: calendarDaysBetween_def)

text \<open>The written date: a prefix of at least two characters (a year and a dash, or two dashes).\<close>

definition month_day :: "string \<Rightarrow> int \<Rightarrow> int \<Rightarrow> string" where
  "month_day p m d = p @ pad2 (nat m) @ ''-'' @ pad2 (nat d)"

lemma month_day_parts:
  assumes "2 \<le> length p" "1 \<le> m" "m \<le> 12" "1 \<le> d" "d \<le> 31"
  shows "\<not> length (month_day p m d) < 7" "parse_01 (end_month (month_day p m d)) = Some m"
    "parse_02 (end_day (month_day p m d)) = Some d"
  using assms by (auto simp: month_day_def end_month_def end_day_def parse_01_def parse_02_def)

text \<open>The span of days the countdown may touch.\<close>

definition around :: "int \<Rightarrow> int set" where
  "around n = {n - 400 .. n + 800}"

definition target_day :: "int \<Rightarrow> int \<Rightarrow> int \<Rightarrow> int" where
  "target_day n m d =
     (let t = go_date (year_of n) m d in if t < n then add_date t 1 0 0 else t)"

lemma year_span:
  assumes "1 \<le> m" "m \<le> 12" "1 \<le> d" "d \<le> 31"
  shows "n - 366 \<le> go_date (year_of n) m d" "go_date (year_of n) m d \<le> n + 368"
proof -
  let ?y = "year_of n"
  have b: "days_before_year ?y \<le> n" "n < days_before_year ?y + 366"
    using year_of_bounds [of n] days_before_year_Suc [of ?y] by (auto split: if_splits)
  have m: "0 \<le> days_before_month ?y m" "days_before_month ?y m \<le> 366 - 28"
    using days_before_month_nonneg [OF assms(1,2), of ?y] days_before_month_end [OF assms(1,2), of ?y]
      days_in_month_bounds(1) [of ?y m] by (auto split: if_splits)
  have eq: "go_date ?y m d = days_before_year ?y + days_before_month ?y m + (d - 1)"
    using assms(1,2) by (simp add: go_date_def Let_def)
  show "n - 366 \<le> go_date ?y m d" "go_date ?y m d \<le> n + 368"
    unfolding eq using b m assms(3,4) by linarith+
qed

lemma add_year_span: "add_date t 1 0 0 \<le> t + 367" "t + 364 \<le> add_date t 1 0 0"
proof -
  let ?y = "year_of t"
  have t: "days_before_year ?y + days_before_month ?y (month_of t) + (day_of t - 1) = t"
    by (rule day_number_date)
  have a: "add_date t 1 0 0 = days_before_year (?y + 1) + days_before_month (?y + 1) (month_of t) + (day_of t - 1)"
    using month_of_bounds [of t] by (simp add: add_date_def go_date_def Let_def)
  have "days_before_month (?y + 1) (month_of t) \<le> days_before_month ?y (month_of t) + 1"
    "days_before_month ?y (month_of t) \<le> days_before_month (?y + 1) (month_of t) + 1"
    by (simp_all add: days_before_month_def)
  then show "add_date t 1 0 0 \<le> t + 367" "t + 364 \<le> add_date t 1 0 0"
    using t a days_before_year_Suc [of ?y] by (auto split: if_splits)
qed

lemma year_of_ge: "days_before_year y \<le> t \<Longrightarrow> y \<le> year_of t"
proof (rule ccontr)
  assume "days_before_year y \<le> t" "\<not> y \<le> year_of t"
  then show False
    using year_of_bounds [of t] days_before_year_mono [of "year_of t + 1" y] by simp
qed

lemma next_year_after:
  assumes "1 \<le> m" "m \<le> 12" "1 \<le> d"
  shows "n < add_date (go_date (year_of n) m d) 1 0 0"
proof -
  let ?t = "go_date (year_of n) m d"
  have "days_before_year (year_of n) \<le> ?t"
    using assms days_before_month_nonneg [OF assms(1,2)] by (simp add: go_date_def Let_def)
  then have y: "year_of n + 1 \<le> year_of ?t + 1" using year_of_ge by simp
  have "days_before_year (year_of ?t + 1) \<le> add_date ?t 1 0 0"
    using month_of_bounds [of ?t] day_of_bounds(1) [of ?t] days_before_month_nonneg
    by (simp add: add_date_def go_date_def Let_def)
  moreover have "days_before_year (year_of n + 1) \<le> days_before_year (year_of ?t + 1)"
    using days_before_year_mono [OF y] y by simp
  ultimately show ?thesis using conjunct2 [OF year_of_bounds [of n]] by (meson less_le_trans)
qed

lemma countdown_value:
  assumes "regular_on z (around n)" "n = civil_day z now"
    and "2 \<le> length p" "1 \<le> m" "m \<le> 12" "1 \<le> d" "d \<le> 31"
  shows "DaysUntilBirthday (month_day p m d) z now = target_day n m d - n"
    and "0 \<le> target_day n m d - n" "target_day n m d - n \<le> 368"
proof -
  let ?t = "go_date (year_of n) m d"
  note span = year_span [OF assms(4-7), of n] add_year_span [of ?t]
  have D: "?t \<in> around n" "n \<in> around n" "add_date ?t 1 0 0 \<in> around n"
    using span by (auto simp: around_def)
  have before: "midnight z ?t < midnight z n \<longleftrightarrow> ?t < n"
    by (rule regular_less_iff [OF assms(1) D(1,2)])
  have next_year: "add_date_in z (midnight z ?t) 1 0 0 = midnight z (add_date ?t 1 0 0)"
    using midnight_reads [OF assms(1) D(1)] by (simp add: add_date_in_def midnight_def)
  show "DaysUntilBirthday (month_day p m d) z now = target_day n m d - n"
    using month_day_parts [OF assms(3-7)] span D
    by (simp add: DaysUntilBirthday_def Let_def assms(2) [symmetric] before next_year target_day_def
        calendarDaysBetween_midnights [OF assms(1)])
  show "0 \<le> target_day n m d - n" "target_day n m d - n \<le> 368"
    using span next_year_after [OF assms(4-6), of n] by (simp_all add: target_day_def Let_def)
qed

subsection \<open>The next occurrence\<close>

lemma date_fields_go:
  assumes "month_of t = m" "day_of t = d"
  shows "t = go_date (year_of t) m d"
  using go_date_civil [of t] assms by simp

lemma add_year_common:
  assumes "1 \<le> m" "m \<le> 12" "1 \<le> d" "d \<le> days_in_month 2001 m"
  shows "add_date (go_date y m d) 1 0 0 = go_date (y + 1) m d" "year_of (go_date y m d) = y"
    "month_of (go_date y m d) = m" "day_of (go_date y m d) = d"
proof -
  have "d \<le> days_in_month y m"
    using assms(4) by (auto simp: days_in_month_def is_leap_def split: if_splits)
  note v = go_date_valid [OF assms(1-3) this]
  show "add_date (go_date y m d) 1 0 0 = go_date (y + 1) m d" "year_of (go_date y m d) = y"
    "month_of (go_date y m d) = m" "day_of (go_date y m d) = d"
    by (simp_all add: add_date_def v)
qed

lemma go_date_years_mono:
  assumes "1 \<le> m" "m \<le> 12" "1 \<le> d" "d \<le> days_in_month 2001 m" "y \<le> z"
  shows "go_date y m d \<le> go_date z m d"
proof (cases "y = z")
  case False
  then have "y < z" using assms(5) by simp
  have "go_date y m d < days_before_year (y + 1)"
    using year_of_bounds [of "go_date y m d"] add_year_common(2) [OF assms(1-4), of y] by simp
  moreover have "days_before_year z \<le> go_date z m d"
    using year_of_bounds [of "go_date z m d"] add_year_common(2) [OF assms(1-4), of z] by simp
  moreover have "days_before_year (y + 1) \<le> days_before_year z"
    using days_before_year_mono [of "y + 1" z] \<open>y < z\<close> by simp
  ultimately show ?thesis by linarith
qed simp

lemma target_day_next:
  assumes "1 \<le> m" "m \<le> 12" "1 \<le> d" "d \<le> days_in_month 2001 m"
  shows "month_of (target_day n m d) = m" "day_of (target_day n m d) = d"
    and "n \<le> k \<Longrightarrow> month_of k = m \<Longrightarrow> day_of k = d \<Longrightarrow> target_day n m d \<le> k"
proof -
  let ?y = "year_of n"
  note c = add_year_common [OF assms]
  have T: "target_day n m d = (if go_date ?y m d < n then go_date (?y + 1) m d else go_date ?y m d)"
    by (simp add: target_day_def Let_def c)
  show "month_of (target_day n m d) = m" "day_of (target_day n m d) = d"
    by (simp_all add: T c)
  assume k: "n \<le> k" "month_of k = m" "day_of k = d"
  have k': "k = go_date (year_of k) m d" by (rule date_fields_go [OF k(2,3)])
  have y: "?y \<le> year_of k"
    using year_of_ge [of ?y k] year_of_bounds [of n] k(1) by simp
  show "target_day n m d \<le> k"
  proof (cases "go_date ?y m d < n")
    case True
    then have "year_of k \<noteq> ?y" using k(1) k' by auto
    then have "go_date (?y + 1) m d \<le> go_date (year_of k) m d"
      using y by (intro go_date_years_mono [OF assms]) simp
    then show ?thesis using True k' by (simp add: T)
  next
    case False
    then show ?thesis using go_date_years_mono [OF assms y] k' by (simp add: T)
  qed
qed

text \<open>C7: for every date that exists in every year the countdown is the number of days to the first
  day, today or later, that carries that month and day, whatever daylight saving does in between.\<close>

theorem countdown_next_occurrence:
  assumes "regular_on z (around (civil_day z now))"
    and "2 \<le> length p" "1 \<le> m" "m \<le> 12" "1 \<le> d" "d \<le> days_in_month 2001 m"
    and "k = DaysUntilBirthday (month_day p m d) z now"
  shows "0 \<le> k \<and> month_of (civil_day z now + k) = m \<and> day_of (civil_day z now + k) = d \<and>
     (\<forall>j. 0 \<le> j \<and> month_of (civil_day z now + j) = m \<and> day_of (civil_day z now + j) = d \<longrightarrow> k \<le> j)"
proof -
  let ?n = "civil_day z now"
  have d: "d \<le> 31" using assms(6) days_in_month_bounds(2) [of 2001 m] by simp
  have k: "k = target_day ?n m d - ?n"
    using countdown_value(1) [OF assms(1) refl assms(2-5) d] assms(7) by simp
  have "0 \<le> k" using countdown_value(2) [OF assms(1) refl assms(2-5) d] k by simp
  moreover have "k \<le> j" if "0 \<le> j" "month_of (?n + j) = m" "day_of (?n + j) = d" for j
    using target_day_next(3) [OF assms(3-6), of ?n "?n + j"] that k by simp
  ultimately show ?thesis
    using target_day_next(1,2) [OF assms(3-6)] k by simp
qed

lemma countdown_next_occurrence_witness:
  "month_of (civil_day utc 0 + DaysUntilBirthday (month_day ''--'' 12 25) utc 0) = 12"
  using countdown_next_occurrence [OF regular_utc _ _ _ _ _ refl, of "''--''" 12 25 0]
  by (simp add: days_in_month_def)

text \<open>29 February. Before it in a leap year the countdown aims at it; in a common year, up to and on
  1 March, at 1 March.\<close>

lemma leap_target:
  "is_leap (year_of n) \<Longrightarrow> n \<le> go_date (year_of n) 2 29 \<Longrightarrow>
     target_day n 2 29 = go_date (year_of n) 2 29"
  "\<not> is_leap (year_of n) \<Longrightarrow> n \<le> go_date (year_of n) 3 1 \<Longrightarrow>
     target_day n 2 29 = go_date (year_of n) 3 1"
  by (simp_all add: target_day_def Let_def go_date_def month_simps)

text \<open>Once 1 March of a common year has passed, the countdown to a 29 February birthday aims at
  1 March of the next year even when that year is a leap year and has a 29 February: one day late.\<close>

lemma leap_birthday_one_day_late:
  assumes "regular_on z (around (civil_day z now))" "2 \<le> length p"
    and "\<not> is_leap (year_of (civil_day z now))" "is_leap (year_of (civil_day z now) + 1)"
    and "go_date (year_of (civil_day z now)) 3 1 < civil_day z now"
  shows "DaysUntilBirthday (month_day p 2 29) z now =
     go_date (year_of (civil_day z now) + 1) 2 29 - civil_day z now + 1"
proof -
  let ?n = "civil_day z now"
  have t: "go_date (year_of ?n) 2 29 = go_date (year_of ?n) 3 1"
    using assms(3) by (simp add: go_date_def month_simps)
  have v: "year_of (go_date (year_of ?n) 3 1) = year_of ?n" "month_of (go_date (year_of ?n) 3 1) = 3"
    "day_of (go_date (year_of ?n) 3 1) = 1"
    by (rule go_date_valid; simp add: days_in_month_def)+
  have "target_day ?n 2 29 = go_date (year_of ?n + 1) 3 1"
    using assms(5) by (simp add: target_day_def t add_date_def v)
  also have "\<dots> = go_date (year_of ?n + 1) 2 29 + 1"
    using assms(4) by (simp add: go_date_def month_simps)
  finally show ?thesis
    using countdown_value(1) [OF assms(1) refl assms(2), of 2 29] by simp
qed

lemma leap_birthday_one_day_late_witness:
  "DaysUntilBirthday (month_day ''--'' 2 29) utc (nanos_per_day * 738700) =
     go_date 2024 2 29 - 738700 + 1"
proof -
  have n: "civil_day utc (nanos_per_day * 738700) = 738700" by (simp add: utc_def dur_defs)
  have y: "year_of 738700 = 2023" by code_simp
  have m: "go_date 2023 3 1 < 738700" by code_simp
  show ?thesis
    using leap_birthday_one_day_late [OF regular_utc, of "''--''" "nanos_per_day * 738700"] m
    by (simp add: n y is_leap_def)
qed

section \<open>The dashboard list\<close>

text \<open>\<open>SUBSTR(s, p, k)\<close> of the database for \<open>k \<ge> 0\<close>: positions count from 1, a negative one from the
  end, and what lies before the string is cut off the length.\<close>

definition sql_substr :: "string \<Rightarrow> int \<Rightarrow> nat \<Rightarrow> string" where
  "sql_substr s p k =
     (let n = int (length s); start = (if p < 0 then n + p else if 0 < p then p - 1 else - 1)
      in if start < 0 then take (nat (int k + start)) s else take k (drop (nat start) s))"

record birthday_entry =
  be_name :: string
  be_birthday :: string
  be_photo_thumbnail :: string
  be_contact :: nat

definition month_window :: "zone \<Rightarrow> int \<Rightarrow> string \<Rightarrow> bool" where
  "month_window z now birthday =
     (let n = civil_day z now; y = year_of n; mo = month_of n; len = int (length birthday);
          currentDay = pad2 (nat (day_of n)); currentMonth = pad2 (nat mo);
          nextMonth = pad2 (nat (month_of (go_date y (mo + 1) 1)));
          bm = sql_substr birthday (len - 4) 2; bd = sql_substr birthday (len - 1) 2
      in (bm = currentMonth \<and> currentDay \<le> bd) \<or> bm = nextMonth \<or>
         (mo = 3 \<and> day_of n = 1 \<and> \<not> isLeapYear y \<and> bm = ''02'' \<and> bd = ''29''))"

definition contactDisplayName :: "contact \<Rightarrow> string" where
  "contactDisplayName c =
     (let name = (if con_nickname c \<noteq> [] then con_nickname c else con_firstname c)
      in if con_lastname c \<noteq> [] then name @ '' '' @ con_lastname c else name)"

definition entry_of :: "contact \<Rightarrow> birthday_entry" where
  "entry_of c = \<lparr>be_name = contactDisplayName c, be_birthday = con_birthday c,
     be_photo_thumbnail = con_photo_thumbnail c, be_contact = con_id c\<rparr>"

text \<open>The counting loop: \<open>i\<close> is the index, \<open>rc\<close> the result count so far.\<close>

fun upcoming_count :: "int list \<Rightarrow> nat \<Rightarrow> nat \<Rightarrow> nat" where
  "upcoming_count [] i rc = rc"
| "upcoming_count (days # ds) i rc =
     (if days \<le> 14 then upcoming_count ds (i + 1) (i + 1)
      else if rc < 5 then upcoming_count ds (i + 1) (i + 1)
      else rc)"

text \<open>The sort is not stable in the source; the stable one stands for it, and nothing below depends on
  the order of equal keys.\<close>

definition GetUpcomingBirthdays :: "contact list \<Rightarrow> nat \<Rightarrow> zone \<Rightarrow> int \<Rightarrow> birthday_entry list" where
  "GetUpcomingBirthdays contacts u z now =
     (let found = filter (\<lambda>c. con_user c = u \<and> \<not> con_archived c \<and> con_birthday c \<noteq> [] \<and>
                             month_window z now (con_birthday c)) contacts;
          entries = map entry_of (filter (\<lambda>c. \<not> IsDeceased (con_card c)) found);
          days = (\<lambda>b. DaysUntilBirthday (be_birthday b) z now);
          ordered = stable_sort_by (\<lambda>a b. days a < days b) entries;
          resultCount = upcoming_count (map days ordered) 0 0
      in if resultCount < length ordered then take resultCount ordered else ordered)"

subsection \<open>The cut\<close>

text \<open>On a sorted list the loop keeps everything within two weeks, and at least five entries.\<close>

lemma upcoming_count_sorted:
  "sorted ds \<Longrightarrow>
     upcoming_count ds i i = i + max (length (filter (\<lambda>d. d \<le> 14) ds)) (min (5 - i) (length ds))"
proof (induction ds arbitrary: i)
  case (Cons d ds)
  have IH: "upcoming_count ds (Suc i) (Suc i)
      = Suc i + max (length (filter (\<lambda>d. d \<le> 14) ds)) (min (5 - Suc i) (length ds))"
    using Cons by simp
  show ?case
  proof (cases "d \<le> 14")
    case True
    then show ?thesis by (simp add: IH)
  next
    case False
    then have "filter (\<lambda>d. d \<le> 14) ds = []" using Cons.prems by (auto simp: filter_empty_conv)
    then show ?thesis using False IH by (auto simp: min_def)
  qed
qed simp

lemma filter_take_all:
  fixes k :: "'a \<Rightarrow> int"
  assumes "sorted (map k xs)" "length (filter (\<lambda>x. k x \<le> b) xs) \<le> c"
  shows "filter (\<lambda>x. k x \<le> b) (take c xs) = filter (\<lambda>x. k x \<le> b) xs"
  using assms
proof (induction xs arbitrary: c)
  case (Cons x xs)
  show ?case
  proof (cases "k x \<le> b")
    case True
    then show ?thesis using Cons.prems Cons.IH [of "c - 1"] by (cases c) simp_all
  next
    case False
    then have "\<not> k y \<le> b" if "y \<in> set (x # xs)" for y using Cons.prems(1) that by auto
    then have "filter (\<lambda>x. k x \<le> b) (x # xs) = []" "filter (\<lambda>x. k x \<le> b) (take c (x # xs)) = []"
      by (auto simp: filter_empty_conv dest: in_set_takeD)
    then show ?thesis by simp
  qed
qed simp

definition candidates :: "contact list \<Rightarrow> nat \<Rightarrow> zone \<Rightarrow> int \<Rightarrow> birthday_entry list" where
  "candidates contacts u z now = map entry_of (filter (\<lambda>c. con_user c = u \<and> \<not> con_archived c \<and>
     con_birthday c \<noteq> [] \<and> month_window z now (con_birthday c) \<and> \<not> IsDeceased (con_card c)) contacts)"

lemma upcoming_alt:
  fixes z now u contacts
  defines "days \<equiv> \<lambda>b. DaysUntilBirthday (be_birthday b) z now"
  defines "ordered \<equiv> stable_sort_by (\<lambda>a b. days a < days b) (candidates contacts u z now)"
  shows "GetUpcomingBirthdays contacts u z now =
     take (max (length (filter (\<lambda>b. days b \<le> 14) ordered)) (min 5 (length ordered))) ordered"
proof -
  have "sorted (map days ordered)" unfolding ordered_def by (rule sorted_stable_sort_by)
  then have c: "upcoming_count (map days ordered) 0 0
      = max (length (filter (\<lambda>b. days b \<le> 14) ordered)) (min 5 (length ordered))"
    by (subst upcoming_count_sorted) (simp_all add: filter_map o_def)
  have found: "map entry_of (filter (\<lambda>c. \<not> IsDeceased (con_card c))
      (filter (\<lambda>c. con_user c = u \<and> \<not> con_archived c \<and> con_birthday c \<noteq> [] \<and>
         month_window z now (con_birthday c)) contacts)) = candidates contacts u z now"
    by (simp add: candidates_def conj_ac)
  show ?thesis
    using c unfolding GetUpcomingBirthdays_def Let_def found days_def [symmetric] ordered_def [symmetric]
    by auto
qed

lemma upcoming_near:
  fixes z now
  defines "days \<equiv> \<lambda>b. DaysUntilBirthday (be_birthday b) z now"
  shows "filter (\<lambda>b. days b \<le> 14) (GetUpcomingBirthdays contacts u z now) =
     filter (\<lambda>b. days b \<le> 14) (stable_sort_by (\<lambda>a b. days a < days b) (candidates contacts u z now))"
  unfolding days_def upcoming_alt by (rule filter_take_all [OF sorted_stable_sort_by]) simp

text \<open>The dashboard list is in order of days left, keeps every candidate within two weeks, and is
  cut at five entries otherwise.\<close>

lemma upcoming_birthdays_cut:
  defines "days \<equiv> \<lambda>z now b. DaysUntilBirthday (be_birthday b) z now"
  shows "sorted (map (days z now) (GetUpcomingBirthdays contacts u z now)) \<and>
     mset (filter (\<lambda>b. days z now b \<le> 14) (GetUpcomingBirthdays contacts u z now)) =
       mset (filter (\<lambda>b. days z now b \<le> 14) (candidates contacts u z now)) \<and>
     length (GetUpcomingBirthdays contacts u z now) =
       max (length (filter (\<lambda>b. days z now b \<le> 14) (candidates contacts u z now)))
           (min 5 (length (candidates contacts u z now)))"
proof -
  let ?k = "days z now"
  let ?o = "stable_sort_by (\<lambda>a b. ?k a < ?k b) (candidates contacts u z now)"
  let ?near = "filter (\<lambda>b. ?k b \<le> 14)"
  let ?c = "max (length (?near ?o)) (min 5 (length ?o))"
  have up: "GetUpcomingBirthdays contacts u z now = take ?c ?o"
    unfolding days_def by (rule upcoming_alt)
  have s: "sorted (map ?k ?o)" by (rule sorted_stable_sort_by)
  have near: "mset (?near ?o) = mset (?near (candidates contacts u z now))" by simp
  have len: "length (?near ?o) = length (?near (candidates contacts u z now))"
    using arg_cong [OF near, of size] by (simp only: size_mset)
  have "?near (take ?c ?o) = ?near ?o" using upcoming_near [of z now contacts u] up by (simp add: days_def)
  moreover have "sorted (map ?k (take ?c ?o))" using s by (simp add: take_map [symmetric] sorted_wrt_take)
  moreover have "length (take ?c ?o) = ?c" using length_filter_le [of "\<lambda>b. ?k b \<le> 14" ?o] by auto
  ultimately show ?thesis unfolding up by (simp only: near len length_stable_sort_by)
qed

subsection \<open>The month window\<close>

lemma window_parts:
  assumes "2 \<le> length p" "1 \<le> m" "m \<le> 12" "1 \<le> d" "d \<le> 31"
  shows "sql_substr (month_day p m d) (int (length (month_day p m d)) - 4) 2 = pad2 (nat m)"
    "sql_substr (month_day p m d) (int (length (month_day p m d)) - 1) 2 = pad2 (nat d)"
  using assms by (simp_all add: sql_substr_def month_day_def nat_add_distrib nat_diff_distrib)

lemma digit_char_mono: "a < b \<Longrightarrow> b < 10 \<Longrightarrow> digit_char a < digit_char b"
  by (simp add: digit_char_def less_char_def)

lemma pad2_mono: "a \<le> b \<Longrightarrow> b < 100 \<Longrightarrow> pad2 a \<le> pad2 b"
proof -
  assume "a \<le> b" "b < 100"
  then have "a div 10 \<le> b div 10" "b div 10 < 10" by (simp_all add: div_le_mono)
  moreover have "a mod 10 \<le> b mod 10" if "a div 10 = b div 10"
    using that \<open>a \<le> b\<close> div_mult_mod_eq [of a 10] div_mult_mod_eq [of b 10] by linarith
  ultimately have "a div 10 < b div 10 \<and> b div 10 < 10 \<or> a div 10 = b div 10 \<and> a mod 10 \<le> b mod 10"
    using nat_less_le by blast
  then show ?thesis
    using digit_char_mono [of "a div 10" "b div 10"] digit_char_mono [of "a mod 10" "b mod 10"]
    by (auto simp: pad2_def order_le_less)
qed

lemma window_iff:
  assumes "2 \<le> length p" "1 \<le> m" "m \<le> 12" "1 \<le> d" "d \<le> 31" "n = civil_day z now"
    and "m = month_of n \<and> day_of n \<le> d \<or> m = month_of (go_date (year_of n) (month_of n + 1) 1) \<or>
         (month_of n = 3 \<and> day_of n = 1 \<and> \<not> is_leap (year_of n) \<and> m = 2 \<and> d = 29)"
  shows "month_window z now (month_day p m d)"
proof -
  have d: "pad2 (nat (day_of n)) \<le> pad2 (nat d)" if "day_of n \<le> d"
    using that assms(5) day_of_bounds(1) [of n] by (intro pad2_mono) auto
  have two: "pad2 (nat 2) = ''02''" "pad2 (nat 29) = ''29''" by code_simp+
  show ?thesis
    using assms(7) d two
    unfolding month_window_def Let_def window_parts [OF assms(1-5)] assms(6) [symmetric] isLeapYear_iff
    by auto
qed

text \<open>A day at most two weeks away lies in this month or in the next.\<close>

lemma year_month_unique:
  fixes y m y' m' :: int
  assumes "12 * y + m = 12 * y' + m'" "1 \<le> m" "m \<le> 12" "1 \<le> m'" "m' \<le> 12"
  shows "y = y' \<and> m = m'"
  using assms by presburger

lemma near_month:
  assumes "n \<le> t" "t \<le> n + 14"
  shows "month_of t = month_of n \<and> year_of t = year_of n \<and> day_of n \<le> day_of t \<or>
     month_of t = month_of (go_date (year_of n) (month_of n + 1) 1)"
proof -
  let ?M = "month_index n" and ?N = "month_index t"
  have start: "first_of (month_index x) \<le> x \<and> x < first_of (month_index x + 1)" for x
  proof
    have "x = go_date (year_of x) (month_of x) (day_of x)" by simp
    also have "\<dots> = first_of (month_index x) + day_of x - 1"
      by (simp only: go_date_month_index) (simp add: month_index_def)
    finally show "first_of (month_index x) \<le> x" using day_of_bounds(1) [of x] by linarith
  qed (rule before_next_month)
  have "?M \<le> ?N"
  proof (rule ccontr)
    assume "\<not> ?M \<le> ?N"
    then have "first_of (?N + 1) \<le> first_of ?M" by (intro first_of_mono) simp
    then show False using start [of t] start [of n] assms by linarith
  qed
  moreover have "?N \<le> ?M + 1"
  proof (rule ccontr)
    assume "\<not> ?N \<le> ?M + 1"
    then have "first_of (?M + 2) \<le> first_of ?N" by (intro first_of_mono) simp
    moreover have "first_of (?M + 1) + 28 \<le> first_of (?M + 2)"
      using first_of_Suc [of "?M + 1"] by (simp add: algebra_simps)
    ultimately show False using start [of t] start [of n] assms by linarith
  qed
  ultimately consider "?N = ?M" | "?N = ?M + 1" by linarith
  then show ?thesis
  proof cases
    case 1
    then have "year_of t = year_of n" "month_of t = month_of n"
      using month_of_bounds [of t] month_of_bounds [of n]
        year_month_unique [of "year_of t" "month_of t" "year_of n" "month_of n"]
      by (simp_all add: month_index_def)
    then show ?thesis
      using day_number_date [of t] day_number_date [of n] assms(1) by simp
  next
    case 2
    have "go_date (year_of n) (month_of n + 1) 1 = first_of (?M + 1)"
      by (simp add: go_date_month_index month_index_def algebra_simps)
    also have "\<dots> = go_date (year_of t) (month_of t) 1"
      unfolding 2 [symmetric] by (simp add: go_date_month_index month_index_def)
    finally have "month_of (go_date (year_of n) (month_of n + 1) 1) = month_of (go_date (year_of t) (month_of t) 1)"
      by simp
    also have "\<dots> = month_of t"
      using month_of_bounds [of t] days_in_month_bounds(1) [of "year_of t" "month_of t"]
      by (intro go_date_valid(2)) auto
    finally show ?thesis by simp
  qed
qed

lemma month_of_next:
  "month_of (go_date (year_of n) (month_of n + 1) 1) = (if month_of n = 12 then 1 else month_of n + 1)"
proof (cases "month_of n = 12")
  case True
  have "go_date (year_of n) 13 1 = go_date (year_of n + 1) 1 1" by (simp add: go_date_def)
  moreover have "month_of (go_date (year_of n + 1) 1 1) = 1"
    by (rule go_date_valid(2)) (simp_all add: days_in_month_def)
  ultimately show ?thesis using True by simp
next
  case False
  then show ?thesis
    using month_of_bounds [of n] days_in_month_bounds(1) [of "year_of n" "month_of n + 1"]
    by (auto intro!: go_date_valid(2))
qed

lemma march_first: "year_of (go_date y 3 1) = y" "month_of (go_date y 3 1) = 3" "day_of (go_date y 3 1) = 1"
  by (rule go_date_valid; simp add: days_in_month_def)+

lemma far_march: "n + 14 < go_date (year_of n + 1) 3 1"
  using conjunct2 [OF year_of_bounds [of n]] by (simp add: go_date_def month_simps Let_def)

lemma leap_day_window:
  assumes "target_day n 2 29 - n \<le> 14"
  shows "month_of n = 2 \<or> 2 = month_of (go_date (year_of n) (month_of n + 1) 1) \<or>
     month_of n = 3 \<and> day_of n = 1 \<and> \<not> is_leap (year_of n)"
    and "month_of n = 2 \<longrightarrow> day_of n \<le> 29"
proof -
  let ?y = "year_of n"
  show "month_of n = 2 \<longrightarrow> day_of n \<le> 29"
    using day_of_bounds(2) [of n] by (auto simp: days_in_month_def split: if_splits)
  show "month_of n = 2 \<or> 2 = month_of (go_date ?y (month_of n + 1) 1) \<or>
     month_of n = 3 \<and> day_of n = 1 \<and> \<not> is_leap ?y"
  proof (cases "is_leap ?y")
    case True
    have v: "year_of (go_date ?y 2 29) = ?y" "month_of (go_date ?y 2 29) = 2" "day_of (go_date ?y 2 29) = 29"
      using True by (intro go_date_valid; simp add: days_in_month_def)+
    have "?y mod 4 = 0" using True by (simp add: is_leap_def)
    then have "(?y + 1) mod 4 = 1" by presburger
    then have l: "\<not> is_leap (?y + 1)" by (simp add: is_leap_def)
    show ?thesis
    proof (cases "go_date ?y 2 29 < n")
      case True
      then have "target_day n 2 29 = go_date (?y + 1) 3 1"
        using l by (simp add: target_day_def Let_def add_date_def v) (simp add: go_date_def month_simps)
      then show ?thesis using assms far_march [of n] by simp
    next
      case False
      then have "target_day n 2 29 = go_date ?y 2 29" by (simp add: target_day_def Let_def)
      then show ?thesis using near_month [of n "go_date ?y 2 29"] False assms v by auto
    qed
  next
    case False
    have t: "go_date ?y 2 29 = go_date ?y 3 1" using False by (simp add: go_date_def month_simps)
    show ?thesis
    proof (cases "go_date ?y 3 1 < n")
      case True
      then have "target_day n 2 29 = go_date (?y + 1) 3 1"
        by (simp add: target_day_def Let_def t add_date_def march_first)
      then show ?thesis using assms far_march [of n] by simp
    next
      case le: False
      then have "target_day n 2 29 = go_date ?y 3 1" by (simp add: target_day_def t)
      then show ?thesis
        using near_month [of n "go_date ?y 3 1"] le assms False day_of_bounds(1) [of n] month_of_next [of n]
        by (auto simp: march_first split: if_splits)
    qed
  qed
qed

text \<open>No birthday within two weeks is missed: the month window of the query together with its
  1 March clause selects every real date (29 February included) that the countdown puts within
  fourteen days, over month and year ends.\<close>

lemma upcoming_birthdays_complete:
  assumes "regular_on z (around (civil_day z now))"
    and "c \<in> set contacts" "con_user c = u" "\<not> con_archived c" "\<not> IsDeceased (con_card c)"
    and "con_birthday c = month_day p m d" "2 \<le> length p" "1 \<le> m" "m \<le> 12" "1 \<le> d" "d \<le> days_in_month 2000 m"
    and "DaysUntilBirthday (con_birthday c) z now \<le> 14"
  shows "entry_of c \<in> set (GetUpcomingBirthdays contacts u z now)"
proof -
  let ?n = "civil_day z now"
  have d: "d \<le> 31" using assms(11) days_in_month_bounds(2) [of 2000 m] by simp
  have k: "target_day ?n m d - ?n \<le> 14" "0 \<le> target_day ?n m d - ?n"
    using countdown_value [OF assms(1) refl assms(7-10) d] assms(6,12) by simp_all
  have "month_window z now (con_birthday c)"
  proof (cases "d \<le> days_in_month 2001 m")
    case True
    note t = target_day_next(1,2) [OF assms(8-10) True, of ?n]
    show ?thesis
      unfolding assms(6) using near_month [of ?n "target_day ?n m d"] k t
      by (intro window_iff [OF assms(7-10) d refl]) auto
  next
    case False
    then have "m = 2" "d = 29" using assms(11) by (auto simp: days_in_month_def is_leap_def split: if_splits)
    then show ?thesis
      unfolding assms(6) using leap_day_window [of ?n] k
      by (intro window_iff [OF assms(7-10) d refl]) auto
  qed
  moreover have "con_birthday c \<noteq> []" using assms(6) by (simp add: month_day_def)
  ultimately have "entry_of c \<in> set (candidates contacts u z now)"
    using assms(2-5) by (auto simp: candidates_def)
  moreover have "DaysUntilBirthday (be_birthday (entry_of c)) z now \<le> 14"
    using assms(12) by (simp add: entry_of_def)
  ultimately have "entry_of c \<in> set (filter (\<lambda>b. DaysUntilBirthday (be_birthday b) z now \<le> 14)
      (GetUpcomingBirthdays contacts u z now))"
    unfolding upcoming_near by simp
  then show ?thesis by simp
qed

definition leapling :: contact where
  "leapling = blank_contact\<lparr>con_id := 7, con_user := 1, con_firstname := ''Ada'',
     con_birthday := month_day ''2000-'' 2 29\<rparr>"

lemma upcoming_birthdays_complete_witness:
  "entry_of leapling \<in> set (GetUpcomingBirthdays [leapling] 1 utc (nanos_per_day * 738578))"
proof -
  have n: "civil_day utc (nanos_per_day * 738578) = 738578" by (simp add: utc_def dur_defs)
  have "target_day 738578 2 29 = 738579" by code_simp
  then have k: "DaysUntilBirthday (month_day ''2000-'' 2 29) utc (nanos_per_day * 738578) = 1"
    using countdown_value(1) [OF regular_utc, of 738578 "nanos_per_day * 738578" "''2000-''" 2 29] n by simp
  show ?thesis
    by (rule upcoming_birthdays_complete [where p = "''2000-''" and m = 2 and d = 29])
      (simp_all add: regular_utc leapling_def blank_contact_def k IsDeceased_def DeathAnniversary_def
        empty_card_def days_in_month_def is_leap_def)
qed

end
