(* ===== verification/Occasions.thy ===== *)
theory Occasions imports Birthdays "HOL-Library.Product_Lexorder" begin

text \<open>
  Upcoming occasions and the gift list (\<open>backend/services/occasion_service.go\<close>): annual dates from four
  sources resolved to their next occurrence, and the gifts matched to standing obligations. The tables
  are lists of their live rows, in the order the database returns them.
\<close>

section \<open>Resolution\<close>

definition lifeEventHasMonthDay :: "partial_date option \<Rightarrow> bool" where
  "lifeEventHasMonthDay d =
     (case d of None \<Rightarrow> False
      | Some x \<Rightarrow> (case (pd_month x, pd_day x) of
           (Some m, Some day) \<Rightarrow>
             \<not> (m < 1 \<or> m > 12 \<or> day < 1 \<or> day > 31) \<and> month_of (go_date 2000 m day) = m
         | _ \<Rightarrow> False))"

definition resolveAnnualOccurrence :: "int \<Rightarrow> int \<Rightarrow> zone \<Rightarrow> int \<Rightarrow> (int \<times> string) option" where
  "resolveAnnualOccurrence month day z now =
     (let daysUntil = DaysUntilBirthday (''--'' @ fmt_0d 2 month @ ''-'' @ fmt_0d 2 day) z now;
          today = midnight z (go_date (year_of (civil_day z now)) (month_of (civil_day z now)) (day_of (civil_day z now)))
      in if 999 \<le> daysUntil then None
         else Some (daysUntil, fmt_iso (civil_day z (add_date_in z today 0 0 daysUntil))))"

definition occasionDateMonthDay :: "string \<Rightarrow> (int \<times> int) option" where
  "occasionDateMonthDay v =
     (if length v < 7 then None
      else (case (parse_01 (end_month v), parse_02 (end_day v)) of
              (Some m, Some d) \<Rightarrow> Some (m, d) | _ \<Rightarrow> None))"

section \<open>Tables\<close>

record life_event =
  le_user :: nat
  le_entity :: string
  le_type :: string
  le_date :: "partial_date option"
  le_remind :: bool

record obligation =
  ob_id :: string
  ob_user :: nat
  ob_entity :: string
  ob_kind :: string
  ob_label :: string
  ob_anchor_month :: "int option"
  ob_anchor_day :: "int option"
  ob_linked_life_event :: string
  ob_active :: bool
  ob_sensitivity :: string

record gift =
  gf_id :: string
  gf_user :: nat
  gf_entity :: string
  gf_status :: string
  gf_date :: "int option"
  gf_created :: int
  gf_life_event :: string

record occasion_db =
  od_contacts :: "contact list"
  od_events :: "life_event list"
  od_obligations :: "obligation list"
  od_gifts :: "gift list"

record upcoming_occasion =
  uo_contact :: nat
  uo_name :: string
  uo_source :: string
  uo_label :: string
  uo_date :: string
  uo_days :: int
  uo_kind :: string

section \<open>Upcoming occasions\<close>

definition contactsByVCardUID :: "occasion_db \<Rightarrow> nat \<Rightarrow> string list \<Rightarrow> string \<Rightarrow> contact option" where
  "contactsByVCardUID db u uids uid =
     find (\<lambda>c. con_vcard_uid c = uid)
       (rev (filter (\<lambda>c. con_user c = u \<and> con_vcard_uid c \<in> set (filter (\<lambda>x. x \<noteq> []) uids)) (od_contacts db)))"

definition occasion_within :: "int \<Rightarrow> (int \<times> string) option \<Rightarrow> (int \<Rightarrow> string \<Rightarrow> upcoming_occasion) \<Rightarrow>
    upcoming_occasion list" where
  "occasion_within days r mk =
     (case r of None \<Rightarrow> [] | Some (k, date) \<Rightarrow> if k \<le> days then [mk k date] else [])"

definition scalar_occasion :: "zone \<Rightarrow> int \<Rightarrow> int \<Rightarrow> contact \<Rightarrow> string \<Rightarrow> string \<Rightarrow> upcoming_occasion list" where
  "scalar_occasion z now days c source v =
     (if v = [] then []
      else (case occasionDateMonthDay v of None \<Rightarrow> []
        | Some (m, d) \<Rightarrow> occasion_within days (resolveAnnualOccurrence m d z now)
            (\<lambda>k date. \<lparr>uo_contact = con_id c, uo_name = contactDisplayName c, uo_source = source,
               uo_label = contactDisplayName c, uo_date = date, uo_days = k, uo_kind = []\<rparr>)))"

definition event_occasion :: "occasion_db \<Rightarrow> nat \<Rightarrow> zone \<Rightarrow> int \<Rightarrow> int \<Rightarrow> string list \<Rightarrow> life_event \<Rightarrow>
    upcoming_occasion list" where
  "event_occasion db u z now days uids e =
     (case (if lifeEventHasMonthDay (le_date e) then le_date e else None) of None \<Rightarrow> []
      | Some x \<Rightarrow> (case contactsByVCardUID db u uids (le_entity e) of None \<Rightarrow> []
         | Some c \<Rightarrow> occasion_within days
             (resolveAnnualOccurrence (the (pd_month x)) (the (pd_day x)) z now)
             (\<lambda>k date. \<lparr>uo_contact = con_id c, uo_name = contactDisplayName c, uo_source = ''life_event'',
                uo_label = le_type e, uo_date = date, uo_days = k, uo_kind = []\<rparr>)))"

definition obligation_due :: "nat \<Rightarrow> bool \<Rightarrow> obligation \<Rightarrow> bool" where
  "obligation_due u sens o1 \<longleftrightarrow> ob_user o1 = u \<and> ob_active o1 \<and> ob_anchor_month o1 \<noteq> None \<and>
     ob_anchor_day o1 \<noteq> None \<and> (sens \<or> ob_sensitivity o1 = ''normal'')"

definition obligation_occasion :: "occasion_db \<Rightarrow> nat \<Rightarrow> zone \<Rightarrow> int \<Rightarrow> int \<Rightarrow> string list \<Rightarrow> obligation \<Rightarrow>
    upcoming_occasion list" where
  "obligation_occasion db u z now days uids o1 =
     (case contactsByVCardUID db u uids (ob_entity o1) of None \<Rightarrow> []
      | Some c \<Rightarrow> occasion_within days
          (resolveAnnualOccurrence (the (ob_anchor_month o1)) (the (ob_anchor_day o1)) z now)
          (\<lambda>k date. \<lparr>uo_contact = con_id c, uo_name = contactDisplayName c, uo_source = ''obligation'',
             uo_label = ob_label o1, uo_date = date, uo_days = k, uo_kind = ob_kind o1\<rparr>))"

definition GetUpcomingOccasions :: "occasion_db \<Rightarrow> nat \<Rightarrow> zone \<Rightarrow> int \<Rightarrow> int \<Rightarrow> bool \<Rightarrow> upcoming_occasion list" where
  "GetUpcomingOccasions db u z now days includeSensitive =
     (let contacts = filter (\<lambda>c. con_user c = u \<and> \<not> con_archived c \<and>
                               (con_birthday c \<noteq> [] \<or> con_anniversary c \<noteq> [])) (od_contacts db);
          scalars = concat (map (\<lambda>c. scalar_occasion z now days c ''birthday'' (con_birthday c) @
                                     scalar_occasion z now days c ''anniversary'' (con_anniversary c)) contacts);
          events = filter (\<lambda>e. le_user e = u \<and> le_remind e) (od_events db);
          from_events = concat (map (event_occasion db u z now days (map le_entity events)) events);
          obligations = filter (obligation_due u includeSensitive) (od_obligations db);
          from_obligations = concat (map (obligation_occasion db u z now days (map ob_entity obligations)) obligations)
      in stable_sort_by (\<lambda>a b. (uo_days a, uo_contact a) < (uo_days b, uo_contact b))
           (scalars @ from_events @ from_obligations))"

section \<open>Gifts\<close>

definition giftMatchWindowDays :: int where "giftMatchWindowDays = 330"

definition gift_ref :: "gift \<Rightarrow> int" where
  "gift_ref g = (case gf_date g of None \<Rightarrow> gf_created g | Some t \<Rightarrow> t)"

fun latest_gift :: "int \<Rightarrow> int \<Rightarrow> gift list \<Rightarrow> gift option \<Rightarrow> gift option" where
  "latest_gift start now [] best = best"
| "latest_gift start now (g # gs) best =
     (if gift_ref g < start \<or> now < gift_ref g then latest_gift start now gs best
      else latest_gift start now gs
        (case best of None \<Rightarrow> Some g | Some b \<Rightarrow> if gift_ref b < gift_ref g then Some g else Some b))"

definition matchGiftForObligation :: "gift list \<Rightarrow> obligation \<Rightarrow> int \<Rightarrow> int \<Rightarrow> gift option" where
  "matchGiftForObligation cands o1 windowStart now =
     (case (if ob_linked_life_event o1 \<noteq> []
            then find (\<lambda>g. gf_life_event g = ob_linked_life_event o1) cands else None) of
        Some g \<Rightarrow> Some g
      | None \<Rightarrow> latest_gift windowStart now cands None)"

record gift_item =
  gi_contact :: nat
  gi_name :: string
  gi_obligation :: string
  gi_label :: string
  gi_date :: string
  gi_days :: int
  gi_status :: string
  gi_gift :: string

definition gift_due :: "nat \<Rightarrow> bool \<Rightarrow> obligation \<Rightarrow> bool" where
  "gift_due u sens o1 \<longleftrightarrow> obligation_due u sens o1 \<and> ob_kind o1 = ''gift''"

definition gift_row :: "occasion_db \<Rightarrow> nat \<Rightarrow> zone \<Rightarrow> int \<Rightarrow> int \<Rightarrow> string list \<Rightarrow> obligation \<Rightarrow> gift_item list" where
  "gift_row db u z now days uids o1 =
     (case contactsByVCardUID db u uids (ob_entity o1) of None \<Rightarrow> []
      | Some c \<Rightarrow> (case resolveAnnualOccurrence (the (ob_anchor_month o1)) (the (ob_anchor_day o1)) z now of None \<Rightarrow> []
         | Some (k, date) \<Rightarrow> if days < k then []
             else (let gifts = filter (\<lambda>g. gf_user g = u \<and> gf_entity g = ob_entity o1) (od_gifts db);
                       m = matchGiftForObligation gifts o1 (add_date_in z now 0 0 (- giftMatchWindowDays)) now
                   in [\<lparr>gi_contact = con_id c, gi_name = contactDisplayName c, gi_obligation = ob_id o1,
                        gi_label = ob_label o1, gi_date = date, gi_days = k,
                        gi_status = (case m of None \<Rightarrow> ''needed'' | Some g \<Rightarrow> gf_status g),
                        gi_gift = (case m of None \<Rightarrow> [] | Some g \<Rightarrow> gf_id g)\<rparr>])))"

definition GetGiftShoppingList :: "occasion_db \<Rightarrow> nat \<Rightarrow> zone \<Rightarrow> int \<Rightarrow> int \<Rightarrow> bool \<Rightarrow> gift_item list" where
  "GetGiftShoppingList db u z now days includeSensitive =
     (let obligations = filter (gift_due u includeSensitive) (od_obligations db)
      in stable_sort_by (\<lambda>a b. (gi_days a, gi_contact a) < (gi_days b, gi_contact b))
           (concat (map (gift_row db u z now days (map ob_entity obligations)) obligations)))"

section \<open>What the lists show\<close>

lemma resolve_value:
  assumes "regular_on z (around (civil_day z now))" "1 \<le> m" "m \<le> 12" "1 \<le> d" "d \<le> 31"
  shows "resolveAnnualOccurrence m d z now =
     Some (target_day (civil_day z now) m d - civil_day z now, fmt_iso (target_day (civil_day z now) m d))"
proof -
  let ?n = "civil_day z now" and ?k = "target_day (civil_day z now) m d - civil_day z now"
  have s: "''--'' @ fmt_0d 2 m @ ''-'' @ fmt_0d 2 d = month_day ''--'' m d"
    using assms(2-5) fmt_02d [of "nat m"] fmt_02d [of "nat d"] by (simp add: month_day_def)
  note v = countdown_value [OF assms(1) refl _ assms(2-5), of "''--''"]
  have v1: "DaysUntilBirthday (month_day ''--'' m d) z now = ?k" "0 \<le> ?k" "?k \<le> 368"
    using v by simp_all
  have "?n \<in> around ?n" "?n + ?k \<in> around ?n" using v1(2,3) by (auto simp: around_def)
  then have "civil_day z (add_date_in z (midnight z ?n) 0 0 ?k) = ?n + ?k"
    using midnight_reads [OF assms(1)] by (simp add: add_date_in_def midnight_def)
  then show ?thesis using v1 unfolding resolveAnnualOccurrence_def s by (simp add: Let_def)
qed

lemma date_parts_range:
  "parse_01 s = Some m \<Longrightarrow> 1 \<le> m \<and> m \<le> 12" "parse_02 s = Some d \<Longrightarrow> 1 \<le> d \<and> d \<le> 31"
  by (auto simp: parse_01_def parse_02_def split: option.splits if_splits)

definition fits :: "zone \<Rightarrow> int \<Rightarrow> int \<Rightarrow> upcoming_occasion \<Rightarrow> bool" where
  "fits z now days x \<longleftrightarrow> 0 \<le> uo_days x \<and> uo_days x \<le> days \<and>
     uo_date x = fmt_iso (civil_day z now + uo_days x)"

lemma occasion_within_fits:
  assumes "regular_on z (around (civil_day z now))" "1 \<le> m" "m \<le> 12" "1 \<le> d" "d \<le> 31"
    and "x \<in> set (occasion_within days (resolveAnnualOccurrence m d z now) mk)"
    and "\<And>k date. uo_days (mk k date) = k \<and> uo_date (mk k date) = date"
  shows "fits z now days x"
  using assms(6,7) countdown_value(2) [OF assms(1) refl _ assms(2-5), of "''--''"]
  by (simp add: occasion_within_def resolve_value [OF assms(1-5)] fits_def split: if_splits)

definition anchors_valid :: "obligation \<Rightarrow> bool" where
  "anchors_valid o1 \<longleftrightarrow>
     (case (ob_anchor_month o1, ob_anchor_day o1) of
        (Some m, Some d) \<Rightarrow> 1 \<le> m \<and> m \<le> 12 \<and> 1 \<le> d \<and> d \<le> 31 | _ \<Rightarrow> True)"

text \<open>Every occasion listed is at most the asked number of days ahead, none is in the past, its date
  is the day that many days from today, and the list is in order of days left and contact. The stored
  anchors are in the range the validator accepts.\<close>

lemma occasions_in_window:
  assumes "regular_on z (around (civil_day z now))" "list_all anchors_valid (od_obligations db)"
  shows "list_all (fits z now days) (GetUpcomingOccasions db u z now days sens) \<and>
     sorted (map (\<lambda>x. (uo_days x, uo_contact x)) (GetUpcomingOccasions db u z now days sens))"
proof
  have scalar: "fits z now days x" if x: "x \<in> set (scalar_occasion z now days c src v)" for x c src v
  proof -
    have "occasionDateMonthDay v \<noteq> None"
    proof
      assume "occasionDateMonthDay v = None"
      then show False using x by (simp add: scalar_occasion_def split: if_splits)
    qed
    then obtain m d where md: "occasionDateMonthDay v = Some (m, d)" by auto
    have "parse_01 (end_month v) = Some m" "parse_02 (end_day v) = Some d"
      using md by (auto simp: occasionDateMonthDay_def split: if_splits option.splits)
    note r = date_parts_range(1) [OF this(1)] date_parts_range(2) [OF this(2)]
    show ?thesis
      using x md by (intro occasion_within_fits [OF assms(1), of m d]) (use r in \<open>auto simp: scalar_occasion_def split: if_splits\<close>)
  qed
  have event: "fits z now days x" if x: "x \<in> set (event_occasion db u z now days uids e)" for x uids e
  proof -
    obtain d m a where e: "le_date e = Some d" "pd_month d = Some m" "pd_day d = Some a"
      "1 \<le> m" "m \<le> 12" "1 \<le> a" "a \<le> 31"
      using x by (auto simp: event_occasion_def lifeEventHasMonthDay_def split: if_splits option.splits)
    from occasion_within_fits [OF assms(1) e(4-7)] show ?thesis
      using x e(1-3) by (auto simp: event_occasion_def split: if_splits option.splits)
  qed
  have obl: "fits z now days x"
    if x: "x \<in> set (obligation_occasion db u z now days uids o1)" "o1 \<in> set (od_obligations db)" "obligation_due u sens o1"
    for x uids o1
  proof -
    obtain m d where o1: "ob_anchor_month o1 = Some m" "ob_anchor_day o1 = Some d"
      using x(3) by (auto simp: obligation_due_def)
    then have "1 \<le> m" "m \<le> 12" "1 \<le> d" "d \<le> 31"
      using assms(2) x(2) by (auto simp: list_all_iff anchors_valid_def)
    from occasion_within_fits [OF assms(1) this] show ?thesis
      using x(1) o1 by (auto simp: obligation_occasion_def split: option.splits)
  qed
  show "list_all (fits z now days) (GetUpcomingOccasions db u z now days sens)"
    using scalar event obl by (auto simp: GetUpcomingOccasions_def Let_def list_all_iff)
  show "sorted (map (\<lambda>x. (uo_days x, uo_contact x)) (GetUpcomingOccasions db u z now days sens))"
    unfolding GetUpcomingOccasions_def Let_def by (rule sorted_stable_sort_by)
qed

definition no_rows :: occasion_db where
  "no_rows = \<lparr>od_contacts = [], od_events = [], od_obligations = [], od_gifts = []\<rparr>"

lemma occasions_in_window_witness:
  "list_all (fits utc 0 30) (GetUpcomingOccasions
     (no_rows\<lparr>od_contacts := [leapling]\<rparr>) 1 utc 0 30 False)"
  using occasions_in_window [OF regular_utc, of "no_rows\<lparr>od_contacts := [leapling]\<rparr>"]
  by (simp add: no_rows_def)

text \<open>What a user may see: the rows of the user, and of the obligations only those at normal
  sensitivity.\<close>

definition visible_rows :: "occasion_db \<Rightarrow> nat \<Rightarrow> occasion_db" where
  "visible_rows db u = \<lparr>od_contacts = filter (\<lambda>c. con_user c = u) (od_contacts db),
     od_events = filter (\<lambda>e. le_user e = u) (od_events db),
     od_obligations = filter (\<lambda>o1. ob_user o1 = u \<and> ob_sensitivity o1 = ''normal'') (od_obligations db),
     od_gifts = filter (\<lambda>g. gf_user g = u) (od_gifts db)\<rparr>"

lemma contacts_visible:
  "contactsByVCardUID (visible_rows db u) u uids = contactsByVCardUID db u uids"
  by (rule ext) (simp add: contactsByVCardUID_def visible_rows_def conj_ac)

lemma obligations_visible:
  "filter (obligation_due u sens) (od_obligations (visible_rows db u)) = filter (obligation_due u False) (od_obligations db)"
  by (simp add: visible_rows_def) (rule filter_cong, auto simp: obligation_due_def)

text \<open>C8: without the explicit opt-in both lists are a function of the user's own rows and of the
  obligations at normal sensitivity: nothing private, secret or of another user influences them.\<close>

theorem occasions_noninterference:
  "GetUpcomingOccasions db u z now days False = GetUpcomingOccasions (visible_rows db u) u z now days True \<and>
   GetGiftShoppingList db u z now days False = GetGiftShoppingList (visible_rows db u) u z now days True"
proof
  have ob: "obligation_occasion (visible_rows db u) u z now days uids = obligation_occasion db u z now days uids" for uids
    by (rule ext) (simp add: obligation_occasion_def contacts_visible)
  have ev: "event_occasion (visible_rows db u) u z now days uids = event_occasion db u z now days uids" for uids
    by (rule ext) (simp only: event_occasion_def contacts_visible)
  have rows: "filter (\<lambda>e. le_user e = u \<and> le_remind e) (od_events (visible_rows db u)) =
      filter (\<lambda>e. le_user e = u \<and> le_remind e) (od_events db)"
    "filter (\<lambda>c. con_user c = u \<and> P c) (od_contacts (visible_rows db u)) =
      filter (\<lambda>c. con_user c = u \<and> P c) (od_contacts db)" for P
    by (simp_all add: visible_rows_def)
  show "GetUpcomingOccasions db u z now days False = GetUpcomingOccasions (visible_rows db u) u z now days True"
    by (simp only: GetUpcomingOccasions_def Let_def ob ev rows obligations_visible)
  have gifts: "filter (\<lambda>g. gf_user g = u \<and> P g) (od_gifts (visible_rows db u)) =
      filter (\<lambda>g. gf_user g = u \<and> P g) (od_gifts db)" for P
    by (simp add: visible_rows_def)
  have gr: "gift_row (visible_rows db u) u z now days uids = gift_row db u z now days uids" for uids
    by (rule ext) (simp only: gift_row_def contacts_visible gifts)
  have due: "filter (gift_due u s) os = filter (\<lambda>o1. ob_kind o1 = ''gift'') (filter (obligation_due u s) os)" for s os
    by (simp add: gift_due_def conj_ac cong: filter_cong)
  show "GetGiftShoppingList db u z now days False = GetGiftShoppingList (visible_rows db u) u z now days True"
    by (simp only: GetGiftShoppingList_def Let_def gr due obligations_visible)
qed

subsection \<open>Matching gifts\<close>

lemma latest_gift_Some:
  "\<exists>r. latest_gift start now gs (Some b) = Some r \<and> gift_ref b \<le> gift_ref r \<and>
     (r = b \<or> r \<in> set gs \<and> start \<le> gift_ref r \<and> gift_ref r \<le> now) \<and>
     (\<forall>g \<in> set gs. start \<le> gift_ref g \<and> gift_ref g \<le> now \<longrightarrow> gift_ref g \<le> gift_ref r)"
proof (induction gs arbitrary: b)
  case (Cons g gs)
  let ?b = "if gift_ref g < start \<or> now < gift_ref g then b else if gift_ref b < gift_ref g then g else b"
  have "latest_gift start now (g # gs) (Some b) = latest_gift start now gs (Some ?b)" by simp
  moreover obtain r where "latest_gift start now gs (Some ?b) = Some r" "gift_ref ?b \<le> gift_ref r"
    "r = ?b \<or> r \<in> set gs \<and> start \<le> gift_ref r \<and> gift_ref r \<le> now"
    "\<forall>g \<in> set gs. start \<le> gift_ref g \<and> gift_ref g \<le> now \<longrightarrow> gift_ref g \<le> gift_ref r"
    using Cons.IH [of ?b] by blast
  ultimately show ?case by (intro exI [of _ r]) (auto split: if_splits)
qed simp

lemma latest_gift_None:
  assumes "latest_gift start now gs None = r"
  shows "case r of None \<Rightarrow> \<forall>g \<in> set gs. gift_ref g < start \<or> now < gift_ref g
     | Some x \<Rightarrow> x \<in> set gs \<and> start \<le> gift_ref x \<and> gift_ref x \<le> now \<and>
        (\<forall>g \<in> set gs. start \<le> gift_ref g \<and> gift_ref g \<le> now \<longrightarrow> gift_ref g \<le> gift_ref x)"
  using assms
proof (induction gs)
  case (Cons g gs)
  show ?case
  proof (cases "gift_ref g < start \<or> now < gift_ref g")
    case True
    then show ?thesis using Cons by (auto split: option.splits)
  next
    case False
    then have "latest_gift start now gs (Some g) = r" using Cons.prems by simp
    then show ?thesis using latest_gift_Some [of start now gs g] False by (auto split: option.splits)
  qed
qed auto

text \<open>An obligation without a linked life event is reported as needed exactly when no gift of the
  contact falls into the window; otherwise the most recent one in the window gives its status.\<close>

lemma gift_match_latest:
  assumes "ob_linked_life_event o1 = []"
  shows "case matchGiftForObligation gs o1 start now of
      None \<Rightarrow> \<forall>g \<in> set gs. gift_ref g < start \<or> now < gift_ref g
    | Some x \<Rightarrow> x \<in> set gs \<and> start \<le> gift_ref x \<and> gift_ref x \<le> now \<and>
        (\<forall>g \<in> set gs. start \<le> gift_ref g \<and> gift_ref g \<le> now \<longrightarrow> gift_ref g \<le> gift_ref x)"
  using latest_gift_None [OF refl] assms by (simp add: matchGiftForObligation_def)

definition sample_obligation :: obligation where
  "sample_obligation = \<lparr>ob_id = ''o'', ob_user = 1, ob_entity = ''a'', ob_kind = ''gift'', ob_label = [],
     ob_anchor_month = Some 12, ob_anchor_day = Some 25, ob_linked_life_event = [], ob_active = True,
     ob_sensitivity = ''normal''\<rparr>"

definition sample_gift :: "int \<Rightarrow> gift" where
  "sample_gift t = \<lparr>gf_id = ''g'', gf_user = 1, gf_entity = ''a'', gf_status = ''purchased'',
     gf_date = Some t, gf_created = 0, gf_life_event = []\<rparr>"

lemma gift_match_latest_witness:
  "sample_gift 7 \<in> set [sample_gift 3, sample_gift 7] \<and> gift_ref (sample_gift 7) \<le> 9"
proof -
  have "matchGiftForObligation [sample_gift 3, sample_gift 7] sample_obligation 1 9 = Some (sample_gift 7)"
    by (simp add: matchGiftForObligation_def sample_obligation_def sample_gift_def gift_ref_def)
  then show ?thesis
    using gift_match_latest [of sample_obligation "[sample_gift 3, sample_gift 7]" 1 9]
    by (simp add: sample_obligation_def)
qed

text \<open>A date scalar that holds only a year and a month (\<open>1912-07\<close>) is read from its end, so it
  yields an occasion in the month its year ends in, on the day its month names.\<close>

lemma year_month_misread:
  assumes "1 \<le> m" "m \<le> 12" "1 \<le> d" "d \<le> 12"
  shows "occasionDateMonthDay (''19'' @ pad2 (nat m) @ ''-'' @ pad2 (nat d)) = Some (m, d)"
  using month_day_parts [of "''19''" m d] assms
  by (simp add: occasionDateMonthDay_def month_day_def)

lemma year_month_misread_witness:
  "occasionDateMonthDay ''1912-07'' = Some (12, 7)"
proof -
  have "''19'' @ pad2 (nat 12) @ ''-'' @ pad2 (nat 7) = ''1912-07''" by code_simp
  then show ?thesis using year_month_misread [of 12 7] by simp
qed

end
