(* ===== verification/Cadence.thy ===== *)
theory Cadence imports Birthdays begin

text \<open>
  Relationship cadence: the qualifying interactions, the derived health, the overdue list
  (\<open>backend/services/cadence_service.go\<close>, \<open>models/cadence_policy.go\<close>, \<open>models/activity.go\<close>), ambient contacts
  (\<open>services/ambient_contacts.go\<close>) and the self contact (\<open>services/self_contact.go\<close>). Tables are lists of
  rows in the order the database returns them; interaction dates are instants, stored in UTC.
\<close>

section \<open>Qualifying interactions\<close>

definition nonQualifyingInteractionTypes :: "string list" where
  "nonQualifyingInteractionTypes = [''photo'']"

record activity =
  act_id :: nat
  act_user :: nat
  act_date :: int
  act_type :: string
  act_deleted :: bool

record cadence_policy =
  cp_id :: string
  cp_user :: nat
  cp_entity :: string
  cp_interval :: int
  cp_types :: "string list"

definition Qualifying :: "string \<Rightarrow> bool" where
  "Qualifying type \<longleftrightarrow> type \<notin> set nonQualifyingInteractionTypes"

definition Qualifies :: "cadence_policy \<Rightarrow> string \<Rightarrow> bool" where
  "Qualifies p type \<longleftrightarrow> Qualifying type \<and> (cp_types p = [] \<or> type \<in> set (cp_types p))"

section \<open>The rows read\<close>

record given_gift =
  gg_user :: nat
  gg_entity :: string
  gg_status :: string
  gg_date :: "int option"
  gg_activity :: "nat option"
  gg_deleted :: bool

record cadence_db =
  ca_contacts :: "contact list"
  ca_links :: "(nat \<times> nat) list"
  ca_activities :: "activity list"
  ca_gifts :: "given_gift list"

text \<open>A row: date, type, contact.\<close>

type_synonym date_row = "int \<times> string \<times> string"

definition giftInteractionType :: string where "giftInteractionType = ''gift''"

definition policyAcceptsGifts :: "cadence_policy \<Rightarrow> bool" where
  "policyAcceptsGifts p \<longleftrightarrow> Qualifies p giftInteractionType"

definition activityDateRows :: "cadence_db \<Rightarrow> nat \<Rightarrow> string list \<Rightarrow> date_row list" where
  "activityDateRows db u uids =
     concat (map (\<lambda>c. concat (map (\<lambda>(aid, cid). if cid = con_id c
           then map (\<lambda>a. (act_date a, act_type a, con_vcard_uid c))
                  (filter (\<lambda>a. act_id a = aid \<and> act_user a = u \<and> \<not> act_deleted a) (ca_activities db))
           else []) (ca_links db)))
       (filter (\<lambda>c. con_vcard_uid c \<in> set uids \<and> con_user c = u) (ca_contacts db)))"

definition gift_counted_as_activity :: "cadence_db \<Rightarrow> nat \<Rightarrow> contact \<Rightarrow> given_gift \<Rightarrow> bool" where
  "gift_counted_as_activity db u c g \<longleftrightarrow>
     (case gg_activity g of None \<Rightarrow> False
      | Some aid \<Rightarrow> list_ex (\<lambda>a. act_id a = aid \<and> act_user a = u \<and> \<not> act_deleted a \<and>
                               (aid, con_id c) \<in> set (ca_links db)) (ca_activities db))"

definition givenGiftDateRows :: "cadence_db \<Rightarrow> nat \<Rightarrow> string list \<Rightarrow> date_row list" where
  "givenGiftDateRows db u uids =
     concat (map (\<lambda>c. concat (map (\<lambda>g. case gg_date g of None \<Rightarrow> []
           | Some t \<Rightarrow> if gg_entity g = con_vcard_uid c \<and> gg_user g = u \<and> \<not> gg_deleted g \<and>
                         gg_status g = ''given'' \<and> \<not> gift_counted_as_activity db u c g
                       then [(t, giftInteractionType, con_vcard_uid c)] else []) (ca_gifts db)))
       (filter (\<lambda>c. con_vcard_uid c \<in> set uids \<and> con_user c = u) (ca_contacts db)))"

definition order_date_desc :: "date_row list \<Rightarrow> date_row list" where
  "order_date_desc = stable_sort_by (\<lambda>a b. - fst a < - fst b)"

definition mergeRowsDateDesc :: "date_row list \<Rightarrow> date_row list \<Rightarrow> date_row list" where
  "mergeRowsDateDesc a b = (if b = [] then a else order_date_desc (a @ b))"

definition firstQualifyingDate :: "date_row list \<Rightarrow> cadence_policy \<Rightarrow> int option" where
  "firstQualifyingDate rows p = map_option fst (find (\<lambda>(t, type, uid). Qualifies p type) rows)"

definition groupActivityRowsByUID :: "date_row list \<Rightarrow> string \<Rightarrow> date_row list" where
  "groupActivityRowsByUID rows uid = filter (\<lambda>(t, type, x). x = uid) rows"

section \<open>The last interaction, one policy at a time and in bulk\<close>

definition lastQualifyingInteraction :: "cadence_db \<Rightarrow> nat \<Rightarrow> cadence_policy \<Rightarrow> int option" where
  "lastQualifyingInteraction db u p =
     (let rows = activityDateRows db u [cp_entity p];
          rows' = (if cp_types p \<noteq> [] then filter (\<lambda>(t, type, x). type \<in> set (cp_types p)) rows else rows);
          best = firstQualifyingDate (order_date_desc rows') p
      in if policyAcceptsGifts p then
           (case firstQualifyingDate (givenGiftDateRows db u [cp_entity p]) p of
              None \<Rightarrow> best
            | Some t \<Rightarrow> (case best of None \<Rightarrow> Some t | Some b \<Rightarrow> if b < t then Some t else best))
         else best)"

definition fetchLastInteractionDates :: "cadence_db \<Rightarrow> nat \<Rightarrow> cadence_policy list \<Rightarrow> cadence_policy \<Rightarrow> int option" where
  "fetchLastInteractionDates db u ps p =
     (let uids = remdups (map cp_entity ps);
          hasEmptyFilter = list_ex (\<lambda>q. cp_types q = []) ps;
          allTypes = concat (map cp_types ps);
          rows = activityDateRows db u uids;
          rows1 = (if \<not> hasEmptyFilter \<and> allTypes \<noteq> []
                   then filter (\<lambda>(t, type, x). type \<in> set allTypes) rows else rows);
          rows2 = order_date_desc rows1;
          rows3 = (if hasEmptyFilter \<or> giftInteractionType \<in> set allTypes
                   then mergeRowsDateDesc rows2 (givenGiftDateRows db u uids) else rows2)
      in firstQualifyingDate (groupActivityRowsByUID rows3 (cp_entity p)) p)"

section \<open>Derived health\<close>

record cadence_health =
  ch_has_interaction :: bool
  ch_last :: "int option"
  ch_next_due :: "int option"
  ch_overdue_by :: int
  ch_ambient :: bool
  ch_ambient_reason :: string

definition withAmbient :: "cadence_health \<Rightarrow> string \<Rightarrow> cadence_health" where
  "withAmbient h reason = (if reason = [] then h
     else h\<lparr>ch_ambient := True, ch_ambient_reason := reason, ch_overdue_by := 0\<rparr>)"

definition interactionCalendarDay :: "int \<Rightarrow> int" where
  "interactionCalendarDay t = midnight utc (civil_day utc t)"

text \<open>\<open>z\<close> is the zone of \<open>now\<close>.\<close>

definition deriveHealth :: "int option \<Rightarrow> int \<Rightarrow> zone \<Rightarrow> int \<Rightarrow> cadence_health" where
  "deriveHealth lastDate intervalDays z now =
     (case lastDate of
        None \<Rightarrow> \<lparr>ch_has_interaction = False, ch_last = None, ch_next_due = None, ch_overdue_by = 0,
                 ch_ambient = False, ch_ambient_reason = []\<rparr>
      | Some t \<Rightarrow>
          (let nextDue = add_date_in utc (interactionCalendarDay t) 0 0 intervalDays;
               overdue = - calendarDaysBetween z now utc nextDue
           in \<lparr>ch_has_interaction = True, ch_last = Some t, ch_next_due = Some nextDue,
               ch_overdue_by = (if 0 < overdue then overdue else 0),
               ch_ambient = False, ch_ambient_reason = []\<rparr>))"

definition interactionDaysSince :: "int \<Rightarrow> zone \<Rightarrow> int \<Rightarrow> int" where
  "interactionDaysSince lastDate z now =
     (let d = calendarDaysBetween utc (interactionCalendarDay lastDate) z now in if d < 0 then 0 else d)"

section \<open>The latest qualifying date\<close>

definition qualifying_dates :: "cadence_db \<Rightarrow> nat \<Rightarrow> cadence_policy \<Rightarrow> int set" where
  "qualifying_dates db u p =
     {t. \<exists>type. (t, type, cp_entity p) \<in> set (activityDateRows db u [cp_entity p]) \<union>
                                      set (givenGiftDateRows db u [cp_entity p]) \<and> Qualifies p type}"

definition latest :: "int set \<Rightarrow> int option" where
  "latest T = (if T = {} then None else Some (Max T))"

lemma rows_uid:
  "(t, type, x) \<in> set (activityDateRows db u uids) \<longleftrightarrow>
     x \<in> set uids \<and> (t, type, x) \<in> set (activityDateRows db u [x])"
  "(t, type, x) \<in> set (givenGiftDateRows db u uids) \<longleftrightarrow>
     x \<in> set uids \<and> (t, type, x) \<in> set (givenGiftDateRows db u [x])"
  by (auto simp: activityDateRows_def givenGiftDateRows_def split: option.splits if_splits)

lemma gift_rows_type: "(t, type, x) \<in> set (givenGiftDateRows db u uids) \<Longrightarrow> type = giftInteractionType"
  by (auto simp: givenGiftDateRows_def split: option.splits if_splits)

lemma first_is_latest:
  assumes "sorted (map (\<lambda>r. - fst r) rows)"
  shows "firstQualifyingDate rows p = latest {t. \<exists>type x. (t, type, x) \<in> set rows \<and> Qualifies p type}"
  using assms
proof (induction rows)
  case Nil
  then show ?case by (simp add: firstQualifyingDate_def latest_def)
next
  case (Cons r rows)
  obtain t type x where r: "r = (t, type, x)" by (cases r)
  let ?S = "\<lambda>rs. {t. \<exists>type x. (t, type, x) \<in> set rs \<and> Qualifies p type}"
  show ?case
  proof (cases "Qualifies p type")
    case True
    have fin: "finite (?S (r # rows))" by (rule finite_subset [of _ "fst ` set (r # rows)"]) force+
    have "t \<in> ?S (r # rows)" using True r by auto
    moreover have "t' \<le> t" if "t' \<in> ?S (r # rows)" for t'
      using that Cons.prems r by force
    ultimately have "Max (?S (r # rows)) = t" using fin by (intro Max_eqI) auto
    moreover have "?S (r # rows) \<noteq> {}" using \<open>t \<in> ?S (r # rows)\<close> by blast
    ultimately have "latest (?S (r # rows)) = Some t" by (simp add: latest_def)
    moreover have "firstQualifyingDate (r # rows) p = Some t" using True by (simp add: firstQualifyingDate_def r)
    ultimately show ?thesis by simp
  next
    case False
    then have "?S (r # rows) = ?S rows" by (auto simp: r)
    moreover have "firstQualifyingDate (r # rows) p = firstQualifyingDate rows p"
      using False by (simp add: firstQualifyingDate_def r)
    ultimately show ?thesis using Cons by simp
  qed
qed

lemma order_desc [simp]:
  "sorted (map (\<lambda>r. - fst r) (order_date_desc rows))" "set (order_date_desc rows) = set rows"
  unfolding order_date_desc_def by (rule sorted_stable_sort_by, simp)

lemma merge_desc:
  "sorted (map (\<lambda>r. - fst r) a) \<Longrightarrow> sorted (map (\<lambda>r. - fst r) (mergeRowsDateDesc a b))"
  "set (mergeRowsDateDesc a b) = set a \<union> set b"
  by (auto simp: mergeRowsDateDesc_def)

lemma Qualifies_types: "Qualifies p type \<Longrightarrow> cp_types p \<noteq> [] \<Longrightarrow> type \<in> set (cp_types p)"
  by (auto simp: Qualifies_def)

text \<open>The bulk read.\<close>

lemma batch_last:
  assumes "p \<in> set ps"
  shows "fetchLastInteractionDates db u ps p = latest (qualifying_dates db u p)"
proof -
  let ?uids = "remdups (map cp_entity ps)" and ?x = "cp_entity p"
  let ?empty = "list_ex (\<lambda>q. cp_types q = []) ps" and ?all = "concat (map cp_types ps)"
  let ?rows = "activityDateRows db u ?uids"
  define rows1 where "rows1 = (if \<not> ?empty \<and> ?all \<noteq> [] then filter (\<lambda>(t, type, x). type \<in> set ?all) ?rows else ?rows)"
  define rows3 where "rows3 = (if ?empty \<or> giftInteractionType \<in> set ?all
      then mergeRowsDateDesc (order_date_desc rows1) (givenGiftDateRows db u ?uids) else order_date_desc rows1)"
  have "fetchLastInteractionDates db u ps p = firstQualifyingDate (groupActivityRowsByUID rows3 ?x) p"
    by (simp add: fetchLastInteractionDates_def Let_def rows1_def rows3_def)
  also have "sorted (map (\<lambda>r. - fst r) (groupActivityRowsByUID rows3 ?x))"
    unfolding groupActivityRowsByUID_def rows3_def by (intro sorted_filter) (simp add: merge_desc)
  then have "firstQualifyingDate (groupActivityRowsByUID rows3 ?x) p
      = latest {t. \<exists>type x. (t, type, x) \<in> set (groupActivityRowsByUID rows3 ?x) \<and> Qualifies p type}"
    by (rule first_is_latest)
  also have "{t. \<exists>type x. (t, type, x) \<in> set (groupActivityRowsByUID rows3 ?x) \<and> Qualifies p type}
      = qualifying_dates db u p"
  proof -
    have mem: "?x \<in> set ?uids" using assms by simp
    have listed: "type \<in> set ?all" if "Qualifies p type" "\<not> ?empty" for type
      using that assms Qualifies_types [of p type] by (auto simp: list_ex_iff)
    have acts: "(t, type, ?x) \<in> set rows1 \<longleftrightarrow> (t, type, ?x) \<in> set (activityDateRows db u [?x])"
      if "Qualifies p type" for t type
      using listed [OF that] mem rows_uid(1) [of t type ?x db u ?uids] by (auto simp: rows1_def)
    have all: "(t, type, ?x) \<in> set rows3 \<longleftrightarrow> (t, type, ?x) \<in> set (activityDateRows db u [?x]) \<or>
        (t, type, ?x) \<in> set (givenGiftDateRows db u [?x])" if q: "Qualifies p type" for t type
    proof (cases "?empty \<or> giftInteractionType \<in> set ?all")
      case True
      then show ?thesis
        using acts [OF q] mem rows_uid(2) [of t type ?x db u ?uids] by (auto simp: rows3_def merge_desc)
    next
      case False
      then have "type \<noteq> giftInteractionType" using listed [OF q] by auto
      then show ?thesis using acts [OF q] False gift_rows_type by (auto simp: rows3_def)
    qed
    show ?thesis using all by (auto simp: groupActivityRowsByUID_def qualifying_dates_def)
  qed
  finally show ?thesis .
qed

text \<open>C9: the bulk read gives every policy of the page the date of the most recent qualifying
  interaction of its own contact, given gifts included, whatever filter the page as a whole allows.\<close>

theorem batch_gives_latest:
  assumes "p \<in> set ps"
  shows "fetchLastInteractionDates db u ps p = latest (qualifying_dates db u p)"
  using assms by (rule batch_last)

lemma latest_insert:
  assumes "finite T"
  shows "latest (T \<union> {t}) = (case latest T of None \<Rightarrow> Some t | Some b \<Rightarrow> if b < t then Some t else latest T)"
proof (cases "T = {}")
  case False
  then have "Max (insert t T) = max t (Max T)" using assms by simp
  then show ?thesis using False by (simp add: latest_def max_def)
qed (simp add: latest_def)

text \<open>The single-policy read agrees when the policy does not count gifts or one gift row exists at most.\<close>

lemma single_agrees_with_batch:
  assumes "p \<in> set ps"
    and "\<not> policyAcceptsGifts p \<or> length (givenGiftDateRows db u [cp_entity p]) \<le> 1"
  shows "lastQualifyingInteraction db u p = fetchLastInteractionDates db u ps p"
proof -
  let ?acts = "activityDateRows db u [cp_entity p]" and ?gifts = "givenGiftDateRows db u [cp_entity p]"
  let ?T = "\<lambda>rows. {t. \<exists>type x. (t, type, x) \<in> set rows \<and> Qualifies p type}"
  let ?rows = "if cp_types p \<noteq> [] then filter (\<lambda>(t, type, x). type \<in> set (cp_types p)) ?acts else ?acts"
  have uid: "x = cp_entity p" if "(t, type, x) \<in> set ?acts \<or> (t, type, x) \<in> set ?gifts" for t type x
    using that rows_uid [of t type x db u "[cp_entity p]"] by auto
  define A where "A = ?T ?acts"
  define G where "G = ?T ?gifts"
  have "firstQualifyingDate (order_date_desc ?rows) p = latest (?T (order_date_desc ?rows))"
    by (rule first_is_latest) simp
  moreover have "?T (order_date_desc ?rows) = A" unfolding A_def using Qualifies_types [of p] by auto
  ultimately have best: "firstQualifyingDate (order_date_desc ?rows) p = latest A" by simp
  have q: "qualifying_dates db u p = A \<union> G"
    using uid by (auto simp: qualifying_dates_def A_def G_def)
  have fin: "finite A" unfolding A_def by (rule finite_subset [of _ "fst ` set ?acts"]) force+
  note last_def = lastQualifyingInteraction_def Let_def
  show ?thesis
  proof (cases "policyAcceptsGifts p")
    case False
    then have "G = {}" unfolding policyAcceptsGifts_def G_def using gift_rows_type by blast
    then show ?thesis
      using best False by (simp add: batch_last [OF assms(1)] q last_def)
  next
    case True
    then have "length ?gifts \<le> 1" using assms(2) by simp
    then consider "?gifts = []" | t type x where "?gifts = [(t, type, x)]"
      by (cases ?gifts) (auto simp: length_Suc_conv le_Suc_eq)
    then show ?thesis
    proof cases
      case 1
      then have "firstQualifyingDate ?gifts p = None" "G = {}" by (simp_all add: firstQualifyingDate_def G_def)
      then show ?thesis using best True by (simp add: batch_last [OF assms(1)] q last_def)
    next
      case 2
      then have "Qualifies p type" using gift_rows_type [of t type x db u "[cp_entity p]"] True
        by (simp add: policyAcceptsGifts_def)
      then have "firstQualifyingDate ?gifts p = Some t" "G = {t}"
        using 2 by (auto simp: firstQualifyingDate_def G_def)
      then show ?thesis
        using best True latest_insert [OF fin, of t]
        by (simp add: batch_last [OF assms(1)] q last_def split: option.split if_splits)
    qed
  qed
qed

definition gift_at :: "int \<Rightarrow> given_gift" where
  "gift_at t = \<lparr>gg_user = 5, gg_entity = ''a'', gg_status = ''given'', gg_date = Some t,
     gg_activity = None, gg_deleted = False\<rparr>"

definition gift_db :: "int list \<Rightarrow> cadence_db" where
  "gift_db ts = \<lparr>ca_contacts = [blank_contact\<lparr>con_id := 7, con_user := 5, con_vcard_uid := ''a''\<rparr>],
     ca_links = [], ca_activities = [], ca_gifts = map gift_at ts\<rparr>"

definition gift_policy :: cadence_policy where
  "gift_policy = \<lparr>cp_id = ''p'', cp_user = 5, cp_entity = ''a'', cp_interval = 30, cp_types = []\<rparr>"

lemma gift_policy_qualifies: "Qualifies gift_policy ''gift''" "policyAcceptsGifts gift_policy"
  by (simp_all add: Qualifies_def gift_policy_def Qualifying_def nonQualifyingInteractionTypes_def
      policyAcceptsGifts_def giftInteractionType_def)

lemma gift_db_rows:
  "givenGiftDateRows (gift_db ts) 5 [''a''] = map (\<lambda>t. (t, ''gift'', ''a'')) ts"
  "activityDateRows (gift_db ts) 5 [''a''] = []"
  by (simp_all add: givenGiftDateRows_def activityDateRows_def gift_db_def gift_at_def blank_contact_def
      gift_counted_as_activity_def giftInteractionType_def o_def)

lemma batch_gives_latest_witness:
  "fetchLastInteractionDates (gift_db [3, 9]) 5 [gift_policy] gift_policy = Some 9"
proof -
  have e: "cp_entity gift_policy = ''a''" by (simp add: gift_policy_def)
  have "qualifying_dates (gift_db [3, 9]) 5 gift_policy = {3, 9}"
    using gift_policy_qualifies(1) unfolding qualifying_dates_def e gift_db_rows by auto
  then show ?thesis
    using batch_gives_latest [of gift_policy "[gift_policy]" "gift_db [3, 9]" 5] by (simp add: latest_def)
qed

text \<open>With two given gifts the single-policy read takes the first row in whatever order the
  database returns them, not the most recent: it reports the older gift when that row comes first, and
  then disagrees with the bulk read.\<close>

lemma single_takes_first_gift:
  assumes "old < new"
  shows "lastQualifyingInteraction (gift_db [old, new]) 5 gift_policy = Some old \<and>
     fetchLastInteractionDates (gift_db [old, new]) 5 [gift_policy] gift_policy = Some new"
proof
  have e: "cp_entity gift_policy = ''a''" "cp_types gift_policy = []" by (simp_all add: gift_policy_def)
  show "lastQualifyingInteraction (gift_db [old, new]) 5 gift_policy = Some old"
    by (simp add: lastQualifyingInteraction_def Let_def e gift_db_rows gift_policy_qualifies
        firstQualifyingDate_def order_date_desc_def)
  have "qualifying_dates (gift_db [old, new]) 5 gift_policy = {old, new}"
    using gift_policy_qualifies(1) unfolding qualifying_dates_def e gift_db_rows by auto
  then show "fetchLastInteractionDates (gift_db [old, new]) 5 [gift_policy] gift_policy = Some new"
    using batch_last [of gift_policy "[gift_policy]" "gift_db [old, new]" 5] assms by (simp add: latest_def)
qed

lemma single_takes_first_gift_witness:
  "lastQualifyingInteraction (gift_db [3, 9]) 5 gift_policy = Some 3"
  using single_takes_first_gift [of 3 9] by simp

section \<open>Overdue days\<close>

lemma interactionCalendarDay_utc: "civil_day utc (interactionCalendarDay t) = civil_day utc t"
  "clock_of utc (interactionCalendarDay t) = 0"
  by (simp_all add: interactionCalendarDay_def midnight_def utc_def dur_defs)

lemma nextDue_day:
  "civil_day utc (add_date_in utc (interactionCalendarDay t) 0 0 k) = civil_day utc t + k"
  by (simp add: add_date_in_def interactionCalendarDay_utc) (simp add: utc_def dur_defs)

text \<open>Whatever the zone of the user and whatever daylight saving does, a contact is overdue by the
  calendar days from the day its interaction denotes plus the interval to the user's today, and by
  nothing when that day is today or later.\<close>

lemma overdue_calendar_days:
  assumes "regular_on z {civil_day z now, civil_day utc t + k}"
    and "\<bar>civil_day z now - (civil_day utc t + k)\<bar> \<le> 10000"
  shows "ch_overdue_by (deriveHealth (Some t) k z now) = max 0 (civil_day z now - (civil_day utc t + k)) \<and>
     map_option (civil_day utc) (ch_next_due (deriveHealth (Some t) k z now)) = Some (civil_day utc t + k)"
proof -
  have "round_quot (sub_time (midnight z (civil_day utc t + k)) (midnight z (civil_day z now))) (24 * hour)
      = civil_day utc t + k - civil_day z now"
    by (rule midnights_apart [OF assms(1)]) (use assms(2) in auto)
  then show ?thesis by (auto simp: deriveHealth_def Let_def nextDue_day interactionCalendarDay_utc calendarDaysBetween_def)
qed

lemma overdue_calendar_days_witness:
  "ch_overdue_by (deriveHealth (Some 0) 30 utc (40 * nanos_per_day)) = 10"
proof -
  have d: "civil_day utc (40 * nanos_per_day) = 40" "civil_day utc 0 = 0" by (simp_all add: utc_def dur_defs)
  show ?thesis
    using overdue_calendar_days [OF regular_utc, of "40 * nanos_per_day" 0 30] by (simp add: d)
qed

end
