(* ===== verification/Ambient.thy ===== *)
theory Ambient imports Cadence begin

text \<open>
  Contacts that need no reminder: household tenure and the ambient flag
  (\<open>backend/services/ambient_contacts.go\<close>), the pointer to the user's own contact and the flag it turns on
  (\<open>services/self_contact.go\<close>), and the overdue list built from both (\<open>services/cadence_service.go\<close>).
\<close>

section \<open>Tenure bounds\<close>

definition dash_two :: "string \<Rightarrow> bool" where
  "dash_two s \<longleftrightarrow> (case s of a # b # c # _ \<Rightarrow> a = CHR ''-'' \<and> is_digit b \<and> is_digit c | _ \<Rightarrow> False)"

text \<open>\<open>^\d{4}(-\d{2}(-\d{2})?)?\<close>, the longest match.\<close>

definition tenureDatePrefix :: "string \<Rightarrow> string option" where
  "tenureDatePrefix v =
     (let s = trim_space v
      in if \<not> (4 \<le> length s \<and> list_all is_digit (take 4 s)) then None
         else if \<not> dash_two (drop 4 s) then Some (take 4 s)
         else if \<not> dash_two (drop 7 s) then Some (take 7 s)
         else Some (take 10 s))"

definition partialDateNotAfter :: "string \<Rightarrow> string \<Rightarrow> bool" where
  "partialDateNotAfter a b = (let n = min (length a) (length b) in take n a \<le> take n b)"

definition ambientTenureCurrent :: "string \<Rightarrow> string \<Rightarrow> string \<Rightarrow> bool" where
  "ambientTenureCurrent since until today \<longleftrightarrow>
     (since \<noteq> [] \<longrightarrow> (case tenureDatePrefix since of None \<Rightarrow> False | Some s \<Rightarrow> partialDateNotAfter s today)) \<and>
     (until \<noteq> [] \<longrightarrow> (case tenureDatePrefix until of None \<Rightarrow> False | Some u \<Rightarrow> partialDateNotAfter today u))"

subsection \<open>A tenure bound as a span of days\<close>

text \<open>A bound of a year, a year and a month, or a whole date.\<close>

datatype tenure = Year nat | Month nat nat | Day nat nat nat

fun tenure_text :: "tenure \<Rightarrow> string" where
  "tenure_text (Year y) = pad4 y"
| "tenure_text (Month y m) = pad4 y @ ''-'' @ pad2 m"
| "tenure_text (Day y m d) = pad4 y @ ''-'' @ pad2 m @ ''-'' @ pad2 d"

fun tenure_ok :: "tenure \<Rightarrow> bool" where
  "tenure_ok (Year y) \<longleftrightarrow> y < 10000"
| "tenure_ok (Month y m) \<longleftrightarrow> y < 10000 \<and> 1 \<le> m \<and> m \<le> 12"
| "tenure_ok (Day y m d) \<longleftrightarrow> y < 10000 \<and> 1 \<le> m \<and> m \<le> 12 \<and> 1 \<le> d \<and> int d \<le> days_in_month (int y) (int m)"

fun first_day :: "tenure \<Rightarrow> int" where
  "first_day (Year y) = go_date (int y) 1 1"
| "first_day (Month y m) = go_date (int y) (int m) 1"
| "first_day (Day y m d) = go_date (int y) (int m) (int d)"

fun last_day :: "tenure \<Rightarrow> int" where
  "last_day (Year y) = go_date (int y) 12 31"
| "last_day (Month y m) = go_date (int y) (int m) (days_in_month (int y) (int m))"
| "last_day (Day y m d) = go_date (int y) (int m) (int d)"

subsection \<open>Dates in lexicographic order\<close>

lemma append_le_iff:
  fixes xs ys :: string
  assumes "length xs = length ys"
  shows "xs @ s \<le> ys @ t \<longleftrightarrow> xs < ys \<or> xs = ys \<and> s \<le> t"
  using assms
proof (induction xs ys rule: list_induct2)
  case (Cons x xs y ys)
  then show ?case by auto
qed simp

lemma digit_char_less [simp]: "a < 10 \<Longrightarrow> b < 10 \<Longrightarrow> digit_char a < digit_char b \<longleftrightarrow> a < b"
  by (simp add: digit_char_def less_char_def)

lemma digit_char_eq [simp]: "a < 10 \<Longrightarrow> b < 10 \<Longrightarrow> digit_char a = digit_char b \<longleftrightarrow> a = b"
  by (metis digit_val_digit_char)

lemma div_mod_less:
  fixes a b k :: nat
  shows "a < b \<longleftrightarrow> a div k < b div k \<or> a div k = b div k \<and> a mod k < b mod k"
proof -
  have eq: "a < b \<longleftrightarrow> a mod k < b mod k" if "a div k = b div k"
    using that div_mult_mod_eq [of a k] div_mult_mod_eq [of b k] by (metis add_less_cancel_left)
  show ?thesis
  proof (cases "a div k" "b div k" rule: linorder_cases)
    case less
    then show ?thesis using div_le_mono [of b a k] by linarith
  next
    case greater
    then show ?thesis using div_le_mono [of a b k] by linarith
  qed (use eq in simp)
qed

lemma pad2_less: "a < 100 \<Longrightarrow> b < 100 \<Longrightarrow> pad2 a < pad2 b \<longleftrightarrow> a < b"
  using div_mod_less [of a b 10] by (auto simp: pad2_def)

lemma pad2_eq: "a < 100 \<Longrightarrow> b < 100 \<Longrightarrow> pad2 a = pad2 b \<longleftrightarrow> a = b"
  by (metis two_digits_pad2 option.inject)

lemma pad4_split: "pad4 n = pad2 (n div 100) @ pad2 (n mod 100)" if "n < 10000"
proof -
  have "n div 100 div 10 = n div 1000" "n mod 100 div 10 = n div 10 mod 10" "n mod 100 mod 10 = n mod 10"
    using mod_mult2_eq [of n 10 10] by (simp_all add: div_mult2_eq [symmetric] mod_mod_cancel)
  then show ?thesis by (simp add: pad4_def pad2_def)
qed

lemma append_less_iff:
  fixes xs ys :: string
  assumes "length xs = length ys"
  shows "xs @ s < ys @ t \<longleftrightarrow> xs < ys \<or> xs = ys \<and> s < t"
  using assms
proof (induction xs ys rule: list_induct2)
  case (Cons x xs y ys)
  then show ?case by auto
qed simp

lemma pad4_less: "a < 10000 \<Longrightarrow> b < 10000 \<Longrightarrow> pad4 a < pad4 b \<longleftrightarrow> a < b"
  using div_mod_less [of a b 100]
  by (auto simp: pad4_split append_less_iff pad2_less pad2_eq)

lemma pad4_eq: "a < 10000 \<Longrightarrow> b < 10000 \<Longrightarrow> pad4 a = pad4 b \<longleftrightarrow> a = b"
  using pad4_less by (metis linorder_neqE_nat order_less_irrefl)

text \<open>Days in order of year, month and day.\<close>

lemma day_index:
  assumes "1 \<le> m" "m \<le> 12" "1 \<le> d" "d \<le> days_in_month y m"
  shows "go_date y m d = first_of (12 * y + m - 1) + d - 1"
    "first_of (12 * y + m - 1) \<le> go_date y m d" "go_date y m d < first_of (12 * y + m)"
proof -
  show i: "go_date y m d = first_of (12 * y + m - 1) + d - 1" by (rule go_date_month_index)
  then show "first_of (12 * y + m - 1) \<le> go_date y m d" using assms(3) by simp
  have "first_of (12 * y + m) = go_date y (m + 1) 1" by (simp add: go_date_month_index algebra_simps)
  also have "\<dots> = first_of (12 * y + m - 1) + days_in_month y m"
    using go_date_next_month [OF assms(1,2)] by (simp add: go_date_month_index)
  finally show "go_date y m d < first_of (12 * y + m)" using i assms(4) by simp
qed

lemma date_le_iff:
  assumes "1 \<le> m" "m \<le> 12" "1 \<le> d" "d \<le> days_in_month y m"
  shows "(go_date y m d \<le> n \<longleftrightarrow> y < year_of n \<or> y = year_of n \<and> (m < month_of n \<or> m = month_of n \<and> d \<le> day_of n)) \<and>
    (n \<le> go_date y m d \<longleftrightarrow> year_of n < y \<or> year_of n = y \<and> (month_of n < m \<or> month_of n = m \<and> day_of n \<le> d))"
    (is "?P \<and> ?Q")
proof -
  let ?M = "12 * y + m - 1" and ?N = "12 * year_of n + month_of n - 1"
  note a = day_index [OF assms]
  note b = day_index [OF month_of_bounds day_of_bounds, of n]
  have bn: "n = first_of ?N + day_of n - 1" "first_of ?N \<le> n" "n < first_of (?N + 1)"
    using b by simp_all
  have lt: "?M < ?N \<Longrightarrow> go_date y m d < n" "?N < ?M \<Longrightarrow> n < go_date y m d"
    using a(2,3) bn(2,3) first_of_mono [of "?M + 1" ?N] first_of_mono [of "?N + 1" ?M] by simp_all
  have eq: "?M = ?N \<Longrightarrow> y = year_of n \<and> m = month_of n"
    using year_month_unique [of y m "year_of n" "month_of n"] assms month_of_bounds [of n] by simp
  have lex: "?M < ?N \<longleftrightarrow> y < year_of n \<or> y = year_of n \<and> m < month_of n"
    "?N < ?M \<longleftrightarrow> year_of n < y \<or> year_of n = y \<and> month_of n < m"
    using assms month_of_bounds [of n] by auto
  consider "?M < ?N" | "?N < ?M" | "?M = ?N" by linarith
  then show "?P \<and> ?Q"
  proof cases
    case 1
    then show ?thesis using lt(1) lex(1) by auto
  next
    case 2
    then show ?thesis using lt(2) lex(2) by auto
  next
    case 3
    have "go_date y m d - n = d - day_of n" using a(1) [unfolded 3] bn(1) by linarith
    then have "go_date y m d \<le> n \<longleftrightarrow> d \<le> day_of n" "n \<le> go_date y m d \<longleftrightarrow> day_of n \<le> d" by auto
    then show ?thesis using eq [OF 3] by auto
  qed
qed

lemma iso_text:
  assumes "0 \<le> year_of n" "year_of n < 10000"
  shows "fmt_iso n = pad4 (nat (year_of n)) @ ''-'' @ pad2 (nat (month_of n)) @ ''-'' @ pad2 (nat (day_of n))"
proof -
  have "nat (year_of n) < 10000" using assms by simp
  then show ?thesis
    using assms(1) by (simp add: fmt_iso_def fmt_2006_def fmt_year_def fmt_01_def fmt_02_def Let_def)
qed

lemma take_pad [simp]:
  "take 4 (pad4 y @ s) = pad4 y" "take 7 (pad4 y @ CHR ''-'' # pad2 m @ s) = pad4 y @ CHR ''-'' # pad2 m"
  "take 10 (pad4 y @ CHR ''-'' # pad2 m @ CHR ''-'' # pad2 d) = pad4 y @ CHR ''-'' # pad2 m @ CHR ''-'' # pad2 d"
  by simp_all

lemma pad_le:
  "a < 100 \<Longrightarrow> b < 100 \<Longrightarrow> pad2 a \<le> pad2 b \<longleftrightarrow> a \<le> b"
  "c < 10000 \<Longrightarrow> e < 10000 \<Longrightarrow> pad4 c \<le> pad4 e \<longleftrightarrow> c \<le> e"
  by (simp_all add: order_le_less [of "pad2 a"] order_le_less [of "pad4 c"] pad2_less pad2_eq pad4_less pad4_eq
      order_le_less [of a] order_le_less [of c])

lemma pad_le_append:
  "a < 100 \<Longrightarrow> b < 100 \<Longrightarrow> pad2 a @ ''-'' @ s \<le> pad2 b @ ''-'' @ t \<longleftrightarrow> a < b \<or> a = b \<and> s \<le> t"
  "c < 10000 \<Longrightarrow> e < 10000 \<Longrightarrow> pad4 c @ ''-'' @ s \<le> pad4 e @ ''-'' @ t \<longleftrightarrow> c < e \<or> c = e \<and> s \<le> t"
  using append_le_iff [of "pad2 a" "pad2 b" "''-'' @ s" "''-'' @ t"]
    append_le_iff [of "pad4 c" "pad4 e" "''-'' @ s" "''-'' @ t"]
  by (simp_all add: pad2_less pad2_eq pad4_less pad4_eq)

text \<open>The prefix comparison of the source is the comparison of days.\<close>

lemma prefix_compare:
  assumes "tenure_ok t" "0 \<le> year_of n" "year_of n < 10000"
  shows "(partialDateNotAfter (tenure_text t) (fmt_iso n) \<longleftrightarrow> first_day t \<le> n) \<and>
    (partialDateNotAfter (fmt_iso n) (tenure_text t) \<longleftrightarrow> n \<le> last_day t)"
proof -
  obtain Y M D where Y: "year_of n = int Y" "month_of n = int M" "day_of n = int D"
    using that [of "nat (year_of n)" "nat (month_of n)" "nat (day_of n)"] assms(2) month_of_bounds(1) [of n]
      day_of_bounds(1) [of n] by simp
  have r: "M < 100" "D < 100" "Y < 10000" "1 \<le> M" "M \<le> 12" "1 \<le> D" "D \<le> 31"
    "int D \<le> days_in_month (int Y) (int M)"
    using month_of_bounds [of n] day_of_bounds [of n] days_in_month_bounds(2) [of "year_of n" "month_of n"] assms(3)
    unfolding Y by auto
  have iso: "fmt_iso n = pad4 Y @ ''-'' @ pad2 M @ ''-'' @ pad2 D"
    using iso_text [OF assms(2,3)] by (simp add: Y)
  note day = date_le_iff [of _ _ _ n, unfolded Y]
  show ?thesis
  proof (cases t)
    case (Year y)
    have y: "y < 10000" using assms(1) Year by simp
    have "partialDateNotAfter (tenure_text t) (fmt_iso n) \<longleftrightarrow> y \<le> Y"
      "partialDateNotAfter (fmt_iso n) (tenure_text t) \<longleftrightarrow> Y \<le> y"
      using pad_le(2) [OF y r(3)] pad_le(2) [OF r(3) y] by (simp_all add: iso Year partialDateNotAfter_def)
    moreover have "go_date (int y) 1 1 \<le> n \<longleftrightarrow> y < Y \<or> y = Y \<and> (1 < M \<or> M = 1 \<and> 1 \<le> D)"
      "n \<le> go_date (int y) 12 31 \<longleftrightarrow> Y < y \<or> Y = y \<and> (M < 12 \<or> M = 12 \<and> D \<le> 31)"
      using day [of 1 1 "int y"] day [of 12 31 "int y"] by (auto simp: month_lengths)
    ultimately show ?thesis using r(4-7) by (auto simp: Year)
  next
    case (Month y m)
    have b: "y < 10000" "m < 100" using assms(1) Month by simp_all
    have "partialDateNotAfter (tenure_text t) (fmt_iso n) \<longleftrightarrow>
        pad4 y @ ''-'' @ pad2 m \<le> pad4 Y @ ''-'' @ pad2 M"
      "partialDateNotAfter (fmt_iso n) (tenure_text t) \<longleftrightarrow> pad4 Y @ ''-'' @ pad2 M \<le> pad4 y @ ''-'' @ pad2 m"
      by (simp_all add: Month iso partialDateNotAfter_def)
    then have "partialDateNotAfter (tenure_text t) (fmt_iso n) \<longleftrightarrow> y < Y \<or> y = Y \<and> m \<le> M"
      "partialDateNotAfter (fmt_iso n) (tenure_text t) \<longleftrightarrow> Y < y \<or> Y = y \<and> M \<le> m"
      unfolding pad_le_append(2) [OF b(1) r(3)] pad_le_append(2) [OF r(3) b(1)]
        pad_le(1) [OF b(2) r(1)] pad_le(1) [OF r(1) b(2)] .
    moreover have "first_day t \<le> n \<longleftrightarrow> y < Y \<or> y = Y \<and> (m < M \<or> m = M \<and> 1 \<le> D)"
      "n \<le> last_day t \<longleftrightarrow> Y < y \<or> Y = y \<and> (M < m \<or> M = m \<and> int D \<le> days_in_month (int y) (int m))"
      using Month assms(1) days_in_month_bounds(1) [of "int y" "int m"]
        day [of "int m" 1 "int y"] day [of "int m" "days_in_month (int y) (int m)" "int y"]
      by simp_all
    ultimately show ?thesis using r(6,8) by auto
  next
    case (Day y m d)
    have b: "y < 10000" "m < 100" "d < 100"
      using assms(1) Day days_in_month_bounds(2) [of "int y" "int m"] by simp_all
    have "partialDateNotAfter (tenure_text t) (fmt_iso n) \<longleftrightarrow>
        pad4 y @ ''-'' @ pad2 m @ ''-'' @ pad2 d \<le> pad4 Y @ ''-'' @ pad2 M @ ''-'' @ pad2 D"
      "partialDateNotAfter (fmt_iso n) (tenure_text t) \<longleftrightarrow>
        pad4 Y @ ''-'' @ pad2 M @ ''-'' @ pad2 D \<le> pad4 y @ ''-'' @ pad2 m @ ''-'' @ pad2 d"
      by (simp_all add: Day iso partialDateNotAfter_def)
    then have "partialDateNotAfter (tenure_text t) (fmt_iso n) \<longleftrightarrow> y < Y \<or> y = Y \<and> (m < M \<or> m = M \<and> d \<le> D)"
      "partialDateNotAfter (fmt_iso n) (tenure_text t) \<longleftrightarrow> Y < y \<or> Y = y \<and> (M < m \<or> M = m \<and> D \<le> d)"
      unfolding pad_le_append(2) [OF b(1) r(3)] pad_le_append(2) [OF r(3) b(1)]
        pad_le_append(1) [OF b(2) r(1)] pad_le_append(1) [OF r(1) b(2)]
        pad_le(1) [OF b(3) r(2)] pad_le(1) [OF r(2) b(3)] .
    moreover have "first_day t \<le> n \<longleftrightarrow> y < Y \<or> y = Y \<and> (m < M \<or> m = M \<and> d \<le> D)"
      "n \<le> last_day t \<longleftrightarrow> Y < y \<or> Y = y \<and> (M < m \<or> M = m \<and> D \<le> d)"
      using Day assms(1) day [of "int m" "int d" "int y"] by simp_all
    ultimately show ?thesis by simp
  qed
qed

lemma digit_pads:
  "y < 10000 \<Longrightarrow> list_all is_digit (pad4 y)" "m < 100 \<Longrightarrow> list_all is_digit (pad2 m)"
  by (simp_all add: pad4_def pad2_def)

lemma digit_text_ends:
  assumes "list_all is_digit a" "list_all is_digit b" "a \<noteq> []" "b \<noteq> []"
  shows "trim_space a = a" "trim_space (a @ s @ b) = a @ s @ b"
  using assms
  by (intro trim_space_id; auto simp: list_all_iff hd_append digit_not_space)+

lemma tenure_prefix:
  assumes "tenure_ok t"
  shows "tenureDatePrefix (tenure_text t) = Some (tenure_text t)"
proof (cases t)
  case (Year y)
  have y: "list_all is_digit (pad4 y)" using assms Year by (simp add: digit_pads)
  have "trim_space (pad4 y) = pad4 y" by (rule digit_text_ends(1) [OF y y]) (simp_all add: pad4_def)
  then show ?thesis using y by (simp add: Year tenureDatePrefix_def dash_two_def)
next
  case (Month y m)
  have d: "list_all is_digit (pad4 y)" "list_all is_digit (pad2 m)" using assms Month by (simp_all add: digit_pads)
  have "trim_space (pad4 y @ ''-'' @ pad2 m) = pad4 y @ ''-'' @ pad2 m"
    by (rule digit_text_ends(2) [OF d]) (simp_all add: pad4_def pad2_def)
  moreover have "dash_two (CHR ''-'' # pad2 m)" using d(2) by (simp add: dash_two_def pad2_def)
  moreover have "\<not> dash_two []" by (simp add: dash_two_def)
  ultimately show ?thesis using d by (simp add: Month tenureDatePrefix_def)
next
  case (Day y m d)
  have "int d \<le> 31" using assms Day days_in_month_bounds(2) [of "int y" "int m"] by simp
  then have ds: "list_all is_digit (pad4 y)" "list_all is_digit (pad2 m)" "list_all is_digit (pad2 d)"
    using assms Day by (simp_all add: digit_pads)
  have "trim_space (pad4 y @ (''-'' @ pad2 m @ ''-'') @ pad2 d) = pad4 y @ (''-'' @ pad2 m @ ''-'') @ pad2 d"
    by (rule digit_text_ends(2) [OF ds(1,3)]) (simp_all add: pad4_def pad2_def)
  moreover have "dash_two (CHR ''-'' # pad2 m @ s)" "dash_two (CHR ''-'' # pad2 d)" for s
    using ds by (simp_all add: dash_two_def pad2_def)
  ultimately show ?thesis using ds by (simp add: Day tenureDatePrefix_def)
qed

text \<open>A household membership with well-formed bounds is current exactly on the days from the first day
  its start denotes through the last day its end denotes: a start of \<open>2026-11\<close> begins on the first, an
  end of \<open>2026-10\<close> runs to the thirty-first.\<close>

lemma tenure_is_a_span_of_days:
  assumes "pred_option tenure_ok s" "pred_option tenure_ok e" "0 \<le> year_of n" "year_of n < 10000"
  shows "ambientTenureCurrent (case_option [] tenure_text s) (case_option [] tenure_text e) (fmt_iso n) \<longleftrightarrow>
    n \<in> (case s of None \<Rightarrow> UNIV | Some t \<Rightarrow> {first_day t..}) \<inter> (case e of None \<Rightarrow> UNIV | Some t \<Rightarrow> {..last_day t})"
proof -
  have ne: "tenure_text t \<noteq> []" for t by (cases t) (simp_all add: pad4_def)
  have "case_option [] tenure_text s \<noteq> [] \<longleftrightarrow> s \<noteq> None" "case_option [] tenure_text e \<noteq> [] \<longleftrightarrow> e \<noteq> None"
    using ne by (simp_all split: option.split)
  then show ?thesis
    using assms tenure_prefix prefix_compare [OF _ assms(3,4)]
    by (auto simp: ambientTenureCurrent_def split: option.splits)
qed

lemma tenure_is_a_span_of_days_witness:
  "ambientTenureCurrent ''2024-11'' ''2025'' (fmt_iso (go_date 2025 12 31))"
proof -
  have y: "year_of (go_date 2025 12 31) = 2025" by (rule go_date_valid(1)) (simp_all add: days_in_month_def)
  have s: "tenure_text (Month 2024 11) = ''2024-11''" "tenure_text (Year 2025) = ''2025''" by code_simp+
  have d: "go_date 2024 11 1 \<le> go_date 2025 12 31" by code_simp
  show ?thesis
    using tenure_is_a_span_of_days [of "Some (Month 2024 11)" "Some (Year 2025)" "go_date 2025 12 31"] d
    by (simp add: y s del: tenure_text.simps)
qed

section \<open>Ambient contacts\<close>

record household_member =
  hm_id :: nat
  hm_household :: string
  hm_user :: nat
  hm_member :: string
  hm_since :: string
  hm_until :: string

text \<open>The rows of the bulk query: a contact, its flag and, when the self contact shares a household with
  it, the two tenures; \<open>self\<close> is the identifier of the user's own contact.\<close>

definition shared_rows :: "household_member list \<Rightarrow> nat \<Rightarrow> string option \<Rightarrow> contact \<Rightarrow>
    (household_member \<times> household_member) option list" where
  "shared_rows members u self c =
     (let hms = filter (\<lambda>hm. hm_member hm = con_vcard_uid c \<and> hm_user hm = u) members;
          hss = (\<lambda>hm. filter (\<lambda>hs. hm_household hs = hm_household hm \<and> hm_id hs \<noteq> hm_id hm \<and>
                                   hm_user hs = u \<and> Some (hm_member hs) = self) members)
      in if hms = [] then [None]
         else concat (map (\<lambda>hm. if hss hm = [] then [None] else map (\<lambda>hs. Some (hm, hs)) (hss hm)) hms))"

definition ambient_rows :: "contact list \<Rightarrow> household_member list \<Rightarrow> nat \<Rightarrow> string option \<Rightarrow> string list \<Rightarrow>
    (string \<times> bool \<times> (household_member \<times> household_member) option) list" where
  "ambient_rows contacts members u self uids =
     filter (\<lambda>(uid, flag, shared). flag \<or> shared \<noteq> None)
       (concat (map (\<lambda>c. map (\<lambda>s. (con_vcard_uid c, con_ambient c, s)) (shared_rows members u self c))
          (filter (\<lambda>c. con_user c = u \<and> con_vcard_uid c \<in> set uids \<and>
                       con_vcard_uid c \<noteq> (case self of None \<Rightarrow> [] | Some s \<Rightarrow> s)) contacts)))"

definition both_current :: "string \<Rightarrow> (household_member \<times> household_member) option \<Rightarrow> bool" where
  "both_current today shared =
     (case shared of None \<Rightarrow> False
      | Some (hm, hs) \<Rightarrow> ambientTenureCurrent (hm_since hm) (hm_until hm) today \<and>
                        ambientTenureCurrent (hm_since hs) (hm_until hs) today)"

definition ambient_step :: "string \<Rightarrow> (string \<rightharpoonup> string) \<Rightarrow>
    string \<times> bool \<times> (household_member \<times> household_member) option \<Rightarrow> (string \<rightharpoonup> string)" where
  "ambient_step today result row =
     (case row of (uid, flag, shared) \<Rightarrow>
        if both_current today shared then result(uid \<mapsto> ''household'')
        else if flag \<and> result uid = None then result(uid \<mapsto> ''flag'')
        else result)"

definition ambientByEntityID :: "contact list \<Rightarrow> household_member list \<Rightarrow> nat \<Rightarrow> string option \<Rightarrow> string list \<Rightarrow>
    int \<Rightarrow> string \<rightharpoonup> string" where
  "ambientByEntityID contacts members u self uids n =
     (if uids = [] then Map.empty
      else foldl (ambient_step (fmt_iso n)) Map.empty (ambient_rows contacts members u self uids))"

lemma ambient_fold:
  "foldl (ambient_step today) r rows uid =
     (if \<exists>(x, flag, shared) \<in> set rows. x = uid \<and> both_current today shared then Some ''household''
      else if r uid \<noteq> None then r uid
      else if \<exists>(x, flag, shared) \<in> set rows. x = uid \<and> flag then Some ''flag'' else None)"
proof (induction rows arbitrary: r)
  case (Cons row rows)
  obtain x flag shared where row: "row = (x, flag, shared)" by (cases row) auto
  show ?case
  proof (cases "x = uid")
    case True
    then show ?thesis
      unfolding foldl_Cons Cons.IH by (auto simp: row ambient_step_def)
  next
    case False
    then have "ambient_step today r row uid = r uid" by (simp add: row ambient_step_def)
    then show ?thesis using False unfolding foldl_Cons Cons.IH by (auto simp: row)
  qed
qed simp

section \<open>The overdue list\<close>

record overdue_cadence =
  oc_policy :: cadence_policy
  oc_health :: cadence_health
  oc_contact :: nat
  oc_name :: string
  oc_photo_thumbnail :: string

text \<open>\<open>contacts\<close> are the live contacts of the instance; \<open>ExcludeSelfContact\<close> drops the user's own.\<close>

definition excludes_self :: "string option \<Rightarrow> contact \<Rightarrow> bool" where
  "excludes_self self c \<longleftrightarrow> Some (con_vcard_uid c) \<noteq> self"

definition contact_of_uid :: "contact list \<Rightarrow> nat \<Rightarrow> string option \<Rightarrow> string list \<Rightarrow> string \<Rightarrow> contact option" where
  "contact_of_uid contacts u self uids uid =
     find (\<lambda>c. con_vcard_uid c = uid)
       (rev (filter (\<lambda>c. con_user c = u \<and> con_vcard_uid c \<in> set uids \<and> excludes_self self c) contacts))"

definition overdue_entry :: "contact list \<Rightarrow> nat \<Rightarrow> string option \<Rightarrow> string list \<Rightarrow> (string \<rightharpoonup> string) \<Rightarrow>
    cadence_policy \<times> cadence_health \<Rightarrow> overdue_cadence list" where
  "overdue_entry contacts u self uids ambient cand =
     (case cand of (p, h) \<Rightarrow>
        if ambient (cp_entity p) \<noteq> None then []
        else (case contact_of_uid contacts u self uids (cp_entity p) of
                None \<Rightarrow> []
              | Some c \<Rightarrow> if IsDeceased (con_card c) then []
                  else [\<lparr>oc_policy = p, oc_health = h, oc_contact = con_id c,
                         oc_name = trim_space (con_firstname c @ '' '' @ con_lastname c),
                         oc_photo_thumbnail = con_photo_thumbnail c\<rparr>]))"

definition ListOverdueCadences :: "cadence_db \<Rightarrow> contact list \<Rightarrow> household_member list \<Rightarrow> string option \<Rightarrow>
    cadence_policy list \<Rightarrow> nat \<Rightarrow> zone \<Rightarrow> int \<Rightarrow> overdue_cadence list" where
  "ListOverdueCadences db contacts members self all_policies u z now =
     (let policies = filter (\<lambda>p. cp_user p = u) all_policies;
          cands = filter (\<lambda>(p, h). 0 < ch_overdue_by h)
            (map (\<lambda>p. (p, deriveHealth (fetchLastInteractionDates db u policies p) (cp_interval p) z now)) policies);
          uids = remdups (map (cp_entity \<circ> fst) cands);
          ambient = ambientByEntityID contacts members u self uids (civil_day z now)
      in stable_sort_by (\<lambda>a b. ch_overdue_by (oc_health b) < ch_overdue_by (oc_health a))
           (concat (map (overdue_entry contacts u self uids ambient) cands)))"

text \<open>Whether the stored rows make a contact ambient for the user on a day.\<close>

definition is_ambient :: "contact list \<Rightarrow> household_member list \<Rightarrow> nat \<Rightarrow> string option \<Rightarrow> string \<Rightarrow> int \<Rightarrow> bool" where
  "is_ambient contacts members u self uid n \<longleftrightarrow>
     (\<exists>(x, flag, shared) \<in> set (ambient_rows contacts members u self [uid]).
        x = uid \<and> (flag \<or> both_current (fmt_iso n) shared))"

lemma ambient_rows_uid:
  "(x, flag, shared) \<in> set (ambient_rows contacts members u self uids) \<longleftrightarrow>
     x \<in> set uids \<and> (x, flag, shared) \<in> set (ambient_rows contacts members u self [x])"
  by (auto simp: ambient_rows_def)

lemma ambient_iff:
  assumes "uid \<in> set uids"
  shows "ambientByEntityID contacts members u self uids n uid \<noteq> None \<longleftrightarrow>
    is_ambient contacts members u self uid n"
proof -
  have "uids \<noteq> []" using assms by auto
  then show ?thesis
    using ambient_rows_uid [of uid _ _ contacts members u self uids] assms
    unfolding ambientByEntityID_def ambient_fold is_ambient_def
    by (auto split: if_splits; fastforce)
qed

lemma contact_of_uid_mem:
  "uid \<in> set uids \<Longrightarrow> contact_of_uid contacts u self uids uid = contact_of_uid contacts u self [uid] uid"
proof -
  assume uid: "uid \<in> set uids"
  have "find (\<lambda>c. con_vcard_uid c = uid) (filter (\<lambda>c. P c \<and> con_vcard_uid c \<in> set uids \<and> Q c) cs) =
      find (\<lambda>c. con_vcard_uid c = uid) (filter (\<lambda>c. P c \<and> con_vcard_uid c \<in> set [uid] \<and> Q c) cs)" for cs P Q
    using uid by (induction cs) auto
  from this [of "\<lambda>c. con_user c = u" "excludes_self self" "rev contacts"] show ?thesis
    by (simp add: contact_of_uid_def rev_filter)
qed

lemma image_concat_map:
  assumes "\<And>x q h. x \<in> set (f (q, h)) \<Longrightarrow> g x = q" "\<And>q h. (q, h) \<in> set cs \<Longrightarrow> h = k q"
  shows "p \<in> g ` set (concat (map f cs)) \<longleftrightarrow> (p, k p) \<in> set cs \<and> f (p, k p) \<noteq> []"
proof
  assume "p \<in> g ` set (concat (map f cs))"
  then obtain q h x where x: "(q, h) \<in> set cs" "x \<in> set (f (q, h))" "p = g x" by auto
  moreover have "q = p" using assms(1) [OF x(2)] x(3) by simp
  ultimately show "(p, k p) \<in> set cs \<and> f (p, k p) \<noteq> []" using assms(2) [OF x(1)] by auto
next
  assume a: "(p, k p) \<in> set cs \<and> f (p, k p) \<noteq> []"
  then obtain x where x: "x \<in> set (f (p, k p))" by (meson last_in_set)
  have "x \<in> set (concat (map f cs))" using a x by auto
  then show "p \<in> g ` set (concat (map f cs))" using assms(1) [OF x] by blast
qed

lemma iff_chain: "(P \<longleftrightarrow> C \<and> E) \<Longrightarrow> (C \<Longrightarrow> E \<longleftrightarrow> X) \<Longrightarrow> (C \<longleftrightarrow> Y) \<Longrightarrow> P \<longleftrightarrow> Y \<and> X"
  by blast


section \<open>Health of one policy and of a page\<close>

definition ComputeCadenceHealth where
  "ComputeCadenceHealth db contacts members self u p z now =
     withAmbient (deriveHealth (lastQualifyingInteraction db u p) (cp_interval p) z now)
       (case ambientByEntityID contacts members u self [cp_entity p] (civil_day z now) (cp_entity p) of
          None \<Rightarrow> [] | Some r \<Rightarrow> r)"

definition ComputeCadenceHealthBatch where
  "ComputeCadenceHealthBatch db contacts members self u ps z now p =
     withAmbient (deriveHealth (fetchLastInteractionDates db u ps p) (cp_interval p) z now)
       (case ambientByEntityID contacts members u self (map cp_entity ps) (civil_day z now) (cp_entity p) of
          None \<Rightarrow> [] | Some r \<Rightarrow> r)"

lemma ambient_alone:
  assumes "uid \<in> set uids"
  shows "ambientByEntityID contacts members u self uids n uid = ambientByEntityID contacts members u self [uid] n uid"
proof -
  have ne: "uids \<noteq> []" using assms by auto
  have rows: "(\<exists>(x, flag, shared) \<in> set (ambient_rows contacts members u self uids). x = uid \<and> P flag shared) \<longleftrightarrow>
      (\<exists>(x, flag, shared) \<in> set (ambient_rows contacts members u self [uid]). x = uid \<and> P flag shared)" for P
    using ambient_rows_uid [of uid _ _ contacts members u self uids] assms by fastforce
  from ne rows [of "\<lambda>f s. both_current (fmt_iso n) s"] rows [of "\<lambda>f s. f"]
  show ?thesis unfolding ambientByEntityID_def ambient_fold by simp
qed

text \<open>The bulk health of a page agrees with the health of each policy computed alone, ambient reason
  included, when no more than one gift row of the contact can count.\<close>

lemma health_batch_agrees:
  assumes "p \<in> set ps" "\<not> policyAcceptsGifts p \<or> length (givenGiftDateRows db u [cp_entity p]) \<le> 1"
  shows "ComputeCadenceHealthBatch db contacts members self u ps z now p =
    ComputeCadenceHealth db contacts members self u p z now"
proof -
  have "cp_entity p \<in> set (map cp_entity ps)" using assms(1) by simp
  from ambient_alone [OF this] show ?thesis
    by (simp add: ComputeCadenceHealthBatch_def ComputeCadenceHealth_def single_agrees_with_batch [OF assms])
qed

lemma health_batch_agrees_witness:
  "ComputeCadenceHealthBatch (gift_db [3]) [] [] None 5 [gift_policy] utc 0 gift_policy =
   ComputeCadenceHealth (gift_db [3]) [] [] None 5 gift_policy utc 0"
  by (rule health_batch_agrees) (simp_all add: gift_policy_def gift_db_rows)

end
