(* ===== verification/SelfContact.thy ===== *)
theory SelfContact imports Main begin

text \<open>
  The user's own contact (\<open>backend/services/self_contact.go\<close>): marking a contact as ``Me'' turns its
  ambient flag on, leaving it turns the flag off again only when marking had turned it on; a manual edit
  of the flag (\<open>saveContact\<close> in \<open>services/contact_write.go\<close>) takes it over. The state is the user's
  pointer (the empty string for none), the provenance bit and the flags of the user's live contacts.
\<close>

record me_state =
  ms_self :: string
  ms_ambient_set :: bool
  ms_ambient :: "string \<rightharpoonup> bool"

text \<open>The new flags and whether the stored value changed; a missing contact is no error.\<close>

definition setContactAmbient :: "(string \<rightharpoonup> bool) \<Rightarrow> string \<Rightarrow> bool \<Rightarrow> (string \<rightharpoonup> bool) \<times> bool" where
  "setContactAmbient amb uid v =
     (case amb uid of None \<Rightarrow> (amb, False)
      | Some b \<Rightarrow> if b = v then (amb, False) else (amb(uid \<mapsto> v), True))"

definition writeSelfContact :: "me_state \<Rightarrow> string \<Rightarrow> bool \<Rightarrow> (string \<rightharpoonup> bool) \<Rightarrow> me_state" where
  "writeSelfContact s uid provenance amb =
     s\<lparr>ms_self := uid, ms_ambient_set := provenance, ms_ambient := amb\<rparr>"

definition ApplySelfContact :: "me_state \<Rightarrow> string \<Rightarrow> me_state" where
  "ApplySelfContact s newUID =
     (let prevUID = ms_self s; provenance = ms_ambient_set s; amb = ms_ambient s
      in if prevUID = newUID \<and> newUID \<noteq> [] then
           (case setContactAmbient amb newUID True of (amb', changed) \<Rightarrow>
              writeSelfContact s newUID (if changed then True else provenance) amb')
         else
           (let amb1 = (if prevUID \<noteq> [] \<and> provenance then fst (setContactAmbient amb prevUID False) else amb)
            in if newUID \<noteq> [] then
                 (case setContactAmbient amb1 newUID True of (amb2, changed) \<Rightarrow> writeSelfContact s newUID changed amb2)
               else writeSelfContact s newUID False amb1))"

definition ClearSelfAmbientProvenanceIfMe :: "me_state \<Rightarrow> string \<Rightarrow> me_state" where
  "ClearSelfAmbientProvenanceIfMe s uid =
     (if ms_self s = uid \<and> ms_ambient_set s then s\<lparr>ms_ambient_set := False\<rparr> else s)"

text \<open>An update of a live contact that leaves its flag at \<open>v\<close>.\<close>

definition save_contact_flag :: "me_state \<Rightarrow> string \<Rightarrow> bool \<Rightarrow> me_state" where
  "save_contact_flag s uid v =
     (let s1 = s\<lparr>ms_ambient := (ms_ambient s)(uid \<mapsto> v)\<rparr>
      in if ms_ambient s uid \<noteq> Some v then ClearSelfAmbientProvenanceIfMe s1 uid else s1)"

section \<open>Histories\<close>

text \<open>Reachable states, with the flags as the user last chose them: the initial ones, overridden by every
  edit that changes a flag. A pointer is moved only to a live contact or cleared.\<close>

inductive history :: "(string \<rightharpoonup> bool) \<Rightarrow> me_state \<Rightarrow> bool" where
  start: "[] \<notin> dom amb \<Longrightarrow> history amb \<lparr>ms_self = [], ms_ambient_set = False, ms_ambient = amb\<rparr>"
| mark: "history ch s \<Longrightarrow> new = [] \<or> new \<in> dom (ms_ambient s) \<Longrightarrow> history ch (ApplySelfContact s new)"
| edit: "history ch s \<Longrightarrow> ms_ambient s uid = Some b \<Longrightarrow>
     history (if b = v then ch else ch(uid \<mapsto> v)) (save_contact_flag s uid v)"

text \<open>Off the own contact the flags are the chosen ones; on it they are too, unless marking turned the
  flag on over a chosen off.\<close>

definition owned_flags :: "(string \<rightharpoonup> bool) \<Rightarrow> me_state \<Rightarrow> bool" where
  "owned_flags ch s \<longleftrightarrow> [] \<notin> dom (ms_ambient s) \<and>
     (if ms_ambient_set s then ms_ambient s (ms_self s) = Some True \<and> ch = (ms_ambient s)(ms_self s \<mapsto> False)
      else ch = ms_ambient s)"

lemma upd_same [simp]: "f x = Some v \<Longrightarrow> f(x \<mapsto> v) = f"
  by (simp add: fun_upd_idem)

lemma mark_owned:
  assumes "owned_flags ch s" "new = [] \<or> new \<in> dom (ms_ambient s)"
  shows "owned_flags ch (ApplySelfContact s new)"
proof -
  have self: "ms_ambient_set s \<Longrightarrow> ms_self s \<noteq> []" using assms(1) by (auto simp: owned_flags_def)
  define amb1 where "amb1 = (if ms_self s \<noteq> [] \<and> ms_ambient_set s
      then fst (setContactAmbient (ms_ambient s) (ms_self s) False) else ms_ambient s)"
  have amb1: "amb1 = ch" "dom amb1 = dom (ms_ambient s)"
    using assms(1) self by (cases "ms_ambient_set s"; auto simp: owned_flags_def amb1_def setContactAmbient_def)+
  show ?thesis
  proof (cases "ms_self s = new \<and> new \<noteq> []")
    case True
    then obtain b where b: "ms_ambient s new = Some b" using assms(2) by auto
    show ?thesis
      using True assms(1) b
      by (cases b; cases "ms_ambient_set s")
        (auto simp: ApplySelfContact_def Let_def setContactAmbient_def writeSelfContact_def owned_flags_def)
  next
    case False
    then have eq: "ApplySelfContact s new =
        (if new \<noteq> [] then (case setContactAmbient amb1 new True of (amb2, changed) \<Rightarrow> writeSelfContact s new changed amb2)
         else writeSelfContact s new False amb1)"
      by (simp add: ApplySelfContact_def Let_def amb1_def del: not_Cons_self2)
    have nil: "[] \<notin> dom ch" using assms(1) amb1 by (simp add: owned_flags_def)
    show ?thesis
    proof (cases "new = []")
      case True
      then show ?thesis unfolding eq using nil by (simp add: writeSelfContact_def owned_flags_def amb1)
    next
      case False
      then obtain b where "ch new = Some b" using assms(2) amb1 by auto
      then show ?thesis
        unfolding eq using False nil
        by (cases b) (auto simp: setContactAmbient_def writeSelfContact_def owned_flags_def amb1(1))
    qed
  qed
qed

lemma edit_owned:
  assumes "owned_flags ch s" "ms_ambient s uid = Some b"
  shows "owned_flags (if b = v then ch else ch(uid \<mapsto> v)) (save_contact_flag s uid v)"
proof (cases "b = v")
  case True
  then show ?thesis using assms by (simp add: save_contact_flag_def)
next
  case False
  have dom: "[] \<noteq> uid" using assms by (auto simp: owned_flags_def)
  show ?thesis
  proof (cases "ms_self s = uid")
    case True
    then show ?thesis
      using assms False dom
      by (auto simp: save_contact_flag_def Let_def ClearSelfAmbientProvenanceIfMe_def owned_flags_def split: if_splits)
  next
    case uid: False
    then show ?thesis
      using assms False dom
      by (auto simp: save_contact_flag_def Let_def ClearSelfAmbientProvenanceIfMe_def owned_flags_def fun_upd_twist
          split: if_splits)
  qed
qed

lemma history_owned: "history ch s \<Longrightarrow> owned_flags ch s"
proof (induction rule: history.induct)
  case (start amb)
  then show ?case by (simp add: owned_flags_def)
next
  case (mark ch s new)
  then show ?case by (simp add: mark_owned)
next
  case (edit ch s uid b v)
  then show ?case by (intro edit_owned)
qed

text \<open>C11: however often the pointer is moved, re-marked and cleared and the flags are edited in between,
  clearing it leaves every contact with the ambient flag its user last chose.\<close>

theorem unmark_restores_choices:
  assumes "history ch s"
  shows "ms_ambient (ApplySelfContact s []) = ch \<and> \<not> ms_ambient_set (ApplySelfContact s [])"
proof -
  have "owned_flags ch (ApplySelfContact s [])" using mark_owned [OF history_owned [OF assms]] by simp
  moreover have "\<not> ms_ambient_set (ApplySelfContact s [])"
    by (simp add: ApplySelfContact_def Let_def writeSelfContact_def)
  ultimately show ?thesis by (simp add: owned_flags_def)
qed

lemma unmark_restores_choices_witness:
  "ms_ambient (ApplySelfContact (ApplySelfContact
     \<lparr>ms_self = [], ms_ambient_set = False, ms_ambient = [''a'' \<mapsto> False]\<rparr> ''a'') []) ''a'' = Some False"
proof -
  have "history [''a'' \<mapsto> False] (ApplySelfContact
     \<lparr>ms_self = [], ms_ambient_set = False, ms_ambient = [''a'' \<mapsto> False]\<rparr> ''a'')"
    by (intro history.mark history.start) simp_all
  from unmark_restores_choices [OF this] show ?thesis by simp
qed

end
