(* ===== verification/JobLock.thy ===== *)
theory JobLock imports GoTime begin

text \<open>
  The lock of a scheduled job (\<open>backend/services/job_lock.go\<close>): a row per job in the database, taken and
  released in write transactions by any number of server instances. Times and durations are integers of
  nanoseconds. The interleavings of the instances are a step relation in which every transaction is one
  step; a run may end in success, in failure or in a crash that releases nothing.
\<close>

section \<open>The row and its transactions\<close>

record job_execution =
  je_last_run :: int
  je_locked_at :: "int option"
  je_locked_by :: string
  je_last_outcome :: string

definition JobCatchupMargin :: int where "JobCatchupMargin = 30 * minute"

definition JobCatchupWindow :: "int \<Rightarrow> int" where
  "JobCatchupWindow period =
     (if period \<le> 0 then JobCatchupMargin
      else (let q = trunc_quot period 4; margin = (if q < JobCatchupMargin then q else JobCatchupMargin)
            in period - margin))"

definition lockTimeout :: int where "lockTimeout = 5 * minute"

datatype lock_error = RanTooRecently | LockedByOther | Busy | OtherError

text \<open>The transaction of \<open>acquireJobLock\<close> on the row as read.\<close>

definition acquire_tx :: "job_execution option \<Rightarrow> string \<Rightarrow> int \<Rightarrow> int \<Rightarrow> lock_error + job_execution" where
  "acquire_tx row instanceID now minInterval =
     (case row of
        None \<Rightarrow> Inr \<lparr>je_last_run = now, je_locked_at = Some now, je_locked_by = instanceID,
                     je_last_outcome = ''running''\<rparr>
      | Some job \<Rightarrow>
          (let since = sub_time now (je_last_run job)
           in if since < minInterval then Inl RanTooRecently
              else if (case je_locked_at job of None \<Rightarrow> False
                       | Some l \<Rightarrow> sub_time now l < lockTimeout \<and> je_locked_by job \<noteq> instanceID)
              then Inl LockedByOther
              else Inr (job\<lparr>je_locked_at := Some now, je_locked_by := instanceID,
                            je_last_outcome := (if 2 * minInterval \<le> since then ''caught_up'' else ''running'')\<rparr>)))"

text \<open>A transaction that meets a busy database is rolled back and tried again, at most five times in
  all. The argument of the operation is the number of the attempt.\<close>

fun retryJobLockOnBusy :: "nat \<Rightarrow> (nat \<Rightarrow> lock_error + 'a) \<Rightarrow> nat \<Rightarrow> (lock_error + 'a) \<times> nat" where
  "retryJobLockOnBusy 0 op attempt = (op attempt, attempt)"
| "retryJobLockOnBusy (Suc left) op attempt =
     (if op attempt \<noteq> Inl Busy then (op attempt, attempt) else retryJobLockOnBusy left op (Suc attempt))"

definition jobLockBusyMaxAttempts :: nat where "jobLockBusyMaxAttempts = 5"

definition retried :: "(nat \<Rightarrow> bool) \<Rightarrow> (lock_error + 'a) \<Rightarrow> lock_error + 'a" where
  "retried busy tx =
     fst (retryJobLockOnBusy (jobLockBusyMaxAttempts - 1) (\<lambda>a. if busy a then Inl Busy else tx) 1)"

definition record_deduped :: "job_execution option \<Rightarrow> job_execution option" where
  "record_deduped row = map_option (\<lambda>j. j\<lparr>je_last_outcome := ''deduped''\<rparr>) row"

text \<open>The two calls: the row afterwards, and whether the caller may run the job respectively whether the
  release went through. The predicate says which attempts find the database busy.\<close>

definition acquireJobLock ::
  "(nat \<Rightarrow> bool) \<Rightarrow> job_execution option \<Rightarrow> string \<Rightarrow> int \<Rightarrow> int \<Rightarrow> job_execution option \<times> bool" where
  "acquireJobLock busy row instanceID now minInterval =
     (case retried busy (acquire_tx row instanceID now minInterval) of
        Inr job \<Rightarrow> (Some job, True)
      | Inl e \<Rightarrow> (if e = RanTooRecently then record_deduped row else row, False))"

definition release_tx ::
  "job_execution option \<Rightarrow> string \<Rightarrow> int \<Rightarrow> bool \<Rightarrow> lock_error + job_execution" where
  "release_tx row instanceID now success =
     (case row of
        None \<Rightarrow> Inl OtherError
      | Some job \<Rightarrow>
          if je_locked_by job \<noteq> instanceID then Inr job
          else Inr (job\<lparr>
             je_last_run := (if success then now else je_last_run job),
             je_last_outcome := (if success
               then (if je_last_outcome job = ''running'' \<or> je_last_outcome job = [] then ''ran''
                     else je_last_outcome job)
               else ''failed''),
             je_locked_at := None, je_locked_by := []\<rparr>))"

definition releaseJobLock ::
  "(nat \<Rightarrow> bool) \<Rightarrow> job_execution option \<Rightarrow> string \<Rightarrow> int \<Rightarrow> bool \<Rightarrow> job_execution option \<times> bool" where
  "releaseJobLock busy row instanceID now success =
     (case retried busy (release_tx row instanceID now success) of
        Inr job \<Rightarrow> (Some job, True)
      | Inl _ \<Rightarrow> (row, False))"

section \<open>The window and the retry\<close>

text \<open>The de-duplication window of a job is shorter than its period, by thirty minutes or by at most a
  quarter of the period, so a run on schedule is never suppressed by the run before it.\<close>

lemma catchup_window_bounds:
  assumes "4 \<le> period"
  shows "3 * period \<le> 4 * JobCatchupWindow period \<and> JobCatchupWindow period < period \<and>
    period - JobCatchupMargin \<le> JobCatchupWindow period"
proof -
  have q: "trunc_quot period 4 = period div 4" using assms by (simp add: trunc_quot_def)
  have "0 < JobCatchupMargin" by (simp add: JobCatchupMargin_def dur_defs)
  moreover have "1 \<le> period div 4" "4 * (period div 4) \<le> period" using assms by presburger+
  ultimately show ?thesis using assms by (auto simp: JobCatchupWindow_def q Let_def)
qed

lemma catchup_window_bounds_witness:
  "JobCatchupWindow (24 * hour) < 24 * hour"
  using catchup_window_bounds [of "24 * hour"] by (simp add: dur_defs)

lemma retry_spec:
  assumes "retryJobLockOnBusy left op a = (res, n)"
  shows "a \<le> n" and "n \<le> a + left" and "res = op n" and "a \<le> i \<Longrightarrow> i < n \<Longrightarrow> op i = Inl Busy"
    and "res = Inl Busy \<Longrightarrow> n = a + left"
proof -
  have "a \<le> n \<and> n \<le> a + left \<and> res = op n \<and> (\<forall>i. a \<le> i \<longrightarrow> i < n \<longrightarrow> op i = Inl Busy) \<and>
    (res = Inl Busy \<longrightarrow> n = a + left)"
    using assms
  proof (induction left arbitrary: a)
    case 0
    then show ?case by auto
  next
    case (Suc left)
    show ?case
    proof (cases "op a = Inl Busy")
      case True
      then have "retryJobLockOnBusy left op (Suc a) = (res, n)" using Suc.prems by simp
      note IH = Suc.IH [OF this]
      have "op i = Inl Busy" if "a \<le> i" "i < n" for i
        using IH True that by (cases "i = a") (fastforce dest: le_neq_implies_less)+
      with IH show ?thesis by fastforce
    next
      case False
      then show ?thesis using Suc.prems by fastforce
    qed
  qed
  then show "a \<le> n" "n \<le> a + left" "res = op n" "a \<le> i \<Longrightarrow> i < n \<Longrightarrow> op i = Inl Busy"
    "res = Inl Busy \<Longrightarrow> n = a + left" by blast+
qed

lemma retried_cases:
  "retried busy tx = tx \<or> retried busy tx = Inl Busy"
proof -
  obtain res n where r: "retryJobLockOnBusy (jobLockBusyMaxAttempts - 1) (\<lambda>a. if busy a then Inl Busy else tx) 1 = (res, n)"
    by fastforce
  from retry_spec(3) [OF r] show ?thesis unfolding retried_def r by simp
qed

lemma retried_value:
  "retried busy tx = (if \<forall>a\<in>{1..5}. busy a then Inl Busy else tx)"
proof -
  define op where "op = (\<lambda>a. if busy a then Inl Busy else tx)"
  obtain res n where r: "retryJobLockOnBusy (5 - 1) op 1 = (res, n)" by fastforce
  note spec = retry_spec [OF r]
  have res: "retried busy tx = res" by (simp only: retried_def jobLockBusyMaxAttempts_def op_def [symmetric] r fst_conv)
  show ?thesis
  proof (cases "busy n")
    case True
    then have "res = Inl Busy" using spec(3) by (simp add: op_def)
    then have "n = 5" using spec(5) by simp
    have "op i = Inl Busy" if "1 \<le> i" "i \<le> 5" for i
      using spec(4) [of i] \<open>res = Inl Busy\<close> spec(3) that \<open>n = 5\<close> by (cases "i = n") auto
    then have "tx = Inl Busy \<or> (\<forall>a\<in>{1..5}. busy a)" by (fastforce simp: op_def split: if_splits)
    with \<open>res = Inl Busy\<close> res show ?thesis by auto
  next
    case False
    then have "res = tx" using spec(3) by (simp add: op_def)
    moreover have "1 \<le> n" "n \<le> 5" using spec(1,2) by simp_all
    ultimately show ?thesis using False res by auto
  qed
qed

lemma retried_free [simp]: "retried (\<lambda>_. False) tx = tx"
  unfolding retried_value by (simp add: exI [of _ 1])

text \<open>The retry makes at most five attempts. It gives up on a busy database only when all five
  attempts found it busy, and otherwise it returns what one undisturbed transaction returns, so the
  result does not depend on how many attempts were lost.\<close>

lemma retried_exact:
  "retried busy tx = (if busy 1 \<and> busy 2 \<and> busy 3 \<and> busy 4 \<and> busy 5 then Inl Busy else tx)"
proof -
  have "{1..5} = {1, 2, 3, 4, 5 :: nat}" by auto
  then show ?thesis unfolding retried_value by simp
qed

section \<open>The instances and their interleavings\<close>

record job_sys =
  clock :: int
  sys_row :: "job_execution option"
  running :: "string \<Rightarrow> int option"
  finished :: "int list"

text \<open>
  The state: the clock, the row, the instances that are inside the job with the time they entered it, and
  the times at which runs ended successfully, newest first. A tick may not let a run last \<open>limit\<close>;
  an instance enters the job only when it is not in it; a run ends with a release, or it is cut off by
  a crash or a recovered panic, which leaves the row as it is.
\<close>

inductive job_step :: "int \<Rightarrow> int \<Rightarrow> job_sys \<Rightarrow> job_sys \<Rightarrow> bool" for minInterval limit where
  tick: "0 \<le> d \<Longrightarrow> (\<And>i s. running \<sigma> i = Some s \<Longrightarrow> clock \<sigma> + d < s + limit) \<Longrightarrow>
    job_step minInterval limit \<sigma> (\<sigma>\<lparr>clock := clock \<sigma> + d\<rparr>)"
| acquire: "i \<noteq> [] \<Longrightarrow> running \<sigma> i = None \<Longrightarrow>
    acquireJobLock busy (sys_row \<sigma>) i (clock \<sigma>) minInterval = (row', got) \<Longrightarrow>
    job_step minInterval limit \<sigma>
      (\<sigma>\<lparr>sys_row := row', running := (if got then (running \<sigma>)(i \<mapsto> clock \<sigma>) else running \<sigma>)\<rparr>)"
| release: "running \<sigma> i = Some s \<Longrightarrow>
    releaseJobLock busy (sys_row \<sigma>) i (clock \<sigma>) success = (row', ok) \<Longrightarrow>
    job_step minInterval limit \<sigma>
      (\<sigma>\<lparr>sys_row := row', running := (running \<sigma>)(i := None),
         finished := (if success \<and> ok then clock \<sigma> # finished \<sigma> else finished \<sigma>)\<rparr>)"
| crash: "running \<sigma> i = Some s \<Longrightarrow>
    job_step minInterval limit \<sigma> (\<sigma>\<lparr>running := (running \<sigma>)(i := None)\<rparr>)"

definition job_start :: "int \<Rightarrow> job_sys" where
  "job_start t = \<lparr>clock = t, sys_row = None, running = (\<lambda>_. None), finished = []\<rparr>"

definition job_reach :: "int \<Rightarrow> int \<Rightarrow> job_sys \<Rightarrow> bool" where
  "job_reach minInterval limit \<sigma> \<longleftrightarrow> (\<exists>t. (job_step minInterval limit)\<^sup>*\<^sup>* (job_start t) \<sigma>)"

text \<open>The row never claims a time ahead of the clock, a run in progress owns a row stamped with its
  start, and the last successful end is at least the window before it.\<close>

definition row_past :: "job_sys \<Rightarrow> bool" where
  "row_past \<sigma> \<longleftrightarrow> (case sys_row \<sigma> of None \<Rightarrow> True
     | Some j \<Rightarrow> je_last_run j \<le> clock \<sigma> \<and> (\<forall>l. je_locked_at j = Some l \<longrightarrow> l \<le> clock \<sigma>))"

definition runs_own :: "int \<Rightarrow> job_sys \<Rightarrow> bool" where
  "runs_own limit \<sigma> \<longleftrightarrow> (\<forall>i s. running \<sigma> i = Some s \<longrightarrow> i \<noteq> [] \<and> s \<le> clock \<sigma> \<and> clock \<sigma> < s + limit \<and>
     (\<exists>j. sys_row \<sigma> = Some j \<and> je_locked_by j = i \<and> je_locked_at j = Some s))"

definition runs_spaced :: "int \<Rightarrow> job_sys \<Rightarrow> bool" where
  "runs_spaced minInterval \<sigma> \<longleftrightarrow>
     (\<forall>f\<in>set (finished \<sigma>). \<exists>j. sys_row \<sigma> = Some j \<and> f \<le> je_last_run j) \<and>
     (\<forall>i s. running \<sigma> i = Some s \<longrightarrow> (\<forall>f\<in>set (finished \<sigma>). f + minInterval \<le> s)) \<and>
     sorted_wrt (\<lambda>b a. a + minInterval \<le> b) (finished \<sigma>)"

inductive_cases job_stepE: "job_step minInterval limit \<sigma> \<sigma>'"

lemma acquireJobLock_cases:
  assumes "acquireJobLock busy row i now m = (row', got)"
  obtains (refused) "\<not> got" "row' = row \<or> row' = record_deduped row"
    | (entered) job where "got" "acquire_tx row i now m = Inr job" "row' = Some job"
  using assms retried_cases [of busy "acquire_tx row i now m"]
  by (cases "acquire_tx row i now m") (auto simp: acquireJobLock_def split: if_splits)

lemma releaseJobLock_cases:
  assumes "releaseJobLock busy row i now success = (row', ok)"
  obtains (lost) "\<not> ok" "row' = row"
    | (freed) job where "ok" "release_tx row i now success = Inr job" "row' = Some job"
  using assms retried_cases [of busy "release_tx row i now success"]
  by (cases "release_tx row i now success") (auto simp: releaseJobLock_def)

lemma acquire_tx_entered:
  assumes "acquire_tx row i now m = Inr job"
  shows "je_locked_at job = Some now" and "je_locked_by job = i"
    and "row = None \<and> je_last_run job = now \<or>
      (\<exists>j. row = Some j \<and> je_last_run job = je_last_run j \<and> m \<le> sub_time now (je_last_run j) \<and>
        (\<forall>l. je_locked_at j = Some l \<longrightarrow> sub_time now l < lockTimeout \<longrightarrow> je_locked_by j = i))"
  using assms by (auto simp: acquire_tx_def Let_def split: option.splits if_splits)

lemma record_deduped_fields:
  "(\<exists>j. record_deduped row = Some j \<and> P (je_last_run j) (je_locked_at j) (je_locked_by j)) \<longleftrightarrow>
   (\<exists>j. row = Some j \<and> P (je_last_run j) (je_locked_at j) (je_locked_by j))"
  by (cases row) (auto simp: record_deduped_def)

lemma sub_time_ge: "m \<le> sub_time a b \<Longrightarrow> - (2 ^ 63) < m \<Longrightarrow> b + m \<le> a"
  by (auto simp: sub_time_def split: if_splits)

lemma row_past_step:
  assumes "job_step m limit \<sigma> \<sigma>'" and "row_past \<sigma>"
  shows "row_past \<sigma>'"
  using assms(1)
proof cases
  case (tick d)
  then show ?thesis using assms(2) by (fastforce simp: row_past_def split: option.splits)
next
  case (acquire i busy row' got)
  from acquire(4) show ?thesis
  proof (cases rule: acquireJobLock_cases)
    case refused
    then show ?thesis using assms(2) acquire by (auto simp: row_past_def record_deduped_def split: option.splits)
  next
    case (entered job)
    note tx = acquire_tx_entered [OF entered(2)]
    then have "je_last_run job \<le> clock \<sigma>" using assms(2) by (auto simp: row_past_def)
    then show ?thesis using tx(1) entered acquire by (simp add: row_past_def)
  qed
next
  case (release i s busy success row' ok)
  from release(3) show ?thesis
  proof (cases rule: releaseJobLock_cases)
    case lost
    then show ?thesis using assms(2) release by (auto simp: row_past_def split: option.splits)
  next
    case (freed job)
    then show ?thesis using assms(2) release
      by (auto simp: row_past_def release_tx_def split: option.splits if_splits)
  qed
next
  case (crash i s)
  then show ?thesis using assms(2) by (auto simp: row_past_def split: option.splits)
qed

lemma entered_excludes:
  assumes "runs_own limit \<sigma>" and "limit \<le> lockTimeout" and "running \<sigma> k = Some s" and "k \<noteq> i"
  shows "acquire_tx (sys_row \<sigma>) i (clock \<sigma>) m \<noteq> Inr job"
proof
  assume e: "acquire_tx (sys_row \<sigma>) i (clock \<sigma>) m = Inr job"
  from assms(1,3) obtain j where j: "sys_row \<sigma> = Some j" "je_locked_by j = k" "je_locked_at j = Some s"
    and t: "s \<le> clock \<sigma>" "clock \<sigma> < s + limit" unfolding runs_own_def by blast
  have "clock \<sigma> - s < lockTimeout" using t assms(2) by simp
  moreover have "sub_time (clock \<sigma>) s = clock \<sigma> - s"
    using t assms(2) by (intro sub_time_exact) (simp add: lockTimeout_def dur_defs)
  ultimately have "je_locked_by j = i" using acquire_tx_entered(3) [OF e] j by auto
  then show False using j(2) assms(4) by simp
qed

lemma runs_own_step:
  assumes "job_step m limit \<sigma> \<sigma>'" and own: "runs_own limit \<sigma>" and lim: "0 < limit" "limit \<le> lockTimeout"
  shows "runs_own limit \<sigma>'"
  using assms(1)
proof cases
  case (tick d)
  then show ?thesis using own by (fastforce simp: runs_own_def)
next
  case (acquire i busy row' got)
  from acquire(4) show ?thesis
  proof (cases rule: acquireJobLock_cases)
    case refused
    then show ?thesis using own acquire by (fastforce simp: runs_own_def record_deduped_def)
  next
    case (entered job)
    note tx = acquire_tx_entered [OF entered(2)]
    have "running \<sigma> k = None" for k
      using entered_excludes [OF own lim(2), of k _ i m job] entered(2) acquire(3) by (cases "k = i") force+
    then show ?thesis using acquire entered tx lim(1) by (auto simp: runs_own_def)
  qed
next
  case (release i s busy success row' ok)
  have "running \<sigma> k = None" if "k \<noteq> i" for k
    using own release(2) that unfolding runs_own_def by (metis not_Some_eq option.inject)
  then show ?thesis using release by (auto simp: runs_own_def)
next
  case (crash i s)
  then show ?thesis using own by (auto simp: runs_own_def)
qed

lemma runs_spaced_step:
  assumes "job_step m limit \<sigma> \<sigma>'" and sp: "runs_spaced m \<sigma>" and own: "runs_own limit \<sigma>" and m: "0 \<le> m"
  shows "runs_spaced m \<sigma>'"
  using assms(1)
proof cases
  case (tick d)
  then show ?thesis using sp by (simp add: runs_spaced_def)
next
  case (acquire i busy row' got)
  from acquire(4) show ?thesis
  proof (cases rule: acquireJobLock_cases)
    case refused
    then show ?thesis using sp acquire by (fastforce simp: runs_spaced_def record_deduped_def)
  next
    case (entered job)
    from acquire_tx_entered(3) [OF entered(2)]
    show ?thesis
    proof (elim disjE conjE exE)
      assume "sys_row \<sigma> = None"
      then have "finished \<sigma> = []" using sp by (cases "finished \<sigma>") (auto simp: runs_spaced_def)
      then show ?thesis using acquire by (simp add: runs_spaced_def)
    next
      fix j assume j: "sys_row \<sigma> = Some j" "je_last_run job = je_last_run j" "m \<le> sub_time (clock \<sigma>) (je_last_run j)"
      then have "je_last_run j + m \<le> clock \<sigma>" using m by (intro sub_time_ge) auto
      then show ?thesis using sp acquire entered j by (fastforce simp: runs_spaced_def)
    qed
  qed
next
  case (release i s busy success row' ok)
  from own release(2) obtain j where j: "sys_row \<sigma> = Some j" "je_locked_by j = i" and s: "s \<le> clock \<sigma>"
    unfolding runs_own_def by blast
  have before: "f + m \<le> clock \<sigma>" if "f \<in> set (finished \<sigma>)" for f
    using sp release(2) that s unfolding runs_spaced_def by fastforce
  have alone: "running \<sigma> k = None" if "k \<noteq> i" for k
    using own release(2) that unfolding runs_own_def by (metis not_Some_eq option.inject)
  from release(3) show ?thesis
  proof (cases rule: releaseJobLock_cases)
    case lost
    then show ?thesis using sp release alone by (auto simp: runs_spaced_def)
  next
    case (freed job)
    then have "je_last_run job = (if success then clock \<sigma> else je_last_run j)"
      using j by (auto simp: release_tx_def)
    then show ?thesis using sp release alone freed j before m
      by (cases success) (fastforce simp: runs_spaced_def)+
  qed
next
  case (crash i s)
  then show ?thesis using sp by (auto simp: runs_spaced_def)
qed

text \<open>In every reachable state the three hold together, by rule induction over the steps.\<close>

lemma job_reach_invariants:
  assumes "job_reach m limit \<sigma>" and "0 < limit" "limit \<le> lockTimeout" and "0 \<le> m"
  shows "row_past \<sigma>" and "runs_own limit \<sigma>" and "runs_spaced m \<sigma>"
proof -
  obtain t where "(job_step m limit)\<^sup>*\<^sup>* (job_start t) \<sigma>" using assms(1) by (auto simp: job_reach_def)
  then have "row_past \<sigma> \<and> runs_own limit \<sigma> \<and> runs_spaced m \<sigma>"
  proof (induction rule: rtranclp_induct)
    case base
    show ?case by (simp add: job_start_def row_past_def runs_own_def runs_spaced_def)
  next
    case (step \<sigma> \<sigma>')
    then show ?case using row_past_step runs_own_step runs_spaced_step assms(2-4) by blast
  qed
  then show "row_past \<sigma>" "runs_own limit \<sigma>" "runs_spaced m \<sigma>" by auto
qed

section \<open>Exclusion, spacing and progress\<close>

text \<open>C12: while no run lasts longer than the lock's five minutes, at most one instance is ever inside the
  job, whatever the order of the acquisitions, releases, crashes and busy retries of the instances.\<close>

theorem job_mutual_exclusion:
  assumes "job_reach minInterval limit \<sigma>" and "0 \<le> minInterval" and "0 < limit" "limit \<le> lockTimeout"
    and "running \<sigma> i = Some s" and "running \<sigma> k = Some u"
  shows "i = k"
  using job_reach_invariants(2) [OF assms(1,3,4,2)] assms(5,6) unfolding runs_own_def by (metis option.inject)

text \<open>Two successful runs are at least the de-duplication window apart, on every instance and through
  every crash: one logical occurrence per period.\<close>

lemma job_runs_spaced:
  assumes "job_reach minInterval limit \<sigma>" and "0 \<le> minInterval" and "0 < limit" "limit \<le> lockTimeout"
    and "finished \<sigma> = later @ b # a # earlier"
  shows "a + minInterval \<le> b"
  using job_reach_invariants(3) [OF assms(1,3,4,2)] assms(5) by (auto simp: runs_spaced_def sorted_wrt_append)

text \<open>C13: a crash never blocks the job for good. When nobody is inside the job, then after the longer of
  the window and the five minutes of the lock any instance that finds the database free in one of its
  five attempts enters the job, whatever happened before.\<close>

theorem job_no_deadlock:
  assumes "job_reach minInterval limit \<sigma>" and "0 \<le> minInterval" "minInterval < 2 ^ 63" and "0 < limit" "limit \<le> lockTimeout"
    and "\<And>k. running \<sigma> k = None"
    and "max minInterval lockTimeout \<le> d" and "i \<noteq> []" and "1 \<le> attempt" "attempt \<le> 5" "\<not> busy (attempt :: nat)"
  shows "\<exists>\<sigma>1 \<sigma>2. job_step minInterval limit \<sigma> \<sigma>1 \<and> clock \<sigma>1 = clock \<sigma> + d \<and>
    job_step minInterval limit \<sigma>1 \<sigma>2 \<and> running \<sigma>2 i = Some (clock \<sigma> + d)"
proof -
  define \<sigma>1 where "\<sigma>1 = \<sigma>\<lparr>clock := clock \<sigma> + d\<rparr>"
  have lt: "0 < lockTimeout" "lockTimeout < 2 ^ 63" by (simp_all add: lockTimeout_def dur_defs)
  have past: "row_past \<sigma>" by (rule job_reach_invariants(1) [OF assms(1,4,5,2)])
  have "\<exists>job. acquire_tx (sys_row \<sigma>) i (clock \<sigma> + d) minInterval = Inr job"
  proof (cases "sys_row \<sigma>")
    case None
    then show ?thesis by (simp add: acquire_tx_def)
  next
    case (Some j)
    have "minInterval \<le> clock \<sigma> + d - je_last_run j" "\<forall>l. je_locked_at j = Some l \<longrightarrow> lockTimeout \<le> clock \<sigma> + d - l"
      using past Some assms(7) by (auto simp: row_past_def)
    then have "minInterval \<le> sub_time (clock \<sigma> + d) (je_last_run j)"
      "\<forall>l. je_locked_at j = Some l \<longrightarrow> lockTimeout \<le> sub_time (clock \<sigma> + d) l"
      using assms(3) lt by (auto simp: sub_time_def)
    then show ?thesis using Some by (fastforce simp: acquire_tx_def Let_def split: option.splits)
  qed
  then obtain job where "acquire_tx (sys_row \<sigma>) i (clock \<sigma> + d) minInterval = Inr job" ..
  moreover have "\<exists>a\<in>{1..5}. \<not> busy a" using assms(9-11) by auto
  ultimately have "acquireJobLock busy (sys_row \<sigma>1) i (clock \<sigma>1) minInterval = (Some job, True)"
    by (simp add: acquireJobLock_def retried_value \<sigma>1_def)
  moreover have "running \<sigma>1 i = None" using assms(6) by (simp add: \<sigma>1_def)
  ultimately have "job_step minInterval limit \<sigma>1 (\<sigma>1\<lparr>sys_row := Some job,
      running := (if True then (running \<sigma>1)(i \<mapsto> clock \<sigma>1) else running \<sigma>1)\<rparr>)"
    using assms(8) by (intro job_step.acquire)
  moreover have "job_step minInterval limit \<sigma> \<sigma>1"
    unfolding \<sigma>1_def using assms(6,7) lt by (intro job_step.tick) auto
  ultimately show ?thesis by (fastforce simp: \<sigma>1_def)
qed

text \<open>A failed first run counts as a run: the row is created with the time of the attempt as the last
  run, and a failing release leaves that time in place, so the job is suppressed for a whole window
  although it has never succeeded.\<close>

lemma first_failure_suppresses:
  assumes "acquireJobLock (\<lambda>_. False) None i t m = (row1, True)"
    and "releaseJobLock (\<lambda>_. False) row1 i u False = (row2, True)"
    and "v - t < m" "\<bar>v - t\<bar> < 2 ^ 63"
  shows "snd (acquireJobLock (\<lambda>_. False) row2 k v m) = False \<and>
    map_option je_last_outcome (fst (acquireJobLock (\<lambda>_. False) row2 k v m)) = Some ''deduped''"
proof -
  have 1: "row1 = Some \<lparr>je_last_run = t, je_locked_at = Some t, je_locked_by = i, je_last_outcome = ''running''\<rparr>"
    using assms(1) by (simp add: acquireJobLock_def retried_free acquire_tx_def)
  have 2: "row2 = Some \<lparr>je_last_run = t, je_locked_at = None, je_locked_by = [], je_last_outcome = ''failed''\<rparr>"
    using assms(2) by (simp add: 1 releaseJobLock_def retried_free release_tx_def)
  show ?thesis using assms(3,4)
    by (simp add: 2 acquireJobLock_def retried_free acquire_tx_def sub_time_exact record_deduped_def)
qed

text \<open>The lock does not keep an instance from itself: a second call of the process that holds the lock
  enters the job again as soon as the window allows.\<close>

lemma same_instance_reenters:
  assumes "je_locked_by job = i" and "m \<le> sub_time now (je_last_run job)"
  shows "snd (acquireJobLock (\<lambda>_. False) (Some job) i now m)"
  using assms by (auto simp: acquireJobLock_def retried_free acquire_tx_def Let_def split: option.splits)

section \<open>A concrete history\<close>

lemma job_reach_step:
  "job_reach m limit \<sigma> \<Longrightarrow> job_step m limit \<sigma> \<sigma>' \<Longrightarrow> job_reach m limit \<sigma>'"
  unfolding job_reach_def by (blast intro: rtranclp.rtrancl_into_rtrancl)

text \<open>One undisturbed run of an instance while nobody is in the job: it enters, ends at once and releases.\<close>

lemma job_full_run:
  assumes "job_reach m limit \<sigma>" and "\<And>k. running \<sigma> k = None" and "i \<noteq> []"
    and "acquire_tx (sys_row \<sigma>) i (clock \<sigma>) m = Inr job"
  shows "\<exists>\<sigma>'. job_reach m limit \<sigma>' \<and> clock \<sigma>' = clock \<sigma> \<and> (\<forall>k. running \<sigma>' k = None) \<and>
    finished \<sigma>' = clock \<sigma> # finished \<sigma> \<and>
    (\<exists>j. sys_row \<sigma>' = Some j \<and> je_last_run j = clock \<sigma> \<and> je_locked_at j = None)"
proof -
  have a: "acquireJobLock (\<lambda>_. False) (sys_row \<sigma>) i (clock \<sigma>) m = (Some job, True)"
    using assms(4) by (simp add: acquireJobLock_def retried_free)
  note s1 = job_reach_step [OF assms(1) job_step.acquire [OF assms(3) assms(2) a]]
  have own: "je_locked_by job = i" by (rule acquire_tx_entered(2) [OF assms(4)])
  obtain job' where r: "releaseJobLock (\<lambda>_. False) (Some job) i (clock \<sigma>) True = (Some job', True)"
    and j: "je_last_run job' = clock \<sigma>" "je_locked_at job' = None"
    using own by (simp add: releaseJobLock_def retried_free release_tx_def)
  define \<sigma>1 where "\<sigma>1 = \<sigma>\<lparr>sys_row := Some job, running := (if True then (running \<sigma>)(i \<mapsto> clock \<sigma>) else running \<sigma>)\<rparr>"
  have "running \<sigma>1 i = Some (clock \<sigma>)" "releaseJobLock (\<lambda>_. False) (sys_row \<sigma>1) i (clock \<sigma>1) True = (Some job', True)"
    using r by (simp_all add: \<sigma>1_def)
  note s2 = job_reach_step [OF s1 [folded \<sigma>1_def] job_step.release [OF this]]
  show ?thesis by (rule exI, rule conjI, rule s2) (use assms(2) j in \<open>auto simp: \<sigma>1_def\<close>)
qed

lemma job_mutual_exclusion_witness:
  "\<exists>\<sigma> s. job_reach (JobCatchupWindow (24 * hour)) lockTimeout \<sigma> \<and> running \<sigma> ''a'' = Some s \<and>
    (running \<sigma> ''b'' = None \<or> ''a'' = (''b'' :: string))"
proof -
  let ?m = "JobCatchupWindow (24 * hour)"
  have m: "0 \<le> ?m" "0 < lockTimeout"
    by (simp_all add: JobCatchupWindow_def JobCatchupMargin_def lockTimeout_def dur_defs trunc_quot_def Let_def)
  have "job_reach ?m lockTimeout (job_start 0)" by (auto simp: job_reach_def)
  moreover have "acquireJobLock (\<lambda>_. False) (sys_row (job_start 0)) ''a'' (clock (job_start 0)) ?m =
      (Some \<lparr>je_last_run = 0, je_locked_at = Some 0, je_locked_by = ''a'', je_last_outcome = ''running''\<rparr>, True)"
    by (simp add: acquireJobLock_def retried_free acquire_tx_def job_start_def)
  then have "job_step ?m lockTimeout (job_start 0) ((job_start 0)\<lparr>sys_row :=
      Some \<lparr>je_last_run = 0, je_locked_at = Some 0, je_locked_by = ''a'', je_last_outcome = ''running''\<rparr>,
      running := (if True then (running (job_start 0))(''a'' \<mapsto> clock (job_start 0)) else running (job_start 0))\<rparr>)"
    by (intro job_step.acquire) (simp_all add: job_start_def)
  ultimately obtain \<sigma> where r: "job_reach ?m lockTimeout \<sigma>" and a: "running \<sigma> ''a'' = Some 0"
    using job_reach_step by (fastforce simp: job_start_def)
  have "running \<sigma> ''b'' = None \<or> ''a'' = (''b'' :: string)"
    using job_mutual_exclusion [OF r m order_refl a] by (cases "running \<sigma> ''b''") blast+
  with r a show ?thesis by blast
qed

lemma job_runs_spaced_witness:
  "\<exists>\<sigma> a b. job_reach hour minute \<sigma> \<and> finished \<sigma> = [b, a] \<and> a + hour \<le> b"
proof -
  have "job_reach hour minute (job_start 0)" by (auto simp: job_reach_def)
  from job_full_run [OF this, of "''a''"] obtain \<sigma> j where s: "job_reach hour minute \<sigma>" "clock \<sigma> = 0"
    "\<forall>k. running \<sigma> k = None" "finished \<sigma> = [0]" "sys_row \<sigma> = Some j" "je_last_run j = 0" "je_locked_at j = None"
    by (auto simp: job_start_def acquire_tx_def)
  define \<sigma>1 where "\<sigma>1 = \<sigma>\<lparr>clock := clock \<sigma> + 2 * hour\<rparr>"
  have "job_reach hour minute \<sigma>1" unfolding \<sigma>1_def
    using s(3) by (intro job_reach_step [OF s(1)] job_step.tick) (auto simp: dur_defs)
  moreover have "acquire_tx (sys_row \<sigma>1) ''b'' (clock \<sigma>1) hour =
      Inr (j\<lparr>je_locked_at := Some (2 * hour), je_locked_by := ''b'', je_last_outcome := ''caught_up''\<rparr>)"
    using s by (simp add: \<sigma>1_def acquire_tx_def sub_time_def dur_defs Let_def)
  ultimately obtain \<sigma>2 where r: "job_reach hour minute \<sigma>2" and f: "finished \<sigma>2 = [] @ 2 * hour # 0 # []"
    using job_full_run [of hour minute \<sigma>1 "''b''"] s by (auto simp: \<sigma>1_def)
  have "0 + hour \<le> 2 * hour"
    by (rule job_runs_spaced [OF r _ _ _ f]) (simp_all add: dur_defs lockTimeout_def)
  with r f show ?thesis by auto
qed

lemma job_no_deadlock_witness:
  "\<exists>\<sigma>1 \<sigma>2. job_step hour minute (job_start 0) \<sigma>1 \<and> clock \<sigma>1 = clock (job_start 0) + hour \<and>
    job_step hour minute \<sigma>1 \<sigma>2 \<and> running \<sigma>2 ''a'' = Some (clock (job_start 0) + hour)"
  by (rule job_no_deadlock [of hour minute "job_start 0" hour "''a''" 1 "\<lambda>_. False"])
    (auto simp: job_reach_def job_start_def dur_defs lockTimeout_def)

end
