(* ===== verification/Dispatch.thy ===== *)
theory Dispatch imports Recurrence Birthdays JobLock begin

text \<open>
  The daily dispatch of due reminders (\<open>sendRemindersAt\<close> and \<open>SendRemindersWithRateLimit\<close> of
  \<open>backend/services/reminder_service.go\<close>), the four channels with their delivery rows
  (\<open>services/notification_service.go\<close>, \<open>models/notification.go\<close>), and the completion of a reminder
  (\<open>controllers/reminder_controller.go\<close>). The mail and push services are the record \<open>outside\<close>: what they
  answer in one run, and whether the row of an attempt could be written. The state keeps a log of the
  messages the services accepted.
\<close>

section \<open>State\<close>

record notify_user =
  nu_id :: nat
  nu_email :: string
  nu_ntfy :: bool
  nu_gotify :: bool
  nu_push :: bool

record notification_delivery =
  nd_reminder :: nat
  nd_channel :: string
  nd_sent_at :: "int option"
  nd_status :: string

record notification_config =
  nc_user :: nat
  nc_ntfy_url :: string
  nc_ntfy_topic :: string
  nc_gotify_url :: string
  nc_gotify_token :: string

record push_subscription =
  ps_id :: nat
  ps_user :: nat

record device_registration =
  dr_id :: nat
  dr_user :: nat
  dr_client :: string

record server_config =
  sc_email_enabled :: bool
  sc_fcm_account :: bool

datatype message = Mail nat "nat list" | Post string nat | WebPush nat nat | Fcm nat nat

record notify_state =
  ns_reminders :: "reminder list"
  ns_deliveries :: "notification_delivery list"
  ns_subs :: "push_subscription list"
  ns_devices :: "device_registration list"
  ns_log :: "message list"
  ns_hooks :: "(nat \<times> string \<times> nat) list"

datatype push_answer = Accepted | Stale | Failed

record outside =
  out_now :: int
  out_mail :: "nat \<Rightarrow> bool"
  out_post :: "string \<Rightarrow> nat \<Rightarrow> bool"
  out_push :: "nat \<Rightarrow> nat \<Rightarrow> push_answer"
  out_fcm :: "nat \<Rightarrow> nat \<Rightarrow> push_answer"
  out_store :: "nat \<Rightarrow> string \<Rightarrow> bool"

section \<open>The channels\<close>

definition recordNotificationDelivery ::
  "outside \<Rightarrow> nat \<Rightarrow> string \<Rightarrow> bool \<Rightarrow> notify_state \<Rightarrow> notify_state" where
  "recordNotificationDelivery out rid ch sent s =
     (if out_store out rid ch
      then s\<lparr>ns_deliveries := ns_deliveries s @
        [\<lparr>nd_reminder = rid, nd_channel = ch, nd_sent_at = (if sent then Some (out_now out) else None),
          nd_status = (if sent then ''sent'' else ''failed'')\<rparr>]\<rparr>
      else s)"

definition DeleteNotificationDeliveries :: "nat list \<Rightarrow> notify_state \<Rightarrow> notify_state" where
  "DeleteNotificationDeliveries ids s =
     s\<lparr>ns_deliveries := filter (\<lambda>d. nd_reminder d \<notin> set ids) (ns_deliveries s)\<rparr>"

definition save_reminder :: "reminder \<Rightarrow> notify_state \<Rightarrow> notify_state" where
  "save_reminder r s = s\<lparr>ns_reminders := map (\<lambda>q. if rem_id q = rem_id r then r else q) (ns_reminders s)\<rparr>"

definition log_message :: "message \<Rightarrow> notify_state \<Rightarrow> notify_state" where
  "log_message m s = s\<lparr>ns_log := ns_log s @ [m]\<rparr>"

text \<open>Each sender returns the state and whether it failed.\<close>

definition email_Send :: "outside \<Rightarrow> notify_user \<Rightarrow> reminder list \<Rightarrow> notify_state \<Rightarrow> notify_state \<times> bool" where
  "email_Send out u rs s =
     (let eligible = filter (\<lambda>r. rem_by_mail r = Some True) rs
      in if nu_email u \<noteq> [] \<and> \<not> out_mail out (nu_id u)
         then (fold (\<lambda>r. recordNotificationDelivery out (rem_id r) ''email'' False) eligible s, True)
         else (fold (\<lambda>r s. recordNotificationDelivery out (rem_id r) ''email'' True
                 (save_reminder (r\<lparr>rem_email_sent := True, rem_last_sent := Some (out_now out)\<rparr>) s)) eligible
                (if nu_email u \<noteq> [] then log_message (Mail (nu_id u) (map rem_id eligible)) s else s), False))"

text \<open>The loop ntfy and Gotify share, once their configuration is there.\<close>

definition post_one :: "outside \<Rightarrow> string \<Rightarrow> reminder \<Rightarrow> notify_state \<times> bool \<Rightarrow> notify_state \<times> bool" where
  "post_one out ch r sf =
     (if out_post out ch (rem_id r)
      then (recordNotificationDelivery out (rem_id r) ch True (log_message (Post ch (rem_id r)) (fst sf)), snd sf)
      else (recordNotificationDelivery out (rem_id r) ch False (fst sf), True))"

definition ntfy_ready :: "notification_config option \<Rightarrow> bool" where
  "ntfy_ready nc \<longleftrightarrow> (case nc of None \<Rightarrow> False | Some c \<Rightarrow> nc_ntfy_url c \<noteq> [] \<and> nc_ntfy_topic c \<noteq> [])"

definition gotify_ready :: "notification_config option \<Rightarrow> bool" where
  "gotify_ready nc \<longleftrightarrow> (case nc of None \<Rightarrow> False | Some c \<Rightarrow> nc_gotify_url c \<noteq> [] \<and> nc_gotify_token c \<noteq> [])"

definition ntfy_Send ::
  "outside \<Rightarrow> notification_config option \<Rightarrow> reminder list \<Rightarrow> notify_state \<Rightarrow> notify_state \<times> bool" where
  "ntfy_Send out nc rs s = (if \<not> ntfy_ready nc then (s, True) else fold (post_one out ''ntfy'') rs (s, False))"

definition gotify_Send ::
  "outside \<Rightarrow> notification_config option \<Rightarrow> reminder list \<Rightarrow> notify_state \<Rightarrow> notify_state \<times> bool" where
  "gotify_Send out nc rs s = (if \<not> gotify_ready nc then (s, True) else fold (post_one out ''gotify'') rs (s, False))"

definition push_one ::
  "outside \<Rightarrow> push_subscription \<Rightarrow> reminder \<Rightarrow> notify_state \<times> bool \<Rightarrow> notify_state \<times> bool" where
  "push_one out sub r sf =
     (case out_push out (ps_id sub) (rem_id r) of
        Failed \<Rightarrow> (recordNotificationDelivery out (rem_id r) ''push'' False (fst sf), True)
      | Stale \<Rightarrow> ((fst sf)\<lparr>ns_subs := filter (\<lambda>p. ps_id p \<noteq> ps_id sub) (ns_subs (fst sf))\<rparr>, snd sf)
      | Accepted \<Rightarrow> (recordNotificationDelivery out (rem_id r) ''push'' True
                       (log_message (WebPush (ps_id sub) (rem_id r)) (fst sf)), snd sf))"

definition fcm_one ::
  "outside \<Rightarrow> device_registration \<Rightarrow> reminder \<Rightarrow> notify_state \<times> bool \<Rightarrow> notify_state \<times> bool" where
  "fcm_one out dev r sf =
     (case out_fcm out (dr_id dev) (rem_id r) of
        Failed \<Rightarrow> (recordNotificationDelivery out (rem_id r) ''push'' False (fst sf), True)
      | Stale \<Rightarrow> ((fst sf)\<lparr>ns_devices := filter (\<lambda>d. dr_id d \<noteq> dr_id dev) (ns_devices (fst sf))\<rparr>, snd sf)
      | Accepted \<Rightarrow> (recordNotificationDelivery out (rem_id r) ''push'' True
                       (log_message (Fcm (dr_id dev) (rem_id r)) (fst sf)), snd sf))"

definition fcm_device :: "server_config \<Rightarrow> device_registration \<Rightarrow> bool" where
  "fcm_device cfg d \<longleftrightarrow> dr_client d \<noteq> ''apns'' \<and> (dr_client d = ''fcm'' \<longrightarrow> sc_fcm_account cfg)"

definition push_Send ::
  "server_config \<Rightarrow> outside \<Rightarrow> notify_user \<Rightarrow> reminder list \<Rightarrow> notify_state \<Rightarrow> notify_state \<times> bool" where
  "push_Send cfg out u rs s =
     (let subs = filter (\<lambda>p. ps_user p = nu_id u) (ns_subs s);
          devices = filter (\<lambda>d. dr_user d = nu_id u) (ns_devices s)
      in if subs = [] \<and> devices = [] then (s, True)
         else fold (\<lambda>dev sf. if fcm_device cfg dev then fold (fcm_one out dev) rs sf else sf) devices
                (fold (\<lambda>sub. fold (push_one out sub) rs) subs (s, False)))"

definition notificationSenders :: "string list" where
  "notificationSenders = [''email'', ''ntfy'', ''gotify'', ''push'']"

definition GetNotificationConfigForUser :: "notification_config list \<Rightarrow> nat \<Rightarrow> notification_config option" where
  "GetNotificationConfigForUser ncs uid = List.find (\<lambda>c. nc_user c = uid) ncs"

definition email_Enabled :: "server_config \<Rightarrow> notify_user \<Rightarrow> bool" where
  "email_Enabled cfg u \<longleftrightarrow> sc_email_enabled cfg \<and> nu_email u \<noteq> []"

definition ntfy_Enabled :: "notification_config list \<Rightarrow> notify_user \<Rightarrow> bool" where
  "ntfy_Enabled ncs u \<longleftrightarrow> nu_ntfy u \<and> ntfy_ready (GetNotificationConfigForUser ncs (nu_id u))"

definition gotify_Enabled :: "notification_config list \<Rightarrow> notify_user \<Rightarrow> bool" where
  "gotify_Enabled ncs u \<longleftrightarrow> nu_gotify u \<and> gotify_ready (GetNotificationConfigForUser ncs (nu_id u))"

definition push_Enabled :: "server_config \<Rightarrow> notify_user \<Rightarrow> notify_state \<Rightarrow> bool" where
  "push_Enabled cfg u s \<longleftrightarrow> nu_push u \<and>
     (if \<exists>p\<in>set (ns_subs s). ps_user p = nu_id u then True
      else if \<not> (\<exists>d\<in>set (ns_devices s). dr_user d = nu_id u \<and> dr_client d = ''fcm'') then False
      else sc_fcm_account cfg)"

definition sender_Enabled ::
  "server_config \<Rightarrow> notification_config list \<Rightarrow> notify_user \<Rightarrow> notify_state \<Rightarrow> string \<Rightarrow> bool" where
  "sender_Enabled cfg ncs u s ch =
     (if ch = ''email'' then email_Enabled cfg u
      else if ch = ''ntfy'' then ntfy_Enabled ncs u
      else if ch = ''gotify'' then gotify_Enabled ncs u
      else push_Enabled cfg u s)"

lemmas sender_Enabled_defs = sender_Enabled_def email_Enabled_def ntfy_Enabled_def gotify_Enabled_def push_Enabled_def

definition sender_Send ::
  "server_config \<Rightarrow> notification_config list \<Rightarrow> outside \<Rightarrow> notify_user \<Rightarrow> string \<Rightarrow> reminder list \<Rightarrow>
    notify_state \<Rightarrow> notify_state \<times> bool" where
  "sender_Send cfg ncs out u ch rs s =
     (let nc = GetNotificationConfigForUser ncs (nu_id u)
      in if ch = ''email'' then email_Send out u rs s
         else if ch = ''ntfy'' then ntfy_Send out nc rs s
         else if ch = ''gotify'' then gotify_Send out nc rs s
         else push_Send cfg out u rs s)"

section \<open>The run\<close>

text \<open>The constants of a run: the configuration, the tables it only reads, and the outside.\<close>

record run_env =
  re_cfg :: server_config
  re_ncs :: "notification_config list"
  re_users :: "notify_user list"
  re_contacts :: "contact list"
  re_zone :: zone
  re_now :: int
  re_out :: outside

definition endOfDay :: "zone \<Rightarrow> int \<Rightarrow> int" where
  "endOfDay z now = instant_at z (civil_day z now) (23 * hour + 59 * minute + 59 * second)"

definition due_reminders :: "run_env \<Rightarrow> notify_state \<Rightarrow> reminder list" where
  "due_reminders e s =
     filter (\<lambda>r. rem_at r \<le> endOfDay (re_zone e) (re_now e) \<and> \<not> rem_completed r) (ns_reminders s)"

definition sent_deliveries :: "reminder list \<Rightarrow> notify_state \<Rightarrow> nat \<Rightarrow> string \<Rightarrow> bool" where
  "sent_deliveries rs s rid ch \<longleftrightarrow> rid \<in> set (map rem_id rs) \<and>
     (\<exists>d\<in>set (ns_deliveries s). nd_reminder d = rid \<and> nd_channel d = ch \<and> nd_status d = ''sent'')"

definition today_birthdays :: "run_env \<Rightarrow> nat \<Rightarrow> birthday_entry list" where
  "today_birthdays e uid = filter (\<lambda>b. DaysUntilBirthday (be_birthday b) (re_zone e) (re_now e) = 0)
     (GetUpcomingBirthdays (re_contacts e) uid (re_zone e) (re_now e))"

definition has_birthday_first :: "run_env \<Rightarrow> nat \<Rightarrow> bool" where
  "has_birthday_first e uid =
     (case GetUpcomingBirthdays (re_contacts e) uid (re_zone e) (re_now e) of
        [] \<Rightarrow> False
      | b # _ \<Rightarrow> DaysUntilBirthday (be_birthday b) (re_zone e) (re_now e) = 0)"

definition run_users :: "run_env \<Rightarrow> reminder list \<Rightarrow> notify_user list" where
  "run_users e rs =
     filter (\<lambda>u. nu_id u \<in> set (map rem_user rs) \<or> has_birthday_first e (nu_id u))
       (sort_key nu_id (re_users e))"

definition eligible_for ::
  "(nat \<Rightarrow> string \<Rightarrow> bool) \<Rightarrow> string \<Rightarrow> reminder list \<Rightarrow> reminder list" where
  "eligible_for sent ch rs =
     filter (\<lambda>r. \<not> sent (rem_id r) ch \<and> \<not> (ch = ''email'' \<and> rem_email_sent r)) rs"

text \<open>One channel of one user; the tallies count the sends that went through and those that failed.\<close>

definition dispatch_channel ::
  "run_env \<Rightarrow> (nat \<Rightarrow> string \<Rightarrow> bool) \<Rightarrow> notify_user \<Rightarrow> reminder list \<Rightarrow> string \<Rightarrow>
    notify_state \<times> nat \<times> nat \<Rightarrow> notify_state \<times> nat \<times> nat" where
  "dispatch_channel e sent u rs ch st =
     (case st of (s, ok, bad) \<Rightarrow>
       (let eligible = eligible_for sent ch rs
        in if ch = ''email'' \<and> eligible = [] \<and> today_birthdays e (nu_id u) = [] then st
           else if ch \<noteq> ''email'' \<and> eligible = [] then st
           else if \<not> sender_Enabled (re_cfg e) (re_ncs e) u s ch then st
           else (case sender_Send (re_cfg e) (re_ncs e) (re_out e) u ch eligible s of
                   (s', failed) \<Rightarrow> if failed then (s', ok, bad + 1) else (s', ok + 1, bad))))"

definition fire_hooks :: "run_env \<Rightarrow> notify_user \<Rightarrow> reminder list \<Rightarrow> notify_state \<Rightarrow> notify_state" where
  "fire_hooks e u rs s = s\<lparr>ns_hooks := ns_hooks s @
     map (\<lambda>r. (rem_user r, ''reminder.triggered'', rem_id r)) rs @
     map (\<lambda>b. (nu_id u, ''birthday.occurred'', be_contact b)) (today_birthdays e (nu_id u))\<rparr>"

definition dispatch_user ::
  "run_env \<Rightarrow> (nat \<Rightarrow> string \<Rightarrow> bool) \<Rightarrow> reminder list \<Rightarrow> notify_user \<Rightarrow>
    notify_state \<times> nat \<times> nat \<Rightarrow> notify_state \<times> nat \<times> nat" where
  "dispatch_user e sent rs u st =
     (let userReminders = filter (\<lambda>r. rem_user r = nu_id u) rs
      in case fold (dispatch_channel e sent u userReminders) notificationSenders st of
           (s, ok, bad) \<Rightarrow> (fire_hooks e u userReminders s, ok, bad))"

text \<open>The result is the number of sends that went through; a failing send makes the run fail.\<close>

definition sendRemindersAt :: "run_env \<Rightarrow> notify_state \<Rightarrow> notify_state \<times> (nat + nat)" where
  "sendRemindersAt e s =
     (let reminders = due_reminders e s; sent = sent_deliveries reminders s
      in case fold (dispatch_user e sent reminders) (run_users e reminders) (s, 0, 0) of
           (s', ok, bad) \<Rightarrow> (s', if 0 < bad then Inl ok else Inr ok))"

definition ReminderMinInterval :: int where "ReminderMinInterval = JobCatchupWindow (24 * hour)"

text \<open>The entry point of the scheduler on one instance: the lock, the run, the release.\<close>

definition SendRemindersWithRateLimit ::
  "(nat \<Rightarrow> bool) \<Rightarrow> string \<Rightarrow> int \<Rightarrow> int \<Rightarrow> run_env \<Rightarrow> job_execution option \<times> notify_state \<Rightarrow>
    (job_execution option \<times> notify_state) \<times> (nat + nat) option" where
  "SendRemindersWithRateLimit busy instanceID start finish e st =
     (case acquireJobLock busy (fst st) instanceID start ReminderMinInterval of
        (row, False) \<Rightarrow> ((row, snd st), None)
      | (row, True) \<Rightarrow>
          (case sendRemindersAt e (snd st) of
             (s, res) \<Rightarrow> ((fst (releaseJobLock busy row instanceID finish (\<not> isl res)), s), Some res)))"


section \<open>Completing a reminder\<close>

record reminder_completion =
  rc_user :: nat
  rc_reminder :: nat
  rc_contact :: "nat option"
  rc_message :: string
  rc_at :: int

text \<open>A reminder of another user is not found. One that occurs once goes away with its delivery rows; a
  recurring one is rescheduled, and loses its delivery rows, when it recurs from its completion.\<close>

definition CompleteReminder ::
  "int \<Rightarrow> bool \<Rightarrow> nat \<Rightarrow> nat \<Rightarrow> notify_state \<times> reminder_completion list \<Rightarrow>
    string + notify_state \<times> reminder_completion list" where
  "CompleteReminder now skip uid rid st =
     (case List.find (\<lambda>r. rem_user r = uid \<and> rem_id r = rid) (ns_reminders (fst st)) of
        None \<Rightarrow> Inl ''Reminder''
      | Some r0 \<Rightarrow>
          (let r1 = r0\<lparr>rem_completed := True, rem_last_sent := Some now\<rparr>;
               reoccur = (case rem_from_completion r1 of None \<Rightarrow> True | Some b \<Rightarrow> b);
               rescheduled = (reoccur \<and> rem_recurrence r1 \<noteq> ''once'');
               r2 = (if rescheduled
                     then r1\<lparr>rem_at := CalculateNextReminderTime now r1, rem_completed := False,
                             rem_email_sent := False\<rparr>
                     else r1);
               deleted = (rem_recurrence r2 = ''once'');
               completions = (if skip then snd st
                 else snd st @ [\<lparr>rc_user = uid, rc_reminder = rid, rc_contact = rem_contact r2,
                                  rc_message = rem_message r2, rc_at = now\<rparr>]);
               s1 = (if deleted
                     then (DeleteNotificationDeliveries [rid] (fst st))
                            \<lparr>ns_reminders := filter (\<lambda>r. rem_id r \<noteq> rid) (ns_reminders (fst st))\<rparr>
                     else save_reminder r2 (fst st));
               s2 = (if rescheduled then DeleteNotificationDeliveries [rid] s1 else s1)
           in Inr (s2, completions)))"

section \<open>What a sender promises\<close>

fun covers :: "message \<Rightarrow> string \<Rightarrow> nat \<Rightarrow> nat" where
  "covers (Mail u rids) ch rid = (if ch = ''email'' then count_list rids rid else 0)"
| "covers (Post c r) ch rid = of_bool (c = ch \<and> r = rid)"
| "covers (WebPush p r) ch rid = of_bool (ch = ''push'' \<and> r = rid)"
| "covers (Fcm d r) ch rid = of_bool (ch = ''push'' \<and> r = rid)"

text \<open>How often a reminder went out on a channel, and whether a row says that it did.\<close>

definition sends :: "notify_state \<Rightarrow> string \<Rightarrow> nat \<Rightarrow> nat" where
  "sends s ch rid = sum_list (map (\<lambda>m. covers m ch rid) (ns_log s))"

definition has_sent :: "notify_state \<Rightarrow> nat \<Rightarrow> string \<Rightarrow> bool" where
  "has_sent s rid ch \<longleftrightarrow>
     (\<exists>d\<in>set (ns_deliveries s). nd_reminder d = rid \<and> nd_channel d = ch \<and> nd_status d = ''sent'')"

definition stores :: "outside \<Rightarrow> bool" where
  "stores out \<longleftrightarrow> (\<forall>rid ch. out_store out rid ch)"

text \<open>A change that touches only the pairs of \<open>A\<close> and forgets no delivery.\<close>

definition touches :: "(nat \<times> string) set \<Rightarrow> notify_state \<Rightarrow> notify_state \<Rightarrow> bool" where
  "touches A s s' \<longleftrightarrow>
     (\<forall>rid ch. (rid, ch) \<notin> A \<longrightarrow> sends s' ch rid = sends s ch rid \<and> has_sent s' rid ch = has_sent s rid ch) \<and>
     (\<forall>rid ch. has_sent s rid ch \<longrightarrow> has_sent s' rid ch)"

text \<open>A change that sends each pair of \<open>A\<close> at most once and records what it sent. The push channel, which
  sends a reminder to every device of the user, is left out.\<close>

definition once :: "(nat \<times> string) set \<Rightarrow> notify_state \<Rightarrow> notify_state \<Rightarrow> bool" where
  "once A s s' \<longleftrightarrow>
     (\<forall>(rid, ch)\<in>A. ch \<noteq> ''push'' \<longrightarrow> sends s' ch rid \<le> sends s ch rid + 1 \<and>
        (sends s ch rid < sends s' ch rid \<longrightarrow> has_sent s' rid ch))"

lemma touches_refl [simp]: "touches A s s"
  by (simp add: touches_def)

lemma once_refl [simp]: "once A s s"
  by (auto simp: once_def)

lemma touches_trans: "touches A s s1 \<Longrightarrow> touches B s1 s2 \<Longrightarrow> touches (A \<union> B) s s2"
  unfolding touches_def by simp

lemma touches_mono: "touches A s s' \<Longrightarrow> A \<subseteq> B \<Longrightarrow> touches B s s'"
  unfolding touches_def by blast

lemma onceD:
  "once A s s' \<Longrightarrow> (rid, ch) \<in> A \<Longrightarrow> ch \<noteq> ''push'' \<Longrightarrow>
   sends s' ch rid \<le> sends s ch rid + 1 \<and> (sends s ch rid < sends s' ch rid \<longrightarrow> has_sent s' rid ch)"
  unfolding once_def by blast

lemma once_mono:
  assumes "once A s s'" and "touches A s s'"
  shows "once B s s'"
proof -
  have "sends s' ch rid \<le> sends s ch rid + 1 \<and> (sends s ch rid < sends s' ch rid \<longrightarrow> has_sent s' rid ch)"
    if "ch \<noteq> ''push''" for rid ch
  proof (cases "(rid, ch) \<in> A")
    case True
    then show ?thesis by (rule onceD [OF assms(1) _ that])
  next
    case False
    then show ?thesis using assms(2) by (simp add: touches_def)
  qed
  then show ?thesis by (auto simp: once_def)
qed

lemma once_trans:
  assumes "touches A s s1" "once A s s1" "touches B s1 s2" "once B s1 s2" "A \<inter> B = {}"
  shows "once (A \<union> B) s s2"
proof -
  have "sends s2 ch rid \<le> sends s ch rid + 1 \<and> (sends s ch rid < sends s2 ch rid \<longrightarrow> has_sent s2 rid ch)"
    if "(rid, ch) \<in> A \<union> B" "ch \<noteq> ''push''" for rid ch
  proof (cases "(rid, ch) \<in> A")
    case True
    then have "(rid, ch) \<notin> B" using assms(5) by blast
    then have "sends s2 ch rid = sends s1 ch rid" "has_sent s2 rid ch = has_sent s1 rid ch"
      using assms(3) by (simp_all add: touches_def)
    moreover have "sends s1 ch rid \<le> sends s ch rid + 1 \<and> (sends s ch rid < sends s1 ch rid \<longrightarrow> has_sent s1 rid ch)"
      using onceD [OF assms(2) True that(2)] .
    ultimately show ?thesis by simp
  next
    case False
    then have "sends s1 ch rid = sends s ch rid" using assms(1) by (simp add: touches_def)
    moreover have "(rid, ch) \<in> B" using that(1) False by blast
    then have "sends s2 ch rid \<le> sends s1 ch rid + 1 \<and> (sends s1 ch rid < sends s2 ch rid \<longrightarrow> has_sent s2 rid ch)"
      by (rule onceD [OF assms(4) _ that(2)])
    ultimately show ?thesis by simp
  qed
  then show ?thesis by (auto simp: once_def)
qed

text \<open>A fold of steps that touch disjoint sets sends each of their pairs at most once.\<close>

lemma fold_touches:
  assumes "\<And>x st. x \<in> set xs \<Longrightarrow> touches (A x) (p st) (p (f x st))"
  shows "touches (\<Union>x\<in>set xs. A x) (p st) (p (fold f xs st))"
  using assms
proof (induction xs arbitrary: st)
  case (Cons x xs)
  have "touches (A x) (p st) (p (f x st))" using Cons.prems by simp
  from touches_trans [OF this Cons.IH] Cons.prems show ?case by simp
qed simp

lemma fold_once:
  assumes "\<And>x st. x \<in> set xs \<Longrightarrow> touches (A x) (p st) (p (f x st)) \<and> once (A x) (p st) (p (f x st))"
    and "distinct xs" and "\<And>x y. x \<in> set xs \<Longrightarrow> y \<in> set xs \<Longrightarrow> x \<noteq> y \<Longrightarrow> A x \<inter> A y = {}"
  shows "once (\<Union>x\<in>set xs. A x) (p st) (p (fold f xs st))"
  using assms
proof (induction xs arbitrary: st)
  case (Cons x xs)
  have "A x \<inter> (\<Union>y\<in>set xs. A y) = {}" using Cons.prems(2,3) by fastforce
  then have "once (A x \<union> (\<Union>y\<in>set xs. A y)) (p st) (p (fold f xs (f x st)))"
    using Cons by (intro once_trans [of "A x" _ "p (f x st)"] fold_touches) auto
  then show ?case by simp
qed simp

text \<open>The contract of the \<open>NotificationSender\<close> interface: a send touches only its own channel and its own
  reminders. The stronger one adds that each reminder goes out at most once and is recorded when it did.\<close>

locale notification_sender =
  fixes channel :: string and send :: "reminder list \<Rightarrow> notify_state \<Rightarrow> notify_state \<times> bool"
  assumes own: "touches (rem_id ` set rs \<times> {channel}) s (fst (send rs s))"
begin

lemma other_channels:
  "c \<noteq> channel \<Longrightarrow> sends (fst (send rs s)) c rid = sends s c rid \<and> has_sent (fst (send rs s)) rid c = has_sent s rid c"
  using own [of rs s] by (simp add: touches_def)

end

locale single_sender = notification_sender channel send
  for channel :: string and out :: outside and send :: "reminder list \<Rightarrow> notify_state \<Rightarrow> notify_state \<times> bool" +
  assumes one_recipient: "channel \<noteq> ''push''"
    and once_each: "stores out \<Longrightarrow> distinct (map rem_id rs) \<Longrightarrow> once (rem_id ` set rs \<times> {channel}) s (fst (send rs s))"
begin

lemma sent_is_recorded:
  assumes "stores out" and "distinct (map rem_id rs)" and "sends s channel rid < sends (fst (send rs s)) channel rid"
  shows "has_sent (fst (send rs s)) rid channel"
proof (cases "rid \<in> rem_id ` set rs")
  case True
  then show ?thesis using once_each [OF assms(1,2)] one_recipient assms(3) by (auto simp: once_def)
next
  case False
  then show ?thesis using own [of rs s] assms(3) by (auto simp: touches_def)
qed

end

subsection \<open>The primitives\<close>

lemma sends_record [simp]: "sends (recordNotificationDelivery out rid ch b s) = sends s"
  by (simp add: sends_def recordNotificationDelivery_def fun_eq_iff)

lemma sends_save [simp]: "sends (save_reminder r s) = sends s" "has_sent (save_reminder r s) = has_sent s"
  by (simp_all add: sends_def has_sent_def save_reminder_def fun_eq_iff)

lemma sends_log [simp]:
  "sends (log_message m s) ch rid = sends s ch rid + covers m ch rid"
  "has_sent (log_message m s) = has_sent s"
  by (simp_all add: sends_def has_sent_def log_message_def fun_eq_iff)

lemma has_sent_record [simp]:
  "has_sent (recordNotificationDelivery out rid ch b s) r c \<longleftrightarrow>
   has_sent s r c \<or> r = rid \<and> c = ch \<and> b \<and> out_store out rid ch"
  by (auto simp: has_sent_def recordNotificationDelivery_def)

subsection \<open>The four senders\<close>

lemma mail_rows_sent:
  "sends (fold (\<lambda>r s. recordNotificationDelivery out (rem_id r) ch True (save_reminder (g r) s)) rs s) = sends s"
  "has_sent (fold (\<lambda>r s. recordNotificationDelivery out (rem_id r) ch True (save_reminder (g r) s)) rs s) rid c \<longleftrightarrow>
   has_sent s rid c \<or> (\<exists>r\<in>set rs. rem_id r = rid) \<and> c = ch \<and> out_store out rid ch"
  by (induction rs arbitrary: s) auto

lemma mail_rows_failed:
  "sends (fold (\<lambda>r. recordNotificationDelivery out (rem_id r) ch False) rs s) = sends s"
  "has_sent (fold (\<lambda>r. recordNotificationDelivery out (rem_id r) ch False) rs s) = has_sent s"
  by (induction rs arbitrary: s) (auto simp: fun_eq_iff)

lemma count_list_distinct: "distinct xs \<Longrightarrow> count_list xs x = of_bool (x \<in> set xs)"
  by (induction xs) auto

lemma email_Send_effect:
  assumes "email_Send out u rs s = (s', failed)"
  defines "el \<equiv> filter (\<lambda>r. rem_by_mail r = Some True) rs"
  shows "sends s' ch rid = sends s ch rid +
      (if \<not> failed \<and> nu_email u \<noteq> [] \<and> ch = ''email'' then count_list (map rem_id el) rid else 0)"
    and "has_sent s' rid ch \<longleftrightarrow> has_sent s rid ch \<or>
      \<not> failed \<and> rid \<in> rem_id ` set el \<and> ch = ''email'' \<and> out_store out rid ch"
  using assms(1)
  by (auto simp: email_Send_def Let_def el_def mail_rows_sent mail_rows_failed split: if_splits)

lemma email_sender: "single_sender ''email'' out (email_Send out u)"
proof
  show "''email'' \<noteq> ''push''" by simp
next
  fix rs s
  obtain s' failed where e: "email_Send out u rs s = (s', failed)" by fastforce
  show "touches (rem_id ` set rs \<times> {''email''}) s (fst (email_Send out u rs s))"
    using email_Send_effect [OF e] count_list_0_iff [of "map rem_id (filter (\<lambda>r. rem_by_mail r = Some True) rs)"]
    by (auto simp: touches_def e)
  assume "stores out" and d: "distinct (map rem_id rs)"
  have "distinct (map rem_id (filter (\<lambda>r. rem_by_mail r = Some True) rs))"
    using d by (rule distinct_map_filter)
  then show "once (rem_id ` set rs \<times> {''email''}) s (fst (email_Send out u rs s))"
    using email_Send_effect [OF e] \<open>stores out\<close>
    by (auto simp: once_def e stores_def count_list_distinct split: if_splits)
qed

lemma post_one_effect:
  "touches {(rem_id r, ch)} (fst sf) (fst (post_one out ch r sf))"
  "stores out \<Longrightarrow> once {(rem_id r, ch)} (fst sf) (fst (post_one out ch r sf))"
  by (auto simp: post_one_def touches_def once_def stores_def)

lemma id_sets: "(\<Union>r\<in>set rs. {(rem_id r, ch)}) = rem_id ` set rs \<times> {ch}"
  by auto

lemma post_fold_effect:
  "touches (rem_id ` set rs \<times> {ch}) (fst sf) (fst (fold (post_one out ch) rs sf))"
  "stores out \<Longrightarrow> distinct (map rem_id rs) \<Longrightarrow>
     once (rem_id ` set rs \<times> {ch}) (fst sf) (fst (fold (post_one out ch) rs sf))"
proof -
  show "touches (rem_id ` set rs \<times> {ch}) (fst sf) (fst (fold (post_one out ch) rs sf))"
    using fold_touches [of rs "\<lambda>r. {(rem_id r, ch)}" fst "post_one out ch" sf] post_one_effect(1) by (simp add: id_sets)
  assume "stores out" and d: "distinct (map rem_id rs)"
  then show "once (rem_id ` set rs \<times> {ch}) (fst sf) (fst (fold (post_one out ch) rs sf))"
    using fold_once [of rs "\<lambda>r. {(rem_id r, ch)}" fst "post_one out ch" sf] post_one_effect
    unfolding id_sets by (fastforce simp: distinct_map inj_on_def)
qed

lemma ntfy_sender: "single_sender ''ntfy'' out (ntfy_Send out nc)"
  by standard (simp_all add: ntfy_Send_def post_fold_effect [where sf = "(s, b)" for s b, simplified])

lemma gotify_sender: "single_sender ''gotify'' out (gotify_Send out nc)"
  by standard (simp_all add: gotify_Send_def post_fold_effect [where sf = "(s, b)" for s b, simplified])

lemma push_one_effect:
  "touches {(rem_id r, ''push'')} (fst sf) (fst (push_one out sub r sf))"
  "touches {(rem_id r, ''push'')} (fst sf) (fst (fcm_one out dev r sf))"
  by (auto simp: push_one_def fcm_one_def touches_def sends_def has_sent_def recordNotificationDelivery_def
        log_message_def split: push_answer.split)

lemma push_fold_effect:
  "touches (rem_id ` set rs \<times> {''push''}) (fst sf) (fst (fold (push_one out sub) rs sf))"
  "touches (rem_id ` set rs \<times> {''push''}) (fst sf) (fst (fold (fcm_one out dev) rs sf))"
  using fold_touches [of rs "\<lambda>r. {(rem_id r, ''push'')}" fst "push_one out sub" sf]
    fold_touches [of rs "\<lambda>r. {(rem_id r, ''push'')}" fst "fcm_one out dev" sf] push_one_effect
  by (simp_all add: id_sets)

lemma push_sender: "notification_sender ''push'' (push_Send cfg out u)"
proof
  fix rs :: "reminder list" and s :: notify_state
  let ?A = "rem_id ` set rs \<times> {''push''}"
  define subs where "subs = filter (\<lambda>p. ps_user p = nu_id u) (ns_subs s)"
  define devices where "devices = filter (\<lambda>d. dr_user d = nu_id u) (ns_devices s)"
  have "touches (\<Union>x\<in>set subs. ?A) s (fst (fold (\<lambda>sub. fold (push_one out sub) rs) subs (s, False)))" (is "touches _ _ ?s1")
    using fold_touches [of subs "\<lambda>_. ?A" fst "\<lambda>sub. fold (push_one out sub) rs" "(s, False)"] push_fold_effect(1) by simp
  then have 1: "touches ?A s ?s1" by (rule touches_mono) auto
  have "touches (\<Union>x\<in>set devices. ?A) (fst sf)
    (fst (fold (\<lambda>dev sf. if fcm_device cfg dev then fold (fcm_one out dev) rs sf else sf) devices sf))" for sf
    using fold_touches [of devices "\<lambda>_. ?A" fst "\<lambda>dev sf. if fcm_device cfg dev then fold (fcm_one out dev) rs sf else sf" sf]
      push_fold_effect(2) by simp
  then have 2: "touches ?A (fst sf)
    (fst (fold (\<lambda>dev sf. if fcm_device cfg dev then fold (fcm_one out dev) rs sf else sf) devices sf))" for sf
    by (rule touches_mono) auto
  show "touches ?A s (fst (push_Send cfg out u rs s))"
    using touches_trans [OF 1 2] by (simp add: push_Send_def Let_def subs_def devices_def)
qed

interpretation email: single_sender "''email''" out "email_Send out u" for out u
  by (rule email_sender)

interpretation ntfy: single_sender "''ntfy''" out "ntfy_Send out nc" for out nc
  by (rule ntfy_sender)

interpretation gotify: single_sender "''gotify''" out "gotify_Send out nc" for out nc
  by (rule gotify_sender)

interpretation push: notification_sender "''push''" "push_Send cfg out u" for cfg out u
  by (rule push_sender)


section \<open>What a run promises\<close>

lemma sender_Send_effect:
  assumes "ch \<in> set notificationSenders"
  shows "touches (rem_id ` set rs \<times> {ch}) s (fst (sender_Send cfg ncs out u ch rs s))"
    and "stores out \<Longrightarrow> distinct (map rem_id rs) \<Longrightarrow>
      once (rem_id ` set rs \<times> {ch}) s (fst (sender_Send cfg ncs out u ch rs s))"
proof -
  consider "ch = ''email''" | "ch = ''ntfy''" | "ch = ''gotify''" | "ch = ''push''"
    using assms by (auto simp: notificationSenders_def)
  note channels = this
  from channels show "touches (rem_id ` set rs \<times> {ch}) s (fst (sender_Send cfg ncs out u ch rs s))"
    by cases (simp_all add: sender_Send_def Let_def email.own ntfy.own gotify.own push.own)
  assume "stores out" "distinct (map rem_id rs)"
  with channels show "once (rem_id ` set rs \<times> {ch}) s (fst (sender_Send cfg ncs out u ch rs s))"
    by cases (simp_all add: sender_Send_def Let_def email.once_each ntfy.once_each gotify.once_each, simp add: once_def)
qed

lemma dispatch_channel_cases:
  "dispatch_channel e sent u rs ch st = st \<or>
   fst (dispatch_channel e sent u rs ch st) =
     fst (sender_Send (re_cfg e) (re_ncs e) (re_out e) u ch (eligible_for sent ch rs) (fst st))"
  by (cases st) (simp add: dispatch_channel_def Let_def split: prod.split)

lemma dispatch_channel_effect:
  assumes "ch \<in> set notificationSenders"
  shows "touches (rem_id ` set (eligible_for sent ch rs) \<times> {ch}) (fst st) (fst (dispatch_channel e sent u rs ch st))"
    and "stores (re_out e) \<Longrightarrow> distinct (map rem_id rs) \<Longrightarrow>
      once (rem_id ` set (eligible_for sent ch rs) \<times> {ch}) (fst st) (fst (dispatch_channel e sent u rs ch st))"
proof -
  note eff = dispatch_channel_cases [of e sent u rs ch st] sender_Send_effect [OF assms]
  show "touches (rem_id ` set (eligible_for sent ch rs) \<times> {ch}) (fst st) (fst (dispatch_channel e sent u rs ch st))"
    using eff(1,2) by (metis touches_refl)
  assume "stores (re_out e)" and d: "distinct (map rem_id rs)"
  moreover have "distinct (map rem_id (eligible_for sent ch rs))"
    using d by (simp add: eligible_for_def distinct_map_filter)
  ultimately show "once (rem_id ` set (eligible_for sent ch rs) \<times> {ch}) (fst st) (fst (dispatch_channel e sent u rs ch st))"
    using eff(1,3) by (metis once_refl)
qed

definition attempts :: "(nat \<Rightarrow> string \<Rightarrow> bool) \<Rightarrow> reminder list \<Rightarrow> nat \<Rightarrow> (nat \<times> string) set" where
  "attempts sent rs uid = {(rem_id r, ch) |r ch. r \<in> set rs \<and> rem_user r = uid \<and> \<not> sent (rem_id r) ch}"

lemma fire_hooks_same [simp]: "touches A s (fire_hooks e u rs s') = touches A s s'" "once A s (fire_hooks e u rs s') = once A s s'"
  by (simp_all add: touches_def once_def fire_hooks_def sends_def has_sent_def)

lemma dispatch_user_effect:
  shows "touches (attempts sent rs (nu_id u)) (fst st) (fst (dispatch_user e sent rs u st))"
    and "stores (re_out e) \<Longrightarrow> distinct (map rem_id rs) \<Longrightarrow>
      once (attempts sent rs (nu_id u)) (fst st) (fst (dispatch_user e sent rs u st))"
proof -
  let ?rs = "filter (\<lambda>r. rem_user r = nu_id u) rs"
  let ?A = "\<lambda>ch. rem_id ` set (eligible_for sent ch ?rs) \<times> {ch}"
  let ?loop = "fold (dispatch_channel e sent u ?rs) notificationSenders st"
  have sub: "(\<Union>ch\<in>set notificationSenders. ?A ch) \<subseteq> attempts sent rs (nu_id u)"
    by (auto simp: eligible_for_def attempts_def)
  have t: "touches (\<Union>ch\<in>set notificationSenders. ?A ch) (fst st) (fst ?loop)"
    by (intro fold_touches dispatch_channel_effect(1))
  have loop: "fst (dispatch_user e sent rs u st) = fire_hooks e u ?rs (fst ?loop)"
    by (simp add: dispatch_user_def Let_def split: prod.split)
  show "touches (attempts sent rs (nu_id u)) (fst st) (fst (dispatch_user e sent rs u st))"
    using touches_mono [OF t sub] by (simp add: loop)
  assume s: "stores (re_out e)" "distinct (map rem_id rs)"
  have o: "once (\<Union>ch\<in>set notificationSenders. ?A ch) (fst st) (fst ?loop)"
    using s dispatch_channel_effect by (intro fold_once) (auto simp: distinct_map_filter notificationSenders_def)
  have "once (attempts sent rs (nu_id u)) (fst st) (fst ?loop)" by (rule once_mono [OF o t])
  then show "once (attempts sent rs (nu_id u)) (fst st) (fst (dispatch_user e sent rs u st))"
    by (simp add: loop)
qed

lemma run_users_distinct:
  "distinct (map nu_id (re_users e)) \<Longrightarrow> distinct (run_users e rs) \<and> inj_on nu_id (set (run_users e rs))"
  by (auto simp: run_users_def distinct_map intro: inj_on_subset)

text \<open>The effect of a run: it touches only pairs that no delivery row covers, each at most once.\<close>

lemma sendRemindersAt_effect:
  assumes "sendRemindersAt e s = (s', res)"
  defines "B \<equiv> {(rid, ch). rid \<in> rem_id ` set (due_reminders e s) \<and> \<not> has_sent s rid ch}"
  shows "touches B s s'"
    and "stores (re_out e) \<Longrightarrow> distinct (map rem_id (ns_reminders s)) \<Longrightarrow> distinct (map nu_id (re_users e)) \<Longrightarrow> once B s s'"
proof -
  let ?rs = "due_reminders e s"
  let ?sent = "sent_deliveries ?rs s"
  let ?A = "\<lambda>u. attempts ?sent ?rs (nu_id u)"
  let ?loop = "fold (dispatch_user e ?sent ?rs) (run_users e ?rs) (s, 0, 0)"
  have s': "s' = fst ?loop" using assms(1) by (auto simp: sendRemindersAt_def Let_def split: prod.splits)
  have sub: "(\<Union>u\<in>set (run_users e ?rs). ?A u) \<subseteq> B"
    by (auto simp: attempts_def B_def sent_deliveries_def has_sent_def)
  have t: "touches (\<Union>u\<in>set (run_users e ?rs). ?A u) s (fst ?loop)"
    using fold_touches [of "run_users e ?rs" ?A fst "dispatch_user e ?sent ?rs" "(s, 0, 0)"] dispatch_user_effect(1) by simp
  show "touches B s s'" using touches_mono [OF t sub] by (simp add: s')
  assume d: "stores (re_out e)" "distinct (map rem_id (ns_reminders s))" "distinct (map nu_id (re_users e))"
  have ids: "distinct (map rem_id ?rs)" using d(2) by (simp add: due_reminders_def distinct_map_filter)
  have "?A u \<inter> ?A v = {}" if "u \<in> set (run_users e ?rs)" "v \<in> set (run_users e ?rs)" "u \<noteq> v" for u v
  proof -
    have "nu_id u \<noteq> nu_id v" using that run_users_distinct [OF d(3)] by (auto dest: inj_onD)
    then show ?thesis using ids by (fastforce simp: attempts_def distinct_map inj_on_def)
  qed
  then have "once (\<Union>u\<in>set (run_users e ?rs). ?A u) s (fst ?loop)"
    using fold_once [of "run_users e ?rs" ?A fst "dispatch_user e ?sent ?rs" "(s, 0, 0)"]
      dispatch_user_effect d(1) ids run_users_distinct [OF d(3)] by simp
  then show "once B s s'" using once_mono t s' by simp
qed


section \<open>At most one notification per occurrence\<close>

text \<open>The histories of the notification state: runs with any configuration and any answers of the services,
  completions, and changes of the tables by the users. The counter is the number of times a reminder was
  completed, that is, of its further occurrences.\<close>

inductive notify_reach :: "notify_state \<Rightarrow> (nat \<Rightarrow> nat) \<Rightarrow> bool" where
  start: "ns_log s = [] \<Longrightarrow> notify_reach s (\<lambda>_. 0)"
| run: "notify_reach s n \<Longrightarrow> stores (re_out e) \<Longrightarrow> distinct (map nu_id (re_users e)) \<Longrightarrow>
    distinct (map rem_id (ns_reminders s)) \<Longrightarrow> sendRemindersAt e s = (s', res) \<Longrightarrow> notify_reach s' n"
| completed: "notify_reach s n \<Longrightarrow> CompleteReminder now skip uid rid (s, cs) = Inr (s', cs') \<Longrightarrow>
    notify_reach s' (n(rid := n rid + 1))"
| changed: "notify_reach s n \<Longrightarrow>
    notify_reach (s\<lparr>ns_reminders := rs, ns_subs := subs, ns_devices := devices\<rparr>) n"

lemma CompleteReminder_frame:
  assumes "CompleteReminder now skip uid rid (s, cs) = Inr (s', cs')"
  shows "sends s' = sends s" and "q \<noteq> rid \<Longrightarrow> has_sent s' q = has_sent s q"
  using assms
  by (auto simp: CompleteReminder_def Let_def sends_def has_sent_def DeleteNotificationDeliveries_def
      save_reminder_def fun_eq_iff split: option.splits if_splits)

lemma sends_bounded:
  "notify_reach s n \<Longrightarrow> ch \<noteq> ''push'' \<Longrightarrow> sends s ch rid \<le> n rid + of_bool (has_sent s rid ch)"
proof (induction rule: notify_reach.induct)
  case (start s)
  then show ?case by (simp add: sends_def)
next
  case (run s n e s' res)
  define B where "B = {(rid, ch). rid \<in> rem_id ` set (due_reminders e s) \<and> \<not> has_sent s rid ch}"
  note eff = sendRemindersAt_effect [OF run.hyps(5), folded B_def]
  have o: "once B s s'" by (rule eff(2) [OF run.hyps(2,4,3)])
  show ?case
  proof (cases "(rid, ch) \<in> B")
    case True
    then have "sends s ch rid \<le> n rid" using run.IH [OF run.prems] by (auto simp: B_def)
    then show ?thesis using onceD [OF o True run.prems] by auto
  next
    case False
    then show ?thesis using eff(1) run.IH [OF run.prems] by (auto simp: touches_def)
  qed
next
  case (completed s n now skip uid r cs s' cs')
  show ?case
  proof (cases "rid = r")
    case True
    then show ?thesis using completed.IH [OF completed.prems] CompleteReminder_frame(1) [OF completed.hyps(2)]
      by (auto simp: of_bool_def split: if_splits)
  next
    case False
    then show ?thesis using completed.IH [OF completed.prems] CompleteReminder_frame [OF completed.hyps(2)] by auto
  qed
next
  case (changed s n rs subs devices)
  then show ?case by (simp add: sends_def has_sent_def)
qed

text \<open>C14: however often the dispatch runs, with whatever failures, and however the users edit their
  reminders in between, a reminder goes out by mail, ntfy or Gotify at most once per occurrence, provided
  the delivery rows of the runs could be written.\<close>

theorem reminder_sent_once:
  assumes "notify_reach s n" and "ch \<in> {''email'', ''ntfy'', ''gotify''}"
  shows "sends s ch rid \<le> n rid + 1"
  using sends_bounded [OF assms(1), of ch rid] assms(2) by (auto simp: of_bool_def split: if_splits)

section \<open>Every due reminder goes out\<close>

definition takes :: "run_env \<Rightarrow> notify_user \<Rightarrow> string \<Rightarrow> reminder \<Rightarrow> bool" where
  "takes e u ch r \<longleftrightarrow>
     (let nc = GetNotificationConfigForUser (re_ncs e) (nu_id u); out = re_out e
      in if ch = ''email''
         then sc_email_enabled (re_cfg e) \<and> nu_email u \<noteq> [] \<and> rem_by_mail r = Some True \<and>
              \<not> rem_email_sent r \<and> out_mail out (nu_id u)
         else if ch = ''ntfy'' then nu_ntfy u \<and> ntfy_ready nc \<and> out_post out ch (rem_id r)
         else ch = ''gotify'' \<and> nu_gotify u \<and> gotify_ready nc \<and> out_post out ch (rem_id r))"

lemma fold_keeps:
  "P st \<Longrightarrow> (\<And>y st. y \<in> set xs \<Longrightarrow> P st \<Longrightarrow> P (f y st)) \<Longrightarrow> P (fold f xs st)"
  by (induction xs arbitrary: st) auto

lemma fold_reaches:
  assumes "x \<in> set xs" and "\<And>st. P (f x st)" and "\<And>y st. y \<in> set xs \<Longrightarrow> P st \<Longrightarrow> P (f y st)"
  shows "P (fold f xs st)"
proof -
  obtain ys zs where xs: "xs = ys @ x # zs" using assms(1) by (auto simp: in_set_conv_decomp)
  have "P (fold f zs (f x (fold f ys st)))"
    by (rule fold_keeps) (use assms(2,3) xs in auto)
  then show ?thesis by (simp add: xs)
qed

lemma post_fold_sent:
  assumes "r \<in> set rs" and "out_post out ch (rem_id r)" and "stores out"
  shows "has_sent (fst (fold (post_one out ch) rs sf)) (rem_id r) ch"
proof (rule fold_reaches [OF assms(1)])
  show "has_sent (fst (post_one out ch r st)) (rem_id r) ch" for st
    using assms(2,3) by (simp add: post_one_def stores_def)
  show "has_sent (fst (post_one out ch y st)) (rem_id r) ch" if "has_sent (fst st) (rem_id r) ch" for y st
    using that by (simp add: post_one_def)
qed

lemma sender_takes:
  assumes "takes e u ch r" and "r \<in> set rs" and "stores (re_out e)"
  shows "has_sent (fst (sender_Send (re_cfg e) (re_ncs e) (re_out e) u ch rs s)) (rem_id r) ch"
    and "sender_Enabled (re_cfg e) (re_ncs e) u s ch" and "ch \<in> set notificationSenders"
proof -
  show "sender_Enabled (re_cfg e) (re_ncs e) u s ch" "ch \<in> set notificationSenders"
    using assms(1) by (auto simp: takes_def sender_Enabled_defs Let_def notificationSenders_def split: if_splits)
  have mail: "has_sent (fst (email_Send (re_out e) u rs s)) (rem_id r) ''email''"
    if "nu_email u \<noteq> []" "rem_by_mail r = Some True" "out_mail (re_out e) (nu_id u)"
  proof -
    obtain s' failed where m: "email_Send (re_out e) u rs s = (s', failed)" by fastforce
    then have "\<not> failed" using that by (auto simp: email_Send_def Let_def)
    then show ?thesis using email_Send_effect(2) [OF m, of "rem_id r" "''email''"] that assms(2,3)
      by (auto simp: m stores_def)
  qed
  show "has_sent (fst (sender_Send (re_cfg e) (re_ncs e) (re_out e) u ch rs s)) (rem_id r) ch"
    using assms mail post_fold_sent [of r rs "re_out e" _ "(s, False)"]
    by (auto simp: takes_def sender_Send_def Let_def ntfy_Send_def gotify_Send_def split: if_splits)
qed

lemma dispatch_channel_sent:
  assumes "takes e u ch r" and "r \<in> set rs" and "\<not> sent (rem_id r) ch" and "stores (re_out e)"
  shows "has_sent (fst (dispatch_channel e sent u rs ch st)) (rem_id r) ch"
proof -
  obtain s ok bad where st: "st = (s, ok, bad)" by (cases st)
  have el: "r \<in> set (eligible_for sent ch rs)"
    using assms(1-3) by (auto simp: eligible_for_def takes_def Let_def)
  note sender_takes(1,2) [OF assms(1) el assms(4), of s]
  then show ?thesis using el by (auto simp: dispatch_channel_def st Let_def split: prod.split)
qed

lemma touches_sent: "touches A s s' \<Longrightarrow> has_sent s rid ch \<Longrightarrow> has_sent s' rid ch"
  by (simp add: touches_def)

lemma dispatch_user_sent:
  assumes "takes e u ch r" and "r \<in> set rs" "rem_user r = nu_id u" and "\<not> sent (rem_id r) ch" and "stores (re_out e)"
  shows "has_sent (fst (dispatch_user e sent rs u st)) (rem_id r) ch"
proof -
  let ?rs = "filter (\<lambda>r. rem_user r = nu_id u) rs"
  have "has_sent (fst (fold (dispatch_channel e sent u ?rs) notificationSenders st)) (rem_id r) ch"
  proof (rule fold_reaches [where x = ch])
    show "ch \<in> set notificationSenders" by (rule sender_takes(3) [OF assms(1,2,5)])
    show "has_sent (fst (dispatch_channel e sent u ?rs ch st)) (rem_id r) ch" for st
      using assms by (intro dispatch_channel_sent) auto
    show "has_sent (fst (dispatch_channel e sent u ?rs y st)) (rem_id r) ch"
      if "y \<in> set notificationSenders" "has_sent (fst st) (rem_id r) ch" for y st
      by (rule touches_sent [OF dispatch_channel_effect(1) [OF that(1)] that(2)])
  qed
  then show ?thesis by (simp add: dispatch_user_def Let_def has_sent_def fire_hooks_def split_beta)
qed


section \<open>The lock and the run together\<close>

lemma acquired_row:
  assumes "acquireJobLock busy row i t m = (row', True)"
  shows "\<exists>job. row' = Some job \<and> acquire_tx row i t m = Inr job"
  using assms by (cases rule: acquireJobLock_cases) auto

lemma release_own:
  assumes "je_locked_by job = i"
  shows "fst (releaseJobLock (\<lambda>_. False) (Some job) i t success) = Some (job\<lparr>
     je_last_run := (if success then t else je_last_run job),
     je_last_outcome := (if success
       then (if je_last_outcome job = ''running'' \<or> je_last_outcome job = [] then ''ran'' else je_last_outcome job)
       else ''failed''), je_locked_at := None, je_locked_by := []\<rparr>)"
  using assms by (simp add: releaseJobLock_def release_tx_def)

lemma acquire_free_row:
  "je_locked_at job = None \<Longrightarrow>
   snd (acquireJobLock (\<lambda>_. False) (Some job) k v m) \<longleftrightarrow> m \<le> sub_time v (je_last_run job)"
  by (auto simp: acquireJobLock_def acquire_tx_def Let_def)

text \<open>After a dispatch in which a send failed, any instance may dispatch again at once. After one
  without failures every instance is refused until the window has passed, and no longer.\<close>

lemma dispatch_lock_outcome:
  assumes "SendRemindersWithRateLimit (\<lambda>_. False) i start finish e (Some job, s) = ((row', s'), Some res)"
    and "start \<le> v" and "\<bar>v - je_last_run job\<bar> < 2 ^ 63" "\<bar>v - finish\<bar> < 2 ^ 63"
  shows "snd (acquireJobLock (\<lambda>_. False) row' k v ReminderMinInterval) \<longleftrightarrow>
    isl res \<or> ReminderMinInterval \<le> v - finish"
proof -
  obtain row1 got where acq: "acquireJobLock (\<lambda>_. False) (Some job) i start ReminderMinInterval = (row1, got)" by fastforce
  then have got using assms(1) by (auto simp: SendRemindersWithRateLimit_def split: bool.splits)
  with acq obtain job1 where j1: "row1 = Some job1" "acquire_tx (Some job) i start ReminderMinInterval = Inr job1"
    using acquired_row by fastforce
  note tx = acquire_tx_entered [OF j1(2)]
  have res: "snd (sendRemindersAt e s) = res" and
    row': "row' = fst (releaseJobLock (\<lambda>_. False) (Some job1) i finish (\<not> isl res))"
    using assms(1) acq \<open>got\<close> j1(1) by (auto simp: SendRemindersWithRateLimit_def split: prod.splits)
  have last: "je_last_run job1 = je_last_run job" "ReminderMinInterval \<le> sub_time start (je_last_run job)"
    using tx(3) by auto
  have "0 < ReminderMinInterval"
    by (simp add: ReminderMinInterval_def JobCatchupWindow_def JobCatchupMargin_def trunc_quot_def dur_defs Let_def)
  then have "je_last_run job + ReminderMinInterval \<le> start" using last(2) by (intro sub_time_ge) auto
  then have "ReminderMinInterval \<le> v - je_last_run job" using assms(2) by simp
  then show ?thesis using assms(3,4) last(1)
    by (simp add: row' release_own [OF tx(2)] acquire_free_row sub_time_exact)
qed

section \<open>Two surprises\<close>

text \<open>The mail channel decides on all unsent due reminders, and only the sender drops those that are not
  by mail: a user whose due reminders are all for other channels gets a digest without a reminder in it,
  again at every run, because nothing is recorded for the mail channel.\<close>

lemma digest_without_reminders:
  assumes "eligible_for sent ''email'' rs \<noteq> []" and "\<forall>r\<in>set rs. rem_by_mail r \<noteq> Some True"
    and "sc_email_enabled (re_cfg e)" "nu_email u \<noteq> []" and "out_mail (re_out e) (nu_id u)"
  shows "dispatch_channel e sent u rs ''email'' (s, ok, bad) = (log_message (Mail (nu_id u) []) s, ok + 1, bad)"
proof -
  have "filter (\<lambda>r. rem_by_mail r = Some True) (eligible_for sent ''email'' rs) = []"
    using assms(2) by (auto simp: eligible_for_def filter_empty_conv)
  then show ?thesis using assms by (simp add: dispatch_channel_def sender_Enabled_defs sender_Send_def email_Send_def Let_def)
qed

text \<open>Completing a reminder that recurs on a fixed schedule, not from its completion, ends it: it stays
  in the table as completed with its date unchanged, and no later run finds it due.\<close>

lemma fixed_schedule_never_recurs:
  assumes "CompleteReminder now skip uid rid (s, cs) = Inr (s', cs')"
    and "\<And>r. r \<in> set (ns_reminders s) \<Longrightarrow> rem_id r = rid \<Longrightarrow>
      rem_from_completion r = Some False \<and> rem_recurrence r \<noteq> ''once''"
  shows "rid \<in> rem_id ` set (ns_reminders s') \<and> rid \<notin> rem_id ` set (due_reminders e s')"
proof -
  obtain r0 where f: "List.find (\<lambda>r. rem_user r = uid \<and> rem_id r = rid) (ns_reminders s) = Some r0"
    using assms(1) by (auto simp: CompleteReminder_def split: option.splits)
  then have r0: "r0 \<in> set (ns_reminders s)" "rem_id r0 = rid" by (auto simp: find_Some_iff)
  have s': "s' = save_reminder (r0\<lparr>rem_completed := True, rem_last_sent := Some now\<rparr>) s"
    using assms(1) f assms(2) [OF r0] by (auto simp: CompleteReminder_def Let_def)
  have "rid \<in> rem_id ` set (ns_reminders s')"
  proof -
    have "map rem_id (ns_reminders s') = map rem_id (ns_reminders s)" by (auto simp: s' save_reminder_def)
    from arg_cong [OF this, of set] have "rem_id ` set (ns_reminders s') = rem_id ` set (ns_reminders s)" by simp
    then show ?thesis using r0 by blast
  qed
  moreover have "rem_completed x" if "x \<in> set (ns_reminders s')" "rem_id x = rid" for x
  proof -
    have "x = r0\<lparr>rem_completed := True, rem_last_sent := Some now\<rparr> \<or> rem_id x \<noteq> rid"
      using that(1) unfolding s' save_reminder_def by (auto simp: r0(2))
    then show ?thesis using that(2) by auto
  qed
  then have "rid \<notin> rem_id ` set (due_reminders e s')" unfolding due_reminders_def by auto
  ultimately show ?thesis ..
qed

section \<open>Concrete runs\<close>

definition demo_reminder :: reminder where
  "demo_reminder = \<lparr>rem_id = 7, rem_user = 5, rem_message = ''call'', rem_by_mail = Some False, rem_at = 0,
     rem_recurrence = ''monthly'', rem_from_completion = Some False, rem_completed = False,
     rem_email_sent = False, rem_last_sent = None, rem_contact = Some 9\<rparr>"

definition demo_state :: notify_state where
  "demo_state = \<lparr>ns_reminders = [demo_reminder], ns_deliveries = [], ns_subs = [], ns_devices = [], ns_log = [], ns_hooks = []\<rparr>"

definition demo_env :: "bool \<Rightarrow> run_env" where
  "demo_env up = \<lparr>re_cfg = \<lparr>sc_email_enabled = False, sc_fcm_account = False\<rparr>,
     re_ncs = [\<lparr>nc_user = 5, nc_ntfy_url = ''n'', nc_ntfy_topic = ''t'', nc_gotify_url = [], nc_gotify_token = []\<rparr>],
     re_users = [\<lparr>nu_id = 5, nu_email = [], nu_ntfy = True, nu_gotify = False, nu_push = False\<rparr>],
     re_contacts = [], re_zone = utc, re_now = nanos_per_day,
     re_out = \<lparr>out_now = nanos_per_day, out_mail = (\<lambda>_. up), out_post = (\<lambda>_ _. up), out_push = (\<lambda>_ _. Failed),
       out_fcm = (\<lambda>_ _. Failed), out_store = (\<lambda>_ _. True)\<rparr>\<rparr>"

lemmas demo_defs = demo_reminder_def demo_state_def demo_env_def

lemma demo_due: "due_reminders (demo_env up) demo_state = [demo_reminder]"
  by (simp add: due_reminders_def demo_defs endOfDay_def utc_def nanos_per_day_def dur_defs)

lemma no_birthdays: "GetUpcomingBirthdays [] u z now = []"
  by (simp add: GetUpcomingBirthdays_def Let_def)

lemma demo_users: "run_users (demo_env up) [demo_reminder] = re_users (demo_env up)"
  by (simp add: run_users_def demo_defs)

lemma demo_run: "isl (snd (sendRemindersAt (demo_env up) demo_state)) \<longleftrightarrow> \<not> up"
  by (simp add: sendRemindersAt_def demo_due demo_users Let_def)
    (simp add: demo_defs dispatch_user_def dispatch_channel_def notificationSenders_def eligible_for_def
      sent_deliveries_def today_birthdays_def no_birthdays sender_Enabled_defs sender_Send_def
      GetNotificationConfigForUser_def ntfy_ready_def ntfy_Send_def post_one_def Let_def)

lemma demo_takes: "takes (demo_env True) (hd (re_users (demo_env True))) ''ntfy'' demo_reminder"
  by (simp add: takes_def demo_defs GetNotificationConfigForUser_def ntfy_ready_def)

lemma reminder_sent_once_witness:
  "\<exists>s n. notify_reach s n \<and> sends s ''ntfy'' 7 \<le> n 7 + 1"
proof -
  have "notify_reach demo_state (\<lambda>_. 0)" by (rule notify_reach.start) (simp add: demo_state_def)
  from notify_reach.run [OF this, of "demo_env True"]
  have r: "notify_reach (fst (sendRemindersAt (demo_env True) demo_state)) (\<lambda>_. 0)"
    by (simp add: demo_defs stores_def prod_eq_iff)
  from reminder_sent_once [OF r, of "''ntfy''" 7] r show ?thesis by blast
qed


lemma fixed_schedule_never_recurs_witness:
  "\<exists>s' cs'. CompleteReminder 1 True 5 7 (demo_state, []) = Inr (s', cs') \<and>
    7 \<notin> rem_id ` set (due_reminders (demo_env True) s')"
proof -
  obtain s' cs' where c: "CompleteReminder 1 True 5 7 (demo_state, []) = Inr (s', cs')"
    by (simp add: CompleteReminder_def demo_defs Let_def)
  have "7 \<in> rem_id ` set (ns_reminders s') \<and> 7 \<notin> rem_id ` set (due_reminders (demo_env True) s')"
    by (rule fixed_schedule_never_recurs [OF c]) (simp_all add: demo_defs)
  with c show ?thesis by blast
qed

lemma dispatch_lock_outcome_witness:
  "\<exists>row' s' res. SendRemindersWithRateLimit (\<lambda>_. False) ''a'' 0 0 (demo_env False)
      (Some \<lparr>je_last_run = - nanos_per_day, je_locked_at = None, je_locked_by = [], je_last_outcome = ''ran''\<rparr>, demo_state)
      = ((row', s'), Some res) \<and> snd (acquireJobLock (\<lambda>_. False) row' ''b'' minute ReminderMinInterval)"
proof -
  let ?job = "\<lparr>je_last_run = - nanos_per_day, je_locked_at = None, je_locked_by = [], je_last_outcome = ''ran''\<rparr>"
  let ?call = "SendRemindersWithRateLimit (\<lambda>_. False) ''a'' 0 0 (demo_env False) (Some ?job, demo_state)"
  have "acquireJobLock (\<lambda>_. False) (Some ?job) ''a'' 0 ReminderMinInterval =
      (Some (?job\<lparr>je_locked_at := Some 0, je_locked_by := ''a'', je_last_outcome := ''running''\<rparr>), True)"
    by (simp add: acquireJobLock_def acquire_tx_def ReminderMinInterval_def JobCatchupWindow_def JobCatchupMargin_def
        trunc_quot_def sub_time_def nanos_per_day_def dur_defs Let_def)
  then obtain row' s' where c: "?call = ((row', s'), Some (snd (sendRemindersAt (demo_env False) demo_state)))"
    by (simp add: SendRemindersWithRateLimit_def split_beta)
  have "snd (acquireJobLock (\<lambda>_. False) row' ''b'' minute ReminderMinInterval) \<longleftrightarrow>
      isl (snd (sendRemindersAt (demo_env False) demo_state)) \<or> ReminderMinInterval \<le> minute - 0"
    by (rule dispatch_lock_outcome [OF c]) (simp_all add: nanos_per_day_def dur_defs)
  with c demo_run show ?thesis by blast
qed

end
