(* ===== verification/JsonText.thy ===== *)
theory JsonText imports Prelude begin

text \<open>
  What the code uses of \<open>encoding/json\<close>: the text of a string and of an unsigned number inside an object
  of fixed fields (the audit chain hashes such a text), and the parsed tree that the snapshot redaction
  walks. Strings are valid UTF-8, as byte lists. A reader of the written text shows that the text
  determines the value.
\<close>

section \<open>Strings\<close>

definition hex_digit :: "nat \<Rightarrow> char" where
  "hex_digit n = (if n < 10 then char_of (48 + n) else char_of (87 + n))"

definition hex_value :: "char \<Rightarrow> nat" where
  "hex_value c = (let n = of_char c in if n < 58 then n - 48 else n - 87)"

lemma hex_value_digit [simp]: "n < 16 \<Longrightarrow> hex_value (hex_digit n) = n"
  by (simp add: hex_value_def hex_digit_def Let_def)

text \<open>One byte: quote and backslash, the named control characters, the other control characters and the
  three characters that are special in HTML.\<close>

definition esc_byte :: "char \<Rightarrow> string" where
  "esc_byte c =
     (let n = of_char c :: nat
      in if n = 34 then [CHR 0x5C, CHR 0x22] else if n = 92 then [CHR 0x5C, CHR 0x5C]
         else if n = 8 then [CHR 0x5C, CHR ''b''] else if n = 12 then [CHR 0x5C, CHR ''f'']
         else if n = 10 then [CHR 0x5C, CHR ''n''] else if n = 13 then [CHR 0x5C, CHR ''r'']
         else if n = 9 then [CHR 0x5C, CHR ''t'']
         else if n < 32 \<or> n = 60 \<or> n = 62 \<or> n = 38
         then [CHR 0x5C, CHR ''u'', CHR ''0'', CHR ''0'', hex_digit (n div 16), hex_digit (n mod 16)]
         else [c])"

text \<open>U+2028 and U+2029 are escaped too.\<close>

definition line_separator :: "string \<Rightarrow> bool" where
  "line_separator s \<longleftrightarrow> take 3 s = [CHR 0xE2, CHR 0x80, CHR 0xA8] \<or> take 3 s = [CHR 0xE2, CHR 0x80, CHR 0xA9]"

fun json_esc :: "string \<Rightarrow> string" where
  "json_esc [] = []"
| "json_esc (c # cs) =
     (if line_separator (c # cs)
      then [CHR 0x5C, CHR ''u'', CHR ''2'', CHR ''0'', CHR ''2'', if cs ! 1 = CHR 0xA8 then CHR ''8'' else CHR ''9'']
           @ json_esc (drop 2 cs)
      else esc_byte c @ json_esc cs)"

definition json_string :: "string \<Rightarrow> string" where
  "json_string s = CHR 0x22 # json_esc s @ [CHR 0x22]"

text \<open>The reader: up to the closing quote.\<close>

definition unesc_char :: "char \<Rightarrow> char" where
  "unesc_char c = (if c = CHR ''b'' then CHR 0x08 else if c = CHR ''f'' then CHR 0x0C
     else if c = CHR ''n'' then CHR 0x0A else if c = CHR ''r'' then CHR 0x0D
     else if c = CHR ''t'' then CHR 0x09 else c)"

definition unesc_hex :: "string \<Rightarrow> string" where
  "unesc_hex h = (if h ! 0 = CHR ''0'' then [char_of (16 * hex_value (h ! 2) + hex_value (h ! 3))]
     else [CHR 0xE2, CHR 0x80, if h ! 3 = CHR ''8'' then CHR 0xA8 else CHR 0xA9])"

definition push :: "string \<Rightarrow> (string \<times> string) option \<Rightarrow> (string \<times> string) option" where
  "push p r = map_option (\<lambda>(s, rest). (p @ s, rest)) r"

fun json_unesc :: "string \<Rightarrow> (string \<times> string) option" where
  "json_unesc [] = None"
| "json_unesc (c # cs) =
     (if c = CHR 0x22 then Some ([], cs)
      else if c = CHR 0x5C then
        (case cs of [] \<Rightarrow> None
         | e # r \<Rightarrow> if e = CHR ''u'' then push (unesc_hex (take 4 r)) (json_unesc (drop 4 r))
                    else push [unesc_char e] (json_unesc r))
      else push [c] (json_unesc cs))"

lemma push_simps [simp]: "push p (Some (s, r)) = Some (p @ s, r)" "push p None = None"
  by (simp_all add: push_def)

lemma char_of_nibbles: "16 * (of_char c div 16) + of_char c mod 16 = (of_char c :: nat)"
  by simp

lemma unesc_byte: "json_unesc (esc_byte c @ t) = push [c] (json_unesc t)"
proof -
  define n where "n = (of_char c :: nat)"
  have c: "c = char_of n" by (simp add: n_def)
  consider "n = 34" | "n = 92" | "n = 8" | "n = 12" | "n = 10" | "n = 13" | "n = 9"
    | "n \<notin> {34, 92, 8, 12, 10, 13, 9}" "n < 32 \<or> n = 60 \<or> n = 62 \<or> n = 38"
    | "n \<notin> {34, 92, 8, 12, 10, 13, 9}" "\<not> (n < 32 \<or> n = 60 \<or> n = 62 \<or> n = 38)" by blast
  then show ?thesis
  proof cases
    case 8
    then have "n div 16 < 16" by auto
    then have "unesc_hex [CHR ''0'', CHR ''0'', hex_digit (n div 16), hex_digit (n mod 16)] = [c]"
      by (simp add: unesc_hex_def c)
    then show ?thesis using 8 by (simp add: esc_byte_def Let_def n_def [symmetric] del: One_nat_def)
  next
    case 9
    then have "c \<noteq> CHR 0x22" "c \<noteq> CHR 0x5C" by (auto simp: n_def)
    then show ?thesis using 9 by (simp add: esc_byte_def Let_def n_def [symmetric])
  qed (simp_all add: esc_byte_def Let_def c unesc_char_def, simp_all add: char_of_def bit_0)
qed

lemma unesc_esc: "json_unesc (json_esc s @ CHR 0x22 # r) = Some (s, r)"
proof (induction s rule: json_esc.induct)
  case (2 c cs)
  show ?case
  proof (cases "line_separator (c # cs)")
    case True
    then obtain d cs' where "c # cs = CHR 0xE2 # CHR 0x80 # d # cs'" "d = CHR 0xA8 \<or> d = CHR 0xA9"
      by (auto simp: line_separator_def take_Suc_conv_app_nth numeral_3_eq_3 split: list.splits)
        (cases cs; cases "tl cs"; auto simp: take_Suc)+
    then show ?thesis using 2(1) [OF True] True by (auto simp: unesc_hex_def)
  next
    case False
    then show ?thesis using 2(2) [OF False] by (simp add: unesc_byte)
  qed
qed simp

section \<open>Texts that can be read back\<close>

text \<open>A printer whose output a reader takes off the front of any continuation it is meant for.\<close>

locale front_codec =
  fixes put :: "'a \<Rightarrow> string" and get :: "string \<Rightarrow> ('a \<times> string) option" and next_ok :: "string \<Rightarrow> bool"
  assumes read_back: "next_ok r \<Longrightarrow> get (put x @ r) = Some (x, r)"
begin

lemma put_inj:
  assumes "put x @ r = put y @ q" and "next_ok r" and "next_ok q"
  shows "x = y \<and> r = q"
proof -
  have "Some (x, r) = Some (y, q)" using read_back [OF assms(2)] read_back [OF assms(3)] assms(1) by metis
  then show ?thesis by simp
qed

end

definition get_json_string :: "string \<Rightarrow> (string \<times> string) option" where
  "get_json_string s = (case s of [] \<Rightarrow> None | q # r \<Rightarrow> if q = CHR 0x22 then json_unesc r else None)"

interpretation json_str: front_codec json_string get_json_string "\<lambda>_. True"
  by unfold_locales (simp add: json_string_def get_json_string_def unesc_esc)

definition get_number :: "string \<Rightarrow> (nat \<times> string) option" where
  "get_number s = Some (digits_val (takeWhile is_digit s), dropWhile is_digit s)"

definition no_digit_next :: "string \<Rightarrow> bool" where
  "no_digit_next r \<longleftrightarrow> r = [] \<or> \<not> is_digit (hd r)"

lemma digits_val_snoc: "digits_val (s @ [digit_char d]) = 10 * digits_val s + digit_val (digit_char d)"
  by (simp add: digits_val_def)

lemma digits_show_nat: "list_all is_digit (show_nat n) \<and> digits_val (show_nat n) = n"
proof (induction n rule: show_nat.induct)
  case (1 n)
  then show ?case
    by (cases "n < 10") (simp_all add: show_nat_1 show_nat_step digits_val_snoc, simp add: digits_val_def)
qed

interpretation json_num: front_codec show_nat get_number no_digit_next
proof
  fix r x
  assume r: "no_digit_next r"
  have d: "\<forall>c\<in>set (show_nat x). is_digit c" using digits_show_nat [of x] by (simp add: list_all_iff)
  have "takeWhile is_digit r = []" "dropWhile is_digit r = r" using r by (cases r; simp add: no_digit_next_def)+
  then have "takeWhile is_digit (show_nat x @ r) = show_nat x" "dropWhile is_digit (show_nat x @ r) = r"
    using d by (simp_all add: takeWhile_append2 dropWhile_append2)
  then show "get_number (show_nat x @ r) = Some (x, r)" using digits_show_nat [of x] by (simp add: get_number_def)
qed

section \<open>Parsed documents\<close>

text \<open>A parsed document as \<open>interface{}\<close> holds it: the keys of an object are distinct.\<close>

datatype json = JNull | JBool bool | JNumber string | JString string | JArray "json list"
  | JObject "(string \<times> json) list"

text \<open>The keys at any depth, and the value at a path.\<close>

fun json_keys :: "json \<Rightarrow> string set" where
  "json_keys (JArray vs) = (\<Union>v\<in>set vs. json_keys v)"
| "json_keys (JObject kvs) = fst ` set kvs \<union> (\<Union>kv\<in>set kvs. json_keys (snd kv))"
| "json_keys _ = {}"

datatype json_step = Key string | Index nat

fun json_at :: "json_step list \<Rightarrow> json \<Rightarrow> json option" where
  "json_at [] v = Some v"
| "json_at (Key k # p) (JObject kvs) = (case map_of kvs k of None \<Rightarrow> None | Some v \<Rightarrow> json_at p v)"
| "json_at (Index i # p) (JArray vs) = (if i < length vs then json_at p (vs ! i) else None)"
| "json_at _ _ = None"

end
