(* ===== verification/AuditTrail.thy ===== *)
theory AuditTrail imports GoTime JsonText begin

text \<open>
  The audit trail: the tamper-evident hash chain (\<open>backend/models/audit_chain.go\<close>), the recorder that
  appends to it (\<open>models/audit_recorder.go\<close>), the retention purge (\<open>services/audit_purge_service.go\<close>), and the
  redaction of the snapshots (\<open>models/audit.go\<close>). SHA-256 with its hexadecimal rendering is the parameter
  \<open>sha\<close>. Tables are lists of rows in the order of their ids.
\<close>

section \<open>Events and their hash\<close>

record audit_event =
  ae_id :: nat
  ae_created_at :: int
  ae_entity_type :: string
  ae_entity_id :: string
  ae_operation :: string
  ae_user :: nat
  ae_before :: string
  ae_hash :: string
  ae_prev_hash :: string

record chain_content =
  cc_entity_type :: string
  cc_entity_id :: string
  cc_operation :: string
  cc_user :: nat
  cc_before :: string
  cc_created_at :: string

definition auditChainGenesis :: string where "auditChainGenesis = []"

text \<open>\<open>Truncate(time.Microsecond).Format(time.RFC3339Nano)\<close> in UTC: the fraction without trailing zeros.\<close>

definition truncate_micro :: "int \<Rightarrow> int" where
  "truncate_micro t = t - t mod 1000"

definition drop_zeros :: "string \<Rightarrow> string" where
  "drop_zeros s = rev (dropWhile (\<lambda>c. c = CHR ''0'') (rev s))"

definition format_rfc3339_nano :: "int \<Rightarrow> string" where
  "format_rfc3339_nano t =
     (let n = civil_day utc t; c = clock_of utc t; ns = nat (c mod second); frac = drop_zeros (zero_pad 9 (show_nat ns))
      in fmt_0d 4 (year_of n) @ ''-'' @ pad2 (nat (month_of n)) @ ''-'' @ pad2 (nat (day_of n)) @ ''T'' @
         pad2 (nat (c div hour)) @ '':'' @ pad2 (nat (c div minute mod 60)) @ '':'' @ pad2 (nat (c div second mod 60)) @
         (if frac = [] then [] else ''.'' @ frac) @ ''Z'')"

definition chainContent :: "audit_event \<Rightarrow> chain_content" where
  "chainContent e = \<lparr>cc_entity_type = ae_entity_type e, cc_entity_id = ae_entity_id e,
     cc_operation = ae_operation e, cc_user = ae_user e, cc_before = ae_before e,
     cc_created_at = format_rfc3339_nano (truncate_micro (ae_created_at e))\<rparr>"

text \<open>\<open>json.Marshal\<close> of the content: the fields in the order of the struct.\<close>

definition marshal_content :: "chain_content \<Rightarrow> string" where
  "marshal_content c =
     ''{'' @ json_string ''entity_type'' @ '':'' @ json_string (cc_entity_type c) @
     '','' @ json_string ''entity_id'' @ '':'' @ json_string (cc_entity_id c) @
     '','' @ json_string ''operation'' @ '':'' @ json_string (cc_operation c) @
     '','' @ json_string ''user_id'' @ '':'' @ show_nat (cc_user c) @
     '','' @ json_string ''before_snapshot'' @ '':'' @ json_string (cc_before c) @
     '','' @ json_string ''created_at'' @ '':'' @ json_string (cc_created_at c) @ ''}''"

definition chain_input :: "string \<Rightarrow> audit_event \<Rightarrow> string" where
  "chain_input prev e = prev @ [CHR 0x00] @ marshal_content (chainContent e)"

definition AuditChainHash :: "(string \<Rightarrow> string) \<Rightarrow> string \<Rightarrow> audit_event \<Rightarrow> string" where
  "AuditChainHash sha prev e = sha (chain_input prev e)"

section \<open>Verifying, re-linking, appending, purging\<close>

datatype gap_kind = BackfillPending | PrevHashMismatch | HashMismatch

fun verify_from :: "(string \<Rightarrow> string) \<Rightarrow> string \<Rightarrow> audit_event list \<Rightarrow> (nat \<times> gap_kind) option" where
  "verify_from sha prev [] = None"
| "verify_from sha prev (e # es) =
     (if ae_hash e = [] then Some (ae_id e, BackfillPending)
      else if ae_prev_hash e \<noteq> prev then Some (ae_id e, PrevHashMismatch)
      else if ae_hash e \<noteq> AuditChainHash sha prev e then Some (ae_id e, HashMismatch)
      else verify_from sha (ae_hash e) es)"

definition VerifyAuditChain :: "(string \<Rightarrow> string) \<Rightarrow> audit_event list \<Rightarrow> (nat \<times> gap_kind) option" where
  "VerifyAuditChain sha events = verify_from sha auditChainGenesis events"

text \<open>The links that have to be rewritten, and the writes.\<close>

fun chain_updates :: "(string \<Rightarrow> string) \<Rightarrow> string \<Rightarrow> audit_event list \<Rightarrow> (nat \<times> string \<times> string) list" where
  "chain_updates sha prev [] = []"
| "chain_updates sha prev (e # es) =
     (let h = AuditChainHash sha prev e
      in (if ae_prev_hash e \<noteq> prev \<or> ae_hash e \<noteq> h then [(ae_id e, prev, h)] else []) @ chain_updates sha h es)"

definition write_link :: "nat \<times> string \<times> string \<Rightarrow> audit_event list \<Rightarrow> audit_event list" where
  "write_link u = map (\<lambda>e. if ae_id e = fst u then e\<lparr>ae_prev_hash := fst (snd u), ae_hash := snd (snd u)\<rparr> else e)"

definition RecomputeAuditChain :: "(string \<Rightarrow> string) \<Rightarrow> audit_event list \<Rightarrow> audit_event list" where
  "RecomputeAuditChain sha events = fold write_link (chain_updates sha auditChainGenesis events) events"

text \<open>The append: the read of the last hash may fail, then the row starts from the genesis; the insert may
  fail, then there is no row.\<close>

definition persist :: "(string \<Rightarrow> string) \<Rightarrow> bool \<Rightarrow> bool \<Rightarrow> audit_event \<Rightarrow> audit_event list \<Rightarrow> audit_event list" where
  "persist sha scan_ok create_ok new events =
     (let e = new\<lparr>ae_created_at := truncate_micro (ae_created_at new)\<rparr>;
          prev = (if scan_ok then (if events = [] then [] else ae_hash (last events)) else [])
      in if create_ok then events @ [e\<lparr>ae_prev_hash := prev, ae_hash := AuditChainHash sha prev e\<rparr>] else events)"

definition PurgeExpiredAuditEvents :: "(string \<Rightarrow> string) \<Rightarrow> int \<Rightarrow> int \<Rightarrow> audit_event list \<Rightarrow> audit_event list" where
  "PurgeExpiredAuditEvents sha AuditRetentionDays now events =
     (if AuditRetentionDays \<le> 0 then events
      else (let cutoff = now - AuditRetentionDays * 24 * hour;
                kept = filter (\<lambda>e. \<not> ae_created_at e < cutoff) events
            in if length kept < length events then RecomputeAuditChain sha kept else kept))"

section \<open>The content text determines the content\<close>

lemma json_string_append_eq [simp]: "json_string x @ r = json_string y @ q \<longleftrightarrow> x = y \<and> r = q"
  using json_str.put_inj [of x r y q] by auto

lemma json_string_eq [simp]: "json_string x = json_string y \<longleftrightarrow> x = y"
  using json_string_append_eq [of x "[]" y "[]"] by simp

lemma show_nat_comma_eq [simp]: "show_nat a @ CHR '','' # r = show_nat b @ CHR '','' # q \<longleftrightarrow> a = b \<and> r = q"
  using json_num.put_inj [of a "CHR '','' # r" b "CHR '','' # q"] by (auto simp: no_digit_next_def is_digit_def)

lemma marshal_content_inj [simp]: "marshal_content c = marshal_content d \<longleftrightarrow> c = d"
  by (cases c; cases d) (auto simp: marshal_content_def)

section \<open>The chain\<close>

lemma hash_ignores_links [simp]:
  "AuditChainHash sha p (e\<lparr>ae_prev_hash := q, ae_hash := h\<rparr>) = AuditChainHash sha p e"
  "chainContent (e\<lparr>ae_prev_hash := q, ae_hash := h\<rparr>) = chainContent e"
  by (simp_all add: AuditChainHash_def chain_input_def chainContent_def)

definition last_hash :: "string \<Rightarrow> audit_event list \<Rightarrow> string" where
  "last_hash prev es = (if es = [] then prev else ae_hash (last es))"

lemma last_hash_simps [simp]:
  "last_hash prev [] = prev" "last_hash prev (e # es) = last_hash (ae_hash e) es" "last_hash prev (es @ [e]) = ae_hash e"
  by (simp_all add: last_hash_def)

lemma verify_from_append:
  "verify_from sha prev (es @ fs) =
     (case verify_from sha prev es of Some g \<Rightarrow> Some g | None \<Rightarrow> verify_from sha (last_hash prev es) fs)"
  by (induction es arbitrary: prev) (auto split: option.split)

lemma verify_cons_None:
  "verify_from sha prev (e # es) = None \<longleftrightarrow>
   ae_hash e \<noteq> [] \<and> ae_prev_hash e = prev \<and> ae_hash e = AuditChainHash sha prev e \<and> verify_from sha (ae_hash e) es = None"
  by auto

fun relink :: "(string \<Rightarrow> string) \<Rightarrow> string \<Rightarrow> audit_event list \<Rightarrow> audit_event list" where
  "relink sha prev [] = []"
| "relink sha prev (e # es) =
     (let h = AuditChainHash sha prev e in e\<lparr>ae_prev_hash := prev, ae_hash := h\<rparr> # relink sha h es)"

lemma updates_ids: "fst ` set (chain_updates sha prev es) \<subseteq> ae_id ` set es"
  by (induction sha prev es rule: chain_updates.induct) (auto simp: Let_def split: if_splits)

lemma fold_write_link_cons:
  "ae_id e \<notin> fst ` set us \<Longrightarrow> fold write_link us (e # es) = e # fold write_link us es"
  by (induction us arbitrary: es) (auto simp: write_link_def)

lemma write_link_other: "fst u \<notin> ae_id ` set es \<Longrightarrow> write_link u es = es"
  unfolding write_link_def by (rule map_idI) (auto, metis imageI)

lemma recompute_is_relink:
  "distinct (map ae_id es) \<Longrightarrow> fold write_link (chain_updates sha prev es) es = relink sha prev es"
proof (induction es arbitrary: prev)
  case (Cons e es)
  let ?h = "AuditChainHash sha prev e"
  have new: "ae_id e \<notin> fst ` set (chain_updates sha ?h es)" using updates_ids [of sha ?h es] Cons.prems by auto
  have same: "e\<lparr>ae_prev_hash := prev, ae_hash := ?h\<rparr> = e" if "ae_prev_hash e = prev" "ae_hash e = ?h"
    using that by (cases e) simp
  have "write_link (ae_id e, prev, ?h) (e # es) = e\<lparr>ae_prev_hash := prev, ae_hash := ?h\<rparr> # es"
    using write_link_other [of "(ae_id e, prev, ?h)" es] Cons.prems by (auto simp: write_link_def)
  then show ?case using Cons same new by (auto simp: Let_def fold_write_link_cons)
qed simp

lemma relink_verifies: "(\<And>x. sha x \<noteq> []) \<Longrightarrow> verify_from sha prev (relink sha prev es) = None"
  by (induction es arbitrary: prev) (simp_all add: Let_def, simp add: AuditChainHash_def)

lemma relink_content: "map chainContent (relink sha prev es) = map chainContent es"
  by (induction es arbitrary: prev) (simp_all add: Let_def)

lemma relink_intact: "verify_from sha prev es = None \<Longrightarrow> relink sha prev es = es"
  by (induction es arbitrary: prev) (auto simp: Let_def split: if_splits)

text \<open>After a recompute the whole chain verifies, with every content as it was, and a chain that
  verified is left as it is. The recompute runs at every start of the server, so a chain that was
  tampered with verifies again after a restart.\<close>

lemma recompute_verifies:
  assumes "distinct (map ae_id es)" and "\<And>x. sha x \<noteq> []"
  shows "VerifyAuditChain sha (RecomputeAuditChain sha es) = None \<and>
    map chainContent (RecomputeAuditChain sha es) = map chainContent es \<and>
    (VerifyAuditChain sha es = None \<longrightarrow> RecomputeAuditChain sha es = es)"
  using relink_verifies [of sha auditChainGenesis es] relink_content relink_intact assms
  by (auto simp: RecomputeAuditChain_def recompute_is_relink VerifyAuditChain_def)

lemma persist_row:
  "persist sha scan True new es =
     es @ [(new\<lparr>ae_created_at := truncate_micro (ae_created_at new)\<rparr>)
       \<lparr>ae_prev_hash := (if scan then last_hash [] es else []),
        ae_hash := AuditChainHash sha (if scan then last_hash [] es else [])
          (new\<lparr>ae_created_at := truncate_micro (ae_created_at new)\<rparr>)\<rparr>]"
  by (auto simp: persist_def last_hash_def Let_def)

text \<open>An append to a chain that verifies gives a chain that verifies, unless the read of the last hash
  failed on a log that has rows: then the new row starts a chain of its own, and the verifier reports it
  in a log nobody tampered with.\<close>

lemma persist_verifies:
  assumes "VerifyAuditChain sha es = None" and "\<And>x. sha x \<noteq> []"
  shows "VerifyAuditChain sha (persist sha scan True new es) =
    (if scan \<or> es = [] then None else Some (ae_id new, PrevHashMismatch))"
proof -
  have v: "verify_from sha [] es = None" using assms(1) by (simp add: VerifyAuditChain_def auditChainGenesis_def)
  have "last_hash [] es \<noteq> []" if "es \<noteq> []"
    using that v by (cases es rule: rev_cases) (auto simp: verify_from_append split: option.splits if_splits)
  then show ?thesis using v assms(2)
    by (auto simp: VerifyAuditChain_def auditChainGenesis_def persist_row verify_from_append) (auto simp: AuditChainHash_def)
qed

lemma truncation_undetected: "VerifyAuditChain sha (xs @ ys) = None \<Longrightarrow> VerifyAuditChain sha xs = None"
  by (auto simp: VerifyAuditChain_def verify_from_append split: option.splits)

definition collides :: "(string \<Rightarrow> string) \<Rightarrow> string set \<Rightarrow> string set \<Rightarrow> bool" where
  "collides sha A B \<longleftrightarrow> (\<exists>x\<in>A. \<exists>y\<in>B. x \<noteq> y \<and> sha x = sha y)"

definition chain_inputs :: "audit_event list \<Rightarrow> string set" where
  "chain_inputs es = (\<lambda>e. chain_input (ae_prev_hash e) e) ` set es"

lemma chain_input_inj:
  assumes "chain_input p e = chain_input q f" and "CHR 0x00 \<notin> set p" and "CHR 0x00 \<notin> set q"
  shows "p = q \<and> chainContent e = chainContent f"
proof -
  have "p @ CHR 0x00 # marshal_content (chainContent e) = q @ CHR 0x00 # marshal_content (chainContent f)"
    using assms(1) by (simp add: chain_input_def)
  from this assms(2,3) have "p = q \<and> marshal_content (chainContent e) = marshal_content (chainContent f)"
    by (induction p arbitrary: q) (auto simp: Cons_eq_append_conv)
  then show ?thesis by simp
qed

lemma verify_snoc:
  "verify_from sha [] (xs @ [x]) = None \<longleftrightarrow> verify_from sha [] xs = None \<and> ae_hash x \<noteq> [] \<and>
     ae_prev_hash x = last_hash [] xs \<and> ae_hash x = sha (chain_input (last_hash [] xs) x)"
  by (auto simp: verify_from_append AuditChainHash_def split: option.splits)

lemma last_hash_clean:
  assumes "\<And>x. CHR 0x00 \<notin> set (sha x)" and "verify_from sha [] xs = None"
  shows "CHR 0x00 \<notin> set (last_hash [] xs)"
proof (cases xs rule: rev_cases)
  case (snoc ys y)
  then show ?thesis using assms verify_snoc [of sha ys y] by auto
qed simp

text \<open>C16: the last hash commits to the whole log. Two logs that both verify and end in the same hash hold
  the same contents in the same order, or they exhibit two different inputs with the same SHA-256.\<close>

theorem last_hash_commits:
  assumes "VerifyAuditChain sha es = None" and "VerifyAuditChain sha fs = None"
    and "last_hash [] es = last_hash [] fs" and "\<And>x. CHR 0x00 \<notin> set (sha x)"
  shows "map chainContent es = map chainContent fs \<or> collides sha (chain_inputs es) (chain_inputs fs)"
proof -
  have "verify_from sha [] es = None" "verify_from sha [] fs = None"
    using assms(1,2) by (simp_all add: VerifyAuditChain_def auditChainGenesis_def)
  then show ?thesis using assms(3)
  proof (induction es arbitrary: fs rule: rev_induct)
    case Nil
    then show ?case by (cases fs rule: rev_cases) (auto simp: verify_snoc)
  next
    case (snoc x xs)
    then obtain ys y where fs: "fs = ys @ [y]" by (cases fs rule: rev_cases) (auto simp: verify_snoc)
    note vx = snoc.prems(1) [unfolded verify_snoc] and vy = snoc.prems(2) [unfolded fs verify_snoc]
    let ?i = "chain_input (last_hash [] xs) x" and ?j = "chain_input (last_hash [] ys) y"
    have "sha ?i = sha ?j" using snoc.prems(3) vx vy by (simp add: fs)
    show ?case
    proof (cases "?i = ?j")
      case True
      moreover have "CHR 0x00 \<notin> set (last_hash [] xs)" "CHR 0x00 \<notin> set (last_hash [] ys)"
        using last_hash_clean [of sha] assms(4) vx vy by blast+
      ultimately have "last_hash [] xs = last_hash [] ys" "chainContent x = chainContent y"
        using chain_input_inj by blast+
      with snoc.IH [of ys] vx vy show ?thesis by (auto simp: fs collides_def chain_inputs_def)
    next
      case False
      moreover have "?i \<in> chain_inputs (xs @ [x])" "?j \<in> chain_inputs fs"
        using vx vy by (auto simp: chain_inputs_def fs)
      ultimately show ?thesis using \<open>sha ?i = sha ?j\<close> unfolding collides_def by blast
    qed
  qed
qed

text \<open>An edit of the content of one row behind the recorder's back is reported at that row, or it is a
  collision of SHA-256.\<close>

lemma edit_detected:
  assumes "VerifyAuditChain sha (xs @ e # ys) = None"
    and "chainContent f \<noteq> chainContent e" and "ae_hash f = ae_hash e" "ae_prev_hash f = ae_prev_hash e"
  shows "VerifyAuditChain sha (xs @ f # ys) = Some (ae_id f, HashMismatch) \<or>
    collides sha {chain_input (ae_prev_hash e) e} {chain_input (ae_prev_hash f) f}"
proof -
  let ?p = "last_hash [] xs"
  have v: "verify_from sha [] xs = None" "ae_hash e \<noteq> []" "ae_prev_hash e = ?p" "ae_hash e = sha (chain_input ?p e)"
    using assms(1) by (auto simp: VerifyAuditChain_def auditChainGenesis_def verify_from_append AuditChainHash_def
        split: option.splits if_splits)
  have ne: "chain_input ?p e \<noteq> chain_input ?p f" using assms(2) by (auto simp: chain_input_def)
  show ?thesis
  proof (cases "sha (chain_input ?p e) = sha (chain_input ?p f)")
    case True
    then show ?thesis using ne v assms(4) by (auto simp: collides_def)
  next
    case False
    then show ?thesis using v assms(3,4)
      by (simp add: VerifyAuditChain_def auditChainGenesis_def verify_from_append AuditChainHash_def)
  qed
qed


section \<open>Redaction of the snapshots\<close>

definition auditDenyList :: "string list" where
  "auditDenyList = [''password'', ''totpsecret'', ''apitokenhash'', ''tokenhash'', ''passwordencrypted'',
     ''gotifytokenencrypted'', ''ntfytokenencrypted'', ''oidccode'', ''oidcstate'', ''authorization'', ''cookie'',
     ''jwtsecretkey'', ''resendapikey'', ''smtppassword'']"

definition denied :: "string \<Rightarrow> bool" where
  "denied key \<longleftrightarrow> remove_char CHR ''_'' (to_lower key) \<in> set auditDenyList"

fun redactValue :: "json \<Rightarrow> json" where
  "redactValue (JObject kvs) =
     JObject (map (\<lambda>(k, v). (k, redactValue v)) (filter (\<lambda>(k, v). \<not> denied k) kvs))"
| "redactValue (JArray vs) = JArray (map redactValue vs)"
| "redactValue v = v"

definition path_clear :: "json_step list \<Rightarrow> bool" where
  "path_clear p \<longleftrightarrow> (\<forall>s\<in>set p. case s of Key k \<Rightarrow> \<not> denied k | Index _ \<Rightarrow> True)"

lemma map_of_redacted:
  "map_of (map (\<lambda>(k, v). (k, redactValue v)) (filter (\<lambda>(k, v). \<not> denied k) kvs)) k =
   (if denied k then None else map_option redactValue (map_of kvs k))"
  by (induction kvs) auto

lemma redact_keys_clear: "k \<in> json_keys (redactValue v) \<Longrightarrow> \<not> denied k"
  by (induction v rule: redactValue.induct) auto

lemma redact_keys: "json_keys (redactValue v) \<inter> Collect denied = {}"
  using redact_keys_clear by blast

lemma redact_at:
  "json_at p (redactValue v) = (if path_clear p then map_option redactValue (json_at p v) else None)"
proof (induction p v rule: json_at.induct)
  case (2 k p kvs)
  then show ?case by (cases "map_of kvs k") (auto simp: map_of_redacted path_clear_def)
qed (auto simp: path_clear_def)

text \<open>C18: a snapshot keeps no key of the deny list at any depth, and it keeps everything else: a path that
  names no denied key leads to the redacted value, and every other path leads nowhere.\<close>

theorem redaction_exact:
  "json_keys (redactValue v) \<inter> Collect denied = {} \<and>
   json_at p (redactValue v) = (if path_clear p then map_option redactValue (json_at p v) else None)"
  using redact_keys redact_at by blast

section \<open>Concrete chains\<close>

definition toy_sha :: "string \<Rightarrow> string" where "toy_sha x = replicate 64 CHR ''a''"

definition demo_event :: "nat \<Rightarrow> string \<Rightarrow> audit_event" where
  "demo_event i op = \<lparr>ae_id = i, ae_created_at = int i * second, ae_entity_type = ''auth'', ae_entity_id = ''alice'',
     ae_operation = op, ae_user = 5, ae_before = [], ae_hash = [], ae_prev_hash = []\<rparr>"

definition demo_log :: "audit_event list" where
  "demo_log = relink toy_sha [] [demo_event 3 ''login'', demo_event 4 ''register'']"

lemma toy_sha_clean: "toy_sha x \<noteq> []" "CHR 0x00 \<notin> set (toy_sha x)"
  by (simp_all add: toy_sha_def)

lemma demo_log_verifies: "VerifyAuditChain toy_sha demo_log = None"
  unfolding VerifyAuditChain_def auditChainGenesis_def demo_log_def by (rule relink_verifies [OF toy_sha_clean(1)])

lemma demo_log_ids: "distinct (map ae_id demo_log)"
  by (simp add: demo_log_def demo_event_def Let_def)

lemma recompute_verifies_witness:
  "VerifyAuditChain toy_sha (RecomputeAuditChain toy_sha [demo_event 3 ''login'', demo_event 4 ''register'']) = None"
  using recompute_verifies [of "[demo_event 3 ''login'', demo_event 4 ''register'']" toy_sha] toy_sha_clean
  by (simp add: demo_event_def)

lemma persist_verifies_witness:
  "VerifyAuditChain toy_sha (persist toy_sha False True (demo_event 7 ''login'') demo_log) = Some (7, PrevHashMismatch)"
  using persist_verifies [OF demo_log_verifies toy_sha_clean(1), of False "demo_event 7 ''login''"]
  by (simp add: demo_log_def demo_event_def Let_def)

lemma last_hash_commits_witness:
  "map chainContent demo_log = map chainContent demo_log \<or>
    collides toy_sha (chain_inputs demo_log) (chain_inputs demo_log)"
  by (rule last_hash_commits [OF demo_log_verifies demo_log_verifies refl toy_sha_clean(2)])

lemma edit_detected_witness:
  "VerifyAuditChain toy_sha ([] @ (hd demo_log)\<lparr>ae_user := 6\<rparr> # tl demo_log) = Some (3, HashMismatch) \<or>
    collides toy_sha {chain_input [] (hd demo_log)} {chain_input [] ((hd demo_log)\<lparr>ae_user := 6\<rparr>)}"
proof -
  have log: "demo_log = [] @ hd demo_log # tl demo_log" by (simp add: demo_log_def Let_def)
  have "ae_id (hd demo_log) = 3" "ae_prev_hash (hd demo_log) = []" "ae_user (hd demo_log) = 5"
    by (simp_all add: demo_log_def demo_event_def Let_def)
  then show ?thesis
    using edit_detected [of toy_sha "[]" "hd demo_log" "tl demo_log" "(hd demo_log)\<lparr>ae_user := 6\<rparr>"] demo_log_verifies log
    by (simp add: chainContent_def)
qed


end
