(* ===== verification/Lockout.thy ===== *)
theory Lockout imports GoTime "HOL-Library.Word" "HOL-Library.AList" begin

text \<open>
  Login rate limiting (\<open>backend/middleware/rate_limiter.go\<close>, \<open>login_lockout.go\<close>, \<open>auth_velocity.go\<close>): the
  exponential lock per pair of identifier and source, the fixed lock per identifier, the sources known to
  be good, and the instance-wide velocity signal with its window log. Every call holds the limiter's mutex,
  so a call is one step. Instants are nanoseconds; the clock is an argument. The back-off is computed on
  64-bit words, as \<open>time.Duration\<close> is.
\<close>

section \<open>Entries and their locks\<close>

text \<open>The zero \<open>time.Time\<close>.\<close>

definition zero_time :: int where "zero_time = - 62135596800 * second"

definition MaxLoginAttempts :: nat where "MaxLoginAttempts = 5"
definition BaseLockoutDuration :: int where "BaseLockoutDuration = minute"
definition MaxLockoutDuration :: int where "MaxLockoutDuration = 30 * minute"
definition GlobalAccountLoginAttempts :: nat where "GlobalAccountLoginAttempts = 30"
definition GlobalAccountLockoutDuration :: int where "GlobalAccountLockoutDuration = 15 * minute"
definition KnownGoodIPTTL :: int where "KnownGoodIPTTL = 24 * hour"

record lockout_entry =
  le_failed :: nat
  le_locked_until :: int
  le_last_attempt :: int

type_synonym lockout_map = "string \<Rightarrow> lockout_entry option"

definition lockedForLocked :: "lockout_map \<Rightarrow> string \<Rightarrow> int \<Rightarrow> bool \<times> int" where
  "lockedForLocked m key now =
     (case m key of
        None \<Rightarrow> (False, 0)
      | Some e \<Rightarrow> if now < le_locked_until e then (True, trunc_quot (sub_time (le_locked_until e) now) second)
                  else (False, 0))"

text \<open>The back-off in 64 bits: \<open>BaseLockoutDuration * time.Duration(1<<exponent)\<close>, then the cap.\<close>

definition backoff_word :: "nat \<Rightarrow> 64 word" where
  "backoff_word n = word_of_int BaseLockoutDuration * push_bit (n - MaxLoginAttempts) 1"

definition backoff :: "nat \<Rightarrow> int" where
  "backoff n = (let d = sint (backoff_word n) in if MaxLockoutDuration < d then MaxLockoutDuration else d)"

definition entry_or_new :: "lockout_map \<Rightarrow> string \<Rightarrow> int \<Rightarrow> lockout_entry" where
  "entry_or_new m key now =
     (case m key of Some e \<Rightarrow> e
      | None \<Rightarrow> \<lparr>le_failed = 0, le_locked_until = zero_time, le_last_attempt = now\<rparr>)"

definition bump :: "lockout_entry \<Rightarrow> int \<Rightarrow> lockout_entry" where
  "bump e now = e\<lparr>le_failed := le_failed e + 1, le_last_attempt := now\<rparr>"

definition recordExpBackoffLocked :: "lockout_map \<Rightarrow> string \<Rightarrow> int \<Rightarrow> lockout_map \<times> bool \<times> int" where
  "recordExpBackoffLocked m key now =
     (let e = bump (entry_or_new m key now) now
      in if MaxLoginAttempts \<le> le_failed e
         then (m(key \<mapsto> e\<lparr>le_locked_until := now + backoff (le_failed e)\<rparr>), True,
               trunc_quot (backoff (le_failed e)) second)
         else (m(key \<mapsto> e), False, 0))"

definition recordGlobalFailureLocked :: "lockout_map \<Rightarrow> string \<Rightarrow> int \<Rightarrow> lockout_map" where
  "recordGlobalFailureLocked m identifier now =
     (let e = bump (entry_or_new m identifier now) now
      in m(identifier \<mapsto>
           (if GlobalAccountLoginAttempts \<le> le_failed e \<and> le_locked_until e < now
            then e\<lparr>le_locked_until := now + GlobalAccountLockoutDuration\<rparr> else e)))"

section \<open>The velocity signal\<close>

record velocity_config =
  vc_enabled :: bool
  vc_window :: int
  vc_failure_threshold :: int
  vc_identifier_threshold :: int
  vc_throttle :: int
  vc_incident_hold :: int

record velocity =
  v_cfg :: velocity_config
  v_failures :: "int list"
  v_head :: nat
  v_failure_cap :: nat
  v_id_last :: "(string \<times> int) list"
  v_ip_last :: "(string \<times> int) list"
  v_id_ip_last :: "(string \<times> (string \<times> int) list) list"
  v_last_prune :: int
  v_throttle_until :: int
  v_incident_until :: int
  v_incident_since :: int
  v_peak_failures :: nat
  v_peak_identifiers :: nat

definition DefaultAuthVelocityConfig :: velocity_config where
  "DefaultAuthVelocityConfig = \<lparr>vc_enabled = True, vc_window = 60 * second, vc_failure_threshold = 60,
     vc_identifier_threshold = 15, vc_throttle = 300 * second, vc_incident_hold = 300 * second\<rparr>"

definition positive_or :: "int \<Rightarrow> int \<Rightarrow> int" where
  "positive_or x d = (if x \<le> 0 then d else x)"

definition newAuthVelocityState :: "velocity_config \<Rightarrow> velocity" where
  "newAuthVelocityState cfg =
     (let d = DefaultAuthVelocityConfig; throttle = positive_or (vc_throttle cfg) (vc_throttle d);
          c = \<lparr>vc_enabled = vc_enabled cfg,
               vc_window = positive_or (vc_window cfg) (vc_window d),
               vc_failure_threshold = positive_or (vc_failure_threshold cfg) (vc_failure_threshold d),
               vc_identifier_threshold = positive_or (vc_identifier_threshold cfg) (vc_identifier_threshold d),
               vc_throttle = throttle,
               vc_incident_hold = (if vc_incident_hold cfg < throttle then throttle else vc_incident_hold cfg)\<rparr>
      in \<lparr>v_cfg = c, v_failures = [], v_head = 0, v_failure_cap = 100000, v_id_last = [], v_ip_last = [],
          v_id_ip_last = [], v_last_prune = zero_time, v_throttle_until = zero_time,
          v_incident_until = zero_time, v_incident_since = zero_time, v_peak_failures = 0, v_peak_identifiers = 0\<rparr>)"

definition failureCount :: "velocity \<Rightarrow> nat" where
  "failureCount v = length (v_failures v) - v_head v"

text \<open>The loop that advances the head.\<close>

fun advance :: "int \<Rightarrow> int list \<Rightarrow> nat \<Rightarrow> nat" where
  "advance start [] h = h"
| "advance start (t # ts) h = (if t < start then advance start ts (h + 1) else h)"

definition prune_log :: "int \<Rightarrow> velocity \<Rightarrow> velocity" where
  "prune_log start v =
     (let h = advance start (drop (v_head v) (v_failures v)) (v_head v);
          v1 = (if 0 < h \<and> length (v_failures v) \<le> h * 2
                then v\<lparr>v_failures := drop h (v_failures v), v_head := 0\<rparr> else v\<lparr>v_head := h\<rparr>)
      in if v_failure_cap v < failureCount v1
         then v1\<lparr>v_head := length (v_failures v1) - v_failure_cap v\<rparr> else v1)"

definition fresh_only :: "int \<Rightarrow> (string \<times> int) list \<Rightarrow> (string \<times> int) list" where
  "fresh_only start m = filter (\<lambda>(k, t). \<not> t < start) m"

definition prune_maps :: "int \<Rightarrow> int \<Rightarrow> velocity \<Rightarrow> velocity" where
  "prune_maps now start v =
     (if v_last_prune v \<noteq> zero_time \<and> sub_time now (v_last_prune v) < trunc_quot (vc_window (v_cfg v)) 4 then v
      else v\<lparr>v_last_prune := now, v_id_last := fresh_only start (v_id_last v),
             v_ip_last := fresh_only start (v_ip_last v),
             v_id_ip_last := filter (\<lambda>(k, ips). ips \<noteq> [])
               (map (\<lambda>(k, ips). (k, fresh_only start ips)) (v_id_ip_last v))\<rparr>)"

definition prune :: "int \<Rightarrow> velocity \<Rightarrow> velocity" where
  "prune now v = (let start = now - vc_window (v_cfg v) in prune_maps now start (prune_log start v))"

definition trip :: "int \<Rightarrow> velocity \<Rightarrow> velocity" where
  "trip now v =
     (let newIncident = (\<not> now < v_incident_until v);
          v1 = v\<lparr>v_throttle_until := now + vc_throttle (v_cfg v), v_incident_until := now + vc_incident_hold (v_cfg v)\<rparr>
      in if newIncident
         then v1\<lparr>v_incident_since := now, v_peak_failures := failureCount v, v_peak_identifiers := length (v_id_last v)\<rparr>
         else v1\<lparr>v_peak_failures := max (v_peak_failures v) (failureCount v),
                 v_peak_identifiers := max (v_peak_identifiers v) (length (v_id_last v))\<rparr>)"

definition velocity_record :: "string \<Rightarrow> string \<Rightarrow> int \<Rightarrow> velocity \<Rightarrow> velocity" where
  "velocity_record identifier ip now v =
     (if \<not> vc_enabled (v_cfg v) then v
      else (let v1 = prune now v;
                ips = (case map_of (v_id_ip_last v1) identifier of None \<Rightarrow> [] | Some m \<Rightarrow> m);
                v2 = v1\<lparr>v_failures := v_failures v1 @ [now],
                        v_id_last := AList.update identifier now (v_id_last v1),
                        v_ip_last := AList.update ip now (v_ip_last v1),
                        v_id_ip_last := AList.update identifier (AList.update ip now ips) (v_id_ip_last v1)\<rparr>
            in if vc_failure_threshold (v_cfg v2) \<le> int (failureCount v2) \<and>
                  vc_identifier_threshold (v_cfg v2) \<le> int (length (v_id_last v2))
               then trip now v2 else v2))"

definition throttled :: "velocity \<Rightarrow> int \<Rightarrow> bool" where
  "throttled v now \<longleftrightarrow> vc_enabled (v_cfg v) \<and> now < v_throttle_until v"

definition remaining :: "velocity \<Rightarrow> int \<Rightarrow> int" where
  "remaining v now =
     (if \<not> vc_enabled (v_cfg v) \<or> \<not> now < v_throttle_until v then 0
      else (let secs = trunc_quot (sub_time (v_throttle_until v) now) second in if secs < 1 then 1 else secs))"

definition inIncident :: "velocity \<Rightarrow> int \<Rightarrow> bool" where
  "inIncident v now \<longleftrightarrow> vc_enabled (v_cfg v) \<and> now < v_incident_until v"

section \<open>The limiter\<close>

record limiter =
  lm_accounts :: lockout_map
  lm_global :: lockout_map
  lm_known :: "string \<Rightarrow> (string \<Rightarrow> int option) option"
  lm_known_global :: "string \<Rightarrow> int option"
  lm_velocity :: velocity
  lm_ttl :: int

definition LoginKey :: "string \<Rightarrow> string \<Rightarrow> string" where
  "LoginKey identifier ip = identifier @ [CHR 0x00] @ ip"

definition knownGoodIPLocked :: "limiter \<Rightarrow> string \<Rightarrow> string \<Rightarrow> int \<Rightarrow> bool" where
  "knownGoodIPLocked a identifier ip now =
     (case lm_known a identifier of None \<Rightarrow> False
      | Some ips \<Rightarrow> (case ips ip of None \<Rightarrow> False | Some seen \<Rightarrow> sub_time now seen \<le> KnownGoodIPTTL))"

definition globalKnownGoodIPLocked :: "limiter \<Rightarrow> string \<Rightarrow> int \<Rightarrow> bool" where
  "globalKnownGoodIPLocked a ip now =
     (case lm_known_global a ip of None \<Rightarrow> False | Some seen \<Rightarrow> sub_time now seen \<le> KnownGoodIPTTL)"

definition authThrottleLocked :: "limiter \<Rightarrow> string \<Rightarrow> string \<Rightarrow> int \<Rightarrow> bool \<times> int" where
  "authThrottleLocked a identifier ip now =
     (if \<not> throttled (lm_velocity a) now then (False, 0)
      else if knownGoodIPLocked a identifier ip now \<or> globalKnownGoodIPLocked a ip now then (False, 0)
      else (True, remaining (lm_velocity a) now))"

definition combine_locks :: "limiter \<Rightarrow> string \<Rightarrow> string \<Rightarrow> int \<Rightarrow> bool \<times> int \<Rightarrow> bool \<times> int" where
  "combine_locks a identifier ip now own =
     (let g = lockedForLocked (lm_global a) identifier now;
          l1 = (if fst g \<and> \<not> knownGoodIPLocked a identifier ip now then (True, max (snd own) (snd g)) else own);
          t = authThrottleLocked a identifier ip now
      in if fst t then (True, max (snd l1) (snd t)) else l1)"

definition IsLoginLocked :: "limiter \<Rightarrow> string \<Rightarrow> string \<Rightarrow> int \<Rightarrow> bool \<times> int" where
  "IsLoginLocked a identifier ip now =
     combine_locks a identifier ip now (lockedForLocked (lm_accounts a) (LoginKey identifier ip) now)"

definition RecordLoginFailure :: "string \<Rightarrow> string \<Rightarrow> int \<Rightarrow> limiter \<Rightarrow> limiter \<times> bool \<times> int" where
  "RecordLoginFailure identifier ip now a =
     (case recordExpBackoffLocked (lm_accounts a) (LoginKey identifier ip) now of
        (accounts, pair) \<Rightarrow>
          (let a' = a\<lparr>lm_accounts := accounts,
                      lm_global := recordGlobalFailureLocked (lm_global a) identifier now,
                      lm_velocity := velocity_record identifier ip now (lm_velocity a)\<rparr>
           in (a', combine_locks a' identifier ip now pair)))"

definition RecordLoginSuccess :: "string \<Rightarrow> string \<Rightarrow> int \<Rightarrow> limiter \<Rightarrow> limiter" where
  "RecordLoginSuccess identifier ip now a =
     (let ips = (case lm_known a identifier of None \<Rightarrow> Map.empty | Some m \<Rightarrow> m)
      in a\<lparr>lm_accounts := (lm_accounts a)(LoginKey identifier ip := None),
           lm_global := (lm_global a)(identifier := None),
           lm_known := (lm_known a)(identifier \<mapsto> ips(ip \<mapsto> now)),
           lm_known_global := (lm_known_global a)(ip \<mapsto> now)\<rparr>)"

definition drop_stale :: "int \<Rightarrow> int \<Rightarrow> lockout_map \<Rightarrow> lockout_map" where
  "drop_stale now ttl m key =
     (case m key of None \<Rightarrow> None
      | Some e \<Rightarrow> if le_locked_until e < now \<and> ttl < sub_time now (le_last_attempt e) then None else Some e)"

definition drop_old :: "int \<Rightarrow> (string \<Rightarrow> int option) \<Rightarrow> string \<Rightarrow> int option" where
  "drop_old now m k = (case m k of None \<Rightarrow> None
     | Some seen \<Rightarrow> if KnownGoodIPTTL < sub_time now seen then None else Some seen)"

definition CleanupStaleAccountEntries :: "int \<Rightarrow> limiter \<Rightarrow> limiter" where
  "CleanupStaleAccountEntries now a =
     a\<lparr>lm_accounts := drop_stale now (lm_ttl a) (lm_accounts a),
       lm_global := drop_stale now (lm_ttl a) (lm_global a),
       lm_known := (\<lambda>k. case lm_known a k of None \<Rightarrow> None
         | Some ips \<Rightarrow> if drop_old now ips = Map.empty then None else Some (drop_old now ips)),
       lm_known_global := drop_old now (lm_known_global a)\<rparr>"

definition NewAccountRateLimiter :: "int \<Rightarrow> limiter" where
  "NewAccountRateLimiter ttl = \<lparr>lm_accounts = Map.empty, lm_global = Map.empty, lm_known = Map.empty,
     lm_known_global = Map.empty, lm_velocity = newAuthVelocityState DefaultAuthVelocityConfig, lm_ttl = ttl\<rparr>"

section \<open>The exponential back-off in 64 bits\<close>

lemma backoff_word_int: "backoff_word n = word_of_int (minute * 2 ^ (n - 5))"
  by (simp add: backoff_word_def BaseLockoutDuration_def MaxLoginAttempts_def push_bit_eq_mult)

lemma backoff_exact:
  assumes "5 \<le> n" and "n \<le> 32"
  shows "backoff n = min MaxLockoutDuration (minute * 2 ^ (n - 5))"
proof -
  have "(2 :: int) ^ (n - 5) \<le> 2 ^ 27" using assms by (intro power_increasing) auto
  then have r: "0 < minute * 2 ^ (n - 5)" "minute * 2 ^ (n - 5) < 2 ^ 63" by (simp_all add: dur_defs)
  then have "sint (backoff_word n) = minute * 2 ^ (n - 5)"
    unfolding backoff_word_int by (subst sint_sbintrunc') (simp add: signed_take_bit_int_eq_self)
  then show ?thesis by (simp add: backoff_def Let_def min_def)
qed

lemma backoff_vanishes:
  assumes "58 \<le> n"
  shows "backoff n = 0"
proof -
  obtain k where n: "n = 58 + k" using assms le_Suc_ex by blast
  have "minute * 2 ^ (n - 5) = 29296875 * 2 ^ k * (2 :: int) ^ 64"
    by (simp add: n dur_defs power_add)
  then have "(2 :: int) ^ 64 dvd minute * 2 ^ (n - 5)" by (simp only: dvd_triv_right)
  then have "backoff_word n = 0"
    unfolding backoff_word_int by (subst word_of_int_eq_0_iff) simp
  then show ?thesis by (simp add: backoff_def Let_def MaxLockoutDuration_def dur_defs)
qed

text \<open>For the fifth to the thirty-second failure of a pair the lock lasts exactly one minute doubled
  with every further failure, at most thirty minutes; before the fifth there is none.\<close>

lemma pair_lock_duration:
  assumes "m key = Some e" and "le_failed e < 32"
  shows "fst (lockedForLocked (fst (recordExpBackoffLocked m key now)) key t) \<longleftrightarrow>
    (if le_failed e < 4 then t < le_locked_until e
     else t < now + min (30 * minute) (minute * 2 ^ (le_failed e - 4)))"
  using assms backoff_exact [of "le_failed e + 1"]
  by (auto simp: recordExpBackoffLocked_def lockedForLocked_def bump_def entry_or_new_def Let_def
      MaxLoginAttempts_def MaxLockoutDuration_def)

lemma pair_lock_duration_witness:
  "fst (lockedForLocked (fst (recordExpBackoffLocked [''k'' \<mapsto> \<lparr>le_failed = 6, le_locked_until = 0, le_last_attempt = 0\<rparr>] ''k'' 0))
     ''k'' (3 * minute))"
  using pair_lock_duration [of "[''k'' \<mapsto> \<lparr>le_failed = 6, le_locked_until = 0, le_last_attempt = 0\<rparr>]" "''k''"
      "\<lparr>le_failed = 6, le_locked_until = 0, le_last_attempt = 0\<rparr>" 0 "3 * minute"]
  by (simp add: dur_defs)

text \<open>From the fifty-eighth failure on the product is a multiple of two to the 64: the call reports a
  lock of zero seconds, and no lock is set. The pair can be tried without limit from then on.\<close>

lemma pair_lock_vanishes:
  assumes "m key = Some e" and "57 \<le> le_failed e" and "now \<le> t"
  shows "snd (recordExpBackoffLocked m key now) = (True, 0) \<and>
    lockedForLocked (fst (recordExpBackoffLocked m key now)) key t = (False, 0)"
  using assms backoff_vanishes [of "le_failed e + 1"]
  by (auto simp: recordExpBackoffLocked_def lockedForLocked_def bump_def entry_or_new_def Let_def
      MaxLoginAttempts_def trunc_quot_def)

lemma pair_lock_vanishes_witness:
  "lockedForLocked (fst (recordExpBackoffLocked [''k'' \<mapsto> \<lparr>le_failed = 57, le_locked_until = 0, le_last_attempt = 0\<rparr>] ''k'' 0))
     ''k'' 0 = (False, 0)"
  using pair_lock_vanishes [of "[''k'' \<mapsto> \<lparr>le_failed = 57, le_locked_until = 0, le_last_attempt = 0\<rparr>]" "''k''"
      "\<lparr>le_failed = 57, le_locked_until = 0, le_last_attempt = 0\<rparr>" 0 0] by simp

section \<open>The lock of one source does not reach another\<close>

lemma LoginKey_inj:
  assumes "CHR 0x00 \<notin> set i" and "CHR 0x00 \<notin> set j"
  shows "LoginKey i ip = LoginKey j jp \<longleftrightarrow> i = j \<and> ip = jp"
proof
  assume "LoginKey i ip = LoginKey j jp"
  then have "i @ CHR 0x00 # ip = j @ CHR 0x00 # jp" by (simp add: LoginKey_def)
  with assms show "i = j \<and> ip = jp" by (induction i arbitrary: j) (auto simp: Cons_eq_append_conv)
qed simp

type_synonym failure = "string \<times> string \<times> int"

definition fail :: "failure \<Rightarrow> limiter \<Rightarrow> limiter" where
  "fail f a = (case f of (identifier, ip, now) \<Rightarrow> fst (RecordLoginFailure identifier ip now a))"

lemma fail_frame:
  "lm_known (fail f a) = lm_known a" "lm_known_global (fail f a) = lm_known_global a"
  by (cases f; simp add: fail_def RecordLoginFailure_def Let_def split: prod.split)+

lemma fail_other_pair:
  assumes "LoginKey (fst f) (fst (snd f)) \<noteq> k"
  shows "lm_accounts (fail f a) k = lm_accounts a k"
  using assms by (cases f)
    (auto simp: fail_def RecordLoginFailure_def recordExpBackoffLocked_def Let_def split: prod.split)

lemma fails_frame:
  assumes "\<And>f. f \<in> set fs \<Longrightarrow> LoginKey (fst f) (fst (snd f)) \<noteq> k"
  shows "lm_accounts (fold fail fs a) k = lm_accounts a k" and "lm_known (fold fail fs a) = lm_known a"
  using assms by (induction fs arbitrary: a) (auto simp: fail_frame fail_other_pair)

lemma known_locks:
  assumes "knownGoodIPLocked a identifier ip t"
  shows "IsLoginLocked a identifier ip t = lockedForLocked (lm_accounts a) (LoginKey identifier ip) t"
  using assms by (simp add: IsLoginLocked_def combine_locks_def authThrottleLocked_def Let_def)

text \<open>C19: nobody can lock a user out from elsewhere. Whatever failures other sources pile up, on this or any
  other identifier, the answer for a source that recently logged in to it stays what its own failures say.\<close>

theorem known_source_unaffected:
  assumes "knownGoodIPLocked a identifier ip t"
    and "CHR 0x00 \<notin> set identifier" and "\<And>j jp u. (j, jp, u) \<in> set fs \<Longrightarrow> CHR 0x00 \<notin> set j \<and> (j, jp) \<noteq> (identifier, ip)"
  shows "IsLoginLocked (fold fail fs a) identifier ip t = IsLoginLocked a identifier ip t"
proof -
  have "LoginKey (fst f) (fst (snd f)) \<noteq> LoginKey identifier ip" if "f \<in> set fs" for f
    using assms(2) assms(3) [of "fst f" "fst (snd f)" "snd (snd f)"] that LoginKey_inj by (cases f) auto
  note frame = fails_frame [OF this]
  have "knownGoodIPLocked (fold fail fs a) identifier ip t"
    using assms(1) frame(2) by (simp add: knownGoodIPLocked_def)
  from known_locks [OF this] known_locks [OF assms(1)] frame(1) show ?thesis by (simp add: lockedForLocked_def)
qed

lemma known_source_unaffected_witness:
  "fst (IsLoginLocked (fold fail (replicate 40 (''alice'', ''6.6.6.6'', 0))
      (RecordLoginSuccess ''alice'' ''1.1.1.1'' 0 (NewAccountRateLimiter hour))) ''alice'' ''1.1.1.1'' 0) = False"
proof -
  let ?a = "RecordLoginSuccess ''alice'' ''1.1.1.1'' 0 (NewAccountRateLimiter hour)"
  have k: "knownGoodIPLocked ?a ''alice'' ''1.1.1.1'' 0"
    by (simp add: knownGoodIPLocked_def RecordLoginSuccess_def NewAccountRateLimiter_def Let_def KnownGoodIPTTL_def
        sub_time_def dur_defs)
  have "IsLoginLocked (fold fail (replicate 40 (''alice'', ''6.6.6.6'', 0)) ?a) ''alice'' ''1.1.1.1'' 0 =
      IsLoginLocked ?a ''alice'' ''1.1.1.1'' 0"
    by (rule known_source_unaffected [OF k]) auto
  then show ?thesis using known_locks [OF k]
    by (simp add: lockedForLocked_def RecordLoginSuccess_def Let_def NewAccountRateLimiter_def)
qed

section \<open>The sweeper\<close>

lemma drop_stale_locked: "now \<le> t \<Longrightarrow> lockedForLocked (drop_stale now ttl m) key t = lockedForLocked m key t"
  by (auto simp: lockedForLocked_def drop_stale_def split: option.splits)

lemma sub_time_mono: "t \<le> u \<Longrightarrow> sub_time t s \<le> sub_time u s"
  by (auto simp: sub_time_def)

lemma drop_old_seen:
  "now \<le> t \<Longrightarrow> (case drop_old now m k of None \<Rightarrow> False | Some seen \<Rightarrow> sub_time t seen \<le> KnownGoodIPTTL) =
   (case m k of None \<Rightarrow> False | Some seen \<Rightarrow> sub_time t seen \<le> KnownGoodIPTTL)"
  using sub_time_mono [of now t "the (m k)"] by (cases "m k") (auto simp: drop_old_def)

lemma cleanup_known:
  assumes "now \<le> t"
  shows "knownGoodIPLocked (CleanupStaleAccountEntries now a) identifier ip t = knownGoodIPLocked a identifier ip t"
proof (cases "lm_known a identifier")
  case (Some ips)
  then show ?thesis using drop_old_seen [OF assms, of ips ip]
    by (auto simp: knownGoodIPLocked_def CleanupStaleAccountEntries_def)
qed (simp add: knownGoodIPLocked_def CleanupStaleAccountEntries_def)

lemma cleanup_known_global:
  "now \<le> t \<Longrightarrow> globalKnownGoodIPLocked (CleanupStaleAccountEntries now a) ip t = globalKnownGoodIPLocked a ip t"
  using drop_old_seen [of now t "lm_known_global a" ip]
  by (simp add: globalKnownGoodIPLocked_def CleanupStaleAccountEntries_def)

text \<open>The sweeper is invisible: no lock, no exemption and no remaining time changes by it, now or later.\<close>

lemma cleanup_invisible:
  assumes "now \<le> t"
  shows "IsLoginLocked (CleanupStaleAccountEntries now a) identifier ip t = IsLoginLocked a identifier ip t"
proof -
  have "lockedForLocked (lm_accounts (CleanupStaleAccountEntries now a)) k t = lockedForLocked (lm_accounts a) k t"
    "lockedForLocked (lm_global (CleanupStaleAccountEntries now a)) k t = lockedForLocked (lm_global a) k t" for k
    using drop_stale_locked [OF assms] by (simp_all add: CleanupStaleAccountEntries_def)
  moreover have "lm_velocity (CleanupStaleAccountEntries now a) = lm_velocity a"
    by (simp add: CleanupStaleAccountEntries_def)
  ultimately show ?thesis
    using cleanup_known [OF assms] cleanup_known_global [OF assms]
    by (simp add: IsLoginLocked_def combine_locks_def authThrottleLocked_def)
qed

lemma cleanup_invisible_witness:
  "IsLoginLocked (CleanupStaleAccountEntries 0 (NewAccountRateLimiter hour)) ''alice'' ''1.1.1.1'' minute = (False, 0)"
  using cleanup_invisible [of 0 minute "NewAccountRateLimiter hour" "''alice''" "''1.1.1.1''"]
  by (simp add: dur_defs IsLoginLocked_def combine_locks_def authThrottleLocked_def lockedForLocked_def Let_def
      NewAccountRateLimiter_def throttled_def newAuthVelocityState_def zero_time_def)

section \<open>The window log refines a sliding window\<close>

text \<open>The abstract window drops what lies before its start, keeps at most \<open>cap\<close> and takes the new failure.\<close>

definition window_live :: "velocity \<Rightarrow> int list" where
  "window_live v = drop (v_head v) (v_failures v)"

definition window_prune :: "int \<Rightarrow> nat \<Rightarrow> int list \<Rightarrow> int list" where
  "window_prune start cap w = (let l = dropWhile (\<lambda>t. t < start) w in drop (length l - cap) l)"

definition log_ok :: "velocity \<Rightarrow> bool" where
  "log_ok v \<longleftrightarrow> v_head v \<le> length (v_failures v)"

lemma advance_dropWhile:
  "advance start ts h = h + length (takeWhile (\<lambda>t. t < start) ts)"
  by (induction ts arbitrary: h) auto

lemma drop_takeWhile_length: "drop (length (takeWhile P xs)) xs = dropWhile P xs"
  by (induction xs) auto

lemma failureCount_live: "failureCount v = length (window_live v)"
  by (simp add: failureCount_def window_live_def)

lemma prune_log_refines:
  assumes "log_ok v"
  shows "window_live (prune_log start v) = window_prune start (v_failure_cap v) (window_live v)"
    and "log_ok (prune_log start v)"
    and "2 * v_head (prune_log start v) < length (v_failures (prune_log start v)) \<or> v_head (prune_log start v) = 0 \<or>
      length (window_live (prune_log start v)) = v_failure_cap v"
proof -
  define h where "h = advance start (window_live v) (v_head v)"
  define v1 where "v1 = (if 0 < h \<and> length (v_failures v) \<le> h * 2
    then v\<lparr>v_failures := drop h (v_failures v), v_head := 0\<rparr> else v\<lparr>v_head := h\<rparr>)"
  have hl: "h \<le> length (v_failures v)" "drop h (v_failures v) = dropWhile (\<lambda>t. t < start) (window_live v)"
  proof -
    let ?k = "length (takeWhile (\<lambda>t. t < start) (window_live v))"
    have "?k \<le> length (v_failures v) - v_head v"
      using length_takeWhile_le [of "\<lambda>t. t < start" "window_live v"] by (simp add: window_live_def)
    then show "h \<le> length (v_failures v)" using assms by (simp add: h_def advance_dropWhile log_ok_def)
    have "drop h (v_failures v) = drop ?k (window_live v)"
      by (simp add: h_def advance_dropWhile window_live_def add.commute)
    then show "drop h (v_failures v) = dropWhile (\<lambda>t. t < start) (window_live v)" by (simp add: drop_takeWhile_length)
  qed
  have v1: "window_live v1 = dropWhile (\<lambda>t. t < start) (window_live v)" "log_ok v1" "v_failure_cap v1 = v_failure_cap v"
    using hl by (auto simp: v1_def window_live_def log_ok_def)
  have bound: "2 * v_head v1 < length (v_failures v1) \<or> v_head v1 = 0" by (auto simp: v1_def)
  have p: "prune_log start v = (if v_failure_cap v < failureCount v1
      then v1\<lparr>v_head := length (v_failures v1) - v_failure_cap v\<rparr> else v1)"
    by (simp add: prune_log_def Let_def h_def v1_def window_live_def)
  show "window_live (prune_log start v) = window_prune start (v_failure_cap v) (window_live v)"
  proof (cases "v_failure_cap v < failureCount v1")
    case True
    then have "length (window_live v1) = length (v_failures v1) - v_head v1" "v_failure_cap v < length (window_live v1)"
      by (simp_all add: window_live_def failureCount_def)
    then have "drop (length (v_failures v1) - v_failure_cap v) (v_failures v1) =
        drop (length (window_live v1) - v_failure_cap v) (window_live v1)"
      using v1(2) by (simp add: window_live_def log_ok_def)
    then show ?thesis using True v1(1) by (simp add: p window_prune_def Let_def window_live_def [of "v1\<lparr>v_head := _\<rparr>"])
  next
    case False
    then show ?thesis using v1(1) by (simp add: p window_prune_def Let_def failureCount_live)
  qed
  show "log_ok (prune_log start v)" using v1(2) by (simp add: p log_ok_def)
  show "2 * v_head (prune_log start v) < length (v_failures (prune_log start v)) \<or> v_head (prune_log start v) = 0 \<or>
      length (window_live (prune_log start v)) = v_failure_cap v"
    using bound by (auto simp: p window_live_def failureCount_def)
qed

lemma trip_log: "window_live (trip now v) = window_live v" "log_ok (trip now v) = log_ok v"
  "v_cfg (trip now v) = v_cfg v" "v_failure_cap (trip now v) = v_failure_cap v" "v_id_last (trip now v) = v_id_last v"
  by (simp_all add: trip_def Let_def window_live_def log_ok_def)

lemma prune_maps_log: "window_live (prune_maps now start v) = window_live v" "log_ok (prune_maps now start v) = log_ok v"
  "v_cfg (prune_maps now start v) = v_cfg v" "v_failure_cap (prune_maps now start v) = v_failure_cap v"
  by (simp_all add: prune_maps_def window_live_def log_ok_def)

lemma prune_log_cfg: "v_cfg (prune_log start v) = v_cfg v" "v_failure_cap (prune_log start v) = v_failure_cap v"
  "v_id_last (prune_log start v) = v_id_last v"
  by (simp_all add: prune_log_def Let_def)

lemma velocity_record_log:
  assumes "log_ok v" and "vc_enabled (v_cfg v)"
  shows "window_live (velocity_record i ip now v) =
      window_prune (now - vc_window (v_cfg v)) (v_failure_cap v) (window_live v) @ [now]"
    and "log_ok (velocity_record i ip now v)"
    and "v_cfg (velocity_record i ip now v) = v_cfg v" and "v_failure_cap (velocity_record i ip now v) = v_failure_cap v"
proof -
  let ?p = "prune now v"
  have p: "window_live ?p = window_prune (now - vc_window (v_cfg v)) (v_failure_cap v) (window_live v)" "log_ok ?p"
    "v_cfg ?p = v_cfg v" "v_failure_cap ?p = v_failure_cap v"
    using prune_log_refines [OF assms(1)] by (simp_all add: prune_def Let_def prune_maps_log prune_log_cfg)
  have live: "window_live (?p\<lparr>v_failures := v_failures ?p @ [now], v_id_last := a, v_ip_last := b, v_id_ip_last := c\<rparr>) =
      window_live ?p @ [now]" for a b c
    using p(2) by (simp add: window_live_def log_ok_def)
  have ok: "log_ok (?p\<lparr>v_failures := v_failures ?p @ [now], v_id_last := a, v_ip_last := b, v_id_ip_last := c\<rparr>)" for a b c
    using p(2) by (simp add: log_ok_def)
  show "window_live (velocity_record i ip now v) =
      window_prune (now - vc_window (v_cfg v)) (v_failure_cap v) (window_live v) @ [now]"
    "log_ok (velocity_record i ip now v)" "v_cfg (velocity_record i ip now v) = v_cfg v"
    "v_failure_cap (velocity_record i ip now v) = v_failure_cap v"
    using assms(2) by (simp_all add: velocity_record_def Let_def trip_log live ok p)
qed

definition record_failure :: "failure \<Rightarrow> velocity \<Rightarrow> velocity" where
  "record_failure f v = velocity_record (fst f) (fst (snd f)) (snd (snd f)) v"

definition window_step :: "int \<Rightarrow> nat \<Rightarrow> failure \<Rightarrow> int list \<Rightarrow> int list" where
  "window_step w cap f l = window_prune (snd (snd f) - w) cap l @ [snd (snd f)]"

text \<open>The simulation: the log with its moving head and its compaction goes through the same windows as the
  abstract one.\<close>

lemma velocity_log_refines:
  assumes "log_ok v" and "vc_enabled (v_cfg v)"
  shows "window_live (fold record_failure fs v) =
      fold (window_step (vc_window (v_cfg v)) (v_failure_cap v)) fs (window_live v)"
  using assms
proof (induction fs arbitrary: v)
  case (Cons f fs)
  note r = velocity_record_log [OF Cons.prems, of "fst f" "fst (snd f)" "snd (snd f)"]
  show ?case using Cons.IH [of "record_failure f v"] r Cons.prems(2)
    by (simp add: record_failure_def window_step_def)
qed simp

lemma dropWhile_sorted: "sorted (l :: int list) \<Longrightarrow> dropWhile (\<lambda>t. t < start) l = filter (\<lambda>t. start \<le> t) l"
  by (induction l) (auto intro!: filter_True [symmetric])

lemma window_fold_exact:
  assumes "sorted (map (\<lambda>f. snd (snd f)) (fs @ [f]))" and "length fs < cap" and "0 \<le> w"
  shows "fold (window_step w cap) (fs @ [f]) [] = filter (\<lambda>t. snd (snd f) - w \<le> t) (map (\<lambda>f. snd (snd f)) (fs @ [f]))"
  using assms
proof (induction fs arbitrary: f rule: rev_induct)
  case Nil
  then show ?case by (simp add: window_step_def window_prune_def)
next
  case (snoc g fs)
  let ?ts = "map (\<lambda>f. snd (snd f)) (fs @ [g])"
  have s: "sorted ?ts" and le: "snd (snd g) \<le> snd (snd f)" using snoc.prems(1) by (simp_all add: sorted_append)
  have ih: "fold (window_step w cap) (fs @ [g]) [] = filter (\<lambda>t. snd (snd g) - w \<le> t) ?ts"
    by (rule snoc.IH) (use snoc.prems s in auto)
  have "dropWhile (\<lambda>t. t < snd (snd f) - w) (filter (\<lambda>t. snd (snd g) - w \<le> t) ?ts) =
      filter (\<lambda>t. snd (snd f) - w \<le> t) (filter (\<lambda>t. snd (snd g) - w \<le> t) ?ts)"
    by (rule dropWhile_sorted) (rule sorted_filter [where f = id, simplified], rule s)
  also have "\<dots> = filter (\<lambda>t. snd (snd f) - w \<le> t) ?ts"
    unfolding filter_filter by (rule filter_cong [OF refl]) (use le in auto)
  finally have d: "dropWhile (\<lambda>t. t < snd (snd f) - w) (filter (\<lambda>t. snd (snd g) - w \<le> t) ?ts) =
      filter (\<lambda>t. snd (snd f) - w \<le> t) ?ts" .
  have "length (filter (\<lambda>t. snd (snd f) - w \<le> t) ?ts) \<le> cap"
    using length_filter_le [of "\<lambda>t. snd (snd f) - w \<le> t" ?ts] snoc.prems(2) by simp
  then have "window_prune (snd (snd f) - w) cap (filter (\<lambda>t. snd (snd g) - w \<le> t) ?ts) =
      filter (\<lambda>t. snd (snd f) - w \<le> t) ?ts"
    unfolding window_prune_def Let_def d by simp
  then have "window_step w cap f (fold (window_step w cap) (fs @ [g]) []) =
      filter (\<lambda>t. snd (snd f) - w \<le> t) ?ts @ [snd (snd f)]"
    unfolding ih by (simp only: window_step_def)
  then show ?case using snoc.prems(3) by (simp only: fold_append map_append filter_append o_apply fold_simps) simp
qed

lemma new_log: "log_ok (newAuthVelocityState cfg)" "window_live (newAuthVelocityState cfg) = []"
  "v_failure_cap (newAuthVelocityState cfg) = 100000" "vc_enabled (v_cfg (newAuthVelocityState cfg)) = vc_enabled cfg"
  by (simp_all add: newAuthVelocityState_def Let_def log_ok_def window_live_def)

text \<open>C20: after any failures in the order of time, up to a hundred thousand, the count the signal works with is
  the number of failures in the window that ends at the last one.\<close>

theorem velocity_counts_window:
  assumes "vc_enabled cfg" and "sorted (map (\<lambda>f. snd (snd f)) (fs @ [f]))" and "length fs < 100000"
  shows "failureCount (fold record_failure (fs @ [f]) (newAuthVelocityState cfg)) =
    length (filter (\<lambda>t. snd (snd f) - vc_window (v_cfg (newAuthVelocityState cfg)) \<le> t) (map (\<lambda>f. snd (snd f)) (fs @ [f])))"
proof -
  let ?w = "vc_window (v_cfg (newAuthVelocityState cfg))"
  have "0 \<le> ?w" by (simp add: newAuthVelocityState_def Let_def positive_or_def DefaultAuthVelocityConfig_def dur_defs)
  have "window_live (fold record_failure (fs @ [f]) (newAuthVelocityState cfg)) = fold (window_step ?w 100000) (fs @ [f]) []"
    using velocity_log_refines [OF new_log(1), of cfg "fs @ [f]"] assms(1) new_log by simp
  also have "\<dots> = filter (\<lambda>t. snd (snd f) - ?w \<le> t) (map (\<lambda>f. snd (snd f)) (fs @ [f]))"
    by (rule window_fold_exact [OF assms(2,3) \<open>0 \<le> ?w\<close>])
  finally show ?thesis by (simp only: failureCount_live)
qed

lemma velocity_counts_window_witness:
  "failureCount (fold record_failure ([(''a'', ''1'', 0), (''b'', ''2'', 30 * second)] @ [(''c'', ''3'', 61 * second)])
     (newAuthVelocityState DefaultAuthVelocityConfig)) = 2"
  using velocity_counts_window [of DefaultAuthVelocityConfig "[(''a'', ''1'', 0), (''b'', ''2'', 30 * second)]" "(''c'', ''3'', 61 * second)"]
  by (simp add: DefaultAuthVelocityConfig_def newAuthVelocityState_def Let_def positive_or_def dur_defs)

section \<open>What trips the signal\<close>

lemma velocity_record_ids:
  "set (map fst (v_id_last (velocity_record i ip now v))) \<subseteq> insert i (set (map fst (v_id_last v)))"
  "distinct (map fst (v_id_last v)) \<Longrightarrow> distinct (map fst (v_id_last (velocity_record i ip now v)))"
proof -
  have p: "set (map fst (v_id_last (prune now v))) \<subseteq> set (map fst (v_id_last v))"
    "distinct (map fst (v_id_last v)) \<Longrightarrow> distinct (map fst (v_id_last (prune now v)))"
    by (auto simp: prune_def prune_maps_def Let_def prune_log_cfg fresh_only_def distinct_map_filter)
  have e: "v_id_last (velocity_record i ip now v) =
      (if vc_enabled (v_cfg v) then AList.update i now (v_id_last (prune now v)) else v_id_last v)"
    by (simp add: velocity_record_def Let_def trip_log)
  show "set (map fst (v_id_last (velocity_record i ip now v))) \<subseteq> insert i (set (map fst (v_id_last v)))"
    using p(1) unfolding e by (auto simp: update_keys simp del: set_map)
  show "distinct (map fst (v_id_last (velocity_record i ip now v)))" if "distinct (map fst (v_id_last v))"
    using p(2) [OF that] that unfolding e by (simp add: distinct_update)
qed

lemma one_account_state:
  assumes "\<And>f. f \<in> set fs \<Longrightarrow> fst f = i" and "set (map fst (v_id_last v)) \<subseteq> {i}" "distinct (map fst (v_id_last v))"
    and "1 < vc_identifier_threshold (v_cfg v)" and "log_ok v" "vc_enabled (v_cfg v)"
  shows "v_throttle_until (fold record_failure fs v) = v_throttle_until v"
  using assms
proof (induction fs arbitrary: v)
  case (Cons f fs)
  have f: "fst f = i" using Cons.prems(1) by simp
  let ?v = "record_failure f v"
  have ids: "set (map fst (v_id_last ?v)) \<subseteq> {i}" "distinct (map fst (v_id_last ?v))"
    using velocity_record_ids [where i = i and ip = "fst (snd f)" and now = "snd (snd f)" and v = v] Cons.prems(2,3)
    by (auto simp: record_failure_def f simp del: set_map)
  have "length (map fst (v_id_last ?v)) \<le> 1"
    using card_mono [OF _ ids(1)] distinct_card [OF ids(2)] by simp
  then have "\<not> vc_identifier_threshold (v_cfg v) \<le> int (length (v_id_last ?v))" using Cons.prems(4) by simp
  moreover have "v_throttle_until (prune_maps t s x) = v_throttle_until x" "v_throttle_until (prune_log s x) = v_throttle_until x" for t s x
    by (simp_all add: prune_maps_def prune_log_def Let_def)
  ultimately have "v_throttle_until ?v = v_throttle_until v"
    using Cons.prems(6) by (auto simp: record_failure_def velocity_record_def Let_def trip_log prune_def
        prune_maps_log prune_log_cfg split: if_splits)
  moreover have "v_throttle_until (fold record_failure fs ?v) = v_throttle_until ?v"
    using Cons.prems ids velocity_record_log [OF Cons.prems(5,6)] by (intro Cons.IH) (auto simp: record_failure_def)
  ultimately show ?case by simp
qed simp

text \<open>Attacking a single account never trips the instance-wide throttle, however many failures there are
  and from however many sources: the signal needs several accounts.\<close>

lemma one_account_never_trips:
  assumes "vc_enabled cfg" and "2 \<le> vc_identifier_threshold cfg"
    and "\<And>f. f \<in> set fs \<Longrightarrow> fst f = i" and "zero_time \<le> now"
  shows "\<not> throttled (fold record_failure fs (newAuthVelocityState cfg)) now"
proof -
  have "v_throttle_until (fold record_failure fs (newAuthVelocityState cfg)) = v_throttle_until (newAuthVelocityState cfg)"
    using assms(1,2) by (intro one_account_state [OF assms(3) _ _ _ new_log(1)])
      (auto simp: newAuthVelocityState_def Let_def positive_or_def)
  then show ?thesis using assms(4) by (simp add: throttled_def newAuthVelocityState_def Let_def)
qed

lemma one_account_never_trips_witness:
  "throttled (fold record_failure (replicate 500 (''admin'', ''9.9.9.9'', 0)) (newAuthVelocityState DefaultAuthVelocityConfig)) 1 = False"
  using one_account_never_trips [of DefaultAuthVelocityConfig "replicate 500 (''admin'', ''9.9.9.9'', 0)" "''admin''" 1]
  by (simp add: DefaultAuthVelocityConfig_def zero_time_def dur_defs)

text \<open>A failure that meets both thresholds throttles every source that is not known to be good, for every
  identifier, until the throttle runs out.\<close>

lemma spray_throttles:
  assumes "RecordLoginFailure identifier ip now a = (a', res)" and "vc_enabled (v_cfg (lm_velocity a))"
    and "vc_failure_threshold (v_cfg (lm_velocity a)) \<le> int (failureCount (lm_velocity a'))"
    and "vc_identifier_threshold (v_cfg (lm_velocity a)) \<le> int (length (v_id_last (lm_velocity a')))"
    and "log_ok (lm_velocity a)" and "t < now + vc_throttle (v_cfg (lm_velocity a))"
    and "\<not> knownGoodIPLocked a' j jp t" and "\<not> globalKnownGoodIPLocked a' jp t"
  shows "fst (IsLoginLocked a' j jp t)"
proof -
  let ?v = "lm_velocity a"
  have a': "lm_velocity a' = velocity_record identifier ip now ?v"
    using assms(1) by (auto simp: RecordLoginFailure_def Let_def split: prod.splits)
  note log = velocity_record_log [OF assms(5,2), where i = "identifier" and ip = ip and now = now]
  have "v_throttle_until (velocity_record identifier ip now ?v) = now + vc_throttle (v_cfg ?v)"
    using assms(2-4) unfolding a'
    by (auto simp: velocity_record_def Let_def trip_log failureCount_live prune_def prune_maps_log prune_log_cfg
        split: if_splits) (simp_all add: trip_def Let_def prune_maps_def prune_log_cfg)
  then have "throttled (lm_velocity a') t" using assms(2,6) log(3) by (simp add: throttled_def a')
  then show ?thesis using assms(7,8) by (simp add: IsLoginLocked_def combine_locks_def authThrottleLocked_def Let_def)
qed

lemma spray_throttles_witness:
  "fst (IsLoginLocked (fst (RecordLoginFailure ''b'' ''2'' 0 ((NewAccountRateLimiter hour)\<lparr>lm_velocity :=
     (newAuthVelocityState DefaultAuthVelocityConfig)\<lparr>v_cfg := DefaultAuthVelocityConfig\<lparr>
       vc_failure_threshold := 1, vc_identifier_threshold := 1\<rparr>\<rparr>\<rparr>))) ''carol'' ''3'' 0)"
proof -
  let ?a = "(NewAccountRateLimiter hour)\<lparr>lm_velocity := (newAuthVelocityState DefaultAuthVelocityConfig)\<lparr>v_cfg :=
    DefaultAuthVelocityConfig\<lparr>vc_failure_threshold := 1, vc_identifier_threshold := 1\<rparr>\<rparr>\<rparr>"
  obtain a' res where r: "RecordLoginFailure ''b'' ''2'' 0 ?a = (a', res)" by (meson surj_pair)
  have v: "lm_velocity a' = velocity_record ''b'' ''2'' 0 (lm_velocity ?a)" and
    k: "lm_known a' = Map.empty" "lm_known_global a' = Map.empty"
    using r by (auto simp: RecordLoginFailure_def NewAccountRateLimiter_def Let_def split: prod.splits)
  have ok: "log_ok (lm_velocity ?a)" by (simp add: log_ok_def newAuthVelocityState_def Let_def)
  have one: "1 \<le> failureCount (lm_velocity a')"
    using velocity_record_log(1) [OF ok] by (simp add: v failureCount_live DefaultAuthVelocityConfig_def)
  have "v_id_last (lm_velocity a') \<noteq> []"
    by (simp add: v velocity_record_def Let_def trip_log DefaultAuthVelocityConfig_def prune_def prune_maps_def
        newAuthVelocityState_def prune_log_cfg fresh_only_def)
  then have "1 \<le> length (v_id_last (lm_velocity a'))" by (cases "v_id_last (lm_velocity a')") auto
  with one have "fst (IsLoginLocked a' ''carol'' ''3'' 0)"
    by (intro spray_throttles [OF r _ _ _ ok])
      (simp_all add: knownGoodIPLocked_def globalKnownGoodIPLocked_def k DefaultAuthVelocityConfig_def dur_defs)
  then show ?thesis by (simp add: r)
qed

end
