(* ===== verification/Idempotency.thy ===== *)
theory Idempotency imports GoTime begin

text \<open>
  Retry safety of keyed POST requests (\<open>backend/middleware/idempotency.go\<close>, \<open>models/idempotency_key.go\<close>) with
  the purge of old keys (\<open>services/idempotency_purge_service.go\<close>). The unique index on user and key makes the
  claim one step, so the table is a map. A request is claimed, handled and finished in separate steps, any
  number of requests are in flight, and the process may die between any two of them.
\<close>

section \<open>Rows, fingerprints and answers\<close>

record idem_row =
  ik_id :: nat
  ik_method :: string
  ik_path :: string
  ik_fingerprint :: string
  ik_completed :: bool
  ik_status :: int
  ik_body :: string
  ik_created :: int
  ik_updated :: int

type_synonym idem_table = "(nat \<times> string) \<Rightarrow> idem_row option"

definition maxIdempotencyKeyLen :: nat where "maxIdempotencyKeyLen = 255"
definition maxCachedResponseBytes :: nat where "maxCachedResponseBytes = 256 * 2 ^ 10"
definition idempotencyPendingTimeout :: int where "idempotencyPendingTimeout = 10 * minute"

definition fingerprint_input :: "string \<Rightarrow> string \<Rightarrow> string \<Rightarrow> string" where
  "fingerprint_input verb path body = verb @ [CHR 0x0A] @ path @ [CHR 0x0A] @ body"

definition fingerprintRequest :: "(string \<Rightarrow> string) \<Rightarrow> string \<Rightarrow> string \<Rightarrow> string \<Rightarrow> string" where
  "fingerprintRequest sha verb path body = sha (fingerprint_input verb path body)"

datatype idem_answer = Bypass | KeyTooLong | Run nat | KeyReused | InProgress | ResultUnavailable | Replay int string

text \<open>What a later request with the same key is told.\<close>

definition answer_existing :: "idem_row \<Rightarrow> string \<Rightarrow> int \<Rightarrow> idem_answer" where
  "answer_existing r fp now =
     (if ik_fingerprint r \<noteq> fp then KeyReused
      else if \<not> ik_completed r
      then (if sub_time now (ik_created r) \<le> idempotencyPendingTimeout then InProgress else ResultUnavailable)
      else if ik_status r = 0 then ResultUnavailable
      else Replay (ik_status r) (ik_body r))"

record request =
  rq_method :: string
  rq_user :: "nat option"
  rq_key :: string
  rq_path :: string
  rq_uri :: string
  rq_body :: string

section \<open>The steps of a request\<close>

record flight =
  fl_user :: nat
  fl_key :: string
  fl_fingerprint :: string
  fl_claimed :: int
  fl_response :: "(int \<times> string) option"

record effect =
  ef_id :: nat
  ef_user :: nat
  ef_key :: string
  ef_fingerprint :: string
  ef_claimed :: int
  ef_status :: int
  ef_body :: string

record idem_state =
  is_clock :: int
  is_rows :: idem_table
  is_next :: nat
  is_flights :: "nat \<Rightarrow> flight option"
  is_effects :: "effect list"

text \<open>The insert that claims the key.\<close>

definition claim_key :: "request \<Rightarrow> nat \<Rightarrow> string \<Rightarrow> idem_state \<Rightarrow> idem_state" where
  "claim_key rq u fp \<sigma> =
     \<sigma>\<lparr>is_rows := (is_rows \<sigma>)((u, rq_key rq) \<mapsto>
         \<lparr>ik_id = is_next \<sigma>, ik_method = rq_method rq, ik_path = rq_path rq, ik_fingerprint = fp,
          ik_completed = False, ik_status = 0, ik_body = [], ik_created = is_clock \<sigma>, ik_updated = is_clock \<sigma>\<rparr>),
       is_next := is_next \<sigma> + 1,
       is_flights := (is_flights \<sigma>)(is_next \<sigma> \<mapsto> \<lparr>fl_user = u, fl_key = rq_key rq, fl_fingerprint = fp,
         fl_claimed = is_clock \<sigma>, fl_response = None\<rparr>)\<rparr>"

definition claim_request :: "(string \<Rightarrow> string) \<Rightarrow> request \<Rightarrow> idem_state \<Rightarrow> idem_state \<times> idem_answer" where
  "claim_request sha rq \<sigma> =
     (if rq_method rq \<noteq> ''POST'' \<or> rq_key rq = [] then (\<sigma>, Bypass)
      else if maxIdempotencyKeyLen < length (rq_key rq) then (\<sigma>, KeyTooLong)
      else (case rq_user rq of
        None \<Rightarrow> (\<sigma>, Bypass)
      | Some u \<Rightarrow>
          (let fp = fingerprintRequest sha (rq_method rq) (rq_uri rq) (rq_body rq)
           in case is_rows \<sigma> (u, rq_key rq) of
                Some r \<Rightarrow> (\<sigma>, answer_existing r fp (is_clock \<sigma>))
              | None \<Rightarrow> (claim_key rq u fp \<sigma>, Run (is_next \<sigma>)))))"

definition success :: "int \<Rightarrow> bool" where
  "success status \<longleftrightarrow> 200 \<le> status \<and> status < 300"

text \<open>The handler: a response in the two hundreds is one whose write committed.\<close>

definition handle_request :: "nat \<Rightarrow> int \<Rightarrow> string \<Rightarrow> idem_state \<Rightarrow> idem_state" where
  "handle_request i status body \<sigma> =
     (case is_flights \<sigma> i of
        None \<Rightarrow> \<sigma>
      | Some f \<Rightarrow>
          \<sigma>\<lparr>is_flights := (is_flights \<sigma>)(i \<mapsto> f\<lparr>fl_response := Some (status, body)\<rparr>),
            is_effects := (if success status
              then \<lparr>ef_id = i, ef_user = fl_user f, ef_key = fl_key f, ef_fingerprint = fl_fingerprint f,
                    ef_claimed = fl_claimed f, ef_status = status, ef_body = body\<rparr> # is_effects \<sigma>
              else is_effects \<sigma>)\<rparr>)"

definition update_row :: "nat \<Rightarrow> (idem_row \<Rightarrow> idem_row) \<Rightarrow> idem_table \<Rightarrow> idem_table" where
  "update_row i f rows k = map_option (\<lambda>r. if ik_id r = i then f r else r) (rows k)"

definition delete_row :: "nat \<Rightarrow> idem_table \<Rightarrow> idem_table" where
  "delete_row i rows k = (case rows k of None \<Rightarrow> None | Some r \<Rightarrow> if ik_id r = i then None else Some r)"

definition markTerminalUnreplayable :: "nat \<Rightarrow> int \<Rightarrow> idem_table \<Rightarrow> idem_table" where
  "markTerminalUnreplayable i now =
     update_row i (\<lambda>r. if ik_status r = 0
       then r\<lparr>ik_completed := True, ik_status := 0, ik_body := [], ik_updated := now\<rparr> else r)"

text \<open>The bookkeeping after the handler; the three writes may each fail.\<close>

definition store_result ::
  "bool \<Rightarrow> bool \<Rightarrow> bool \<Rightarrow> nat \<Rightarrow> int \<Rightarrow> string \<Rightarrow> int \<Rightarrow> idem_table \<Rightarrow> idem_table" where
  "store_result store_ok mark_ok delete_ok i status body now rows =
     (let mark = (\<lambda>t. if mark_ok then markTerminalUnreplayable i now t else t)
      in if success status
         then (if length body \<le> maxCachedResponseBytes
               then (if store_ok
                     then update_row i (\<lambda>r. r\<lparr>ik_completed := True, ik_status := status, ik_body := body,
                                             ik_updated := now\<rparr>) rows
                     else mark rows)
               else mark rows)
         else (if delete_ok then delete_row i rows else rows))"

definition finish_request :: "bool \<Rightarrow> bool \<Rightarrow> bool \<Rightarrow> nat \<Rightarrow> idem_state \<Rightarrow> idem_state" where
  "finish_request store_ok mark_ok delete_ok i \<sigma> =
     (case is_flights \<sigma> i of
        None \<Rightarrow> \<sigma>
      | Some f \<Rightarrow> (case fl_response f of
          None \<Rightarrow> \<sigma>
        | Some (status, body) \<Rightarrow>
            \<sigma>\<lparr>is_rows := store_result store_ok mark_ok delete_ok i status body (is_clock \<sigma>) (is_rows \<sigma>),
              is_flights := (is_flights \<sigma>)(i := None)\<rparr>))"

definition PurgeExpiredIdempotencyKeys :: "int \<Rightarrow> int \<Rightarrow> idem_table \<Rightarrow> idem_table" where
  "PurgeExpiredIdempotencyKeys retentionHours now rows =
     (if retentionHours \<le> 0 then rows
      else (\<lambda>k. case rows k of None \<Rightarrow> None
                | Some r \<Rightarrow> if ik_created r < now - retentionHours * hour then None else Some r))"

inductive idem_step :: "(string \<Rightarrow> string) \<Rightarrow> int \<Rightarrow> idem_state \<Rightarrow> idem_state \<Rightarrow> bool" for sha hours where
  tick: "0 \<le> d \<Longrightarrow> idem_step sha hours \<sigma> (\<sigma>\<lparr>is_clock := is_clock \<sigma> + d\<rparr>)"
| claim: "claim_request sha rq \<sigma> = (\<sigma>', a) \<Longrightarrow> idem_step sha hours \<sigma> \<sigma>'"
| handle: "is_flights \<sigma> i = Some f \<Longrightarrow> fl_response f = None \<Longrightarrow>
    idem_step sha hours \<sigma> (handle_request i status body \<sigma>)"
| finish: "idem_step sha hours \<sigma> (finish_request store_ok mark_ok delete_ok i \<sigma>)"
| die: "idem_step sha hours \<sigma> (\<sigma>\<lparr>is_flights := (is_flights \<sigma>)(i := None)\<rparr>)"
| purge: "idem_step sha hours \<sigma>
    (\<sigma>\<lparr>is_rows := PurgeExpiredIdempotencyKeys hours (is_clock \<sigma>) (is_rows \<sigma>)\<rparr>)"

definition idem_start :: "int \<Rightarrow> idem_state" where
  "idem_start t = \<lparr>is_clock = t, is_rows = (\<lambda>_. None), is_next = 0, is_flights = (\<lambda>_. None), is_effects = []\<rparr>"

definition idem_reach :: "(string \<Rightarrow> string) \<Rightarrow> int \<Rightarrow> idem_state \<Rightarrow> bool" where
  "idem_reach sha hours \<sigma> \<longleftrightarrow> (\<exists>t. (idem_step sha hours)\<^sup>*\<^sup>* (idem_start t) \<sigma>)"

section \<open>The invariant\<close>

text \<open>The runs of a key: those in flight and those whose write committed. Each of them still has its row or
  is older than the retention, and two runs of one key are more than the retention apart.\<close>

definition runs :: "idem_state \<Rightarrow> (nat \<times> nat \<times> string \<times> int) set" where
  "runs \<sigma> = {(i, fl_user f, fl_key f, fl_claimed f) |i f. is_flights \<sigma> i = Some f} \<union>
            (\<lambda>e. (ef_id e, ef_user e, ef_key e, ef_claimed e)) ` set (is_effects \<sigma>)"

definition expired :: "int \<Rightarrow> int \<Rightarrow> int \<Rightarrow> bool" where
  "expired hours now t \<longleftrightarrow> 0 < hours \<and> t < now - hours * hour"

definition covered :: "int \<Rightarrow> idem_state \<Rightarrow> bool" where
  "covered hours \<sigma> \<longleftrightarrow> (\<forall>(i, u, k, t)\<in>runs \<sigma>. i < is_next \<sigma> \<and> t \<le> is_clock \<sigma> \<and>
     ((\<exists>r. is_rows \<sigma> (u, k) = Some r \<and> ik_id r = i \<and> ik_created r = t) \<or> expired hours (is_clock \<sigma>) t))"

definition spaced :: "int \<Rightarrow> idem_state \<Rightarrow> bool" where
  "spaced hours \<sigma> \<longleftrightarrow> (\<forall>(i, u, k, t)\<in>runs \<sigma>. \<forall>(j, v, l, s)\<in>runs \<sigma>.
     i \<noteq> j \<longrightarrow> (u, k) = (v, l) \<longrightarrow> 0 < hours \<and> hours * hour < \<bar>t - s\<bar>)"

definition once_each_run :: "idem_state \<Rightarrow> bool" where
  "once_each_run \<sigma> \<longleftrightarrow> distinct (map ef_id (is_effects \<sigma>)) \<and>
     (\<forall>i f. is_flights \<sigma> i = Some f \<longrightarrow> \<not> (\<exists>s b. fl_response f = Some (s, b) \<and> success s) \<longrightarrow>
        i \<notin> ef_id ` set (is_effects \<sigma>)) \<and>
     (\<forall>k r. is_rows \<sigma> k = Some r \<longrightarrow> ik_id r < is_next \<sigma>)"

text \<open>A stored response is the response of a run that committed under the row's key and fingerprint.\<close>

definition done_as :: "idem_state \<Rightarrow> nat \<Rightarrow> string \<Rightarrow> string \<Rightarrow> int \<Rightarrow> string \<Rightarrow> bool" where
  "done_as \<sigma> u k fp status body \<longleftrightarrow>
     (\<exists>e\<in>set (is_effects \<sigma>). ef_user e = u \<and> ef_key e = k \<and> ef_fingerprint e = fp \<and> ef_status e = status \<and> ef_body e = body)"

definition rows_true :: "idem_state \<Rightarrow> bool" where
  "rows_true \<sigma> \<longleftrightarrow> (\<forall>u k r. is_rows \<sigma> (u, k) = Some r \<longrightarrow> ik_status r \<noteq> 0 \<longrightarrow>
     done_as \<sigma> u k (ik_fingerprint r) (ik_status r) (ik_body r))"

definition flights_true :: "idem_state \<Rightarrow> bool" where
  "flights_true \<sigma> \<longleftrightarrow> (\<forall>i f status body. is_flights \<sigma> i = Some f \<longrightarrow> fl_response f = Some (status, body) \<longrightarrow>
     success status \<longrightarrow> done_as \<sigma> (fl_user f) (fl_key f) (fl_fingerprint f) status body)"

definition flights_own :: "idem_state \<Rightarrow> bool" where
  "flights_own \<sigma> \<longleftrightarrow> (\<forall>i f u k r. is_flights \<sigma> i = Some f \<longrightarrow> is_rows \<sigma> (u, k) = Some r \<longrightarrow> ik_id r = i \<longrightarrow>
     u = fl_user f \<and> k = fl_key f \<and> ik_fingerprint r = fl_fingerprint f)"

lemma claim_cases:
  assumes "claim_request sha rq \<sigma> = (\<sigma>', a)"
  obtains (same) "\<sigma>' = \<sigma>"
    | (fresh) u fp where "is_rows \<sigma> (u, rq_key rq) = None" "\<sigma>' = claim_key rq u fp \<sigma>" "a = Run (is_next \<sigma>)"
proof -
  have "fst (claim_request sha rq \<sigma>) = \<sigma> \<or> (\<exists>u fp. is_rows \<sigma> (u, rq_key rq) = None \<and>
      claim_request sha rq \<sigma> = (claim_key rq u fp \<sigma>, Run (is_next \<sigma>)))"
  proof (cases "rq_user rq")
    case None
    then show ?thesis unfolding claim_request_def by simp
  next
    case (Some u)
    then show ?thesis unfolding claim_request_def by (cases "is_rows \<sigma> (u, rq_key rq)") (auto simp: Let_def)
  qed
  then show ?thesis
  proof (elim disjE exE conjE)
    assume "fst (claim_request sha rq \<sigma>) = \<sigma>"
    then show ?thesis using assms same by simp
  next
    fix u fp
    assume "is_rows \<sigma> (u, rq_key rq) = None" "claim_request sha rq \<sigma> = (claim_key rq u fp \<sigma>, Run (is_next \<sigma>))"
    then show ?thesis using assms fresh [of u fp] by simp
  qed
qed

lemma finish_cases:
  obtains (same) "finish_request st mk dl i \<sigma> = \<sigma>"
    | (stored) f status body where "is_flights \<sigma> i = Some f" "fl_response f = Some (status, body)"
      "finish_request st mk dl i \<sigma> = \<sigma>\<lparr>is_rows := store_result st mk dl i status body (is_clock \<sigma>) (is_rows \<sigma>),
         is_flights := (is_flights \<sigma>)(i := None)\<rparr>"
proof (cases "is_flights \<sigma> i")
  case None
  then show ?thesis using same by (simp add: finish_request_def)
next
  case (Some f)
  show ?thesis
  proof (cases "fl_response f")
    case None
    then show ?thesis using same Some by (simp add: finish_request_def)
  next
    case r: (Some sb)
    obtain status body where "sb = (status, body)" by fastforce
    then show ?thesis using stored [OF Some] r Some by (simp add: finish_request_def)
  qed
qed

lemma update_row_Some:
  "update_row i f rows k = Some r \<longleftrightarrow> (\<exists>r0. rows k = Some r0 \<and> r = (if ik_id r0 = i then f r0 else r0))"
  by (cases "rows k") (auto simp: update_row_def)

text \<open>What the bookkeeping may do to a row: nothing, delete the one of its own request after a failure, or
  change the outcome columns of the one of its own request.\<close>

lemma store_result_keeps:
  assumes "rows k = Some r" and "\<not> (ik_id r = i \<and> \<not> success status)"
  shows "\<exists>r'. store_result st mk dl i status body now rows k = Some r' \<and> ik_id r' = ik_id r \<and>
    ik_created r' = ik_created r \<and> ik_fingerprint r' = ik_fingerprint r"
  using assms by (auto simp: store_result_def Let_def update_row_def delete_row_def markTerminalUnreplayable_def)

lemma store_result_from:
  assumes "store_result st mk dl i status body now rows k = Some r'"
  shows "\<exists>r. rows k = Some r \<and> ik_id r' = ik_id r \<and> ik_created r' = ik_created r \<and> ik_fingerprint r' = ik_fingerprint r \<and>
    (ik_status r' = ik_status r \<and> (ik_status r \<noteq> 0 \<longrightarrow> ik_body r' = ik_body r) \<or>
     ik_id r = i \<and> success status \<and> ik_status r' = status \<and> ik_body r' = body)"
  using assms by (auto simp: store_result_def Let_def update_row_Some delete_row_def markTerminalUnreplayable_def
      split: if_splits option.splits)

lemma next_free:
  assumes "covered hours \<sigma>"
  shows "is_flights \<sigma> (is_next \<sigma>) = None"
proof (rule ccontr)
  assume "is_flights \<sigma> (is_next \<sigma>) \<noteq> None"
  then obtain g where "is_flights \<sigma> (is_next \<sigma>) = Some g" by auto
  then have "(is_next \<sigma>, fl_user g, fl_key g, fl_claimed g) \<in> runs \<sigma>" by (auto simp: runs_def)
  then show False using assms by (auto simp: covered_def)
qed

lemma runs_fresh:
  "covered hours \<sigma> \<Longrightarrow> runs (claim_key rq u fp \<sigma>) = insert (is_next \<sigma>, u, rq_key rq, is_clock \<sigma>) (runs \<sigma>)"
  using next_free by (auto simp: runs_def claim_key_def split: if_splits)

lemma runs_handle:
  assumes "is_flights \<sigma> i = Some f"
  shows "runs (handle_request i status body \<sigma>) = runs \<sigma>"
proof -
  have "(i, fl_user f, fl_key f, fl_claimed f) \<in> runs \<sigma>" using assms by (auto simp: runs_def)
  then show ?thesis using assms by (auto simp: runs_def handle_request_def split: if_splits)
qed

lemma runs_drop: "runs (\<sigma>\<lparr>is_rows := rows, is_flights := (is_flights \<sigma>)(i := None)\<rparr>) \<subseteq> runs \<sigma>"
  "runs (\<sigma>\<lparr>is_flights := (is_flights \<sigma>)(i := None)\<rparr>) \<subseteq> runs \<sigma>"
  by (auto simp: runs_def split: if_splits)

lemma expired_later: "expired hours now t \<Longrightarrow> now \<le> u \<Longrightarrow> expired hours u t"
  by (simp add: expired_def)

lemma coveredD:
  "covered hours \<sigma> \<Longrightarrow> (i, u, k, t) \<in> runs \<sigma> \<Longrightarrow> i < is_next \<sigma> \<and> t \<le> is_clock \<sigma> \<and>
     ((\<exists>r. is_rows \<sigma> (u, k) = Some r \<and> ik_id r = i \<and> ik_created r = t) \<or> expired hours (is_clock \<sigma>) t)"
  unfolding covered_def by fastforce

lemma coveredI:
  "(\<And>i u k t. (i, u, k, t) \<in> runs \<sigma> \<Longrightarrow> i < is_next \<sigma> \<and> t \<le> is_clock \<sigma> \<and>
     ((\<exists>r. is_rows \<sigma> (u, k) = Some r \<and> ik_id r = i \<and> ik_created r = t) \<or> expired hours (is_clock \<sigma>) t)) \<Longrightarrow>
   covered hours \<sigma>"
  unfolding covered_def by blast

lemma covered_step:
  assumes "idem_step sha hours \<sigma> \<sigma>'" and c: "covered hours \<sigma>" and o: "once_each_run \<sigma>"
  shows "covered hours \<sigma>'"
  using assms(1)
proof cases
  case (tick d)
  have "runs \<sigma>' = runs \<sigma>" by (simp add: tick runs_def)
  then show ?thesis using coveredD [OF c] expired_later [of hours "is_clock \<sigma>" _ "is_clock \<sigma> + d"] tick
    by (intro coveredI) fastforce
next
  case (claim rq a)
  from claim show ?thesis
  proof (cases rule: claim_cases)
    case same
    then show ?thesis using c by simp
  next
    case (fresh u fp)
    show ?thesis
    proof (rule coveredI)
      fix i v l t assume r: "(i, v, l, t) \<in> runs \<sigma>'"
      show "i < is_next \<sigma>' \<and> t \<le> is_clock \<sigma>' \<and>
        ((\<exists>r. is_rows \<sigma>' (v, l) = Some r \<and> ik_id r = i \<and> ik_created r = t) \<or> expired hours (is_clock \<sigma>') t)"
      proof (cases "(i, v, l, t) \<in> runs \<sigma>")
        case True
        from coveredD [OF c this] fresh(1) show ?thesis by (auto simp: fresh(2) claim_key_def)
      next
        case False
        then have "(i, v, l, t) = (is_next \<sigma>, u, rq_key rq, is_clock \<sigma>)" using r runs_fresh [OF c] fresh(2) by auto
        then show ?thesis by (simp add: fresh(2) claim_key_def)
      qed
    qed
  qed
next
  case (handle i f status body)
  have "is_rows \<sigma>' = is_rows \<sigma>" "is_next \<sigma>' = is_next \<sigma>" "is_clock \<sigma>' = is_clock \<sigma>"
    using handle by (simp_all add: handle_request_def)
  then show ?thesis using coveredD [OF c] runs_handle [OF handle(2)] handle(1) by (intro coveredI) simp
next
  case (finish st mk dl i)
  show ?thesis
  proof (cases rule: finish_cases [of st mk dl i \<sigma>])
    case same
    then show ?thesis using c finish by simp
  next
    case (stored f status body)
    show ?thesis
    proof (rule coveredI)
      fix j u k t assume r: "(j, u, k, t) \<in> runs \<sigma>'"
      then have old: "(j, u, k, t) \<in> runs \<sigma>" using runs_drop(1) [where \<sigma> = \<sigma> and i = i] unfolding finish stored(3) by blast
      have keep: "\<not> (j = i \<and> \<not> success status)"
      proof
        assume f: "j = i \<and> \<not> success status"
        then have "i \<notin> ef_id ` set (is_effects \<sigma>)" using o stored(1,2) by (simp add: once_each_run_def)
        then show False using r f by (auto simp: finish stored(3) runs_def split: if_splits)
      qed
      from coveredD [OF c old] store_result_keeps [of "is_rows \<sigma>" "(u, k)" _ i status st mk dl body "is_clock \<sigma>"] keep
      show "j < is_next \<sigma>' \<and> t \<le> is_clock \<sigma>' \<and>
        ((\<exists>r. is_rows \<sigma>' (u, k) = Some r \<and> ik_id r = j \<and> ik_created r = t) \<or> expired hours (is_clock \<sigma>') t)"
        by (fastforce simp: finish stored(3))
    qed
  qed
next
  case (die i)
  show ?thesis
  proof (rule coveredI)
    fix j u k t assume "(j, u, k, t) \<in> runs \<sigma>'"
    then have "(j, u, k, t) \<in> runs \<sigma>" using runs_drop(2) [where \<sigma> = \<sigma> and i = i] die by blast
    from coveredD [OF c this] show "j < is_next \<sigma>' \<and> t \<le> is_clock \<sigma>' \<and>
        ((\<exists>r. is_rows \<sigma>' (u, k) = Some r \<and> ik_id r = j \<and> ik_created r = t) \<or> expired hours (is_clock \<sigma>') t)"
      by (simp add: die)
  qed
next
  case purge
  have "runs \<sigma>' = runs \<sigma>" by (simp add: purge runs_def)
  then show ?thesis using coveredD [OF c] purge
    by (intro coveredI) (fastforce simp: PurgeExpiredIdempotencyKeys_def expired_def split: if_splits)
qed

lemma spacedI:
  "(\<And>i j u k t s. (i, u, k, t) \<in> runs \<sigma> \<Longrightarrow> (j, u, k, s) \<in> runs \<sigma> \<Longrightarrow> i \<noteq> j \<Longrightarrow>
     0 < hours \<and> hours * hour < \<bar>t - s\<bar>) \<Longrightarrow> spaced hours \<sigma>"
  unfolding spaced_def by blast

lemma spacedD:
  "spaced hours \<sigma> \<Longrightarrow> (i, u, k, t) \<in> runs \<sigma> \<Longrightarrow> (j, u, k, s) \<in> runs \<sigma> \<Longrightarrow> i \<noteq> j \<Longrightarrow>
   0 < hours \<and> hours * hour < \<bar>t - s\<bar>"
  unfolding spaced_def by fastforce

lemma spaced_fresh:
  assumes c: "covered hours \<sigma>" and s: "spaced hours \<sigma>" and none: "is_rows \<sigma> (u, rq_key rq) = None"
  shows "spaced hours (claim_key rq u fp \<sigma>)"
proof -
  have new: "0 < hours \<and> hours * hour < \<bar>is_clock \<sigma> - t\<bar>" if "(i, u, rq_key rq, t) \<in> runs \<sigma>" for i t
    using coveredD [OF c that] none by (auto simp: expired_def)
  show ?thesis
  proof (rule spacedI)
    fix i j v l t q
    assume r: "(i, v, l, t) \<in> runs (claim_key rq u fp \<sigma>)" "(j, v, l, q) \<in> runs (claim_key rq u fp \<sigma>)" "i \<noteq> j"
    consider "(i, v, l, t) \<in> runs \<sigma>" "(j, v, l, q) \<in> runs \<sigma>"
      | "(i, v, l, t) \<in> runs \<sigma>" "(j, v, l, q) = (is_next \<sigma>, u, rq_key rq, is_clock \<sigma>)"
      | "(j, v, l, q) \<in> runs \<sigma>" "(i, v, l, t) = (is_next \<sigma>, u, rq_key rq, is_clock \<sigma>)"
      using r runs_fresh [OF c, of rq u fp] by auto
    then show "0 < hours \<and> hours * hour < \<bar>t - q\<bar>"
    proof cases
      case 1
      then show ?thesis using spacedD [OF s] r(3) by blast
    next
      case 2
      then show ?thesis using new [of i t] by (auto simp: abs_minus_commute)
    next
      case 3
      then show ?thesis using new [of j q] by auto
    qed
  qed
qed

lemma spaced_sub: "spaced hours \<sigma> \<Longrightarrow> runs \<sigma>' \<subseteq> runs \<sigma> \<Longrightarrow> spaced hours \<sigma>'"
  by (rule spacedI) (use spacedD in blast)

lemma step_runs:
  assumes "idem_step sha hours \<sigma> \<sigma>'"
  obtains (fresh) rq u fp where "is_rows \<sigma> (u, rq_key rq) = None" "\<sigma>' = claim_key rq u fp \<sigma>"
    | (fewer) "runs \<sigma>' \<subseteq> runs \<sigma>"
  using assms
proof cases
  case (claim rq a)
  from claim show ?thesis by (cases rule: claim_cases) (use fewer fresh in auto)
next
  case (handle i f status body)
  then show ?thesis using fewer runs_handle by simp
next
  case (finish st mk dl i)
  show ?thesis
  proof (cases rule: finish_cases [of st mk dl i \<sigma>])
    case (stored f status body)
    then show ?thesis using fewer runs_drop(1) [where \<sigma> = \<sigma> and i = i] unfolding finish by metis
  qed (use fewer finish in simp)
next
  case (die i)
  then show ?thesis using fewer runs_drop(2) [where \<sigma> = \<sigma> and i = i] by simp
qed (use fewer in \<open>simp_all add: runs_def\<close>)

lemma spaced_step:
  assumes "idem_step sha hours \<sigma> \<sigma>'" and "covered hours \<sigma>" and "spaced hours \<sigma>"
  shows "spaced hours \<sigma>'"
  using assms(1)
proof (cases rule: step_runs)
  case (fresh rq u fp)
  then show ?thesis using spaced_fresh [OF assms(2,3)] by simp
next
  case fewer
  then show ?thesis by (rule spaced_sub [OF assms(3)])
qed

lemma purge_only: "PurgeExpiredIdempotencyKeys hours now rows k = Some r \<Longrightarrow> rows k = Some r"
  by (auto simp: PurgeExpiredIdempotencyKeys_def split: if_splits option.splits)

lemma effect_ids_below: "covered hours \<sigma> \<Longrightarrow> e \<in> set (is_effects \<sigma>) \<Longrightarrow> ef_id e < is_next \<sigma>"
  using coveredD [of hours \<sigma> "ef_id e" "ef_user e" "ef_key e" "ef_claimed e"] by (auto simp: runs_def)

lemma once_step:
  assumes "idem_step sha hours \<sigma> \<sigma>'" and c: "covered hours \<sigma>" and o: "once_each_run \<sigma>"
  shows "once_each_run \<sigma>'"
  using assms(1)
proof cases
  case (tick d)
  then show ?thesis using o by (simp add: once_each_run_def)
next
  case (claim rq a)
  from claim show ?thesis
  proof (cases rule: claim_cases)
    case same
    then show ?thesis using o by simp
  next
    case (fresh u fp)
    have "is_next \<sigma> \<notin> ef_id ` set (is_effects \<sigma>)" using effect_ids_below [OF c] by fastforce
    then show ?thesis using o fresh(2)
      by (auto simp: once_each_run_def claim_key_def less_Suc_eq simp del: set_map split: if_splits)
  qed
next
  case (handle i f status body)
  then show ?thesis using o by (auto simp: once_each_run_def handle_request_def split: if_splits)
next
  case (finish st mk dl i)
  show ?thesis
  proof (cases rule: finish_cases [of st mk dl i \<sigma>])
    case same
    then show ?thesis using o finish by simp
  next
    case (stored f status body)
    have "ik_id r' < is_next \<sigma>" if "is_rows \<sigma>' k = Some r'" for k r'
    proof -
      have "store_result st mk dl i status body (is_clock \<sigma>) (is_rows \<sigma>) k = Some r'"
        using that by (simp add: finish stored(3))
      from store_result_from [OF this] obtain r where "is_rows \<sigma> k = Some r" "ik_id r' = ik_id r" by auto
      then show ?thesis using o unfolding once_each_run_def by metis
    qed
    then show ?thesis using o by (auto simp: finish stored(3) once_each_run_def split: if_splits)
  qed
next
  case (die i)
  then show ?thesis using o by (auto simp: once_each_run_def split: if_splits)
next
  case purge
  have "ik_id r' < is_next \<sigma>" if "is_rows \<sigma>' k = Some r'" for k r'
    using that purge_only [of hours "is_clock \<sigma>" "is_rows \<sigma>" k r'] o by (cases k) (simp add: purge once_each_run_def)
  then show ?thesis using o by (auto simp: purge once_each_run_def)
qed

lemma idem_invariants:
  assumes "idem_reach sha hours \<sigma>"
  shows "covered hours \<sigma>" and "spaced hours \<sigma>" and "once_each_run \<sigma>"
proof -
  obtain t where "(idem_step sha hours)\<^sup>*\<^sup>* (idem_start t) \<sigma>" using assms by (auto simp: idem_reach_def)
  then have "covered hours \<sigma> \<and> spaced hours \<sigma> \<and> once_each_run \<sigma>"
  proof (induction rule: rtranclp_induct)
    case base
    show ?case by (simp add: idem_start_def covered_def spaced_def once_each_run_def runs_def)
  next
    case (step \<sigma> \<sigma>')
    then show ?case using covered_step spaced_step once_step by blast
  qed
  then show "covered hours \<sigma>" "spaced hours \<sigma>" "once_each_run \<sigma>" by auto
qed


text \<open>A fortnight with the default retention of a day: the process dies before the bookkeeping, the key is
  purged, the client retries, and the write happens a second time.\<close>

lemma reach_step: "idem_reach sha hours \<sigma> \<Longrightarrow> idem_step sha hours \<sigma> \<sigma>' \<Longrightarrow> idem_reach sha hours \<sigma>'"
  unfolding idem_reach_def by (meson rtranclp.rtrancl_into_rtrancl)

lemma reach_claim: "idem_reach sha hours \<sigma> \<Longrightarrow> idem_reach sha hours (fst (claim_request sha rq \<sigma>))"
  by (erule reach_step) (rule idem_step.claim [where a = "snd (claim_request sha rq \<sigma>)"], simp)

lemma reach_handle:
  "idem_reach sha hours \<sigma> \<Longrightarrow> is_flights \<sigma> i \<noteq> None \<Longrightarrow> fl_response (the (is_flights \<sigma> i)) = None \<Longrightarrow>
   idem_reach sha hours (handle_request i status body \<sigma>)"
  by (erule reach_step, rule idem_step.handle) auto

definition sample_request :: request where
  "sample_request = \<lparr>rq_method = ''POST'', rq_user = Some 7, rq_key = ''k'', rq_path = ''/notes'',
     rq_uri = ''/notes'', rq_body = ''x''\<rparr>"

definition sample_first :: idem_state where
  "sample_first = handle_request 0 201 ''a'' (fst (claim_request id sample_request (idem_start 0)))"

definition sample_retry :: idem_state where
  "sample_retry = (let later = sample_first\<lparr>is_clock := is_clock sample_first + 25 * hour\<rparr>
     in handle_request 1 201 ''b'' (fst (claim_request id sample_request
          (later\<lparr>is_rows := PurgeExpiredIdempotencyKeys 24 (is_clock later) (is_rows later)\<rparr>))))"

lemmas idem_ops = claim_request_def claim_key_def handle_request_def fingerprintRequest_def fingerprint_input_def
  maxIdempotencyKeyLen_def success_def PurgeExpiredIdempotencyKeys_def store_result_def update_row_def

lemma sample_first_reach: "idem_reach id 24 sample_first"
  unfolding sample_first_def
proof (rule reach_handle [OF reach_claim])
  show "idem_reach id 24 (idem_start 0)" by (auto simp: idem_reach_def)
qed (simp_all add: idem_ops Let_def idem_start_def sample_request_def)

lemma sample_retry_reach: "idem_reach id 24 sample_retry"
proof -
  define later where "later = sample_first\<lparr>is_clock := is_clock sample_first + 25 * hour\<rparr>"
  have "idem_reach id 24 later"
    unfolding later_def by (rule reach_step [OF sample_first_reach idem_step.tick]) (simp add: hour_def minute_def second_def)
  note reach = reach_claim [OF reach_step [OF this idem_step.purge], of sample_request]
  show ?thesis unfolding sample_retry_def Let_def later_def [symmetric]
    by (rule reach_handle [OF reach])
      (simp_all add: later_def sample_first_def idem_ops Let_def idem_start_def sample_request_def
        hour_def minute_def second_def)
qed

lemma sample_retry_effects:
  "is_effects sample_retry =
     [] @ \<lparr>ef_id = 1, ef_user = 7, ef_key = ''k'', ef_fingerprint = fingerprint_input ''POST'' ''/notes'' ''x'',
           ef_claimed = 25 * hour, ef_status = 201, ef_body = ''b''\<rparr> #
     [] @ \<lparr>ef_id = 0, ef_user = 7, ef_key = ''k'', ef_fingerprint = fingerprint_input ''POST'' ''/notes'' ''x'',
           ef_claimed = 0, ef_status = 201, ef_body = ''a''\<rparr> # []"
  by (simp add: sample_retry_def sample_first_def Let_def idem_ops idem_start_def sample_request_def hour_def minute_def second_def)


section \<open>Replays\<close>

lemma done_as_cong: "is_effects \<sigma>' = is_effects \<sigma> \<Longrightarrow> done_as \<sigma>' = done_as \<sigma>"
  by (intro ext) (simp add: done_as_def)

lemma done_as_handle: "done_as \<sigma> u k fp s b \<Longrightarrow> done_as (handle_request i status body \<sigma>) u k fp s b"
  unfolding done_as_def handle_request_def by (auto split: option.split)

lemma purge_same:
  "is_rows \<sigma>' = PurgeExpiredIdempotencyKeys hours now (is_rows \<sigma>) \<Longrightarrow> is_rows \<sigma>' k = Some r \<Longrightarrow> is_rows \<sigma> k = Some r"
  using purge_only by metis

lemma handle_simps [simp]:
  "is_rows (handle_request i status body \<sigma>) = is_rows \<sigma>"
  "is_next (handle_request i status body \<sigma>) = is_next \<sigma>"
  "is_clock (handle_request i status body \<sigma>) = is_clock \<sigma>"
  by (simp_all add: handle_request_def split: option.split)

lemma rows_true_step:
  assumes "idem_step sha hours \<sigma> \<sigma>'" and r: "rows_true \<sigma>" and f: "flights_true \<sigma>" and own: "flights_own \<sigma>"
  shows "rows_true \<sigma>'"
  using assms(1)
proof cases
  case (claim rq a)
  from claim show ?thesis
  proof (cases rule: claim_cases)
    case same
    then show ?thesis using r by simp
  next
    case (fresh u fp)
    then show ?thesis using r by (auto simp: rows_true_def claim_key_def done_as_def)
  qed
next
  case (handle i f status body)
  then show ?thesis using r done_as_handle unfolding rows_true_def by simp
next
  case (finish st mk dl i)
  show ?thesis
  proof (cases rule: finish_cases [of st mk dl i \<sigma>])
    case same
    then show ?thesis using r finish by simp
  next
    case (stored g status body)
    have same: "done_as \<sigma>' = done_as \<sigma>" by (rule done_as_cong) (simp add: finish stored(3))
    show ?thesis unfolding rows_true_def same
    proof (intro allI impI)
      fix u k q assume q: "is_rows \<sigma>' (u, k) = Some q" "ik_status q \<noteq> 0"
      then have "store_result st mk dl i status body (is_clock \<sigma>) (is_rows \<sigma>) (u, k) = Some q" by (simp add: finish stored(3))
      from store_result_from [OF this] obtain p where p: "is_rows \<sigma> (u, k) = Some p" "ik_fingerprint q = ik_fingerprint p"
        "ik_status q = ik_status p \<and> (ik_status p \<noteq> 0 \<longrightarrow> ik_body q = ik_body p) \<or>
         ik_id p = i \<and> success status \<and> ik_status q = status \<and> ik_body q = body" by auto
      from p(3) show "done_as \<sigma> u k (ik_fingerprint q) (ik_status q) (ik_body q)"
      proof
        assume "ik_status q = ik_status p \<and> (ik_status p \<noteq> 0 \<longrightarrow> ik_body q = ik_body p)"
        then show ?thesis using r p q unfolding rows_true_def by metis
      next
        assume e: "ik_id p = i \<and> success status \<and> ik_status q = status \<and> ik_body q = body"
        then have "u = fl_user g" "k = fl_key g" "ik_fingerprint p = fl_fingerprint g"
          using own stored(1) p(1) unfolding flights_own_def by blast+
        then show ?thesis using f stored(1,2) e p(2) unfolding flights_true_def by metis
      qed
    qed
  qed
next
  case purge
  then show ?thesis using r purge_same [of \<sigma>' hours _ \<sigma>] by (auto simp: rows_true_def done_as_def)
qed (use r in \<open>simp_all add: rows_true_def done_as_def\<close>)

lemma flights_true_step:
  assumes "idem_step sha hours \<sigma> \<sigma>'" and f: "flights_true \<sigma>"
  shows "flights_true \<sigma>'"
  using assms(1)
proof cases
  case (claim rq a)
  from claim show ?thesis
  proof (cases rule: claim_cases)
    case same
    then show ?thesis using f by simp
  next
    case (fresh u fp)
    have "done_as \<sigma>' = done_as \<sigma>" by (rule done_as_cong) (simp add: fresh(2) claim_key_def)
    then show ?thesis using f by (simp add: flights_true_def fresh(2) claim_key_def)
  qed
next
  case (handle i g status body)
  show ?thesis unfolding flights_true_def
  proof (intro allI impI)
    fix j h s b assume h: "is_flights \<sigma>' j = Some h" "fl_response h = Some (s, b)" "success s"
    show "done_as \<sigma>' (fl_user h) (fl_key h) (fl_fingerprint h) s b"
    proof (cases "j = i")
      case True
      then show ?thesis using h handle by (auto simp: done_as_def handle_request_def)
    next
      case False
      then have "is_flights \<sigma> j = Some h" using h(1) handle by (simp add: handle_request_def)
      then show ?thesis using f h done_as_handle handle(1) unfolding flights_true_def by metis
    qed
  qed
next
  case (finish st mk dl i)
  show ?thesis
  proof (cases rule: finish_cases [of st mk dl i \<sigma>])
    case (stored g status body)
    have "done_as \<sigma>' = done_as \<sigma>" by (rule done_as_cong) (simp add: finish stored(3))
    then show ?thesis using f by (simp add: flights_true_def finish stored(3))
  qed (use f finish in simp)
qed (use f in \<open>simp_all add: flights_true_def done_as_def\<close>)

lemma flights_own_step:
  assumes "idem_step sha hours \<sigma> \<sigma>'" and own: "flights_own \<sigma>" and c: "covered hours \<sigma>" and o: "once_each_run \<sigma>"
  shows "flights_own \<sigma>'"
  using assms(1)
proof cases
  case (claim rq a)
  from claim show ?thesis
  proof (cases rule: claim_cases)
    case same
    then show ?thesis using own by simp
  next
    case (fresh u fp)
    have "ik_id r \<noteq> is_next \<sigma>" if "is_rows \<sigma> k = Some r" for k r
      using o that unfolding once_each_run_def by fastforce
    then show ?thesis using own next_free [OF c] by (auto simp: flights_own_def fresh(2) claim_key_def)
  qed
next
  case (handle i f status body)
  then show ?thesis using own by (auto simp: flights_own_def handle_request_def)
next
  case (finish st mk dl i)
  show ?thesis
  proof (cases rule: finish_cases [of st mk dl i \<sigma>])
    case (stored g status body)
    show ?thesis unfolding flights_own_def
    proof (intro allI impI)
      fix j h u k q assume a: "is_flights \<sigma>' j = Some h" "is_rows \<sigma>' (u, k) = Some q" "ik_id q = j"
      then have "store_result st mk dl i status body (is_clock \<sigma>) (is_rows \<sigma>) (u, k) = Some q" by (simp add: finish stored(3))
      from store_result_from [OF this] obtain p
        where p: "is_rows \<sigma> (u, k) = Some p" "ik_id q = ik_id p" "ik_fingerprint q = ik_fingerprint p" by auto
      have "is_flights \<sigma> j = Some h" using a(1) by (simp add: finish stored(3) split: if_splits)
      then show "u = fl_user h \<and> k = fl_key h \<and> ik_fingerprint q = fl_fingerprint h"
        using own p a(3) unfolding flights_own_def by metis
    qed
  qed (use own finish in simp)
next
  case purge
  have "is_rows \<sigma> k = Some r" if "is_rows \<sigma>' k = Some r" for k r
    using purge_only that unfolding purge by simp
  moreover have "is_flights \<sigma>' = is_flights \<sigma>" by (simp add: purge)
  ultimately show ?thesis using own unfolding flights_own_def by metis
qed (use own in \<open>simp_all add: flights_own_def\<close>)

lemma replay_invariants:
  assumes "idem_reach sha hours \<sigma>"
  shows "rows_true \<sigma>"
proof -
  obtain t where "(idem_step sha hours)\<^sup>*\<^sup>* (idem_start t) \<sigma>" using assms by (auto simp: idem_reach_def)
  then have "rows_true \<sigma> \<and> flights_true \<sigma> \<and> flights_own \<sigma>"
  proof (induction rule: rtranclp_induct)
    case base
    show ?case by (simp add: idem_start_def rows_true_def flights_true_def flights_own_def)
  next
    case (step \<sigma> \<sigma>')
    then have "idem_reach sha hours \<sigma>" by (auto simp: idem_reach_def)
    note inv = idem_invariants [OF this]
    show ?case using step rows_true_step flights_true_step flights_own_step [OF step(2) _ inv(1,3)] by blast
  qed
  then show ?thesis by simp
qed

lemma split_at_first:
  "x \<notin> set as \<Longrightarrow> x \<notin> set bs \<Longrightarrow> as @ x # cs = bs @ x # ds \<longleftrightarrow> as = bs \<and> cs = ds"
proof (induction as arbitrary: bs)
  case Nil
  then show ?case by (cases bs) auto
next
  case (Cons a as)
  then show ?case by (cases bs) auto
qed

lemma fingerprint_input_separates:
  assumes "CHR 0x0A \<notin> set verb \<union> set verb' \<union> set path \<union> set path'"
    and "fingerprint_input verb path body = fingerprint_input verb' path' body'"
  shows "verb = verb' \<and> path = path' \<and> body = body'"
proof -
  have "verb = verb' \<and> path @ CHR 0x0A # body = path' @ CHR 0x0A # body'"
    using assms split_at_first [of "CHR 0x0A" verb verb' "path @ CHR 0x0A # body" "path' @ CHR 0x0A # body'"]
    by (simp add: fingerprint_input_def)
  then show ?thesis using assms(1) split_at_first [of "CHR 0x0A" path path' body body'] by simp
qed


definition sample_done :: idem_state where
  "sample_done = finish_request True True True 0 sample_first"

lemma sample_done_reach: "idem_reach id 24 sample_done"
  unfolding sample_done_def by (rule reach_step [OF sample_first_reach idem_step.finish])


end
