(* ===== verification/Store.thy ===== *)
theory Store imports Prelude "HOL-Library.List_Lexorder" "HOL-Library.Char_ord" begin

text \<open>
  The tables the cascades and the merge work on, as far as their SQL goes: a row is its columns (an absent
  column reads as NULL), a table a list of rows, and a statement selects rows by a predicate and deletes or
  rewrites them. A column that holds a JSON array of texts is kept as that list. Cells compare as SQLite orders
  its storage classes: NULL, then numbers, then texts.
\<close>

section \<open>Cells\<close>

datatype cell = Null | Num int | Txt string | Ids "string list"

instantiation cell :: linorder
begin

fun less_cell :: "cell \<Rightarrow> cell \<Rightarrow> bool" where
  "less_cell x Null = False"
| "less_cell Null (Num n) = True"
| "less_cell (Num m) (Num n) = (m < n)"
| "less_cell (Txt s) (Num n) = False"
| "less_cell (Txt s) (Txt t) = (s < t)"
| "less_cell Null (Txt t) = True"
| "less_cell (Num m) (Txt t) = True"
| "less_cell (Ids xs) (Ids ys) = (xs < ys)"
| "less_cell (Ids xs) (Num n) = False"
| "less_cell (Ids xs) (Txt t) = False"
| "less_cell Null (Ids ys) = True"
| "less_cell (Num m) (Ids ys) = True"
| "less_cell (Txt s) (Ids ys) = True"

definition less_eq_cell :: "cell \<Rightarrow> cell \<Rightarrow> bool" where
  "less_eq_cell x y = (x < y \<or> x = y)"

instance
proof
  fix x y z :: cell
  show "(x < y) = (x \<le> y \<and> \<not> y \<le> x)"
    by (cases x; cases y) (auto simp: less_eq_cell_def)
  show "x \<le> x" by (simp add: less_eq_cell_def)
  show "x \<le> y \<Longrightarrow> y \<le> z \<Longrightarrow> x \<le> z"
    by (cases x; cases y; cases z) (auto simp: less_eq_cell_def)
  show "x \<le> y \<Longrightarrow> y \<le> x \<Longrightarrow> x = y"
    by (cases x; cases y) (auto simp: less_eq_cell_def)
  show "x \<le> y \<or> y \<le> x"
    by (cases x; cases y) (auto simp: less_eq_cell_def)
qed

end

section \<open>Statements\<close>

type_synonym row = "string \<Rightarrow> cell"
type_synonym tables = "string \<Rightarrow> row list"

definition live :: "row \<Rightarrow> bool" where
  "live r \<longleftrightarrow> r ''deleted_at'' = Null"

definition sql_delete :: "string \<Rightarrow> (row \<Rightarrow> bool) \<Rightarrow> tables \<Rightarrow> tables" where
  "sql_delete t p db = db(t := filter (\<lambda>r. \<not> p r) (db t))"

definition sql_update :: "string \<Rightarrow> (row \<Rightarrow> bool) \<Rightarrow> (row \<Rightarrow> row) \<Rightarrow> tables \<Rightarrow> tables" where
  "sql_update t p f db = db(t := map (\<lambda>r. if p r then f r else r) (db t))"

definition sql_insert :: "string \<Rightarrow> row \<Rightarrow> tables \<Rightarrow> tables" where
  "sql_insert t r db = db(t := db t @ [r])"

definition has_row :: "string \<Rightarrow> (row \<Rightarrow> bool) \<Rightarrow> tables \<Rightarrow> bool" where
  "has_row t p db \<longleftrightarrow> list_ex p (db t)"

text \<open>A column of the rows a subquery selects.\<close>

definition in_select :: "cell \<Rightarrow> string \<Rightarrow> string \<Rightarrow> (row \<Rightarrow> bool) \<Rightarrow> tables \<Rightarrow> bool" where
  "in_select x c t p db \<longleftrightarrow> list_ex (\<lambda>r. p r \<and> r c = x) (db t)"

lemma in_select_iff: "in_select x c t p db \<longleftrightarrow> (\<exists>r\<in>set (db t). p r \<and> r c = x)"
  by (simp add: in_select_def list_ex_iff)

lemma sql_same [simp]:
  "sql_delete t p db t = filter (\<lambda>r. \<not> p r) (db t)"
  "sql_update t p f db t = map (\<lambda>r. if p r then f r else r) (db t)"
  "sql_insert t r db t = db t @ [r]"
  by (simp_all add: sql_delete_def sql_update_def sql_insert_def)

lemma sql_other [simp]:
  "u \<noteq> t \<Longrightarrow> sql_delete t p db u = db u"
  "u \<noteq> t \<Longrightarrow> sql_update t p f db u = db u"
  "u \<noteq> t \<Longrightarrow> sql_insert t r db u = db u"
  by (simp_all add: sql_delete_def sql_update_def sql_insert_def)

text \<open>The rows are told apart by a key that no statement changes.\<close>

definition unique_on :: "(row \<Rightarrow> 'k) \<Rightarrow> row list \<Rightarrow> bool" where
  "unique_on key rs \<longleftrightarrow> distinct (map key rs)"

lemma unique_on_filter: "unique_on key rs \<Longrightarrow> unique_on key (filter p rs)"
  by (simp add: unique_on_def distinct_map_filter)

lemma unique_onD:
  "unique_on key rs \<Longrightarrow> r \<in> set rs \<Longrightarrow> s \<in> set rs \<Longrightarrow> key r = key s \<Longrightarrow> r = s"
  unfolding unique_on_def by (auto simp: distinct_map dest: inj_onD)

lemma unique_on_update:
  "(\<And>r. key (f r) = key r) \<Longrightarrow> unique_on key (map (\<lambda>r. if p r then f r else r) rs) = unique_on key rs"
  by (simp add: unique_on_def o_def if_distrib cong: if_cong)

end
