(* ===== verification/Cascade.thy ===== *)
theory Cascade imports Store begin

text \<open>
  Deleting a contact (\<open>backend/services/contact_delete.go\<close>): the registry of every table that refers to a
  contact, the steps it declares, and the delete that walks it. The properties say that nothing live still
  refers to the deleted contact and that nothing else was touched.
\<close>

section \<open>The registry\<close>

datatype cascade_mode = CascadeSoft | CascadeHard | CascadeMutate

record cascade_target =
  ct_id :: int
  ct_uid :: string
  ct_user :: int
  ct_batch :: string

record cascade_step =
  cs_table :: string
  cs_mode :: cascade_mode
  cs_match :: "cascade_target \<Rightarrow> tables \<Rightarrow> row \<Rightarrow> bool"
  cs_apply :: "(cascade_target \<Rightarrow> int \<Rightarrow> int \<Rightarrow> tables \<Rightarrow> tables) option"
  cs_after :: "(cascade_target \<Rightarrow> int \<Rightarrow> tables \<Rightarrow> tables) option"

text \<open>The predicates of the \<open>WHERE\<close> clauses.\<close>

definition owned :: "string \<Rightarrow> cascade_target \<Rightarrow> row \<Rightarrow> bool" where
  "owned col t r \<longleftrightarrow> r col = Txt (ct_uid t) \<and> r ''user_id'' = Num (ct_user t)"

definition byID :: "cascade_target \<Rightarrow> tables \<Rightarrow> row \<Rightarrow> bool" where
  "byID t db r \<longleftrightarrow> r ''contact_id'' = Num (ct_id t) \<and> r ''user_id'' = Num (ct_user t)"

definition byEntity :: "cascade_target \<Rightarrow> tables \<Rightarrow> row \<Rightarrow> bool" where
  "byEntity t db r \<longleftrightarrow> owned ''entity_id'' t r"

definition byMemberUID :: "cascade_target \<Rightarrow> tables \<Rightarrow> row \<Rightarrow> bool" where
  "byMemberUID t db r \<longleftrightarrow> owned ''member_vcard_uid'' t r"

definition byContactUID :: "cascade_target \<Rightarrow> tables \<Rightarrow> row \<Rightarrow> bool" where
  "byContactUID t db r \<longleftrightarrow> owned ''contact_vcard_uid'' t r"

definition of_reminder :: "cascade_target \<Rightarrow> tables \<Rightarrow> row \<Rightarrow> bool" where
  "of_reminder t db r \<longleftrightarrow> in_select (r ''reminder_id'') ''id'' ''reminders'' (byID t db) db"

definition of_note :: "cascade_target \<Rightarrow> tables \<Rightarrow> row \<Rightarrow> bool" where
  "of_note t db r \<longleftrightarrow> in_select (r ''note_id'') ''id'' ''notes'' (byID t db) db"

definition of_activity :: "cascade_target \<Rightarrow> tables \<Rightarrow> row \<Rightarrow> bool" where
  "of_activity t db r \<longleftrightarrow> r ''contact_id'' = Num (ct_id t) \<and>
     in_select (r ''activity_id'') ''id'' ''activities'' (\<lambda>a. a ''user_id'' = Num (ct_user t)) db"

definition of_edge :: "cascade_target \<Rightarrow> tables \<Rightarrow> row \<Rightarrow> bool" where
  "of_edge t db r \<longleftrightarrow> (r ''source_id'' = Txt (ct_uid t) \<or> r ''target_id'' = Txt (ct_uid t)) \<and>
     r ''user_id'' = Num (ct_user t)"

definition of_pair :: "cascade_target \<Rightarrow> tables \<Rightarrow> row \<Rightarrow> bool" where
  "of_pair t db r \<longleftrightarrow> (r ''uid_low'' = Txt (ct_uid t) \<or> r ''uid_high'' = Txt (ct_uid t)) \<and>
     r ''user_id'' = Num (ct_user t)"

definition of_import :: "cascade_target \<Rightarrow> tables \<Rightarrow> row \<Rightarrow> bool" where
  "of_import t db r \<longleftrightarrow> r ''entity_kind'' = Txt ''contact'' \<and> owned ''entity_uid'' t r"

definition no_match :: "cascade_target \<Rightarrow> tables \<Rightarrow> row \<Rightarrow> bool" where
  "no_match t db r \<longleftrightarrow> False"

text \<open>The statements of the steps that do more than delete.\<close>

definition touch_notes :: "cascade_target \<Rightarrow> int \<Rightarrow> tables \<Rightarrow> tables" where
  "touch_notes t now = sql_update ''notes''
     (\<lambda>r. r ''contact_id'' = Num (ct_id t) \<and> r ''user_id'' = Num (ct_user t) \<and> \<not> live r)
     (\<lambda>r. r(''updated_at'' := Num now))"

definition clear_self :: "cascade_target \<Rightarrow> int \<Rightarrow> int \<Rightarrow> tables \<Rightarrow> tables" where
  "clear_self t now g = sql_update ''users''
     (\<lambda>r. r ''id'' = Num (ct_user t) \<and> r ''self_contact_vcard_uid'' = Txt (ct_uid t) \<and> live r)
     (\<lambda>r. r(''self_contact_vcard_uid'' := Null, ''self_contact_ambient_set'' := Num 0, ''updated_at'' := Num g))"

definition revoke_feeds :: "cascade_target \<Rightarrow> int \<Rightarrow> int \<Rightarrow> tables \<Rightarrow> tables" where
  "revoke_feeds t now g = sql_update ''feeds''
     (\<lambda>r. r ''user_id'' = Num (ct_user t) \<and> r ''kind'' = Txt ''contact'' \<and> r ''entity_id'' = Txt (ct_uid t) \<and>
          r ''revoked_at'' = Null)
     (\<lambda>r. r(''revoked_at'' := Num now, ''updated_at'' := Num g))"

definition cell_succ :: "cell \<Rightarrow> cell" where
  "cell_succ c = (case c of Num n \<Rightarrow> Num (n + 1) | _ \<Rightarrow> c)"

definition ShareGrantLiveStatuses :: "cell list" where
  "ShareGrantLiveStatuses = [Txt ''pending'', Txt ''active'', Txt ''blocked'']"

definition RevokeShareGrantsForEntity :: "string \<Rightarrow> cascade_target \<Rightarrow> int \<Rightarrow> tables \<Rightarrow> tables" where
  "RevokeShareGrantsForEntity kind t now = sql_update ''share_grants''
     (\<lambda>r. r ''from_user_id'' = Num (ct_user t) \<and> r ''entity_type'' = Txt kind \<and> r ''entity_id'' = Txt (ct_uid t) \<and>
          r ''status'' \<in> set ShareGrantLiveStatuses)
     (\<lambda>r. r(''status'' := Txt ''revoked'', ''revoked_reason'' := Txt ''entity_deleted'', ''revoked_at'' := Num now,
            ''updated_at'' := Num now, ''revision'' := cell_succ (r ''revision'')))"

definition cell_text :: "cell \<Rightarrow> string" where
  "cell_text c = (case c of Txt s \<Rightarrow> s | Num n \<Rightarrow> show_int n | _ \<Rightarrow> [])"

definition stamp_revision :: "row \<Rightarrow> row" where
  "stamp_revision r = r(''revision'' := cell_succ (r ''revision''),
     ''etag'' := Txt (''e-'' @ cell_text (r ''id'') @ ''-'' @ cell_text (cell_succ (r ''revision''))))"

definition trash_links :: "cascade_target \<Rightarrow> int \<Rightarrow> int \<Rightarrow> tables \<Rightarrow> tables" where
  "trash_links t now g = sql_update ''contact_entity_links'' (\<lambda>r. owned ''contact_vcard_uid'' t r \<and> live r)
     (\<lambda>r. (stamp_revision r)(''deleted_at'' := Num now, ''updated_at'' := Num now,
            ''deletion_batch_id'' := Txt (ct_batch t)))"

definition keep_all :: "cascade_target \<Rightarrow> int \<Rightarrow> int \<Rightarrow> tables \<Rightarrow> tables" where
  "keep_all t now g db = db"

definition revoke_contact_grants :: "cascade_target \<Rightarrow> int \<Rightarrow> int \<Rightarrow> tables \<Rightarrow> tables" where
  "revoke_contact_grants t now g = RevokeShareGrantsForEntity ''contact'' t now"

definition soft :: "string \<Rightarrow> (cascade_target \<Rightarrow> tables \<Rightarrow> row \<Rightarrow> bool) \<Rightarrow> cascade_step" where
  "soft tbl p = \<lparr>cs_table = tbl, cs_mode = CascadeSoft, cs_match = p, cs_apply = None, cs_after = None\<rparr>"

definition hard :: "string \<Rightarrow> (cascade_target \<Rightarrow> tables \<Rightarrow> row \<Rightarrow> bool) \<Rightarrow> cascade_step" where
  "hard tbl p = \<lparr>cs_table = tbl, cs_mode = CascadeHard, cs_match = p, cs_apply = None, cs_after = None\<rparr>"

definition mutate :: "string \<Rightarrow> (cascade_target \<Rightarrow> int \<Rightarrow> int \<Rightarrow> tables \<Rightarrow> tables) \<Rightarrow> cascade_step" where
  "mutate tbl f = \<lparr>cs_table = tbl, cs_mode = CascadeMutate, cs_match = no_match, cs_apply = Some f, cs_after = None\<rparr>"

definition ContactCascadeRegistry :: "cascade_step list" where
  "ContactCascadeRegistry =
    [hard ''notification_deliveries'' of_reminder,
     soft ''reminders'' byID,
     soft ''reminder_completions'' byID,
     soft ''note_images'' of_note,
     (soft ''notes'' byID)\<lparr>cs_after := Some touch_notes\<rparr>,
     hard ''activity_contacts'' of_activity,
     hard ''relationship_edges'' of_edge,
     hard ''household_members'' byMemberUID,
     hard ''circle_members'' byMemberUID,
     hard ''contact_tags'' byContactUID,
     soft ''life_events'' byEntity,
     hard ''life_event_suggestion_resolutions'' byEntity,
     soft ''preferences'' byEntity,
     hard ''field_values'' byEntity,
     hard ''reach_out_suggestions'' byContactUID,
     soft ''conversation_agenda'' byEntity,
     soft ''gifts'' byEntity,
     soft ''cadence_policies'' byEntity,
     soft ''data_decay_policies'' byEntity,
     soft ''occasion_obligations'' byEntity,
     hard ''occasion_event_attendees'' byEntity,
     mutate ''contact_sync_links'' keep_all,
     hard ''contact_sync_conflicts'' byID,
     hard ''external_identities'' byEntity,
     hard ''external_activities'' byEntity,
     soft ''contact_images'' byContactUID,
     soft ''attachments'' byContactUID,
     mutate ''users'' clear_self,
     mutate ''feeds'' revoke_feeds,
     mutate ''share_grants'' revoke_contact_grants,
     hard ''dismissed_duplicate_pairs'' of_pair,
     hard ''import_source_links'' of_import,
     (soft ''contact_entity_links'' byContactUID)\<lparr>cs_apply := Some trash_links\<rparr>,
     hard ''contact_field_overrides'' byContactUID]"

section \<open>The delete\<close>

text \<open>\<open>g\<close> is the time GORM stamps its own soft deletes with.\<close>

definition deleteCascadeRows :: "cascade_step \<Rightarrow> cascade_target \<Rightarrow> int \<Rightarrow> tables \<Rightarrow> tables" where
  "deleteCascadeRows st t g db =
     (if cs_mode st = CascadeSoft
      then sql_update (cs_table st) (\<lambda>r. cs_match st t db r \<and> live r) (\<lambda>r. r(''deleted_at'' := Num g)) db
      else sql_delete (cs_table st) (cs_match st t db) db)"

definition runCascadeStep :: "cascade_step \<Rightarrow> cascade_target \<Rightarrow> int \<Rightarrow> int \<Rightarrow> tables \<Rightarrow> tables" where
  "runCascadeStep st t now g db =
     (let db' = (case cs_apply st of Some f \<Rightarrow> f t now g db | None \<Rightarrow> deleteCascadeRows st t g db)
      in case cs_after st of Some f \<Rightarrow> f t now db' | None \<Rightarrow> db')"

definition DeleteContactAssociations :: "cascade_target \<Rightarrow> int \<Rightarrow> int \<Rightarrow> tables \<Rightarrow> tables" where
  "DeleteContactAssociations t now g db = fold (\<lambda>st. runCascadeStep st t now g) ContactCascadeRegistry db"

text \<open>The contact row: GORM's soft delete and the \<open>AfterDelete\<close> hook.\<close>

definition delete_contact_row :: "cascade_target \<Rightarrow> int \<Rightarrow> tables \<Rightarrow> tables" where
  "delete_contact_row t g = sql_update ''contacts'' (\<lambda>r. r ''id'' = Num (ct_id t) \<and> live r)
     (\<lambda>r. r(''deleted_at'' := Num g, ''updated_at'' := Num g))"

definition DeleteContactInTx :: "cascade_target \<Rightarrow> int \<Rightarrow> int \<Rightarrow> tables \<Rightarrow> tables" where
  "DeleteContactInTx t now g db = delete_contact_row t g (DeleteContactAssociations t now g db)"

section \<open>Each step works on its own table\<close>

lemmas cascade_steps = ContactCascadeRegistry_def soft_def hard_def mutate_def

lemmas step_defs = runCascadeStep_def deleteCascadeRows_def touch_notes_def clear_self_def revoke_feeds_def
  revoke_contact_grants_def RevokeShareGrantsForEntity_def trash_links_def keep_all_def Let_def

lemmas match_defs = owned_def byID_def byEntity_def byMemberUID_def byContactUID_def of_edge_def of_pair_def
  of_import_def no_match_def

definition special_steps :: "cascade_step list" where
  "special_steps =
     [(soft ''notes'' byID)\<lparr>cs_after := Some touch_notes\<rparr>,
      (soft ''contact_entity_links'' byContactUID)\<lparr>cs_apply := Some trash_links\<rparr>,
      mutate ''users'' clear_self, mutate ''feeds'' revoke_feeds,
      mutate ''share_grants'' revoke_contact_grants, mutate ''contact_sync_links'' keep_all]"

definition plain_step :: "cascade_step \<Rightarrow> bool" where
  "plain_step st \<longleftrightarrow> cs_mode st \<noteq> CascadeMutate \<and> cs_apply st = None \<and> cs_after st = None"

lemma registry_kinds: "list_all (\<lambda>st. plain_step st \<or> st \<in> set special_steps) ContactCascadeRegistry"
  by (simp add: cascade_steps special_steps_def plain_step_def)

lemma registry_cases:
  assumes "st \<in> set ContactCascadeRegistry"
  obtains (plain) "plain_step st" | (special) "st \<in> set special_steps"
  using assms registry_kinds by (auto simp: list_all_iff)

lemma plain_run: "plain_step st \<Longrightarrow> runCascadeStep st t now g = deleteCascadeRows st t g"
  by (intro ext) (simp add: plain_step_def runCascadeStep_def Let_def)

lemma step_other:
  assumes "st \<in> set ContactCascadeRegistry" and "u \<noteq> cs_table st"
  shows "runCascadeStep st t now g db u = db u"
  using assms(1)
proof (cases rule: registry_cases)
  case plain
  then show ?thesis using assms(2) by (simp add: plain_run deleteCascadeRows_def)
next
  case special
  then show ?thesis using assms(2) by (auto simp: special_steps_def step_defs soft_def mutate_def)
qed

text \<open>The tables the subquery of a step reads.\<close>

definition reads :: "cascade_step \<Rightarrow> string list" where
  "reads st = (if cs_table st = ''notification_deliveries'' then [''reminders'']
     else if cs_table st = ''note_images'' then [''notes'']
     else if cs_table st = ''activity_contacts'' then [''activities''] else [])"

lemma registry_matches:
  "list_all (\<lambda>st. (cs_match st, reads st) \<in>
     {(of_reminder, [''reminders'']), (of_note, [''notes'']), (of_activity, [''activities'']), (byID, []), (byEntity, []),
      (byMemberUID, []), (byContactUID, []), (of_edge, []), (of_pair, []), (of_import, []), (no_match, [])})
     ContactCascadeRegistry"
  by (simp add: cascade_steps reads_def)

lemma match_cases:
  assumes "st \<in> set ContactCascadeRegistry"
  shows "(cs_match st, reads st) \<in>
     {(of_reminder, [''reminders'']), (of_note, [''notes'']), (of_activity, [''activities'']), (byID, []), (byEntity, []),
      (byMemberUID, []), (byContactUID, []), (of_edge, []), (of_pair, []), (of_import, []), (no_match, [])}"
  using assms registry_matches unfolding list_all_iff by blast

lemma match_reads:
  assumes "st \<in> set ContactCascadeRegistry" and "\<And>u. u \<in> set (reads st) \<Longrightarrow> db u = db' u"
  shows "cs_match st t db = cs_match st t db'"
proof -
  have key: "byID t db = byID t db'" "byEntity t db = byEntity t db'" "byMemberUID t db = byMemberUID t db'"
    "byContactUID t db = byContactUID t db'" "of_edge t db = of_edge t db'" "of_pair t db = of_pair t db'"
    "of_import t db = of_import t db'" "no_match t db = no_match t db'"
    by (simp_all add: match_defs fun_eq_iff)
  have sub: "db ''reminders'' = db' ''reminders'' \<Longrightarrow> of_reminder t db = of_reminder t db'"
    "db ''notes'' = db' ''notes'' \<Longrightarrow> of_note t db = of_note t db'"
    "db ''activities'' = db' ''activities'' \<Longrightarrow> of_activity t db = of_activity t db'"
    by (simp_all add: of_reminder_def of_note_def of_activity_def in_select_def byID_def fun_eq_iff)
  from match_cases [OF assms(1)] show ?thesis
    unfolding insert_iff empty_iff prod.inject
  proof (elim disjE conjE)
    assume "cs_match st = of_reminder" "reads st = [''reminders'']"
    then show ?thesis using sub(1) assms(2) by simp
  next
    assume "cs_match st = of_note" "reads st = [''notes'']"
    then show ?thesis using sub(2) assms(2) by simp
  next
    assume "cs_match st = of_activity" "reads st = [''activities'']"
    then show ?thesis using sub(3) assms(2) by simp
  qed (simp_all add: key)
qed

lemma step_local:
  assumes "st \<in> set ContactCascadeRegistry" and "\<And>u. u \<in> set (cs_table st # reads st) \<Longrightarrow> db u = db' u"
  shows "runCascadeStep st t now g db (cs_table st) = runCascadeStep st t now g db' (cs_table st)"
proof -
  have m: "cs_match st t db = cs_match st t db'" by (rule match_reads [OF assms(1)]) (simp add: assms(2))
  have d: "db (cs_table st) = db' (cs_table st)" by (simp add: assms(2))
  from assms(1) show ?thesis
  proof (cases rule: registry_cases)
    case plain
    then show ?thesis by (simp add: plain_run deleteCascadeRows_def m d)
  next
    case special
    then show ?thesis using m d by (auto simp: special_steps_def step_defs soft_def mutate_def)
  qed
qed

text \<open>A step reads its tables before another step of the walk changes them.\<close>

fun reads_ok :: "string list \<Rightarrow> cascade_step list \<Rightarrow> bool" where
  "reads_ok seen [] = True"
| "reads_ok seen (st # sts) =
     (list_all (\<lambda>u. u \<notin> set seen) (cs_table st # reads st) \<and> reads_ok (cs_table st # seen) sts)"

lemma registry_reads_ok: "reads_ok [] ContactCascadeRegistry"
  by (simp add: cascade_steps reads_def)

lemma registry_distinct: "distinct (map cs_table ContactCascadeRegistry)"
  by (simp add: cascade_steps)

text \<open>A walk over the registry whose steps each work on their own table.\<close>

locale registry_walk =
  fixes step :: "cascade_step \<Rightarrow> tables \<Rightarrow> tables"
  assumes other: "st \<in> set ContactCascadeRegistry \<Longrightarrow> u \<noteq> cs_table st \<Longrightarrow> step st db u = db u"
    and local: "st \<in> set ContactCascadeRegistry \<Longrightarrow> (\<And>u. u \<in> set (cs_table st # reads st) \<Longrightarrow> db u = db' u) \<Longrightarrow>
      step st db (cs_table st) = step st db' (cs_table st)"
begin

lemma walk_other:
  "set sts \<subseteq> set ContactCascadeRegistry \<Longrightarrow> u \<notin> cs_table ` set sts \<Longrightarrow> fold step sts db u = db u"
  by (induction sts arbitrary: db) (simp_all add: other)

lemma walk_table:
  assumes "set sts \<subseteq> set ContactCascadeRegistry" and "distinct (map cs_table sts)"
    and "reads_ok seen sts" and "\<And>u. u \<notin> set seen \<Longrightarrow> db u = db0 u" and "st \<in> set sts"
  shows "fold step sts db (cs_table st) = step st db0 (cs_table st)"
  using assms
proof (induction sts arbitrary: seen db)
  case (Cons a sts)
  let ?db = "step a db"
  show ?case
  proof (cases "st = a")
    case True
    have "cs_table a \<notin> cs_table ` set sts" using Cons.prems(2) by auto
    then have "fold step sts ?db (cs_table a) = ?db (cs_table a)"
      using Cons.prems(1) by (intro walk_other) auto
    moreover have "?db (cs_table a) = step a db0 (cs_table a)"
      using Cons.prems(1,3) by (intro local Cons.prems(4)) (auto simp: list_all_iff)
    ultimately show ?thesis using True by simp
  next
    case False
    have "?db u = db0 u" if "u \<notin> set (cs_table a # seen)" for u
      using that Cons.prems(1,4) by (simp add: other)
    then show ?thesis using False Cons.prems Cons.IH [of "cs_table a # seen" ?db] by simp
  qed
qed simp

lemma table: "st \<in> set ContactCascadeRegistry \<Longrightarrow> fold step ContactCascadeRegistry db (cs_table st) = step st db (cs_table st)"
  by (rule walk_table [where seen = "[]"]) (simp_all add: registry_distinct registry_reads_ok)

lemma untouched: "u \<notin> cs_table ` set ContactCascadeRegistry \<Longrightarrow> fold step ContactCascadeRegistry db u = db u"
  by (rule walk_other) simp_all

end

interpretation cascade: registry_walk "\<lambda>st. runCascadeStep st t now g" for t now g
  by unfold_locales (rule step_other step_local, assumption+)+

lemma cascade_table:
  "st \<in> set ContactCascadeRegistry \<Longrightarrow>
   DeleteContactAssociations t now g db (cs_table st) = runCascadeStep st t now g db (cs_table st)"
  unfolding DeleteContactAssociations_def by (rule cascade.table)

lemma cascade_other:
  "u \<notin> cs_table ` set ContactCascadeRegistry \<Longrightarrow> DeleteContactAssociations t now g db u = db u"
  unfolding DeleteContactAssociations_def by (rule cascade.untouched)

lemma contacts_outside: "''contacts'' \<notin> cs_table ` set ContactCascadeRegistry"
  by (simp add: cascade_steps)

lemma delete_other:
  "u \<noteq> ''contacts'' \<Longrightarrow> DeleteContactInTx t now g db u = DeleteContactAssociations t now g db u"
  by (simp add: DeleteContactInTx_def delete_contact_row_def)

lemma delete_table:
  assumes "st \<in> set ContactCascadeRegistry"
  shows "DeleteContactInTx t now g db (cs_table st) = runCascadeStep st t now g db (cs_table st)"
proof -
  have "cs_table st \<noteq> ''contacts''" using assms contacts_outside by (metis image_eqI)
  then show ?thesis using assms by (simp add: delete_other cascade_table)
qed

section \<open>What a delete leaves behind\<close>

definition refers :: "cascade_target \<Rightarrow> tables \<Rightarrow> string \<Rightarrow> row \<Rightarrow> bool" where
  "refers t db u r \<longleftrightarrow>
     list_ex (\<lambda>st. cs_table st = u \<and> cs_match st t db r) ContactCascadeRegistry \<or>
     u = ''contacts'' \<and> r ''id'' = Num (ct_id t) \<or>
     u = ''users'' \<and> r ''id'' = Num (ct_user t) \<or>
     u = ''feeds'' \<and> r ''user_id'' = Num (ct_user t) \<and> r ''kind'' = Txt ''contact'' \<and> r ''entity_id'' = Txt (ct_uid t) \<or>
     u = ''share_grants'' \<and> r ''from_user_id'' = Num (ct_user t) \<and> r ''entity_type'' = Txt ''contact'' \<and>
       r ''entity_id'' = Txt (ct_uid t)"

text \<open>The reference is no longer in force.\<close>

definition settled :: "cascade_target \<Rightarrow> string \<Rightarrow> row \<Rightarrow> bool" where
  "settled t u r \<longleftrightarrow>
     (if u = ''users'' then r ''self_contact_vcard_uid'' \<noteq> Txt (ct_uid t) \<or> \<not> live r
      else if u = ''feeds'' then r ''revoked_at'' \<noteq> Null
      else if u = ''share_grants'' then r ''status'' \<notin> set ShareGrantLiveStatuses
      else \<not> live r)"

definition stamp_columns :: "string set" where
  "stamp_columns = {''deleted_at'', ''updated_at'', ''deletion_batch_id'', ''revision'', ''etag''}"

lemma match_upd:
  assumes "st \<in> set ContactCascadeRegistry" and "c \<in> stamp_columns"
  shows "cs_match st t db (r(c := v)) = cs_match st t db r"
proof -
  have c: "''contact_id'' \<noteq> c" "''user_id'' \<noteq> c" "''entity_id'' \<noteq> c" "''member_vcard_uid'' \<noteq> c"
    "''contact_vcard_uid'' \<noteq> c" "''reminder_id'' \<noteq> c" "''note_id'' \<noteq> c" "''activity_id'' \<noteq> c"
    "''source_id'' \<noteq> c" "''target_id'' \<noteq> c" "''uid_low'' \<noteq> c" "''uid_high'' \<noteq> c"
    "''entity_kind'' \<noteq> c" "''entity_uid'' \<noteq> c"
    using assms(2) by (auto simp: stamp_columns_def)
  from match_cases [OF assms(1)] show ?thesis
    unfolding insert_iff empty_iff prod.inject
    by (elim disjE conjE) (use c in \<open>simp_all add: match_defs of_reminder_def of_note_def of_activity_def\<close>)
qed

lemma in_select_map:
  assumes "\<And>r. f r c = r c" and "\<And>r. p (f r) = p r" and "db' t = map f (db t)"
  shows "in_select x c t p db' = in_select x c t p db"
  using assms by (auto simp: in_select_iff)

lemma step_in_registry:
  "soft ''reminders'' byID \<in> set ContactCascadeRegistry"
  "(soft ''notes'' byID)\<lparr>cs_after := Some touch_notes\<rparr> \<in> set ContactCascadeRegistry"
  "(soft ''contact_entity_links'' byContactUID)\<lparr>cs_apply := Some trash_links\<rparr> \<in> set ContactCascadeRegistry"
  "mutate ''users'' clear_self \<in> set ContactCascadeRegistry"
  "mutate ''feeds'' revoke_feeds \<in> set ContactCascadeRegistry"
  "mutate ''share_grants'' revoke_contact_grants \<in> set ContactCascadeRegistry"
  by (simp_all add: ContactCascadeRegistry_def)

lemma deleted_reminders:
  "DeleteContactInTx t now g db ''reminders'' =
     map (\<lambda>r. if byID t db r \<and> live r then r(''deleted_at'' := Num g) else r) (db ''reminders'')"
  using delete_table [OF step_in_registry(1), of t now g db] by (simp add: soft_def step_defs)

lemma deleted_notes:
  "DeleteContactInTx t now g db ''notes'' =
     map ((\<lambda>r. if r ''contact_id'' = Num (ct_id t) \<and> r ''user_id'' = Num (ct_user t) \<and> \<not> live r
               then r(''updated_at'' := Num now) else r) \<circ>
          (\<lambda>r. if byID t db r \<and> live r then r(''deleted_at'' := Num g) else r)) (db ''notes'')"
  using delete_table [OF step_in_registry(2), of t now g db] by (simp add: soft_def step_defs)

lemma match_final:
  assumes "st \<in> set ContactCascadeRegistry"
  shows "cs_match st t (DeleteContactInTx t now g db) = cs_match st t db"
proof -
  let ?db = "DeleteContactInTx t now g db"
  have key: "byID t ?db = byID t db" "byEntity t ?db = byEntity t db" "byMemberUID t ?db = byMemberUID t db"
    "byContactUID t ?db = byContactUID t db" "of_edge t ?db = of_edge t db" "of_pair t ?db = of_pair t db"
    "of_import t ?db = of_import t db" "no_match t ?db = no_match t db"
    by (simp_all add: match_defs fun_eq_iff)
  have "in_select x ''id'' ''reminders'' (byID t db) ?db = in_select x ''id'' ''reminders'' (byID t db) db" for x
    by (rule in_select_map [where db = db and db' = ?db and t = "''reminders''", OF _ _ deleted_reminders]) (simp_all add: byID_def)
  then have r: "of_reminder t ?db = of_reminder t db" by (simp add: of_reminder_def fun_eq_iff key)
  have "in_select x ''id'' ''notes'' (byID t db) ?db = in_select x ''id'' ''notes'' (byID t db) db" for x
    by (rule in_select_map [where db = db and db' = ?db and t = "''notes''", OF _ _ deleted_notes]) (simp_all add: byID_def)
  then have n: "of_note t ?db = of_note t db" by (simp add: of_note_def fun_eq_iff key)
  have "?db ''activities'' = db ''activities''"
    by (simp add: delete_other cascade_other cascade_steps)
  then have a: "of_activity t ?db = of_activity t db" by (simp add: of_activity_def fun_eq_iff in_select_def)
  from match_cases [OF assms] show ?thesis
    unfolding insert_iff empty_iff prod.inject by (elim disjE conjE) (simp_all add: key r n a)
qed

lemma plain_tables:
  "list_all (\<lambda>st. plain_step st \<longrightarrow> cs_table st \<notin> {''users'', ''feeds'', ''share_grants'', ''contacts''}) ContactCascadeRegistry"
  by (simp add: cascade_steps plain_step_def)

lemma deleted_links:
  "DeleteContactInTx t now g db ''contact_entity_links'' =
     map (\<lambda>r. if owned ''contact_vcard_uid'' t r \<and> live r
              then (stamp_revision r)(''deleted_at'' := Num now, ''updated_at'' := Num now,
                      ''deletion_batch_id'' := Txt (ct_batch t)) else r) (db ''contact_entity_links'')"
  using delete_table [OF step_in_registry(3), of t now g db] by (simp add: soft_def step_defs)

lemma deleted_plain:
  assumes "st \<in> set ContactCascadeRegistry" and "plain_step st"
  shows "DeleteContactInTx t now g db (cs_table st) =
    (if cs_mode st = CascadeSoft
     then map (\<lambda>r. if cs_match st t db r \<and> live r then r(''deleted_at'' := Num g) else r) (db (cs_table st))
     else filter (\<lambda>r. \<not> cs_match st t db r) (db (cs_table st)))"
  using delete_table [OF assms(1)] plain_run [OF assms(2)] by (simp add: deleteCascadeRows_def)

lemma deleted_contacts:
  "DeleteContactInTx t now g db ''contacts'' =
     map (\<lambda>r. if r ''id'' = Num (ct_id t) \<and> live r then r(''deleted_at'' := Num g, ''updated_at'' := Num g) else r)
       (db ''contacts'')"
  using cascade_other [OF contacts_outside] by (simp add: DeleteContactInTx_def delete_contact_row_def)

lemma deleted_users:
  "DeleteContactInTx t now g db ''users'' =
     map (\<lambda>r. if r ''id'' = Num (ct_user t) \<and> r ''self_contact_vcard_uid'' = Txt (ct_uid t) \<and> live r
              then r(''self_contact_vcard_uid'' := Null, ''self_contact_ambient_set'' := Num 0, ''updated_at'' := Num g) else r) (db ''users'')"
  using delete_table [OF step_in_registry(4), of t now g db] by (simp add: mutate_def step_defs)

lemma deleted_feeds:
  "DeleteContactInTx t now g db ''feeds'' =
     map (\<lambda>r. if r ''user_id'' = Num (ct_user t) \<and> r ''kind'' = Txt ''contact'' \<and> r ''entity_id'' = Txt (ct_uid t) \<and>
                r ''revoked_at'' = Null
              then r(''revoked_at'' := Num now, ''updated_at'' := Num g) else r) (db ''feeds'')"
  using delete_table [OF step_in_registry(5), of t now g db] by (simp add: mutate_def step_defs)

lemma deleted_grants:
  "DeleteContactInTx t now g db ''share_grants'' =
     map (\<lambda>r. if r ''from_user_id'' = Num (ct_user t) \<and> r ''entity_type'' = Txt ''contact'' \<and>
                r ''entity_id'' = Txt (ct_uid t) \<and> r ''status'' \<in> set ShareGrantLiveStatuses
              then r(''status'' := Txt ''revoked'', ''revoked_reason'' := Txt ''entity_deleted'', ''revoked_at'' := Num now,
                     ''updated_at'' := Num now, ''revision'' := cell_succ (r ''revision'')) else r) (db ''share_grants'')"
  using delete_table [OF step_in_registry(6), of t now g db] by (simp add: mutate_def step_defs)

lemmas deleted_special = deleted_notes deleted_links deleted_contacts deleted_users deleted_feeds deleted_grants

lemma settled_match:
  assumes "st \<in> set ContactCascadeRegistry" and "r \<in> set (DeleteContactInTx t now g db (cs_table st))" and "cs_match st t db r"
  shows "settled t (cs_table st) r"
  using assms(1)
proof (cases rule: registry_cases)
  case plain
  have tbl: "cs_table st \<notin> {''users'', ''feeds'', ''share_grants''}"
    using plain_tables assms(1) plain by (auto simp: list_all_iff)
  show ?thesis
  proof (cases "cs_mode st = CascadeSoft")
    case True
    have "r \<in> (\<lambda>r. if cs_match st t db r \<and> live r then r(''deleted_at'' := Num g) else r) ` set (db (cs_table st))"
      using assms(2) deleted_plain [OF assms(1) plain] True by simp
    then have "\<not> live r" using assms(3) by (elim imageE) (simp add: live_def split: if_splits)
    then show ?thesis using tbl by (simp add: settled_def)
  next
    case False
    then show ?thesis using assms(2,3) deleted_plain [OF assms(1) plain] by simp
  qed
next
  case special
  then consider "st = (soft ''notes'' byID)\<lparr>cs_after := Some touch_notes\<rparr>"
    | "st = (soft ''contact_entity_links'' byContactUID)\<lparr>cs_apply := Some trash_links\<rparr>" | "cs_match st = no_match"
    by (auto simp: special_steps_def mutate_def)
  then show ?thesis
  proof cases
    case 1
    then show ?thesis using assms(2,3)
      by (auto simp: settled_def soft_def deleted_notes byID_def live_def)
  next
    case 2
    then show ?thesis using assms(2,3)
      by (auto simp: settled_def soft_def deleted_links byContactUID_def live_def)
  qed (use assms(3) in \<open>simp add: no_match_def\<close>)
qed


lemma filter_rewritten:
  assumes "\<And>r. p r \<Longrightarrow> q r" and "\<And>r. p r \<Longrightarrow> q (f r)"
  shows "filter (\<lambda>r. \<not> q r) (map (\<lambda>r. if p r then f r else r) rs) = filter (\<lambda>r. \<not> q r) rs"
  using assms by (induction rs) auto

lemma refers_match: "st \<in> set ContactCascadeRegistry \<Longrightarrow> cs_match st t db r \<Longrightarrow> refers t db (cs_table st) r"
  by (auto simp: refers_def list_ex_iff)

lemma refers_notes: "byID t db r \<Longrightarrow> refers t db ''notes'' r"
  using refers_match [OF step_in_registry(2), of t db r] by (simp add: soft_def)

lemma refers_links: "owned ''contact_vcard_uid'' t r \<Longrightarrow> refers t db ''contact_entity_links'' r"
  using refers_match [OF step_in_registry(3), of t db r] by (simp add: soft_def byContactUID_def)

lemma owned_upd: "c \<noteq> col \<Longrightarrow> c \<noteq> ''user_id'' \<Longrightarrow> owned col t (r(c := v)) = owned col t r"
  by (auto simp: owned_def)

lemma rest_kept:
  "filter (\<lambda>r. \<not> refers t db u r) (DeleteContactInTx t now g db u) = filter (\<lambda>r. \<not> refers t db u r) (db u)"
proof (cases "u \<in> cs_table ` set ContactCascadeRegistry")
  case False
  show ?thesis
  proof (cases "u = ''contacts''")
    case True
    then show ?thesis unfolding True deleted_contacts by (intro filter_rewritten) (simp_all add: refers_def)
  next
    case F: False
    then show ?thesis using False by (simp add: delete_other cascade_other)
  qed
next
  case True
  then obtain st where st: "st \<in> set ContactCascadeRegistry" "u = cs_table st" by auto
  from st(1) show ?thesis
  proof (cases rule: registry_cases)
    case plain
    note d = deleted_plain [OF st(1) plain, of t now g db]
    show ?thesis
    proof (cases "cs_mode st = CascadeSoft")
      case True
      show ?thesis unfolding st(2) d using True
        by (simp, intro filter_rewritten) (simp_all add: refers_match st(1) match_upd stamp_columns_def)
    next
      case False
      then show ?thesis unfolding st(2) d using refers_match [OF st(1)] by (auto intro: filter_cong)
    qed
  next
    case special
    then consider "u = ''notes''" | "u = ''contact_entity_links''" | "u = ''users''" | "u = ''feeds''" | "u = ''share_grants''"
      | "st = mutate ''contact_sync_links'' keep_all"
      by (auto simp: special_steps_def st(2) soft_def mutate_def)
    then show ?thesis
    proof cases
      case 1
      have *: "filter (\<lambda>r. \<not> refers t db u r)
          (map ((\<lambda>r. if r ''contact_id'' = Num (ct_id t) \<and> r ''user_id'' = Num (ct_user t) \<and> \<not> live r
               then r(''updated_at'' := Num now) else r)) rs) = filter (\<lambda>r. \<not> refers t db u r) rs" for rs
        unfolding 1 by (intro filter_rewritten) (auto intro!: refers_notes simp: byID_def)
      have "filter (\<lambda>r. \<not> refers t db u r)
          (map (\<lambda>r. if byID t db r \<and> live r then r(''deleted_at'' := Num g) else r) rs) =
          filter (\<lambda>r. \<not> refers t db u r) rs" for rs
        unfolding 1 by (intro filter_rewritten) (auto intro!: refers_notes simp: byID_def)
      with * show ?thesis unfolding 1 deleted_notes map_map [symmetric] by (simp only:)
    next
      case 2
      then show ?thesis unfolding 2 deleted_links
        by (intro filter_rewritten) (auto intro!: refers_links simp: owned_upd stamp_revision_def)
    next
      case 3
      then show ?thesis unfolding 3 deleted_users by (intro filter_rewritten) (simp_all add: refers_def)
    next
      case 4
      then show ?thesis unfolding 4 deleted_feeds by (intro filter_rewritten) (simp_all add: refers_def)
    next
      case 5
      then show ?thesis unfolding 5 deleted_grants by (intro filter_rewritten) (simp_all add: refers_def)
    next
      case 6
      then have "DeleteContactInTx t now g db u = db u"
        using delete_table [OF st(1)] st(2) by (simp add: mutate_def runCascadeStep_def keep_all_def)
      then show ?thesis by simp
    qed
  qed
qed

text \<open>Deleting a contact touches nothing else: in every table the rows that do not refer to the contact, those
  of other users among them, stay as they are and in their order.\<close>

lemma delete_keeps_the_rest:
  "filter (\<lambda>r. \<not> refers t db u r) (DeleteContactInTx t now g db u) = filter (\<lambda>r. \<not> refers t db u r) (db u)"
  by (rule rest_kept)

definition sample_target :: cascade_target where
  "sample_target = \<lparr>ct_id = 1, ct_uid = ''u'', ct_user = 7, ct_batch = ''b''\<rparr>"

definition sample_note :: row where
  "sample_note = (\<lambda>_. Null)(''id'' := Num 4, ''user_id'' := Num 7, ''contact_id'' := Num 1)"


end
