(* ===== verification/Trash.thy ===== *)
theory Trash imports Cascade begin

text \<open>
  The trash (\<open>backend/services/contact_trash.go\<close>, \<open>models/contact_deletion_snapshot.go\<close>): the snapshot taken before
  the cascade, restore, and the permanent purge. The payload is kept as the value its JSON text encodes, with
  \<open>None\<close> for a text that does not decode. Keys and foreign keys are those of the migrations.
\<close>

section \<open>Snapshots\<close>

record payload =
  pl_soft :: "(string \<times> cell list) list"
  pl_hard :: "(string \<times> row list) list"
  pl_self :: bool
  pl_self_ambient :: bool

record snapshot =
  sn_id :: string
  sn_user :: int
  sn_contact :: int
  sn_uid :: string
  sn_trashed :: int
  sn_version :: int
  sn_payload :: "payload option"

record trash_state =
  tr_tables :: tables
  tr_snaps :: "snapshot list"

datatype trash_error = ContactNotInTrash | SnapshotUnsupported | SnapshotUnreadable | ContactUIDInUse cell | SnapshotExists

definition ContactDeletionSnapshotVersion :: int where "ContactDeletionSnapshotVersion = 1"

definition snapshotRestorers :: "string list" where
  "snapshotRestorers = [''activity_contacts'', ''relationship_edges'', ''household_members'', ''circle_members'',
     ''contact_tags'', ''field_values'', ''external_identities'', ''external_activities'', ''occasion_event_attendees'',
     ''import_source_links'', ''contact_field_overrides'']"

definition contactLiveByUID :: "tables \<Rightarrow> int \<Rightarrow> cell \<Rightarrow> bool" where
  "contactLiveByUID db u uid \<longleftrightarrow> has_row ''contacts'' (\<lambda>r. r ''user_id'' = Num u \<and> r ''vcard_uid'' = uid \<and> live r) db"

definition liveRowExists :: "tables \<Rightarrow> string \<Rightarrow> int \<Rightarrow> cell \<Rightarrow> bool" where
  "liveRowExists db t u i \<longleftrightarrow> has_row t (\<lambda>r. r ''id'' = i \<and> r ''user_id'' = Num u \<and> live r) db"

definition restorer_valid :: "string \<Rightarrow> tables \<Rightarrow> int \<Rightarrow> row \<Rightarrow> bool" where
  "restorer_valid t db u r \<longleftrightarrow>
     (if t = ''activity_contacts'' then liveRowExists db ''activities'' u (r ''activity_id'')
      else if t = ''relationship_edges'' then contactLiveByUID db u (r ''source_id'') \<and> contactLiveByUID db u (r ''target_id'')
      else if t = ''occasion_event_attendees'' then liveRowExists db ''occasion_events'' u (r ''event_id'')
      else True)"

text \<open>What the cascade is about to take away, read before it runs.\<close>

definition capture_soft :: "cascade_target \<Rightarrow> tables \<Rightarrow> cascade_step \<Rightarrow> (string \<times> cell list) list" where
  "capture_soft t db st =
     (let ids = map (\<lambda>r. r ''id'') (filter (\<lambda>r. cs_match st t db r \<and> live r) (db (cs_table st)))
      in if cs_mode st = CascadeSoft \<and> ids \<noteq> [] then [(cs_table st, ids)] else [])"

definition capture_hard :: "cascade_target \<Rightarrow> tables \<Rightarrow> cascade_step \<Rightarrow> (string \<times> row list) list" where
  "capture_hard t db st =
     (let rows = filter (cs_match st t db) (db (cs_table st))
      in if cs_mode st = CascadeHard \<and> cs_table st \<in> set snapshotRestorers \<and> rows \<noteq> [] then [(cs_table st, rows)] else [])"

definition me_rows :: "cascade_target \<Rightarrow> tables \<Rightarrow> row list" where
  "me_rows t db = filter (\<lambda>r. r ''id'' = Num (ct_user t) \<and> r ''self_contact_vcard_uid'' = Txt (ct_uid t) \<and> live r)
     (db ''users'')"

definition captureContactDeletion :: "cascade_target \<Rightarrow> tables \<Rightarrow> payload" where
  "captureContactDeletion t db =
     \<lparr>pl_soft = concat (map (capture_soft t db) ContactCascadeRegistry),
      pl_hard = concat (map (capture_hard t db) ContactCascadeRegistry),
      pl_self = (me_rows t db \<noteq> []),
      pl_self_ambient = (me_rows t db \<noteq> [] \<and> hd (me_rows t db) ''self_contact_ambient_set'' = Num 1)\<rparr>"

definition has_snapshot :: "int \<Rightarrow> int \<Rightarrow> snapshot \<Rightarrow> bool" where
  "has_snapshot u c sn \<longleftrightarrow> sn_user sn = u \<and> sn_contact sn = c"

definition DeleteContact :: "cascade_target \<Rightarrow> int \<Rightarrow> int \<Rightarrow> string \<Rightarrow> trash_state \<Rightarrow> trash_error + trash_state" where
  "DeleteContact t now g sid s =
     (if list_ex (has_snapshot (ct_user t) (ct_id t)) (tr_snaps s) then Inl SnapshotExists
      else Inr \<lparr>tr_tables = DeleteContactInTx t now g (tr_tables s),
                tr_snaps = tr_snaps s @ [\<lparr>sn_id = sid, sn_user = ct_user t, sn_contact = ct_id t, sn_uid = ct_uid t,
                  sn_trashed = now, sn_version = ContactDeletionSnapshotVersion,
                  sn_payload = Some (captureContactDeletion t (tr_tables s))\<rparr>]\<rparr>)"

definition trashedContact :: "int \<Rightarrow> int \<Rightarrow> trash_state \<Rightarrow> trash_error + (row \<times> snapshot)" where
  "trashedContact u c s =
     (case find (\<lambda>r. r ''id'' = Num c \<and> r ''user_id'' = Num u \<and> \<not> live r) (tr_tables s ''contacts'') of
        None \<Rightarrow> Inl ContactNotInTrash
      | Some r \<Rightarrow> (case find (has_snapshot u c) (tr_snaps s) of
          None \<Rightarrow> Inl ContactNotInTrash
        | Some sn \<Rightarrow> Inr (r, sn)))"

section \<open>Restore\<close>

text \<open>The unique indexes and foreign keys of the restorable tables.\<close>

definition unique_keys :: "string \<Rightarrow> string list list" where
  "unique_keys t =
     (if t = ''activity_contacts'' then [[''activity_id'', ''contact_id'']]
      else if t = ''relationship_edges'' then [[''id''], [''user_id'', ''source_id'', ''target_id'', ''type'']]
      else if t = ''household_members'' then [[''id''], [''household_id'', ''member_vcard_uid'']]
      else if t = ''circle_members'' then [[''id''], [''circle_id'', ''member_vcard_uid'']]
      else if t = ''contact_tags'' then [[''id''], [''tag_id'', ''contact_vcard_uid'']]
      else if t = ''field_values'' then [[''id''], [''field_definition_id'', ''entity_id'']]
      else if t = ''external_identities'' then [[''id''], [''system'', ''external_id'', ''user_id'']]
      else if t = ''external_activities'' then [[''id''], [''source_system'', ''external_id'', ''user_id'']]
      else if t = ''occasion_event_attendees'' then [[''id''], [''event_id'', ''entity_id'']]
      else if t = ''import_source_links'' then [[''id''], [''system'', ''external_id'', ''user_id'']]
      else if t = ''contact_field_overrides'' then [[''id''], [''user_id'', ''contact_vcard_uid'', ''field_key'']]
      else [[''id'']])"

definition foreign_keys :: "string \<Rightarrow> (string \<times> string) list" where
  "foreign_keys t =
     (if t = ''activity_contacts'' then [(''activity_id'', ''activities''), (''contact_id'', ''contacts'')]
      else if t = ''household_members'' then [(''household_id'', ''households'')]
      else if t = ''circle_members'' then [(''circle_id'', ''circles'')]
      else if t = ''contact_tags'' then [(''tag_id'', ''tags'')]
      else if t = ''field_values'' then [(''field_definition_id'', ''field_definitions'')]
      else if t = ''occasion_event_attendees'' then [(''user_id'', ''users''), (''event_id'', ''occasion_events'')]
      else [(''user_id'', ''users'')])"

definition clash :: "string \<Rightarrow> row \<Rightarrow> row \<Rightarrow> bool" where
  "clash t r s \<longleftrightarrow> list_ex (list_all (\<lambda>c. r c = s c \<and> r c \<noteq> Null)) (unique_keys t)"

definition referents_exist :: "string \<Rightarrow> tables \<Rightarrow> row \<Rightarrow> bool" where
  "referents_exist t db r \<longleftrightarrow>
     list_all (\<lambda>(c, parent). r c = Null \<or> has_row parent (\<lambda>p. p ''id'' = r c) db) (foreign_keys t)"

definition own_row :: "int \<Rightarrow> row \<Rightarrow> row" where
  "own_row u r = (if r ''user_id'' \<noteq> Null then r(''user_id'' := Num u) else r)"

definition restore_row :: "int \<Rightarrow> string \<Rightarrow> row \<Rightarrow> tables \<times> nat \<Rightarrow> tables \<times> nat" where
  "restore_row u t r st =
     (case st of (db, skipped) \<Rightarrow>
        if \<not> restorer_valid t db u r then (db, skipped + 1)
        else if list_ex (clash t (own_row u r)) (db t) \<or> \<not> referents_exist t db (own_row u r) then (db, skipped + 1)
        else (sql_insert t (own_row u r) db, skipped))"

definition restoreRows :: "int \<Rightarrow> string \<Rightarrow> row list \<Rightarrow> tables \<Rightarrow> tables \<times> nat" where
  "restoreRows u t rows db = fold (restore_row u t) rows (db, 0)"

type_synonym skip = "string \<times> string \<times> nat"

definition revive_soft :: "int \<Rightarrow> int \<Rightarrow> string \<Rightarrow> cell list \<Rightarrow> tables \<Rightarrow> tables" where
  "revive_soft u now t ids = sql_update t
     (\<lambda>r. r ''id'' \<in> set ids \<and> r ''user_id'' = Num u \<and> \<not> live r)
     (\<lambda>r. r(''deleted_at'' := Null, ''updated_at'' := Num now))"

text \<open>The counts of \<open>reviveContactEntityLinks\<close>, by reason.\<close>

record link_counts =
  lc_demoted :: nat
  lc_entity :: nat
  lc_contact :: nat

definition revive_link :: "int \<Rightarrow> int \<Rightarrow> cell \<Rightarrow> tables \<times> link_counts \<Rightarrow> tables \<times> link_counts" where
  "revive_link u now i st =
     (case st of (db, n) \<Rightarrow>
       (case find (\<lambda>r. r ''id'' = i \<and> r ''user_id'' = Num u \<and> \<not> live r) (db ''contact_entity_links'') of
          None \<Rightarrow> (db, n)
        | Some l \<Rightarrow>
            if \<not> liveRowExists db ''entities'' u (l ''entity_id'') then (db, n\<lparr>lc_entity := lc_entity n + 1\<rparr>)
            else if \<not> contactLiveByUID db u (l ''contact_vcard_uid'') then (db, n\<lparr>lc_contact := lc_contact n + 1\<rparr>)
            else (let taken = l ''is_primary'' = Num 1 \<and>
                        has_row ''contact_entity_links'' (\<lambda>r. r ''user_id'' = Num u \<and>
                          r ''contact_vcard_uid'' = l ''contact_vcard_uid'' \<and> r ''kind'' = l ''kind'' \<and>
                          r ''is_primary'' = Num 1 \<and> r ''id'' \<noteq> i \<and> live r) db
                  in (sql_update ''contact_entity_links'' (\<lambda>r. r ''id'' = i \<and> r ''user_id'' = Num u)
                        (\<lambda>r. let r' = r(''deleted_at'' := Null, ''deletion_batch_id'' := Null, ''updated_at'' := Num now)
                             in if taken then r'(''is_primary'' := Num 0) else r') db,
                      if taken then n\<lparr>lc_demoted := lc_demoted n + 1\<rparr> else n))))"

definition reviveContactEntityLinks :: "int \<Rightarrow> int \<Rightarrow> cell list \<Rightarrow> tables \<Rightarrow> tables \<times> skip list" where
  "reviveContactEntityLinks u now ids db =
     (case fold (revive_link u now) ids (db, \<lparr>lc_demoted = 0, lc_entity = 0, lc_contact = 0\<rparr>) of (db', n) \<Rightarrow>
       (db', filter (\<lambda>(_, _, k). k \<noteq> 0)
         [(''contact_entity_links'', ''contact_deleted'', lc_contact n),
          (''contact_entity_links'', ''entity_deleted'', lc_entity n),
          (''contact_entity_links'', ''primary_demoted'', lc_demoted n)]))"

definition restore_soft_table :: "int \<Rightarrow> int \<Rightarrow> string \<times> cell list \<Rightarrow> tables \<times> skip list \<Rightarrow> tables \<times> skip list" where
  "restore_soft_table u now e st =
     (case (e, st) of ((t, ids), db, skips) \<Rightarrow>
        if t = ''contact_entity_links''
        then (case reviveContactEntityLinks u now ids db of (db', reported) \<Rightarrow> (db', skips @ reported))
        else (revive_soft u now t ids db, skips))"

definition restore_hard_table :: "int \<Rightarrow> string \<times> row list \<Rightarrow> tables \<times> skip list \<Rightarrow> tables \<times> skip list" where
  "restore_hard_table u e st =
     (case (e, st) of ((t, rows), db, skips) \<Rightarrow>
        (case restoreRows u t rows db of (db', k) \<Rightarrow>
          (db', if 0 < k then skips @ [(t, ''referent_gone_or_exists'', k)] else skips)))"

text \<open>Un-delete, then the save with its hooks: the time stamp, and the next revision with its tag.\<close>

definition undelete_contact :: "int \<Rightarrow> int \<Rightarrow> int \<Rightarrow> tables \<Rightarrow> tables" where
  "undelete_contact u c g = sql_update ''contacts'' (\<lambda>r. r ''id'' = Num c \<and> r ''user_id'' = Num u)
     (\<lambda>r. stamp_revision (r(''deleted_at'' := Null, ''updated_at'' := Num g)))"

definition restore_self :: "int \<Rightarrow> int \<Rightarrow> cell \<Rightarrow> bool \<Rightarrow> tables \<Rightarrow> tables" where
  "restore_self u g uid ambient = sql_update ''users''
     (\<lambda>r. r ''id'' = Num u \<and> r ''self_contact_vcard_uid'' = Null \<and> live r)
     (\<lambda>r. r(''self_contact_vcard_uid'' := uid, ''self_contact_ambient_set'' := Num (if ambient then 1 else 0),
       ''updated_at'' := Num g))"

definition restore_payload :: "int \<Rightarrow> int \<Rightarrow> int \<Rightarrow> cell \<Rightarrow> payload \<Rightarrow> tables \<Rightarrow> tables \<times> skip list" where
  "restore_payload u now g uid p db =
     (case fold (restore_hard_table u) (sort_key fst (pl_hard p))
             (fold (restore_soft_table u now) (sort_key fst (pl_soft p)) (db, [])) of
        (db', skips) \<Rightarrow> (if pl_self p then restore_self u g uid (pl_self_ambient p) db' else db', skips))"

definition RestoreContact :: "int \<Rightarrow> int \<Rightarrow> int \<Rightarrow> int \<Rightarrow> trash_state \<Rightarrow> trash_error + (trash_state \<times> skip list)" where
  "RestoreContact u c now g s =
     (case trashedContact u c s of
        Inl e \<Rightarrow> Inl e
      | Inr (contact, snap) \<Rightarrow>
          if sn_version snap \<noteq> ContactDeletionSnapshotVersion then Inl SnapshotUnsupported
          else (case sn_payload snap of
            None \<Rightarrow> Inl SnapshotUnreadable
          | Some p \<Rightarrow>
             (case find (\<lambda>r. r ''user_id'' = Num u \<and> r ''vcard_uid'' = contact ''vcard_uid'' \<and> live r) (tr_tables s ''contacts'') of
                Some l \<Rightarrow> Inl (ContactUIDInUse (l ''id''))
              | None \<Rightarrow>
                 (case restore_payload u now g (contact ''vcard_uid'') p (undelete_contact u c g (tr_tables s)) of
                    (db, skips) \<Rightarrow>
                      Inr (\<lparr>tr_tables = db, tr_snaps = filter (\<lambda>sn. sn_id sn \<noteq> sn_id snap) (tr_snaps s)\<rparr>, skips)))))"

section \<open>Walks over the captured tables\<close>

text \<open>A walk whose steps each change one table of their own: what it leaves in a table, and what it reports.\<close>

lemma walk_untouched:
  fixes step :: "'e \<Rightarrow> tables \<times> 'x \<Rightarrow> tables \<times> 'x"
  assumes "\<And>e st u. e \<in> set es \<Longrightarrow> u \<noteq> tbl e \<Longrightarrow> fst (step e st) u = fst st u" and "u \<notin> tbl ` set es"
  shows "fst (fold step es st) u = fst st u"
  using assms by (induction es arbitrary: st) simp_all

lemma walk_visits:
  fixes step :: "'e \<Rightarrow> tables \<times> 'x \<Rightarrow> tables \<times> 'x"
  assumes "\<And>e st u. e \<in> set es \<Longrightarrow> u \<noteq> tbl e \<Longrightarrow> fst (step e st) u = fst st u" and "distinct (map tbl es)"
  shows "e \<in> set es \<Longrightarrow> \<exists>st'. (\<forall>u. u \<notin> tbl ` (set es - {e}) \<longrightarrow> fst st' u = fst st u) \<and>
    fst (fold step es st) (tbl e) = fst (step e st') (tbl e)"
  using assms
proof (induction es arbitrary: st)
  case (Cons a es)
  show ?case
  proof (cases "e = a")
    case True
    have "tbl a \<notin> tbl ` set es" using Cons.prems(3) by simp
    then have "fst (fold step (a # es) st) (tbl e) = fst (step e st) (tbl e)"
      using walk_untouched [of es tbl step "tbl a" "step a st"] Cons.prems(2) True by simp
    then show ?thesis by blast
  next
    case False
    then have e: "e \<in> set es" using Cons.prems(1) by simp
    obtain st' where st': "\<forall>u. u \<notin> tbl ` (set es - {e}) \<longrightarrow> fst st' u = fst (step a st) u"
      "fst (fold step es (step a st)) (tbl e) = fst (step e st') (tbl e)"
      using Cons.IH [OF e, of "step a st"] Cons.prems by auto
    have "fst st' u = fst st u" if "u \<notin> tbl ` (set (a # es) - {e})" for u
    proof -
      have "u \<noteq> tbl a" "u \<notin> tbl ` (set es - {e})" using that False by auto
      then show ?thesis using st'(1) Cons.prems(2) [of a u st] by simp
    qed
    then show ?thesis using st'(2) by (intro exI [of _ st']) simp
  qed
qed simp

lemma walk_reports:
  fixes step :: "'e \<Rightarrow> tables \<times> 'x \<Rightarrow> tables \<times> 'x"
  assumes "\<And>e st u. e \<in> set es \<Longrightarrow> u \<noteq> tbl e \<Longrightarrow> fst (step e st) u = fst st u"
    and "\<And>e st'. e \<in> set es \<Longrightarrow> (\<forall>u. u \<notin> tbl ` (set es - {e}) \<longrightarrow> fst st' u = fst st u) \<Longrightarrow> snd (step e st') = snd st'"
    and "distinct (map tbl es)"
  shows "snd (fold step es st) = snd st"
  using assms
proof (induction es arbitrary: st)
  case (Cons a es)
  have "snd (step a st) = snd st" using Cons.prems(2) [of a st] by simp
  moreover have "snd (fold step es (step a st)) = snd (step a st)"
  proof (rule Cons.IH)
    fix e and st' :: "tables \<times> 'x"
    assume e: "e \<in> set es" and a: "\<forall>u. u \<notin> tbl ` (set es - {e}) \<longrightarrow> fst st' u = fst (step a st) u"
    show "snd (step e st') = snd st'"
    proof (rule Cons.prems(2))
      have "e \<noteq> a" using e Cons.prems(3) by auto
      then have "insert (tbl a) (tbl ` (set es - {e})) \<subseteq> tbl ` (set (a # es) - {e})" by auto
      then show "\<forall>u. u \<notin> tbl ` (set (a # es) - {e}) \<longrightarrow> fst st' u = fst st u"
        using a Cons.prems(1) [of a _ st] by (metis insert_iff list.set_intros(1) subset_iff)
    qed (use e in simp)
  qed (use Cons.prems in auto)
  ultimately show ?case by simp
qed simp

text \<open>Rows that agree on no key stay so when some of them are moved to the end.\<close>

definition no_clash :: "string \<Rightarrow> row list \<Rightarrow> bool" where
  "no_clash t rs \<longleftrightarrow> sorted_wrt (\<lambda>r s. \<not> clash t s r) rs"

lemma clash_sym: "clash t r s = clash t s r"
proof -
  have "(r c = s c \<and> r c \<noteq> Null) = (s c = r c \<and> s c \<noteq> Null)" for c by auto
  then show ?thesis by (simp add: clash_def)
qed

lemma no_clash_split: "no_clash t rs \<Longrightarrow> no_clash t (filter (\<lambda>r. \<not> m r) rs @ filter m rs)"
  unfolding no_clash_def sorted_wrt_append
  using sorted_wrt_pair [of "\<lambda>r s. \<not> clash t s r" rs] by (auto simp: sorted_wrt_filter clash_sym)

lemma restore_rows_all:
  assumes "no_clash t (db t @ rows)" and "\<forall>r\<in>set rows. r ''user_id'' \<in> {Null, Num u}"
    and "\<forall>r\<in>set rows. restorer_valid t db u r \<and> referents_exist t db r"
    and "\<forall>(c, parent)\<in>set (foreign_keys t). parent \<noteq> t"
    and "t \<notin> {''activities'', ''contacts'', ''occasion_events''}"
  shows "restoreRows u t rows db = (db(t := db t @ rows), 0)"
proof -
  have own: "own_row u r = r" if "r ''user_id'' \<in> {Null, Num u}" for r
    using that by (auto simp: own_row_def fun_eq_iff)
  have "fold (restore_row u t) rows (db(t := db t @ front), 0) = (db(t := db t @ front @ rows), 0)"
    if "no_clash t (db t @ front @ rows)" "\<forall>r\<in>set rows. r ''user_id'' \<in> {Null, Num u}"
      "\<forall>r\<in>set rows. restorer_valid t db u r \<and> referents_exist t db r" for front
    using that
  proof (induction rows arbitrary: front)
    case (Cons r rows)
    have "\<forall>s\<in>set (db t @ front). \<not> clash t r s"
      using Cons.prems(1) by (auto simp: no_clash_def sorted_wrt_append)
    then have c: "\<not> list_ex (clash t (own_row u r)) (db t @ front)"
      using Cons.prems(2) own by (simp add: list_ex_iff)
    have acts: "(db(t := x)) ''activities'' = db ''activities''" "(db(t := x)) ''contacts'' = db ''contacts''"
      "(db(t := x)) ''occasion_events'' = db ''occasion_events''" for x
      using assms(5) by auto
    have v: "restorer_valid t (db(t := x)) u r" for x
      using Cons.prems(3) unfolding restorer_valid_def liveRowExists_def contactLiveByUID_def has_row_def acts by simp
    have "(db(t := x)) parent = db parent" if "(c, parent) \<in> set (foreign_keys t)" for x c parent
      using assms(4) that by auto
    then have f: "referents_exist t (db(t := x)) r" for x
      using Cons.prems(3) by (fastforce simp: referents_exist_def has_row_def list_all_iff simp del: fun_upd_apply)
    have "restore_row u t r (db(t := db t @ front), 0) = (db(t := db t @ (front @ [r])), 0)"
      using c v f own Cons.prems(2) by (simp add: restore_row_def sql_insert_def)
    then show ?case using Cons.IH [of "front @ [r]"] Cons.prems by (simp del: fun_upd_apply)
  qed simp
  from this [of "[]"] show ?thesis using assms(1-3) by (simp add: restoreRows_def)
qed

section \<open>What a restorable contact looks like\<close>

text \<open>Equal up to the columns every write stamps.\<close>

definition unstamped :: "row \<Rightarrow> row" where
  "unstamped r = r(''updated_at'' := Null, ''revision'' := Null, ''etag'' := Null, ''deletion_batch_id'' := Null)"

definition contact_present :: "cascade_target \<Rightarrow> tables \<Rightarrow> bool" where
  "contact_present t db \<longleftrightarrow> unique_on (\<lambda>r. r ''id'') (db ''contacts'') \<and>
     list_ex (\<lambda>r. r ''id'' = Num (ct_id t) \<and> r ''user_id'' = Num (ct_user t) \<and> r ''vcard_uid'' = Txt (ct_uid t) \<and> live r)
       (db ''contacts'') \<and>
     list_all (\<lambda>r. r ''user_id'' = Num (ct_user t) \<and> r ''vcard_uid'' = Txt (ct_uid t) \<and> live r \<longrightarrow> r ''id'' = Num (ct_id t))
       (db ''contacts'')"

definition step_intact :: "cascade_target \<Rightarrow> tables \<Rightarrow> cascade_step \<Rightarrow> bool" where
  "step_intact t db st \<longleftrightarrow>
     (cs_mode st = CascadeSoft \<longrightarrow> unique_on (\<lambda>r. r ''id'') (db (cs_table st)) \<and>
        list_all (\<lambda>r. cs_match st t db r \<and> live r \<longrightarrow> r ''user_id'' = Num (ct_user t)) (db (cs_table st))) \<and>
     (cs_mode st = CascadeHard \<and> cs_table st \<in> set snapshotRestorers \<longrightarrow> no_clash (cs_table st) (db (cs_table st)) \<and>
        list_all (\<lambda>r. cs_match st t db r \<longrightarrow> r ''user_id'' \<in> {Null, Num (ct_user t)} \<and>
           restorer_valid (cs_table st) db (ct_user t) r \<and> referents_exist (cs_table st) db r) (db (cs_table st)))"

definition links_intact :: "cascade_target \<Rightarrow> tables \<Rightarrow> bool" where
  "links_intact t db \<longleftrightarrow>
     list_all (\<lambda>r. owned ''contact_vcard_uid'' t r \<and> live r \<longrightarrow> liveRowExists db ''entities'' (ct_user t) (r ''entity_id''))
       (db ''contact_entity_links'') \<and>
     list_all (\<lambda>r. list_all (\<lambda>s. owned ''contact_vcard_uid'' t r \<and> owned ''contact_vcard_uid'' t s \<and> live r \<and> live s \<and>
         r ''is_primary'' = Num 1 \<and> s ''is_primary'' = Num 1 \<and> r ''kind'' = s ''kind'' \<longrightarrow> r ''id'' = s ''id'')
       (db ''contact_entity_links'')) (db ''contact_entity_links'')"

definition users_intact :: "cascade_target \<Rightarrow> tables \<Rightarrow> bool" where
  "users_intact t db \<longleftrightarrow> unique_on (\<lambda>r. r ''id'') (db ''users'') \<and>
     list_all (\<lambda>r. r ''self_contact_ambient_set'' \<in> {Num 0, Num 1}) (db ''users'')"

definition intact :: "cascade_target \<Rightarrow> tables \<Rightarrow> bool" where
  "intact t db \<longleftrightarrow> contact_present t db \<and> users_intact t db \<and> links_intact t db \<and>
     list_all (step_intact t db) ContactCascadeRegistry"

section \<open>The soft tables\<close>

lemma revive_trashed:
  assumes u: "unique_on (\<lambda>r. r ''id'') rows" and p: "\<And>r. r \<in> set rows \<Longrightarrow> p r \<Longrightarrow> r ''user_id'' = Num u \<and> live r"
    and touch: "\<And>r. touch r = r \<or> touch r = r(''updated_at'' := v)"
    and ids: "set ids = (\<lambda>r. r ''id'') ` set (filter p rows)"
  shows "map unstamped (map (\<lambda>r. if r ''id'' \<in> set ids \<and> r ''user_id'' = Num u \<and> \<not> live r
      then r(''deleted_at'' := Null, ''updated_at'' := Num now) else r)
    (map (\<lambda>r. touch (if p r then r(''deleted_at'' := Num g) else r)) rows)) = map unstamped rows"
proof -
  have keep: "touch r ''id'' = r ''id''" "touch r ''user_id'' = r ''user_id''" "live (touch r) = live r"
    "unstamped (touch r) = unstamped r" for r
    using touch [of r] by (auto simp: live_def unstamped_def)
  have mem: "r ''id'' \<in> set ids \<longleftrightarrow> p r" if "r \<in> set rows" for r
    using that ids unique_onD [OF u that] by auto
  have "unstamped (let x = touch (if p r then r(''deleted_at'' := Num g) else r)
      in if x ''id'' \<in> set ids \<and> x ''user_id'' = Num u \<and> \<not> live x
         then x(''deleted_at'' := Null, ''updated_at'' := Num now) else x) = unstamped r" if r: "r \<in> set rows" for r
  proof (cases "p r")
    case True
    let ?x = "touch (r(''deleted_at'' := Num g))"
    have "?x ''id'' \<in> set ids" "?x ''user_id'' = Num u" "\<not> live ?x" "r ''deleted_at'' = Null"
      using mem [OF r] True p [OF r] keep by (auto simp: live_def)
    moreover have "unstamped (?x(''deleted_at'' := Null, ''updated_at'' := Num now)) = unstamped r"
      using touch [of "r(''deleted_at'' := Num g)"] p [OF r True] by (auto simp: unstamped_def live_def fun_eq_iff)
    ultimately show ?thesis using True by (simp add: Let_def)
  next
    case False
    then show ?thesis using mem [OF r] keep by (simp add: Let_def)
  qed
  then show ?thesis by (simp add: Let_def)
qed

lemma capture_soft_iff:
  "(T, ids) \<in> set (concat (map (capture_soft t db) ContactCascadeRegistry)) \<longleftrightarrow>
     (\<exists>st\<in>set ContactCascadeRegistry. cs_table st = T \<and> cs_mode st = CascadeSoft \<and> ids \<noteq> [] \<and>
        ids = map (\<lambda>r. r ''id'') (filter (\<lambda>r. cs_match st t db r \<and> live r) (db T)))"
  by (auto simp: capture_soft_def Let_def split: if_splits)

lemma capture_hard_iff:
  "(T, rows) \<in> set (concat (map (capture_hard t db) ContactCascadeRegistry)) \<longleftrightarrow>
     (\<exists>st\<in>set ContactCascadeRegistry. cs_table st = T \<and> cs_mode st = CascadeHard \<and> T \<in> set snapshotRestorers \<and>
        rows \<noteq> [] \<and> rows = filter (cs_match st t db) (db T))"
  by (auto simp: capture_hard_def Let_def split: if_splits)

lemma distinct_captured:
  assumes "\<And>st. set (f st) = {} \<or> (\<exists>x. f st = [(cs_table st, x)])" and "distinct (map cs_table sts)"
  shows "distinct (map fst (concat (map f sts))) \<and> fst ` set (concat (map f sts)) \<subseteq> cs_table ` set sts"
  using assms(2)
proof (induction sts)
  case (Cons st sts)
  then have ih: "distinct (map fst (concat (map f sts)))" "fst ` set (concat (map f sts)) \<subseteq> cs_table ` set sts" by auto
  then have "cs_table st \<notin> fst ` set (concat (map f sts))" using Cons.prems by auto
  moreover have "f st = [] \<or> (\<exists>x. f st = [(cs_table st, x)])" using assms(1) [of st] by auto
  ultimately show ?case
    by (elim disjE exE) (use ih in \<open>simp_all del: set_concat add: subset_insertI2\<close>)
qed simp

lemma distinct_sort_key: "distinct (map f xs) \<Longrightarrow> distinct (map f (sort_key f xs))"
  by (simp add: distinct_map)

lemma distinct_soft: "distinct (map fst (sort_key fst (concat (map (capture_soft t db) ContactCascadeRegistry))))"
  by (intro distinct_sort_key conjunct1 [OF distinct_captured] registry_distinct) (auto simp: capture_soft_def Let_def)

lemma distinct_hard: "distinct (map fst (sort_key fst (concat (map (capture_hard t db) ContactCascadeRegistry))))"
  by (intro distinct_sort_key conjunct1 [OF distinct_captured] registry_distinct) (auto simp: capture_hard_def Let_def)

lemma revive_link_other: "v \<noteq> ''contact_entity_links'' \<Longrightarrow> fst (revive_link u now i st) v = fst st v"
  by (cases st) (simp add: revive_link_def Let_def split: option.split)

lemma revive_links_other:
  "v \<noteq> ''contact_entity_links'' \<Longrightarrow> fst (fold (revive_link u now) ids st) v = fst st v"
  by (induction ids arbitrary: st) (simp_all add: revive_link_other)

lemma restore_soft_other: "v \<noteq> fst e \<Longrightarrow> fst (restore_soft_table u now e st) v = fst st v"
  using revive_links_other [of v u now "snd e" "(fst st, \<lparr>lc_demoted = 0, lc_entity = 0, lc_contact = 0\<rparr>)"]
  by (cases e; cases st) (simp add: restore_soft_table_def revive_soft_def reviveContactEntityLinks_def split_beta)

lemma restore_row_other: "v \<noteq> t \<Longrightarrow> fst (restore_row u t r st) v = fst st v"
  by (cases st) (simp add: restore_row_def)

lemma restore_hard_other: "v \<noteq> fst e \<Longrightarrow> fst (restore_hard_table u e st) v = fst st v"
proof -
  have "v \<noteq> t \<Longrightarrow> fst (fold (restore_row u t) rows st) v = fst st v" for t rows st
    by (induction rows arbitrary: st) (simp_all add: restore_row_other)
  from this [of "fst e" "snd e" "(fst st, 0)"] show "v \<noteq> fst e \<Longrightarrow> ?thesis"
    by (cases e; cases st) (simp add: restore_hard_table_def restoreRows_def split_beta)
qed

section \<open>The links\<close>

definition trashed_link :: "cascade_target \<Rightarrow> int \<Rightarrow> row \<Rightarrow> row" where
  "trashed_link t now r = (stamp_revision r)(''deleted_at'' := Num now, ''updated_at'' := Num now,
     ''deletion_batch_id'' := Txt (ct_batch t))"

definition revived_link :: "cascade_target \<Rightarrow> int \<Rightarrow> int \<Rightarrow> row \<Rightarrow> row" where
  "revived_link t now later r = (trashed_link t now r)(''deleted_at'' := Null, ''deletion_batch_id'' := Null,
     ''updated_at'' := Num later)"

definition revived_rows :: "cascade_target \<Rightarrow> int \<Rightarrow> int \<Rightarrow> cell set \<Rightarrow> row list \<Rightarrow> row list" where
  "revived_rows t now later P rows = map (\<lambda>r. if owned ''contact_vcard_uid'' t r \<and> live r
     then (if r ''id'' \<in> P then revived_link t now later r else trashed_link t now r) else r) rows"

lemma link_columns [simp]:
  "trashed_link t now r ''id'' = r ''id''" "trashed_link t now r ''user_id'' = r ''user_id''"
  "trashed_link t now r ''entity_id'' = r ''entity_id''" "trashed_link t now r ''contact_vcard_uid'' = r ''contact_vcard_uid''"
  "trashed_link t now r ''kind'' = r ''kind''" "trashed_link t now r ''is_primary'' = r ''is_primary''"
  "\<not> live (trashed_link t now r)"
  "revived_link t now later r ''id'' = r ''id''" "revived_link t now later r ''user_id'' = r ''user_id''"
  "revived_link t now later r ''contact_vcard_uid'' = r ''contact_vcard_uid''"
  "revived_link t now later r ''kind'' = r ''kind''" "revived_link t now later r ''is_primary'' = r ''is_primary''"
  "live (revived_link t now later r)"
  by (simp_all add: trashed_link_def revived_link_def stamp_revision_def live_def)

lemma unstamped_upd [simp]:
  "unstamped (r(''updated_at'' := v)) = unstamped r" "unstamped (r(''revision'' := v)) = unstamped r"
  "unstamped (r(''etag'' := v)) = unstamped r" "unstamped (r(''deletion_batch_id'' := v)) = unstamped r"
  "unstamped (r(''deleted_at'' := v)) = (unstamped r)(''deleted_at'' := v)"
  by (rule ext, simp add: unstamped_def)+

lemma unstamped_live: "live r \<Longrightarrow> (unstamped r)(''deleted_at'' := Null) = unstamped r"
  by (rule fun_upd_idem) (simp add: unstamped_def live_def)

lemma unstamped_revived: "live r \<Longrightarrow> unstamped (revived_link t now later r) = unstamped r"
  by (simp add: revived_link_def trashed_link_def stamp_revision_def unstamped_live del: fun_upd_apply)

lemma revive_link_step:
  assumes u: "unique_on (\<lambda>r. r ''id'') rows" and r: "r \<in> set rows" "owned ''contact_vcard_uid'' t r" "live r"
    and ent: "liveRowExists db ''entities'' (ct_user t) (r ''entity_id'')"
    and con: "contactLiveByUID db (ct_user t) (Txt (ct_uid t))"
    and prim: "\<And>s. s \<in> set rows \<Longrightarrow> owned ''contact_vcard_uid'' t s \<Longrightarrow> live s \<Longrightarrow> r ''is_primary'' = Num 1 \<Longrightarrow>
      s ''is_primary'' = Num 1 \<Longrightarrow> r ''kind'' = s ''kind'' \<Longrightarrow> r ''id'' = s ''id''"
  shows "revive_link (ct_user t) later (r ''id'') (db(''contact_entity_links'' := revived_rows t now later P rows), n) =
    (db(''contact_entity_links'' := revived_rows t now later (insert (r ''id'') P) rows), n)"
proof -
  let ?L = "''contact_entity_links''"
  let ?db = "db(?L := revived_rows t now later P rows)"
  let ?q = "\<lambda>s. s ''id'' = r ''id'' \<and> s ''user_id'' = Num (ct_user t) \<and> \<not> live s"
  define h where "h Q s = (if owned ''contact_vcard_uid'' t s \<and> live s
     then (if s ''id'' \<in> Q then revived_link t now later s else trashed_link t now s) else s)" for Q s
  have id: "h Q s ''id'' = s ''id''" for Q s by (simp add: h_def)
  have same: "s = r" if "s \<in> set rows" "s ''id'' = r ''id''" for s
    using unique_onD [OF u that(1) r(1) that(2)] .
  have all: "revived_rows t now later Q rows = map (h Q) rows" for Q by (simp add: revived_rows_def h_def)
  have rows: "?db ?L = map (h P) rows" by (simp add: all)
  have user: "r ''user_id'' = Num (ct_user t)" "r ''contact_vcard_uid'' = Txt (ct_uid t)"
    using r(2) by (simp_all add: owned_def)
  show ?thesis
  proof (cases "r ''id'' \<in> P")
    case True
    have "live (h P r)" using True r(2,3) by (simp add: h_def)
    then have "\<not> ?q (h P s)" if "s \<in> set rows" for s using same [OF that] by (cases "s = r") (auto simp: id)
    then have "find ?q (map (h P) rows) = None" by (auto simp: find_None_iff)
    then show ?thesis unfolding revive_link_def prod.case rows using True by (simp add: insert_absorb)
  next
    case False
    have hr: "h P r = trashed_link t now r" using False r(2,3) by (simp add: h_def)
    have found: "find ?q (?db ?L) = Some (trashed_link t now r)"
    proof (rule find_only)
      show "trashed_link t now r \<in> set (?db ?L)" unfolding rows set_map hr [symmetric] using r(1) by (rule imageI)
      show "?q (trashed_link t now r)" using user by simp
      fix x assume x: "x \<in> set (?db ?L)" "?q x"
      then obtain s where s: "s \<in> set rows" "x = h P s" unfolding rows set_map by (elim imageE)
      then have "s = r" using same [OF s(1)] x(2) by (simp add: id)
      then show "x = trashed_link t now r" using s(2) hr by simp
    qed
    have none: "\<not> (h P s ''user_id'' = Num (ct_user t) \<and> h P s ''contact_vcard_uid'' = Txt (ct_uid t) \<and>
        h P s ''kind'' = r ''kind'' \<and> h P s ''is_primary'' = Num 1 \<and> h P s ''id'' \<noteq> r ''id'' \<and> live (h P s))"
      if s: "s \<in> set rows" and pr: "r ''is_primary'' = Num 1" for s
    proof (cases "owned ''contact_vcard_uid'' t s \<and> live s")
      case True
      then show ?thesis using prim [OF s] pr by (auto simp: h_def)
    next
      case F: False
      then have "h P s = s" by (auto simp: h_def)
      then show ?thesis using F by (auto simp: owned_def)
    qed
    have free: "\<not> (r ''is_primary'' = Num 1 \<and> has_row ?L (\<lambda>s. s ''user_id'' = Num (ct_user t) \<and>
        s ''contact_vcard_uid'' = Txt (ct_uid t) \<and> s ''kind'' = r ''kind'' \<and> s ''is_primary'' = Num 1 \<and>
        s ''id'' \<noteq> r ''id'' \<and> live s) ?db)"
    proof
      assume a: "r ''is_primary'' = Num 1 \<and> has_row ?L (\<lambda>s. s ''user_id'' = Num (ct_user t) \<and>
        s ''contact_vcard_uid'' = Txt (ct_uid t) \<and> s ''kind'' = r ''kind'' \<and> s ''is_primary'' = Num 1 \<and>
        s ''id'' \<noteq> r ''id'' \<and> live s) ?db"
      then obtain s where "s \<in> set rows" "h P s ''user_id'' = Num (ct_user t) \<and> h P s ''contact_vcard_uid'' = Txt (ct_uid t) \<and>
        h P s ''kind'' = r ''kind'' \<and> h P s ''is_primary'' = Num 1 \<and> h P s ''id'' \<noteq> r ''id'' \<and> live (h P s)"
        unfolding has_row_def list_ex_iff rows set_map by (elim conjE bexE imageE) simp
      then show False using none a by blast
    qed
    have step: "h (insert (r ''id'') P) s = (if h P s ''id'' = r ''id'' \<and> h P s ''user_id'' = Num (ct_user t)
        then (h P s)(''deleted_at'' := Null, ''deletion_batch_id'' := Null, ''updated_at'' := Num later) else h P s)"
      if s: "s \<in> set rows" for s
    proof (cases "s = r")
      case True
      have new: "h (insert (r ''id'') P) r = revived_link t now later r" using r(2,3) by (simp add: h_def)
      show ?thesis unfolding True hr new using user by (simp add: revived_link_def del: fun_upd_apply)
    next
      case F: False
      then have "s ''id'' \<noteq> r ''id''" using same [OF s] by blast
      then have "h (insert (r ''id'') P) s = h P s" by (simp add: h_def)
      then show ?thesis using \<open>s ''id'' \<noteq> r ''id''\<close> by (simp add: id)
    qed
    have upd: "sql_update ?L (\<lambda>s. s ''id'' = r ''id'' \<and> s ''user_id'' = Num (ct_user t))
        (\<lambda>s. s(''deleted_at'' := Null, ''deletion_batch_id'' := Null, ''updated_at'' := Num later)) ?db =
        db(?L := revived_rows t now later (insert (r ''id'') P) rows)"
      unfolding sql_update_def rows all map_map by (simp add: o_def step cong: map_cong)
    have "liveRowExists ?db ''entities'' (ct_user t) (r ''entity_id'')" "contactLiveByUID ?db (ct_user t) (Txt (ct_uid t))"
      using ent con by (simp_all add: liveRowExists_def contactLiveByUID_def has_row_def)
    moreover have "(r ''is_primary'' = Num 1 \<and> has_row ?L (\<lambda>s. s ''user_id'' = Num (ct_user t) \<and>
        s ''contact_vcard_uid'' = Txt (ct_uid t) \<and> s ''kind'' = r ''kind'' \<and> s ''is_primary'' = Num 1 \<and>
        s ''id'' \<noteq> r ''id'' \<and> live s) ?db) = False" using free by blast
    ultimately show ?thesis
      unfolding revive_link_def prod.case found option.case Let_def link_columns user by (simp only: upd not_True_eq_False if_False)
  qed
qed

lemma revive_links_all:
  assumes u: "unique_on (\<lambda>r. r ''id'') rows"
    and ent: "\<And>r. r \<in> set rows \<Longrightarrow> owned ''contact_vcard_uid'' t r \<Longrightarrow> live r \<Longrightarrow>
      liveRowExists db ''entities'' (ct_user t) (r ''entity_id'')"
    and con: "contactLiveByUID db (ct_user t) (Txt (ct_uid t))"
    and prim: "\<And>r s. r \<in> set rows \<Longrightarrow> s \<in> set rows \<Longrightarrow> owned ''contact_vcard_uid'' t r \<Longrightarrow>
      owned ''contact_vcard_uid'' t s \<Longrightarrow> live r \<Longrightarrow> live s \<Longrightarrow> r ''is_primary'' = Num 1 \<Longrightarrow>
      s ''is_primary'' = Num 1 \<Longrightarrow> r ''kind'' = s ''kind'' \<Longrightarrow> r ''id'' = s ''id''"
    and ids: "\<And>i. i \<in> set ids \<Longrightarrow> \<exists>r\<in>set rows. owned ''contact_vcard_uid'' t r \<and> live r \<and> i = r ''id''"
  shows "fold (revive_link (ct_user t) later) ids (db(''contact_entity_links'' := revived_rows t now later P rows), n) =
    (db(''contact_entity_links'' := revived_rows t now later (P \<union> set ids) rows), n)"
  using ids
proof (induction ids arbitrary: P)
  case (Cons i ids)
  obtain r where r: "r \<in> set rows" "owned ''contact_vcard_uid'' t r" "live r" "i = r ''id''"
    using Cons.prems [of i] by auto
  have "revive_link (ct_user t) later i (db(''contact_entity_links'' := revived_rows t now later P rows), n) =
      (db(''contact_entity_links'' := revived_rows t now later (insert i P) rows), n)"
    unfolding r(4) by (rule revive_link_step [OF u r(1-3) ent [OF r(1-3)] con]) (rule prim [OF r(1) _ r(2) _ r(3)])
  moreover have "fold (revive_link (ct_user t) later) ids (db(''contact_entity_links'' := revived_rows t now later (insert i P) rows), n) =
      (db(''contact_entity_links'' := revived_rows t now later (insert i P \<union> set ids) rows), n)"
    using Cons.prems by (intro Cons.IH) simp
  ultimately show ?case by (simp del: fun_upd_apply)
qed simp

lemma revived_none: "revived_rows t now later {} rows =
    map (\<lambda>r. if owned ''contact_vcard_uid'' t r \<and> live r then trashed_link t now r else r) rows"
  by (simp add: revived_rows_def)

lemma unstamped_revived_rows:
  assumes "\<And>r. r \<in> set rows \<Longrightarrow> owned ''contact_vcard_uid'' t r \<Longrightarrow> live r \<Longrightarrow> r ''id'' \<in> P"
  shows "map unstamped (revived_rows t now later P rows) = map unstamped rows"
  using assms unstamped_revived by (simp add: revived_rows_def)

section \<open>The round trip\<close>

definition soft_tables :: "string list" where
  "soft_tables = map cs_table (filter (\<lambda>st. cs_mode st = CascadeSoft) ContactCascadeRegistry)"

text \<open>What a table holds after delete and restore, against what it held before.\<close>

definition came_back :: "cascade_target \<Rightarrow> tables \<Rightarrow> string \<Rightarrow> row list \<Rightarrow> bool" where
  "came_back t db u rows \<longleftrightarrow>
     (if u \<in> set snapshotRestorers then mset rows = mset (db u)
      else if u \<in> {''contacts'', ''users''} \<union> set soft_tables then map unstamped rows = map unstamped (db u)
      else filter (\<lambda>r. \<not> refers t db u r) rows = filter (\<lambda>r. \<not> refers t db u r) (db u))"

lemma tables_apart:
  "set snapshotRestorers \<inter> set soft_tables = {}" "''contacts'' \<notin> set soft_tables" "''users'' \<notin> set soft_tables"
  "''contacts'' \<notin> set snapshotRestorers" "''users'' \<notin> set snapshotRestorers"
  "''entities'' \<notin> set soft_tables" "''entities'' \<notin> cs_table ` set ContactCascadeRegistry"
  by (simp_all add: snapshotRestorers_def soft_tables_def cascade_steps)

lemma parents_apart:
  "list_all (\<lambda>u. list_all (\<lambda>(c, parent). parent \<notin> set snapshotRestorers \<and> parent \<notin> set soft_tables) (foreign_keys u))
     snapshotRestorers"
  "list_all (\<lambda>u. u \<notin> set snapshotRestorers \<and> u \<notin> set soft_tables)
     [''activities'', ''contacts'', ''occasion_events'']"
  by (simp_all add: snapshotRestorers_def soft_tables_def cascade_steps foreign_keys_def)

lemma undeleted_contacts:
  "undelete_contact u c g db ''contacts'' = map (\<lambda>r. if r ''id'' = Num c \<and> r ''user_id'' = Num u
     then stamp_revision (r(''deleted_at'' := Null, ''updated_at'' := Num g)) else r) (db ''contacts'')"
  "v \<noteq> ''contacts'' \<Longrightarrow> undelete_contact u c g db v = db v"
  by (simp_all add: undelete_contact_def)

lemma stamp_columns_kept:
  "stamp_revision r ''id'' = r ''id''" "stamp_revision r ''user_id'' = r ''user_id''"
  "stamp_revision r ''vcard_uid'' = r ''vcard_uid''" "live (stamp_revision r) = live r" "unstamped (stamp_revision r) = unstamped r"
  by (simp_all add: stamp_revision_def live_def del: fun_upd_apply) (simp_all add: fun_upd_apply)

text \<open>One contact after delete and un-delete.\<close>

definition cycled_contact :: "cascade_target \<Rightarrow> int \<Rightarrow> int \<Rightarrow> row \<Rightarrow> row" where
  "cycled_contact t g later r =
     (let r' = (if r ''id'' = Num (ct_id t) \<and> live r then r(''deleted_at'' := Num g, ''updated_at'' := Num g) else r)
      in if r' ''id'' = Num (ct_id t) \<and> r' ''user_id'' = Num (ct_user t)
         then stamp_revision (r'(''deleted_at'' := Null, ''updated_at'' := Num later)) else r')"

lemma contact_cycle:
  assumes "contact_present t db" and "r \<in> set (db ''contacts'')"
  shows "unstamped (cycled_contact t g later r) = unstamped r" "cycled_contact t g later r ''id'' = r ''id''"
    "cycled_contact t g later r ''user_id'' = r ''user_id''" "cycled_contact t g later r ''vcard_uid'' = r ''vcard_uid''"
    "live (cycled_contact t g later r) = live r"
proof -
  let ?f = "cycled_contact t g later r"
  obtain c where c: "c \<in> set (db ''contacts'')" "c ''id'' = Num (ct_id t)" "c ''user_id'' = Num (ct_user t)" "live c"
    using assms(1) by (auto simp: contact_present_def list_ex_iff)
  have u: "unique_on (\<lambda>r. r ''id'') (db ''contacts'')" using assms(1) by (simp add: contact_present_def)
  have "unstamped ?f = unstamped r \<and> ?f ''id'' = r ''id'' \<and> ?f ''user_id'' = r ''user_id'' \<and>
    ?f ''vcard_uid'' = r ''vcard_uid'' \<and> live ?f = live r"
  proof (cases "r ''id'' = Num (ct_id t)")
    case True
    then have "r = c" using unique_onD [OF u assms(2) c(1)] c(2) by simp
    then have f: "?f = stamp_revision (r(''deleted_at'' := Num g, ''updated_at'' := Num g, ''deleted_at'' := Null, ''updated_at'' := Num later))"
      using c by (simp add: cycled_contact_def Let_def)
    have "unstamped ?f = (unstamped r)(''deleted_at'' := Null)"
      unfolding f stamp_columns_kept unstamped_upd by simp
    then have "unstamped ?f = unstamped r" using unstamped_live c(4) \<open>r = c\<close> by simp
    then show ?thesis unfolding f stamp_columns_kept using c(4) \<open>r = c\<close> by (simp add: live_def)
  next
    case False
    then show ?thesis by (simp add: cycled_contact_def Let_def)
  qed
  then show "unstamped ?f = unstamped r" "?f ''id'' = r ''id''" "?f ''user_id'' = r ''user_id''"
    "?f ''vcard_uid'' = r ''vcard_uid''" "live ?f = live r" by simp_all
qed

definition undeleted :: "cascade_target \<Rightarrow> int \<Rightarrow> int \<Rightarrow> int \<Rightarrow> tables \<Rightarrow> tables" where
  "undeleted t now g later db = undelete_contact (ct_user t) (ct_id t) later (DeleteContactInTx t now g db)"

lemma undeleted_tables:
  "undeleted t now g later db ''contacts'' = map (cycled_contact t g later) (db ''contacts'')"
  "v \<noteq> ''contacts'' \<Longrightarrow> undeleted t now g later db v = DeleteContactInTx t now g db v"
  by (simp_all add: undeleted_def undeleted_contacts deleted_contacts cycled_contact_def Let_def)

lemma contacts_cycled:
  assumes "contact_present t db"
  shows "map unstamped (undeleted t now g later db ''contacts'') = map unstamped (db ''contacts'')"
    and "contactLiveByUID (undeleted t now g later db) (ct_user t) x = contactLiveByUID db (ct_user t) x"
    and "has_row ''contacts'' (\<lambda>p. p ''id'' = y) (undeleted t now g later db) = has_row ''contacts'' (\<lambda>p. p ''id'' = y) db"
proof -
  note f = contact_cycle [OF assms]
  show "map unstamped (undeleted t now g later db ''contacts'') = map unstamped (db ''contacts'')"
    by (simp add: undeleted_tables f(1))
  show "contactLiveByUID (undeleted t now g later db) (ct_user t) x = contactLiveByUID db (ct_user t) x"
    by (simp add: contactLiveByUID_def has_row_def undeleted_tables list_ex_iff f(3-5))
  show "has_row ''contacts'' (\<lambda>p. p ''id'' = y) (undeleted t now g later db) = has_row ''contacts'' (\<lambda>p. p ''id'' = y) db"
    by (simp add: has_row_def undeleted_tables list_ex_iff f(2))
qed

definition soft_entries :: "cascade_target \<Rightarrow> tables \<Rightarrow> (string \<times> cell list) list" where
  "soft_entries t db = sort_key fst (concat (map (capture_soft t db) ContactCascadeRegistry))"

definition hard_entries :: "cascade_target \<Rightarrow> tables \<Rightarrow> (string \<times> row list) list" where
  "hard_entries t db = sort_key fst (concat (map (capture_hard t db) ContactCascadeRegistry))"

lemma soft_entries_iff:
  "(T, ids) \<in> set (soft_entries t db) \<longleftrightarrow>
     (\<exists>st\<in>set ContactCascadeRegistry. cs_table st = T \<and> cs_mode st = CascadeSoft \<and> ids \<noteq> [] \<and>
        ids = map (\<lambda>r. r ''id'') (filter (\<lambda>r. cs_match st t db r \<and> live r) (db T)))"
  unfolding soft_entries_def set_sort by (rule capture_soft_iff)

lemma soft_entry_tables: "fst ` set (soft_entries t db) \<subseteq> set soft_tables"
  by (auto simp: soft_entries_iff soft_tables_def)

lemma soft_table_step:
  assumes "T \<in> set soft_tables"
  obtains st where "st \<in> set ContactCascadeRegistry" "cs_table st = T" "cs_mode st = CascadeSoft"
  using assms by (auto simp: soft_tables_def)

lemma table_determines:
  "st \<in> set ContactCascadeRegistry \<Longrightarrow> st' \<in> set ContactCascadeRegistry \<Longrightarrow> cs_table st = cs_table st' \<Longrightarrow> st = st'"
  using registry_distinct by (metis distinct_map inj_onD)

lemma soft_not_contacts: "T \<in> set soft_tables \<Longrightarrow> T \<noteq> ''contacts''"
  using tables_apart(2) by blast

lemma soft_kinds:
  assumes "st \<in> set ContactCascadeRegistry" and "cs_mode st = CascadeSoft"
  obtains (plain) "plain_step st"
    | (of_notes) "st = (soft ''notes'' byID)\<lparr>cs_after := Some touch_notes\<rparr>"
    | (of_links) "st = (soft ''contact_entity_links'' byContactUID)\<lparr>cs_apply := Some trash_links\<rparr>"
  using assms(1)
proof (cases rule: registry_cases)
  case special
  then show ?thesis using assms(2) of_notes of_links by (auto simp: special_steps_def mutate_def)
qed (use plain in simp)

text \<open>A soft table other than the links, trashed and then revived by the identifiers captured.\<close>

lemma soft_table_revived:
  assumes st: "st \<in> set ContactCascadeRegistry" "cs_mode st = CascadeSoft" "cs_table st \<noteq> ''contact_entity_links''"
    and i: "step_intact t db st" and ids: "set ids = (\<lambda>r. r ''id'') ` set (filter (\<lambda>r. cs_match st t db r \<and> live r) (db (cs_table st)))"
  shows "map unstamped (map (\<lambda>r. if r ''id'' \<in> set ids \<and> r ''user_id'' = Num (ct_user t) \<and> \<not> live r
      then r(''deleted_at'' := Null, ''updated_at'' := Num later) else r) (DeleteContactInTx t now g db (cs_table st)))
    = map unstamped (db (cs_table st))"
proof -
  have u: "unique_on (\<lambda>r. r ''id'') (db (cs_table st))"
    and own: "\<And>r. r \<in> set (db (cs_table st)) \<Longrightarrow> cs_match st t db r \<and> live r \<Longrightarrow> r ''user_id'' = Num (ct_user t) \<and> live r"
    using i st(2) by (auto simp: step_intact_def list_all_iff)
  from st(1,2) show ?thesis
  proof (cases rule: soft_kinds)
    case plain
    have d: "DeleteContactInTx t now g db (cs_table st) =
        map (\<lambda>r. id (if cs_match st t db r \<and> live r then r(''deleted_at'' := Num g) else r)) (db (cs_table st))"
      using deleted_plain [OF st(1) plain] st(2) by simp
    show ?thesis unfolding d by (rule revive_trashed [OF u own _ ids]) simp_all
  next
    case of_notes
    then have n: "cs_table st = ''notes''" "cs_match st = byID" by (simp_all add: soft_def)
    have d: "DeleteContactInTx t now g db (cs_table st) = map (\<lambda>r. (\<lambda>r. if r ''contact_id'' = Num (ct_id t) \<and>
        r ''user_id'' = Num (ct_user t) \<and> \<not> live r then r(''updated_at'' := Num now) else r)
        (if cs_match st t db r \<and> live r then r(''deleted_at'' := Num g) else r)) (db (cs_table st))"
      unfolding n deleted_notes by (simp only: o_def)
    show ?thesis unfolding d by (rule revive_trashed [OF u own _ ids, where v = "Num now"]) (simp_all del: fun_upd_apply)
  next
    case of_links
    then show ?thesis using st(3) by (simp add: soft_def)
  qed
qed

lemma soft_table_empty:
  assumes st: "st \<in> set ContactCascadeRegistry" "cs_mode st = CascadeSoft" and i: "step_intact t db st"
    and none: "filter (\<lambda>r. cs_match st t db r \<and> live r) (db (cs_table st)) = []"
  shows "map unstamped (DeleteContactInTx t now g db (cs_table st)) = map unstamped (db (cs_table st))"
proof (cases "cs_table st = ''contact_entity_links''")
  case True
  then have m: "cs_match st = byContactUID"
    using table_determines [OF st(1) step_in_registry(3)] by (simp add: soft_def)
  have "\<not> (owned ''contact_vcard_uid'' t r \<and> live r)" if "r \<in> set (db ''contact_entity_links'')" for r
    using none that True m by (auto simp: filter_empty_conv byContactUID_def)
  then show ?thesis unfolding True deleted_links by (auto simp: map_idI intro!: map_cong)
next
  case False
  have "map unstamped (map (\<lambda>r. if r ''id'' \<in> set [] \<and> r ''user_id'' = Num (ct_user t) \<and> \<not> live r
      then r(''deleted_at'' := Null, ''updated_at'' := Num 0) else r) (DeleteContactInTx t now g db (cs_table st)))
    = map unstamped (db (cs_table st))"
    by (rule soft_table_revived [OF st False i]) (simp add: none)
  then show ?thesis by (simp add: o_def)
qed

lemma soft_walk:
  fixes now g later stamp :: int
  assumes ok: "intact t db"
  defines "start \<equiv> (undeleted t now g later db, [])"
  defines "walk \<equiv> fold (restore_soft_table (ct_user t) stamp) (soft_entries t db) start"
  shows "snd walk = []"
    and "T \<notin> set soft_tables \<Longrightarrow> fst walk T = undeleted t now g later db T"
    and "T \<in> set soft_tables \<Longrightarrow> map unstamped (fst walk T) = map unstamped (db T)"
proof -
  let ?L = "''contact_entity_links''"
  have dist: "distinct (map fst (soft_entries t db))" unfolding soft_entries_def by (rule distinct_soft)
  have steps: "step_intact t db st" if "st \<in> set ContactCascadeRegistry" for st
    using ok that by (auto simp: intact_def list_all_iff)
  have present: "contact_present t db" and links: "links_intact t db" using ok by (auto simp: intact_def)
  have link_st: "(soft ?L byContactUID)\<lparr>cs_apply := Some trash_links\<rparr> \<in> set ContactCascadeRegistry" by (rule step_in_registry(3))
  have revive: "fold (revive_link (ct_user t) stamp) ids (db', n) =
      (db'(?L := revived_rows t now stamp (set ids) (db ?L)), n)"
    if ids: "ids = map (\<lambda>r. r ''id'') (filter (\<lambda>r. byContactUID t db r \<and> live r) (db ?L))"
      and same: "db' ''entities'' = db ''entities''" "db' ?L = revived_rows t now stamp {} (db ?L)"
        "db' ''contacts'' = undeleted t now g later db ''contacts''" for ids db' n
  proof -
    have u: "unique_on (\<lambda>r. r ''id'') (db ?L)" using steps [OF link_st] by (simp add: step_intact_def soft_def)
    have ent: "liveRowExists db' ''entities'' (ct_user t) (r ''entity_id'')"
      if "r \<in> set (db ?L)" "owned ''contact_vcard_uid'' t r" "live r" for r
      using links that same(1) by (auto simp: links_intact_def list_all_iff liveRowExists_def has_row_def)
    have "contactLiveByUID db (ct_user t) (Txt (ct_uid t))"
      using present by (auto simp: contact_present_def contactLiveByUID_def has_row_def list_ex_iff)
    then have "contactLiveByUID (undeleted t now g later db) (ct_user t) (Txt (ct_uid t))"
      using contacts_cycled(2) [OF present] by simp
    then have con: "contactLiveByUID db' (ct_user t) (Txt (ct_uid t))"
      unfolding contactLiveByUID_def has_row_def same(3) .
    have prim: "r ''id'' = s ''id''" if "r \<in> set (db ?L)" "s \<in> set (db ?L)" "owned ''contact_vcard_uid'' t r"
      "owned ''contact_vcard_uid'' t s" "live r" "live s" "r ''is_primary'' = Num 1" "s ''is_primary'' = Num 1"
      "r ''kind'' = s ''kind''" for r s
      using links that unfolding links_intact_def list_all_iff by blast
    have mem: "\<exists>r\<in>set (db ?L). owned ''contact_vcard_uid'' t r \<and> live r \<and> i = r ''id''" if "i \<in> set ids" for i
      using that ids by (auto simp: byContactUID_def)
    have "db' = db'(?L := revived_rows t now stamp {} (db ?L))" using same(2) by auto
    moreover have "fold (revive_link (ct_user t) stamp) ids (db'(?L := revived_rows t now stamp {} (db ?L)), n) =
      (db'(?L := revived_rows t now stamp ({} \<union> set ids) (db ?L)), n)"
      by (rule revive_links_all [OF u]) (fact ent con prim mem)+
    ultimately show ?thesis by simp
  qed
  have start_L: "undeleted t now g later db ?L = revived_rows t now stamp {} (db ?L)"
    by (simp add: undeleted_tables deleted_links revived_rows_def trashed_link_def)
  have start_E: "undeleted t now g later db ''entities'' = db ''entities''"
    using tables_apart(7) by (simp add: undeleted_tables delete_other cascade_other)
  have other: "fst (restore_soft_table (ct_user t) stamp e st) v = fst st v" if "v \<noteq> fst e" for e st v
    by (rule restore_soft_other [OF that])
  have frame: "fst st' v = undeleted t now g later db v"
    if "\<forall>u. u \<notin> fst ` (set (soft_entries t db) - {e}) \<longrightarrow> fst st' u = fst start u" "e \<in> set (soft_entries t db)"
      "v = fst e \<or> v \<notin> set soft_tables" for e st' v
  proof -
    have "v \<notin> fst ` (set (soft_entries t db) - {e})"
    proof
      assume "v \<in> fst ` (set (soft_entries t db) - {e})"
      then obtain e' where e': "e' \<in> set (soft_entries t db)" "e' \<noteq> e" "v = fst e'" by auto
      then have "v \<noteq> fst e" using dist that(2) by (metis distinct_map inj_onD)
      then show False using that(3) e' soft_entry_tables by blast
    qed
    then show ?thesis using that(1) by (simp add: start_def)
  qed
  show "snd walk = []"
    unfolding walk_def start_def [symmetric]
  proof (rule trans [OF walk_reports [where tbl = fst]])
    fix e and st' :: "tables \<times> skip list"
    assume e: "e \<in> set (soft_entries t db)" and a: "\<forall>u. u \<notin> fst ` (set (soft_entries t db) - {e}) \<longrightarrow> fst st' u = fst start u"
    obtain T ids where e': "e = (T, ids)" by (cases e)
    show "snd (restore_soft_table (ct_user t) stamp e st') = snd st'"
    proof (cases "T = ?L")
      case True
      obtain st where "st \<in> set ContactCascadeRegistry" "cs_table st = ?L"
        "ids = map (\<lambda>r. r ''id'') (filter (\<lambda>r. cs_match st t db r \<and> live r) (db ?L))"
        using e e' True by (auto simp: soft_entries_iff)
      moreover have "cs_match st = byContactUID"
        using table_determines [OF calculation(1) link_st] calculation(2) by (simp add: soft_def)
      ultimately have "fold (revive_link (ct_user t) stamp) ids (fst st', \<lparr>lc_demoted = 0, lc_entity = 0, lc_contact = 0\<rparr>) =
        ((fst st')(?L := revived_rows t now stamp (set ids) (db ?L)), \<lparr>lc_demoted = 0, lc_entity = 0, lc_contact = 0\<rparr>)"
        using frame [OF a e] e' True tables_apart(2,6) start_L start_E by (intro revive) simp_all
      then show ?thesis unfolding e' True
        by (cases st') (simp add: restore_soft_table_def reviveContactEntityLinks_def)
    next
      case False
      then show ?thesis unfolding e' by (cases st') (simp add: restore_soft_table_def)
    qed
  qed (simp_all add: dist other start_def)
  show "T \<notin> set soft_tables \<Longrightarrow> fst walk T = undeleted t now g later db T"
    using walk_untouched [of "soft_entries t db" fst "restore_soft_table (ct_user t) stamp" T start, OF other] soft_entry_tables [of t db]
    unfolding walk_def by (auto simp: start_def)
  assume T: "T \<in> set soft_tables"
  then obtain st where st: "st \<in> set ContactCascadeRegistry" "cs_table st = T" "cs_mode st = CascadeSoft"
    by (rule soft_table_step)
  define ids where "ids = map (\<lambda>r. r ''id'') (filter (\<lambda>r. cs_match st t db r \<and> live r) (db T))"
  have D: "undeleted t now g later db T = DeleteContactInTx t now g db T"
    using T soft_not_contacts by (simp add: undeleted_tables)
  show "map unstamped (fst walk T) = map unstamped (db T)"
  proof (cases "ids = []")
    case True
    have "T \<notin> fst ` set (soft_entries t db)"
    proof
      assume "T \<in> fst ` set (soft_entries t db)"
      then obtain js where "(T, js) \<in> set (soft_entries t db)" by auto
      then obtain st' where "st' \<in> set ContactCascadeRegistry" "cs_table st' = T" "js \<noteq> []"
        "js = map (\<lambda>r. r ''id'') (filter (\<lambda>r. cs_match st' t db r \<and> live r) (db T))" by (auto simp: soft_entries_iff)
      then show False using True table_determines [OF st(1)] st(2) by (auto simp: ids_def)
    qed
    then have "fst walk T = undeleted t now g later db T"
      using walk_untouched [of "soft_entries t db" fst "restore_soft_table (ct_user t) stamp" T start] other
      unfolding walk_def start_def by simp
    then show ?thesis using soft_table_empty [OF st(1,3) steps [OF st(1)]] True D st(2) by (simp add: ids_def)
  next
    case False
    then have e: "(T, ids) \<in> set (soft_entries t db)" using st by (auto simp: soft_entries_iff ids_def)
    obtain st' where a: "\<forall>u. u \<notin> fst ` (set (soft_entries t db) - {(T, ids)}) \<longrightarrow> fst st' u = fst start u"
      and w: "fst walk T = fst (restore_soft_table (ct_user t) stamp (T, ids) st') T"
      using walk_visits [where tbl = fst and step = "restore_soft_table (ct_user t) stamp" and st = start, OF other dist e]
      unfolding walk_def by auto
    show ?thesis
    proof (cases "T = ?L")
      case True
      have m: "cs_match st = byContactUID" using table_determines [OF st(1) link_st] st(2) True by (simp add: soft_def)
      have "fold (revive_link (ct_user t) stamp) ids (fst st', \<lparr>lc_demoted = 0, lc_entity = 0, lc_contact = 0\<rparr>) =
        ((fst st')(?L := revived_rows t now stamp (set ids) (db ?L)), \<lparr>lc_demoted = 0, lc_entity = 0, lc_contact = 0\<rparr>)"
        using frame [OF a e] True tables_apart(2,6) start_L start_E m by (intro revive) (simp_all add: ids_def)
      then have "fst walk T = revived_rows t now stamp (set ids) (db T)"
        using w unfolding True by (cases st') (simp add: restore_soft_table_def reviveContactEntityLinks_def)
      moreover have "r ''id'' \<in> set ids" if "r \<in> set (db T)" "owned ''contact_vcard_uid'' t r" "live r" for r
        using that by (auto simp: ids_def m byContactUID_def)
      ultimately show ?thesis using unstamped_revived_rows [of "db T" t "set ids" now stamp] by simp
    next
      case F: False
      have "fst walk T = map (\<lambda>r. if r ''id'' \<in> set ids \<and> r ''user_id'' = Num (ct_user t) \<and> \<not> live r
          then r(''deleted_at'' := Null, ''updated_at'' := Num stamp) else r) (DeleteContactInTx t now g db T)"
        unfolding w using F frame [OF a e] D
        by (cases st') (simp add: restore_soft_table_def revive_soft_def del: fun_upd_apply)
      then show ?thesis using soft_table_revived [OF st(1,3) _ steps [OF st(1)], where ids = ids] F st(2) by (simp add: ids_def)
    qed
  qed
qed


section \<open>The hard tables\<close>

lemma hard_entries_iff:
  "(T, rows) \<in> set (hard_entries t db) \<longleftrightarrow>
     (\<exists>st\<in>set ContactCascadeRegistry. cs_table st = T \<and> cs_mode st = CascadeHard \<and> T \<in> set snapshotRestorers \<and>
        rows \<noteq> [] \<and> rows = filter (cs_match st t db) (db T))"
  unfolding hard_entries_def set_sort by (rule capture_hard_iff)

lemma hard_entry_tables: "fst ` set (hard_entries t db) \<subseteq> set snapshotRestorers"
  by (auto simp: hard_entries_iff)

lemma restorers_hard:
  "list_all (\<lambda>T. list_ex (\<lambda>st. cs_table st = T \<and> cs_mode st = CascadeHard \<and> plain_step st) ContactCascadeRegistry)
     snapshotRestorers"
  by (simp add: snapshotRestorers_def cascade_steps plain_step_def)

lemma restorer_step:
  assumes "T \<in> set snapshotRestorers"
  obtains st where "st \<in> set ContactCascadeRegistry" "cs_table st = T" "cs_mode st = CascadeHard" "plain_step st"
  using assms restorers_hard by (auto simp: list_all_iff list_ex_iff)

lemma deleted_restorable:
  "st \<in> set ContactCascadeRegistry \<Longrightarrow> cs_mode st = CascadeHard \<Longrightarrow> plain_step st \<Longrightarrow> cs_table st \<noteq> ''contacts'' \<Longrightarrow>
   undeleted t now g later db (cs_table st) = filter (\<lambda>r. \<not> cs_match st t db r) (db (cs_table st))"
  using deleted_plain [of st t now g db] by (simp add: undeleted_tables)

definition parent_tables :: "string list" where
  "parent_tables = [''activities'', ''contacts'', ''occasion_events'', ''users'', ''households'', ''circles'', ''tags'',
     ''field_definitions'']"

lemma parent_facts:
  "list_all (\<lambda>T. list_all (\<lambda>(c, parent). parent \<in> set parent_tables) (foreign_keys T)) snapshotRestorers"
  "list_all (\<lambda>T. T \<notin> set snapshotRestorers \<and> T \<notin> set soft_tables) parent_tables"
  "list_all (\<lambda>T. T \<in> {''contacts'', ''users''} \<or> T \<notin> cs_table ` set ContactCascadeRegistry) parent_tables"
  by (simp_all add: snapshotRestorers_def soft_tables_def cascade_steps foreign_keys_def parent_tables_def)

lemma parents_kept:
  assumes "contact_present t db" and "parent \<in> set parent_tables"
  shows "has_row parent (\<lambda>p. p ''id'' = x) (undeleted t now g later db) = has_row parent (\<lambda>p. p ''id'' = x) db"
proof -
  consider "parent = ''contacts''" | "parent = ''users''" | "parent \<noteq> ''contacts''" "parent \<notin> cs_table ` set ContactCascadeRegistry"
    using assms(2) parent_facts(3) by (auto simp: list_all_iff)
  then show ?thesis
  proof cases
    case 1
    then show ?thesis using contacts_cycled(3) [OF assms(1)] by simp
  next
    case 2
    have "list_ex (\<lambda>p. p ''id'' = x) (map (\<lambda>r. if P r then r(''self_contact_vcard_uid'' := v,
      ''self_contact_ambient_set'' := w, ''updated_at'' := z) else r) rs) = list_ex (\<lambda>p. p ''id'' = x) rs" for P v w z and rs :: "row list"
      by (induction rs) simp_all
    then show ?thesis unfolding 2 by (simp add: has_row_def undeleted_tables deleted_users del: fun_upd_apply)
  next
    case 3
    then show ?thesis by (simp add: has_row_def undeleted_tables delete_other cascade_other)
  qed
qed

lemma valid_again:
  assumes "contact_present t db" and "\<And>v. v \<in> set parent_tables \<Longrightarrow> db' v = undeleted t now g later db v"
    and "T \<in> set snapshotRestorers"
  shows "restorer_valid T db' (ct_user t) r = restorer_valid T db (ct_user t) r"
    and "referents_exist T db' r = referents_exist T db r"
proof -
  have "undeleted t now g later db v = db v" if "v = ''activities'' \<or> v = ''occasion_events''" for v
  proof -
    have "v \<noteq> ''contacts''" "v \<notin> cs_table ` set ContactCascadeRegistry" using that by (auto simp: cascade_steps)
    then show ?thesis by (simp add: undeleted_tables delete_other cascade_other)
  qed
  moreover have "db' ''contacts'' = undeleted t now g later db ''contacts''"
    "db' ''activities'' = undeleted t now g later db ''activities''"
    "db' ''occasion_events'' = undeleted t now g later db ''occasion_events''"
    by (simp_all add: assms(2) parent_tables_def)
  ultimately have e: "db' ''activities'' = db ''activities''" "db' ''occasion_events'' = db ''occasion_events''"
    and c: "db' ''contacts'' = undeleted t now g later db ''contacts''" by simp_all
  have "contactLiveByUID db' (ct_user t) x = contactLiveByUID db (ct_user t) x" for x
    using contacts_cycled(2) [OF assms(1)] by (simp add: contactLiveByUID_def has_row_def c)
  then show "restorer_valid T db' (ct_user t) r = restorer_valid T db (ct_user t) r"
    by (simp add: restorer_valid_def liveRowExists_def has_row_def e)
  have "has_row parent (\<lambda>p. p ''id'' = x) db' = has_row parent (\<lambda>p. p ''id'' = x) db"
    if "(c, parent) \<in> set (foreign_keys T)" for c parent x
  proof -
    have "parent \<in> set parent_tables" using that assms(3) parent_facts(1) by (auto simp: list_all_iff)
    then show ?thesis using parents_kept [OF assms(1)] assms(2) by (simp add: has_row_def)
  qed
  then show "referents_exist T db' r = referents_exist T db r" by (auto simp: referents_exist_def list_all_iff)
qed

lemma mset_split: "mset (filter (\<lambda>r. \<not> p r) rs @ filter p rs) = mset rs"
  by (induction rs) auto

text \<open>One table's captured rows, put back.\<close>

lemma hard_table_restored:
  assumes ok: "intact t db" and e: "(T, rows) \<in> set (hard_entries t db)"
    and same: "\<And>v. v = T \<or> v \<in> set parent_tables \<Longrightarrow> db' v = undeleted t now g later db v"
  shows "restore_hard_table (ct_user t) (T, rows) (db', skips) = (db'(T := db' T @ rows), skips)"
    and "mset (db' T @ rows) = mset (db T)"
proof -
  obtain st where st: "st \<in> set ContactCascadeRegistry" "cs_table st = T" "cs_mode st = CascadeHard" "T \<in> set snapshotRestorers"
    and rows: "rows = filter (cs_match st t db) (db T)" using e by (auto simp: hard_entries_iff)
  obtain st' where st': "st' \<in> set ContactCascadeRegistry" "cs_table st' = T" "plain_step st'"
    using restorer_step [OF st(4)] by metis
  then have plain: "plain_step st" using table_determines [OF st(1) st'(1)] st(2) by simp
  have T: "T \<noteq> ''contacts''" "T \<notin> {''activities'', ''contacts'', ''occasion_events''}"
    using st(4) parent_facts(2) by (auto simp: list_all_iff parent_tables_def)
  have left: "db' T = filter (\<lambda>r. \<not> cs_match st t db r) (db T)"
    using deleted_restorable [OF st(1,3) plain] T(1) st(2) same by simp
  have i: "step_intact t db st" and present: "contact_present t db" using ok st(1) by (auto simp: intact_def list_all_iff)
  have ok_rows: "no_clash T (db T)" "\<forall>r\<in>set rows. r ''user_id'' \<in> {Null, Num (ct_user t)}"
    "\<forall>r\<in>set rows. restorer_valid T db (ct_user t) r \<and> referents_exist T db r"
    using i st rows by (auto simp: step_intact_def list_all_iff)
  have again: "restorer_valid T db' (ct_user t) r = restorer_valid T db (ct_user t) r"
    "referents_exist T db' r = referents_exist T db r" for r
    using valid_again [OF present _ st(4), of db' now g later r] same by blast+
  have "restoreRows (ct_user t) T rows db' = (db'(T := db' T @ rows), 0)"
  proof (rule restore_rows_all)
    show "no_clash T (db' T @ rows)" unfolding left rows by (rule no_clash_split [OF ok_rows(1)])
    show "\<forall>r\<in>set rows. restorer_valid T db' (ct_user t) r \<and> referents_exist T db' r"
      using ok_rows(3) again by simp
    show "\<forall>(c, parent)\<in>set (foreign_keys T). parent \<noteq> T"
      using st(4) parents_apart(1) by (auto simp: list_all_iff)
  qed (use ok_rows(2) T(2) in auto)
  then show "restore_hard_table (ct_user t) (T, rows) (db', skips) = (db'(T := db' T @ rows), skips)"
    by (simp add: restore_hard_table_def)
  show "mset (db' T @ rows) = mset (db T)" unfolding left rows by (rule mset_split)
qed

lemma hard_walk:
  fixes now g later :: int
  assumes ok: "intact t db" and start: "\<And>v. v \<notin> set soft_tables \<Longrightarrow> fst start v = undeleted t now g later db v"
  defines "walk \<equiv> fold (restore_hard_table (ct_user t)) (hard_entries t db) start"
  shows "snd walk = snd start"
    and "T \<notin> set snapshotRestorers \<Longrightarrow> fst walk T = fst start T"
    and "T \<in> set snapshotRestorers \<Longrightarrow> mset (fst walk T) = mset (db T)"
proof -
  let ?es = "hard_entries t db"
  have dist: "distinct (map fst ?es)" unfolding hard_entries_def by (rule distinct_hard)
  have other: "fst (restore_hard_table (ct_user t) e st) v = fst st v" if "v \<noteq> fst e" for e st v
    by (rule restore_hard_other [OF that])
  have apart: "v \<notin> set soft_tables" if "v \<in> set snapshotRestorers \<or> v \<in> set parent_tables" for v
    using that tables_apart(1) parent_facts(2) by (auto simp: list_all_iff)
  have frame: "fst st' v = undeleted t now g later db v"
    if a: "\<forall>u. u \<notin> fst ` (set ?es - {e}) \<longrightarrow> fst st' u = fst start u" and e: "e \<in> set ?es"
      and v: "v = fst e \<or> v \<in> set parent_tables" for e st' v
  proof -
    have "v \<notin> fst ` (set ?es - {e})"
    proof
      assume "v \<in> fst ` (set ?es - {e})"
      then obtain e' where e': "e' \<in> set ?es" "e' \<noteq> e" "v = fst e'" by auto
      then have "v \<noteq> fst e" using dist e by (metis distinct_map inj_onD)
      moreover have "v \<in> set snapshotRestorers" using e'(1,3) hard_entry_tables by blast
      ultimately show False using v parent_facts(2) by (auto simp: list_all_iff)
    qed
    moreover have "v \<notin> set soft_tables" using v e hard_entry_tables by (intro apart) blast
    ultimately show ?thesis using a start by simp
  qed
  show "snd walk = snd start"
    unfolding walk_def
  proof (rule walk_reports [where tbl = fst])
    fix e and st' :: "tables \<times> skip list"
    assume e: "e \<in> set ?es" and a: "\<forall>u. u \<notin> fst ` (set ?es - {e}) \<longrightarrow> fst st' u = fst start u"
    obtain T rows where e': "e = (T, rows)" by (cases e)
    have "restore_hard_table (ct_user t) (T, rows) (fst st', snd st') = ((fst st')(T := fst st' T @ rows), snd st')"
      by (rule hard_table_restored(1) [OF ok e [unfolded e']]) (rule frame [OF a e], simp add: e')
    then show "snd (restore_hard_table (ct_user t) e st') = snd st'" by (simp add: e')
  qed (simp_all add: dist other)
  show "T \<notin> set snapshotRestorers \<Longrightarrow> fst walk T = fst start T"
    using walk_untouched [of ?es fst "restore_hard_table (ct_user t)" T start, OF other] hard_entry_tables [of t db]
    unfolding walk_def by auto
  assume T: "T \<in> set snapshotRestorers"
  obtain st where st: "st \<in> set ContactCascadeRegistry" "cs_table st = T" "cs_mode st = CascadeHard" "plain_step st"
    by (rule restorer_step [OF T])
  define rows where "rows = filter (cs_match st t db) (db T)"
  show "mset (fst walk T) = mset (db T)"
  proof (cases "rows = []")
    case True
    have "T \<notin> fst ` set ?es"
    proof
      assume "T \<in> fst ` set ?es"
      then obtain js where "(T, js) \<in> set ?es" by auto
      then obtain st' where "st' \<in> set ContactCascadeRegistry" "cs_table st' = T" "js \<noteq> []" "js = filter (cs_match st' t db) (db T)"
        by (auto simp: hard_entries_iff)
      then show False using True table_determines [OF st(1)] st(2) by (auto simp: rows_def)
    qed
    then have "fst walk T = fst start T"
      using walk_untouched [of ?es fst "restore_hard_table (ct_user t)" T start, OF other] unfolding walk_def by auto
    also have "\<dots> = filter (\<lambda>r. \<not> cs_match st t db r) (db T)"
      using start [OF apart] T deleted_restorable [OF st(1,3,4), of t now g later db] tables_apart(4) st(2) by metis
    finally show ?thesis using True mset_split [of "cs_match st t db" "db T"] by (simp add: rows_def)
  next
    case False
    then have e: "(T, rows) \<in> set ?es" using st T by (auto simp: hard_entries_iff rows_def)
    obtain st' where a: "\<forall>u. u \<notin> fst ` (set ?es - {(T, rows)}) \<longrightarrow> fst st' u = fst start u"
      and w: "fst walk T = fst (restore_hard_table (ct_user t) (T, rows) st') T"
      using walk_visits [where tbl = fst and step = "restore_hard_table (ct_user t)" and st = start, OF other dist e]
      unfolding walk_def by auto
    have same: "fst st' v = undeleted t now g later db v" if "v = T \<or> v \<in> set parent_tables" for v
      by (rule frame [OF a e]) (use that in simp)
    have "fst (restore_hard_table (ct_user t) (T, rows) st') T = fst st' T @ rows"
      using hard_table_restored(1) [OF ok e same, where skips = "snd st'"] by simp
    then show ?thesis using w hard_table_restored(2) [OF ok e same] by simp
  qed
qed


section \<open>The pointer to the user's own contact\<close>

lemma self_restored:
  assumes "users_intact t db" and "db' ''users'' = DeleteContactInTx t now g db ''users''"
  defines "self \<equiv> me_rows t db \<noteq> []"
  defines "ambient \<equiv> me_rows t db \<noteq> [] \<and> hd (me_rows t db) ''self_contact_ambient_set'' = Num 1"
  shows "map unstamped ((if self then restore_self (ct_user t) g' (Txt (ct_uid t)) ambient db' else db') ''users'') =
    map unstamped (db ''users'')"
proof (cases self)
  case False
  have "\<not> (r ''id'' = Num (ct_user t) \<and> r ''self_contact_vcard_uid'' = Txt (ct_uid t) \<and> live r)"
    if "r \<in> set (db ''users'')" for r
    using False that by (simp add: self_def me_rows_def filter_empty_conv)
  then have "DeleteContactInTx t now g db ''users'' = db ''users''"
    unfolding deleted_users by (intro map_idI) (auto simp del: fun_upd_apply)
  then show ?thesis using False assms(2) by simp
next
  case True
  define m where "m r \<longleftrightarrow> r ''id'' = Num (ct_user t) \<and> r ''self_contact_vcard_uid'' = Txt (ct_uid t) \<and> live r" for r
  obtain me rest where me: "me_rows t db = me # rest" using True by (cases "me_rows t db") (simp_all add: self_def)
  have "set (me_rows t db) = {r \<in> set (db ''users''). m r}" by (auto simp: me_rows_def m_def)
  then have mem: "me \<in> set (db ''users'')" "m me" using me by auto
  have u: "unique_on (\<lambda>r. r ''id'') (db ''users'')" and b: "me ''self_contact_ambient_set'' \<in> {Num 0, Num 1}"
    using assms(1) mem(1) by (simp_all add: users_intact_def list_all_iff)
  have amb: "(if ambient then Num 1 else Num 0) = me ''self_contact_ambient_set''" using b me by (auto simp: ambient_def)
  have only: "r = me" if "r \<in> set (db ''users'')" "r ''id'' = Num (ct_user t)" for r
    using unique_onD [OF u that(1) mem(1)] that(2) mem(2) by (simp add: m_def)
  let ?cleared = "\<lambda>r. r(''self_contact_vcard_uid'' := Null, ''self_contact_ambient_set'' := Num 0, ''updated_at'' := Num g)"
  let ?set = "\<lambda>r. r(''self_contact_vcard_uid'' := Txt (ct_uid t),
    ''self_contact_ambient_set'' := Num (if ambient then 1 else 0), ''updated_at'' := Num g')"
  have "unstamped (let x = (if m r then ?cleared r else r)
      in if x ''id'' = Num (ct_user t) \<and> x ''self_contact_vcard_uid'' = Null \<and> live x then ?set x else x) = unstamped r"
    if "r \<in> set (db ''users'')" for r
  proof (cases "r = me")
    case True
    have "unstamped (?set (?cleared me)) = unstamped me"
      using mem(2) amb by (auto simp: unstamped_def m_def fun_eq_iff)
    moreover have "?cleared me ''id'' = Num (ct_user t)" "live (?cleared me)" using mem(2) by (simp_all add: m_def live_def)
    ultimately show ?thesis using True mem(2) by (simp add: Let_def fun_upd_def)
  next
    case False
    then have "r ''id'' \<noteq> Num (ct_user t)" using only that by blast
    then show ?thesis by (simp add: m_def)
  qed
  then show ?thesis using True assms(2)
    by (simp add: restore_self_def deleted_users m_def [symmetric] Let_def o_def del: fun_upd_apply)
qed

section \<open>Delete and restore\<close>

lemma restored_payload:
  fixes now g now' g' :: int
  assumes ok: "intact t db"
  defines "after \<equiv> restore_payload (ct_user t) now' g' (Txt (ct_uid t)) (captureContactDeletion t db) (undeleted t now g g' db)"
  shows "snd after = []" and "came_back t db u (fst after u)"
proof -
  define soft where "soft = fold (restore_soft_table (ct_user t) now') (soft_entries t db) (undeleted t now g g' db, [])"
  define hard where "hard = fold (restore_hard_table (ct_user t)) (hard_entries t db) soft"
  have after: "after = (if pl_self (captureContactDeletion t db)
      then restore_self (ct_user t) g' (Txt (ct_uid t)) (pl_self_ambient (captureContactDeletion t db)) (fst hard)
      else fst hard, snd hard)"
    by (simp add: after_def restore_payload_def hard_def soft_def soft_entries_def hard_entries_def
        captureContactDeletion_def split_beta)
  note sw = soft_walk [OF ok, where stamp = now' and now = now and g = g and later = g', folded soft_def]
  have start: "fst soft v = undeleted t now g g' db v" if "v \<notin> set soft_tables" for v using sw(2) that .
  note hw = hard_walk [OF ok start, folded hard_def]
  show "snd after = []" by (simp add: after hw(1) sw(1))
  have self_other: "fst after v = fst hard v" if "v \<noteq> ''users''" for v
    using that by (simp add: after restore_self_def)
  have present: "contact_present t db" and users: "users_intact t db" using ok by (simp_all add: intact_def)
  consider (hard) "u \<in> set snapshotRestorers" | (contacts) "u = ''contacts''" | (users) "u = ''users''"
    | (soft) "u \<in> set soft_tables" "u \<notin> set snapshotRestorers" "u \<noteq> ''users''"
    | (rest) "u \<notin> set snapshotRestorers" "u \<notin> {''contacts'', ''users''} \<union> set soft_tables"
    by blast
  then show "came_back t db u (fst after u)"
  proof cases
    case hard
    then have "u \<noteq> ''users''" using tables_apart(5) by metis
    then show ?thesis using hard hw(3) self_other by (simp add: came_back_def)
  next
    case contacts
    then show ?thesis using self_other hw(2) start contacts_cycled(1) [OF present] tables_apart(2,4)
      by (simp add: came_back_def)
  next
    case users: users
    have "fst hard ''users'' = DeleteContactInTx t now g db ''users''"
      using hw(2) start tables_apart(3,5) by (simp add: undeleted_tables)
    from self_restored [where t = t and db = db and db' = "fst hard" and g = g and g' = g', OF \<open>users_intact t db\<close> this]
    have "map unstamped (fst after ''users'') = map unstamped (db ''users'')"
      by (cases "me_rows t db = []") (simp_all add: after captureContactDeletion_def)
    then show ?thesis using users tables_apart(5) by (simp add: came_back_def)
  next
    case soft
    then show ?thesis using self_other hw(2) sw(3) by (simp add: came_back_def)
  next
    case rest
    then have "fst after u = DeleteContactInTx t now g db u"
      using self_other hw(2) start by (simp add: undeleted_tables)
    then show ?thesis using rest rest_kept by (simp add: came_back_def)
  qed
qed

lemma trashed_found:
  assumes "contact_present t db"
  obtains c where "find (\<lambda>r. r ''id'' = Num (ct_id t) \<and> r ''user_id'' = Num (ct_user t) \<and> \<not> live r)
      (DeleteContactInTx t now g db ''contacts'') = Some c" "c ''vcard_uid'' = Txt (ct_uid t)"
    "find (\<lambda>r. r ''user_id'' = Num (ct_user t) \<and> r ''vcard_uid'' = Txt (ct_uid t) \<and> live r)
      (DeleteContactInTx t now g db ''contacts'') = None"
proof -
  obtain c where c: "c \<in> set (db ''contacts'')" "c ''id'' = Num (ct_id t)" "c ''user_id'' = Num (ct_user t)"
    "c ''vcard_uid'' = Txt (ct_uid t)" "live c"
    and u: "unique_on (\<lambda>r. r ''id'') (db ''contacts'')"
    and one: "\<And>r. r \<in> set (db ''contacts'') \<Longrightarrow> r ''user_id'' = Num (ct_user t) \<Longrightarrow> r ''vcard_uid'' = Txt (ct_uid t) \<Longrightarrow>
      live r \<Longrightarrow> r ''id'' = Num (ct_id t)"
    using assms by (auto simp: contact_present_def list_ex_iff list_all_iff)
  define f where "f r = (if r ''id'' = Num (ct_id t) \<and> live r then r(''deleted_at'' := Num g, ''updated_at'' := Num g) else r)" for r
  have rows: "DeleteContactInTx t now g db ''contacts'' = map f (db ''contacts'')"
    by (simp add: deleted_contacts f_def)
  have fr: "f r ''id'' = r ''id''" "f r ''user_id'' = r ''user_id''" "f r ''vcard_uid'' = r ''vcard_uid''" for r
    by (simp_all add: f_def)
  have dead: "\<not> live (f r)" if "r ''id'' = Num (ct_id t)" for r using that by (simp add: f_def live_def)
  show thesis
  proof (rule that)
    show "find (\<lambda>r. r ''id'' = Num (ct_id t) \<and> r ''user_id'' = Num (ct_user t) \<and> \<not> live r)
      (DeleteContactInTx t now g db ''contacts'') = Some (f c)" unfolding rows
    proof (rule find_only)
      show "f c \<in> set (map f (db ''contacts''))" using c(1) by simp
      show "f c ''id'' = Num (ct_id t) \<and> f c ''user_id'' = Num (ct_user t) \<and> \<not> live (f c)" using c dead by (simp add: fr)
      fix x assume x: "x \<in> set (map f (db ''contacts''))" "x ''id'' = Num (ct_id t) \<and> x ''user_id'' = Num (ct_user t) \<and> \<not> live x"
      then obtain s where "s \<in> set (db ''contacts'')" "x = f s" by auto
      then show "x = f c" using unique_onD [OF u _ c(1)] x(2) c(2) by (simp add: fr)
    qed
    show "f c ''vcard_uid'' = Txt (ct_uid t)" using c by (simp add: fr)
    show "find (\<lambda>r. r ''user_id'' = Num (ct_user t) \<and> r ''vcard_uid'' = Txt (ct_uid t) \<and> live r)
      (DeleteContactInTx t now g db ''contacts'') = None" unfolding rows find_None_iff
    proof
      assume "\<exists>x. x \<in> set (map f (db ''contacts'')) \<and> x ''user_id'' = Num (ct_user t) \<and> x ''vcard_uid'' = Txt (ct_uid t) \<and> live x"
      then obtain s where s: "s \<in> set (db ''contacts'')" "f s ''user_id'' = Num (ct_user t)" "f s ''vcard_uid'' = Txt (ct_uid t)" "live (f s)"
        by auto
      then have "live s" by (simp add: f_def live_def split: if_splits)
      then show False using one [OF s(1)] s dead by (simp add: fr)
    qed
  qed
qed



definition sample_store :: tables where
  "sample_store = (\<lambda>_. [])(
     ''contacts'' := [(\<lambda>_. Null)(''id'' := Num 1, ''user_id'' := Num 7, ''vcard_uid'' := Txt ''u'')],
     ''users'' := [(\<lambda>_. Null)(''id'' := Num 7, ''self_contact_vcard_uid'' := Txt ''u'', ''self_contact_ambient_set'' := Num 1)],
     ''notes'' := [sample_note],
     ''circles'' := [(\<lambda>_. Null)(''id'' := Txt ''c'', ''user_id'' := Num 7)],
     ''circle_members'' := [(\<lambda>_. Null)(''id'' := Txt ''m'', ''user_id'' := Num 7, ''circle_id'' := Txt ''c'',
        ''member_vcard_uid'' := Txt ''u'')])"

lemma sample_rows:
  "sample_store ''contacts'' = [(\<lambda>_. Null)(''id'' := Num 1, ''user_id'' := Num 7, ''vcard_uid'' := Txt ''u'')]"
  "sample_store ''users'' = [(\<lambda>_. Null)(''id'' := Num 7, ''self_contact_vcard_uid'' := Txt ''u'', ''self_contact_ambient_set'' := Num 1)]"
  "sample_store ''notes'' = [sample_note]"
  "sample_store ''circles'' = [(\<lambda>_. Null)(''id'' := Txt ''c'', ''user_id'' := Num 7)]"
  "sample_store ''circle_members'' = [(\<lambda>_. Null)(''id'' := Txt ''m'', ''user_id'' := Num 7, ''circle_id'' := Txt ''c'',
     ''member_vcard_uid'' := Txt ''u'')]"
  "u \<notin> {''contacts'', ''users'', ''notes'', ''circles'', ''circle_members''} \<Longrightarrow> sample_store u = []"
  by (simp_all add: sample_store_def)

lemma step_intact_empty: "db (cs_table st) = [] \<Longrightarrow> step_intact t db st"
  by (simp add: step_intact_def unique_on_def no_clash_def)

lemma sample_intact: "intact sample_target sample_store"
proof -
  have "step_intact sample_target sample_store st" if "st \<in> set ContactCascadeRegistry" for st
  proof -
    have tables: "list_all (\<lambda>st. cs_table st \<notin> {''contacts'', ''circles''} \<and>
        (cs_table st = ''users'' \<longrightarrow> cs_mode st = CascadeMutate) \<and>
        (cs_table st = ''notes'' \<longrightarrow> cs_mode st = CascadeSoft) \<and>
        (cs_table st = ''circle_members'' \<longrightarrow> cs_mode st = CascadeHard)) ContactCascadeRegistry"
      by (simp add: cascade_steps)
    then have k: "cs_table st \<notin> {''contacts'', ''circles''}" "cs_table st = ''users'' \<Longrightarrow> cs_mode st = CascadeMutate"
      "cs_table st = ''notes'' \<Longrightarrow> cs_mode st = CascadeSoft" "cs_table st = ''circle_members'' \<Longrightarrow> cs_mode st = CascadeHard"
      using that by (auto simp: list_all_iff)
    consider "cs_table st = ''users''" | "cs_table st = ''notes''" | "cs_table st = ''circle_members''"
      | "sample_store (cs_table st) = []" using k(1) sample_rows(6) by blast
    then show ?thesis
    proof cases
      case 1
      then show ?thesis using k(2) by (simp add: step_intact_def)
    next
      case 2
      then show ?thesis using k(3)
        by (simp add: step_intact_def sample_rows unique_on_def sample_note_def sample_target_def)
    next
      case 3
      then show ?thesis using k(4)
        by (simp add: step_intact_def sample_rows no_clash_def sample_target_def restorer_valid_def referents_exist_def
            foreign_keys_def has_row_def)
    qed (rule step_intact_empty)
  qed
  then show ?thesis
    by (simp add: intact_def list_all_iff contact_present_def users_intact_def links_intact_def sample_rows unique_on_def
        sample_target_def live_def)
qed


end
