(* ===== verification/Purge.thy ===== *)
theory Purge imports Trash begin

text \<open>
  The permanent purge of a trashed contact and the emptied trash (\<open>backend/services/contact_trash.go\<close>). A second
  contact of the user may carry the same vCard UID, so the rows that are keyed by it are purged by the identifiers
  the deletion recorded; the properties say whose rows a purge takes and whose it leaves.
\<close>

section \<open>Files\<close>

record purged_files =
  pf_photos :: "string list"
  pf_attachments :: "string list"
  pf_images :: "(int \<times> string) list"

definition merge_files :: "purged_files \<Rightarrow> purged_files \<Rightarrow> purged_files" where
  "merge_files f o' = \<lparr>pf_photos = pf_photos f @ pf_photos o', pf_attachments = pf_attachments f @ pf_attachments o',
     pf_images = pf_images f @ pf_images o'\<rparr>"

definition appendImageFiles :: "(int \<times> string) list \<Rightarrow> int \<Rightarrow> string list \<Rightarrow> (int \<times> string) list" where
  "appendImageFiles dst u names = dst @ map (Pair u) (filter (\<lambda>n. n \<noteq> []) names)"

definition has_prefix :: "string \<Rightarrow> string \<Rightarrow> bool" where
  "has_prefix p s \<longleftrightarrow> take (length p) s = p"

definition appendPhotoFiles :: "string list \<Rightarrow> string \<Rightarrow> string \<Rightarrow> string list" where
  "appendPhotoFiles dst photo thumbnail =
     (let dst' = (if photo \<noteq> [] then dst @ [photo] else dst)
      in if thumbnail \<noteq> [] \<and> \<not> has_prefix ''data:'' thumbnail then dst' @ [thumbnail] else dst')"

definition cell_num :: "cell \<Rightarrow> int" where
  "cell_num c = (case c of Num n \<Rightarrow> n | _ \<Rightarrow> 0)"

section \<open>The purge\<close>

definition uidHeldByAnotherContact :: "int \<Rightarrow> row \<Rightarrow> tables \<Rightarrow> bool" where
  "uidHeldByAnotherContact u contact db \<longleftrightarrow>
     has_row ''contacts'' (\<lambda>r. r ''user_id'' = Num u \<and> r ''vcard_uid'' = contact ''vcard_uid'' \<and> r ''id'' \<noteq> contact ''id'') db"

text \<open>The probe: does the predicate of the step look for the UID it is given? A row that holds a sentinel everywhere.\<close>

definition probe_uid :: string where "probe_uid = CHR 0x00 # ''probe-uid''"

definition probe_target :: cascade_target where
  "probe_target = \<lparr>ct_id = 0, ct_uid = probe_uid, ct_user = 0, ct_batch = []\<rparr>"

definition stepKeyedByUID :: "cascade_step \<Rightarrow> bool" where
  "stepKeyedByUID st \<longleftrightarrow>
     cs_match st probe_target (\<lambda>_. []) ((\<lambda>_. Txt probe_uid)(''user_id'' := Num 0, ''entity_kind'' := Txt ''contact''))"

definition batch_ids :: "(string \<times> cell list) list \<Rightarrow> string \<Rightarrow> cell list" where
  "batch_ids batch t = (case map_of batch t of None \<Rightarrow> [] | Some ids \<Rightarrow> ids)"

definition collectContactFiles :: "cascade_target \<Rightarrow> bool \<Rightarrow> (string \<times> cell list) list \<Rightarrow> tables \<Rightarrow> purged_files \<Rightarrow> purged_files" where
  "collectContactFiles t shared batch db files =
     (let mine = (\<lambda>tbl. filter (\<lambda>r. owned ''contact_vcard_uid'' t r \<and> (shared \<longrightarrow> r ''id'' \<in> set (batch_ids batch tbl))) (db tbl));
          noteRows = filter (of_note t db) (db ''note_images'')
      in files\<lparr>pf_attachments := map (\<lambda>r. cell_text (r ''stored_name'')) (mine ''attachments''),
           pf_images := fold (\<lambda>r dst. appendImageFiles dst (cell_num (r ''user_id''))
               [cell_text (r ''stored_name''), cell_text (r ''thumb_name'')]) (mine ''contact_images'' @ noteRows) (pf_images files)\<rparr>)"

definition purge_step :: "cascade_target \<Rightarrow> bool \<Rightarrow> (string \<times> cell list) list \<Rightarrow> cascade_step \<Rightarrow> tables \<Rightarrow> tables" where
  "purge_step t shared batch st db =
     (if cs_mode st \<noteq> CascadeSoft then db
      else if shared \<and> stepKeyedByUID st
        then (if batch_ids batch (cs_table st) = [] then db
              else sql_delete (cs_table st)
                (\<lambda>r. cs_match st t db r \<and> \<not> live r \<and> r ''id'' \<in> set (batch_ids batch (cs_table st))) db)
      else sql_delete (cs_table st) (\<lambda>r. cs_match st t db r \<and> \<not> live r) db)"

definition purge_batch :: "snapshot \<Rightarrow> (string \<times> cell list) list" where
  "purge_batch snap = (case sn_payload snap of Some p \<Rightarrow> pl_soft p | None \<Rightarrow> [])"

definition purge_target :: "int \<Rightarrow> row \<Rightarrow> cascade_target" where
  "purge_target u contact = \<lparr>ct_id = cell_num (contact ''id''), ct_uid = cell_text (contact ''vcard_uid''), ct_user = u, ct_batch = []\<rparr>"

definition purgeContactInTx :: "int \<Rightarrow> row \<Rightarrow> snapshot \<Rightarrow> trash_state \<Rightarrow> purged_files \<times> trash_state" where
  "purgeContactInTx u contact snap s =
     (let db = tr_tables s; t = purge_target u contact;
          photos = appendPhotoFiles [] (cell_text (contact ''photo'')) (cell_text (contact ''photo_thumbnail''));
          shared = uidHeldByAnotherContact u contact db;
          batch = (if shared then purge_batch snap else []);
          files = collectContactFiles t shared batch db \<lparr>pf_photos = photos, pf_attachments = [], pf_images = []\<rparr>;
          swept = fold (purge_step t shared batch) ContactCascadeRegistry db
      in (files, \<lparr>tr_tables = sql_delete ''contacts'' (\<lambda>r. r ''id'' = contact ''id'') swept,
           tr_snaps = filter (\<lambda>sn. sn_id sn \<noteq> sn_id snap) (tr_snaps s)\<rparr>))"

definition PurgeContact :: "int \<Rightarrow> int \<Rightarrow> trash_state \<Rightarrow> trash_error + (purged_files \<times> trash_state)" where
  "PurgeContact u c s =
     (case trashedContact u c s of Inl e \<Rightarrow> Inl e | Inr (contact, snap) \<Rightarrow> Inr (purgeContactInTx u contact snap s))"

definition empty_step :: "int \<Rightarrow> snapshot \<Rightarrow> purged_files \<times> nat \<times> trash_state \<Rightarrow> purged_files \<times> nat \<times> trash_state" where
  "empty_step u snap acc =
     (case acc of (files, n, s) \<Rightarrow>
       (case trashedContact u (sn_contact snap) s of
          Inl e \<Rightarrow> (files, n, s\<lparr>tr_snaps := filter (\<lambda>sn. sn_id sn \<noteq> sn_id snap) (tr_snaps s)\<rparr>)
        | Inr (contact, sn) \<Rightarrow>
            (case purgeContactInTx u contact sn s of (f, s') \<Rightarrow> (merge_files files f, n + 1, s'))))"

definition EmptyTrash :: "int \<Rightarrow> trash_state \<Rightarrow> purged_files \<times> nat \<times> trash_state" where
  "EmptyTrash u s = fold (empty_step u) (filter (\<lambda>sn. sn_user sn = u) (tr_snaps s))
     (\<lparr>pf_photos = [], pf_attachments = [], pf_images = []\<rparr>, 0, s)"

section \<open>What the sweep takes\<close>

definition uid_tables :: "string list" where
  "uid_tables = [''life_events'', ''preferences'', ''conversation_agenda'', ''gifts'', ''cadence_policies'', ''data_decay_policies'',
     ''occasion_obligations'', ''contact_images'', ''attachments'', ''contact_entity_links'']"

lemma keyed_steps:
  "list_all (\<lambda>st. cs_mode st = CascadeSoft \<longrightarrow> stepKeyedByUID st = (cs_table st \<in> set uid_tables)) ContactCascadeRegistry"
  by (simp add: cascade_steps stepKeyedByUID_def uid_tables_def byID_def byEntity_def byContactUID_def owned_def
      of_note_def in_select_def probe_target_def)


lemma keyed_iff:
  "st \<in> set ContactCascadeRegistry \<Longrightarrow> cs_mode st = CascadeSoft \<Longrightarrow> stepKeyedByUID st = (cs_table st \<in> set uid_tables)"
  using keyed_steps by (auto simp: list_all_iff)

definition taken :: "cascade_target \<Rightarrow> bool \<Rightarrow> (string \<times> cell list) list \<Rightarrow> cascade_step \<Rightarrow> tables \<Rightarrow> row \<Rightarrow> bool" where
  "taken t shared batch st db r \<longleftrightarrow> cs_mode st = CascadeSoft \<and> cs_match st t db r \<and> \<not> live r \<and>
     (shared \<and> stepKeyedByUID st \<longrightarrow> r ''id'' \<in> set (batch_ids batch (cs_table st)))"

lemma purge_step_filter:
  "purge_step t shared batch st db (cs_table st) = filter (\<lambda>r. \<not> taken t shared batch st db r) (db (cs_table st))"
  by (cases "cs_mode st = CascadeSoft"; cases "shared \<and> stepKeyedByUID st"; cases "batch_ids batch (cs_table st) = []")
    (auto simp: purge_step_def taken_def)

interpretation sweep: registry_walk "purge_step t shared batch" for t shared batch
proof
  fix st u and db db' :: tables
  show "u \<noteq> cs_table st \<Longrightarrow> purge_step t shared batch st db u = db u"
    by (simp add: purge_step_def)
  assume st: "st \<in> set ContactCascadeRegistry" and same: "\<And>u. u \<in> set (cs_table st # reads st) \<Longrightarrow> db u = db' u"
  have "cs_match st t db = cs_match st t db'" by (rule match_reads [OF st]) (simp add: same)
  then show "purge_step t shared batch st db (cs_table st) = purge_step t shared batch st db' (cs_table st)"
    using same [of "cs_table st"] by (simp add: purge_step_filter taken_def)
qed

abbreviation swept :: "cascade_target \<Rightarrow> bool \<Rightarrow> (string \<times> cell list) list \<Rightarrow> tables \<Rightarrow> tables" where
  "swept t shared batch db \<equiv> fold (purge_step t shared batch) ContactCascadeRegistry db"

lemma swept_table:
  "st \<in> set ContactCascadeRegistry \<Longrightarrow>
   swept t shared batch db (cs_table st) = filter (\<lambda>r. \<not> taken t shared batch st db r) (db (cs_table st))"
  by (simp add: sweep.table purge_step_filter)

lemma swept_contacts: "swept t shared batch db ''contacts'' = db ''contacts''"
  by (rule sweep.untouched [OF contacts_outside])

lemma filter_kept: "(\<And>r. r \<in> set rs \<Longrightarrow> q r \<Longrightarrow> p r) \<Longrightarrow> filter q (filter p rs) = filter q rs"
  by (induction rs) auto

text \<open>A row stays when it is live, or when a twin holds the UID, the table is keyed by it and the deletion did not
  record the row.\<close>

lemma swept_spares:
  assumes "\<And>r. r \<in> set (db u) \<Longrightarrow> q r \<Longrightarrow> live r \<or> shared \<and> u \<in> set uid_tables \<and> r ''id'' \<notin> set (batch_ids batch u)"
  shows "filter q (swept t shared batch db u) = filter q (db u)"
proof (cases "u \<in> cs_table ` set ContactCascadeRegistry")
  case True
  then obtain st where st: "st \<in> set ContactCascadeRegistry" "u = cs_table st" by auto
  show ?thesis unfolding st(2) swept_table [OF st(1)]
    using assms st(2) keyed_iff [OF st(1)] by (intro filter_kept) (auto simp: taken_def)
qed (simp add: sweep.untouched)

lemma swept_member:
  assumes "r \<in> set (db u)" and "live r \<or> shared \<and> u \<in> set uid_tables \<and> r ''id'' \<notin> set (batch_ids batch u)"
  shows "r \<in> set (swept t shared batch db u)"
proof (cases "u \<in> cs_table ` set ContactCascadeRegistry")
  case True
  then obtain st where st: "st \<in> set ContactCascadeRegistry" "u = cs_table st" by auto
  show ?thesis unfolding st(2) swept_table [OF st(1)] using assms st(2) keyed_iff [OF st(1)] by (auto simp: taken_def)
qed (simp add: sweep.untouched assms(1))

lemma purged_eq:
  assumes "PurgeContact u c s = Inr (files, s')"
  obtains contact snap where "contact \<in> set (tr_tables s ''contacts'')" "contact ''id'' = Num c" "contact ''user_id'' = Num u"
    "\<not> live contact" "snap \<in> set (tr_snaps s)" "has_snapshot u c snap"
    "purgeContactInTx u contact snap s = (files, s')"
  using assms
  by (auto simp: PurgeContact_def trashedContact_def split: option.splits sum.splits dest!: find_SomeD)

lemma purge_tables:
  "tr_tables (snd (purgeContactInTx u contact snap s)) =
     sql_delete ''contacts'' (\<lambda>r. r ''id'' = contact ''id'')
       (swept (purge_target u contact) (uidHeldByAnotherContact u contact (tr_tables s))
          (if uidHeldByAnotherContact u contact (tr_tables s) then purge_batch snap else []) (tr_tables s))"
  "tr_snaps (snd (purgeContactInTx u contact snap s)) = filter (\<lambda>sn. sn_id sn \<noteq> sn_id snap) (tr_snaps s)"
  by (simp_all add: purgeContactInTx_def Let_def)

lemma purge_keeps_live:
  assumes "unique_on (\<lambda>r. r ''id'') (tr_tables s ''contacts'')" and "contact \<in> set (tr_tables s ''contacts'')" and "\<not> live contact"
  shows "filter live (tr_tables (snd (purgeContactInTx u contact snap s)) tbl) = filter live (tr_tables s tbl)"
proof (cases "tbl = ''contacts''")
  case True
  have "r = contact" if "r \<in> set (tr_tables s ''contacts'')" "r ''id'' = contact ''id''" for r
    using unique_onD [OF assms(1) that(1) assms(2)] that(2) .
  then show ?thesis unfolding True purge_tables using assms(3)
    by (simp add: swept_contacts) (rule filter_cong [OF refl], blast)
next
  case False
  then show ?thesis unfolding purge_tables by (simp add: swept_spares)
qed



definition twin_state :: trash_state where
  "twin_state = \<lparr>tr_tables = (\<lambda>_. [])(
     ''contacts'' := [(\<lambda>_. Null)(''id'' := Num 1, ''user_id'' := Num 7, ''vcard_uid'' := Txt ''u'', ''deleted_at'' := Num 5),
                      (\<lambda>_. Null)(''id'' := Num 2, ''user_id'' := Num 7, ''vcard_uid'' := Txt ''u'')],
     ''gifts'' := [(\<lambda>_. Null)(''id'' := Txt ''a'', ''entity_id'' := Txt ''u'', ''user_id'' := Num 7, ''deleted_at'' := Num 5),
                   (\<lambda>_. Null)(''id'' := Txt ''b'', ''entity_id'' := Txt ''u'', ''user_id'' := Num 7, ''deleted_at'' := Num 6)]),
   tr_snaps = [\<lparr>sn_id = ''s'', sn_user = 7, sn_contact = 1, sn_uid = ''u'', sn_trashed = 5, sn_version = 1,
     sn_payload = Some \<lparr>pl_soft = [(''gifts'', [Txt ''a''])], pl_hard = [], pl_self = False, pl_self_ambient = False\<rparr>\<rparr>]\<rparr>"


section \<open>What a purge leaves\<close>

lemma swept_takes:
  assumes "st \<in> set ContactCascadeRegistry" and "cs_mode st = CascadeSoft" and "cs_match st t db r" and "\<not> live r"
    and "shared \<Longrightarrow> stepKeyedByUID st \<Longrightarrow> r ''id'' \<in> set (batch_ids batch (cs_table st))"
  shows "r \<notin> set (swept t shared batch db (cs_table st))"
  using assms by (simp add: swept_table taken_def)

text \<open>A purge leaves nothing of the contact behind: its row and its snapshot are gone, and so is every trashed row
  of every soft step that is keyed to it, where another contact of the user holds the same UID the rows that the
  deletion recorded.\<close>

lemma purge_leaves_nothing:
  assumes "PurgeContact u c s = Inr (files, s')" and "st \<in> set ContactCascadeRegistry" and "cs_mode st = CascadeSoft"
  shows "\<exists>contact\<in>set (tr_tables s ''contacts''). \<exists>snap\<in>set (tr_snaps s). has_snapshot u c snap \<and>
    contact ''id'' = Num c \<and> Num c \<notin> (\<lambda>r. r ''id'') ` set (tr_tables s' ''contacts'') \<and>
    sn_id snap \<notin> sn_id ` set (tr_snaps s') \<and>
    (\<forall>r\<in>set (tr_tables s (cs_table st)). cs_match st (purge_target u contact) (tr_tables s) r \<and> \<not> live r \<and>
       (uidHeldByAnotherContact u contact (tr_tables s) \<and> cs_table st \<in> set uid_tables \<longrightarrow>
          r ''id'' \<in> set (batch_ids (purge_batch snap) (cs_table st))) \<longrightarrow>
       r \<notin> set (tr_tables s' (cs_table st)))"
proof -
  obtain contact snap where c: "contact \<in> set (tr_tables s ''contacts'')" "contact ''id'' = Num c"
    "snap \<in> set (tr_snaps s)" "has_snapshot u c snap"
    and p: "purgeContactInTx u contact snap s = (files, s')" using purged_eq [OF assms(1)] by metis
  have s': "s' = snd (purgeContactInTx u contact snap s)" using p by simp
  let ?shared = "uidHeldByAnotherContact u contact (tr_tables s)"
  have "Num c \<notin> (\<lambda>r. r ''id'') ` set (tr_tables s' ''contacts'')"
    using c(2) by (auto simp: s' purge_tables)
  moreover have "sn_id snap \<notin> sn_id ` set (tr_snaps s')" by (auto simp: s' purge_tables)
  moreover have "r \<notin> set (tr_tables s' (cs_table st))"
    if r: "cs_match st (purge_target u contact) (tr_tables s) r" "\<not> live r"
      "?shared \<and> cs_table st \<in> set uid_tables \<longrightarrow> r ''id'' \<in> set (batch_ids (purge_batch snap) (cs_table st))" for r
  proof -
    have "r \<notin> set (swept (purge_target u contact) ?shared (if ?shared then purge_batch snap else []) (tr_tables s) (cs_table st))"
      by (rule swept_takes [OF assms(2,3) r(1,2)]) (use r(3) keyed_iff [OF assms(2,3)] in simp)
    moreover have "cs_table st \<noteq> ''contacts''" using assms(2) contacts_outside by (metis image_eqI)
    ultimately show ?thesis by (simp add: s' purge_tables)
  qed
  ultimately show ?thesis using c by blast
qed

theorem purge_leaves_nothing_witness:
  "\<exists>files s'. PurgeContact 7 1 twin_state = Inr (files, s') \<and>
     (\<lambda>_. Null)(''id'' := Txt ''a'', ''entity_id'' := Txt ''u'', ''user_id'' := Num 7, ''deleted_at'' := Num 5)
       \<notin> set (tr_tables s' ''gifts'')"
proof -
  obtain files s' where p: "PurgeContact 7 1 twin_state = Inr (files, s')"
    by (cases "PurgeContact 7 1 twin_state")
      (auto simp: PurgeContact_def trashedContact_def twin_state_def has_snapshot_def live_def)
  have st: "soft ''gifts'' byEntity \<in> set ContactCascadeRegistry" "cs_mode (soft ''gifts'' byEntity) = CascadeSoft"
    "cs_table (soft ''gifts'' byEntity) = ''gifts''" "cs_match (soft ''gifts'' byEntity) = byEntity"
    by (simp_all add: cascade_steps)
  from purge_leaves_nothing [OF p st(1,2)] show ?thesis
    using p unfolding st(3,4)
    by (auto simp: twin_state_def byEntity_def owned_def purge_target_def cell_text_def live_def purge_batch_def batch_ids_def)
qed

section \<open>Emptying the trash\<close>

definition trashed_id :: "int \<Rightarrow> int \<Rightarrow> tables \<Rightarrow> bool" where
  "trashed_id u c db \<longleftrightarrow> list_ex (\<lambda>r. r ''id'' = Num c \<and> r ''user_id'' = Num u \<and> \<not> live r) (db ''contacts'')"

text \<open>The keys of the snapshot table.\<close>

definition snaps_keyed :: "snapshot list \<Rightarrow> bool" where
  "snaps_keyed sns \<longleftrightarrow> distinct (map sn_id sns) \<and> distinct (map (\<lambda>sn. (sn_user sn, sn_contact sn)) sns)"

lemma find_snapshot:
  assumes "snaps_keyed sns" and "sn \<in> set sns" and "sn_user sn = u"
  shows "find (has_snapshot u (sn_contact sn)) sns = Some sn"
proof (rule find_only [OF assms(2)])
  show "has_snapshot u (sn_contact sn) sn" using assms(3) by (simp add: has_snapshot_def)
  fix s assume "s \<in> set sns" "has_snapshot u (sn_contact sn) s"
  then show "s = sn" using assms by (auto simp: snaps_keyed_def has_snapshot_def distinct_map dest: inj_onD)
qed

lemma trashed_contact_eq:
  assumes "snaps_keyed (tr_snaps s)" and "sn \<in> set (tr_snaps s)" and "sn_user sn = u"
  shows "(\<not> trashed_id u (sn_contact sn) (tr_tables s) \<and> trashedContact u (sn_contact sn) s = Inl ContactNotInTrash) \<or>
    (\<exists>contact\<in>set (tr_tables s ''contacts''). contact ''id'' = Num (sn_contact sn) \<and> \<not> live contact \<and>
       trashed_id u (sn_contact sn) (tr_tables s) \<and> trashedContact u (sn_contact sn) s = Inr (contact, sn))"
proof (cases "find (\<lambda>r. r ''id'' = Num (sn_contact sn) \<and> r ''user_id'' = Num u \<and> \<not> live r) (tr_tables s ''contacts'')")
  case None
  then have "\<not> trashed_id u (sn_contact sn) (tr_tables s)" by (auto simp: trashed_id_def find_None_iff list_ex_iff)
  then show ?thesis using None by (simp add: trashedContact_def)
next
  case (Some contact)
  from find_SomeD [OF this] show ?thesis
    using Some find_snapshot [OF assms] by (auto simp: trashedContact_def trashed_id_def list_ex_iff)
qed

lemma keyed_filter: "snaps_keyed sns \<Longrightarrow> snaps_keyed (filter p sns)"
  by (simp add: snaps_keyed_def distinct_map_filter)

lemma keyed_member:
  "snaps_keyed sns \<Longrightarrow> sn \<in> set sns \<Longrightarrow> filter (\<lambda>s. sn_id s \<noteq> sn_id sn) sns = filter (\<lambda>s. s \<noteq> sn) sns"
  by (rule filter_cong [OF refl]) (auto simp: snaps_keyed_def distinct_map dest: inj_onD)


text \<open>One snapshot's turn.\<close>

definition empty_ok :: "int \<Rightarrow> trash_state \<Rightarrow> bool" where
  "empty_ok u s \<longleftrightarrow> snaps_keyed (tr_snaps s) \<and> unique_on (\<lambda>r. r ''id'') (tr_tables s ''contacts'')"

lemma empty_turn:
  assumes ok: "empty_ok u s" and sn: "sn \<in> set (tr_snaps s)" "sn_user sn = u"
  obtains files' n' s' where "empty_step u sn (files, n, s) = (files', n', s')" "empty_ok u s'"
    "tr_snaps s' = filter (\<lambda>x. x \<noteq> sn) (tr_snaps s)"
    "\<And>tbl. filter live (tr_tables s' tbl) = filter live (tr_tables s tbl)"
    "\<not> trashed_id u (sn_contact sn) (tr_tables s')"
    "\<And>c. c \<noteq> sn_contact sn \<Longrightarrow> trashed_id u c (tr_tables s') = trashed_id u c (tr_tables s)"
    "n' = (if trashed_id u (sn_contact sn) (tr_tables s) then n + 1 else n)"
proof -
  have keyed: "snaps_keyed (tr_snaps s)" and uniq: "unique_on (\<lambda>r. r ''id'') (tr_tables s ''contacts'')"
    using ok by (simp_all add: empty_ok_def)
  have gone: "filter (\<lambda>x. sn_id x \<noteq> sn_id sn) (tr_snaps s) = filter (\<lambda>x. x \<noteq> sn) (tr_snaps s)"
    by (rule keyed_member [OF keyed sn(1)])
  from trashed_contact_eq [OF keyed sn] show thesis
  proof (elim disjE conjE bexE)
    assume none: "\<not> trashed_id u (sn_contact sn) (tr_tables s)" "trashedContact u (sn_contact sn) s = Inl ContactNotInTrash"
    show thesis
    proof (rule that)
      show "empty_step u sn (files, n, s) = (files, n, s\<lparr>tr_snaps := filter (\<lambda>x. sn_id x \<noteq> sn_id sn) (tr_snaps s)\<rparr>)"
        using none(2) by (simp add: empty_step_def)
    qed (use none(1) ok in \<open>simp_all add: gone empty_ok_def keyed_filter\<close>)
  next
    fix contact
    assume c: "contact \<in> set (tr_tables s ''contacts'')" "contact ''id'' = Num (sn_contact sn)" "\<not> live contact"
      "trashed_id u (sn_contact sn) (tr_tables s)" "trashedContact u (sn_contact sn) s = Inr (contact, sn)"
    obtain f s' where p: "purgeContactInTx u contact sn s = (f, s')" by fastforce
    then have s': "s' = snd (purgeContactInTx u contact sn s)" by simp
    have contacts: "tr_tables s' ''contacts'' = filter (\<lambda>r. r ''id'' \<noteq> Num (sn_contact sn)) (tr_tables s ''contacts'')"
      by (simp add: s' purge_tables swept_contacts c(2))
    show thesis
    proof (rule that)
      show "empty_step u sn (files, n, s) = (merge_files files f, n + 1, s')"
        using c(5) p by (simp add: empty_step_def)
      show "empty_ok u s'"
        using ok contacts by (simp add: empty_ok_def unique_on_filter s' purge_tables(2) keyed_filter)
      show "tr_snaps s' = filter (\<lambda>x. x \<noteq> sn) (tr_snaps s)" by (simp add: s' purge_tables(2) gone)
      show "filter live (tr_tables s' tbl) = filter live (tr_tables s tbl)" for tbl
        unfolding s' by (rule purge_keeps_live [OF uniq c(1,3)])
      show "\<not> trashed_id u (sn_contact sn) (tr_tables s')" by (simp add: trashed_id_def contacts list_ex_iff)
      show "trashed_id u k (tr_tables s') = trashed_id u k (tr_tables s)" if "k \<noteq> sn_contact sn" for k
        using that by (auto simp: trashed_id_def contacts list_ex_iff)
      show "n + 1 = (if trashed_id u (sn_contact sn) (tr_tables s) then n + 1 else n)" using c(4) by simp
    qed
  qed
qed

lemma empty_turns:
  assumes "empty_ok u s" and "set sns \<subseteq> set (tr_snaps s)" and "distinct (map sn_contact sns)" and "\<forall>sn\<in>set sns. sn_user sn = u"
    and "fold (empty_step u) sns (files, n, s) = (files', n', s')"
  shows "tr_snaps s' = filter (\<lambda>x. x \<notin> set sns) (tr_snaps s) \<and>
    (\<forall>tbl. filter live (tr_tables s' tbl) = filter live (tr_tables s tbl)) \<and>
    (\<forall>sn\<in>set sns. \<not> trashed_id u (sn_contact sn) (tr_tables s')) \<and>
    n' = n + length (filter (\<lambda>sn. trashed_id u (sn_contact sn) (tr_tables s)) sns) \<and>
    (\<forall>c. c \<notin> sn_contact ` set sns \<longrightarrow> trashed_id u c (tr_tables s') = trashed_id u c (tr_tables s))"
  using assms
proof (induction sns arbitrary: files n s)
  case (Cons sn sns)
  have sn: "sn \<in> set (tr_snaps s)" "sn_user sn = u" using Cons.prems(2,4) by simp_all
  obtain f1 n1 s1 where t: "empty_step u sn (files, n, s) = (f1, n1, s1)" "empty_ok u s1"
    "tr_snaps s1 = filter (\<lambda>x. x \<noteq> sn) (tr_snaps s)"
    "\<And>tbl. filter live (tr_tables s1 tbl) = filter live (tr_tables s tbl)"
    "\<not> trashed_id u (sn_contact sn) (tr_tables s1)"
    "\<And>c. c \<noteq> sn_contact sn \<Longrightarrow> trashed_id u c (tr_tables s1) = trashed_id u c (tr_tables s)"
    "n1 = (if trashed_id u (sn_contact sn) (tr_tables s) then n + 1 else n)"
    by (rule empty_turn [OF Cons.prems(1) sn, of files n]) (rule that, assumption+)
  have others: "sn_contact sn \<notin> sn_contact ` set sns" "sn \<notin> set sns" using Cons.prems(3) by auto
  have ih: "tr_snaps s' = filter (\<lambda>x. x \<notin> set sns) (tr_snaps s1) \<and>
    (\<forall>tbl. filter live (tr_tables s' tbl) = filter live (tr_tables s1 tbl)) \<and>
    (\<forall>sn\<in>set sns. \<not> trashed_id u (sn_contact sn) (tr_tables s')) \<and>
    n' = n1 + length (filter (\<lambda>sn. trashed_id u (sn_contact sn) (tr_tables s1)) sns) \<and>
    (\<forall>c. c \<notin> sn_contact ` set sns \<longrightarrow> trashed_id u c (tr_tables s') = trashed_id u c (tr_tables s1))"
    using Cons.prems others by (intro Cons.IH) (auto simp: t)
  have same: "filter (\<lambda>sn. trashed_id u (sn_contact sn) (tr_tables s1)) sns =
      filter (\<lambda>sn. trashed_id u (sn_contact sn) (tr_tables s)) sns"
  proof (rule filter_cong [OF refl])
    fix x assume "x \<in> set sns"
    then have "sn_contact x \<noteq> sn_contact sn" using others(1) imageI by metis
    then show "trashed_id u (sn_contact x) (tr_tables s1) = trashed_id u (sn_contact x) (tr_tables s)" by (rule t(6))
  qed
  show ?case using ih t others by (auto simp: same intro: filter_cong)
qed simp

text \<open>Emptying the trash purges all of it and nothing else: no snapshot of the user is left and every other one
  is, no snapshotted contact is in the trash any more, the count returned is the number of snapshots whose contact
  was, and every live row of every table stays.\<close>

lemma empty_trash_empties:
  assumes "EmptyTrash u s = (files, n, s')" and "snaps_keyed (tr_snaps s)"
    and "unique_on (\<lambda>r. r ''id'') (tr_tables s ''contacts'')"
  shows "tr_snaps s' = filter (\<lambda>sn. sn_user sn \<noteq> u) (tr_snaps s) \<and>
    (\<forall>sn\<in>set (tr_snaps s). sn_user sn = u \<longrightarrow> \<not> trashed_id u (sn_contact sn) (tr_tables s')) \<and>
    n = length (filter (\<lambda>sn. sn_user sn = u \<and> trashed_id u (sn_contact sn) (tr_tables s)) (tr_snaps s)) \<and>
    (\<forall>tbl. filter live (tr_tables s' tbl) = filter live (tr_tables s tbl))"
proof -
  let ?sns = "filter (\<lambda>sn. sn_user sn = u) (tr_snaps s)"
  have "inj_on (\<lambda>sn. (sn_user sn, sn_contact sn)) (set (tr_snaps s))" "distinct (tr_snaps s)"
    using assms(2) by (simp_all add: snaps_keyed_def distinct_map)
  then have "distinct (map sn_contact ?sns)" by (auto simp: distinct_map inj_on_def)
  then have e: "tr_snaps s' = filter (\<lambda>x. x \<notin> set ?sns) (tr_snaps s) \<and>
    (\<forall>tbl. filter live (tr_tables s' tbl) = filter live (tr_tables s tbl)) \<and>
    (\<forall>sn\<in>set ?sns. \<not> trashed_id u (sn_contact sn) (tr_tables s')) \<and>
    n = 0 + length (filter (\<lambda>sn. trashed_id u (sn_contact sn) (tr_tables s)) ?sns) \<and>
    (\<forall>c. c \<notin> sn_contact ` set ?sns \<longrightarrow> trashed_id u c (tr_tables s') = trashed_id u c (tr_tables s))"
    using assms by (intro empty_turns) (auto simp: empty_ok_def EmptyTrash_def)
  have "filter (\<lambda>x. x \<notin> set ?sns) (tr_snaps s) = filter (\<lambda>sn. sn_user sn \<noteq> u) (tr_snaps s)"
    by (rule filter_cong) auto
  then show ?thesis using e by (simp add: conj_commute)
qed

theorem empty_trash_empties_witness: "\<exists>files s'. EmptyTrash 7 twin_state = (files, 1, s') \<and> tr_snaps s' = []"
proof -
  obtain files n s' where e: "EmptyTrash 7 twin_state = (files, n, s')" by (cases "EmptyTrash 7 twin_state")
  have "snaps_keyed (tr_snaps twin_state)" "unique_on (\<lambda>r. r ''id'') (tr_tables twin_state ''contacts'')"
    by (simp_all add: twin_state_def snaps_keyed_def unique_on_def)
  from empty_trash_empties [OF e this] show ?thesis
    using e by (simp add: twin_state_def trashed_id_def live_def)
qed

end
