(* ===== verification/MergeFields.thy ===== *)
theory MergeFields imports ContactFlat "HOL-Library.List_Lexorder" "HOL-Library.Char_ord" "HOL-Library.Sublist" begin

text \<open>
  The field part of a contact merge (\<open>backend/services/contact_merge_service.go\<close>, \<open>models/contact_merge.go\<close>): which
  scalar of the two contacts survives, which the user has to decide, and the unions of the multi-valued fields.
\<close>

section \<open>Unions\<close>

text \<open>The loop all the unions share: an entry whose key was seen is skipped, one without a key is always added.\<close>

definition add_keyed :: "('a \<Rightarrow> string option) \<Rightarrow> 'a \<Rightarrow> string list \<times> 'a list \<Rightarrow> string list \<times> 'a list" where
  "add_keyed key x st =
     (case key x of
        None \<Rightarrow> (fst st, snd st @ [x])
      | Some k \<Rightarrow> if k \<in> set (fst st) then st else (k # fst st, snd st @ [x]))"

definition union_keyed :: "('a \<Rightarrow> string option) \<Rightarrow> 'a list \<Rightarrow> 'a list \<Rightarrow> 'a list" where
  "union_keyed key a b = snd (fold (add_keyed key) b (fold (add_keyed key) a ([], [])))"

definition norm_key :: "string \<Rightarrow> string" where
  "norm_key s = to_lower (trim_space s)"

definition email_key :: "contact_email \<Rightarrow> string option" where
  "email_key e = Some (norm_key (ce_type e) @ ''|'' @ norm_key (ce_value e))"

definition unionEmails :: "contact_email list \<Rightarrow> contact_email list \<Rightarrow> contact_email list" where
  "unionEmails a b = union_keyed email_key a b"

definition phone_key :: "contact_phone \<Rightarrow> string option" where
  "phone_key p = (let k = PhoneKey (cp_value p) in if k = [] then None else Some (norm_key (cp_type p) @ ''|'' @ k))"

definition unionPhones :: "contact_phone list \<Rightarrow> contact_phone list \<Rightarrow> contact_phone list" where
  "unionPhones a b = union_keyed phone_key a b"

definition url_key :: "contact_url \<Rightarrow> string option" where
  "url_key u = Some (norm_key (cu_type u) @ ''|'' @ norm_key (cu_value u))"

definition unionURLs :: "contact_url list \<Rightarrow> contact_url list \<Rightarrow> contact_url list" where
  "unionURLs a b = union_keyed url_key a b"

definition impp_key :: "contact_impp \<Rightarrow> string option" where
  "impp_key i = Some (norm_key (ci_type i) @ ''|'' @ norm_key (ci_value i))"

definition unionIMPPs :: "contact_impp list \<Rightarrow> contact_impp list \<Rightarrow> contact_impp list" where
  "unionIMPPs a b = union_keyed impp_key a b"

definition address_key :: "contact_address \<Rightarrow> string option" where
  "address_key a = Some (join_with ''|'' (map norm_key [ca_type a, ca_street a, ca_pobox a, ca_apartment a, ca_floor a,
     ca_city a, ca_region a, ca_postal a, ca_country a]))"

definition unionAddresses :: "contact_address list \<Rightarrow> contact_address list \<Rightarrow> contact_address list" where
  "unionAddresses a b = union_keyed address_key a b"

definition circle_key :: "string \<Rightarrow> string option" where
  "circle_key s = Some (norm_key s)"

definition unionCircles :: "string list \<Rightarrow> string list \<Rightarrow> string list" where
  "unionCircles a b = union_keyed circle_key (filter (\<lambda>s. norm_key s \<noteq> []) a) (filter (\<lambda>s. norm_key s \<noteq> []) b)"

section \<open>Scalars\<close>

record scalar_field =
  sf_key :: string
  sf_label :: string
  sf_get :: "contact \<Rightarrow> string"
  sf_set :: "string \<Rightarrow> contact \<Rightarrow> contact"

definition keeperWinsScalars :: "string list" where
  "keeperWinsScalars = [''target_closeness'']"

definition get_closeness :: "contact \<Rightarrow> string" where
  "get_closeness c = (case con_target_closeness c of None \<Rightarrow> [] | Some s \<Rightarrow> s)"

definition set_closeness :: "string \<Rightarrow> contact \<Rightarrow> contact" where
  "set_closeness v c = c\<lparr>con_target_closeness := (if v = [] then None else Some v)\<rparr>"

definition scalar :: "string \<Rightarrow> string \<Rightarrow> (contact \<Rightarrow> string) \<Rightarrow> (string \<Rightarrow> contact \<Rightarrow> contact) \<Rightarrow> scalar_field" where
  "scalar k l g s = \<lparr>sf_key = k, sf_label = l, sf_get = g, sf_set = s\<rparr>"

definition mergeScalarFields :: "scalar_field list" where
  "mergeScalarFields =
    [scalar ''firstname'' ''First Name'' con_firstname (\<lambda>v. con_firstname_update (\<lambda>_. v)),
     scalar ''lastname'' ''Last Name'' con_lastname (\<lambda>v. con_lastname_update (\<lambda>_. v)),
     scalar ''middle_name'' ''Middle Name'' con_middle_name (\<lambda>v. con_middle_name_update (\<lambda>_. v)),
     scalar ''prefix'' ''Prefix'' con_prefix (\<lambda>v. con_prefix_update (\<lambda>_. v)),
     scalar ''suffix'' ''Suffix'' con_suffix (\<lambda>v. con_suffix_update (\<lambda>_. v)),
     scalar ''nickname'' ''Nickname'' con_nickname (\<lambda>v. con_nickname_update (\<lambda>_. v)),
     scalar ''gender'' ''Gender'' con_gender (\<lambda>v. con_gender_update (\<lambda>_. v)),
     scalar ''birthday'' ''Birthday'' con_birthday (\<lambda>v. con_birthday_update (\<lambda>_. v)),
     scalar ''anniversary'' ''Anniversary'' con_anniversary (\<lambda>v. con_anniversary_update (\<lambda>_. v)),
     scalar ''organization'' ''Organization'' con_organization (\<lambda>v. con_organization_update (\<lambda>_. v)),
     scalar ''department'' ''Department'' con_department (\<lambda>v. con_department_update (\<lambda>_. v)),
     scalar ''job_title'' ''Job Title'' con_job_title (\<lambda>v. con_job_title_update (\<lambda>_. v)),
     scalar ''role'' ''Role'' con_role (\<lambda>v. con_role_update (\<lambda>_. v)),
     scalar ''how_we_met'' ''How We Met'' con_how_we_met (\<lambda>v. con_how_we_met_update (\<lambda>_. v)),
     scalar ''work_information'' ''Work Information'' con_work_information (\<lambda>v. con_work_information_update (\<lambda>_. v)),
     scalar ''contact_information'' ''Contact Information'' con_contact_information
       (\<lambda>v. con_contact_information_update (\<lambda>_. v)),
     scalar ''target_closeness'' ''Target Closeness'' get_closeness set_closeness]"

record merge_conflict =
  mc_field :: string
  mc_label :: string
  mc_keeper :: string
  mc_loser :: string

record merge_resolution =
  mr_emails :: "contact_email list"
  mr_phones :: "contact_phone list"
  mr_addresses :: "contact_address list"
  mr_urls :: "contact_url list"
  mr_impps :: "contact_impp list"
  mr_circles :: "string list"
  mr_scalars :: "string \<Rightarrow> string option"
  mr_conflicts :: "merge_conflict list"
  mr_field_values :: "merge_conflict list"

datatype scalar_outcome = Resolved string | Disputed

definition scalar_outcome :: "scalar_field \<Rightarrow> contact \<Rightarrow> contact \<Rightarrow> scalar_outcome" where
  "scalar_outcome f keeper loser =
     (let kv = sf_get f keeper; lv = sf_get f loser
      in if kv = lv then Resolved kv
         else if kv = [] then Resolved lv
         else if lv = [] \<or> sf_key f \<in> set keeperWinsScalars then Resolved kv
         else Disputed)"

definition resolve_scalar :: "contact \<Rightarrow> contact \<Rightarrow> scalar_field \<Rightarrow> merge_resolution \<Rightarrow> merge_resolution" where
  "resolve_scalar keeper loser f res =
     (case scalar_outcome f keeper loser of
        Resolved v \<Rightarrow> res\<lparr>mr_scalars := (mr_scalars res)(sf_key f \<mapsto> v)\<rparr>
      | Disputed \<Rightarrow> res\<lparr>mr_conflicts := mr_conflicts res @ [\<lparr>mc_field = sf_key f, mc_label = sf_label f,
           mc_keeper = sf_get f keeper, mc_loser = sf_get f loser\<rparr>]\<rparr>)"

definition empty_resolution :: merge_resolution where
  "empty_resolution = \<lparr>mr_emails = [], mr_phones = [], mr_addresses = [], mr_urls = [], mr_impps = [], mr_circles = [],
     mr_scalars = (\<lambda>_. None), mr_conflicts = [], mr_field_values = []\<rparr>"

definition ComputeContactMergeResolution :: "contact \<Rightarrow> contact \<Rightarrow> merge_resolution" where
  "ComputeContactMergeResolution keeper loser =
     (let res = fold (resolve_scalar keeper loser) mergeScalarFields empty_resolution
      in res\<lparr>mr_conflicts := sort_key mc_field (mr_conflicts res),
           mr_emails := unionEmails (con_emails keeper) (con_emails loser),
           mr_phones := unionPhones (con_phones keeper) (con_phones loser),
           mr_addresses := unionAddresses (con_addresses keeper) (con_addresses loser),
           mr_urls := unionURLs (con_urls keeper) (con_urls loser),
           mr_impps := unionIMPPs (con_impps keeper) (con_impps loser),
           mr_circles := unionCircles (con_circles keeper) (con_circles loser)\<rparr>)"

definition set_resolved :: "merge_resolution \<Rightarrow> scalar_field \<Rightarrow> contact \<Rightarrow> contact" where
  "set_resolved res f c = (case mr_scalars res (sf_key f) of Some v \<Rightarrow> sf_set f v c | None \<Rightarrow> c)"

definition set_chosen :: "string \<Rightarrow> string \<Rightarrow> contact \<Rightarrow> contact" where
  "set_chosen field v c = fold (\<lambda>f c. if sf_key f = field then sf_set f v c else c) mergeScalarFields c"

text \<open>The error names the first conflict without a resolution.\<close>

fun apply_conflicts :: "(string \<Rightarrow> string option) \<Rightarrow> merge_conflict list \<Rightarrow> contact \<Rightarrow> string + contact" where
  "apply_conflicts choice [] c = Inr c"
| "apply_conflicts choice (x # xs) c =
     (case choice (mc_field x) of
        None \<Rightarrow> Inl (mc_field x)
      | Some v \<Rightarrow> apply_conflicts choice xs (set_chosen (mc_field x) v c))"

definition ApplyContactMergeResolution ::
  "contact \<Rightarrow> merge_resolution \<Rightarrow> (string \<Rightarrow> string option) \<Rightarrow> string + contact" where
  "ApplyContactMergeResolution keeper res choice =
     (case apply_conflicts choice (mr_conflicts res) (fold (set_resolved res) mergeScalarFields keeper) of
        Inl e \<Rightarrow> Inl e
      | Inr c \<Rightarrow> Inr (c\<lparr>con_emails := mr_emails res, con_phones := mr_phones res, con_addresses := mr_addresses res,
           con_urls := mr_urls res, con_impps := mr_impps res, con_circles := mr_circles res\<rparr>))"

definition missingResolutions :: "merge_conflict list \<Rightarrow> (string \<Rightarrow> string option) \<Rightarrow> string list" where
  "missingResolutions conflicts choice = map mc_field (filter (\<lambda>x. choice (mc_field x) = None) conflicts)"


section \<open>What a union keeps\<close>

fun kept :: "('a \<Rightarrow> string option) \<Rightarrow> string set \<Rightarrow> 'a list \<Rightarrow> 'a list" where
  "kept key S [] = []"
| "kept key S (x # xs) =
     (case key x of None \<Rightarrow> x # kept key S xs
      | Some k \<Rightarrow> if k \<in> S then kept key S xs else x # kept key (insert k S) xs)"

lemma add_keyed_fold: "snd (fold (add_keyed key) xs st) = snd st @ kept key (set (fst st)) xs"
  by (induction xs arbitrary: st) (auto simp: add_keyed_def split: option.split)

lemma union_keyed_kept: "union_keyed key a b = kept key {} (a @ b)"
proof -
  have "union_keyed key a b = snd (fold (add_keyed key) (a @ b) ([], []))" by (simp add: union_keyed_def)
  then show ?thesis unfolding add_keyed_fold by simp
qed

text \<open>The entries come from the list and in its order, every key is represented, no key twice, and what has no key
  stays.\<close>

definition represents :: "('a \<Rightarrow> string option) \<Rightarrow> 'a list \<Rightarrow> 'a list \<Rightarrow> bool" where
  "represents key r xs \<longleftrightarrow> subseq r xs \<and>
     (\<forall>x\<in>set xs. (key x = None \<longrightarrow> x \<in> set r) \<and> (\<exists>y\<in>set r. key y = key x)) \<and>
     (\<forall>k. length (filter (\<lambda>y. key y = Some k) r) \<le> 1)"

lemma kept_subseq: "subseq (kept key S xs) xs"
  by (induction xs arbitrary: S) (auto split: option.split)

lemma kept_unkeyed: "x \<in> set xs \<Longrightarrow> key x = None \<Longrightarrow> x \<in> set (kept key S xs)"
  by (induction xs arbitrary: S) (auto split: option.split)

lemma kept_keyed: "x \<in> set xs \<Longrightarrow> key x = Some k \<Longrightarrow> k \<notin> S \<Longrightarrow> \<exists>y\<in>set (kept key S xs). key y = Some k"
proof (induction xs arbitrary: S)
  case (Cons a xs)
  show ?case
  proof (cases "key a = Some k")
    case False
    then have "x \<in> set xs" using Cons.prems by auto
    then show ?thesis using False Cons.IH Cons.prems(2,3) by (auto split: option.split)
  qed (use Cons.prems in simp)
qed simp

lemma kept_once: "length (filter (\<lambda>y. key y = Some k) (kept key S xs)) \<le> (if k \<in> S then 0 else 1)"
proof (induction xs arbitrary: S)
  case (Cons a xs)
  show ?case using Cons [of S] Cons [of "insert k S"] Cons [of "insert (the (key a)) S"]
    by (auto split: option.split if_splits)
qed simp

lemma union_represents: "represents key (union_keyed key a b) (a @ b)"
proof -
  have "key x = None \<longrightarrow> x \<in> set (kept key {} (a @ b))" "\<exists>y\<in>set (kept key {} (a @ b)). key y = key x"
    if "x \<in> set (a @ b)" for x
    using kept_unkeyed [OF that] kept_keyed [OF that, of key _ "{}"] by (cases "key x"; force)+
  then show ?thesis using kept_subseq kept_once [of key _ "{}" "a @ b"]
    unfolding represents_def union_keyed_kept by auto
qed


section \<open>Where each scalar comes from\<close>

lemmas scalar_fields = mergeScalarFields_def scalar_def get_closeness_def set_closeness_def

lemma scalar_get_set:
  "list_all (\<lambda>g. list_all (\<lambda>f. \<forall>v c. sf_get f (sf_set g v c) = (if sf_key f = sf_key g then v else sf_get f c))
     mergeScalarFields) mergeScalarFields"
  by (simp add: scalar_fields)

lemma get_set:
  "f \<in> set mergeScalarFields \<Longrightarrow> g \<in> set mergeScalarFields \<Longrightarrow>
   sf_get f (sf_set g v c) = (if sf_key f = sf_key g then v else sf_get f c)"
  using scalar_get_set by (auto simp: list_all_iff)

lemma scalar_keys_distinct: "distinct (map sf_key mergeScalarFields)"
  by (simp add: scalar_fields)

lemma key_determines:
  "f \<in> set mergeScalarFields \<Longrightarrow> g \<in> set mergeScalarFields \<Longrightarrow> sf_key f = sf_key g \<Longrightarrow> f = g"
  using scalar_keys_distinct by (metis distinct_map inj_onD)

text \<open>What the merge never writes.\<close>

definition rest_of :: "contact \<Rightarrow> contact" where
  "rest_of c = fold (\<lambda>f. sf_set f []) mergeScalarFields
     (c\<lparr>con_emails := [], con_phones := [], con_addresses := [], con_urls := [], con_impps := [], con_circles := []\<rparr>)"

lemma rest_of_set: "f \<in> set mergeScalarFields \<Longrightarrow> rest_of (sf_set f v c) = rest_of c"
  by (simp add: scalar_fields rest_of_def, elim disjE) (simp_all add: set_closeness_def)

lemma resolve_fold:
  assumes "distinct (map sf_key fs)"
  shows "mr_conflicts (fold (resolve_scalar keeper loser) fs res) = mr_conflicts res @
      map (\<lambda>f. \<lparr>mc_field = sf_key f, mc_label = sf_label f, mc_keeper = sf_get f keeper, mc_loser = sf_get f loser\<rparr>)
        (filter (\<lambda>f. scalar_outcome f keeper loser = Disputed) fs)"
    and "mr_scalars (fold (resolve_scalar keeper loser) fs res) k =
      (case find (\<lambda>f. sf_key f = k) fs of
         None \<Rightarrow> mr_scalars res k
       | Some f \<Rightarrow> (case scalar_outcome f keeper loser of Resolved v \<Rightarrow> Some v | Disputed \<Rightarrow> mr_scalars res k))"
  using assms
proof (induction fs arbitrary: res)
  case (Cons f fs)
  { case 1 then show ?case using Cons.IH(1) by (auto simp: resolve_scalar_def split: scalar_outcome.split)
  next
    case 2
    have "find (\<lambda>g. sf_key g = sf_key f) fs = None" using 2 by (auto simp: find_None_iff image_iff)
    then show ?case using 2 Cons.IH(2) by (auto simp: resolve_scalar_def split: scalar_outcome.split option.split) }
qed simp_all


lemma field_found: "f \<in> set mergeScalarFields \<Longrightarrow> find (\<lambda>g. sf_key g = sf_key f) mergeScalarFields = Some f"
proof -
  have "find (\<lambda>g. sf_key g = sf_key f) fs = Some f" if "f \<in> set fs" "distinct (map sf_key fs)" for fs
    using that by (induction fs) (auto simp: image_iff)
  then show "f \<in> set mergeScalarFields \<Longrightarrow> ?thesis" using scalar_keys_distinct by blast
qed

lemma computed_scalar:
  "f \<in> set mergeScalarFields \<Longrightarrow> mr_scalars (ComputeContactMergeResolution keeper loser) (sf_key f) =
     (case scalar_outcome f keeper loser of Resolved v \<Rightarrow> Some v | Disputed \<Rightarrow> None)"
  by (simp add: ComputeContactMergeResolution_def Let_def resolve_fold(2) [OF scalar_keys_distinct] field_found
      empty_resolution_def split: scalar_outcome.split)

lemma computed_conflicts:
  "set (mr_conflicts (ComputeContactMergeResolution keeper loser)) =
     (\<lambda>f. \<lparr>mc_field = sf_key f, mc_label = sf_label f, mc_keeper = sf_get f keeper, mc_loser = sf_get f loser\<rparr>) `
       {f \<in> set mergeScalarFields. scalar_outcome f keeper loser = Disputed}"
  by (simp add: ComputeContactMergeResolution_def Let_def resolve_fold(1) [OF scalar_keys_distinct] empty_resolution_def)

lemma resolved_fold:
  assumes "set fs \<subseteq> set mergeScalarFields" and "distinct (map sf_key fs)" and "f \<in> set mergeScalarFields"
  shows "sf_get f (fold (set_resolved res) fs c) =
      (if sf_key f \<in> sf_key ` set fs then (case mr_scalars res (sf_key f) of Some v \<Rightarrow> v | None \<Rightarrow> sf_get f c) else sf_get f c)"
    and "rest_of (fold (set_resolved res) fs c) = rest_of c"
  using assms
proof (induction fs arbitrary: c)
  case (Cons g fs)
  { case 1
    then show ?case using Cons.IH(1) [of "set_resolved res g c"] get_set [of f g]
      by (auto simp: set_resolved_def image_iff split: option.split)
  next
    case 2
    then show ?case using Cons.IH(2) rest_of_set [of g] by (simp add: set_resolved_def split: option.split) }
qed simp_all

lemma set_chosen_get:
  assumes "f \<in> set mergeScalarFields"
  shows "sf_get f (set_chosen k v c) = (if sf_key f = k then v else sf_get f c)" and "rest_of (set_chosen k v c) = rest_of c"
proof -
  let ?step = "\<lambda>f c. if sf_key f = k then sf_set f v c else c"
  have "sf_get f (fold ?step fs c) = (if sf_key f = k \<and> f \<in> set fs then v else sf_get f c) \<and> rest_of (fold ?step fs c) = rest_of c"
    if "set fs \<subseteq> set mergeScalarFields" for fs c
    using that
  proof (induction fs arbitrary: c)
    case (Cons g fs)
    then show ?case using get_set [OF assms, of g] rest_of_set [of g] key_determines [OF assms, of g] by auto
  qed simp
  from this [of mergeScalarFields c] show "sf_get f (set_chosen k v c) = (if sf_key f = k then v else sf_get f c)"
    "rest_of (set_chosen k v c) = rest_of c" using assms by (simp_all add: set_chosen_def)
qed

lemma applied_conflicts:
  "apply_conflicts choice xs c = Inr d \<Longrightarrow> (\<forall>x\<in>set xs. choice (mc_field x) \<noteq> None) \<and>
     (\<forall>f\<in>set mergeScalarFields. sf_get f d =
        (if sf_key f \<in> mc_field ` set xs then the (choice (sf_key f)) else sf_get f c)) \<and> rest_of d = rest_of c"
proof (induction xs arbitrary: c)
  case (Cons x xs)
  then obtain v where v: "choice (mc_field x) = Some v" "apply_conflicts choice xs (set_chosen (mc_field x) v c) = Inr d"
    by (auto split: option.splits)
  have "rest_of (set_chosen (mc_field x) v c) = rest_of c"
    by (rule set_chosen_get(2) [of "hd mergeScalarFields"]) (simp add: mergeScalarFields_def)
  then show ?case using Cons.IH [OF v(2)] v(1) set_chosen_get(1) by auto
qed simp

lemma apply_conflicts_ok:
  "(\<exists>d. apply_conflicts choice xs c = Inr d) \<longleftrightarrow> missingResolutions xs choice = []"
  by (induction xs arbitrary: c) (auto simp: missingResolutions_def split: option.split)

definition chosen_value :: "scalar_field \<Rightarrow> contact \<Rightarrow> contact \<Rightarrow> (string \<Rightarrow> string option) \<Rightarrow> string" where
  "chosen_value f keeper loser choice =
     (case scalar_outcome f keeper loser of Resolved v \<Rightarrow> v | Disputed \<Rightarrow> the (choice (sf_key f)))"

text \<open>The merge decides each scalar the way its preview says: it goes through exactly when every conflict of the
  preview has a resolution, and then every scalar is the common value, the only one that is not empty, the
  keeper's where it is to win, or for a conflict the value the user chose; the conflicts are exactly the
  fields in which both have different values, and nothing but the scalars and the six unions is written.\<close>

lemma merge_decides_as_previewed:
  fixes keeper loser :: contact
  defines "res \<equiv> ComputeContactMergeResolution keeper loser"
  shows "(case ApplyContactMergeResolution keeper res choice of
       Inl e \<Rightarrow> e \<in> set (missingResolutions (mr_conflicts res) choice)
     | Inr merged \<Rightarrow> missingResolutions (mr_conflicts res) choice = [] \<and>
         list_all (\<lambda>f. sf_get f merged = chosen_value f keeper loser choice) mergeScalarFields \<and>
         rest_of merged = rest_of keeper) \<and>
    mc_field ` set (mr_conflicts res) = {sf_key f | f. f \<in> set mergeScalarFields \<and> sf_get f keeper \<noteq> sf_get f loser \<and>
      sf_get f keeper \<noteq> [] \<and> sf_get f loser \<noteq> [] \<and> sf_key f \<notin> set keeperWinsScalars}"
proof
  have dis: "scalar_outcome f keeper loser = Disputed \<longleftrightarrow> sf_get f keeper \<noteq> sf_get f loser \<and>
      sf_get f keeper \<noteq> [] \<and> sf_get f loser \<noteq> [] \<and> sf_key f \<notin> set keeperWinsScalars" for f
    by (auto simp: scalar_outcome_def Let_def)
  show fields: "mc_field ` set (mr_conflicts res) = {sf_key f | f. f \<in> set mergeScalarFields \<and> sf_get f keeper \<noteq> sf_get f loser \<and>
      sf_get f keeper \<noteq> [] \<and> sf_get f loser \<noteq> [] \<and> sf_key f \<notin> set keeperWinsScalars}"
    unfolding res_def computed_conflicts by (auto simp: dis image_iff)
  let ?base = "fold (set_resolved res) mergeScalarFields keeper"
  show "case ApplyContactMergeResolution keeper res choice of
       Inl e \<Rightarrow> e \<in> set (missingResolutions (mr_conflicts res) choice)
     | Inr merged \<Rightarrow> missingResolutions (mr_conflicts res) choice = [] \<and>
         list_all (\<lambda>f. sf_get f merged = chosen_value f keeper loser choice) mergeScalarFields \<and> rest_of merged = rest_of keeper"
  proof (cases "apply_conflicts choice (mr_conflicts res) ?base")
    case (Inl e)
    have "apply_conflicts choice xs c = Inl e \<Longrightarrow> e \<in> set (missingResolutions xs choice)" for xs c
      by (induction xs arbitrary: c) (auto simp: missingResolutions_def split: option.splits)
    then show ?thesis using Inl by (simp add: ApplyContactMergeResolution_def)
  next
    case (Inr d)
    note a = applied_conflicts [OF Inr]
    have base: "sf_get f ?base = (case mr_scalars res (sf_key f) of Some v \<Rightarrow> v | None \<Rightarrow> sf_get f keeper)"
      if "f \<in> set mergeScalarFields" for f
      using resolved_fold(1) [OF subset_refl scalar_keys_distinct that, of res keeper] that by simp
    have rest: "rest_of ?base = rest_of keeper"
      by (rule resolved_fold(2) [OF subset_refl scalar_keys_distinct, of "hd mergeScalarFields"]) (simp add: mergeScalarFields_def)
    have key: "sf_key f \<in> mc_field ` set (mr_conflicts res) \<longleftrightarrow> scalar_outcome f keeper loser = Disputed"
      if "f \<in> set mergeScalarFields" for f
      unfolding fields dis using key_determines [OF that] that by auto
    have "sf_get f d = chosen_value f keeper loser choice" if "f \<in> set mergeScalarFields" for f
      using a base [OF that] key [OF that] that computed_scalar [OF that, of keeper loser]
      by (auto simp: chosen_value_def res_def split: scalar_outcome.split)
    moreover have lists: "sf_get f (d\<lparr>con_emails := e1, con_phones := e2, con_addresses := e3, con_urls := e4, con_impps := e5,
        con_circles := e6\<rparr>) = sf_get f d" if "f \<in> set mergeScalarFields" for f e1 e2 e3 e4 e5 e6
      using that by (simp add: scalar_fields, elim disjE) (simp_all add: get_closeness_def)
    moreover have "rest_of (d\<lparr>con_emails := e1, con_phones := e2, con_addresses := e3, con_urls := e4, con_impps := e5,
        con_circles := e6\<rparr>) = rest_of d" for e1 e2 e3 e4 e5 e6 by (simp add: rest_of_def)
    moreover have "missingResolutions (mr_conflicts res) choice = []" using apply_conflicts_ok Inr by metis
    ultimately show ?thesis using Inr a rest by (simp add: ApplyContactMergeResolution_def list_all_iff)
  qed
qed

end
