(* ===== verification/Merge.thy ===== *)
theory Merge imports Cascade MergeFields RelationGraph begin

text \<open>
  The table part of a contact merge (\<open>backend/services/contact_merge_service.go\<close>, \<open>CommitContactMerge\<close> in
  \<open>controllers/contact_merge_controller.go\<close>): every row of the loser is moved to the keeper, statement by
  statement in the order of the code, before the delete cascade sweeps up what is left. \<open>k\<close> and \<open>l\<close> are the keeper
  and the loser, two contacts of one user; \<open>g\<close> is the time GORM stamps its writes with.
\<close>

section \<open>Statements\<close>

text \<open>\<open>x IN (SELECT c FROM t WHERE p)\<close>: never true of NULL.\<close>

definition sql_in :: "cell \<Rightarrow> string \<Rightarrow> string \<Rightarrow> (row \<Rightarrow> bool) \<Rightarrow> tables \<Rightarrow> bool" where
  "sql_in x c t p db \<longleftrightarrow> x \<noteq> Null \<and> in_select x c t p db"

definition sql_eq :: "cell \<Rightarrow> cell \<Rightarrow> bool" where
  "sql_eq x y \<longleftrightarrow> x = y \<and> x \<noteq> Null"

text \<open>A repoint through a model stamps the time and leaves deleted rows alone where the model has a
  \<open>deleted_at\<close>; one in raw SQL does neither.\<close>

definition repoint_id :: "string \<Rightarrow> cascade_target \<Rightarrow> cascade_target \<Rightarrow> int \<Rightarrow> tables \<Rightarrow> tables" where
  "repoint_id tbl k l g db = sql_update tbl (\<lambda>r. byID l db r \<and> live r)
     (\<lambda>r. r(''contact_id'' := Num (ct_id k), ''updated_at'' := Num g)) db"

definition repoint_soft :: "string \<Rightarrow> string \<Rightarrow> cascade_target \<Rightarrow> cascade_target \<Rightarrow> int \<Rightarrow> tables \<Rightarrow> tables" where
  "repoint_soft tbl col k l g = sql_update tbl (\<lambda>r. owned col l r \<and> live r)
     (\<lambda>r. r(col := Txt (ct_uid k), ''updated_at'' := Num g))"

definition repoint_hard :: "string \<Rightarrow> string \<Rightarrow> (row \<Rightarrow> bool) \<Rightarrow> cascade_target \<Rightarrow> cascade_target \<Rightarrow> int \<Rightarrow> tables \<Rightarrow> tables" where
  "repoint_hard tbl col p k l g = sql_update tbl (\<lambda>r. p r \<and> owned col l r)
     (\<lambda>r. r(col := Txt (ct_uid k), ''updated_at'' := Num g))"

definition repoint_raw :: "string \<Rightarrow> string \<Rightarrow> cascade_target \<Rightarrow> cascade_target \<Rightarrow> tables \<Rightarrow> tables" where
  "repoint_raw tbl col k l = sql_update tbl (owned col l) (\<lambda>r. r(col := Txt (ct_uid k)))"

definition drop_shared :: "string \<Rightarrow> string \<Rightarrow> string \<Rightarrow> cascade_target \<Rightarrow> cascade_target \<Rightarrow> tables \<Rightarrow> tables" where
  "drop_shared tbl col key k l db = sql_delete tbl (\<lambda>r. owned col l r \<and> sql_in (r key) key tbl (owned col k) db) db"

definition repoint_attendance :: "cascade_target \<Rightarrow> cascade_target \<Rightarrow> tables \<Rightarrow> tables" where
  "repoint_attendance k l db =
     (let mine = (\<lambda>r db. sql_in (r ''activity_id'') ''id'' ''activities'' (\<lambda>a. a ''user_id'' = Num (ct_user l)) db);
          db1 = sql_delete ''activity_contacts'' (\<lambda>r. r ''contact_id'' = Num (ct_id l) \<and>
            sql_in (r ''activity_id'') ''activity_id'' ''activity_contacts'' (\<lambda>s. s ''contact_id'' = Num (ct_id k)) db \<and> mine r db) db
      in sql_update ''activity_contacts'' (\<lambda>r. r ''contact_id'' = Num (ct_id l) \<and> mine r db1)
           (\<lambda>r. r(''contact_id'' := Num (ct_id k))) db1)"

definition primary_of :: "cascade_target \<Rightarrow> row \<Rightarrow> bool" where
  "primary_of t r \<longleftrightarrow> owned ''contact_vcard_uid'' t r \<and> r ''is_primary'' = Num 1 \<and> live r"

definition demote_primaries :: "cascade_target \<Rightarrow> cascade_target \<Rightarrow> tables \<Rightarrow> tables" where
  "demote_primaries k l db = sql_update ''contact_entity_links''
     (\<lambda>r. primary_of l r \<and> sql_in (r ''kind'') ''kind'' ''contact_entity_links'' (primary_of k) db)
     (\<lambda>r. r(''is_primary'' := Num 0)) db"

definition pending_of :: "cascade_target \<Rightarrow> row \<Rightarrow> bool" where
  "pending_of t r \<longleftrightarrow> owned ''contact_vcard_uid'' t r \<and> r ''status'' = Txt ''pending''"

definition drop_pending :: "cascade_target \<Rightarrow> cascade_target \<Rightarrow> tables \<Rightarrow> tables" where
  "drop_pending k l db = sql_delete ''reach_out_suggestions''
     (\<lambda>r. pending_of l r \<and> sql_in (r ''kind'') ''kind'' ''reach_out_suggestions'' (pending_of k) db) db"

fun choose_values :: "cascade_target \<Rightarrow> (string \<Rightarrow> string option) \<Rightarrow> merge_conflict list \<Rightarrow> tables \<Rightarrow> string + tables" where
  "choose_values k choice [] db = Inr db"
| "choose_values k choice (x # xs) db =
     (case choice (mc_field x) of
        None \<Rightarrow> Inl (mc_field x)
      | Some v \<Rightarrow> choose_values k choice xs (sql_update ''field_values''
          (\<lambda>r. owned ''entity_id'' k r \<and> r ''field_definition_id'' = Txt (mc_field x)) (\<lambda>r. r(''value'' := Txt v)) db))"

section \<open>Life events\<close>

definition dedupStrings :: "string list \<Rightarrow> string list" where
  "dedupStrings xs = snd (fold (\<lambda>x (seen, out). if x \<in> set seen then (seen, out) else (x # seen, out @ [x])) xs ([], []))"

definition removeString :: "string list \<Rightarrow> string \<Rightarrow> string list" where
  "removeString xs v = filter (\<lambda>x. x \<noteq> v) xs"

definition related_ids :: "row \<Rightarrow> string list" where
  "related_ids r = (case r ''related_entity_ids'' of Ids xs \<Rightarrow> xs | _ \<Rightarrow> [])"

definition moved_ids :: "cascade_target \<Rightarrow> cascade_target \<Rightarrow> row \<Rightarrow> string list" where
  "moved_ids k l r =
     (let xs = dedupStrings (map (\<lambda>x. if x = ct_uid l then ct_uid k else x) (related_ids r))
      in if r ''entity_id'' = Txt (ct_uid k) then removeString xs (ct_uid k) else xs)"

definition repoint_related :: "cascade_target \<Rightarrow> cascade_target \<Rightarrow> int \<Rightarrow> tables \<Rightarrow> tables" where
  "repoint_related k l g = sql_update ''life_events''
     (\<lambda>r. r ''user_id'' = Num (ct_user l) \<and> live r \<and> ct_uid l \<in> set (related_ids r))
     (\<lambda>r. stamp_revision (r(''related_entity_ids'' := Ids (moved_ids k l r), ''updated_at'' := Num g)))"

definition drop_resolutions :: "cascade_target \<Rightarrow> cascade_target \<Rightarrow> tables \<Rightarrow> tables" where
  "drop_resolutions k l db = sql_delete ''life_event_suggestion_resolutions''
     (\<lambda>r. owned ''entity_id'' l r \<and> has_row ''life_event_suggestion_resolutions''
        (\<lambda>s. owned ''entity_id'' k s \<and> sql_eq (s ''source_kind'') (r ''source_kind'') \<and>
           sql_eq (s ''source_entry_id'') (r ''source_entry_id'') \<and> sql_eq (s ''event_type'') (r ''event_type'')) db) db"

definition repointLateEntityKeyedTables :: "cascade_target \<Rightarrow> cascade_target \<Rightarrow> int \<Rightarrow> tables \<Rightarrow> tables" where
  "repointLateEntityKeyedTables k l g db =
     (let db = repoint_soft ''occasion_obligations'' ''entity_id'' k l g db;
          db = drop_shared ''occasion_event_attendees'' ''entity_id'' ''event_id'' k l db;
          db = repoint_raw ''occasion_event_attendees'' ''entity_id'' k l db;
          db = repoint_hard ''feeds'' ''entity_id'' (\<lambda>r. r ''kind'' = Txt ''contact'') k l g db;
          db = repoint_hard ''import_source_links'' ''entity_uid'' (\<lambda>r. r ''entity_kind'' = Txt ''contact'') k l g db;
          db = drop_resolutions k l db
      in repoint_raw ''life_event_suggestion_resolutions'' ''entity_id'' k l db)"

section \<open>Policies\<close>

definition formatCadencePolicySummary :: "row \<Rightarrow> string" where
  "formatCadencePolicySummary r =
     (let days = cell_text (r ''target_interval_days'');
          types = (case r ''qualifying_types'' of Ids xs \<Rightarrow> xs | _ \<Rightarrow> [])
      in if types = [] then ''Every '' @ days @ '' days''
         else ''Every '' @ days @ '' days ('' @ join_with '', '' (sort types) @ '')'')"

definition formatDataDecayPolicySummary :: "row \<Rightarrow> string" where
  "formatDataDecayPolicySummary r =
     ''Every '' @ cell_text (r ''interval_days'') @ '' days ('' @ (if r ''active'' = Num 1 then ''active'' else ''paused'') @ '')''"

definition policy_of :: "string \<Rightarrow> cascade_target \<Rightarrow> tables \<Rightarrow> row option" where
  "policy_of tbl t db = find (\<lambda>r. owned ''entity_id'' t r \<and> live r) (db tbl)"

text \<open>What the preview asks about.\<close>

definition policy_conflict :: "string \<Rightarrow> (row \<Rightarrow> string) \<Rightarrow> string \<Rightarrow> string \<Rightarrow> cascade_target \<Rightarrow> cascade_target \<Rightarrow> tables \<Rightarrow>
  merge_conflict option" where
  "policy_conflict tbl summary field label k l db =
     (case (policy_of tbl k db, policy_of tbl l db) of
        (Some kp, Some lp) \<Rightarrow> if summary kp = summary lp then None
          else Some \<lparr>mc_field = field, mc_label = label, mc_keeper = summary kp, mc_loser = summary lp\<rparr>
      | _ \<Rightarrow> None)"

definition cadencePolicyConflictField :: string where "cadencePolicyConflictField = ''cadence_policy''"
definition dataDecayPolicyConflictField :: string where "dataDecayPolicyConflictField = ''data_decay_policy''"

definition ComputeCadencePolicyConflict :: "cascade_target \<Rightarrow> cascade_target \<Rightarrow> tables \<Rightarrow> merge_conflict option" where
  "ComputeCadencePolicyConflict =
     policy_conflict ''cadence_policies'' formatCadencePolicySummary cadencePolicyConflictField ''Stay-in-touch cadence''"

definition ComputeDataDecayPolicyConflict :: "cascade_target \<Rightarrow> cascade_target \<Rightarrow> tables \<Rightarrow> merge_conflict option" where
  "ComputeDataDecayPolicyConflict =
     policy_conflict ''data_decay_policies'' formatDataDecayPolicySummary dataDecayPolicyConflictField ''Data verification interval''"

definition adopt_policy :: "string \<Rightarrow> cascade_target \<Rightarrow> row \<Rightarrow> int \<Rightarrow> tables \<Rightarrow> tables" where
  "adopt_policy tbl k p g = sql_update tbl (\<lambda>r. r ''id'' = p ''id'' \<and> live r)
     (\<lambda>r. r(''entity_id'' := Txt (ct_uid k), ''updated_at'' := Num g))"

definition trash_policy :: "string \<Rightarrow> row \<Rightarrow> int \<Rightarrow> tables \<Rightarrow> tables" where
  "trash_policy tbl p g = sql_update tbl (\<lambda>r. r ''id'' = p ''id'' \<and> live r)
     (\<lambda>r. r(''deleted_at'' := Num g, ''updated_at'' := Num g))"

definition repoint_policy :: "string \<Rightarrow> (row \<Rightarrow> string) \<Rightarrow> string \<Rightarrow> cascade_target \<Rightarrow> cascade_target \<Rightarrow> int \<Rightarrow>
  (string \<Rightarrow> string option) \<Rightarrow> tables \<Rightarrow> string + tables" where
  "repoint_policy tbl summary field k l g choice db =
     (case policy_of tbl l db of
        None \<Rightarrow> Inr db
      | Some lp \<Rightarrow>
         (case policy_of tbl k db of
            None \<Rightarrow> Inr (adopt_policy tbl k lp g db)
          | Some kp \<Rightarrow>
             if summary kp = summary lp then Inr (trash_policy tbl lp g db)
             else (case choice field of
                None \<Rightarrow> Inl field
              | Some v \<Rightarrow>
                  if v = summary lp then Inr (adopt_policy tbl k lp g (trash_policy tbl kp g db))
                  else if v = summary kp then Inr (trash_policy tbl lp g db)
                  else Inl field)))"

definition repointCadencePolicy :: "cascade_target \<Rightarrow> cascade_target \<Rightarrow> int \<Rightarrow> (string \<Rightarrow> string option) \<Rightarrow> tables \<Rightarrow> string + tables" where
  "repointCadencePolicy = repoint_policy ''cadence_policies'' formatCadencePolicySummary cadencePolicyConflictField"

definition repointDataDecayPolicy :: "cascade_target \<Rightarrow> cascade_target \<Rightarrow> int \<Rightarrow> (string \<Rightarrow> string option) \<Rightarrow> tables \<Rightarrow> string + tables" where
  "repointDataDecayPolicy = repoint_policy ''data_decay_policies'' formatDataDecayPolicySummary dataDecayPolicyConflictField"

section \<open>Relationship edges\<close>

text \<open>Of the confidence only the order counts, so a number stands for it.\<close>

definition edgesConflict :: "row \<Rightarrow> row \<Rightarrow> bool" where
  "edgesConflict a b \<longleftrightarrow>
     (let exact = a ''source_id'' = b ''source_id'' \<and> a ''target_id'' = b ''target_id'' \<and> a ''type'' = b ''type'';
          inv = InverseRelationType (cell_text (a ''type''));
          inverse = inv \<noteq> [] \<and> a ''source_id'' = b ''target_id'' \<and> a ''target_id'' = b ''source_id'' \<and> cell_text (b ''type'') = inv
      in exact \<or> inverse)"

definition pickEdgeToDrop :: "row \<Rightarrow> row \<Rightarrow> row" where
  "pickEdgeToDrop a b =
     (let keep_b =
        (if a ''confidence'' \<noteq> b ''confidence'' then a ''confidence'' < b ''confidence''
         else if a ''status'' \<noteq> b ''status'' then b ''status'' = Txt ''confirmed''
         else if a ''created_at'' \<noteq> b ''created_at'' then b ''created_at'' < a ''created_at''
         else b ''id'' < a ''id'')
      in if (if keep_b then b else a) ''id'' = a ''id'' then b else a)"

fun mark_against :: "row \<Rightarrow> row list \<Rightarrow> cell list \<Rightarrow> cell list" where
  "mark_against a [] del = del"
| "mark_against a (b # bs) del =
     mark_against a bs (if b ''id'' \<in> set del \<or> \<not> edgesConflict a b then del
                        else List.insert (pickEdgeToDrop a b ''id'') del)"

fun mark_conflicts :: "row list \<Rightarrow> cell list \<Rightarrow> cell list" where
  "mark_conflicts [] del = del"
| "mark_conflicts (a # as) del = mark_conflicts as (if a ''id'' \<in> set del then del else mark_against a as del)"

definition move_edge :: "cascade_target \<Rightarrow> cascade_target \<Rightarrow> row \<Rightarrow> row" where
  "move_edge k l r =
     (let r = (if r ''source_id'' = Txt (ct_uid l) then r(''source_id'' := Txt (ct_uid k)) else r)
      in if r ''target_id'' = Txt (ct_uid l) then r(''target_id'' := Txt (ct_uid k)) else r)"

definition edge_of :: "cascade_target \<Rightarrow> cascade_target \<Rightarrow> row \<Rightarrow> bool" where
  "edge_of k l r \<longleftrightarrow> r ''user_id'' = Num (ct_user l) \<and>
     (r ''source_id'' \<in> {Txt (ct_uid k), Txt (ct_uid l)} \<or> r ''target_id'' \<in> {Txt (ct_uid k), Txt (ct_uid l)})"

definition edges_to_delete :: "cascade_target \<Rightarrow> cascade_target \<Rightarrow> row list \<Rightarrow> cell list" where
  "edges_to_delete k l rows =
     (let moved = map (move_edge k l) (filter (edge_of k l) rows);
          loops = map (\<lambda>r. r ''id'') (filter (\<lambda>r. r ''source_id'' = r ''target_id'') moved);
          repointed = filter (\<lambda>r. r ''source_id'' \<noteq> r ''target_id'') moved
      in mark_conflicts repointed (remdups loops))"

definition repointRelationshipEdges :: "cascade_target \<Rightarrow> cascade_target \<Rightarrow> int \<Rightarrow> tables \<Rightarrow> tables \<times> nat" where
  "repointRelationshipEdges k l g db =
     (let del = edges_to_delete k l (db ''relationship_edges'');
          db = sql_delete ''relationship_edges'' (\<lambda>r. r ''id'' \<in> set del) db;
          db = repoint_hard ''relationship_edges'' ''source_id'' (\<lambda>_. True) k l g db;
          db = repoint_hard ''relationship_edges'' ''target_id'' (\<lambda>_. True) k l g db
      in (db, length del))"

section \<open>The merge\<close>

definition repoint_before_values :: "cascade_target \<Rightarrow> cascade_target \<Rightarrow> int \<Rightarrow> tables \<Rightarrow> tables" where
  "repoint_before_values k l g db =
     (let db = repoint_id ''notes'' k l g db;
          db = repoint_id ''reminders'' k l g db;
          db = repoint_id ''reminder_completions'' k l g db;
          db = repoint_attendance k l db;
          db = drop_shared ''household_members'' ''member_vcard_uid'' ''household_id'' k l db;
          db = repoint_raw ''household_members'' ''member_vcard_uid'' k l db;
          db = drop_shared ''circle_members'' ''member_vcard_uid'' ''circle_id'' k l db;
          db = repoint_raw ''circle_members'' ''member_vcard_uid'' k l db;
          db = demote_primaries k l db;
          db = repoint_raw ''contact_entity_links'' ''contact_vcard_uid'' k l db;
          db = drop_shared ''contact_tags'' ''contact_vcard_uid'' ''tag_id'' k l db;
          db = repoint_raw ''contact_tags'' ''contact_vcard_uid'' k l db;
          db = repoint_soft ''attachments'' ''contact_vcard_uid'' k l g db;
          db = repoint_soft ''contact_images'' ''contact_vcard_uid'' k l g db;
          db = repoint_soft ''preferences'' ''entity_id'' k l g db;
          db = drop_pending k l db;
          db = repoint_hard ''reach_out_suggestions'' ''contact_vcard_uid'' (\<lambda>_. True) k l g db;
          db = repoint_raw ''external_identities'' ''entity_id'' k l db;
          db = repoint_raw ''external_activities'' ''entity_id'' k l db
      in drop_shared ''field_values'' ''entity_id'' ''field_definition_id'' k l db)"

definition repoint_after_values :: "cascade_target \<Rightarrow> cascade_target \<Rightarrow> int \<Rightarrow> tables \<Rightarrow> tables" where
  "repoint_after_values k l g db =
     (let db = repoint_raw ''field_values'' ''entity_id'' k l db;
          db = repoint_soft ''life_events'' ''entity_id'' k l g db;
          db = repoint_soft ''conversation_agenda'' ''entity_id'' k l g db;
          db = repoint_soft ''gifts'' ''entity_id'' k l g db;
          db = repoint_related k l g db
      in repointLateEntityKeyedTables k l g db)"

definition repoint_self :: "cascade_target \<Rightarrow> cascade_target \<Rightarrow> int \<Rightarrow> tables \<Rightarrow> tables" where
  "repoint_self k l g = sql_update ''users''
     (\<lambda>r. r ''id'' = Num (ct_user l) \<and> r ''self_contact_vcard_uid'' = Txt (ct_uid l) \<and> live r)
     (\<lambda>r. r(''self_contact_vcard_uid'' := Txt (ct_uid k), ''self_contact_ambient_set'' := Num 0, ''updated_at'' := Num g))"

definition RepointContactAssociations :: "cascade_target \<Rightarrow> cascade_target \<Rightarrow> int \<Rightarrow> merge_conflict list \<Rightarrow>
  (string \<Rightarrow> string option) \<Rightarrow> tables \<Rightarrow> string + (tables \<times> nat)" where
  "RepointContactAssociations k l g fv choice db =
     (case choose_values k choice fv (repoint_before_values k l g db) of
        Inl e \<Rightarrow> Inl e
      | Inr db1 \<Rightarrow>
         (case repointCadencePolicy k l g choice (repoint_after_values k l g db1) of
            Inl e \<Rightarrow> Inl e
          | Inr db2 \<Rightarrow>
             (case repointDataDecayPolicy k l g choice db2 of
                Inl e \<Rightarrow> Inl e
              | Inr db3 \<Rightarrow> Inr (repointRelationshipEdges k l g (repoint_self k l g db3)))))"

text \<open>The writes of the commit after the keeper was saved: repoint, sweep, the sync links, the loser.\<close>

definition commit_merge :: "cascade_target \<Rightarrow> cascade_target \<Rightarrow> int \<Rightarrow> int \<Rightarrow> merge_conflict list \<Rightarrow>
  (string \<Rightarrow> string option) \<Rightarrow> tables \<Rightarrow> string + (tables \<times> nat)" where
  "commit_merge k l now g fv choice db =
     (case RepointContactAssociations k l g fv choice db of
        Inl e \<Rightarrow> Inl e
      | Inr (db, dropped) \<Rightarrow>
          Inr (delete_contact_row l g (sql_delete ''contact_sync_links'' (byID l db) (DeleteContactAssociations l now g db)), dropped))"

end
