(* ===== verification/MergeEdges.thy ===== *)
theory MergeEdges imports Merge begin

text \<open>
  What the merge does to the relationship edges of the two contacts (\<open>repointRelationshipEdges\<close>): of the edges that
  say the same thing, itself or as its inverse, exactly the most authoritative one is left.
\<close>

section \<open>When two edges say the same\<close>

lemma inverse_involution: "InverseRelationType t \<noteq> [] \<Longrightarrow> InverseRelationType (InverseRelationType t) = t"
  by (rule conjunct1 [OF conjunct2 [OF traversal_directions_reciprocal]])
    (auto simp: InverseRelationType_def IsKnownRelationType_def split: option.splits)

text \<open>The columns the schema requires.\<close>

definition edge_typed :: "row \<Rightarrow> bool" where
  "edge_typed r \<longleftrightarrow> (case r ''type'' of Txt t \<Rightarrow> True | _ \<Rightarrow> False) \<and> r ''status'' \<in> {Txt ''confirmed'', Txt ''suggested''}"

lemma typed_text: "edge_typed r \<Longrightarrow> r ''type'' = Txt (cell_text (r ''type''))"
  by (auto simp: edge_typed_def cell_text_def split: cell.splits)

lemma inverse_back:
  "InverseRelationType t \<noteq> [] \<Longrightarrow> InverseRelationType (InverseRelationType t) = t \<and> t \<noteq> []"
  using inverse_involution by (cases "t = []") (simp_all add: InverseRelationType_def relationTypeRegistry_def rel_sym_def rel_asym_def)

lemma conflict_iff:
  assumes "edge_typed a" and "edge_typed b"
  shows "edgesConflict a b \<longleftrightarrow>
    a ''source_id'' = b ''source_id'' \<and> a ''target_id'' = b ''target_id'' \<and> cell_text (a ''type'') = cell_text (b ''type'') \<or>
    InverseRelationType (cell_text (a ''type'')) \<noteq> [] \<and> a ''source_id'' = b ''target_id'' \<and> a ''target_id'' = b ''source_id'' \<and>
      cell_text (b ''type'') = InverseRelationType (cell_text (a ''type''))"
proof -
  have "a ''type'' = b ''type'' \<longleftrightarrow> cell_text (a ''type'') = cell_text (b ''type'')"
    using typed_text [OF assms(1)] typed_text [OF assms(2)] by metis
  then show ?thesis by (simp add: edgesConflict_def Let_def)
qed

lemma conflict_sym:
  assumes "edge_typed a" and "edge_typed b" and "edgesConflict a b"
  shows "edgesConflict b a"
  using assms(3) inverse_back [of "cell_text (a ''type'')"]
  unfolding conflict_iff [OF assms(1,2)] conflict_iff [OF assms(2,1)] by metis

lemma conflict_trans:
  assumes typed: "edge_typed a" "edge_typed b" "edge_typed c" and "edgesConflict a b" and "edgesConflict b c"
  shows "edgesConflict a c"
  using assms(4,5) inverse_back [of "cell_text (a ''type'')"]
  unfolding conflict_iff [OF typed(1,2)] conflict_iff [OF typed(2,3)] conflict_iff [OF typed(1,3)] by metis

lemma conflict_refl: "edgesConflict a a"
  by (simp add: edgesConflict_def)

section \<open>Which of two is kept\<close>

text \<open>\<open>b\<close> goes before \<open>a\<close>: more confidence, else confirmed, else older, else the smaller identifier.\<close>

definition confirmed :: "row \<Rightarrow> bool" where
  "confirmed r \<longleftrightarrow> r ''status'' = Txt ''confirmed''"

definition outranks :: "row \<Rightarrow> row \<Rightarrow> bool" where
  "outranks b a \<longleftrightarrow>
     a ''confidence'' < b ''confidence'' \<or>
     a ''confidence'' = b ''confidence'' \<and>
       (\<not> confirmed a \<and> confirmed b \<or>
        confirmed a = confirmed b \<and>
          (b ''created_at'' < a ''created_at'' \<or> b ''created_at'' = a ''created_at'' \<and> b ''id'' < a ''id''))"

lemma rank_total:
  fixes ca cb ta tb ia ib :: cell
  assumes "ia \<noteq> ib"
  shows "(ca < cb \<or> ca = cb \<and> (\<not> sa \<and> sb \<or> sa = sb \<and> (tb < ta \<or> tb = ta \<and> ib < ia))) =
    (\<not> (cb < ca \<or> cb = ca \<and> (\<not> sb \<and> sa \<or> sb = sa \<and> (ta < tb \<or> ta = tb \<and> ia < ib))))"
  using assms by (cases "ca = cb"; cases "ta = tb"; cases sa; cases sb) auto

lemma outranks_total: "a ''id'' \<noteq> b ''id'' \<Longrightarrow> outranks b a = (\<not> outranks a b)"
  unfolding outranks_def by (rule rank_total)

lemma rank_trans:
  fixes ca cb cc ta tb tc ia ib ic :: cell
  assumes "cb < cc \<or> cb = cc \<and> (\<not> sb \<and> sc \<or> sb = sc \<and> (tc < tb \<or> tc = tb \<and> ic < ib))"
    and "ca < cb \<or> ca = cb \<and> (\<not> sa \<and> sb \<or> sa = sb \<and> (tb < ta \<or> tb = ta \<and> ib < ia))"
  shows "ca < cc \<or> ca = cc \<and> (\<not> sa \<and> sc \<or> sa = sc \<and> (tc < ta \<or> tc = ta \<and> ic < ia))"
  using assms by (elim disjE conjE) (auto intro: less_trans)

lemma outranks_trans: "outranks c b \<Longrightarrow> outranks b a \<Longrightarrow> outranks c a"
  unfolding outranks_def by (rule rank_trans)

lemma outranks_irrefl: "\<not> outranks a a"
  by (simp add: outranks_def)

lemma drop_outranked:
  assumes "edge_typed a" and "edge_typed b" and "a ''id'' \<noteq> b ''id''"
  shows "pickEdgeToDrop a b = (if outranks b a then a else b)"
proof -
  have s: "a ''status'' \<noteq> b ''status'' \<longleftrightarrow> confirmed a \<noteq> confirmed b"
    using assms(1,2) by (auto simp: edge_typed_def confirmed_def)
  have keep: "(if a ''confidence'' \<noteq> b ''confidence'' then a ''confidence'' < b ''confidence''
      else if a ''status'' \<noteq> b ''status'' then b ''status'' = Txt ''confirmed''
      else if a ''created_at'' \<noteq> b ''created_at'' then b ''created_at'' < a ''created_at''
      else b ''id'' < a ''id'') = outranks b a"
    unfolding s outranks_def by (cases "confirmed a"; cases "confirmed b") (auto simp: confirmed_def)
  show ?thesis unfolding pickEdgeToDrop_def keep Let_def using assms(3) by simp
qed

lemma best_exists:
  assumes "xs \<noteq> []"
  obtains m where "m \<in> set xs" "\<forall>x\<in>set xs. \<not> outranks x m"
proof -
  have "\<exists>m\<in>set xs. \<forall>x\<in>set xs. \<not> outranks x m"
    using assms
  proof (induction xs rule: list_nonempty_induct)
    case (cons x xs)
    then obtain m where m: "m \<in> set xs" "\<forall>y\<in>set xs. \<not> outranks y m" by blast
    show ?case
    proof (cases "outranks x m")
      case True
      have "\<not> outranks y x" if "y \<in> set xs" for y
        using outranks_trans [of y x m] True m(2) that by blast
      then show ?thesis using outranks_irrefl by (intro bexI [of _ x]) auto
    next
      case False
      then show ?thesis using m by (intro bexI [of _ m]) auto
    qed
  qed (simp add: outranks_irrefl)
  then show thesis using that by blast
qed

section \<open>The marking loops\<close>

lemma mark_against_mono: "set del \<subseteq> set (mark_against a bs del)"
proof (induction bs arbitrary: del)
  case (Cons b bs)
  let ?del = "if b ''id'' \<in> set del \<or> \<not> edgesConflict a b then del else List.insert (pickEdgeToDrop a b ''id'') del"
  have "set del \<subseteq> set ?del" by auto
  also have "\<dots> \<subseteq> set (mark_against a bs ?del)" by (rule Cons.IH)
  finally show ?case by simp
qed simp

lemma pick_id: "pickEdgeToDrop a b ''id'' \<in> {a ''id'', b ''id''}"
  by (simp add: pickEdgeToDrop_def Let_def)

lemma mark_against_pair:
  "b \<in> set bs \<Longrightarrow> edgesConflict a b \<Longrightarrow> a ''id'' \<in> set (mark_against a bs del) \<or> b ''id'' \<in> set (mark_against a bs del)"
proof (induction bs arbitrary: del)
  case (Cons c bs)
  let ?del = "if c ''id'' \<in> set del \<or> \<not> edgesConflict a c then del else List.insert (pickEdgeToDrop a c ''id'') del"
  show ?case
  proof (cases "b = c")
    case True
    then have "a ''id'' \<in> set ?del \<or> b ''id'' \<in> set ?del" using Cons.prems(2) pick_id [of a c] by auto
    then show ?thesis using mark_against_mono [of ?del a bs] by auto
  qed (use Cons in simp)
qed simp

lemma mark_conflicts_mono: "set del \<subseteq> set (mark_conflicts as del)"
proof (induction as arbitrary: del)
  case (Cons a as)
  show ?case using Cons [of del] Cons [of "mark_against a as del"] mark_against_mono [of del a as] by auto
qed simp

lemma mark_conflicts_pairs:
  "sorted_wrt (\<lambda>a b. edgesConflict a b \<longrightarrow> a ''id'' \<in> set (mark_conflicts as del) \<or> b ''id'' \<in> set (mark_conflicts as del)) as"
proof (induction as arbitrary: del)
  case (Cons a as)
  let ?del = "if a ''id'' \<in> set del then del else mark_against a as del"
  have "a ''id'' \<in> set ?del \<or> b ''id'' \<in> set ?del" if "b \<in> set as" "edgesConflict a b" for b
    using mark_against_pair [OF that, of del] by auto
  then have "a ''id'' \<in> set (mark_conflicts as ?del) \<or> b ''id'' \<in> set (mark_conflicts as ?del)"
    if "b \<in> set as" "edgesConflict a b" for b using that mark_conflicts_mono [of ?del as] by blast
  then show ?case using Cons [of ?del] by (simp del: if_split)
qed simp

text \<open>Only what is outranked by an edge that says the same is marked.\<close>

definition dominated :: "row list \<Rightarrow> row \<Rightarrow> bool" where
  "dominated as x \<longleftrightarrow> (\<exists>y\<in>set as. edgesConflict x y \<and> outranks y x)"

lemma mark_against_sound:
  assumes "\<forall>x\<in>set (a # bs). edge_typed x" and "\<forall>b\<in>set bs. a ''id'' \<noteq> b ''id''" and "set (a # bs) \<subseteq> set as"
    and "i \<in> set (mark_against a bs del)"
  shows "i \<in> set del \<or> (\<exists>x\<in>set (a # bs). i = x ''id'' \<and> dominated as x)"
  using assms
proof (induction bs arbitrary: del)
  case (Cons b bs)
  let ?del = "if b ''id'' \<in> set del \<or> \<not> edgesConflict a b then del else List.insert (pickEdgeToDrop a b ''id'') del"
  have "i \<in> set ?del \<or> (\<exists>x\<in>set (a # bs). i = x ''id'' \<and> dominated as x)"
    using Cons.prems by (intro Cons.IH) auto
  moreover have "dominated as (pickEdgeToDrop a b) \<and> pickEdgeToDrop a b \<in> {a, b}" if c: "edgesConflict a b"
  proof -
    have ab: "edge_typed a" "edge_typed b" "a ''id'' \<noteq> b ''id''" "a \<in> set as" "b \<in> set as" using Cons.prems by auto
    show ?thesis
    proof (cases "outranks b a")
      case True
      then show ?thesis using drop_outranked [OF ab(1-3)] c ab by (auto simp: dominated_def)
    next
      case False
      then have "outranks a b" using outranks_total [of a b] ab(3) by simp
      then show ?thesis using drop_outranked [OF ab(1-3)] False conflict_sym [OF ab(1,2) c] ab by (auto simp: dominated_def)
    qed
  qed
  ultimately show ?case by (auto split: if_splits)
qed simp

lemma mark_conflicts_sound:
  assumes "\<forall>x\<in>set as. edge_typed x" and "distinct (map (\<lambda>r. r ''id'') bs)" and "set bs \<subseteq> set as"
    and "i \<in> set (mark_conflicts bs del)"
  shows "i \<in> set del \<or> (\<exists>x\<in>set bs. i = x ''id'' \<and> dominated as x)"
  using assms(2-)
proof (induction bs arbitrary: del)
  case (Cons b bs)
  let ?del = "if b ''id'' \<in> set del then del else mark_against b bs del"
  have "i \<in> set ?del \<or> (\<exists>x\<in>set bs. i = x ''id'' \<and> dominated as x)"
    using Cons.prems by (intro Cons.IH) auto
  moreover have "i \<in> set del \<or> (\<exists>x\<in>set (b # bs). i = x ''id'' \<and> dominated as x)" if "i \<in> set (mark_against b bs del)"
    using that Cons.prems assms(1) by (intro mark_against_sound) (auto simp: image_iff)
  ultimately show ?case by (auto split: if_splits)
qed simp

lemma marked_exactly:
  assumes "\<forall>x\<in>set as. edge_typed x" and "distinct (map (\<lambda>r. r ''id'') as)" and "x \<in> set as"
    and "\<forall>x\<in>set as. x ''id'' \<notin> set del"
  shows "x ''id'' \<in> set (mark_conflicts as del) \<longleftrightarrow> dominated as x"
proof -
  have uniq: "unique_on (\<lambda>r. r ''id'') as" using assms(2) by (simp add: unique_on_def)
  show ?thesis
  proof
    assume marked: "x ''id'' \<in> set (mark_conflicts as del)"
    have "x ''id'' \<notin> set del" using assms(3,4) by blast
    then obtain y where y: "y \<in> set as" "x ''id'' = y ''id''" "dominated as y"
      using mark_conflicts_sound [OF assms(1,2) subset_refl marked] by blast
    have "x = y" by (rule unique_onD [OF uniq assms(3) y(1,2)])
    then show "dominated as x" using y(3) by simp
  next
    assume dom: "dominated as x"
    show "x ''id'' \<in> set (mark_conflicts as del)"
    proof (rule ccontr)
      assume alive: "x ''id'' \<notin> set (mark_conflicts as del)"
      let ?same = "filter (edgesConflict x) as"
      have mem: "x \<in> set ?same" using assms(3) conflict_refl by simp
      obtain m where m: "m \<in> set ?same" "\<forall>y\<in>set ?same. \<not> outranks y m"
        using best_exists [of ?same] list.set_cases [OF mem] by (metis list.distinct(1) mem empty_iff empty_set)
      have m_as: "m \<in> set as" "edgesConflict x m" using m(1) by auto
      have "\<not> dominated as m"
      proof
        assume "dominated as m"
        then obtain y where y: "y \<in> set as" "edgesConflict m y" "outranks y m" by (auto simp: dominated_def)
        then have "edgesConflict x y" using conflict_trans [of x m y] m_as assms(1,3) by blast
        then show False using m(2) y by auto
      qed
      then have ne: "m \<noteq> x" using dom by blast
      have marked: "m ''id'' \<in> set (mark_conflicts as del)"
      proof -
        have "edgesConflict m x" using conflict_sym [of x m] m_as assms(1,3) by blast
        then show ?thesis
          using sorted_wrt_pair [OF mark_conflicts_pairs [of as del] m_as(1) assms(3) ne] alive m_as(2) by blast
      qed
      have "m ''id'' \<notin> set del" using assms(4) m_as(1) by blast
      then obtain y where y: "y \<in> set as" "m ''id'' = y ''id''" "dominated as y"
        using mark_conflicts_sound [OF assms(1,2) subset_refl marked] by blast
      have "m = y" by (rule unique_onD [OF uniq m_as(1) y(1,2)])
      then show False using \<open>\<not> dominated as m\<close> y(3) by simp
    qed
  qed
qed


section \<open>The edges after the merge\<close>

lemma move_edge_columns: "c \<noteq> ''source_id'' \<Longrightarrow> c \<noteq> ''target_id'' \<Longrightarrow> move_edge k l r c = r c"
  by (simp add: move_edge_def Let_def)

lemma move_edge_typed: "edge_typed (move_edge k l r) = edge_typed r"
  by (simp add: edge_typed_def move_edge_columns)

definition moved_edges :: "cascade_target \<Rightarrow> cascade_target \<Rightarrow> row list \<Rightarrow> row list" where
  "moved_edges k l rows = filter (\<lambda>r. r ''source_id'' \<noteq> r ''target_id'') (map (move_edge k l) (filter (edge_of k l) rows))"

text \<open>An edge of either contact is deleted when it joins the two, or when another says the same and outranks it.\<close>

lemma deleted_exactly:
  assumes "\<forall>r\<in>set rows. edge_typed r" and "unique_on (\<lambda>r. r ''id'') rows" and "r \<in> set rows"
  shows "r ''id'' \<in> set (edges_to_delete k l rows) \<longleftrightarrow> edge_of k l r \<and>
    (move_edge k l r ''source_id'' = move_edge k l r ''target_id'' \<or> dominated (moved_edges k l rows) (move_edge k l r))"
proof -
  let ?moved = "map (move_edge k l) (filter (edge_of k l) rows)"
  let ?loops = "map (\<lambda>r. r ''id'') (filter (\<lambda>r. r ''source_id'' = r ''target_id'') ?moved)"
  have del: "edges_to_delete k l rows = mark_conflicts (moved_edges k l rows) (remdups ?loops)"
    by (simp add: edges_to_delete_def moved_edges_def Let_def)
  have id: "move_edge k l s ''id'' = s ''id''" for s by (simp add: move_edge_columns)
  have same: "s = s'" if "s \<in> set rows" "s' \<in> set rows" "s ''id'' = s' ''id''" for s s'
    using unique_onD [OF assms(2) that] .
  have typed: "\<forall>x\<in>set (moved_edges k l rows). edge_typed x"
    using assms(1) by (auto simp: moved_edges_def move_edge_typed)
  have dist: "distinct (map (\<lambda>r. r ''id'') (moved_edges k l rows))"
    unfolding moved_edges_def by (intro distinct_map_filter) (use assms(2) in \<open>simp add: unique_on_def o_def id distinct_map_filter\<close>)
  have loop_iff: "s ''id'' \<in> set (remdups ?loops) \<longleftrightarrow> edge_of k l s \<and> move_edge k l s ''source_id'' = move_edge k l s ''target_id''"
    if "s \<in> set rows" for s using same [OF that] that by (auto simp: image_iff id)
  have apart: "\<forall>x\<in>set (moved_edges k l rows). x ''id'' \<notin> set (remdups ?loops)"
  proof
    fix x assume "x \<in> set (moved_edges k l rows)"
    then obtain s where s: "s \<in> set rows" "x = move_edge k l s" "x ''source_id'' \<noteq> x ''target_id''" by (auto simp: moved_edges_def)
    then show "x ''id'' \<notin> set (remdups ?loops)" using loop_iff [OF s(1)] by (simp add: id del: set_remdups)
  qed
  consider "\<not> edge_of k l r" | "edge_of k l r" "move_edge k l r ''source_id'' = move_edge k l r ''target_id''"
    | "move_edge k l r \<in> set (moved_edges k l rows)" "edge_of k l r" "move_edge k l r ''source_id'' \<noteq> move_edge k l r ''target_id''"
    using assms(3) by (auto simp: moved_edges_def)
  then show ?thesis
  proof cases
    case 1
    have "r ''id'' \<notin> set (edges_to_delete k l rows)"
    proof
      assume "r ''id'' \<in> set (edges_to_delete k l rows)"
      then have "r ''id'' \<in> set (remdups ?loops) \<or> (\<exists>x\<in>set (moved_edges k l rows). r ''id'' = x ''id'')"
        using mark_conflicts_sound [OF typed dist subset_refl] unfolding del by blast
      then show False
      proof
        assume "\<exists>x\<in>set (moved_edges k l rows). r ''id'' = x ''id''"
        then obtain s where "s \<in> set rows" "edge_of k l s" "r ''id'' = s ''id''" by (auto simp: moved_edges_def id)
        then show False using same [OF assms(3)] 1 by blast
      qed (use loop_iff [OF assms(3)] 1 in blast)
    qed
    then show ?thesis using 1 by blast
  next
    case 2
    then have "r ''id'' \<in> set (remdups ?loops)" using loop_iff [OF assms(3)] by blast
    then show ?thesis using 2 mark_conflicts_mono [of "remdups ?loops" "moved_edges k l rows"] unfolding del by blast
  next
    case 3
    then show ?thesis using marked_exactly [OF typed dist 3(1) apart] unfolding del by (simp add: id)
  qed
qed

lemma repointed_edge:
  fixes k l :: cascade_target and r :: row and g :: int
  assumes "r ''user_id'' = Num (ct_user l)"
  defines "s \<equiv> (if owned ''source_id'' l r then r(''source_id'' := Txt (ct_uid k), ''updated_at'' := Num g) else r)"
  defines "t \<equiv> (if owned ''target_id'' l s then s(''target_id'' := Txt (ct_uid k), ''updated_at'' := Num g) else s)"
  shows "c \<noteq> ''updated_at'' \<Longrightarrow> t c = move_edge k l r c"
  using assms(1) by (auto simp: t_def s_def move_edge_def owned_def Let_def)

text \<open>What the edge table holds afterwards, column for column but for the time stamps.\<close>

definition same_edge :: "row \<Rightarrow> row \<Rightarrow> bool" where
  "same_edge r s \<longleftrightarrow> (\<forall>c. c \<noteq> ''updated_at'' \<longrightarrow> r c = s c)"

lemma edges_after:
  "list_all2 same_edge (fst (repointRelationshipEdges k l g db) ''relationship_edges'') (map (\<lambda>r. if r ''user_id'' = Num (ct_user l) then move_edge k l r else r)
    (filter (\<lambda>r. r ''id'' \<notin> set (edges_to_delete k l (db ''relationship_edges''))) (db ''relationship_edges'')))"
proof -
  let ?f = "\<lambda>r. if owned ''source_id'' l r then r(''source_id'' := Txt (ct_uid k), ''updated_at'' := Num g) else r"
  let ?h = "\<lambda>r. if owned ''target_id'' l r then r(''target_id'' := Txt (ct_uid k), ''updated_at'' := Num g) else r"
  have e: "fst (repointRelationshipEdges k l g db) ''relationship_edges'' = map (\<lambda>r. ?h (?f r)) (filter (\<lambda>r. r ''id'' \<notin> set (edges_to_delete k l (db ''relationship_edges''))) (db ''relationship_edges''))"
    by (simp add: repointRelationshipEdges_def repoint_hard_def Let_def)
  have "same_edge (?h (?f r)) (if r ''user_id'' = Num (ct_user l) then move_edge k l r else r)" for r
    using repointed_edge [of r l _ k g] by (auto simp: same_edge_def owned_def)
  then show ?thesis unfolding e by (auto simp: list_all2_conv_all_nth)
qed


lemma list_all2_from: "list_all2 P xs ys \<Longrightarrow> x \<in> set xs \<Longrightarrow> \<exists>y\<in>set ys. P x y"
  by (induction rule: list_all2_induct) auto

lemma list_all2_to: "list_all2 P xs ys \<Longrightarrow> y \<in> set ys \<Longrightarrow> \<exists>x\<in>set xs. P x y"
  by (induction rule: list_all2_induct) auto

lemma edge_after:
  assumes "s \<in> set (fst (repointRelationshipEdges k l g db) ''relationship_edges'')"
  obtains r where "r \<in> set (db ''relationship_edges'')" "r ''id'' \<notin> set (edges_to_delete k l (db ''relationship_edges''))"
    "same_edge s (if r ''user_id'' = Num (ct_user l) then move_edge k l r else r)"
  using list_all2_from [OF edges_after [of k l g db] assms] that by auto

lemma edge_before:
  assumes "r \<in> set (db ''relationship_edges'')" and "r ''id'' \<notin> set (edges_to_delete k l (db ''relationship_edges''))"
  obtains s where "s \<in> set (fst (repointRelationshipEdges k l g db) ''relationship_edges'')"
    "same_edge s (if r ''user_id'' = Num (ct_user l) then move_edge k l r else r)"
proof -
  let ?f = "\<lambda>r. if r ''user_id'' = Num (ct_user l) then move_edge k l r else r"
  have "?f r \<in> set (map ?f (filter (\<lambda>r. r ''id'' \<notin> set (edges_to_delete k l (db ''relationship_edges''))) (db ''relationship_edges'')))"
    using assms by (auto intro!: image_eqI [of _ ?f r])
  from list_all2_to [OF edges_after [of k l g db] this] show thesis using that by blast
qed

lemma same_edge_columns:
  assumes "same_edge s r"
  shows "s ''id'' = r ''id''" "s ''user_id'' = r ''user_id''" "s ''source_id'' = r ''source_id''" "s ''target_id'' = r ''target_id''"
    "s ''type'' = r ''type''" "s ''confidence'' = r ''confidence''" "s ''status'' = r ''status''" "s ''created_at'' = r ''created_at''"
  using assms by (simp_all add: same_edge_def)

lemma same_edge_relations:
  assumes "same_edge s r"
  shows "edgesConflict s x = edgesConflict r x" "edgesConflict x s = edgesConflict x r" "outranks s x = outranks r x"
    "outranks x s = outranks x r" "edge_of k l s = edge_of k l r"
  by (simp_all add: edgesConflict_def outranks_def confirmed_def edge_of_def same_edge_columns [OF assms])

lemma moved_ends:
  assumes "ct_uid k \<noteq> ct_uid l"
  shows "move_edge k l r ''source_id'' \<noteq> Txt (ct_uid l)" "move_edge k l r ''target_id'' \<noteq> Txt (ct_uid l)"
  using assms by (simp_all add: move_edge_def Let_def)

lemma moved_of: "edge_of k l (move_edge k l r) = edge_of k l r"
  by (auto simp: edge_of_def move_edge_def Let_def)

abbreviation edges_left :: "cascade_target \<Rightarrow> cascade_target \<Rightarrow> int \<Rightarrow> tables \<Rightarrow> row set" where
  "edges_left k l g db \<equiv> set (fst (repointRelationshipEdges k l g db) ''relationship_edges'')"

lemma moved_by_user: "(if r ''user_id'' = Num (ct_user l) then move_edge k l r else r) = (if edge_of k l r then move_edge k l r else r)"
  by (auto simp: edge_of_def move_edge_def Let_def)

lemma left_from:
  assumes "s \<in> edges_left k l g db"
  obtains r where "r \<in> set (db ''relationship_edges'')" "r ''id'' \<notin> set (edges_to_delete k l (db ''relationship_edges''))"
    "same_edge s (if edge_of k l r then move_edge k l r else r)"
  using edge_after [OF assms] unfolding moved_by_user by blast

lemma left_to:
  assumes "r \<in> set (db ''relationship_edges'')" and "r ''id'' \<notin> set (edges_to_delete k l (db ''relationship_edges''))"
  obtains s where "s \<in> edges_left k l g db" "same_edge s (if edge_of k l r then move_edge k l r else r)"
  using edge_before [where db = db and g = g and l = l and k = k and r = r, OF assms] unfolding moved_by_user by blast

lemma moved_member:
  "r \<in> set rows \<Longrightarrow> edge_of k l r \<Longrightarrow> move_edge k l r ''source_id'' \<noteq> move_edge k l r ''target_id'' \<Longrightarrow>
     move_edge k l r \<in> set (moved_edges k l rows)"
  by (auto simp: moved_edges_def)

lemma left_not_loser:
  assumes "\<forall>r\<in>set (db ''relationship_edges''). edge_typed r" and "unique_on (\<lambda>r. r ''id'') (db ''relationship_edges'')"
    and "ct_uid k \<noteq> ct_uid l" and "s \<in> edges_left k l g db" and "s ''user_id'' = Num (ct_user l)"
  shows "s ''source_id'' \<noteq> Txt (ct_uid l) \<and> s ''target_id'' \<noteq> Txt (ct_uid l) \<and> (edge_of k l s \<longrightarrow> s ''source_id'' \<noteq> s ''target_id'')"
proof -
  obtain r where r: "r \<in> set (db ''relationship_edges'')" "r ''id'' \<notin> set (edges_to_delete k l (db ''relationship_edges''))"
    "same_edge s (if r ''user_id'' = Num (ct_user l) then move_edge k l r else r)" by (rule edge_after [OF assms(4)])
  have "r ''user_id'' = Num (ct_user l)"
    using assms(5) same_edge_columns(2) [OF r(3)] by (auto simp: move_edge_columns split: if_splits)
  then have s: "same_edge s (move_edge k l r)" using r(3) by simp
  show ?thesis using moved_ends [OF assms(3), of r] deleted_exactly [OF assms(1,2) r(1)] r(2) moved_of [of k l r]
    by (auto simp: same_edge_columns [OF s] same_edge_relations [OF s])
qed

lemma left_once:
  assumes "\<forall>r\<in>set (db ''relationship_edges''). edge_typed r" and "unique_on (\<lambda>r. r ''id'') (db ''relationship_edges'')"
    and "s \<in> edges_left k l g db" and "t \<in> edges_left k l g db" and st: "edge_of k l s" "edge_of k l t" "edgesConflict s t"
  shows "s ''id'' = t ''id''"
proof -
  let ?rows = "db ''relationship_edges''"
  note del = deleted_exactly [OF assms(1,2)]
  obtain r where r: "r \<in> set ?rows" "r ''id'' \<notin> set (edges_to_delete k l ?rows)"
    "same_edge s (if edge_of k l r then move_edge k l r else r)" by (rule left_from [OF assms(3)])
  obtain q where q: "q \<in> set ?rows" "q ''id'' \<notin> set (edges_to_delete k l ?rows)"
    "same_edge t (if edge_of k l q then move_edge k l q else q)" by (rule left_from [OF assms(4)])
  have rq: "edge_of k l r" "edge_of k l q"
    using st(1,2) same_edge_relations(5) [OF r(3)] same_edge_relations(5) [OF q(3)] by (auto simp: moved_of split: if_splits)
  then have s: "same_edge s (move_edge k l r)" and t: "same_edge t (move_edge k l q)" using r(3) q(3) by simp_all
  have typed: "edge_typed (move_edge k l r)" "edge_typed (move_edge k l q)" using assms(1) r(1) q(1) by (simp_all add: move_edge_typed)
  have c: "edgesConflict (move_edge k l r) (move_edge k l q)"
    using st(3) by (simp add: same_edge_relations [OF s] same_edge_relations [OF t])
  have ok: "\<not> dominated (moved_edges k l ?rows) (move_edge k l r)" "\<not> dominated (moved_edges k l ?rows) (move_edge k l q)"
    "move_edge k l r \<in> set (moved_edges k l ?rows)" "move_edge k l q \<in> set (moved_edges k l ?rows)"
    using del [OF r(1)] del [OF q(1)] r(2) q(2) rq moved_member r(1) q(1) by blast+
  have "\<not> outranks (move_edge k l q) (move_edge k l r)" "\<not> outranks (move_edge k l r) (move_edge k l q)"
    using ok c conflict_sym [OF typed c] unfolding dominated_def by blast+
  then have "move_edge k l r ''id'' = move_edge k l q ''id''" using outranks_total by blast
  then show ?thesis by (simp add: same_edge_columns [OF s] same_edge_columns [OF t])
qed

lemma left_best:
  assumes "\<forall>r\<in>set (db ''relationship_edges''). edge_typed r" and "unique_on (\<lambda>r. r ''id'') (db ''relationship_edges'')"
    and r: "r \<in> set (db ''relationship_edges'')" "edge_of k l r" "move_edge k l r ''source_id'' \<noteq> move_edge k l r ''target_id''"
  shows "\<exists>s\<in>edges_left k l g db. edgesConflict (move_edge k l r) s \<and> \<not> outranks (move_edge k l r) s"
proof -
  let ?rows = "db ''relationship_edges''"
  have typed: "edge_typed (move_edge k l x)" if "x \<in> set ?rows" for x using assms(1) that by (simp add: move_edge_typed)
  let ?same = "filter (edgesConflict (move_edge k l r)) (moved_edges k l ?rows)"
  have mem: "move_edge k l r \<in> set ?same" using moved_member [OF r] conflict_refl by simp
  then have "?same \<noteq> []" by (metis empty_iff empty_set)
  then obtain m where m: "m \<in> set ?same" "\<forall>x\<in>set ?same. \<not> outranks x m" by (rule best_exists)
  then obtain q where q: "q \<in> set ?rows" "edge_of k l q" "m = move_edge k l q" "m ''source_id'' \<noteq> m ''target_id''"
    by (auto simp: moved_edges_def)
  have "\<not> dominated (moved_edges k l ?rows) m"
  proof
    assume "dominated (moved_edges k l ?rows) m"
    then obtain y where y: "y \<in> set (moved_edges k l ?rows)" "edgesConflict m y" "outranks y m" by (auto simp: dominated_def)
    have "edge_typed y" using y(1) assms(1) by (auto simp: moved_edges_def move_edge_typed)
    then have "edgesConflict (move_edge k l r) y"
      using conflict_trans [OF typed [OF r(1)] typed [OF q(1)], of y] m(1) y(2) q(3) by simp
    then show False using m(2) y(1,3) by simp
  qed
  then have "q ''id'' \<notin> set (edges_to_delete k l ?rows)" using deleted_exactly [OF assms(1,2) q(1)] q(3,4) by blast
  then obtain s where s: "s \<in> edges_left k l g db" "same_edge s (if edge_of k l q then move_edge k l q else q)"
    by (rule left_to [where k = k and l = l and g = g and db = db, OF q(1)])
  have "same_edge s m" using s(2) q(2,3) by simp
  then show ?thesis using s(1) m mem by (intro bexI [of _ s]) (auto simp: same_edge_relations)
qed

lemma left_others:
  assumes "\<forall>r\<in>set (db ''relationship_edges''). edge_typed r" and "unique_on (\<lambda>r. r ''id'') (db ''relationship_edges'')"
    and "r \<in> set (db ''relationship_edges'')" "\<not> edge_of k l r"
  shows "\<exists>s\<in>edges_left k l g db. same_edge s r"
proof -
  have "r ''id'' \<notin> set (edges_to_delete k l (db ''relationship_edges''))" using assms deleted_exactly by blast
  then obtain s where "s \<in> edges_left k l g db" "same_edge s (if edge_of k l r then move_edge k l r else r)"
    by (rule left_to [where k = k and l = l and g = g and db = db, OF assms(3)])
  then show ?thesis using assms(4) by auto
qed

text \<open>C28: merging two contacts leaves exactly the most authoritative edge per fact: afterwards no edge of the user
  names the merged contact or joins the survivor to itself; of the edges that say the same thing, also as
  each other's inverse, one is left, and none that said it outranks it; every edge left was there before
  with its end points moved, and all other edges are untouched.\<close>

theorem merged_edges_authoritative:
  fixes k l :: cascade_target and g :: int
  defines "rows' db \<equiv> set (fst (repointRelationshipEdges k l g db) ''relationship_edges'')"
  assumes "\<forall>r\<in>set (db ''relationship_edges''). edge_typed r" and "unique_on (\<lambda>r. r ''id'') (db ''relationship_edges'')"
    and "ct_uid k \<noteq> ct_uid l"
  shows "(\<forall>s\<in>rows' db. s ''user_id'' = Num (ct_user l) \<longrightarrow> s ''source_id'' \<noteq> Txt (ct_uid l) \<and> s ''target_id'' \<noteq> Txt (ct_uid l) \<and>
      (edge_of k l s \<longrightarrow> s ''source_id'' \<noteq> s ''target_id'')) \<and>
    (\<forall>s\<in>rows' db. \<forall>t\<in>rows' db. edge_of k l s \<and> edge_of k l t \<and> edgesConflict s t \<longrightarrow> s ''id'' = t ''id'') \<and>
    (\<forall>r\<in>set (db ''relationship_edges''). edge_of k l r \<and> move_edge k l r ''source_id'' \<noteq> move_edge k l r ''target_id'' \<longrightarrow>
      (\<exists>s\<in>rows' db. edgesConflict (move_edge k l r) s \<and> \<not> outranks (move_edge k l r) s)) \<and>
    (\<forall>s\<in>rows' db. \<exists>r\<in>set (db ''relationship_edges''). same_edge s (if edge_of k l r then move_edge k l r else r)) \<and>
    (\<forall>r\<in>set (db ''relationship_edges''). \<not> edge_of k l r \<longrightarrow> (\<exists>s\<in>rows' db. same_edge s r))"
  unfolding rows'_def
  using left_not_loser [where db = db, OF assms(2-4)] left_once [where db = db, OF assms(2,3)]
    left_best [where db = db, OF assms(2,3)] left_others [where db = db, OF assms(2,3)]
  by (intro conjI ballI impI; (elim conjE)?) (blast | blast elim: left_from)+

definition sample_keeper :: cascade_target where
  "sample_keeper = \<lparr>ct_id = 1, ct_uid = ''k'', ct_user = 7, ct_batch = []\<rparr>"

definition sample_loser :: cascade_target where
  "sample_loser = \<lparr>ct_id = 2, ct_uid = ''l'', ct_user = 7, ct_batch = ''b''\<rparr>"

definition edge_row :: "string \<Rightarrow> string \<Rightarrow> string \<Rightarrow> string \<Rightarrow> int \<Rightarrow> row" where
  "edge_row i a b t conf = (\<lambda>_. Null)(''id'' := Txt i, ''user_id'' := Num 7, ''source_id'' := Txt a, ''target_id'' := Txt b,
     ''type'' := Txt t, ''confidence'' := Num conf, ''status'' := Txt ''confirmed'')"

definition sample_edges :: tables where
  "sample_edges = (\<lambda>_. [])(''relationship_edges'' :=
     [edge_row ''1'' ''k'' ''x'' ''parent_of'' 80, edge_row ''2'' ''x'' ''l'' ''child_of'' 100, edge_row ''3'' ''k'' ''l'' ''friend_of'' 100])"

theorem merged_edges_authoritative_witness:
  "\<exists>s\<in>set (fst (repointRelationshipEdges sample_keeper sample_loser 5 sample_edges) ''relationship_edges'').
     edgesConflict (edge_row ''1'' ''k'' ''x'' ''parent_of'' 80) s \<and> \<not> outranks (edge_row ''1'' ''k'' ''x'' ''parent_of'' 80) s"
proof -
  have rows: "sample_edges ''relationship_edges'' = [edge_row ''1'' ''k'' ''x'' ''parent_of'' 80,
      edge_row ''2'' ''x'' ''l'' ''child_of'' 100, edge_row ''3'' ''k'' ''l'' ''friend_of'' 100]" by (simp add: sample_edges_def)
  have hyps: "\<forall>r\<in>set (sample_edges ''relationship_edges''). edge_typed r" "unique_on (\<lambda>r. r ''id'') (sample_edges ''relationship_edges'')"
    "ct_uid sample_keeper \<noteq> ct_uid sample_loser"
    by (simp_all add: rows edge_row_def edge_typed_def unique_on_def sample_keeper_def sample_loser_def)
  have e: "edge_of sample_keeper sample_loser (edge_row ''1'' ''k'' ''x'' ''parent_of'' 80)"
    "move_edge sample_keeper sample_loser (edge_row ''1'' ''k'' ''x'' ''parent_of'' 80) = edge_row ''1'' ''k'' ''x'' ''parent_of'' 80"
    "edge_row ''1'' ''k'' ''x'' ''parent_of'' 80 ''source_id'' \<noteq> edge_row ''1'' ''k'' ''x'' ''parent_of'' 80 ''target_id''"
    by (simp_all add: edge_of_def move_edge_def sample_keeper_def sample_loser_def edge_row_def Let_def)
  have "edge_row ''1'' ''k'' ''x'' ''parent_of'' 80 \<in> set (sample_edges ''relationship_edges'')" by (simp add: rows)
  from conjunct1 [OF conjunct2 [OF conjunct2 [OF merged_edges_authoritative [where db = sample_edges and g = 5, OF hyps]]], rule_format, OF this] e
  show ?thesis by simp
qed

end
