(* ===== verification/MergeTables.thy ===== *)
theory MergeTables imports MergeEdges begin

text \<open>
  Where the rows of the merged contact end up: one equation per table for the statements of the merge, the sweep
  that follows, and the theorem that nothing live is lost.
\<close>

section \<open>Each statement on each table\<close>

definition keyed_id :: "cascade_target \<Rightarrow> row \<Rightarrow> bool" where
  "keyed_id t r \<longleftrightarrow> r ''contact_id'' = Num (ct_id t) \<and> r ''user_id'' = Num (ct_user t)"

lemma repoint_id_at: "repoint_id t k l g db u = (if u = t
    then map (\<lambda>r. if keyed_id l r \<and> live r then r(''contact_id'' := Num (ct_id k), ''updated_at'' := Num g) else r) (db t)
    else db u)"
  by (simp add: repoint_id_def byID_def keyed_id_def)

lemma repoint_soft_at: "repoint_soft t col k l g db u = (if u = t
    then map (\<lambda>r. if owned col l r \<and> live r then r(col := Txt (ct_uid k), ''updated_at'' := Num g) else r) (db t) else db u)"
  by (simp add: repoint_soft_def)

lemma repoint_hard_at: "repoint_hard t col p k l g db u = (if u = t
    then map (\<lambda>r. if p r \<and> owned col l r then r(col := Txt (ct_uid k), ''updated_at'' := Num g) else r) (db t) else db u)"
  by (simp add: repoint_hard_def)

lemma repoint_raw_at: "repoint_raw t col k l db u = (if u = t
    then map (\<lambda>r. if owned col l r then r(col := Txt (ct_uid k)) else r) (db t) else db u)"
  by (simp add: repoint_raw_def)

definition shared_with :: "cascade_target \<Rightarrow> string \<Rightarrow> string \<Rightarrow> row list \<Rightarrow> row \<Rightarrow> bool" where
  "shared_with k col key rows r \<longleftrightarrow> r key \<noteq> Null \<and> (\<exists>s\<in>set rows. owned col k s \<and> s key = r key)"

lemma drop_shared_at: "drop_shared t col key k l db u = (if u = t
    then filter (\<lambda>r. \<not> (owned col l r \<and> shared_with k col key (db t) r)) (db t) else db u)"
  by (auto simp: drop_shared_def shared_with_def sql_in_def in_select_iff sql_delete_def)

lemma demote_primaries_at: "demote_primaries k l db u = (if u = ''contact_entity_links''
    then map (\<lambda>r. if primary_of l r \<and> sql_in (r ''kind'') ''kind'' ''contact_entity_links'' (primary_of k) db
      then r(''is_primary'' := Num 0) else r) (db ''contact_entity_links'') else db u)"
  by (simp add: demote_primaries_def)

lemma drop_pending_at: "drop_pending k l db u = (if u = ''reach_out_suggestions''
    then filter (\<lambda>r. \<not> (pending_of l r \<and> r ''kind'' \<noteq> Null \<and>
      (\<exists>s\<in>set (db ''reach_out_suggestions''). pending_of k s \<and> s ''kind'' = r ''kind''))) (db ''reach_out_suggestions'') else db u)"
  by (auto simp: drop_pending_def sql_in_def in_select_iff sql_delete_def)

lemma drop_resolutions_at: "drop_resolutions k l db u = (if u = ''life_event_suggestion_resolutions''
    then filter (\<lambda>r. \<not> (owned ''entity_id'' l r \<and> (\<exists>s\<in>set (db ''life_event_suggestion_resolutions''). owned ''entity_id'' k s \<and>
      sql_eq (s ''source_kind'') (r ''source_kind'') \<and> sql_eq (s ''source_entry_id'') (r ''source_entry_id'') \<and>
      sql_eq (s ''event_type'') (r ''event_type'')))) (db ''life_event_suggestion_resolutions'') else db u)"
  by (simp add: drop_resolutions_def has_row_def list_ex_iff sql_delete_def)

lemma repoint_related_at: "repoint_related k l g db u = (if u = ''life_events''
    then map (\<lambda>r. if r ''user_id'' = Num (ct_user l) \<and> live r \<and> ct_uid l \<in> set (related_ids r)
      then stamp_revision (r(''related_entity_ids'' := Ids (moved_ids k l r), ''updated_at'' := Num g)) else r) (db ''life_events'')
    else db u)"
  by (simp add: repoint_related_def)

definition own_activity :: "cascade_target \<Rightarrow> tables \<Rightarrow> row \<Rightarrow> bool" where
  "own_activity t db r \<longleftrightarrow> sql_in (r ''activity_id'') ''id'' ''activities'' (\<lambda>a. a ''user_id'' = Num (ct_user t)) db"

lemma repoint_attendance_at: "repoint_attendance k l db u = (if u = ''activity_contacts''
    then map (\<lambda>r. if r ''contact_id'' = Num (ct_id l) \<and> own_activity l db r then r(''contact_id'' := Num (ct_id k)) else r)
      (filter (\<lambda>r. \<not> (r ''contact_id'' = Num (ct_id l) \<and>
        sql_in (r ''activity_id'') ''activity_id'' ''activity_contacts'' (\<lambda>s. s ''contact_id'' = Num (ct_id k)) db \<and> own_activity l db r))
        (db ''activity_contacts''))
    else db u)"
  by (simp add: repoint_attendance_def Let_def own_activity_def sql_in_def in_select_def)

lemma repoint_self_other: "u \<noteq> ''users'' \<Longrightarrow> repoint_self k l g db u = db u"
  by (simp add: repoint_self_def)

lemma repoint_edges_other: "u \<noteq> ''relationship_edges'' \<Longrightarrow> fst (repointRelationshipEdges k l g db) u = db u"
  by (simp add: repointRelationshipEdges_def Let_def repoint_hard_at)

lemma choose_values_other: "choose_values k choice fv db = Inr db' \<Longrightarrow> u \<noteq> ''field_values'' \<Longrightarrow> db' u = db u"
  by (induction fv arbitrary: db) (auto split: option.splits)

lemma repoint_policy_other: "repoint_policy t f x k l g choice db = Inr db' \<Longrightarrow> u \<noteq> t \<Longrightarrow> db' u = db u"
  by (auto simp: repoint_policy_def adopt_policy_def trash_policy_def split: option.splits if_splits)

lemmas merge_statements = repoint_id_at repoint_soft_at repoint_hard_at repoint_raw_at drop_shared_at demote_primaries_at
  drop_pending_at drop_resolutions_at repoint_related_at repoint_attendance_at

text \<open>The repointed tables.\<close>

lemma repointed_table:
  assumes "RepointContactAssociations k l g fv choice db = Inr (db', n)"
    and "u \<notin> {''cadence_policies'', ''data_decay_policies'', ''users'', ''relationship_edges''}"
  shows "\<exists>db1. choose_values k choice fv (repoint_before_values k l g db) = Inr db1 \<and> db' u = repoint_after_values k l g db1 u"
proof -
  obtain db1 db2 db3 where d: "choose_values k choice fv (repoint_before_values k l g db) = Inr db1"
    "repointCadencePolicy k l g choice (repoint_after_values k l g db1) = Inr db2"
    "repointDataDecayPolicy k l g choice db2 = Inr db3" "db' = fst (repointRelationshipEdges k l g (repoint_self k l g db3))"
    using assms(1) by (auto simp: RepointContactAssociations_def split: sum.splits)
  have "db' u = db3 u" using assms(2) d(4) by (simp add: repoint_edges_other repoint_self_other)
  also have "\<dots> = db2 u" using repoint_policy_other [OF d(3) [unfolded repointDataDecayPolicy_def]] assms(2) by simp
  also have "\<dots> = repoint_after_values k l g db1 u"
    using repoint_policy_other [OF d(2) [unfolded repointCadencePolicy_def]] assms(2) by simp
  finally have "db' u = repoint_after_values k l g db1 u" .
  then show ?thesis using d(1) by blast
qed

text \<open>The tables by the statements that move their rows.\<close>

definition soft_moved :: "(string \<times> string) list" where
  "soft_moved = [(''attachments'', ''contact_vcard_uid''), (''contact_images'', ''contact_vcard_uid''), (''preferences'', ''entity_id''),
     (''conversation_agenda'', ''entity_id''), (''gifts'', ''entity_id''), (''occasion_obligations'', ''entity_id'')]"

definition id_moved :: "string list" where
  "id_moved = [''notes'', ''reminders'', ''reminder_completions'']"

definition raw_moved :: "(string \<times> string) list" where
  "raw_moved = [(''external_identities'', ''entity_id''), (''external_activities'', ''entity_id'')]"

definition shared_moved :: "(string \<times> string \<times> string) list" where
  "shared_moved = [(''household_members'', ''member_vcard_uid'', ''household_id''), (''circle_members'', ''member_vcard_uid'', ''circle_id''),
     (''contact_tags'', ''contact_vcard_uid'', ''tag_id''), (''occasion_event_attendees'', ''entity_id'', ''event_id'')]"

definition before :: "cascade_target \<Rightarrow> cascade_target \<Rightarrow> int \<Rightarrow> tables \<Rightarrow> tables \<Rightarrow> bool" where
  "before k l g db db1 \<longleftrightarrow> (\<forall>v. v \<noteq> ''field_values'' \<longrightarrow> db1 v = repoint_before_values k l g db v)"

lemma before_chosen: "choose_values k choice fv (repoint_before_values k l g db) = Inr db1 \<Longrightarrow> before k l g db db1"
  using choose_values_other by (fastforce simp: before_def)

lemma beforeD: "before k l g db db1 \<Longrightarrow> v \<noteq> ''field_values'' \<Longrightarrow> db1 v = repoint_before_values k l g db v"
  by (simp add: before_def)

lemmas repoint_chain = repoint_after_values_def repointLateEntityKeyedTables_def repoint_before_values_def Let_def merge_statements

lemma id_repointed:
  assumes "before k l g db db1" and "tbl \<in> set id_moved"
  shows "repoint_after_values k l g db1 tbl =
    map (\<lambda>r. if keyed_id l r \<and> live r then r(''contact_id'' := Num (ct_id k), ''updated_at'' := Num g) else r) (db tbl)"
  using assms(2) beforeD [OF assms(1), of tbl]
  by (simp add: id_moved_def, elim disjE) (simp_all add: repoint_chain del: fun_upd_apply)

lemma soft_repointed:
  assumes "before k l g db db1" and "(tbl, col) \<in> set soft_moved"
  shows "repoint_after_values k l g db1 tbl =
    map (\<lambda>r. if owned col l r \<and> live r then r(col := Txt (ct_uid k), ''updated_at'' := Num g) else r) (db tbl)"
  using assms(2) beforeD [OF assms(1), of tbl]
  by (simp add: soft_moved_def, elim disjE) (simp_all add: repoint_chain del: fun_upd_apply)

lemma raw_repointed:
  assumes "before k l g db db1" and "(tbl, col) \<in> set raw_moved"
  shows "repoint_after_values k l g db1 tbl = map (\<lambda>r. if owned col l r then r(col := Txt (ct_uid k)) else r) (db tbl)"
  using assms(2) beforeD [OF assms(1), of tbl]
  by (simp add: raw_moved_def, elim disjE) (simp_all add: repoint_chain del: fun_upd_apply)

lemma shared_repointed:
  assumes "before k l g db db1" and "(tbl, col, key) \<in> set shared_moved"
  shows "repoint_after_values k l g db1 tbl = map (\<lambda>r. if owned col l r then r(col := Txt (ct_uid k)) else r)
    (filter (\<lambda>r. \<not> (owned col l r \<and> shared_with k col key (db tbl) r)) (db tbl))"
  using assms(2) beforeD [OF assms(1), of tbl]
  by (simp add: shared_moved_def, elim disjE) (simp_all add: repoint_chain del: fun_upd_apply)


lemma links_repointed:
  assumes "before k l g db db1"
  shows "repoint_after_values k l g db1 ''contact_entity_links'' =
    map (\<lambda>r. if owned ''contact_vcard_uid'' l r then r(''contact_vcard_uid'' := Txt (ct_uid k)) else r)
      (map (\<lambda>r. if primary_of l r \<and> sql_in (r ''kind'') ''kind'' ''contact_entity_links'' (primary_of k) db
        then r(''is_primary'' := Num 0) else r) (db ''contact_entity_links''))"
  using beforeD [OF assms, of "''contact_entity_links''"]
  by (simp add: repoint_chain sql_in_def in_select_def del: fun_upd_apply map_map)

lemma suggestions_repointed:
  assumes "before k l g db db1"
  shows "repoint_after_values k l g db1 ''reach_out_suggestions'' =
    map (\<lambda>r. if owned ''contact_vcard_uid'' l r then r(''contact_vcard_uid'' := Txt (ct_uid k), ''updated_at'' := Num g) else r)
      (filter (\<lambda>r. \<not> (pending_of l r \<and> r ''kind'' \<noteq> Null \<and>
         (\<exists>s\<in>set (db ''reach_out_suggestions''). pending_of k s \<and> s ''kind'' = r ''kind''))) (db ''reach_out_suggestions''))"
  using beforeD [OF assms, of "''reach_out_suggestions''"] by (simp add: repoint_chain del: fun_upd_apply)

lemma events_repointed:
  assumes "before k l g db db1"
  shows "repoint_after_values k l g db1 ''life_events'' =
    map (\<lambda>r. if r ''user_id'' = Num (ct_user l) \<and> live r \<and> ct_uid l \<in> set (related_ids r)
        then stamp_revision (r(''related_entity_ids'' := Ids (moved_ids k l r), ''updated_at'' := Num g)) else r)
      (map (\<lambda>r. if owned ''entity_id'' l r \<and> live r then r(''entity_id'' := Txt (ct_uid k), ''updated_at'' := Num g) else r)
        (db ''life_events''))"
  using beforeD [OF assms, of "''life_events''"] by (simp add: repoint_chain del: fun_upd_apply map_map)

lemma resolutions_repointed:
  assumes "before k l g db db1"
  shows "repoint_after_values k l g db1 ''life_event_suggestion_resolutions'' =
    map (\<lambda>r. if owned ''entity_id'' l r then r(''entity_id'' := Txt (ct_uid k)) else r)
      (filter (\<lambda>r. \<not> (owned ''entity_id'' l r \<and> (\<exists>s\<in>set (db ''life_event_suggestion_resolutions''). owned ''entity_id'' k s \<and>
        sql_eq (s ''source_kind'') (r ''source_kind'') \<and> sql_eq (s ''source_entry_id'') (r ''source_entry_id'') \<and>
        sql_eq (s ''event_type'') (r ''event_type'')))) (db ''life_event_suggestion_resolutions''))"
  using beforeD [OF assms, of "''life_event_suggestion_resolutions''"] by (simp add: repoint_chain del: fun_upd_apply)

lemma feeds_repointed:
  assumes "before k l g db db1"
  shows "repoint_after_values k l g db1 ''feeds'' =
    map (\<lambda>r. if r ''kind'' = Txt ''contact'' \<and> owned ''entity_id'' l r
      then r(''entity_id'' := Txt (ct_uid k), ''updated_at'' := Num g) else r) (db ''feeds'')"
  using beforeD [OF assms, of "''feeds''"] by (simp add: repoint_chain del: fun_upd_apply)

lemma imports_repointed:
  assumes "before k l g db db1"
  shows "repoint_after_values k l g db1 ''import_source_links'' =
    map (\<lambda>r. if r ''entity_kind'' = Txt ''contact'' \<and> owned ''entity_uid'' l r
      then r(''entity_uid'' := Txt (ct_uid k), ''updated_at'' := Num g) else r) (db ''import_source_links'')"
  using beforeD [OF assms, of "''import_source_links''"] by (simp add: repoint_chain del: fun_upd_apply)

lemma attendance_repointed:
  assumes "before k l g db db1"
  shows "repoint_after_values k l g db1 ''activity_contacts'' =
    map (\<lambda>r. if r ''contact_id'' = Num (ct_id l) \<and> own_activity l db r then r(''contact_id'' := Num (ct_id k)) else r)
      (filter (\<lambda>r. \<not> (r ''contact_id'' = Num (ct_id l) \<and>
        sql_in (r ''activity_id'') ''activity_id'' ''activity_contacts'' (\<lambda>s. s ''contact_id'' = Num (ct_id k)) db \<and> own_activity l db r))
        (db ''activity_contacts''))"
  using beforeD [OF assms, of "''activity_contacts''"]
  by (simp add: repoint_chain own_activity_def sql_in_def in_select_def del: fun_upd_apply)

lemma activities_kept:
  assumes "before k l g db db1"
  shows "repoint_after_values k l g db1 ''activities'' = db ''activities''"
  using beforeD [OF assms, of "''activities''"] by (simp add: repoint_chain)

section \<open>Who a row belongs to\<close>

definition uid_keyed :: "(string \<times> string) list" where
  "uid_keyed = soft_moved @ raw_moved @ map (\<lambda>(t, c, key). (t, c)) shared_moved @
     [(''contact_entity_links'', ''contact_vcard_uid''), (''reach_out_suggestions'', ''contact_vcard_uid''),
      (''life_events'', ''entity_id''), (''life_event_suggestion_resolutions'', ''entity_id''), (''field_values'', ''entity_id''),
      (''cadence_policies'', ''entity_id''), (''data_decay_policies'', ''entity_id'')]"

lemma refers_uid_all:
  "list_all (\<lambda>(tbl, col). \<forall>t db r. refers t db tbl r = owned col t r) uid_keyed"
  by (simp add: uid_keyed_def soft_moved_def raw_moved_def shared_moved_def refers_def cascade_steps byEntity_def
      byContactUID_def byMemberUID_def)

lemma refers_uid: "(tbl, col) \<in> set uid_keyed \<Longrightarrow> refers t db tbl r = owned col t r"
  using refers_uid_all by (auto simp: list_all_iff)

lemma refers_id_all: "list_all (\<lambda>tbl. \<forall>t db r. refers t db tbl r = keyed_id t r) id_moved"
  by (simp add: id_moved_def refers_def cascade_steps byID_def keyed_id_def)

lemma refers_id: "tbl \<in> set id_moved \<Longrightarrow> refers t db tbl r = keyed_id t r"
  using refers_id_all by (auto simp: list_all_iff)

lemma refers_special:
  "refers t db ''feeds'' r \<longleftrightarrow> r ''kind'' = Txt ''contact'' \<and> owned ''entity_id'' t r"
  "refers t db ''import_source_links'' r \<longleftrightarrow> r ''entity_kind'' = Txt ''contact'' \<and> owned ''entity_uid'' t r"
  "refers t db ''activity_contacts'' r \<longleftrightarrow> of_activity t db r"
  by (auto simp: refers_def cascade_steps owned_def of_import_def no_match_def)

text \<open>A row that no longer names the merged contact survives the sweep.\<close>

lemma swept_away_not:
  assumes "r \<in> set (db u)" and "\<not> refers l db u r"
  shows "r \<in> set (DeleteContactInTx l now g db u)"
proof -
  have "r \<in> set (filter (\<lambda>r. \<not> refers l db u r) (db u))" using assms by simp
  then have "r \<in> set (filter (\<lambda>r. \<not> refers l db u r) (DeleteContactInTx l now g db u))" by (simp only: rest_kept)
  then show ?thesis by simp
qed

lemma commit_table:
  assumes "commit_merge k l now g fv choice db = Inr (db', n)"
  obtains dbR where "RepointContactAssociations k l g fv choice db = Inr (dbR, n)"
    "\<And>u. u \<noteq> ''contact_sync_links'' \<Longrightarrow> db' u = DeleteContactInTx l now g dbR u"
  using assms by (auto simp: commit_merge_def DeleteContactInTx_def delete_contact_row_def sql_update_def sql_delete_def
      split: sum.splits prod.splits)


section \<open>Nothing live is lost\<close>

definition changed_columns :: "string \<Rightarrow> string list" where
  "changed_columns tbl =
     (if tbl \<in> set id_moved \<or> tbl = ''activity_contacts'' then [''contact_id'', ''updated_at'']
      else if tbl = ''import_source_links'' then [''entity_uid'', ''updated_at'']
      else if tbl = ''feeds'' then [''entity_id'', ''updated_at'']
      else if tbl = ''contact_entity_links'' then [''contact_vcard_uid'', ''is_primary'']
      else if tbl = ''life_events'' then [''entity_id'', ''updated_at'', ''related_entity_ids'', ''revision'', ''etag'']
      else (case map_of uid_keyed tbl of Some col \<Rightarrow> [col, ''updated_at''] | None \<Rightarrow> []))"

text \<open>The columns by which a row of the keeper may already say what a row of the loser says.\<close>

definition shared_columns :: "string \<Rightarrow> string list" where
  "shared_columns tbl =
     (if tbl = ''activity_contacts'' then [''activity_id'']
      else if tbl = ''field_values'' then [''field_definition_id'']
      else if tbl = ''reach_out_suggestions'' then [''kind'', ''status'']
      else if tbl = ''life_event_suggestion_resolutions'' then [''source_kind'', ''source_entry_id'', ''event_type'']
      else (case map_of (map (\<lambda>(t, c, key). (t, key)) shared_moved) tbl of Some key \<Rightarrow> [key] | None \<Rightarrow> []))"

definition merged_tables :: "string list" where
  "merged_tables = id_moved @ map fst soft_moved @ map fst raw_moved @ map fst shared_moved @
     [''contact_entity_links'', ''reach_out_suggestions'', ''life_events'', ''life_event_suggestion_resolutions'', ''feeds'',
      ''import_source_links'', ''activity_contacts'', ''field_values'']"

definition carried :: "cascade_target \<Rightarrow> string \<Rightarrow> tables \<Rightarrow> row \<Rightarrow> row \<Rightarrow> bool" where
  "carried k tbl db' r r' \<longleftrightarrow> refers k db' tbl r' \<and>
     (live r' \<and> (\<forall>c. c \<notin> set (changed_columns tbl) \<longrightarrow> r' c = r c) \<or>
      shared_columns tbl \<noteq> [] \<and> (\<forall>c\<in>set (shared_columns tbl). r' c = r c))"

text \<open>The keeper and the loser of a merge.\<close>

definition mergeable :: "cascade_target \<Rightarrow> cascade_target \<Rightarrow> bool" where
  "mergeable k l \<longleftrightarrow> ct_user k = ct_user l \<and> ct_uid k \<noteq> ct_uid l \<and> ct_id k \<noteq> ct_id l"

lemma moved_owner:
  assumes "mergeable k l" and "owned col l r" and "col \<noteq> ''user_id''"
  shows "owned col k (r(col := Txt (ct_uid k)))" "\<not> owned col l (r(col := Txt (ct_uid k)))"
  using assms by (simp_all add: owned_def mergeable_def)

lemma owner_exclusive: "mergeable k l \<Longrightarrow> owned col k r \<Longrightarrow> \<not> owned col l r"
  by (auto simp: owned_def mergeable_def)

lemma changed_uid:
  "list_all (\<lambda>(tbl, col). {col, ''updated_at''} \<subseteq> set (changed_columns tbl) \<or> tbl = ''contact_entity_links'') uid_keyed"
  by (simp add: changed_columns_def uid_keyed_def soft_moved_def raw_moved_def shared_moved_def id_moved_def)

lemma uid_columns: "list_all (\<lambda>(tbl, col). col \<notin> {''user_id'', ''deleted_at'', ''updated_at''}) uid_keyed"
  by (simp add: uid_keyed_def soft_moved_def raw_moved_def shared_moved_def)

lemma uid_row_carried:
  assumes "mergeable k l" and "(tbl, col) \<in> set uid_keyed" and "tbl \<noteq> ''contact_entity_links''" and "owned col l r" and "live r"
    and "r' = r(col := Txt (ct_uid k), ''updated_at'' := v) \<or> r' = r(col := Txt (ct_uid k))"
  shows "carried k tbl db' r r'" "\<not> refers l db' tbl r'"
proof -
  have col: "col \<noteq> ''user_id''" "col \<noteq> ''deleted_at''" "col \<noteq> ''updated_at''" "{col, ''updated_at''} \<subseteq> set (changed_columns tbl)"
    using uid_columns changed_uid assms(2,3) by (auto simp: list_all_iff)
  have r': "owned col k r'" "\<not> owned col l r'" "live r'"
    using assms(1,4-6) col(1-3) by (auto simp: owned_def mergeable_def live_def)
  have "\<forall>c. c \<notin> set (changed_columns tbl) \<longrightarrow> r' c = r c" using assms(6) col(4) by auto
  then show "carried k tbl db' r r'" "\<not> refers l db' tbl r'"
    using r' by (simp_all add: carried_def refers_uid [OF assms(2)])
qed

lemma uid_shared_carried:
  assumes "mergeable k l" and "(tbl, col) \<in> set uid_keyed" and "owned col k s"
    and "shared_columns tbl \<noteq> []" and "\<forall>c\<in>set (shared_columns tbl). s c = r c"
  shows "carried k tbl db' r s" "\<not> refers l db' tbl s"
  using assms owner_exclusive [OF assms(1,3)] by (simp_all add: carried_def refers_uid [OF assms(2)])


lemma in_map_if: "r \<in> set rs \<Longrightarrow> p r \<Longrightarrow> f r \<in> set (map (\<lambda>r. if p r then f r else r) rs)"
  by (metis (mono_tags, lifting) image_eqI list.set_map)

lemma in_map_else: "r \<in> set rs \<Longrightarrow> \<not> p r \<Longrightarrow> r \<in> set (map (\<lambda>r. if p r then f r else r) rs)"
  by (metis (mono_tags, lifting) image_eqI list.set_map)

lemma id_carried:
  assumes m: "mergeable k l" and b: "before k l g db db1"
    and "tbl \<in> set id_moved" and "r \<in> set (db tbl)" and "refers l db tbl r" and "live r"
  shows "\<exists>r'\<in>set (repoint_after_values k l g db1 tbl). carried k tbl db' r r' \<and> \<not> refers l dbR tbl r'"
proof -
  let ?r = "r(''contact_id'' := Num (ct_id k), ''updated_at'' := Num g)"
  have key: "keyed_id l r" using assms(5) refers_id [OF assms(3)] by simp
  have "?r \<in> set (repoint_after_values k l g db1 tbl)" unfolding id_repointed [OF b assms(3)]
    using key assms(4,6) by (intro in_map_if) simp_all
  moreover have "carried k tbl db' r ?r" "\<not> refers l dbR tbl ?r"
    using m key assms(3,6) by (auto simp: carried_def refers_id [OF assms(3)] keyed_id_def changed_columns_def live_def mergeable_def)
  ultimately show ?thesis by blast
qed

lemma soft_carried:
  assumes m: "mergeable k l" and b: "before k l g db db1"
    and "(tbl, col) \<in> set soft_moved" and "r \<in> set (db tbl)" and "refers l db tbl r" and "live r"
  shows "\<exists>r'\<in>set (repoint_after_values k l g db1 tbl). carried k tbl db' r r' \<and> \<not> refers l dbR tbl r'"
proof -
  have uid: "(tbl, col) \<in> set uid_keyed" "tbl \<noteq> ''contact_entity_links''" using assms(3) by (auto simp: uid_keyed_def soft_moved_def)
  have own: "owned col l r" using assms(5) refers_uid [OF uid(1)] by simp
  have "r(col := Txt (ct_uid k), ''updated_at'' := Num g) \<in> set (repoint_after_values k l g db1 tbl)"
    unfolding soft_repointed [OF b assms(3)] using own assms(4,6) by (intro in_map_if) simp_all
  then show ?thesis using uid_row_carried [OF m uid own assms(6)] by blast
qed

lemma raw_carried:
  assumes m: "mergeable k l" and b: "before k l g db db1"
    and "(tbl, col) \<in> set raw_moved" and "r \<in> set (db tbl)" and "refers l db tbl r" and "live r"
  shows "\<exists>r'\<in>set (repoint_after_values k l g db1 tbl). carried k tbl db' r r' \<and> \<not> refers l dbR tbl r'"
proof -
  have uid: "(tbl, col) \<in> set uid_keyed" "tbl \<noteq> ''contact_entity_links''" using assms(3) by (auto simp: uid_keyed_def raw_moved_def)
  have own: "owned col l r" using assms(5) refers_uid [OF uid(1)] by simp
  have "r(col := Txt (ct_uid k)) \<in> set (repoint_after_values k l g db1 tbl)"
    unfolding raw_repointed [OF b assms(3)] using own assms(4) by (intro in_map_if) simp_all
  then show ?thesis using uid_row_carried [OF m uid own assms(6)] by blast
qed

lemma shared_carried:
  assumes m: "mergeable k l" and b: "before k l g db db1"
    and "(tbl, col, key) \<in> set shared_moved" and "r \<in> set (db tbl)" and "refers l db tbl r" and "live r"
  shows "\<exists>r'\<in>set (repoint_after_values k l g db1 tbl). carried k tbl db' r r' \<and> \<not> refers l dbR tbl r'"
proof -
  have uid: "(tbl, col) \<in> set uid_keyed" "tbl \<noteq> ''contact_entity_links''"
    using assms(3) by (auto simp: uid_keyed_def shared_moved_def)
  have cols: "shared_columns tbl = [key]" using assms(3) by (auto simp: shared_columns_def shared_moved_def)
  have own: "owned col l r" using assms(5) refers_uid [OF uid(1)] by simp
  show ?thesis
  proof (cases "shared_with k col key (db tbl) r")
    case True
    then obtain s where s: "s \<in> set (db tbl)" "owned col k s" "s key = r key" by (auto simp: shared_with_def)
    have "\<not> owned col l s" by (rule owner_exclusive [OF m s(2)])
    then have "s \<in> set (repoint_after_values k l g db1 tbl)" unfolding shared_repointed [OF b assms(3)] using s(1) by (intro in_map_else) simp_all
    then show ?thesis using uid_shared_carried [OF m uid(1) s(2), of r] cols s(3) by (intro bexI [of _ s]) simp_all
  next
    case False
    have "r(col := Txt (ct_uid k)) \<in> set (repoint_after_values k l g db1 tbl)"
      unfolding shared_repointed [OF b assms(3)] using own assms(4) False by (intro in_map_if) simp_all
    then show ?thesis using uid_row_carried [OF m uid own assms(6)] by blast
  qed
qed

lemma suggestion_carried:
  assumes m: "mergeable k l" and b: "before k l g db db1"
    and "r \<in> set (db ''reach_out_suggestions'')" and "refers l db ''reach_out_suggestions'' r" and "live r"
  shows "\<exists>r'\<in>set (repoint_after_values k l g db1 ''reach_out_suggestions''). carried k ''reach_out_suggestions'' db' r r' \<and> \<not> refers l dbR ''reach_out_suggestions'' r'"
proof -
  let ?gone = "\<lambda>r. pending_of l r \<and> r ''kind'' \<noteq> Null \<and> (\<exists>s\<in>set (db ''reach_out_suggestions''). pending_of k s \<and> s ''kind'' = r ''kind'')"
  have uid: "(''reach_out_suggestions'', ''contact_vcard_uid'') \<in> set uid_keyed" by (simp add: uid_keyed_def)
  have ne: "''reach_out_suggestions'' \<noteq> ''contact_entity_links''" by simp
  have own: "owned ''contact_vcard_uid'' l r" using assms(4) refers_uid [OF uid] by simp
  show ?thesis
  proof (cases "?gone r")
    case True
    then obtain s where s: "s \<in> set (db ''reach_out_suggestions'')" "pending_of k s" "s ''kind'' = r ''kind''" "pending_of l r" by auto
    have sk: "owned ''contact_vcard_uid'' k s" "s ''status'' = r ''status''" using s(2,4) by (simp_all add: pending_of_def)
    have "\<not> owned ''contact_vcard_uid'' l s" by (rule owner_exclusive [OF m sk(1)])
    then have "s \<in> set (repoint_after_values k l g db1 ''reach_out_suggestions'')" unfolding suggestions_repointed [OF b] using s(1)
      by (intro in_map_else) (simp_all add: pending_of_def)
    then show ?thesis using uid_shared_carried [OF m uid sk(1), of r] s(3) sk(2)
      by (intro bexI [of _ s]) (simp_all add: shared_columns_def)
  next
    case False
    have "r(''contact_vcard_uid'' := Txt (ct_uid k), ''updated_at'' := Num g) \<in> set (repoint_after_values k l g db1 ''reach_out_suggestions'')"
      unfolding suggestions_repointed [OF b] using own assms(3) False by (intro in_map_if) simp_all
    then show ?thesis using uid_row_carried [where v = "Num g" and r' = "r(''contact_vcard_uid'' := Txt (ct_uid k), ''updated_at'' := Num g)", OF m uid ne own assms(5)]
      by (intro bexI [of _ "r(''contact_vcard_uid'' := Txt (ct_uid k), ''updated_at'' := Num g)"]) simp_all
  qed
qed

lemma resolution_carried:
  assumes m: "mergeable k l" and b: "before k l g db db1"
    and "r \<in> set (db ''life_event_suggestion_resolutions'')" and "refers l db ''life_event_suggestion_resolutions'' r" and "live r"
  shows "\<exists>r'\<in>set (repoint_after_values k l g db1 ''life_event_suggestion_resolutions''). carried k ''life_event_suggestion_resolutions'' db' r r' \<and>
    \<not> refers l dbR ''life_event_suggestion_resolutions'' r'"
proof -
  let ?same = "\<lambda>s r. sql_eq (s ''source_kind'') (r ''source_kind'') \<and> sql_eq (s ''source_entry_id'') (r ''source_entry_id'') \<and>
    sql_eq (s ''event_type'') (r ''event_type'')"
  have uid: "(''life_event_suggestion_resolutions'', ''entity_id'') \<in> set uid_keyed" by (simp add: uid_keyed_def)
  have ne: "''life_event_suggestion_resolutions'' \<noteq> ''contact_entity_links''" by simp
  have own: "owned ''entity_id'' l r" using assms(4) refers_uid [OF uid] by simp
  show ?thesis
  proof (cases "\<exists>s\<in>set (db ''life_event_suggestion_resolutions''). owned ''entity_id'' k s \<and> ?same s r")
    case True
    then obtain s where s: "s \<in> set (db ''life_event_suggestion_resolutions'')" "owned ''entity_id'' k s" "?same s r" by blast
    have "\<not> owned ''entity_id'' l s" by (rule owner_exclusive [OF m s(2)])
    then have "s \<in> set (repoint_after_values k l g db1 ''life_event_suggestion_resolutions'')" unfolding resolutions_repointed [OF b] using s(1)
      by (intro in_map_else) simp_all
    then show ?thesis using uid_shared_carried [OF m uid s(2), of r] s(3)
      by (intro bexI [of _ s]) (simp_all add: shared_columns_def sql_eq_def)
  next
    case False
    have "r(''entity_id'' := Txt (ct_uid k)) \<in> set (repoint_after_values k l g db1 ''life_event_suggestion_resolutions'')"
      unfolding resolutions_repointed [OF b] using own assms(3) False by (intro in_map_if) simp_all
    then show ?thesis using uid_row_carried [where v = "Num g" and r' = "r(''entity_id'' := Txt (ct_uid k))", OF m uid ne own assms(5)]
      by (intro bexI [of _ "r(''entity_id'' := Txt (ct_uid k))"]) simp_all
  qed
qed


lemma feed_carried:
  assumes m: "mergeable k l" and b: "before k l g db db1"
    and "r \<in> set (db ''feeds'')" and "refers l db ''feeds'' r" and "live r"
  shows "\<exists>r'\<in>set (repoint_after_values k l g db1 ''feeds''). carried k ''feeds'' db' r r' \<and> \<not> refers l dbR ''feeds'' r'"
proof -
  have own: "r ''kind'' = Txt ''contact''" "owned ''entity_id'' l r" using assms(4) by (simp_all add: refers_special)
  have "r(''entity_id'' := Txt (ct_uid k), ''updated_at'' := Num g) \<in> set (repoint_after_values k l g db1 ''feeds'')"
    unfolding feeds_repointed [OF b] using own assms(3) by (intro in_map_if) simp_all
  then show ?thesis using m own assms(5)
    by (intro bexI [of _ "r(''entity_id'' := Txt (ct_uid k), ''updated_at'' := Num g)"])
      (auto simp: carried_def refers_special owned_def mergeable_def live_def changed_columns_def id_moved_def)
qed

lemma import_carried:
  assumes m: "mergeable k l" and b: "before k l g db db1"
    and "r \<in> set (db ''import_source_links'')" and "refers l db ''import_source_links'' r" and "live r"
  shows "\<exists>r'\<in>set (repoint_after_values k l g db1 ''import_source_links''). carried k ''import_source_links'' db' r r' \<and>
    \<not> refers l dbR ''import_source_links'' r'"
proof -
  have own: "r ''entity_kind'' = Txt ''contact''" "owned ''entity_uid'' l r" using assms(4) by (simp_all add: refers_special)
  have "r(''entity_uid'' := Txt (ct_uid k), ''updated_at'' := Num g) \<in> set (repoint_after_values k l g db1 ''import_source_links'')"
    unfolding imports_repointed [OF b] using own assms(3) by (intro in_map_if) simp_all
  then show ?thesis using m own assms(5)
    by (intro bexI [of _ "r(''entity_uid'' := Txt (ct_uid k), ''updated_at'' := Num g)"])
      (auto simp: carried_def refers_special owned_def mergeable_def live_def changed_columns_def id_moved_def)
qed

lemma link_carried:
  assumes m: "mergeable k l" and b: "before k l g db db1"
    and "r \<in> set (db ''contact_entity_links'')" and "refers l db ''contact_entity_links'' r" and "live r"
  shows "\<exists>r'\<in>set (repoint_after_values k l g db1 ''contact_entity_links''). carried k ''contact_entity_links'' db' r r' \<and>
    \<not> refers l dbR ''contact_entity_links'' r'"
proof -
  have uid: "(''contact_entity_links'', ''contact_vcard_uid'') \<in> set uid_keyed" by (simp add: uid_keyed_def)
  have own: "owned ''contact_vcard_uid'' l r" using assms(4) refers_uid [OF uid] by simp
  define q where "q = (if primary_of l r \<and> sql_in (r ''kind'') ''kind'' ''contact_entity_links'' (primary_of k) db
    then r(''is_primary'' := Num 0) else r)"
  have q: "owned ''contact_vcard_uid'' l q" "live q" "\<And>c. c \<noteq> ''is_primary'' \<Longrightarrow> q c = r c"
    using own assms(5) by (auto simp: q_def owned_def live_def)
  have "q(''contact_vcard_uid'' := Txt (ct_uid k)) \<in> set (repoint_after_values k l g db1 ''contact_entity_links'')"
    unfolding links_repointed [OF b] using assms(3) q(1)
    by (intro in_map_if) (auto simp: q_def intro!: image_eqI [of _ _ r])
  then show ?thesis using m q
    by (intro bexI [of _ "q(''contact_vcard_uid'' := Txt (ct_uid k))"])
      (auto simp: carried_def refers_uid [OF uid] owned_def mergeable_def live_def changed_columns_def id_moved_def)
qed

lemma event_carried:
  assumes m: "mergeable k l" and b: "before k l g db db1"
    and "r \<in> set (db ''life_events'')" and "refers l db ''life_events'' r" and "live r"
  shows "\<exists>r'\<in>set (repoint_after_values k l g db1 ''life_events''). carried k ''life_events'' db' r r' \<and>
    \<not> refers l dbR ''life_events'' r'"
proof -
  have uid: "(''life_events'', ''entity_id'') \<in> set uid_keyed" by (simp add: uid_keyed_def)
  have own: "owned ''entity_id'' l r" using assms(4) refers_uid [OF uid] by simp
  define q where "q = r(''entity_id'' := Txt (ct_uid k), ''updated_at'' := Num g)"
  define z where "z = (if q ''user_id'' = Num (ct_user l) \<and> live q \<and> ct_uid l \<in> set (related_ids q)
    then stamp_revision (q(''related_entity_ids'' := Ids (moved_ids k l q), ''updated_at'' := Num g)) else q)"
  have qm: "q \<in> set (map (\<lambda>r. if owned ''entity_id'' l r \<and> live r
      then r(''entity_id'' := Txt (ct_uid k), ''updated_at'' := Num g) else r) (db ''life_events''))"
    unfolding q_def using own assms(3,5) by (intro in_map_if) simp_all
  have "z \<in> set (repoint_after_values k l g db1 ''life_events'')"
    unfolding events_repointed [OF b] z_def using imageI [OF qm] by (simp only: set_map)
  moreover have "carried k ''life_events'' db' r z" "\<not> refers l dbR ''life_events'' z"
    using m own assms(5)
    by (auto simp: carried_def refers_uid [OF uid] owned_def mergeable_def live_def changed_columns_def id_moved_def z_def q_def
        stamp_revision_def)
  ultimately show ?thesis by blast
qed

lemma attendance_carried:
  assumes m: "mergeable k l" and b: "before k l g db db1"
    and "r \<in> set (db ''activity_contacts'')" and "refers l db ''activity_contacts'' r" and "live r" and "r ''activity_id'' \<noteq> Null"
    and acts: "db' ''activities'' = db ''activities''" "dbR ''activities'' = db ''activities''"
  shows "\<exists>r'\<in>set (repoint_after_values k l g db1 ''activity_contacts''). carried k ''activity_contacts'' db' r r' \<and>
    \<not> refers l dbR ''activity_contacts'' r'"
proof -
  have own: "r ''contact_id'' = Num (ct_id l)" "own_activity l db r"
    using assms(4,6) by (simp_all add: refers_special of_activity_def own_activity_def sql_in_def)
  have act: "of_activity k db' s \<longleftrightarrow> s ''contact_id'' = Num (ct_id k) \<and> in_select (s ''activity_id'') ''id'' ''activities''
      (\<lambda>a. a ''user_id'' = Num (ct_user k)) db" for s
    by (simp add: of_activity_def in_select_def acts)
  have same: "in_select (r ''activity_id'') ''id'' ''activities'' (\<lambda>a. a ''user_id'' = Num (ct_user k)) db"
    using own(2) m by (simp add: own_activity_def sql_in_def mergeable_def)
  show ?thesis
  proof (cases "sql_in (r ''activity_id'') ''activity_id'' ''activity_contacts'' (\<lambda>s. s ''contact_id'' = Num (ct_id k)) db")
    case True
    then obtain s where s: "s \<in> set (db ''activity_contacts'')" "s ''contact_id'' = Num (ct_id k)" "s ''activity_id'' = r ''activity_id''"
      by (auto simp: sql_in_def in_select_iff)
    have "s \<in> set (repoint_after_values k l g db1 ''activity_contacts'')" unfolding attendance_repointed [OF b]
      using s(1,2) m by (intro in_map_else) (simp_all add: mergeable_def)
    then show ?thesis using s m same by (intro bexI [of _ s])
      (simp_all add: carried_def refers_special act shared_columns_def, simp add: of_activity_def mergeable_def)
  next
    case False
    have "r(''contact_id'' := Num (ct_id k)) \<in> set (repoint_after_values k l g db1 ''activity_contacts'')"
      unfolding attendance_repointed [OF b] using own assms(3) False by (intro in_map_if) simp_all
    then show ?thesis using m own assms(5) same by (intro bexI [of _ "r(''contact_id'' := Num (ct_id k))"])
      (simp_all add: carried_def refers_special act changed_columns_def live_def, simp add: of_activity_def mergeable_def)
  qed
qed

text \<open>Custom field values: the resolved ones change in place on the keeper, and only there.\<close>

definition chosen :: "cascade_target \<Rightarrow> row \<Rightarrow> row \<Rightarrow> bool" where
  "chosen k r r' \<longleftrightarrow> r' = r \<or> owned ''entity_id'' k r \<and> (\<exists>v. r' = r(''value'' := v))"

lemma chosen_step: "chosen k (if owned ''entity_id'' k r \<and> p r then r(''value'' := v) else r) r' \<Longrightarrow> chosen k r r'"
  by (auto simp: chosen_def owned_def split: if_splits)

lemma chosenD:
  assumes "chosen k r r'"
  shows "owned ''entity_id'' t r' = owned ''entity_id'' t r" "c \<noteq> ''value'' \<Longrightarrow> r' c = r c" "\<not> owned ''entity_id'' k r \<Longrightarrow> r' = r"
  using assms by (auto simp: chosen_def owned_def)

lemma choose_values_map:
  "choose_values k choice fv db = Inr db' \<Longrightarrow> \<exists>h. db' ''field_values'' = map h (db ''field_values'') \<and> (\<forall>r. chosen k r (h r))"
proof (induction fv arbitrary: db)
  case Nil
  then show ?case by (intro exI [of _ id]) (simp add: chosen_def)
next
  case (Cons x xs)
  obtain v where v: "choice (mc_field x) = Some v" using Cons.prems by (cases "choice (mc_field x)") auto
  let ?p = "\<lambda>r. owned ''entity_id'' k r \<and> r ''field_definition_id'' = Txt (mc_field x)"
  let ?f = "\<lambda>r. if ?p r then r(''value'' := Txt v) else r"
  let ?db = "sql_update ''field_values'' ?p (\<lambda>r. r(''value'' := Txt v)) db"
  have at: "?db ''field_values'' = map ?f (db ''field_values'')" by (simp add: sql_update_def)
  have "choose_values k choice xs ?db = Inr db'" using Cons.prems v by simp
  from Cons.IH [OF this] obtain h where h: "db' ''field_values'' = map h (?db ''field_values'')" "\<forall>r. chosen k r (h r)" by (elim exE conjE)
  have "chosen k r (h (?f r))" for r by (rule chosen_step) (rule h(2) [rule_format])
  then show ?case using h(1) unfolding at map_map by (intro exI [of _ "h \<circ> ?f"]) (simp only: comp_def simp_thms)
qed

lemma values_repointed:
  assumes "choose_values k choice fv (repoint_before_values k l g db) = Inr db1"
  shows "\<exists>h. (\<forall>r. chosen k r (h r)) \<and>
    repoint_after_values k l g db1 ''field_values'' = map (\<lambda>r. if owned ''entity_id'' l r then r(''entity_id'' := Txt (ct_uid k)) else r)
      (map h (filter (\<lambda>r. \<not> (owned ''entity_id'' l r \<and> shared_with k ''entity_id'' ''field_definition_id'' (db ''field_values'') r))
        (db ''field_values'')))"
proof -
  have 1: "repoint_before_values k l g db ''field_values'' =
      filter (\<lambda>r. \<not> (owned ''entity_id'' l r \<and> shared_with k ''entity_id'' ''field_definition_id'' (db ''field_values'') r)) (db ''field_values'')"
    by (simp add: repoint_chain del: fun_upd_apply)
  have 2: "repoint_after_values k l g db1 ''field_values'' =
      map (\<lambda>r. if owned ''entity_id'' l r then r(''entity_id'' := Txt (ct_uid k)) else r) (db1 ''field_values'')"
    by (simp add: repoint_chain del: fun_upd_apply)
  from choose_values_map [OF assms] obtain h where h: "db1 ''field_values'' = map h (repoint_before_values k l g db ''field_values'')"
    "\<forall>r. chosen k r (h r)" by (elim exE conjE)
  show ?thesis by (intro exI [of _ h] conjI h(2)) (simp only: 2 h(1) 1)
qed

lemma value_carried:
  assumes m: "mergeable k l" and c: "choose_values k choice fv (repoint_before_values k l g db) = Inr db1"
    and "r \<in> set (db ''field_values'')" and "refers l db ''field_values'' r" and "live r"
  shows "\<exists>r'\<in>set (repoint_after_values k l g db1 ''field_values''). carried k ''field_values'' db' r r' \<and> \<not> refers l dbR ''field_values'' r'"
proof -
  from values_repointed [OF c] obtain h where ch: "\<forall>r. chosen k r (h r)" and
    eq: "repoint_after_values k l g db1 ''field_values'' = map (\<lambda>r. if owned ''entity_id'' l r then r(''entity_id'' := Txt (ct_uid k)) else r)
      (map h (filter (\<lambda>r. \<not> (owned ''entity_id'' l r \<and> shared_with k ''entity_id'' ''field_definition_id'' (db ''field_values'') r))
        (db ''field_values'')))"
    by (elim exE conjE)
  note h = ch [rule_format]
  have uid: "(''field_values'', ''entity_id'') \<in> set uid_keyed" and ne: "''field_values'' \<noteq> ''contact_entity_links''" by (simp_all add: uid_keyed_def)
  have own: "owned ''entity_id'' l r" using assms(4) refers_uid [OF uid] by simp
  show ?thesis
  proof (cases "shared_with k ''entity_id'' ''field_definition_id'' (db ''field_values'') r")
    case True
    then obtain s where s: "s \<in> set (db ''field_values'')" "owned ''entity_id'' k s" "s ''field_definition_id'' = r ''field_definition_id''"
      by (auto simp: shared_with_def)
    have hs: "owned ''entity_id'' k (h s)" "h s ''field_definition_id'' = r ''field_definition_id''"
      using chosenD [OF h] s(2,3) by simp_all
    have no: "\<not> owned ''entity_id'' l s" "\<not> owned ''entity_id'' l (h s)"
      by (rule owner_exclusive [OF m s(2)], rule owner_exclusive [OF m hs(1)])
    have "h s \<in> set (repoint_after_values k l g db1 ''field_values'')" unfolding eq using s(1) no by (intro in_map_else) simp_all
    then show ?thesis using uid_shared_carried [OF m uid hs(1), of r] hs(2)
      by (intro bexI [of _ "h s"]) (simp_all add: shared_columns_def)
  next
    case False
    have "\<not> owned ''entity_id'' k r" using own m by (auto simp: owned_def mergeable_def)
    then have same: "h r = r" using chosenD(3) [OF h] by simp
    have "r \<in> set (filter (\<lambda>r. \<not> (owned ''entity_id'' l r \<and>
        shared_with k ''entity_id'' ''field_definition_id'' (db ''field_values'') r)) (db ''field_values''))"
      using False assms(3) by simp
    from imageI [OF this, of h] have "r \<in> set (map h (filter (\<lambda>r. \<not> (owned ''entity_id'' l r \<and>
        shared_with k ''entity_id'' ''field_definition_id'' (db ''field_values'') r)) (db ''field_values'')))"
      unfolding same set_map .
    then have "r(''entity_id'' := Txt (ct_uid k)) \<in> set (repoint_after_values k l g db1 ''field_values'')"
      unfolding eq by (rule in_map_if [where p = "owned ''entity_id'' l" and f = "\<lambda>r. r(''entity_id'' := Txt (ct_uid k))", OF _ own])
    then show ?thesis using uid_row_carried [where v = "Num g" and r' = "r(''entity_id'' := Txt (ct_uid k))", OF m uid ne own assms(5)]
      by (intro bexI [of _ "r(''entity_id'' := Txt (ct_uid k))"]) simp_all
  qed
qed

text \<open>An event of the merged contact that named the keeper as a related entity names its own subject afterwards.\<close>

lemma event_names_itself:
  assumes b: "before k l g db db1" and "r \<in> set (db ''life_events'')" and "owned ''entity_id'' l r" and "live r"
    and "related_ids r = [ct_uid k]" and "mergeable k l"
  shows "\<exists>r'\<in>set (repoint_after_values k l g db1 ''life_events''). r' ''entity_id'' = Txt (ct_uid k) \<and> ct_uid k \<in> set (related_ids r')"
proof -
  define q where "q = r(''entity_id'' := Txt (ct_uid k), ''updated_at'' := Num g)"
  have rel: "related_ids q = [ct_uid k]" using assms(5) by (simp add: q_def related_ids_def)
  have "q \<in> set (map (\<lambda>r. if owned ''entity_id'' l r \<and> live r
      then r(''entity_id'' := Txt (ct_uid k), ''updated_at'' := Num g) else r) (db ''life_events''))"
    unfolding q_def using assms(2-4) by (intro in_map_if) simp_all
  then have "q \<in> set (repoint_after_values k l g db1 ''life_events'')"
    unfolding events_repointed [OF b] by (rule in_map_else) (use rel assms(6) in \<open>auto simp: mergeable_def\<close>)
  then show ?thesis using rel by (intro bexI [of _ q]) (simp_all add: q_def)
qed

text \<open>The three stages of a successful commit.\<close>

lemma commit_stages:
  assumes "commit_merge k l now g fv choice db = Inr (db', n)"
  shows "\<exists>db1 dbR. choose_values k choice fv (repoint_before_values k l g db) = Inr db1 \<and>
    (\<forall>u. u \<notin> {''cadence_policies'', ''data_decay_policies'', ''users'', ''relationship_edges''} \<longrightarrow> dbR u = repoint_after_values k l g db1 u) \<and>
    (\<forall>u. u \<noteq> ''contact_sync_links'' \<longrightarrow> db' u = DeleteContactInTx l now g dbR u)"
proof -
  obtain dbR where R: "RepointContactAssociations k l g fv choice db = Inr (dbR, n)"
    "\<And>u. u \<noteq> ''contact_sync_links'' \<Longrightarrow> db' u = DeleteContactInTx l now g dbR u"
    by (rule commit_table [OF assms]) blast
  obtain db1 where c: "choose_values k choice fv (repoint_before_values k l g db) = Inr db1"
    using repointed_table [OF R(1), of "''notes''"] by auto
  have "dbR u = repoint_after_values k l g db1 u"
    if "u \<notin> {''cadence_policies'', ''data_decay_policies'', ''users'', ''relationship_edges''}" for u
    using repointed_table [OF R(1) that] c by auto
  then show ?thesis using c R(2) by blast
qed

lemma swept_activities: "DeleteContactInTx l now g db ''activities'' = db ''activities''"
  using rest_kept [of l db "''activities''" now g] by (simp add: refers_def cascade_steps)

lemma merged_tables_plain:
  "tbl \<in> set merged_tables \<Longrightarrow> tbl \<notin> {''cadence_policies'', ''data_decay_policies'', ''users'', ''relationship_edges''} \<and> tbl \<noteq> ''contact_sync_links''"
  by (auto simp: merged_tables_def id_moved_def soft_moved_def raw_moved_def shared_moved_def)

lemma merged_row_carried:
  assumes m: "mergeable k l" and c: "choose_values k choice fv (repoint_before_values k l g db) = Inr db1"
    and t: "tbl \<in> set merged_tables" and r: "r \<in> set (db tbl)" "refers l db tbl r" "live r"
    and a: "tbl = ''activity_contacts'' \<Longrightarrow> r ''activity_id'' \<noteq> Null"
    and acts: "db' ''activities'' = db ''activities''" "dbR ''activities'' = db ''activities''"
  shows "\<exists>r'\<in>set (repoint_after_values k l g db1 tbl). carried k tbl db' r r' \<and> \<not> refers l dbR tbl r'"
proof -
  note b = before_chosen [OF c]
  consider "tbl \<in> set id_moved" | col where "(tbl, col) \<in> set soft_moved" | col where "(tbl, col) \<in> set raw_moved"
    | col key where "(tbl, col, key) \<in> set shared_moved"
    | "tbl = ''contact_entity_links''" | "tbl = ''reach_out_suggestions''" | "tbl = ''life_events''"
    | "tbl = ''life_event_suggestion_resolutions''" | "tbl = ''feeds''" | "tbl = ''import_source_links''"
    | "tbl = ''activity_contacts''" | "tbl = ''field_values''"
    using t unfolding merged_tables_def by fastforce
  then show ?thesis
  proof cases
    case 1 then show ?thesis by (rule id_carried [OF m b _ r])
  next
    case 2 then show ?thesis by (rule soft_carried [OF m b _ r])
  next
    case 3 then show ?thesis by (rule raw_carried [OF m b _ r])
  next
    case 4 then show ?thesis by (rule shared_carried [OF m b _ r])
  next
    case 5 show ?thesis using link_carried [OF m b r [unfolded 5]] unfolding 5 .
  next
    case 6 show ?thesis using suggestion_carried [OF m b r [unfolded 6]] unfolding 6 .
  next
    case 7 show ?thesis using event_carried [OF m b r [unfolded 7]] unfolding 7 .
  next
    case 8 show ?thesis using resolution_carried [OF m b r [unfolded 8]] unfolding 8 .
  next
    case 9 show ?thesis using feed_carried [OF m b r [unfolded 9]] unfolding 9 .
  next
    case 10 show ?thesis using import_carried [OF m b r [unfolded 10]] unfolding 10 .
  next
    case 11 show ?thesis using attendance_carried [where db' = db' and dbR = dbR, OF m b r [unfolded 11] a [OF 11] acts] unfolding 11 .
  next
    case 12 show ?thesis using value_carried [OF m c r [unfolded 12]] unfolding 12 .
  qed
qed

text \<open>C26: Nothing live of the merged contact is lost by a committed merge. Each row that belonged to it in one of the
  tables the merge repoints (an activity attendance must name an activity) has, after the repoint and the sweep, a
  counterpart that belongs to the keeper: a live row with every column but the owner, the stamp and the columns the
  merge itself rewrites unchanged, or, where the keeper already had its own, a row with the same key (the household,
  the tag, the event, the activity, the custom field, the suggestion it answers).
\<close>

theorem merge_loses_nothing_live:
  assumes "commit_merge k l now g fv choice db = Inr (db', n)" and "mergeable k l"
    and "tbl \<in> set merged_tables" and "r \<in> set (db tbl)" and "refers l db tbl r" and "live r"
    and "tbl = ''activity_contacts'' \<Longrightarrow> r ''activity_id'' \<noteq> Null"
  shows "\<exists>r'\<in>set (db' tbl). carried k tbl db' r r'"
proof -
  obtain db1 dbR where c: "choose_values k choice fv (repoint_before_values k l g db) = Inr db1"
    and R: "\<forall>u. u \<notin> {''cadence_policies'', ''data_decay_policies'', ''users'', ''relationship_edges''} \<longrightarrow> dbR u = repoint_after_values k l g db1 u"
    and D: "\<forall>u. u \<noteq> ''contact_sync_links'' \<longrightarrow> db' u = DeleteContactInTx l now g dbR u"
    using commit_stages [OF assms(1)] by (elim exE conjE)
  have acts: "dbR ''activities'' = db ''activities''" "db' ''activities'' = db ''activities''"
    using R [rule_format, of "''activities''"] D [rule_format, of "''activities''"] activities_kept [OF before_chosen [OF c]]
    by (simp_all add: swept_activities)
  obtain r' where r': "r' \<in> set (repoint_after_values k l g db1 tbl)" "carried k tbl db' r r'" "\<not> refers l dbR tbl r'"
    using merged_row_carried [where db' = db' and dbR = dbR, OF assms(2) c assms(3-7) acts(2,1)] by blast
  have "dbR tbl = repoint_after_values k l g db1 tbl" "db' tbl = DeleteContactInTx l now g dbR tbl"
    using merged_tables_plain [OF assms(3)] R D by simp_all
  then have "r' \<in> set (db' tbl)" using swept_away_not [of r' dbR tbl l now g] r'(1,3) by simp
  then show ?thesis using r'(2) by blast
qed

lemma commit_without_policies:
  assumes "db ''cadence_policies'' = []" and "db ''data_decay_policies'' = []"
  shows "\<exists>db' n. commit_merge k l now g [] choice db = Inr (db', n)"
proof -
  let ?db = "repoint_after_values k l g (repoint_before_values k l g db)"
  have "?db ''cadence_policies'' = []" "?db ''data_decay_policies'' = []" using assms by (simp_all add: repoint_chain)
  then have "repointCadencePolicy k l g choice ?db = Inr ?db" "repointDataDecayPolicy k l g choice ?db = Inr ?db"
    by (simp_all add: repointCadencePolicy_def repointDataDecayPolicy_def repoint_policy_def policy_of_def)
  then show ?thesis by (simp add: commit_merge_def RepointContactAssociations_def split: prod.splits)
qed

definition sample_letter :: row where
  "sample_letter = (\<lambda>_. Null)(''id'' := Num 4, ''user_id'' := Num 7, ''contact_id'' := Num 2, ''content'' := Txt ''call'')"

definition sample_shelf :: tables where
  "sample_shelf = (\<lambda>_. [])(''notes'' := [sample_letter])"

theorem merge_loses_nothing_live_witness:
  "\<exists>db' n. commit_merge sample_keeper sample_loser 5 9 [] (\<lambda>_. None) sample_shelf = Inr (db', n) \<and>
     (\<exists>r'\<in>set (db' ''notes''). r' ''content'' = Txt ''call'' \<and> refers sample_keeper db' ''notes'' r')"
proof -
  have empty: "sample_shelf ''cadence_policies'' = []" "sample_shelf ''data_decay_policies'' = []" by (simp_all add: sample_shelf_def)
  obtain db' n where c: "commit_merge sample_keeper sample_loser 5 9 [] (\<lambda>_. None) sample_shelf = Inr (db', n)"
    using commit_without_policies [of sample_shelf sample_keeper sample_loser 5 9 "\<lambda>_. None"] empty by blast
  have "mergeable sample_keeper sample_loser" by (simp add: mergeable_def sample_keeper_def sample_loser_def)
  moreover have t: "''notes'' \<in> set id_moved" by (simp add: id_moved_def)
  moreover have "refers sample_loser sample_shelf ''notes'' sample_letter" unfolding refers_id [OF t]
    by (simp add: keyed_id_def sample_loser_def sample_letter_def)
  moreover have "sample_letter \<in> set (sample_shelf ''notes'')" "live sample_letter"
    by (simp_all add: sample_shelf_def live_def sample_letter_def)
  ultimately obtain r' where r': "r' \<in> set (db' ''notes'')" "carried sample_keeper ''notes'' db' sample_letter r'"
    using merge_loses_nothing_live [where tbl = "''notes''" and r = sample_letter, OF c] by (auto simp: merged_tables_def)
  have "refers sample_keeper db' ''notes'' r'" "r' ''content'' = sample_letter ''content''"
    using r'(2) by (simp_all add: carried_def shared_columns_def changed_columns_def id_moved_def shared_moved_def)
  then show ?thesis using c r'(1) by (auto simp: sample_letter_def)
qed

end
