(* ===== verification/MergeCommit.thy ===== *)
theory MergeCommit imports MergeTables begin

text \<open>
  The commit of a merge as a whole (\<^verbatim>\<open>controllers/contact_merge_controller.go\<close>): the conflicts it collects, the
  resolutions it insists on, the contact it saves and the tables it leaves. An error is the value of the rolled-back
  transaction, so it carries no tables.
\<close>

section \<open>What the commit asks\<close>

definition values_of :: "cascade_target \<Rightarrow> tables \<Rightarrow> (string \<times> row) list" where
  "values_of t db = map (\<lambda>r. (cell_text (r ''field_definition_id''), r)) (filter (owned ''entity_id'' t) (db ''field_values''))"

text \<open>A later row of the same field definition replaces an earlier one, as in the Go maps.\<close>

definition ComputeFieldValueConflicts :: "cascade_target \<Rightarrow> cascade_target \<Rightarrow> tables \<Rightarrow> merge_conflict list" where
  "ComputeFieldValueConflicts k l db =
     (let keeperByDef = map_of (rev (values_of k db));
          shared = filter (\<lambda>(d, r). keeperByDef d \<noteq> None) (values_of l db);
          loserByDef = map_of (rev shared);
          defs = filter (\<lambda>r. r ''id'' \<in> set (map (\<lambda>(d, r). Txt d) shared) \<and> r ''user_id'' = Num (ct_user k)) (db ''field_definitions'');
          labelByID = map_of (rev (map (\<lambda>r. (cell_text (r ''id''), cell_text (r ''label''))) defs));
          shown = (\<lambda>m d. case m d of None \<Rightarrow> [] | Some r \<Rightarrow> cell_text (r ''value''))
      in sort_key mc_field (map (\<lambda>(d, _). \<lparr>mc_field = d, mc_label = (case labelByID d of None \<Rightarrow> [] | Some s \<Rightarrow> s),
           mc_keeper = shown keeperByDef d, mc_loser = shown loserByDef d\<rparr>) shared))"

definition append_conflict :: "merge_conflict option \<Rightarrow> merge_resolution \<Rightarrow> merge_resolution" where
  "append_conflict c res = (case c of None \<Rightarrow> res | Some x \<Rightarrow> res\<lparr>mr_conflicts := sort_key mc_field (mr_conflicts res @ [x])\<rparr>)"

definition full_resolution :: "contact \<Rightarrow> contact \<Rightarrow> cascade_target \<Rightarrow> cascade_target \<Rightarrow> tables \<Rightarrow> merge_resolution" where
  "full_resolution keeper loser k l db =
     (let res = (ComputeContactMergeResolution keeper loser)\<lparr>mr_field_values := ComputeFieldValueConflicts k l db\<rparr>;
          res = append_conflict (ComputeCadencePolicyConflict k l db) res
      in append_conflict (ComputeDataDecayPolicyConflict k l db) res)"

section \<open>The commit\<close>

datatype merge_error = Unresolved "string list" | BadChoice string

text \<open>The photo of the merged contact moves to a keeper that has none, and its record then names no file to delete.\<close>

definition adopt_photo :: "contact \<Rightarrow> contact \<Rightarrow> contact \<times> contact" where
  "adopt_photo keeper loser =
     (if con_photo keeper = [] \<and> con_photo loser \<noteq> []
      then (keeper\<lparr>con_photo := con_photo loser, con_photo_thumbnail := con_photo_thumbnail loser\<rparr>,
            loser\<lparr>con_photo := [], con_photo_thumbnail := []\<rparr>)
      else (keeper, loser))"

definition adopt_ambient :: "contact \<Rightarrow> contact \<Rightarrow> contact" where
  "adopt_ambient keeper loser = (if con_ambient loser then keeper\<lparr>con_ambient := True\<rparr> else keeper)"

record merge_outcome =
  mo_saved :: contact
  mo_loser :: contact
  mo_tables :: tables
  mo_edges_dropped :: nat

definition CommitContactMerge :: "contact \<Rightarrow> contact \<Rightarrow> cascade_target \<Rightarrow> cascade_target \<Rightarrow> int \<Rightarrow> int \<Rightarrow>
  (string \<Rightarrow> string option) \<Rightarrow> tables \<Rightarrow> merge_error + merge_outcome" where
  "CommitContactMerge keeper loser k l now g choice db =
     (let res = full_resolution keeper loser k l db;
          missing = missingResolutions (mr_conflicts res) choice @ missingResolutions (mr_field_values res) choice
      in if missing \<noteq> [] then Inl (Unresolved missing)
         else
           (let (kc, lc) = adopt_photo keeper loser;
                kc = adopt_ambient kc lc
            in case ApplyContactMergeResolution kc res choice of
                 Inl e \<Rightarrow> Inl (BadChoice e)
               | Inr saved \<Rightarrow>
                   (case commit_merge k l now g (mr_field_values res) choice db of
                      Inl e \<Rightarrow> Inl (BadChoice e)
                    | Inr (db', n) \<Rightarrow> Inr \<lparr>mo_saved = saved, mo_loser = lc, mo_tables = db', mo_edges_dropped = n\<rparr>)))"

section \<open>When it goes through\<close>

lemma choose_values_ok: "(\<exists>db'. choose_values k choice fv db = Inr db') \<longleftrightarrow> missingResolutions fv choice = []"
  by (induction fv arbitrary: db) (auto simp: missingResolutions_def split: option.split)

definition answered :: "(string \<Rightarrow> string option) \<Rightarrow> merge_conflict option \<Rightarrow> bool" where
  "answered choice c = (case c of None \<Rightarrow> True | Some x \<Rightarrow> choice (mc_field x) \<in> {Some (mc_keeper x), Some (mc_loser x)})"

lemma repoint_policy_ok:
  "(\<exists>db'. repoint_policy tbl summary field k l g choice db = Inr db') \<longleftrightarrow> answered choice (policy_conflict tbl summary field label k l db)"
  by (auto simp: repoint_policy_def policy_conflict_def answered_def split: option.split)

lemma policy_conflict_at: "db tbl = db2 tbl \<Longrightarrow> policy_conflict tbl s f lab k l db = policy_conflict tbl s f lab k l db2"
  by (simp add: policy_conflict_def policy_of_def)

lemma policies_untouched:
  assumes "before k l g db db1" and "tbl = ''cadence_policies'' \<or> tbl = ''data_decay_policies''"
  shows "repoint_after_values k l g db1 tbl = db tbl"
  using assms(2) beforeD [OF assms(1), of tbl] by (elim disjE) (simp_all add: repoint_chain)

lemma repoint_goes_through:
  "(\<exists>x. RepointContactAssociations k l g fv choice db = Inr x) \<longleftrightarrow> missingResolutions fv choice = [] \<and>
     answered choice (ComputeCadencePolicyConflict k l db) \<and> answered choice (ComputeDataDecayPolicyConflict k l db)"
proof (cases "choose_values k choice fv (repoint_before_values k l g db)")
  case (Inl e)
  then have "missingResolutions fv choice \<noteq> []" using choose_values_ok by (metis Inl_Inr_False)
  then show ?thesis using Inl by (simp add: RepointContactAssociations_def)
next
  case (Inr db1)
  let ?db = "repoint_after_values k l g db1"
  have m: "missingResolutions fv choice = []" using choose_values_ok Inr by blast
  have same: "?db tbl = db tbl" if "tbl = ''cadence_policies'' \<or> tbl = ''data_decay_policies''" for tbl
    by (rule policies_untouched [OF before_chosen [OF Inr] that])
  have c: "(\<exists>db2. repointCadencePolicy k l g choice ?db = Inr db2) \<longleftrightarrow> answered choice (ComputeCadencePolicyConflict k l db)"
    unfolding repointCadencePolicy_def ComputeCadencePolicyConflict_def repoint_policy_ok [where label = "''Stay-in-touch cadence''"]
    using policy_conflict_at [of ?db "''cadence_policies''" db] same by simp
  have d: "(\<exists>db3. repointDataDecayPolicy k l g choice db2 = Inr db3) \<longleftrightarrow> answered choice (ComputeDataDecayPolicyConflict k l db)"
    if "repointCadencePolicy k l g choice ?db = Inr db2" for db2
  proof -
    have "db2 ''data_decay_policies'' = ?db ''data_decay_policies''"
      by (rule repoint_policy_other [OF that [unfolded repointCadencePolicy_def]]) simp
    then have "db2 ''data_decay_policies'' = db ''data_decay_policies''" using same by simp
    then show ?thesis
      unfolding repointDataDecayPolicy_def ComputeDataDecayPolicyConflict_def
        repoint_policy_ok [where label = "''Data verification interval''"]
      using policy_conflict_at [of db2 "''data_decay_policies''" db] by simp
  qed
  show ?thesis using Inr m c d by (auto simp: RepointContactAssociations_def split: sum.splits)
qed

lemma asked_fields:
  "mr_field_values (full_resolution keeper loser k l db) = ComputeFieldValueConflicts k l db"
  "set (mr_conflicts (full_resolution keeper loser k l db)) = set (mr_conflicts (ComputeContactMergeResolution keeper loser)) \<union>
     set_option (ComputeCadencePolicyConflict k l db) \<union> set_option (ComputeDataDecayPolicyConflict k l db)"
  by (auto simp: full_resolution_def append_conflict_def Let_def split: option.split)

lemma commit_merge_ok: "(\<exists>x. commit_merge k l now g fv choice db = Inr x) \<longleftrightarrow> (\<exists>x. RepointContactAssociations k l g fv choice db = Inr x)"
  by (auto simp: commit_merge_def split: sum.splits)

lemma apply_ok: "(\<exists>c. ApplyContactMergeResolution kc res choice = Inr c) \<longleftrightarrow> missingResolutions (mr_conflicts res) choice = []"
  using apply_conflicts_ok [of choice "mr_conflicts res" "fold (set_resolved res) mergeScalarFields kc"]
  by (auto simp: ApplyContactMergeResolution_def split: sum.splits)

lemma set_resolved_rest:
  assumes "\<And>f v c. f \<in> set mergeScalarFields \<Longrightarrow> q (sf_set f v c) = q c"
  shows "q (fold (set_resolved res) mergeScalarFields c) = q c" and "apply_conflicts choice xs c = Inr d \<Longrightarrow> q d = q c"
proof -
  have "q (fold (set_resolved res) fs c) = q c" if "set fs \<subseteq> set mergeScalarFields" for fs c
    using that by (induction fs arbitrary: c) (auto simp: set_resolved_def assms split: option.split)
  then show "q (fold (set_resolved res) mergeScalarFields c) = q c" by blast
  have one: "q (fold (\<lambda>f c. if sf_key f = key then sf_set f v c else c) fs c) = q c"
    if "set fs \<subseteq> set mergeScalarFields" for fs c key v
    using that by (induction fs arbitrary: c) (auto simp: assms)
  show "apply_conflicts choice xs c = Inr d \<Longrightarrow> q d = q c"
    by (induction xs arbitrary: c) (auto simp: set_chosen_def one split: option.splits)
qed

lemma applied_rest:
  assumes "ApplyContactMergeResolution c res choice = Inr d"
  shows "con_photo d = con_photo c" "con_ambient d = con_ambient c"
proof -
  have photo: "\<And>f v c. f \<in> set mergeScalarFields \<Longrightarrow> con_photo (sf_set f v c) = con_photo c"
    by (simp add: scalar_fields, elim disjE) (simp_all add: set_closeness_def)
  have ambient: "\<And>f v c. f \<in> set mergeScalarFields \<Longrightarrow> con_ambient (sf_set f v c) = con_ambient c"
    by (simp add: scalar_fields, elim disjE) (simp_all add: set_closeness_def)
  show "con_photo d = con_photo c" "con_ambient d = con_ambient c"
    using assms set_resolved_rest [of con_photo, OF photo] set_resolved_rest [of con_ambient, OF ambient]
    by (auto simp: ApplyContactMergeResolution_def split: sum.splits)
qed

text \<open>C27: A merge goes through exactly when every conflict it asks about (a scalar, a custom field, the cadence and the data
  verification interval) has a resolution and the two policy conflicts are answered with one of the two policies; with a
  resolution missing it is rejected with the list of the missing ones, and with a policy answer that names neither
  policy it is rolled back. When it goes through the keeper has the photo of the merged contact where it had none, is
  ambient when either was, and a photo is left over to delete only when the keeper has its own.
\<close>

theorem merge_commit_outcome:
  fixes keeper loser :: contact and k l :: cascade_target and db :: tables and choice :: "string \<Rightarrow> string option"
  defines "res \<equiv> full_resolution keeper loser k l db"
  defines "missing \<equiv> missingResolutions (mr_conflicts res) choice @ missingResolutions (mr_field_values res) choice"
  defines "policies \<equiv> answered choice (ComputeCadencePolicyConflict k l db) \<and> answered choice (ComputeDataDecayPolicyConflict k l db)"
  shows "case CommitContactMerge keeper loser k l now g choice db of
       Inl (Unresolved fs) \<Rightarrow> fs = missing \<and> missing \<noteq> []
     | Inl (BadChoice _) \<Rightarrow> missing = [] \<and> \<not> policies
     | Inr out \<Rightarrow> missing = [] \<and> policies \<and>
         con_photo (mo_saved out) = (if con_photo keeper = [] then con_photo loser else con_photo keeper) \<and>
         con_ambient (mo_saved out) = (con_ambient keeper \<or> con_ambient loser) \<and>
         con_photo (mo_loser out) = (if con_photo keeper = [] then [] else con_photo loser)"
proof (cases "missing = []")
  case False
  then show ?thesis by (simp add: CommitContactMerge_def Let_def res_def missing_def)
next
  case True
  define kc where "kc = adopt_ambient (fst (adopt_photo keeper loser)) (snd (adopt_photo keeper loser))"
  have "missingResolutions (mr_conflicts res) choice = []" using True by (simp add: missing_def)
  then obtain saved where a: "ApplyContactMergeResolution kc res choice = Inr saved" using apply_ok by blast
  have run: "CommitContactMerge keeper loser k l now g choice db =
      (case commit_merge k l now g (mr_field_values res) choice db of
         Inl e \<Rightarrow> Inl (BadChoice e)
       | Inr (db', n) \<Rightarrow> Inr \<lparr>mo_saved = saved, mo_loser = snd (adopt_photo keeper loser), mo_tables = db', mo_edges_dropped = n\<rparr>)"
    using True a unfolding CommitContactMerge_def Let_def res_def [symmetric] missing_def [symmetric] kc_def
    by (simp add: split_beta)
  have ok: "(\<exists>x. commit_merge k l now g (mr_field_values res) choice db = Inr x) \<longleftrightarrow> policies"
    unfolding commit_merge_ok repoint_goes_through policies_def using True by (simp add: missing_def)
  show ?thesis
  proof (cases "commit_merge k l now g (mr_field_values res) choice db")
    case (Inl e)
    then show ?thesis using True ok by (simp add: run)
  next
    case (Inr x)
    then show ?thesis using True ok applied_rest [OF a]
      by (auto simp: run kc_def adopt_photo_def adopt_ambient_def split: prod.split)
  qed
qed

end
