(* ===== verification/ByteWalk.thy ===== *)
theory ByteWalk imports Prelude "HOL-Library.Word" "HOL-Library.Monad_Syntax" begin

text \<open>
  Loops over a byte slice, as the image code has them (\<^verbatim>\<open>attachments/exif_strip.go\<close>, \<^verbatim>\<open>imaging/exif.go\<close>). An index or a
  slice expression out of range panics in Go, so reads are partial; a loop that does not return has no value. The locale
  is what a loop body has to keep so that its loop returns without a panic, and the loops of the image code interpret it.
\<close>

type_synonym byte = "8 word"
type_synonym bytes = "byte list"

section \<open>Reads\<close>

definition byte_at :: "bytes \<Rightarrow> nat \<Rightarrow> byte option" where
  "byte_at b i = (if i < length b then Some (b ! i) else None)"

definition cut :: "bytes \<Rightarrow> nat \<Rightarrow> nat \<Rightarrow> bytes option" where
  "cut b i j = (if i \<le> j \<and> j \<le> length b then Some (take (j - i) (drop i b)) else None)"

definition be16 :: "bytes \<Rightarrow> nat option" where
  "be16 b = (if length b < 2 then None else Some (256 * unat (b ! 0) + unat (b ! 1)))"

definition le16 :: "bytes \<Rightarrow> nat option" where
  "le16 b = (if length b < 2 then None else Some (256 * unat (b ! 1) + unat (b ! 0)))"

definition be32 :: "bytes \<Rightarrow> nat option" where
  "be32 b = (if length b < 4 then None
     else Some (16777216 * unat (b ! 0) + 65536 * unat (b ! 1) + 256 * unat (b ! 2) + unat (b ! 3)))"

definition le32 :: "bytes \<Rightarrow> nat option" where
  "le32 b = (if length b < 4 then None
     else Some (16777216 * unat (b ! 3) + 65536 * unat (b ! 2) + 256 * unat (b ! 1) + unat (b ! 0)))"

lemma byte_at_Some [simp]: "i < length b \<Longrightarrow> byte_at b i = Some (b ! i)"
  by (simp add: byte_at_def)

lemma cut_Some [simp]: "i \<le> j \<Longrightarrow> j \<le> length b \<Longrightarrow> cut b i j = Some (take (j - i) (drop i b))"
  by (simp add: cut_def)

lemma be16_taken: "p + 2 \<le> length b \<Longrightarrow> be16 (take 2 (drop p b)) = Some (256 * unat (b ! p) + unat (b ! (p + 1)))"
  by (simp add: be16_def)

lemma be32_taken: "p + 4 \<le> length b \<Longrightarrow> be32 (take 4 (drop p b)) =
    Some (16777216 * unat (b ! p) + 65536 * unat (b ! (p + 1)) + 256 * unat (b ! (p + 2)) + unat (b ! (p + 3)))"
  by (simp add: be32_def)

section \<open>The loop\<close>

datatype 'a run = Panics | Returns 'a

text \<open>A body either returns, or goes on at a later position with its own state; no value means a panic.\<close>

type_synonym ('s, 'r) body = "bytes \<Rightarrow> nat \<Rightarrow> 's \<Rightarrow> ('r + nat \<times> 's) option"

partial_function (option) walk :: "('s, 'r) body \<Rightarrow> bytes \<Rightarrow> nat \<Rightarrow> 's \<Rightarrow> 'r run option" where
  "walk body data pos s =
     (case body data pos s of
        None \<Rightarrow> Some Panics
      | Some (Inl r) \<Rightarrow> Some (Returns r)
      | Some (Inr (pos', s')) \<Rightarrow> walk body data pos' s')"

lemma walk_return: "body data pos s = Some (Inl r) \<Longrightarrow> walk body data pos s = Some (Returns r)"
  by (simp add: walk.simps)

lemma walk_next: "body data pos s = Some (Inr (pos', s')) \<Longrightarrow> walk body data pos s = walk body data pos' s'"
  by (subst walk.simps) simp

locale forward_body =
  fixes body :: "('s, 'r) body"
  assumes reads_inside: "pos \<le> length data \<Longrightarrow> body data pos s \<noteq> None"
    and moves_forward: "pos \<le> length data \<Longrightarrow> body data pos s = Some (Inr (pos', s')) \<Longrightarrow> pos < pos' \<and> pos' \<le> length data"
begin

lemmas at_return = walk_return [where body = body]
lemmas at_next = walk_next [where body = body]

text \<open>The distance to the end shrinks with every turn, so the loop returns.\<close>

lemma returns: "pos \<le> length data \<Longrightarrow> \<exists>r. walk body data pos s = Some (Returns r)"
proof (induction "length data - pos" arbitrary: pos s rule: less_induct)
  case less
  obtain t where t: "body data pos s = Some t" using reads_inside [OF less.prems] by blast
  show ?case
  proof (cases t)
    case (Inl r)
    then show ?thesis using t at_return by simp
  next
    case (Inr y)
    obtain pos' s' where y: "body data pos s = Some (Inr (pos', s'))" using t Inr by (cases y) auto
    have "pos < pos'" "pos' \<le> length data" using moves_forward [OF less.prems y] by simp_all
    then show ?thesis using less.hyps [of pos' s'] unfolding at_next [OF y] by simp
  qed
qed

text \<open>What every turn keeps holds of the result.\<close>

lemma result_rule:
  assumes "walk body data pos s = Some (Returns r)" and "pos \<le> length data" and "I pos s"
    and "\<And>p u r. p \<le> length data \<Longrightarrow> I p u \<Longrightarrow> body data p u = Some (Inl r) \<Longrightarrow> Q r"
    and "\<And>p u p' u'. p \<le> length data \<Longrightarrow> I p u \<Longrightarrow> body data p u = Some (Inr (p', u')) \<Longrightarrow> I p' u'"
  shows "Q r"
  using assms(1-3)
proof (induction "length data - pos" arbitrary: pos s rule: less_induct)
  case less
  obtain t where t: "body data pos s = Some t" using reads_inside [OF less.prems(2)] by blast
  show ?case
  proof (cases t)
    case (Inl x)
    then have "r = x" using less.prems(1) t by (simp add: at_return)
    then show ?thesis using assms(4) less.prems(2,3) t Inl by blast
  next
    case (Inr y)
    obtain pos' s' where y: "body data pos s = Some (Inr (pos', s'))" using t Inr by (cases y) auto
    have "pos < pos'" "pos' \<le> length data" using moves_forward [OF less.prems(2) y] by simp_all
    moreover have "walk body data pos' s' = Some (Returns r)" using less.prems(1) at_next [OF y] by simp
    ultimately show ?thesis using less.hyps assms(5) less.prems(2,3) y by (metis diff_less_mono2 order_less_le_trans)
  qed
qed

end

end
