(* ===== verification/ExifStrip.thy ===== *)
theory ExifStrip imports ByteWalk begin

text \<open>
  Stripping camera metadata from uploaded images (\<^verbatim>\<open>attachments/exif_strip.go\<close>) and the reader of the gallery that looks
  for it (\<^verbatim>\<open>imaging/exif.go\<close>, \<^verbatim>\<open>jpegExifPayload\<close>), with the segment and chunk structure they walk as their specification.
\<close>

section \<open>JPEG\<close>

definition jpegExifSignature :: bytes where
  "jpegExifSignature = [0x45, 0x78, 0x69, 0x66, 0, 0]"

definition standalone :: "byte \<Rightarrow> bool" where
  "standalone m \<longleftrightarrow> m = 0x01 \<or> 0xD0 \<le> m \<and> m \<le> 0xD7"

definition jpeg_step :: "(bytes, bytes) body" where
  "jpeg_step data pos out =
     (if pos + 2 > length data then Some (Inl data)
      else do {
        b \<leftarrow> byte_at data pos;
        marker \<leftarrow> byte_at data (pos + 1);
        if b \<noteq> 0xFF then Some (Inl data)
        else if marker = 0xD9 then Some (Inl (out @ [b, marker]))
        else if marker = 0xDA then do { rest \<leftarrow> cut data pos (length data); Some (Inl (out @ rest)) }
        else if standalone marker then Some (Inr (pos + 2, out @ [b, marker]))
        else if pos + 4 > length data then Some (Inl data)
        else do {
          field \<leftarrow> cut data (pos + 2) (pos + 4);
          segmentLen \<leftarrow> be16 field;
          if segmentLen < 2 \<or> pos + 2 + segmentLen > length data then Some (Inl data)
          else do {
            segment \<leftarrow> cut data pos (pos + 2 + segmentLen);
            signed \<leftarrow> (if marker = 0xE1 \<and> 2 + length jpegExifSignature \<le> segmentLen
              then do { sig \<leftarrow> cut segment 4 (4 + length jpegExifSignature); Some (sig = jpegExifSignature) }
              else Some False);
            Some (Inr (pos + 2 + segmentLen, if signed then out else out @ segment))
          }
        }
      })"

definition stripJPEGExif :: "bytes \<Rightarrow> bytes run option" where
  "stripJPEGExif data =
     (if length data < 4 \<or> data ! 0 \<noteq> 0xFF \<or> data ! 1 \<noteq> 0xD8 then Some (Returns data)
      else walk jpeg_step data 2 [data ! 0, data ! 1])"

section \<open>PNG\<close>

definition pngSignature :: bytes where
  "pngSignature = [0x89, 0x50, 0x4E, 0x47, 0x0D, 0x0A, 0x1A, 0x0A]"

definition type_eXIf :: bytes where "type_eXIf = [0x65, 0x58, 0x49, 0x66]"
definition type_IEND :: bytes where "type_IEND = [0x49, 0x45, 0x4E, 0x44]"

definition png_step :: "(bytes, bytes) body" where
  "png_step data pos out =
     (if pos = length data then Some (Inl out)
      else if pos + 12 > length data then Some (Inl data)
      else do {
        field \<leftarrow> cut data pos (pos + 4);
        chunkLen \<leftarrow> be32 field;
        if pos + 12 + chunkLen > length data then Some (Inl data)
        else do {
          chunkType \<leftarrow> cut data (pos + 4) (pos + 8);
          chunk \<leftarrow> cut data pos (pos + 12 + chunkLen);
          let out = (if chunkType \<noteq> type_eXIf then out @ chunk else out) in
          if chunkType = type_IEND then do {
            rest \<leftarrow> cut data (pos + 12 + chunkLen) (length data);
            Some (Inl (out @ rest)) }
          else Some (Inr (pos + 12 + chunkLen, out))
        }
      })"

definition stripPNGExif :: "bytes \<Rightarrow> bytes run option" where
  "stripPNGExif data =
     (if length data < length pngSignature \<or> take (length pngSignature) data \<noteq> pngSignature then Some (Returns data)
      else walk png_step data (length pngSignature) pngSignature)"

definition StripImageMetadata :: "bytes \<Rightarrow> string \<Rightarrow> bytes run option" where
  "StripImageMetadata data contentType =
     (if contentType = ''image/jpeg'' then stripJPEGExif data
      else if contentType = ''image/png'' then stripPNGExif data
      else Some (Returns data))"

section \<open>The reader\<close>

definition payload_step :: "(unit, bytes option) body" where
  "payload_step data pos u =
     (if pos + 2 > length data then Some (Inl None)
      else do {
        b \<leftarrow> byte_at data pos;
        marker \<leftarrow> byte_at data (pos + 1);
        if b \<noteq> 0xFF then Some (Inl None)
        else if marker = 0xDA \<or> marker = 0xD9 then Some (Inl None)
        else if standalone marker then Some (Inr (pos + 2, u))
        else if pos + 4 > length data then Some (Inl None)
        else do {
          field \<leftarrow> cut data (pos + 2) (pos + 4);
          segLen \<leftarrow> be16 field;
          if segLen < 2 \<or> pos + 2 + segLen > length data then Some (Inl None)
          else do {
            seg \<leftarrow> cut data (pos + 2) (pos + 2 + segLen);
            signed \<leftarrow> (if marker = 0xE1 \<and> 8 \<le> length seg
              then do { sig \<leftarrow> cut seg 2 8; Some (sig = jpegExifSignature) } else Some False);
            if signed then do { payload \<leftarrow> cut seg 8 (length seg); Some (Inl (Some payload)) }
            else Some (Inr (pos + 2 + segLen, u))
          }
        }
      })"

definition jpegExifPayload :: "bytes \<Rightarrow> bytes option run option" where
  "jpegExifPayload data =
     (if length data < 4 \<or> data ! 0 \<noteq> 0xFF \<or> data ! 1 \<noteq> 0xD8 then Some (Returns None)
      else walk payload_step data 2 ())"

section \<open>The bodies keep the contract of the walk\<close>

lemma length_taken: "j \<le> length d \<Longrightarrow> length (take (j - i) (drop i d)) = j - i"
  by simp

lemma jpeg_reads: "pos \<le> length data \<Longrightarrow> jpeg_step data pos out \<noteq> None"
  by (auto simp: jpeg_step_def be16_taken jpegExifSignature_def cut_def)

lemma jpeg_moves: "jpeg_step data pos out = Some (Inr (pos', out')) \<Longrightarrow> pos < pos' \<and> pos' \<le> length data"
  by (auto simp: jpeg_step_def be16_taken jpegExifSignature_def split: if_splits)

lemma png_reads: "pos \<le> length data \<Longrightarrow> png_step data pos out \<noteq> None"
  by (auto simp: png_step_def be32_taken Let_def)

lemma png_moves: "png_step data pos out = Some (Inr (pos', out')) \<Longrightarrow> pos < pos' \<and> pos' \<le> length data"
  by (auto simp: png_step_def be32_taken Let_def split: if_splits)

lemma payload_reads: "pos \<le> length data \<Longrightarrow> payload_step data pos u \<noteq> None"
  by (auto simp: payload_step_def be16_taken)

lemma payload_moves: "payload_step data pos u = Some (Inr (pos', u')) \<Longrightarrow> pos < pos' \<and> pos' \<le> length data"
  by (auto simp: payload_step_def be16_taken split: if_splits)

interpretation jpeg: forward_body jpeg_step
  by unfold_locales (use jpeg_reads jpeg_moves in blast)+

interpretation png: forward_body png_step
  by unfold_locales (use png_reads png_moves in blast)+

interpretation payload: forward_body payload_step
  by unfold_locales (use payload_reads payload_moves in blast)+

section \<open>What a JPEG is made of\<close>

text \<open>
  A segment as both loops see it: the marker prefix, a marker that neither ends the image nor starts the scan, and for
  most markers a length field that counts itself.
\<close>

definition segment_ok :: "bytes \<Rightarrow> bool" where
  "segment_ok s \<longleftrightarrow> 2 \<le> length s \<and> s ! 0 = 0xFF \<and> s ! 1 \<noteq> 0xD9 \<and> s ! 1 \<noteq> 0xDA \<and>
     (if standalone (s ! 1) then length s = 2
      else 4 \<le> length s \<and> 256 * unat (s ! 2) + unat (s ! 3) = length s - 2)"

definition exif_segment :: "bytes \<Rightarrow> bool" where
  "exif_segment s \<longleftrightarrow> s ! 1 = 0xE1 \<and> 10 \<le> length s \<and> take 6 (drop 4 s) = jpegExifSignature"

text \<open>What follows the segments: the end marker, or the scan with everything after it.\<close>

definition image_tail :: "bytes \<Rightarrow> bool" where
  "image_tail t \<longleftrightarrow> 2 \<le> length t \<and> t ! 0 = 0xFF \<and> (t ! 1 = 0xD9 \<or> t ! 1 = 0xDA)"

definition kept_tail :: "bytes \<Rightarrow> bytes" where
  "kept_tail t = (if t ! 1 = 0xD9 then take 2 t else t)"

definition jpeg_image :: "bytes list \<Rightarrow> bytes \<Rightarrow> bytes" where
  "jpeg_image segs t = [0xFF, 0xD8] @ concat segs @ t"

lemma at_drop: "pos \<le> length data \<Longrightarrow> drop pos data = s @ rest \<Longrightarrow> i < length s \<Longrightarrow> data ! (pos + i) = s ! i"
  by (metis nth_append nth_drop)

lemma length_drop_parts: "pos \<le> length data \<Longrightarrow> drop pos data = s @ rest \<Longrightarrow> length data = pos + length s + length rest"
  by (metis add.assoc le_add_diff_inverse length_append length_drop)

lemma segment_head:
  assumes "pos \<le> length data" and "drop pos data = s @ rest" and "segment_ok s"
  shows "pos + 2 \<le> length data" "data ! pos = 0xFF" "data ! Suc pos = s ! 1" "s ! 1 \<noteq> 0xD9" "s ! 1 \<noteq> 0xDA"
    "pos + length s \<le> length data" "take (length s) (drop pos data) = s"
proof -
  have "0 < length s" "1 < length s" using assms(3) by (auto simp: segment_ok_def)
  then show "pos + 2 \<le> length data" "data ! pos = 0xFF" "data ! Suc pos = s ! 1" "s ! 1 \<noteq> 0xD9" "s ! 1 \<noteq> 0xDA"
    "pos + length s \<le> length data" "take (length s) (drop pos data) = s"
    using assms at_drop [OF assms(1,2), of 0] at_drop [OF assms(1,2), of 1] length_drop_parts [OF assms(1,2)]
    by (simp_all add: segment_ok_def)
qed

lemma segment_length:
  assumes "pos \<le> length data" and "drop pos data = s @ rest" and "segment_ok s" and "\<not> standalone (s ! 1)"
  shows "pos + 4 \<le> length data" "256 * unat (data ! Suc (Suc pos)) + unat (data ! Suc (Suc (Suc pos))) = length s - 2" "4 \<le> length s"
  using assms at_drop [OF assms(1,2), of 2] at_drop [OF assms(1,2), of 3] length_drop_parts [OF assms(1,2)]
  by (auto simp: segment_ok_def numeral_eq_Suc)

lemma jpeg_step_marked:
  assumes "pos + 4 \<le> length data" and "data ! pos = 0xFF" and "data ! Suc pos = m" and "\<not> standalone m" and "m \<noteq> 0xD9" and "m \<noteq> 0xDA"
    and "256 * unat (data ! Suc (Suc pos)) + unat (data ! Suc (Suc (Suc pos))) = n" and "2 \<le> n" and "pos + 2 + n \<le> length data"
    and "take (n + 2) (drop pos data) = s"
  shows "jpeg_step data pos out = Some (Inr (pos + 2 + n,
    if m = 0xE1 \<and> 8 \<le> n \<and> take 6 (drop 4 s) = jpegExifSignature then out else out @ s))"
proof -
  have "length s = n + 2" using assms(9,10) by auto
  then show ?thesis using assms by (simp add: jpeg_step_def be16_taken jpegExifSignature_def cut_def)
qed

lemma payload_step_marked:
  assumes "pos + 4 \<le> length data" and "data ! pos = 0xFF" and "data ! Suc pos = m" and "\<not> standalone m" and "m \<noteq> 0xD9" and "m \<noteq> 0xDA"
    and "256 * unat (data ! Suc (Suc pos)) + unat (data ! Suc (Suc (Suc pos))) = n" and "2 \<le> n" and "pos + 2 + n \<le> length data"
    and "take n (drop (Suc (Suc pos)) data) = s"
  shows "payload_step data pos u = Some (if m = 0xE1 \<and> 8 \<le> n \<and> take 6 (drop 2 s) = jpegExifSignature
    then Inl (Some (drop 8 s)) else Inr (pos + 2 + n, u))"
proof -
  have "length s = n" using assms(9,10) by auto
  then show ?thesis using assms by (simp add: payload_step_def be16_taken cut_def)
qed

lemma segment_size:
  assumes "segment_ok s" and "\<not> standalone (s ! 1)"
  obtains n where "length s = n + 2" "2 \<le> n"
proof (rule that)
  have "4 \<le> length s" using assms by (simp add: segment_ok_def)
  then show "length s = (length s - 2) + 2" "2 \<le> length s - 2" by simp_all
qed

lemma jpeg_step_segment:
  assumes p: "pos \<le> length data" and d: "drop pos data = s @ rest" and s: "segment_ok s"
  shows "jpeg_step data pos out = Some (Inr (pos + length s, if exif_segment s then out else out @ s))"
proof (cases "standalone (s ! 1)")
  case True
  then have "[0xFF, s ! 1] = s" "length s = 2" "\<not> exif_segment s" using s
    by (auto simp: segment_ok_def exif_segment_def nth_Cons' less_Suc_eq intro!: nth_equalityI split: if_splits)
  then show ?thesis using True segment_head [OF p d s] by (simp add: jpeg_step_def)
next
  case False
  obtain n where n: "length s = n + 2" "2 \<le> n" by (rule segment_size [OF s False])
  note h = segment_head [OF p d s, unfolded n(1)] and l = segment_length [OF p d s False, unfolded n(1)]
  have "jpeg_step data pos out = Some (Inr (pos + 2 + n,
      if s ! 1 = 0xE1 \<and> 8 \<le> n \<and> take 6 (drop 4 s) = jpegExifSignature then out else out @ s))"
    by (rule jpeg_step_marked) (use h l n False in simp_all)
  then show ?thesis using n by (simp add: exif_segment_def)
qed

lemma payload_step_segment:
  assumes p: "pos \<le> length data" and d: "drop pos data = s @ rest" and s: "segment_ok s"
  shows "payload_step data pos u = Some (if exif_segment s then Inl (Some (drop 10 s)) else Inr (pos + length s, u))"
proof (cases "standalone (s ! 1)")
  case True
  then have "length s = 2" "\<not> exif_segment s" using s by (auto simp: segment_ok_def exif_segment_def split: if_splits)
  then show ?thesis using True segment_head [OF p d s] by (simp add: payload_step_def)
next
  case False
  obtain n where n: "length s = n + 2" "2 \<le> n" by (rule segment_size [OF s False])
  note h = segment_head [OF p d s, unfolded n(1)] and l = segment_length [OF p d s False, unfolded n(1)]
  have "drop 2 (take (n + 2) (drop pos data)) = drop 2 s" unfolding h(7) ..
  then have seg: "take n (drop (Suc (Suc pos)) data) = drop 2 s" by (simp add: drop_take)
  have "payload_step data pos u = Some (if s ! 1 = 0xE1 \<and> 8 \<le> n \<and> take 6 (drop 2 (drop 2 s)) = jpegExifSignature
      then Inl (Some (drop 8 (drop 2 s))) else Inr (pos + 2 + n, u))"
    by (rule payload_step_marked) (use h l n False seg in simp_all)
  then show ?thesis using n by (simp add: exif_segment_def)
qed

lemma tail_bytes:
  assumes p: "pos \<le> length data" and d: "drop pos data = t" and t: "image_tail t"
  shows "pos + 2 \<le> length data" "data ! pos = 0xFF" "data ! Suc pos = t ! 1" "take 2 t = [0xFF, t ! 1]"
    "take (length data - pos) (drop pos data) = t"
proof -
  have d': "drop pos data = t @ []" using d by simp
  have "0 < length t" "1 < length t" using t by (auto simp: image_tail_def)
  then show "data ! pos = 0xFF" "data ! Suc pos = t ! 1"
    using at_drop [OF p d', of 0] at_drop [OF p d', of 1] t by (simp_all add: image_tail_def)
  show "pos + 2 \<le> length data" using length_drop_parts [OF p d'] t by (simp add: image_tail_def)
  show "take 2 t = [0xFF, t ! 1]" using t by (cases t rule: remdups_adj.cases) (auto simp: image_tail_def)
  show "take (length data - pos) (drop pos data) = t" using d length_drop_parts [OF p d'] by simp
qed

lemma jpeg_step_tail:
  assumes "pos \<le> length data" and "drop pos data = t" and t: "image_tail t"
  shows "jpeg_step data pos out = Some (Inl (out @ kept_tail t))"
  using tail_bytes [OF assms] t by (auto simp: jpeg_step_def image_tail_def kept_tail_def)

lemma payload_step_tail:
  assumes "pos \<le> length data" and "drop pos data = t" and t: "image_tail t"
  shows "payload_step data pos u = Some (Inl None)"
  using tail_bytes [OF assms] t by (auto simp: payload_step_def image_tail_def)

text \<open>The loops over a whole image.\<close>

lemma segment_next:
  assumes "pos \<le> length data" and "drop pos data = s @ rest"
  shows "pos + length s \<le> length data" "drop (pos + length s) data = rest"
proof -
  show "pos + length s \<le> length data" using length_drop_parts [OF assms] by simp
  have "drop (pos + length s) data = drop (length s) (drop pos data)" by (simp add: add.commute)
  then show "drop (pos + length s) data = rest" unfolding assms(2) by simp
qed

lemma jpeg_walk:
  assumes "pos \<le> length data" and "drop pos data = concat segs @ t" and "\<forall>s\<in>set segs. segment_ok s" and "image_tail t"
  shows "walk jpeg_step data pos out = Some (Returns (out @ concat (filter (\<lambda>s. \<not> exif_segment s) segs) @ kept_tail t))"
  using assms
proof (induction segs arbitrary: pos out)
  case Nil
  then show ?case using walk_return [where body = jpeg_step, OF jpeg_step_tail] by simp
next
  case (Cons s segs)
  have d: "drop pos data = s @ (concat segs @ t)" using Cons.prems(2) by simp
  have s: "segment_ok s" using Cons.prems(3) by simp
  show ?case
    unfolding walk_next [where body = jpeg_step, OF jpeg_step_segment [OF Cons.prems(1) d s]]
    using Cons.IH [OF segment_next [OF Cons.prems(1) d] _ Cons.prems(4)] Cons.prems(3) by simp
qed

lemma payload_walk:
  assumes "pos \<le> length data" and "drop pos data = concat segs @ t" and "\<forall>s\<in>set segs. segment_ok s" and "image_tail t"
  shows "walk payload_step data pos u = Some (Returns (map_option (drop 10) (find exif_segment segs)))"
  using assms
proof (induction segs arbitrary: pos u)
  case Nil
  then show ?case using walk_return [where body = payload_step, OF payload_step_tail] by simp
next
  case (Cons s segs)
  have d: "drop pos data = s @ (concat segs @ t)" using Cons.prems(2) by simp
  have s: "segment_ok s" using Cons.prems(3) by simp
  note step = payload_step_segment [OF Cons.prems(1) d s, of u]
  show ?case
  proof (cases "exif_segment s")
    case True
    then show ?thesis using step walk_return [where body = payload_step] by simp
  next
    case False
    then have "payload_step data pos u = Some (Inr (pos + length s, u))" using step by simp
    from walk_next [where body = payload_step, OF this]
    show ?thesis using Cons.IH [OF segment_next [OF Cons.prems(1) d] _ Cons.prems(4)] Cons.prems(3) False by simp
  qed
qed

text \<open>Conversely, a loop that does not give up has walked over such segments.\<close>

lemma taken_segment:
  assumes "pos + n \<le> length data"
  shows "drop pos data = take n (drop pos data) @ drop (pos + n) data" "length (take n (drop pos data)) = n"
    "i < n \<Longrightarrow> take n (drop pos data) ! i = data ! (pos + i)"
  using assms by (simp_all add: add.commute flip: drop_drop)

lemma jpeg_step_next:
  assumes "jpeg_step data pos out = Some (Inr (pos', out'))"
  shows "\<exists>s. segment_ok s \<and> drop pos data = s @ drop pos' data \<and> out' = (if exif_segment s then out else out @ s)"
proof -
  have p: "pos + 2 \<le> length data" "data ! pos = 0xFF" "data ! Suc pos \<noteq> 0xD9" "data ! Suc pos \<noteq> 0xDA"
    using assms by (auto simp: jpeg_step_def split: if_splits)
  show ?thesis
  proof (cases "standalone (data ! Suc pos)")
    case True
    let ?s = "take 2 (drop pos data)"
    note t = taken_segment [OF p(1)]
    have ok: "segment_ok ?s" using True p t by (simp add: segment_ok_def)
    have "jpeg_step data pos out = Some (Inr (pos + length ?s, if exif_segment ?s then out else out @ ?s))"
      by (rule jpeg_step_segment [OF _ t(1) ok]) (use p in simp)
    then have e: "pos' = pos + 2" "out' = (if exif_segment ?s then out else out @ ?s)" using assms t(2) by simp_all
    show ?thesis unfolding e by (intro exI [of _ ?s] conjI ok t(1) refl)
  next
    case False
    define n where "n = 256 * unat (data ! Suc (Suc pos)) + unat (data ! Suc (Suc (Suc pos)))"
    have n: "pos + 4 \<le> length data" "2 \<le> n" "pos + (2 + n) \<le> length data"
      using assms False p by (auto simp: jpeg_step_def be16_taken n_def split: if_splits)
    let ?s = "take (2 + n) (drop pos data)"
    note t = taken_segment [OF n(3)]
    have at: "?s ! 0 = data ! pos" "?s ! 1 = data ! Suc pos" "?s ! 2 = data ! Suc (Suc pos)" "?s ! 3 = data ! Suc (Suc (Suc pos))"
      using t(3) [of 0] t(3) [of 1] t(3) [of 2] t(3) [of 3] n(2) by (simp_all add: eval_nat_numeral)
    have ok: "segment_ok ?s" unfolding segment_ok_def at t(2) using False p(2-4) n(2) by (simp add: n_def)
    have "jpeg_step data pos out = Some (Inr (pos + length ?s, if exif_segment ?s then out else out @ ?s))"
      by (rule jpeg_step_segment [OF _ t(1) ok]) (use p in simp)
    then have e: "pos' = pos + (2 + n)" "out' = (if exif_segment ?s then out else out @ ?s)" using assms t(2) by simp_all
    show ?thesis unfolding e by (intro exI [of _ ?s] conjI ok t(1) refl)
  qed
qed

lemma jpeg_step_stop:
  assumes "jpeg_step data pos out = Some (Inl r)" and "pos \<le> length data"
  shows "r = data \<or> image_tail (drop pos data) \<and> r = out @ kept_tail (drop pos data)"
proof (cases "image_tail (drop pos data)")
  case True
  then show ?thesis using jpeg_step_tail [OF assms(2) refl] assms(1) by simp
next
  case False
  have "data ! Suc pos \<noteq> 0xD9 \<and> data ! Suc pos \<noteq> 0xDA" if "pos + 2 \<le> length data" "data ! pos = 0xFF"
    using False that by (simp add: image_tail_def)
  then show ?thesis using assms(1) by (auto simp: jpeg_step_def be16_taken cut_def split: if_splits)
qed

text \<open>The two outcomes of stripping a JPEG.\<close>

definition stripped_jpeg :: "bytes list \<Rightarrow> bytes \<Rightarrow> bytes" where
  "stripped_jpeg segs t = jpeg_image (filter (\<lambda>s. \<not> exif_segment s) segs) (kept_tail t)"

lemma jpeg_head:
  assumes "\<not> (length data < 4 \<or> data ! 0 \<noteq> 0xFF \<or> data ! 1 \<noteq> 0xD8)"
  shows "data = [0xFF, 0xD8] @ drop 2 data"
  using assms by (cases data rule: remdups_adj.cases) auto

lemma strip_jpeg_cases:
  obtains (kept) "stripJPEGExif data = Some (Returns data)"
  | (stripped) segs t where "data = jpeg_image segs t" "\<forall>s\<in>set segs. segment_ok s" "image_tail t"
      "stripJPEGExif data = Some (Returns (stripped_jpeg segs t))"
proof (cases "length data < 4 \<or> data ! 0 \<noteq> 0xFF \<or> data ! 1 \<noteq> 0xD8")
  case True
  then show thesis using kept by (simp add: stripJPEGExif_def)
next
  case False
  note head = jpeg_head [OF False]
  let ?out = "\<lambda>segs. [0xFF, 0xD8] @ concat (filter (\<lambda>s. \<not> exif_segment s) segs)"
  have two: "2 \<le> length data" using False by simp
  obtain r where r: "walk jpeg_step data 2 [0xFF, 0xD8] = Some (Returns r)" using jpeg.returns [OF two] by blast
  have "r = data \<or> (\<exists>segs t. drop 2 data = concat segs @ t \<and> (\<forall>s\<in>set segs. segment_ok s) \<and> image_tail t \<and> r = ?out segs @ kept_tail t)"
  proof (rule jpeg.result_rule [OF r two, where I = "\<lambda>p u. \<exists>segs. drop 2 data = concat segs @ drop p data \<and>
      (\<forall>s\<in>set segs. segment_ok s) \<and> u = ?out segs"])
    show "\<exists>segs. drop 2 data = concat segs @ drop 2 data \<and> (\<forall>s\<in>set segs. segment_ok s) \<and> [0xFF, 0xD8] = ?out segs"
      by (intro exI [of _ "[]"]) simp
  next
    fix p u x assume "p \<le> length data" and "\<exists>segs. drop 2 data = concat segs @ drop p data \<and> (\<forall>s\<in>set segs. segment_ok s) \<and> u = ?out segs"
      and "jpeg_step data p u = Some (Inl x)"
    then show "x = data \<or> (\<exists>segs t. drop 2 data = concat segs @ t \<and> (\<forall>s\<in>set segs. segment_ok s) \<and> image_tail t \<and> x = ?out segs @ kept_tail t)"
      using jpeg_step_stop by blast
  next
    fix p u p' u' assume "p \<le> length data"
      and "\<exists>segs. drop 2 data = concat segs @ drop p data \<and> (\<forall>s\<in>set segs. segment_ok s) \<and> u = ?out segs"
      and step: "jpeg_step data p u = Some (Inr (p', u'))"
    then obtain segs where segs: "drop 2 data = concat segs @ drop p data" "\<forall>s\<in>set segs. segment_ok s" "u = ?out segs" by blast
    obtain s where s: "segment_ok s" "drop p data = s @ drop p' data" "u' = (if exif_segment s then u else u @ s)"
      using jpeg_step_next [OF step] by blast
    show "\<exists>segs. drop 2 data = concat segs @ drop p' data \<and> (\<forall>s\<in>set segs. segment_ok s) \<and> u' = ?out segs"
      using segs s by (intro exI [of _ "segs @ [s]"]) simp
  qed
  moreover have "stripJPEGExif data = Some (Returns r)" using False r by (simp add: stripJPEGExif_def)
  ultimately show thesis using kept stripped head unfolding stripped_jpeg_def jpeg_image_def by (metis append.assoc)
qed

section \<open>What a PNG is made of\<close>

definition chunk_ok :: "bytes \<Rightarrow> bool" where
  "chunk_ok c \<longleftrightarrow> 12 \<le> length c \<and>
     16777216 * unat (c ! 0) + 65536 * unat (c ! 1) + 256 * unat (c ! 2) + unat (c ! 3) = length c - 12"

definition chunk_type :: "bytes \<Rightarrow> bytes" where
  "chunk_type c = take 4 (drop 4 c)"

definition png_image :: "bytes list \<Rightarrow> bytes \<Rightarrow> bytes" where
  "png_image chunks rest = pngSignature @ concat chunks @ rest"

text \<open>The chunks up to the first end chunk, after which anything may follow, or all of them.\<close>

fun png_parts :: "bytes list \<Rightarrow> bytes \<Rightarrow> bool" where
  "png_parts [] rest \<longleftrightarrow> rest = []"
| "png_parts (c # cs) rest \<longleftrightarrow> chunk_ok c \<and> (if chunk_type c = type_IEND then cs = [] else png_parts cs rest)"

definition stripped_png :: "bytes list \<Rightarrow> bytes \<Rightarrow> bytes" where
  "stripped_png chunks rest = png_image (filter (\<lambda>c. chunk_type c \<noteq> type_eXIf) chunks) rest"

lemma png_step_marked:
  assumes "pos + 12 + n \<le> length data" and "data ! pos = b0" and "data ! (pos + 1) = b1" and "data ! (pos + 2) = b2" and "data ! (pos + 3) = b3"
    and "16777216 * unat b0 + 65536 * unat b1 + 256 * unat b2 + unat b3 = n"
    and "take (12 + n) (drop pos data) = c"
  shows "png_step data pos out = Some (
    let out' = (if chunk_type c \<noteq> type_eXIf then out @ c else out)
    in if chunk_type c = type_IEND then Inl (out' @ drop (pos + 12 + n) data) else Inr (pos + 12 + n, out'))"
proof -
  have ty: "take 4 (drop (pos + 4) data) = chunk_type c" unfolding chunk_type_def assms(7) [symmetric]
    by (simp add: drop_take add.commute)
  have len: "be32 (take 4 (drop pos data)) = Some n" using assms(1-6) by (simp add: be32_taken)
  have c: "take (pos + 12 + n - pos) (drop pos data) = c" using assms(7) by (simp add: add.commute add.left_commute)
  have cuts: "cut data pos (pos + 4) = Some (take 4 (drop pos data))" "cut data (pos + 4) (pos + 8) = Some (chunk_type c)"
    "cut data pos (pos + 12 + n) = Some c" "cut data (pos + 12 + n) (length data) = Some (drop (pos + 12 + n) data)"
    using assms(1) ty c by (simp_all add: cut_def)
  have "pos \<noteq> length data" "\<not> length data < pos + 12" "\<not> length data < pos + 12 + n" using assms(1) by simp_all
  then show ?thesis unfolding png_step_def cuts by (simp add: len cuts Let_def)
qed

lemma png_step_chunk:
  assumes p: "pos \<le> length data" and d: "drop pos data = c @ rest" and c: "chunk_ok c"
  shows "png_step data pos out = Some (
    let out' = (if chunk_type c \<noteq> type_eXIf then out @ c else out)
    in if chunk_type c = type_IEND then Inl (out' @ rest) else Inr (pos + length c, out'))"
proof -
  obtain n where n: "length c = 12 + n" using c by (metis chunk_ok_def le_Suc_ex)
  have e: "pos + 12 + n = pos + length c" using n by simp
  have at: "data ! pos = c ! 0" "data ! (pos + 1) = c ! 1" "data ! (pos + 2) = c ! 2" "data ! (pos + 3) = c ! 3"
    using at_drop [OF p d, of 0] at_drop [OF p d, of 1] at_drop [OF p d, of 2] at_drop [OF p d, of 3] n by simp_all
  have "take (12 + n) (drop pos data) = c" using d n by simp
  note m = png_step_marked [OF _ at _ this, of out, unfolded e segment_next(2) [OF p d]]
  show ?thesis by (rule m) (use c n segment_next(1) [OF p d] in \<open>simp_all add: chunk_ok_def\<close>)
qed

lemma png_walk:
  assumes "pos \<le> length data" and "drop pos data = concat chunks @ rest" and "png_parts chunks rest"
  shows "walk png_step data pos out = Some (Returns (out @ concat (filter (\<lambda>c. chunk_type c \<noteq> type_eXIf) chunks) @ rest))"
  using assms
proof (induction chunks arbitrary: pos out)
  case Nil
  then have "png_step data pos out = Some (Inl out)" by (simp add: png_step_def)
  then show ?case using Nil walk_return [where body = png_step] by simp
next
  case (Cons c chunks)
  have d: "drop pos data = c @ (concat chunks @ rest)" using Cons.prems(2) by simp
  have c: "chunk_ok c" using Cons.prems(3) by simp
  note step = png_step_chunk [OF Cons.prems(1) d c, of out]
  show ?case
  proof (cases "chunk_type c = type_IEND")
    case True
    then have "chunks = []" using Cons.prems(3) by simp
    then show ?thesis using step True walk_return [where body = png_step] by (simp add: Let_def)
  next
    case False
    let ?out = "if chunk_type c \<noteq> type_eXIf then out @ c else out"
    have "png_step data pos out = Some (Inr (pos + length c, ?out))" using step False by (simp add: Let_def)
    from walk_next [where body = png_step, OF this]
    have "walk png_step data pos out = walk png_step data (pos + length c) ?out" .
    moreover have "png_parts chunks rest" using Cons.prems(3) False by simp
    ultimately show ?thesis using Cons.IH [OF segment_next [OF Cons.prems(1) d]] by simp
  qed
qed

lemma png_step_next:
  assumes "png_step data pos out = Some (Inr (pos', out'))"
  shows "\<exists>c. chunk_ok c \<and> chunk_type c \<noteq> type_IEND \<and> drop pos data = c @ drop pos' data \<and>
    out' = (if chunk_type c \<noteq> type_eXIf then out @ c else out)"
proof -
  define n where "n = 16777216 * unat (data ! pos) + 65536 * unat (data ! (pos + 1)) + 256 * unat (data ! (pos + 2)) + unat (data ! (pos + 3))"
  have n: "pos + (12 + n) \<le> length data"
    using assms by (auto simp: png_step_def be32_taken n_def Let_def split: if_splits)
  let ?c = "take (12 + n) (drop pos data)"
  note t = taken_segment [OF n]
  have at: "?c ! 0 = data ! pos" "?c ! 1 = data ! (pos + 1)" "?c ! 2 = data ! (pos + 2)" "?c ! 3 = data ! (pos + 3)"
    using t(3) [of 0] t(3) [of 1] t(3) [of 2] t(3) [of 3] by simp_all
  have ok: "chunk_ok ?c" unfolding chunk_ok_def at t(2) by (simp add: n_def)
  have "png_step data pos out = Some (let out' = (if chunk_type ?c \<noteq> type_eXIf then out @ ?c else out)
      in if chunk_type ?c = type_IEND then Inl (out' @ drop (pos + (12 + n)) data) else Inr (pos + length ?c, out'))"
    by (rule png_step_chunk [OF _ t(1) ok]) (use n in simp)
  then have e: "chunk_type ?c \<noteq> type_IEND" "pos' = pos + (12 + n)" "out' = (if chunk_type ?c \<noteq> type_eXIf then out @ ?c else out)"
    using assms t(2) by (auto simp: Let_def split: if_splits)
  show ?thesis unfolding e(2,3) by (intro exI [of _ ?c] conjI ok t(1) refl e(1))
qed

lemma png_step_stop:
  assumes "png_step data pos out = Some (Inl r)" and "pos \<le> length data"
  shows "r = data \<or> (\<exists>chunks rest. png_parts chunks rest \<and> drop pos data = concat chunks @ rest \<and>
    r = out @ concat (filter (\<lambda>c. chunk_type c \<noteq> type_eXIf) chunks) @ rest)"
proof (cases "pos = length data")
  case True
  then have "png_parts [] []" "drop pos data = concat [] @ []" "r = out @ concat (filter (\<lambda>c. chunk_type c \<noteq> type_eXIf) []) @ []"
    using assms(1) by (simp_all add: png_step_def)
  then show ?thesis by blast
next
  case False
  define n where "n = 16777216 * unat (data ! pos) + 65536 * unat (data ! (pos + 1)) + 256 * unat (data ! (pos + 2)) + unat (data ! (pos + 3))"
  show ?thesis
  proof (cases "pos + (12 + n) \<le> length data")
    case n: True
    let ?c = "take (12 + n) (drop pos data)" and ?rest = "drop (pos + (12 + n)) data"
    note t = taken_segment [OF n]
    have at: "?c ! 0 = data ! pos" "?c ! 1 = data ! (pos + 1)" "?c ! 2 = data ! (pos + 2)" "?c ! 3 = data ! (pos + 3)"
      using t(3) [of 0] t(3) [of 1] t(3) [of 2] t(3) [of 3] by simp_all
    have ok: "chunk_ok ?c" unfolding chunk_ok_def at t(2) by (simp add: n_def)
    have "png_step data pos out = Some (let out' = (if chunk_type ?c \<noteq> type_eXIf then out @ ?c else out)
        in if chunk_type ?c = type_IEND then Inl (out' @ ?rest) else Inr (pos + length ?c, out'))"
      by (rule png_step_chunk [OF _ t(1) ok]) (use n in simp)
    then have "chunk_type ?c = type_IEND" "r = (if chunk_type ?c \<noteq> type_eXIf then out @ ?c else out) @ ?rest"
      using assms(1) by (auto simp: Let_def split: if_splits)
    then have "png_parts [?c] ?rest" "r = out @ concat (filter (\<lambda>c. chunk_type c \<noteq> type_eXIf) [?c]) @ ?rest" using ok by simp_all
    moreover have "drop pos data = concat [?c] @ ?rest" using t(1) by simp
    ultimately show ?thesis by blast
  next
    case False
    then have "r = data" using assms(1) \<open>pos \<noteq> length data\<close>
      by (auto simp: png_step_def be32_taken n_def Let_def split: if_splits)
    then show ?thesis by blast
  qed
qed

lemma png_parts_append:
  "\<forall>c\<in>set cs. chunk_ok c \<and> chunk_type c \<noteq> type_IEND \<Longrightarrow> png_parts (cs @ ds) rest = png_parts ds rest"
  by (induction cs) simp_all

lemma strip_png_cases:
  obtains (kept) "stripPNGExif data = Some (Returns data)"
  | (stripped) chunks rest where "data = png_image chunks rest" "png_parts chunks rest"
      "stripPNGExif data = Some (Returns (stripped_png chunks rest))"
proof (cases "length data < length pngSignature \<or> take (length pngSignature) data \<noteq> pngSignature")
  case True
  then show thesis using kept by (simp add: stripPNGExif_def)
next
  case False
  let ?n = "length pngSignature"
  have n: "?n \<le> length data" and head: "data = pngSignature @ drop ?n data" using False by (simp, metis append_take_drop_id)
  let ?out = "\<lambda>cs. pngSignature @ concat (filter (\<lambda>c. chunk_type c \<noteq> type_eXIf) cs)"
  let ?I = "\<lambda>p u cs. drop ?n data = concat cs @ drop p data \<and> (\<forall>c\<in>set cs. chunk_ok c \<and> chunk_type c \<noteq> type_IEND) \<and> u = ?out cs"
  let ?Q = "\<lambda>r. r = data \<or> (\<exists>cs rest. drop ?n data = concat cs @ rest \<and> png_parts cs rest \<and> r = ?out cs @ rest)"
  obtain r where r: "walk png_step data ?n pngSignature = Some (Returns r)" using png.returns [OF n] by blast
  have "?Q r"
  proof (rule png.result_rule [OF r n, where I = "\<lambda>p u. \<exists>cs. ?I p u cs"])
    show "\<exists>cs. ?I ?n pngSignature cs" by (intro exI [of _ "[]"]) simp
  next
    fix p u x assume p: "p \<le> length data" and "\<exists>cs. ?I p u cs" and stop: "png_step data p u = Some (Inl x)"
    then obtain cs where cs: "drop ?n data = concat cs @ drop p data" "\<forall>c\<in>set cs. chunk_ok c \<and> chunk_type c \<noteq> type_IEND" "u = ?out cs"
      by blast
    from png_step_stop [OF stop p] show "?Q x"
    proof
      assume "\<exists>ds rest. png_parts ds rest \<and> drop p data = concat ds @ rest \<and>
        x = u @ concat (filter (\<lambda>c. chunk_type c \<noteq> type_eXIf) ds) @ rest"
      then obtain ds rest where "png_parts ds rest" "drop p data = concat ds @ rest"
        "x = u @ concat (filter (\<lambda>c. chunk_type c \<noteq> type_eXIf) ds) @ rest" by blast
      then show "?Q x" using cs png_parts_append [OF cs(2), of ds rest] by (intro disjI2 exI [of _ "cs @ ds"] exI [of _ rest]) simp
    qed simp
  next
    fix p u p' u' assume "\<exists>cs. ?I p u cs" and step: "png_step data p u = Some (Inr (p', u'))"
    then obtain cs where cs: "drop ?n data = concat cs @ drop p data" "\<forall>c\<in>set cs. chunk_ok c \<and> chunk_type c \<noteq> type_IEND" "u = ?out cs"
      by blast
    obtain c where c: "chunk_ok c" "chunk_type c \<noteq> type_IEND" "drop p data = c @ drop p' data"
      "u' = (if chunk_type c \<noteq> type_eXIf then u @ c else u)" using png_step_next [OF step] by blast
    have "?I p' u' (cs @ [c])" unfolding c(4) cs(3) cs(1) c(3) using cs(2) c(1,2) by simp
    then show "\<exists>cs. ?I p' u' cs" by blast
  qed
  moreover have "stripPNGExif data = Some (Returns r)" using False r by (simp add: stripPNGExif_def)
  ultimately show thesis using kept stripped head unfolding stripped_png_def png_image_def by (metis append.assoc)
qed

section \<open>Properties\<close>

lemma strip_jpeg_image:
  assumes "\<forall>s\<in>set segs. segment_ok s" and "image_tail t"
  shows "stripJPEGExif (jpeg_image segs t) = Some (Returns (stripped_jpeg segs t))"
    and "jpegExifPayload (jpeg_image segs t) = Some (Returns (map_option (drop 10) (find exif_segment segs)))"
proof -
  let ?data = "jpeg_image segs t"
  have "\<not> (length ?data < 4 \<or> ?data ! 0 \<noteq> 0xFF \<or> ?data ! 1 \<noteq> 0xD8)" and two: "2 \<le> length ?data" "drop 2 ?data = concat segs @ t"
    using assms(2) by (simp_all add: jpeg_image_def image_tail_def)
  then have "stripJPEGExif ?data = walk jpeg_step ?data 2 [0xFF, 0xD8]" "jpegExifPayload ?data = walk payload_step ?data 2 ()"
    by (simp_all add: stripJPEGExif_def jpegExifPayload_def jpeg_image_def)
  then show "stripJPEGExif ?data = Some (Returns (stripped_jpeg segs t))"
    "jpegExifPayload ?data = Some (Returns (map_option (drop 10) (find exif_segment segs)))"
    using jpeg_walk [OF two assms] payload_walk [OF two assms] by (simp_all add: stripped_jpeg_def jpeg_image_def)
qed

lemma kept_tail_ok: "image_tail t \<Longrightarrow> image_tail (kept_tail t)" "kept_tail (kept_tail t) = kept_tail t" "length (kept_tail t) \<le> length t"
  by (auto simp: image_tail_def kept_tail_def)

lemma strip_jpeg_again:
  assumes "\<forall>s\<in>set segs. segment_ok s" and "image_tail t"
  shows "stripJPEGExif (stripped_jpeg segs t) = Some (Returns (stripped_jpeg segs t))"
    and "jpegExifPayload (stripped_jpeg segs t) = Some (Returns None)"
  using strip_jpeg_image [of "filter (\<lambda>s. \<not> exif_segment s) segs" "kept_tail t"] assms kept_tail_ok [of t]
  by (simp_all add: stripped_jpeg_def find_None_iff)

lemma strip_png_image:
  assumes "png_parts chunks rest"
  shows "stripPNGExif (png_image chunks rest) = Some (Returns (stripped_png chunks rest))"
proof -
  let ?data = "png_image chunks rest" and ?n = "length pngSignature"
  have "?n \<le> length ?data" "drop ?n ?data = concat chunks @ rest" "take ?n ?data = pngSignature" by (simp_all add: png_image_def)
  then show ?thesis using png_walk [where data = ?data and pos = ?n, OF _ _ assms] by (simp add: stripPNGExif_def stripped_png_def png_image_def)
qed

lemma png_parts_filter:
  "png_parts chunks rest \<Longrightarrow> png_parts (filter (\<lambda>c. chunk_type c \<noteq> type_eXIf) chunks) rest"
  by (induction chunks rest rule: png_parts.induct) (auto simp: type_eXIf_def type_IEND_def split: if_splits)

lemma strip_png_again:
  "png_parts chunks rest \<Longrightarrow> stripPNGExif (stripped_png chunks rest) = Some (Returns (stripped_png chunks rest))"
  using strip_png_image [OF png_parts_filter] by (simp add: stripped_png_def)

lemma length_concat_filter: "length (concat (filter p xs)) \<le> length (concat xs)"
  by (induction xs) auto

text \<open>C35: Stripping returns for every input of every content type, without a panic and without growing the file, and
  what it returned is a fixed point: stripping again changes nothing.\<close>

theorem strip_returns:
  "case StripImageMetadata data contentType of
     Some (Returns r) \<Rightarrow> StripImageMetadata r contentType = Some (Returns r) \<and> length r \<le> length data
   | _ \<Rightarrow> False"
proof -
  have "\<exists>r. stripJPEGExif data = Some (Returns r) \<and> stripJPEGExif r = Some (Returns r) \<and> length r \<le> length data"
  proof (cases data rule: strip_jpeg_cases)
    case (stripped segs t)
    then show ?thesis using strip_jpeg_again(1) kept_tail_ok(3) [of t] length_concat_filter [of "\<lambda>s. \<not> exif_segment s" segs]
      by (simp add: stripped_jpeg_def jpeg_image_def)
  qed simp
  moreover have "\<exists>r. stripPNGExif data = Some (Returns r) \<and> stripPNGExif r = Some (Returns r) \<and> length r \<le> length data"
  proof (cases data rule: strip_png_cases)
    case (stripped chunks rest)
    then show ?thesis using strip_png_again length_concat_filter [of "\<lambda>c. chunk_type c \<noteq> type_eXIf" chunks]
      by (simp add: stripped_png_def png_image_def)
  qed simp
  ultimately show ?thesis by (auto simp: StripImageMetadata_def)
qed

text \<open>C36: A JPEG made of segments followed by its end or its scan loses exactly its EXIF segments, the others stay byte
  for byte and in order, and the reader of the gallery then finds no EXIF data in it.\<close>

theorem jpeg_strip_exact:
  assumes "\<forall>s\<in>set segs. segment_ok s" and "image_tail t"
  shows "stripJPEGExif (jpeg_image segs t) = Some (Returns (jpeg_image (filter (\<lambda>s. \<not> exif_segment s) segs) (kept_tail t))) \<and>
    jpegExifPayload (jpeg_image (filter (\<lambda>s. \<not> exif_segment s) segs) (kept_tail t)) = Some (Returns None)"
  using strip_jpeg_image(1) [OF assms] strip_jpeg_again(2) [OF assms] by (simp add: stripped_jpeg_def)

definition sample_exif :: bytes where
  "sample_exif = [0xFF, 0xE1, 0, 10] @ jpegExifSignature @ [7, 7]"

theorem jpeg_strip_exact_witness:
  "stripJPEGExif ([0xFF, 0xD8] @ sample_exif @ [0xFF, 0xFE, 0, 3, 5, 0xFF, 0xDA, 1, 2]) =
     Some (Returns [0xFF, 0xD8, 0xFF, 0xFE, 0, 3, 5, 0xFF, 0xDA, 1, 2]) \<and>
   jpegExifPayload [0xFF, 0xD8, 0xFF, 0xFE, 0, 3, 5, 0xFF, 0xDA, 1, 2] = Some (Returns None)"
proof -
  let ?segs = "[sample_exif, [0xFF, 0xFE, 0, 3, 5]]" and ?t = "[0xFF, 0xDA, 1, 2]"
  have ok: "\<forall>s\<in>set ?segs. segment_ok s" "image_tail ?t"
    by (simp_all add: segment_ok_def image_tail_def standalone_def sample_exif_def jpegExifSignature_def)
  have "exif_segment sample_exif" "\<not> exif_segment [0xFF, 0xFE, 0, 3, 5]"
    by (simp_all add: exif_segment_def sample_exif_def jpegExifSignature_def)
  then show ?thesis using jpeg_strip_exact [OF ok] by (simp add: jpeg_image_def kept_tail_def)
qed

text \<open>A PNG loses exactly its \<^verbatim>\<open>eXIf\<close> chunks; every other chunk, and whatever follows the end chunk, stays byte for byte.\<close>

lemma png_strip_exact:
  assumes "png_parts chunks rest"
  shows "stripPNGExif (png_image chunks rest) = Some (Returns (png_image (filter (\<lambda>c. chunk_type c \<noteq> type_eXIf) chunks) rest))"
  using strip_png_image [OF assms] by (simp add: stripped_png_def)

lemma png_strip_sample:
  "stripPNGExif (pngSignature @ [0, 0, 0, 1] @ type_eXIf @ [9, 0, 0, 0, 0] @ [0, 0, 0, 0] @ type_IEND @ [0, 0, 0, 0, 8]) =
     Some (Returns (pngSignature @ [0, 0, 0, 0] @ type_IEND @ [0, 0, 0, 0, 8]))"
proof -
  let ?a = "[0, 0, 0, 1] @ type_eXIf @ [9, 0, 0, 0, 0]" and ?b = "[0, 0, 0, 0] @ type_IEND @ [0, 0, 0, 0]"
  have "png_parts [?a, ?b] [8]" by (simp add: chunk_ok_def chunk_type_def type_eXIf_def type_IEND_def)
  from png_strip_exact [OF this] show ?thesis
    by (simp add: png_image_def chunk_type_def type_eXIf_def type_IEND_def)
qed

end
