(* ===== verification/ImageMeta.thy ===== *)
theory ImageMeta imports ExifStrip begin

text \<open>
  The EXIF reader of the gallery (\<^verbatim>\<open>imaging/exif.go\<close>): the TIFF directories inside the payload that \<open>jpegExifPayload\<close>
  finds. Offsets and counts come from the file, so every slice is a partial read here; the callback of \<^verbatim>\<open>parseIFD\<close> is a
  function on the state it captures. Go's \<^verbatim>\<open>int\<close> has 64 bits on the platforms the
  server is built for; the largest size or offset here stays below \<open>2 ^ 36\<close>, so sums and products are exact. The two texts of the capture time are read up to the point where
  \<^verbatim>\<open>applyCaptureTime\<close> parses them.
\<close>

section \<open>Directories\<close>

definition u16 :: "bool \<Rightarrow> bytes \<Rightarrow> nat option" where
  "u16 little b = (if little then le16 b else be16 b)"

definition u32 :: "bool \<Rightarrow> bytes \<Rightarrow> nat option" where
  "u32 little b = (if little then le32 b else be32 b)"

definition typeSize :: "nat \<Rightarrow> nat" where
  "typeSize t = (if t \<in> {1, 2, 6, 7} then 1 else if t \<in> {3, 8} then 2 else if t \<in> {4, 9, 11} then 4
     else if t \<in> {5, 10, 12} then 8 else 0)"

type_synonym 's entry_action = "nat \<Rightarrow> nat \<Rightarrow> nat \<Rightarrow> bytes \<Rightarrow> 's \<Rightarrow> 's option"

text \<open>A directory with an entry whose data lies outside the file ends there, with what was read so far.\<close>

fun ifd_entries :: "bytes \<Rightarrow> bool \<Rightarrow> 's entry_action \<Rightarrow> nat \<Rightarrow> nat \<Rightarrow> 's \<Rightarrow> 's option" where
  "ifd_entries tiff little fn 0 pos s = Some s"
| "ifd_entries tiff little fn (Suc n) pos s =
     (if pos + 12 > length tiff then Some s
      else do {
        entry \<leftarrow> cut tiff pos (pos + 12);
        tagb \<leftarrow> cut entry 0 2; tg \<leftarrow> u16 little tagb;
        kindb \<leftarrow> cut entry 2 4; kind \<leftarrow> u16 little kindb;
        countb \<leftarrow> cut entry 4 8; cnt \<leftarrow> u32 little countb;
        let sz = typeSize kind * cnt in
        if sz \<le> 4 then do {
          val \<leftarrow> cut entry 8 (8 + sz);
          s' \<leftarrow> fn tg kind cnt val s;
          ifd_entries tiff little fn n (pos + 12) s' }
        else do {
          offb \<leftarrow> cut entry 8 12; off \<leftarrow> u32 little offb;
          if off + sz > length tiff then Some s
          else do {
            val \<leftarrow> cut tiff off (off + sz);
            s' \<leftarrow> fn tg kind cnt val s;
            ifd_entries tiff little fn n (pos + 12) s' }
        }
      })"

definition parseIFD :: "bytes \<Rightarrow> bool \<Rightarrow> nat \<Rightarrow> 's entry_action \<Rightarrow> 's \<Rightarrow> 's option" where
  "parseIFD tiff little offset fn s =
     (if offset + 2 > length tiff then Some s
      else do {
        nb \<leftarrow> cut tiff offset (offset + 2);
        n \<leftarrow> u16 little nb;
        ifd_entries tiff little fn n (offset + 2) s
      })"

section \<open>What is read\<close>

record image_metadata =
  im_orientation :: nat
  im_exif_ifd :: nat
  im_date :: bytes
  im_offset :: bytes

definition first_action :: "bool \<Rightarrow> image_metadata entry_action" where
  "first_action little tg kind cnt val m =
     (if tg = 0x0112 then
        (if kind = 3 \<and> cnt = 1 \<and> 2 \<le> length val
         then do {
           b \<leftarrow> cut val 0 2;
           v \<leftarrow> u16 little b;
           Some (m\<lparr>im_orientation := (if v < 1 \<or> v > 8 then 1 else v)\<rparr>) }
         else Some m)
      else if tg = 0x8769 then
        (if kind = 4 \<and> cnt = 1 \<and> 4 \<le> length val
         then do { b \<leftarrow> cut val 0 4; v \<leftarrow> u32 little b; Some (m\<lparr>im_exif_ifd := v\<rparr>) }
         else Some m)
      else Some m)"

definition trim_zeros :: "bytes \<Rightarrow> bytes" where
  "trim_zeros b = rev (dropWhile (\<lambda>x. x = 0) (rev b))"

definition second_action :: "image_metadata entry_action" where
  "second_action tg kind cnt val m =
     (if kind \<noteq> 2 \<or> cnt = 0 \<or> length val < cnt then Some m
      else do {
        b \<leftarrow> cut val 0 cnt;
        Some (if tg = 0x9003 then m\<lparr>im_date := trim_zeros b\<rparr>
              else if tg = 0x9011 then m\<lparr>im_offset := trim_zeros b\<rparr> else m) })"

definition no_metadata :: image_metadata where
  "no_metadata = \<lparr>im_orientation = 1, im_exif_ifd = 0, im_date = [], im_offset = []\<rparr>"

definition byte_order :: "bytes \<Rightarrow> bool option" where
  "byte_order b = (if b = [0x49, 0x49] then Some True else if b = [0x4D, 0x4D] then Some False else None)"

definition parseTIFF :: "bytes \<Rightarrow> image_metadata \<Rightarrow> image_metadata option" where
  "parseTIFF tiff meta =
     (if length tiff < 8 then Some meta
      else do {
        ob \<leftarrow> cut tiff 0 2;
        case byte_order ob of
          None \<Rightarrow> Some meta
        | Some little \<Rightarrow> do {
            mb \<leftarrow> cut tiff 2 4;
            magic \<leftarrow> u16 little mb;
            if magic \<noteq> 42 then Some meta
            else do {
              ib \<leftarrow> cut tiff 4 8;
              ifd0 \<leftarrow> u32 little ib;
              m \<leftarrow> parseIFD tiff little ifd0 (first_action little) meta;
              if im_exif_ifd m = 0 then Some m
              else parseIFD tiff little (im_exif_ifd m) second_action m
            }
          }
      })"

definition readMetadata :: "bytes \<Rightarrow> string \<Rightarrow> image_metadata run option" where
  "readMetadata data contentType =
     (if contentType \<noteq> ''image/jpeg'' then Some (Returns no_metadata)
      else case jpegExifPayload data of
        None \<Rightarrow> None
      | Some Panics \<Rightarrow> Some Panics
      | Some (Returns None) \<Rightarrow> Some (Returns no_metadata)
      | Some (Returns (Some tiff)) \<Rightarrow>
          (case parseTIFF tiff no_metadata of None \<Rightarrow> Some Panics | Some m \<Rightarrow> Some (Returns m)))"

section \<open>No read leaves the file\<close>

lemma u16_Some: "2 \<le> length b \<Longrightarrow> \<exists>v. u16 little b = Some v"
  by (simp add: u16_def le16_def be16_def)

lemma u32_Some: "4 \<le> length b \<Longrightarrow> \<exists>v. u32 little b = Some v"
  by (simp add: u32_def le32_def be32_def)

text \<open>An action that never panics and keeps a property of its state passes both on to the directory.\<close>

definition safe_action :: "('s \<Rightarrow> bool) \<Rightarrow> 's entry_action \<Rightarrow> bool" where
  "safe_action P fn \<longleftrightarrow> (\<forall>tg kind cnt val s. P s \<longrightarrow> (\<exists>s'. fn tg kind cnt val s = Some s' \<and> P s'))"

lemma ifd_entries_safe:
  assumes "safe_action P fn"
  shows "P s \<Longrightarrow> \<exists>s'. ifd_entries tiff little fn n pos s = Some s' \<and> P s'"
proof (induction n arbitrary: pos s)
  case (Suc n)
  show ?case
  proof (cases "pos + 12 > length tiff")
    case False
    then obtain entry where e: "cut tiff pos (pos + 12) = Some entry" "length entry = 12" by simp
    obtain tg kind where t: "u16 little (take 2 entry) = Some tg" "u16 little (take 2 (drop 2 entry)) = Some kind"
      using u16_Some [of "take 2 entry" little] u16_Some [of "take 2 (drop 2 entry)" little] e(2) by auto
    obtain cnt off where c: "u32 little (take 4 (drop 4 entry)) = Some cnt" "u32 little (take 4 (drop 8 entry)) = Some off"
      using u32_Some [of "take 4 (drop 4 entry)" little] u32_Some [of "take 4 (drop 8 entry)" little] e(2) by auto
    have go: "\<exists>s'. (fn tg kind cnt val s \<bind> ifd_entries tiff little fn n (pos + 12)) = Some s' \<and> P s'" for val
    proof -
      obtain s1 where "fn tg kind cnt val s = Some s1" "P s1" using assms Suc.prems unfolding safe_action_def by blast
      then show ?thesis using Suc.IH [of s1 "pos + 12"] by simp
    qed
    show ?thesis using False e t c go Suc.prems by (simp add: Let_def)
  qed (use Suc.prems in simp)
qed simp

lemma parseIFD_safe:
  assumes "safe_action P fn" and "P s"
  shows "\<exists>s'. parseIFD tiff little offset fn s = Some s' \<and> P s'"
proof (cases "offset + 2 > length tiff")
  case False
  obtain n where "u16 little (take 2 (drop offset tiff)) = Some n" using u16_Some [of "take 2 (drop offset tiff)" little] False by auto
  then show ?thesis using False ifd_entries_safe [OF assms] by (simp add: parseIFD_def)
qed (use assms(2) in \<open>simp add: parseIFD_def\<close>)

definition upright :: "image_metadata \<Rightarrow> bool" where
  "upright m \<longleftrightarrow> 1 \<le> im_orientation m \<and> im_orientation m \<le> 8"

lemma first_action_safe: "safe_action upright (first_action little)"
  unfolding safe_action_def
proof (intro allI impI)
  fix tg kind cnt val m assume "upright m"
  show "\<exists>m'. first_action little tg kind cnt val m = Some m' \<and> upright m'"
    using \<open>upright m\<close> u16_Some [of "take 2 val" little] u32_Some [of "take 4 val" little]
    by (auto simp: first_action_def upright_def)
qed

lemma second_action_safe: "safe_action upright second_action"
  by (auto simp: safe_action_def second_action_def upright_def)

lemma parseTIFF_safe: "upright m \<Longrightarrow> \<exists>m'. parseTIFF tiff m = Some m' \<and> upright m'"
proof (cases "length tiff < 8")
  case False
  assume m: "upright m"
  show ?thesis
  proof (cases "byte_order (take 2 tiff)")
    case None
    then show ?thesis using False m by (simp add: parseTIFF_def)
  next
    case (Some little)
    obtain magic where 1: "u16 little (take 2 (drop 2 tiff)) = Some magic"
      using u16_Some [of "take 2 (drop 2 tiff)" little] False by auto
    obtain ifd0 where 2: "u32 little (take 4 (drop 4 tiff)) = Some ifd0"
      using u32_Some [of "take 4 (drop 4 tiff)" little] False by auto
    obtain m1 where m1: "parseIFD tiff little ifd0 (first_action little) m = Some m1" "upright m1"
      using parseIFD_safe [OF first_action_safe m] by blast
    obtain m2 where m2: "parseIFD tiff little (im_exif_ifd m1) second_action m1 = Some m2" "upright m2"
      using parseIFD_safe [OF second_action_safe m1(2)] by blast
    show ?thesis using False Some m m1 m2 by (simp add: parseTIFF_def 1 2)
  qed
qed (simp add: parseTIFF_def)

text \<open>C37: Reading the metadata of an uploaded image returns for every sequence of bytes, without reading outside of it, and
  the orientation it reports is one of the eight there are.\<close>

theorem metadata_read_safe:
  "case readMetadata data contentType of Some (Returns m) \<Rightarrow> 1 \<le> im_orientation m \<and> im_orientation m \<le> 8 | _ \<Rightarrow> False"
proof -
  have n: "upright no_metadata" by (simp add: upright_def no_metadata_def)
  have p: "\<exists>x. jpegExifPayload data = Some (Returns x)"
    using payload.returns [of 2 data "()"] by (auto simp: jpegExifPayload_def)
  show ?thesis
  proof (cases "contentType = ''image/jpeg''")
    case False
    then show ?thesis using n by (simp add: readMetadata_def upright_def)
  next
    case True
    obtain x where x: "jpegExifPayload data = Some (Returns x)" using p by blast
    show ?thesis
    proof (cases x)
      case None
      then show ?thesis using True x n by (simp add: readMetadata_def upright_def)
    next
      case (Some tiff)
      then show ?thesis using True x parseTIFF_safe [OF n, of tiff] by (auto simp: readMetadata_def upright_def)
    qed
  qed
qed

end
