(* ===== verification/ContactSync.thy ===== *)
theory ContactSync imports Sharing begin

text \<open>
  Contacts pulled in from a CardDAV address book: the fetch with its fallbacks and the reconcile transaction of
  \<^verbatim>\<open>services/contact_sync_service.go\<close>, the conflicts of \<^verbatim>\<open>services/sync_conflict_service.go\<close>, and the health of a
  subscription (\<^verbatim>\<open>models/sync_health.go\<close>, \<^verbatim>\<open>services/integration_terminal.go\<close>). The CardDAV client, the vCard adapters,
  the text cleaner and the save hook are arguments.
\<close>

section \<open>Conflicts\<close>

text \<open>The text of an array field is its JSON array; the array itself stands for it, so equal texts are equal arrays.\<close>

datatype field_text = Plain string | Mails "contact_email list" | Phones "contact_phone list" | Places "contact_address list"
  | Links "contact_url list" | Handles "contact_impp list" | Names "string list"

type_synonym snapshot = "string \<Rightarrow> field_text"

definition syncConflictFieldKeys :: "string list" where
  "syncConflictFieldKeys = [''firstname'', ''lastname'', ''middlename'', ''prefix'', ''suffix'', ''nickname'', ''organization'',
     ''department'', ''job_title'', ''role'', ''email'', ''phone'', ''address'', ''url'', ''impp'', ''birthday'', ''anniversary'',
     ''circles'', ''how_we_met'', ''work_information'', ''contact_information'']"

definition syncConflictFieldSnapshot :: "contact \<Rightarrow> snapshot" where
  "syncConflictFieldSnapshot c = (\<lambda>_. Plain [])
     (''firstname'' := Plain (con_firstname c), ''lastname'' := Plain (con_lastname c), ''middlename'' := Plain (con_middle_name c),
      ''prefix'' := Plain (con_prefix c), ''suffix'' := Plain (con_suffix c), ''nickname'' := Plain (con_nickname c),
      ''organization'' := Plain (con_organization c), ''department'' := Plain (con_department c),
      ''job_title'' := Plain (con_job_title c), ''role'' := Plain (con_role c), ''birthday'' := Plain (con_birthday c),
      ''anniversary'' := Plain (con_anniversary c), ''how_we_met'' := Plain (con_how_we_met c),
      ''work_information'' := Plain (con_work_information c), ''contact_information'' := Plain (con_contact_information c),
      ''email'' := Mails (con_emails c), ''phone'' := Phones (con_phones c), ''address'' := Places (con_addresses c),
      ''url'' := Links (con_urls c), ''impp'' := Handles (con_impps c), ''circles'' := Names (con_circles c))"

record sync_conflict =
  sc_id :: nat
  sc_user :: nat
  sc_sub :: nat
  sc_contact :: nat
  sc_field :: string
  sc_local :: field_text
  sc_remote :: field_text
  sc_pending :: bool

definition diffSyncConflictFields :: "snapshot \<Rightarrow> snapshot option \<Rightarrow> snapshot \<Rightarrow> string list" where
  "diffSyncConflictFields local synced remote =
     (case synced of
        None \<Rightarrow> []
      | Some base \<Rightarrow> filter (\<lambda>k. local k \<noteq> base k \<and> local k \<noteq> remote k) syncConflictFieldKeys)"

text \<open>The field and the shape of the value decide; a value that is not the array the field needs is its JSON error.\<close>

definition restoreConflictFieldValue :: "contact \<Rightarrow> string \<Rightarrow> field_text \<Rightarrow> contact option" where
  "restoreConflictFieldValue c field v =
     (case v of
        Plain s \<Rightarrow>
          (if field = ''firstname'' then Some (c\<lparr>con_firstname := s\<rparr>)
           else if field = ''lastname'' then Some (c\<lparr>con_lastname := s\<rparr>)
           else if field = ''middlename'' then Some (c\<lparr>con_middle_name := s\<rparr>)
           else if field = ''prefix'' then Some (c\<lparr>con_prefix := s\<rparr>)
           else if field = ''suffix'' then Some (c\<lparr>con_suffix := s\<rparr>)
           else if field = ''nickname'' then Some (c\<lparr>con_nickname := s\<rparr>)
           else if field = ''organization'' then Some (c\<lparr>con_organization := s\<rparr>)
           else if field = ''department'' then Some (c\<lparr>con_department := s\<rparr>)
           else if field = ''job_title'' then Some (c\<lparr>con_job_title := s\<rparr>)
           else if field = ''role'' then Some (c\<lparr>con_role := s\<rparr>)
           else if field = ''birthday'' then Some (c\<lparr>con_birthday := s\<rparr>)
           else if field = ''anniversary'' then Some (c\<lparr>con_anniversary := s\<rparr>)
           else if field = ''how_we_met'' then Some (c\<lparr>con_how_we_met := s\<rparr>)
           else if field = ''work_information'' then Some (c\<lparr>con_work_information := s\<rparr>)
           else if field = ''contact_information'' then Some (c\<lparr>con_contact_information := s\<rparr>)
           else None)
      | Mails xs \<Rightarrow> if field = ''email'' then Some (c\<lparr>con_emails := xs\<rparr>) else None
      | Phones xs \<Rightarrow> if field = ''phone'' then Some (c\<lparr>con_phones := xs\<rparr>) else None
      | Places xs \<Rightarrow> if field = ''address'' then Some (c\<lparr>con_addresses := xs\<rparr>) else None
      | Links xs \<Rightarrow> if field = ''url'' then Some (c\<lparr>con_urls := xs\<rparr>) else None
      | Handles xs \<Rightarrow> if field = ''impp'' then Some (c\<lparr>con_impps := xs\<rparr>) else None
      | Names xs \<Rightarrow> if field = ''circles'' then Some (c\<lparr>con_circles := xs\<rparr>) else None)"

section \<open>Tables\<close>

text \<open>A link without a usable baseline has none: the column is empty or its text does not parse.\<close>

record sync_link =
  sl_id :: nat
  sl_sub :: nat
  sl_user :: nat
  sl_href :: string
  sl_contact :: nat
  sl_etag :: string
  sl_hash :: string
  sl_synced :: "snapshot option"

record stored_contact =
  st_row :: contact
  st_deleted :: bool

record sync_state =
  ss_contacts :: "stored_contact list"
  ss_links :: "sync_link list"
  ss_conflicts :: "sync_conflict list"
  ss_next :: nat

record sync_env =
  se_nfc :: "string \<Rightarrow> string"
  se_clean :: "string \<Rightarrow> string"
  se_save :: "contact \<Rightarrow> contact"
  se_uid :: "nat \<Rightarrow> string"
  se_encode :: "string \<Rightarrow> string option"
  se_import :: "string \<Rightarrow> contact_record option"
  se_hash :: "string \<Rightarrow> string"

definition live_contact :: "sync_state \<Rightarrow> nat \<Rightarrow> nat \<Rightarrow> contact option" where
  "live_contact st user i = map_option st_row
     (find (\<lambda>s. con_id (st_row s) = i \<and> con_user (st_row s) = user \<and> \<not> st_deleted s) (ss_contacts st))"

definition find_link :: "sync_state \<Rightarrow> nat \<Rightarrow> string \<Rightarrow> sync_link option" where
  "find_link st sub href = find (\<lambda>l. sl_sub l = sub \<and> sl_href l = href) (ss_links st)"

text \<open>The unique index on the user and the vCard UID of the live contacts.\<close>

definition uid_taken :: "sync_state \<Rightarrow> contact \<Rightarrow> bool" where
  "uid_taken st c \<longleftrightarrow> list_ex (\<lambda>s. \<not> st_deleted s \<and> con_user (st_row s) = con_user c \<and>
     con_vcard_uid (st_row s) = con_vcard_uid c \<and> con_id (st_row s) \<noteq> con_id c) (ss_contacts st)"

text \<open>\<open>Create\<close> and \<open>Save\<close> with the hook; the key columns are not the hook's. A violated index is an error.\<close>

definition create_contact :: "sync_env \<Rightarrow> sync_state \<Rightarrow> contact \<Rightarrow> (sync_state \<times> contact) option" where
  "create_contact env st c =
     (let c1 = se_save env c;
          c2 = c1\<lparr>con_id := ss_next st, con_user := con_user c,
                  con_vcard_uid := (if con_vcard_uid c1 = [] then se_uid env (ss_next st) else con_vcard_uid c1)\<rparr>
      in if uid_taken st c2 then None
         else Some (st\<lparr>ss_contacts := ss_contacts st @ [\<lparr>st_row = c2, st_deleted = False\<rparr>], ss_next := Suc (ss_next st)\<rparr>, c2))"

definition put_row :: "contact \<Rightarrow> sync_state \<Rightarrow> sync_state" where
  "put_row c st = st\<lparr>ss_contacts := map (\<lambda>s. if con_id (st_row s) = con_id c then s\<lparr>st_row := c\<rparr> else s) (ss_contacts st)\<rparr>"

definition save_contact :: "sync_env \<Rightarrow> sync_state \<Rightarrow> contact \<Rightarrow> sync_state option" where
  "save_contact env st c =
     (let c' = (se_save env c)\<lparr>con_id := con_id c, con_user := con_user c\<rparr>
      in if uid_taken st c' then None else Some (put_row c' st))"

section \<open>One card\<close>

record remote_object =
  ro_path :: string
  ro_etag :: string
  ro_card :: string

record sync_stats =
  cs_created :: nat
  cs_updated :: nat
  cs_archived :: nat
  cs_skipped :: nat

definition no_stats :: sync_stats where
  "no_stats = \<lparr>cs_created = 0, cs_updated = 0, cs_archived = 0, cs_skipped = 0\<rparr>"

definition SanitizeImportedContact :: "(string \<Rightarrow> string) \<Rightarrow> contact \<Rightarrow> contact" where
  "SanitizeImportedContact clean c =
     (let cd = con_card c;
          name = map_option (\<lambda>n. n\<lparr>nm_full := clean (nm_full n),
            nm_components := map (\<lambda>p. p\<lparr>nc_value := clean (nc_value p)\<rparr>) (nm_components n)\<rparr>) (cd_name cd)
      in c\<lparr>con_firstname := clean (con_firstname c), con_lastname := clean (con_lastname c), con_nickname := clean (con_nickname c),
           con_gender := clean (con_gender c), con_address := clean (con_address c), con_how_we_met := clean (con_how_we_met c),
           con_work_information := clean (con_work_information c), con_contact_information := clean (con_contact_information c),
           con_card := cd\<lparr>cd_name := name\<rparr>\<rparr>)"

definition apply_import :: "sync_env \<Rightarrow> contact \<Rightarrow> contact_record \<Rightarrow> contact" where
  "apply_import env c r =
     SanitizeImportedContact (se_clean env) (case ApplyRecordToContact (se_nfc env) (Some c) (Some r) of Some c' \<Rightarrow> c' | None \<Rightarrow> c)"

text \<open>What the remote never had is carried over before the record replaces the contact.\<close>

definition known_meta :: "contact \<Rightarrow> (string \<times> personal_info_meta) list" where
  "known_meta c = List.map_filter (\<lambda>p. map_option (Pair (pi_id p)) (meta_lookup (ev_personal_info_meta (con_crm c)) (pi_id p)))
     (cd_personal_info (con_card c))"

definition carry_local :: "contact \<Rightarrow> contact_record \<Rightarrow> contact_record" where
  "carry_local c r =
     (let cd = rc_card r;
          places = CarryForwardAddressSensitivity (cd_addresses (con_card c)) (cd_addresses cd);
          (infos, metas) = MergePersonalInfoFromRemote (cd_personal_info (con_card c)) (known_meta c) (cd_personal_info cd);
          r = r\<lparr>rc_card := cd\<lparr>cd_addresses := places, cd_personal_info := infos\<rparr>,
                rc_envelope := (rc_envelope r)\<lparr>ev_personal_info_meta := (if metas = [] then None else Some (map_of metas))\<rparr>\<rparr>
      in case PreserveLocalOnlyCRMFields (Some c) (Some r) of Some r' \<Rightarrow> r' | None \<Rightarrow> r)"

definition merge_incoming :: "sync_env \<Rightarrow> contact \<Rightarrow> contact_record \<Rightarrow> contact" where
  "merge_incoming env c r = apply_import env c (carry_local c r)"

definition recordSyncConflicts :: "nat \<Rightarrow> nat \<Rightarrow> contact \<Rightarrow> snapshot option \<Rightarrow> snapshot \<Rightarrow> snapshot \<Rightarrow> sync_state \<Rightarrow> sync_state" where
  "recordSyncConflicts sub user c base local remote st =
     (let keys = diffSyncConflictFields local base remote
      in st\<lparr>ss_conflicts := ss_conflicts st @ map (\<lambda>(i, k). \<lparr>sc_id = i, sc_user = user, sc_sub = sub, sc_contact = con_id c,
           sc_field = k, sc_local = local k, sc_remote = remote k, sc_pending = True\<rparr>) (zip [ss_next st..<ss_next st + length keys] keys),
           ss_next := ss_next st + length keys\<rparr>)"

definition new_contact :: "nat \<Rightarrow> contact" where
  "new_contact user = \<lparr>con_id = 0, con_user = user, con_firstname = [], con_lastname = [], con_nickname = [],
     con_gender = [], con_email = [], con_phone = [], con_birthday = [], con_photo = [],
     con_photo_thumbnail = [], con_address = [], con_how_we_met = [], con_work_information = [],
     con_contact_information = [], con_circles = [], con_emails = [], con_phones = [],
     con_addresses = [], con_urls = [], con_impps = [], con_prefix = [], con_middle_name = [],
     con_suffix = [], con_organization = [], con_department = [], con_job_title = [], con_role = [],
     con_anniversary = [], con_vcard_uid = [], con_vcard_extra = [], con_etag = [],
     con_revision = 0, con_archived = False, con_is_favorite = False, con_ambient = False,
     con_target_closeness = None, con_card = empty_card, con_crm = empty_envelope,
     con_passthrough = empty_passthrough, con_fn = [], con_org = [], con_addresses_flat = [],
     con_phones_normalized = [], con_sort_name = [], con_card_set_directly = False\<rparr>"

definition put_link :: "sync_link \<Rightarrow> sync_state \<Rightarrow> sync_state" where
  "put_link l st = st\<lparr>ss_links := map (\<lambda>x. if sl_id x = sl_id l then l else x) (ss_links st)\<rparr>"

definition sync_new :: "sync_env \<Rightarrow> nat \<Rightarrow> nat \<Rightarrow> remote_object \<Rightarrow> string \<Rightarrow> contact_record \<Rightarrow> sync_state \<Rightarrow> sync_state option" where
  "sync_new env sub user obj raw r st =
     (let c = apply_import env (new_contact user) r
      in case create_contact env st c of
           None \<Rightarrow> None
         | Some (st', c') \<Rightarrow>
             Some (st'\<lparr>ss_links := ss_links st' @ [\<lparr>sl_id = ss_next st', sl_sub = sub, sl_user = user, sl_href = ro_path obj,
                       sl_contact = con_id c', sl_etag = ro_etag obj, sl_hash = se_hash env raw,
                       sl_synced = Some (syncConflictFieldSnapshot c)\<rparr>], ss_next := Suc (ss_next st')\<rparr>))"

definition sync_known :: "sync_env \<Rightarrow> nat \<Rightarrow> nat \<Rightarrow> (nat \<Rightarrow> snapshot option) \<Rightarrow> remote_object \<Rightarrow> string \<Rightarrow> contact_record \<Rightarrow>
  sync_link \<Rightarrow> contact \<Rightarrow> sync_state \<Rightarrow> sync_state option" where
  "sync_known env sub user pre obj raw r l c st =
     (let local = syncConflictFieldSnapshot c;
          c' = merge_incoming env c r;
          remote = syncConflictFieldSnapshot c';
          base = (case sl_synced l of None \<Rightarrow> pre (sl_contact l) | Some b \<Rightarrow> Some b);
          st1 = recordSyncConflicts sub user c base local remote st
      in case save_contact env st1 c' of
           None \<Rightarrow> None
         | Some st2 \<Rightarrow> Some (put_link (l\<lparr>sl_etag := ro_etag obj, sl_hash := se_hash env raw, sl_synced := Some remote\<rparr>) st2))"

definition sync_object :: "sync_env \<Rightarrow> nat \<Rightarrow> nat \<Rightarrow> (nat \<Rightarrow> snapshot option) \<Rightarrow> remote_object \<Rightarrow> sync_state \<times> sync_stats \<Rightarrow>
  (sync_state \<times> sync_stats) option" where
  "sync_object env sub user pre obj = (\<lambda>(st, n).
     (case se_encode env (ro_card obj) of
        None \<Rightarrow> Some (st, n\<lparr>cs_skipped := Suc (cs_skipped n)\<rparr>)
      | Some raw \<Rightarrow>
     (case se_import env raw of
        None \<Rightarrow> Some (st, n\<lparr>cs_skipped := Suc (cs_skipped n)\<rparr>)
      | Some r \<Rightarrow>
     (case find_link st sub (ro_path obj) of
        None \<Rightarrow> map_option (\<lambda>st'. (st', n\<lparr>cs_created := Suc (cs_created n)\<rparr>)) (sync_new env sub user obj raw r st)
      | Some l \<Rightarrow>
          if sl_hash l = se_hash env raw then Some (st, n\<lparr>cs_skipped := Suc (cs_skipped n)\<rparr>)
          else (case live_contact st user (sl_contact l) of
                  None \<Rightarrow> Some (st, n\<lparr>cs_skipped := Suc (cs_skipped n)\<rparr>)
                | Some c \<Rightarrow> map_option (\<lambda>st'. (st', n\<lparr>cs_updated := Suc (cs_updated n)\<rparr>))
                    (sync_known env sub user pre obj raw r l c st))))))"

section \<open>One run\<close>

definition drop_link :: "sync_link \<Rightarrow> sync_state \<Rightarrow> sync_state" where
  "drop_link l st = st\<lparr>ss_links := filter (\<lambda>x. sl_id x \<noteq> sl_id l) (ss_links st)\<rparr>"

definition sync_removed :: "nat \<Rightarrow> nat \<Rightarrow> string \<Rightarrow> sync_state \<times> sync_stats \<Rightarrow> sync_state \<times> sync_stats" where
  "sync_removed sub user path = (\<lambda>(st, n).
     (case find_link st sub path of
        None \<Rightarrow> (st, n)
      | Some l \<Rightarrow>
          (case live_contact st user (sl_contact l) of
             None \<Rightarrow> (drop_link l st, n)
           | Some c \<Rightarrow> (drop_link l (put_row (c\<lparr>con_archived := True\<rparr>) st), n\<lparr>cs_archived := Suc (cs_archived n)\<rparr>))))"

fun sync_objects :: "sync_env \<Rightarrow> nat \<Rightarrow> nat \<Rightarrow> (nat \<Rightarrow> snapshot option) \<Rightarrow> remote_object list \<Rightarrow> sync_state \<times> sync_stats \<Rightarrow>
  (sync_state \<times> sync_stats) option" where
  "sync_objects env sub user pre [] s = Some s"
| "sync_objects env sub user pre (obj # objs) s =
     (case sync_object env sub user pre obj s of None \<Rightarrow> None | Some s' \<Rightarrow> sync_objects env sub user pre objs s')"

definition gone_paths :: "nat \<Rightarrow> remote_object list \<Rightarrow> string list \<Rightarrow> bool \<Rightarrow> sync_state \<Rightarrow> string list" where
  "gone_paths sub updated deleted full st = deleted @
     (if full then map sl_href (filter (\<lambda>l. sl_sub l = sub \<and> sl_href l \<notin> set (map ro_path updated)) (ss_links st)) else [])"

text \<open>The transaction: no value is a rollback.\<close>

definition reconcileContactSyncWithBaselines :: "sync_env \<Rightarrow> nat \<Rightarrow> nat \<Rightarrow> (nat \<Rightarrow> snapshot option) \<Rightarrow> remote_object list \<Rightarrow>
  string list \<Rightarrow> bool \<Rightarrow> sync_state \<Rightarrow> (sync_state \<times> sync_stats) option" where
  "reconcileContactSyncWithBaselines env sub user pre updated deleted full st =
     (case sync_objects env sub user pre updated (st, no_stats) of
        None \<Rightarrow> None
      | Some (st1, n) \<Rightarrow> Some (fold (sync_removed sub user) (gone_paths sub updated deleted full st1) (st1, n)))"

definition capturePreSyncBaselines :: "nat \<Rightarrow> nat \<Rightarrow> sync_state \<Rightarrow> nat \<Rightarrow> snapshot option" where
  "capturePreSyncBaselines sub user st i =
     (if list_ex (\<lambda>l. sl_sub l = sub \<and> sl_contact l = i \<and> sl_synced l = None) (ss_links st)
      then map_option syncConflictFieldSnapshot (live_contact st user i) else None)"

section \<open>Fetching\<close>

datatype sync_error = InvalidURL | Unauthorized | NotFound | Unreachable | TooLarge | PrivateAddress | OtherError

text \<open>The transport turns a status into an error before the client sees the answer.\<close>

definition status_error :: "nat \<Rightarrow> sync_error option" where
  "status_error code =
     (if code = 401 \<or> code = 403 then Some Unauthorized else if code = 404 \<or> code = 410 then Some NotFound else None)"

definition isContactSyncSentinel :: "sync_error \<Rightarrow> bool" where
  "isContactSyncSentinel e \<longleftrightarrow> e \<in> {Unauthorized, NotFound, TooLarge, PrivateAddress}"

definition classifyContactSyncError :: "sync_error \<Rightarrow> sync_error" where
  "classifyContactSyncError e = (if isContactSyncSentinel e then e else Unreachable)"

record change_report =
  cr_updated :: "string list"
  cr_deleted :: "string list"
  cr_token :: string

record dav_client =
  dc_report :: "string \<Rightarrow> sync_error + change_report"
  dc_query :: "sync_error + remote_object list"
  dc_multiget :: "string list \<Rightarrow> sync_error + remote_object list"

record fetched =
  ft_updated :: "remote_object list"
  ft_deleted :: "string list"
  ft_token :: string
  ft_full :: bool

definition full_refetch :: "dav_client \<Rightarrow> string \<Rightarrow> sync_error + fetched" where
  "full_refetch dc token =
     (case dc_query dc of
        Inl e \<Rightarrow> Inl (classifyContactSyncError e)
      | Inr objs \<Rightarrow> Inr \<lparr>ft_updated = objs, ft_deleted = [], ft_token = token, ft_full = True\<rparr>)"

definition fetchChanges :: "dav_client \<Rightarrow> string \<Rightarrow> sync_error + fetched" where
  "fetchChanges dc token =
     (case dc_report dc token of
        Inr resp \<Rightarrow>
          if cr_token resp = [] then full_refetch dc token
          else if cr_updated resp = [] then
            Inr \<lparr>ft_updated = [], ft_deleted = cr_deleted resp, ft_token = cr_token resp, ft_full = False\<rparr>
          else (case dc_multiget dc (cr_updated resp) of
                  Inl e \<Rightarrow> Inl (classifyContactSyncError e)
                | Inr objs \<Rightarrow> Inr \<lparr>ft_updated = objs, ft_deleted = cr_deleted resp, ft_token = cr_token resp, ft_full = False\<rparr>)
      | Inl e \<Rightarrow> if isContactSyncSentinel e then Inl e else full_refetch dc [])"

section \<open>Subscription health\<close>

record sync_health =
  sh_attempt :: "int option"
  sh_success :: "int option"
  sh_failure :: "int option"
  sh_failures :: nat
  sh_incident :: "int option"
  sh_duration :: "int option"
  sh_stats :: "sync_stats option"
  sh_terminal :: "int option"
  sh_reason :: string

definition classifySyncFailure :: "sync_error option \<Rightarrow> string" where
  "classifySyncFailure e =
     (case e of
        Some Unauthorized \<Rightarrow> ''auth-expiry''
      | Some NotFound \<Rightarrow> ''remote-resource-deleted''
      | _ \<Rightarrow> [])"

definition AdvanceForRun :: "int \<Rightarrow> int \<Rightarrow> sync_stats \<Rightarrow> sync_error option \<Rightarrow> string \<Rightarrow> sync_health \<Rightarrow> sync_health" where
  "AdvanceForRun now dur stats err reason h0 =
     (let h = h0\<lparr>sh_attempt := Some now, sh_duration := Some dur, sh_stats := Some stats\<rparr>
      in case err of
           Some e \<Rightarrow>
             (let h = h\<lparr>sh_failure := Some now, sh_failures := Suc (sh_failures h),
                        sh_incident := (case sh_incident h of None \<Rightarrow> Some now | Some t \<Rightarrow> Some t)\<rparr>
              in if reason = [] then h
                 else h\<lparr>sh_terminal := (case sh_terminal h of None \<Rightarrow> Some now | Some t \<Rightarrow> Some t), sh_reason := reason\<rparr>)
         | None \<Rightarrow> h\<lparr>sh_success := Some now, sh_failures := 0, sh_incident := None, sh_terminal := None, sh_reason := []\<rparr>)"

definition ClearTerminalState :: "sync_health \<Rightarrow> sync_health" where
  "ClearTerminalState h = h\<lparr>sh_terminal := None, sh_reason := []\<rparr>"

record subscription =
  sb_id :: nat
  sb_user :: nat
  sb_name :: string
  sb_url :: string
  sb_username :: string
  sb_password :: string
  sb_enabled :: bool
  sb_token :: string
  sb_synced_at :: "int option"
  sb_status :: string
  sb_error :: "sync_error option"
  sb_health :: sync_health

text \<open>
  A run under the lock of its subscription. The client is an error when the address does not parse or the stored
  credential does not decrypt. The tables may change while the fetch is on its way, so the state at the capture and the
  state at the reconcile are two arguments. The last error stands for its redacted and clipped text.
\<close>

definition syncSubscription :: "sync_env \<Rightarrow> (sync_error + dav_client) \<Rightarrow> sync_state \<Rightarrow> sync_state \<Rightarrow> subscription \<Rightarrow>
  sync_error + (sync_state \<times> sync_stats \<times> string)" where
  "syncSubscription env client before_fetch st sb =
     (case client of
        Inl e \<Rightarrow> Inl e
      | Inr dc \<Rightarrow>
          (let pre = capturePreSyncBaselines (sb_id sb) (sb_user sb) before_fetch
           in case fetchChanges dc (sb_token sb) of
                Inl e \<Rightarrow> Inl e
              | Inr f \<Rightarrow>
                  (case reconcileContactSyncWithBaselines env (sb_id sb) (sb_user sb) pre (ft_updated f) (ft_deleted f) (ft_full f) st of
                     None \<Rightarrow> Inl OtherError
                   | Some (st', n) \<Rightarrow> Inr (st', n, ft_token f))))"

definition SyncSubscription :: "sync_env \<Rightarrow> (sync_error + dav_client) \<Rightarrow> int \<Rightarrow> int \<Rightarrow> sync_state \<Rightarrow> sync_state \<Rightarrow> subscription \<Rightarrow>
  subscription \<times> sync_state \<times> (sync_error + sync_stats)" where
  "SyncSubscription env client now dur before_fetch st sb =
     (case syncSubscription env client before_fetch st sb of
        Inl e \<Rightarrow>
          (sb\<lparr>sb_synced_at := Some now, sb_status := ''error'', sb_error := Some e,
              sb_health := AdvanceForRun now dur no_stats (Some e) (classifySyncFailure (Some e)) (sb_health sb)\<rparr>, st, Inl e)
      | Inr (st', n, token) \<Rightarrow>
          (sb\<lparr>sb_synced_at := Some now, sb_status := ''success'', sb_error := None, sb_token := token,
              sb_health := AdvanceForRun now dur n None (classifySyncFailure None) (sb_health sb)\<rparr>, st', Inr n))"

text \<open>
  Editing a subscription drops the token only when the address changes. Encryption of a new password may fail, and then
  nothing is saved.
\<close>

record subscription_input =
  in_name :: string
  in_url :: string
  in_username :: string
  in_password :: string
  in_clear :: bool
  in_enabled :: "bool option"

definition UpdateContactSubscription :: "(string \<Rightarrow> string option) \<Rightarrow> subscription_input \<Rightarrow> subscription \<Rightarrow> subscription option" where
  "UpdateContactSubscription encrypt i sb =
     (let edited = sb\<lparr>sb_token := (if sb_url sb \<noteq> in_url i then [] else sb_token sb), sb_name := in_name i, sb_url := in_url i,
            sb_username := in_username i, sb_enabled := (case in_enabled i of None \<Rightarrow> sb_enabled sb | Some b \<Rightarrow> b)\<rparr>;
          secret = (if in_clear i then Some [] else if in_password i = [] then Some (sb_password sb) else encrypt (in_password i))
      in map_option (\<lambda>s. edited\<lparr>sb_password := s, sb_health := ClearTerminalState (sb_health edited)\<rparr>) secret)"

section \<open>Acting on a conflict\<close>

datatype conflict_error = UnknownConflict | AlreadyResolved | ContactGone | RestoreFailed

definition put_conflict :: "sync_conflict \<Rightarrow> sync_state \<Rightarrow> sync_state" where
  "put_conflict x st = st\<lparr>ss_conflicts := map (\<lambda>y. if sc_id y = sc_id x then x else y) (ss_conflicts st)\<rparr>"

definition RestoreContactSyncConflict :: "sync_env \<Rightarrow> nat \<Rightarrow> nat \<Rightarrow> sync_state \<Rightarrow> conflict_error + sync_state" where
  "RestoreContactSyncConflict env user key st =
     (case find (\<lambda>x. sc_id x = key \<and> sc_user x = user) (ss_conflicts st) of
        None \<Rightarrow> Inl UnknownConflict
      | Some x \<Rightarrow>
          if \<not> sc_pending x then Inl AlreadyResolved
          else (case live_contact st user (sc_contact x) of
                  None \<Rightarrow> Inl ContactGone
                | Some c \<Rightarrow>
                    (case restoreConflictFieldValue c (sc_field x) (sc_local x) of
                       None \<Rightarrow> Inl RestoreFailed
                     | Some c' \<Rightarrow>
                         (case save_contact env st c' of
                            None \<Rightarrow> Inl RestoreFailed
                          | Some st' \<Rightarrow> Inr (put_conflict (x\<lparr>sc_pending := False\<rparr>) st')))))"

definition DismissContactSyncConflict :: "nat \<Rightarrow> nat \<Rightarrow> sync_state \<Rightarrow> conflict_error + sync_state" where
  "DismissContactSyncConflict user key st =
     (case find (\<lambda>x. sc_id x = key \<and> sc_user x = user) (ss_conflicts st) of
        None \<Rightarrow> Inl UnknownConflict
      | Some x \<Rightarrow> if \<not> sc_pending x then Inr st else Inr (put_conflict (x\<lparr>sc_pending := False\<rparr>) st))"

end
