(* ===== verification/ContactSyncRules.thy ===== *)
theory ContactSyncRules imports ContactSync begin

text \<open>
  What a contact subscription keeps: which remote cards are linked after a run, that overwritten edits come back, that a
  repeated answer changes nothing, and what its health record counts.
\<close>

section \<open>Links\<close>

definition hrefs :: "nat \<Rightarrow> sync_state \<Rightarrow> string set" where
  "hrefs sub st = sl_href ` {l \<in> set (ss_links st). sl_sub l = sub}"

definition link_key :: "sync_link \<Rightarrow> nat \<times> string" where
  "link_key l = (sl_sub l, sl_href l)"

text \<open>What a run never changes of a link.\<close>

definition link_core :: "sync_link \<Rightarrow> nat \<times> (nat \<times> string) \<times> nat" where
  "link_core l = (sl_id l, link_key l, sl_contact l)"

definition links_ok :: "sync_state \<Rightarrow> bool" where
  "links_ok st \<longleftrightarrow> distinct (map sl_id (ss_links st)) \<and> distinct (map link_key (ss_links st)) \<and>
     list_all (\<lambda>l. sl_id l < ss_next st \<and> sl_contact l < ss_next st) (ss_links st)"

lemma find_link_Some: "find_link st sub href = Some l \<Longrightarrow> l \<in> set (ss_links st) \<and> sl_sub l = sub \<and> sl_href l = href"
  by (auto simp: find_link_def find_Some_iff)

lemma find_link_None: "find_link st sub href = None \<longleftrightarrow> href \<notin> hrefs sub st"
  by (auto simp: find_link_def find_None_iff hrefs_def)

lemma hrefs_key: "hrefs sub st = {h. (sub, h) \<in> link_key ` set (ss_links st)}"
  by (auto simp: hrefs_def link_key_def image_iff)

text \<open>A link is the only one of its subscription and address, so any that matches is the one found.\<close>

lemma find_link_eqI:
  assumes "links_ok st" and "l \<in> set (ss_links st)" and "sl_sub l = sub" and "sl_href l = href"
  shows "find_link st sub href = Some l"
proof (cases "find_link st sub href")
  case None
  then show ?thesis using assms(2-4) by (auto simp: find_link_None hrefs_def)
next
  case (Some l')
  then have "l' \<in> set (ss_links st)" "link_key l' = link_key l" using find_link_Some [OF Some] assms(3,4) by (auto simp: link_key_def)
  then have "l' = l" using assms(1,2) by (auto simp: links_ok_def distinct_map inj_on_def)
  then show ?thesis using Some by simp
qed

lemma put_link_core:
  assumes "links_ok st" and "l \<in> set (ss_links st)" and "link_core l' = link_core l"
  shows "map link_core (ss_links (put_link l' st)) = map link_core (ss_links st)"
proof -
  have "x = l" if "x \<in> set (ss_links st)" "sl_id x = sl_id l" for x
    using assms(1,2) that by (auto simp: links_ok_def distinct_map inj_on_def)
  then show ?thesis using assms(3) by (auto simp: put_link_def link_core_def)
qed

lemma core_maps:
  assumes "map link_core xs = map link_core ys"
  shows "map sl_id xs = map sl_id ys" "map link_key xs = map link_key ys" "map sl_contact xs = map sl_contact ys"
proof -
  have "sl_id = fst \<circ> link_core" "link_key = fst \<circ> snd \<circ> link_core" "sl_contact = snd \<circ> snd \<circ> link_core"
    by (auto simp: link_core_def)
  then show "map sl_id xs = map sl_id ys" "map link_key xs = map link_key ys" "map sl_contact xs = map sl_contact ys"
    using assms by (metis map_map)+
qed

lemma links_ok_alt: "links_ok st \<longleftrightarrow> distinct (map sl_id (ss_links st)) \<and> distinct (map link_key (ss_links st)) \<and>
    (\<forall>i\<in>set (map sl_id (ss_links st)) \<union> set (map sl_contact (ss_links st)). i < ss_next st)"
  by (auto simp: links_ok_def list_all_iff)

lemma links_ok_core:
  assumes "links_ok st" and "map link_core (ss_links st') = map link_core (ss_links st)" and "ss_next st \<le> ss_next st'"
  shows "links_ok st'" "hrefs sub st' = hrefs sub st"
proof -
  note m = core_maps [OF assms(2)]
  show "links_ok st'" using assms(1,3) unfolding links_ok_alt m by (meson order_less_le_trans)
  have "link_key ` set (ss_links st') = link_key ` set (ss_links st)" using m(2) by (metis list.set_map)
  then show "hrefs sub st' = hrefs sub st" by (simp add: hrefs_key)
qed

lemma conflicts_links [simp]: "ss_links (recordSyncConflicts sub user c base local remote st) = ss_links st"
  "ss_contacts (recordSyncConflicts sub user c base local remote st) = ss_contacts st"
  "ss_next st \<le> ss_next (recordSyncConflicts sub user c base local remote st)"
  by (simp_all add: recordSyncConflicts_def Let_def)

lemma save_contact_links: "save_contact env st c = Some st' \<Longrightarrow> ss_links st' = ss_links st \<and> ss_next st' = ss_next st \<and> ss_conflicts st' = ss_conflicts st"
  by (auto simp: save_contact_def put_row_def Let_def split: if_splits)

lemma create_contact_links:
  "create_contact env st c = Some (st', c') \<Longrightarrow> ss_links st' = ss_links st \<and> ss_next st' = Suc (ss_next st) \<and>
     ss_conflicts st' = ss_conflicts st \<and> con_id c' = ss_next st \<and> ss_contacts st' = ss_contacts st @ [\<lparr>st_row = c', st_deleted = False\<rparr>]"
  by (auto simp: create_contact_def Let_def split: if_splits)

lemma sync_new_links:
  assumes "sync_new env sub user obj raw r st = Some st'"
  obtains l c where "ss_links st' = ss_links st @ [l]" "link_core l = (Suc (ss_next st), (sub, ro_path obj), ss_next st)"
    "ss_next st' = Suc (Suc (ss_next st))" "sl_hash l = se_hash env raw" "ss_conflicts st' = ss_conflicts st"
    "con_id c = ss_next st" "ss_contacts st' = ss_contacts st @ [\<lparr>st_row = c, st_deleted = False\<rparr>]"
proof -
  obtain st1 c1 where c: "create_contact env st (apply_import env (new_contact user) r) = Some (st1, c1)"
    using assms by (auto simp: sync_new_def Let_def split: option.splits)
  note l = create_contact_links [OF c]
  let ?l = "\<lparr>sl_id = ss_next st1, sl_sub = sub, sl_user = user, sl_href = ro_path obj, sl_contact = con_id c1,
    sl_etag = ro_etag obj, sl_hash = se_hash env raw, sl_synced = Some (syncConflictFieldSnapshot (apply_import env (new_contact user) r))\<rparr>"
  have "st' = st1\<lparr>ss_links := ss_links st1 @ [?l], ss_next := Suc (ss_next st1)\<rparr>" using assms c by (simp add: sync_new_def)
  with l show thesis by (intro that [of ?l c1]) (simp_all add: link_core_def link_key_def)
qed

lemma sync_new_ok:
  assumes "sync_new env sub user obj raw r st = Some st'" and "links_ok st" and "ro_path obj \<notin> hrefs sub st"
  shows "links_ok st'" "hrefs s st' = hrefs s st \<union> (if s = sub then {ro_path obj} else {})"
proof -
  obtain l where l: "ss_links st' = ss_links st @ [l]" "sl_id l = Suc (ss_next st)" "link_key l = (sub, ro_path obj)"
    "sl_contact l = ss_next st" "ss_next st' = Suc (Suc (ss_next st))"
    using sync_new_links [OF assms(1)] unfolding link_core_def by (metis prod.inject)
  have "sl_id l \<notin> sl_id ` set (ss_links st)" using assms(2) l(2) by (auto simp: links_ok_def list_all_iff)
  moreover have "link_key l \<notin> link_key ` set (ss_links st)" using assms(3) l(3) by (auto simp: hrefs_key)
  ultimately show "links_ok st'" using assms(2) l by (auto simp: links_ok_def list_all_iff less_Suc_eq)
  show "hrefs s st' = hrefs s st \<union> (if s = sub then {ro_path obj} else {})" using l(1,3) by (auto simp: hrefs_key)
qed

text \<open>The update of a known card, opened once.\<close>

definition known_base :: "(nat \<Rightarrow> snapshot option) \<Rightarrow> sync_link \<Rightarrow> snapshot option" where
  "known_base pre l = (case sl_synced l of None \<Rightarrow> pre (sl_contact l) | Some b \<Rightarrow> Some b)"

lemma sync_known_iff: "sync_known env sub user pre obj raw r l c st = Some st' \<longleftrightarrow>
   (\<exists>st2. save_contact env (recordSyncConflicts sub user c (known_base pre l)
        (syncConflictFieldSnapshot c) (syncConflictFieldSnapshot (merge_incoming env c r)) st) (merge_incoming env c r) = Some st2 \<and>
      st' = put_link (l\<lparr>sl_etag := ro_etag obj, sl_hash := se_hash env raw,
                        sl_synced := Some (syncConflictFieldSnapshot (merge_incoming env c r))\<rparr>) st2)"
  by (auto simp: sync_known_def known_base_def Let_def split: option.splits)

lemma sync_known_core:
  assumes "sync_known env sub user pre obj raw r l c st = Some st'" and "links_ok st" and "l \<in> set (ss_links st)"
  shows "map link_core (ss_links st') = map link_core (ss_links st)" "ss_next st \<le> ss_next st'"
proof -
  let ?l = "l\<lparr>sl_etag := ro_etag obj, sl_hash := se_hash env raw, sl_synced := Some (syncConflictFieldSnapshot (merge_incoming env c r))\<rparr>"
  let ?st1 = "recordSyncConflicts sub user c (known_base pre l) (syncConflictFieldSnapshot c) (syncConflictFieldSnapshot (merge_incoming env c r)) st"
  obtain st2 where s: "save_contact env ?st1 (merge_incoming env c r) = Some st2" "st' = put_link ?l st2"
    using assms(1) unfolding sync_known_iff by blast
  have l2: "ss_links st2 = ss_links st" "ss_next st \<le> ss_next st2" using save_contact_links [OF s(1)] by simp_all
  have "ss_links (put_link ?l st2) = ss_links (put_link ?l st)" by (simp add: put_link_def l2(1))
  then show "map link_core (ss_links st') = map link_core (ss_links st)"
    using put_link_core [OF assms(2,3), of ?l] s(2) by (simp add: link_core_def link_key_def)
  show "ss_next st \<le> ss_next st'" using s(2) l2(2) by (simp add: put_link_def)
qed

section \<open>One card at a time\<close>

definition importable :: "sync_env \<Rightarrow> remote_object \<Rightarrow> bool" where
  "importable env obj \<longleftrightarrow> (case se_encode env (ro_card obj) of None \<Rightarrow> False | Some raw \<Rightarrow> se_import env raw \<noteq> None)"

text \<open>A card that the next run skips: it does not parse, or its link has its hash, or the contact is in the trash.\<close>

definition settled :: "sync_env \<Rightarrow> nat \<Rightarrow> nat \<Rightarrow> sync_state \<Rightarrow> remote_object \<Rightarrow> bool" where
  "settled env sub user st obj \<longleftrightarrow>
     (case se_encode env (ro_card obj) of None \<Rightarrow> True
      | Some raw \<Rightarrow> (case se_import env raw of None \<Rightarrow> True
      | Some r \<Rightarrow> (case find_link st sub (ro_path obj) of None \<Rightarrow> False
      | Some l \<Rightarrow> sl_hash l = se_hash env raw \<or> live_contact st user (sl_contact l) = None)))"

text \<open>The ways a card is handled.\<close>

lemma sync_object_cases:
  assumes "sync_object env sub user pre obj (st, n) = Some (st', n')"
  obtains (skip) "st' = st" "\<not> importable env obj \<or> ro_path obj \<in> hrefs sub st" "settled env sub user st obj"
    | (new) raw r where "importable env obj" "ro_path obj \<notin> hrefs sub st" "sync_new env sub user obj raw r st = Some st'"
        "se_encode env (ro_card obj) = Some raw"
    | (known) raw r l c where "importable env obj" "find_link st sub (ro_path obj) = Some l" "live_contact st user (sl_contact l) = Some c"
        "sync_known env sub user pre obj raw r l c st = Some st'" "se_encode env (ro_card obj) = Some raw"
proof (cases "importable env obj")
  case False
  then have "st' = st" "settled env sub user st obj" using assms by (auto simp: sync_object_def importable_def settled_def split: option.splits)
  then show ?thesis using False skip by blast
next
  case True
  then obtain raw r where i: "se_encode env (ro_card obj) = Some raw" "se_import env raw = Some r" by (auto simp: importable_def split: option.splits)
  show ?thesis
  proof (cases "find_link st sub (ro_path obj)")
    case None
    then have "sync_new env sub user obj raw r st = Some st'" using assms i by (auto simp: sync_object_def)
    then show ?thesis using None True i by (auto simp: find_link_None intro: new)
  next
    case (Some l)
    then have h: "ro_path obj \<in> hrefs sub st" by (metis find_link_None option.distinct(1))
    show ?thesis
    proof (cases "sl_hash l = se_hash env raw \<or> live_contact st user (sl_contact l) = None")
      case True
      then have "st' = st" "settled env sub user st obj" using assms i Some by (auto simp: sync_object_def settled_def split: if_splits)
      then show ?thesis using h skip by blast
    next
      case False
      then obtain c where c: "live_contact st user (sl_contact l) = Some c" by blast
      then have "sync_known env sub user pre obj raw r l c st = Some st'" using assms i Some False by (auto simp: sync_object_def)
      then show ?thesis using known [OF True Some c _ i(1)] by blast
    qed
  qed
qed

lemma sync_object_ok:
  assumes "sync_object env sub user pre obj (st, n) = Some (st', n')" and "links_ok st"
  shows "links_ok st'" "hrefs s st' = hrefs s st \<union> (if s = sub \<and> importable env obj then {ro_path obj} else {})"
proof -
  have "links_ok st' \<and> hrefs s st' = hrefs s st \<union> (if s = sub \<and> importable env obj then {ro_path obj} else {})"
    using assms(1)
  proof (cases rule: sync_object_cases)
    case skip
    then show ?thesis using assms(2) by auto
  next
    case (new raw r)
    then show ?thesis using sync_new_ok [OF new(3) assms(2) new(2)] by simp
  next
    case (known raw r l c)
    note f = find_link_Some [OF known(2)]
    note k = links_ok_core [OF assms(2) sync_known_core [OF known(4) assms(2)]]
    have "ro_path obj \<in> hrefs sub st" using known(2) by (metis find_link_None option.distinct(1))
    then show ?thesis using k f by auto
  qed
  then show "links_ok st'" "hrefs s st' = hrefs s st \<union> (if s = sub \<and> importable env obj then {ro_path obj} else {})" by blast+
qed

lemma sync_objects_ok:
  assumes "sync_objects env sub user pre objs (st, n) = Some (st', n')" and "links_ok st"
  shows "links_ok st' \<and> hrefs s st' = hrefs s st \<union> (if s = sub then ro_path ` {x \<in> set objs. importable env x} else {})"
  using assms
proof (induction objs arbitrary: st n)
  case (Cons obj objs)
  then obtain st1 n1 where s: "sync_object env sub user pre obj (st, n) = Some (st1, n1)" "sync_objects env sub user pre objs (st1, n1) = Some (st', n')"
    by (auto split: option.splits)
  note o1 = sync_object_ok [OF s(1) Cons.prems(2)]
  show ?case using Cons.IH [OF s(2) o1(1)] o1(2) [of s] by auto
qed simp

lemma drop_link_links: "ss_links (drop_link l st) = filter (\<lambda>x. sl_id x \<noteq> sl_id l) (ss_links st)"
  "ss_next (drop_link l st) = ss_next st" "ss_contacts (drop_link l st) = ss_contacts st" "ss_conflicts (drop_link l st) = ss_conflicts st"
  by (simp_all add: drop_link_def)

lemma put_row_links [simp]: "ss_links (put_row c st) = ss_links st" "ss_next (put_row c st) = ss_next st" "ss_conflicts (put_row c st) = ss_conflicts st"
  by (simp_all add: put_row_def)

lemma sync_removed_links:
  "ss_links (fst (sync_removed sub user path (st, n))) =
     (case find_link st sub path of None \<Rightarrow> ss_links st | Some l \<Rightarrow> filter (\<lambda>x. sl_id x \<noteq> sl_id l) (ss_links st))"
  "ss_next (fst (sync_removed sub user path (st, n))) = ss_next st"
  "ss_conflicts (fst (sync_removed sub user path (st, n))) = ss_conflicts st"
  by (auto simp: sync_removed_def drop_link_links split: option.splits)

lemma filter_link:
  assumes "links_ok st" and "find_link st sub path = Some l"
  shows "filter (\<lambda>x. sl_id x \<noteq> sl_id l) (ss_links st) = filter (\<lambda>x. link_key x \<noteq> (sub, path)) (ss_links st)"
proof (rule filter_cong [OF refl])
  fix x assume x: "x \<in> set (ss_links st)"
  have l: "l \<in> set (ss_links st)" "link_key l = (sub, path)" using find_link_Some [OF assms(2)] by (auto simp: link_key_def)
  have "sl_id x = sl_id l \<longleftrightarrow> x = l" "link_key x = link_key l \<longleftrightarrow> x = l"
    using assms(1) x l(1) by (auto simp: links_ok_def distinct_map inj_on_def)
  then show "(sl_id x \<noteq> sl_id l) = (link_key x \<noteq> (sub, path))" using l(2) by simp
qed

text \<open>A removal takes away exactly the link with that address.\<close>

lemma sync_removed_filter:
  assumes "links_ok st"
  shows "ss_links (fst (sync_removed sub user path (st, n))) = filter (\<lambda>x. link_key x \<noteq> (sub, path)) (ss_links st)"
proof (cases "find_link st sub path")
  case None
  then have "\<forall>x\<in>set (ss_links st). link_key x \<noteq> (sub, path)" by (auto simp: find_link_def find_None_iff link_key_def)
  then show ?thesis using None by (simp add: sync_removed_links)
next
  case (Some l)
  then show ?thesis by (simp add: sync_removed_links filter_link [OF assms Some])
qed

lemma links_ok_filter: "links_ok st \<Longrightarrow> ss_links st' = filter P (ss_links st) \<Longrightarrow> ss_next st' = ss_next st \<Longrightarrow> links_ok st'"
  by (auto simp: links_ok_def distinct_map_filter list_all_iff)

lemma sync_removed_ok:
  assumes "links_ok st"
  shows "links_ok (fst (sync_removed sub user path (st, n)))"
    "hrefs s (fst (sync_removed sub user path (st, n))) = hrefs s st - (if s = sub then {path} else {})"
proof -
  note f = sync_removed_filter [OF assms, of sub user path n]
  show "links_ok (fst (sync_removed sub user path (st, n)))" by (rule links_ok_filter [OF assms f sync_removed_links(2)])
  show "hrefs s (fst (sync_removed sub user path (st, n))) = hrefs s st - (if s = sub then {path} else {})"
    by (auto simp: hrefs_key f image_iff)
qed

lemma removals_ok:
  "links_ok st \<Longrightarrow> links_ok (fst (fold (sync_removed sub user) paths (st, n))) \<and>
     hrefs s (fst (fold (sync_removed sub user) paths (st, n))) = hrefs s st - (if s = sub then set paths else {})"
proof (induction paths arbitrary: st n)
  case (Cons p ps)
  obtain st1 n1 where s: "sync_removed sub user p (st, n) = (st1, n1)" by fastforce
  note o1 = sync_removed_ok [where sub = sub and user = user and path = p and n = n, OF Cons.prems, unfolded s fst_conv]
  show ?case using Cons.IH [OF o1(1), of n1] o1(2) [of s] by (auto simp: s)
qed simp

section \<open>Which cards are linked after a run\<close>

text \<open>The specification: a set of addresses goes in, the set of addresses that are linked comes out.\<close>

definition links_after :: "sync_env \<Rightarrow> remote_object list \<Rightarrow> string list \<Rightarrow> bool \<Rightarrow> string set \<Rightarrow> string set" where
  "links_after env updated deleted full before =
     (let kept = before \<union> ro_path ` {x \<in> set updated. importable env x}
      in (if full then kept \<inter> ro_path ` set updated else kept) - set deleted)"

lemma gone_set: "set (gone_paths sub updated deleted full st) = set deleted \<union> (if full then hrefs sub st - ro_path ` set updated else {})"
  by (auto simp: gone_paths_def hrefs_def image_iff)

text \<open>C30: A run that commits refines the specification. The linked remote cards afterwards are those linked before or carried
  in a card that parses, less those the server reported as deleted and, when the whole book was read, less those that are
  no longer in it. The links of every other subscription are the same, and no card is linked twice.
\<close>

theorem run_refines_membership:
  assumes "links_ok st" and "reconcileContactSyncWithBaselines env sub user pre updated deleted full st = Some (st', n)"
  shows "links_ok st' \<and> hrefs sub st' = links_after env updated deleted full (hrefs sub st) \<and>
    (if other = sub then True else hrefs other st' = hrefs other st)"
proof -
  obtain st1 n1 where r: "sync_objects env sub user pre updated (st, no_stats) = Some (st1, n1)"
      "(st', n) = fold (sync_removed sub user) (gone_paths sub updated deleted full st1) (st1, n1)"
    using assms(2) by (auto simp: reconcileContactSyncWithBaselines_def split: option.splits)
  have st': "st' = fst (fold (sync_removed sub user) (gone_paths sub updated deleted full st1) (st1, n1))" by (simp flip: r(2))
  note o1 = sync_objects_ok [OF r(1) assms(1)]
  note d = removals_ok [OF o1 [THEN conjunct1], of sub user "gone_paths sub updated deleted full st1" n1, folded st']
  show ?thesis using d [of sub] d [of other] o1 [of sub] o1 [of other] by (auto simp: links_after_def gone_set)
qed

section \<open>A repeated answer\<close>

lemma settled_skipped: "settled env sub user st obj \<Longrightarrow> sync_object env sub user pre obj (st, n) = Some (st, n\<lparr>cs_skipped := Suc (cs_skipped n)\<rparr>)"
  by (auto simp: settled_def sync_object_def split: option.splits)

lemma settled_all_skipped:
  "list_all (settled env sub user st) objs \<Longrightarrow>
     sync_objects env sub user pre objs (st, n) = Some (st, n\<lparr>cs_skipped := cs_skipped n + length objs\<rparr>)"
  by (induction objs arbitrary: n) (auto simp: settled_skipped)

text \<open>What a step on one address leaves as it was for the others.\<close>

definition undisturbed :: "nat \<Rightarrow> nat \<Rightarrow> string \<Rightarrow> sync_state \<Rightarrow> sync_state \<Rightarrow> bool" where
  "undisturbed sub user path st st' \<longleftrightarrow>
     (\<forall>p l. p \<noteq> path \<longrightarrow> find_link st sub p = Some l \<longrightarrow> find_link st' sub p = Some l) \<and>
     (\<forall>i. i < ss_next st \<longrightarrow> live_contact st user i = None \<longrightarrow> live_contact st' user i = None)"

lemma undisturbed_settled:
  assumes "undisturbed sub user path st st'" and "links_ok st" and "ro_path obj \<noteq> path" and "settled env sub user st obj"
  shows "settled env sub user st' obj"
proof -
  have "find_link st' sub (ro_path obj) = Some l \<and> (live_contact st user (sl_contact l) = None \<longrightarrow> live_contact st' user (sl_contact l) = None)"
    if l: "find_link st sub (ro_path obj) = Some l" for l
  proof -
    have "sl_contact l < ss_next st" using find_link_Some [OF l] assms(2) by (auto simp: links_ok_def list_all_iff)
    then show ?thesis using assms(1,3) l by (auto simp: undisturbed_def)
  qed
  then show ?thesis using assms(4) by (auto simp: settled_def split: option.splits)
qed

lemma find_append: "find P (xs @ ys) = (case find P xs of None \<Rightarrow> find P ys | Some x \<Rightarrow> Some x)"
  by (induction xs) auto

lemma live_contact_id: "live_contact st user i = Some c \<Longrightarrow> con_id c = i \<and> con_user c = user"
  by (auto simp: live_contact_def find_Some_iff)

lemma put_row_gone:
  assumes "live_contact st user i = None" and "live_contact st user (con_id c) \<noteq> None"
  shows "live_contact (put_row c st) user i = None"
proof -
  have "con_id c \<noteq> i" using assms by auto
  then show ?thesis using assms(1) by (auto simp: live_contact_def find_None_iff put_row_def)
qed

lemma live_contact_same: "ss_contacts st' = ss_contacts st \<Longrightarrow> live_contact st' user i = live_contact st user i"
  by (simp add: live_contact_def)

lemma apply_import_id [simp]: "con_id (apply_import env c r) = con_id c"
  by (auto simp: apply_import_def SanitizeImportedContact_def ApplyRecordToContact_def Let_def applyAnniversaries_def applyAddresses_def
      applyLinks_def applyImpp_def applyPhones_def applyEmails_def applyTitles_def applyOrganization_def applyNickname_def applyName_def
      split: option.splits prod.splits)

lemma merge_incoming_id [simp]: "con_id (merge_incoming env c r) = con_id c"
  by (simp add: merge_incoming_def)

lemma save_contact_row:
  "save_contact env st c = Some st' \<Longrightarrow> \<exists>d. con_id d = con_id c \<and> con_user d = con_user c \<and> ss_contacts st' = ss_contacts (put_row d st)"
  by (auto simp: save_contact_def Let_def split: if_splits intro!: exI [of _ "(se_save env c)\<lparr>con_id := con_id c, con_user := con_user c\<rparr>"])

lemma sync_object_undisturbed:
  assumes "sync_object env sub user pre obj (st, n) = Some (st', n')" and "links_ok st"
  shows "undisturbed sub user (ro_path obj) st st'"
  using assms(1)
proof (cases rule: sync_object_cases)
  case skip
  then show ?thesis by (simp add: undisturbed_def)
next
  case (new raw r)
  obtain l c where l: "ss_links st' = ss_links st @ [l]" "con_id c = ss_next st" "ss_contacts st' = ss_contacts st @ [\<lparr>st_row = c, st_deleted = False\<rparr>]"
    by (rule sync_new_links [OF new(3)])
  have "find_link st' sub p = Some x" if "find_link st sub p = Some x" for p x
    using that l(1) by (auto simp: find_link_def find_append)
  moreover have "live_contact st' user i = None" if "i < ss_next st" "live_contact st user i = None" for i
    using that l(2,3) by (auto simp: live_contact_def find_None_iff)
  ultimately show ?thesis by (simp add: undisturbed_def)
next
  case (known raw r l c)
  let ?l = "l\<lparr>sl_etag := ro_etag obj, sl_hash := se_hash env raw, sl_synced := Some (syncConflictFieldSnapshot (merge_incoming env c r))\<rparr>"
  let ?st1 = "recordSyncConflicts sub user c (known_base pre l) (syncConflictFieldSnapshot c) (syncConflictFieldSnapshot (merge_incoming env c r)) st"
  obtain st2 where s: "save_contact env ?st1 (merge_incoming env c r) = Some st2" "st' = put_link ?l st2"
    using known(4) unfolding sync_known_iff by blast
  note f = find_link_Some [OF known(2)]
  have ok: "links_ok st'" by (rule sync_object_ok(1) [OF assms])
  have L: "ss_links st' = map (\<lambda>x. if sl_id x = sl_id l then ?l else x) (ss_links st)"
    using save_contact_links [OF s(1)] s(2) by (simp add: put_link_def)
  have "find_link st' sub p = Some x" if p: "p \<noteq> ro_path obj" "find_link st sub p = Some x" for p x
  proof (rule find_link_eqI [OF ok])
    note g = find_link_Some [OF p(2)]
    have "sl_id x \<noteq> sl_id l" using f g p(1) assms(2) by (auto simp: links_ok_def distinct_map inj_on_def)
    then show "x \<in> set (ss_links st')" using g L by (auto simp: image_iff intro: bexI [of _ x])
    show "sl_sub x = sub" "sl_href x = p" using g by simp_all
  qed
  moreover have "live_contact st' user i = None" if "live_contact st user i = None" for i
  proof -
    obtain d where d: "con_id d = con_id c" "ss_contacts st2 = ss_contacts (put_row d ?st1)" using save_contact_row [OF s(1)] by auto
    have "ss_contacts st' = ss_contacts (put_row d st)" using d(2) s(2) by (simp add: put_link_def put_row_def)
    then have "live_contact st' user i = live_contact (put_row d st) user i" by (rule live_contact_same)
    then show ?thesis using put_row_gone [OF that, of d] known(3) d(1) live_contact_id [OF known(3)] by simp
  qed
  ultimately show ?thesis by (simp add: undisturbed_def)
qed

lemma sync_object_settles:
  assumes "sync_object env sub user pre obj (st, n) = Some (st', n')" and "links_ok st"
  shows "settled env sub user st' obj"
  using assms(1)
proof (cases rule: sync_object_cases)
  case skip
  then show ?thesis by simp
next
  case (new raw r)
  obtain l where l: "ss_links st' = ss_links st @ [l]" "link_key l = (sub, ro_path obj)" "sl_hash l = se_hash env raw"
    using sync_new_links [OF new(3)] unfolding link_core_def by (metis prod.inject)
  have "find_link st' sub (ro_path obj) = Some l"
    using l(1,2) by (intro find_link_eqI [OF sync_object_ok(1) [OF assms]]) (auto simp: link_key_def)
  then show ?thesis using l(3) new(4) by (auto simp: settled_def split: option.splits)
next
  case (known raw r l c)
  let ?l = "l\<lparr>sl_etag := ro_etag obj, sl_hash := se_hash env raw, sl_synced := Some (syncConflictFieldSnapshot (merge_incoming env c r))\<rparr>"
  obtain st2 where s: "ss_links st2 = ss_links st" "st' = put_link ?l st2"
    using known(4) save_contact_links unfolding sync_known_iff by fastforce
  note f = find_link_Some [OF known(2)]
  have "?l \<in> set (ss_links st')" using f s by (auto simp: put_link_def image_iff intro: bexI [of _ l])
  then have "find_link st' sub (ro_path obj) = Some ?l"
    using f by (intro find_link_eqI [OF sync_object_ok(1) [OF assms]]) auto
  then show ?thesis using known(5) by (auto simp: settled_def split: option.splits)
qed

lemma sync_objects_settle:
  assumes "sync_objects env sub user pre objs (st, n) = Some (st', n')" and "links_ok st" and "distinct (map ro_path objs)"
  shows "list_all (settled env sub user st') objs \<and>
     (\<forall>x. settled env sub user st x \<longrightarrow> ro_path x \<notin> ro_path ` set objs \<longrightarrow> settled env sub user st' x)"
  using assms
proof (induction objs arbitrary: st n)
  case (Cons obj objs)
  then obtain st1 n1 where s: "sync_object env sub user pre obj (st, n) = Some (st1, n1)" "sync_objects env sub user pre objs (st1, n1) = Some (st', n')"
    by (auto split: option.splits)
  note ok = sync_object_ok(1) [OF s(1) Cons.prems(2)]
  note IH = Cons.IH [OF s(2) ok]
  have "settled env sub user st' obj" using IH sync_object_settles [OF s(1) Cons.prems(2)] Cons.prems(3) by simp
  moreover have "settled env sub user st1 x" if "settled env sub user st x" "ro_path x \<noteq> ro_path obj" for x
    by (rule undisturbed_settled [OF sync_object_undisturbed [OF s(1) Cons.prems(2)] Cons.prems(2) that(2,1)])
  ultimately show ?case using IH Cons.prems(3) by auto
qed simp

lemma sync_removed_undisturbed:
  assumes "links_ok st"
  shows "undisturbed sub user path st (fst (sync_removed sub user path (st, n)))"
proof -
  let ?st = "fst (sync_removed sub user path (st, n))"
  have "find_link ?st sub p = Some x" if p: "p \<noteq> path" "find_link st sub p = Some x" for p x
  proof (rule find_link_eqI [OF sync_removed_ok(1) [OF assms]])
    note g = find_link_Some [OF p(2)]
    then show "x \<in> set (ss_links ?st)" using p(1) by (auto simp: sync_removed_filter [OF assms] link_key_def)
    show "sl_sub x = sub" "sl_href x = p" using g by simp_all
  qed
  moreover have "live_contact ?st user i = None" if none: "live_contact st user i = None" for i
  proof (cases "find_link st sub path")
    case None
    then show ?thesis using none by (simp add: sync_removed_def)
  next
    case (Some l)
    show ?thesis
    proof (cases "live_contact st user (sl_contact l)")
      case None
      then have "ss_contacts ?st = ss_contacts st" using Some by (simp add: sync_removed_def drop_link_def)
      then show ?thesis using none live_contact_same by metis
    next
      case c: (Some c)
      then have "ss_contacts ?st = ss_contacts (put_row (c\<lparr>con_archived := True\<rparr>) st)" using Some by (simp add: sync_removed_def drop_link_def)
      then have "live_contact ?st user i = live_contact (put_row (c\<lparr>con_archived := True\<rparr>) st) user i" by (rule live_contact_same)
      then show ?thesis using put_row_gone [OF none, of "c\<lparr>con_archived := True\<rparr>"] c live_contact_id [OF c] by simp
    qed
  qed
  ultimately show ?thesis by (simp add: undisturbed_def)
qed

lemma removals_keep_settled:
  "links_ok st \<Longrightarrow> settled env sub user st x \<Longrightarrow> ro_path x \<notin> set paths \<Longrightarrow>
     settled env sub user (fst (fold (sync_removed sub user) paths (st, n))) x"
proof (induction paths arbitrary: st n)
  case (Cons p ps)
  obtain st1 n1 where s: "sync_removed sub user p (st, n) = (st1, n1)" by fastforce
  have 1: "undisturbed sub user p st st1" "links_ok st1"
    using sync_removed_undisturbed [where path = p and n = n, OF Cons.prems(1)] sync_removed_ok(1) [where path = p and n = n, OF Cons.prems(1)] s
    by (metis fst_conv)+
  have "settled env sub user st1 x" by (rule undisturbed_settled [OF 1(1) Cons.prems(1) _ Cons.prems(2)]) (use Cons.prems(3) in simp)
  then show ?case using Cons.IH [OF 1(2), of n1] Cons.prems(3) by (simp add: s)
qed simp

lemma removals_idle: "set paths \<inter> hrefs sub st = {} \<Longrightarrow> fold (sync_removed sub user) paths (st, n) = (st, n)"
proof (induction paths)
  case (Cons p ps)
  then have "find_link st sub p = None" by (simp add: find_link_None)
  then show ?case using Cons by (simp add: sync_removed_def)
qed simp

text \<open>C31: Answering twice with the same cards is answering once. After a run that commits, a second run with the same answer
  (whose cards have different addresses, none of them also reported as deleted) changes nothing at all: no contact is
  created, updated or archived, no conflict is recorded, no link moves, and every card is counted as skipped. This is so
  with whatever baselines the second run captures.
\<close>

theorem same_answer_changes_nothing:
  assumes "links_ok st" and "distinct (map ro_path updated)" and "set deleted \<inter> ro_path ` set updated = {}"
    and "reconcileContactSyncWithBaselines env sub user pre updated deleted full st = Some (st', n)"
  shows "reconcileContactSyncWithBaselines env sub user pre' updated deleted full st' =
    Some (st', no_stats\<lparr>cs_skipped := length updated\<rparr>)"
proof -
  obtain st1 n1 where r: "sync_objects env sub user pre updated (st, no_stats) = Some (st1, n1)"
      "(st', n) = fold (sync_removed sub user) (gone_paths sub updated deleted full st1) (st1, n1)"
    using assms(4) by (auto simp: reconcileContactSyncWithBaselines_def split: option.splits)
  let ?gone = "gone_paths sub updated deleted full"
  have st': "st' = fst (fold (sync_removed sub user) (?gone st1) (st1, n1))" by (simp flip: r(2))
  have ok: "links_ok st1" using sync_objects_ok [OF r(1) assms(1)] by blast
  have "settled env sub user st' x" if "x \<in> set updated" for x
  proof -
    have "settled env sub user st1 x" using sync_objects_settle [OF r(1) assms(1,2)] that by (auto simp: list_all_iff)
    moreover have "ro_path x \<notin> set (?gone st1)" using that assms(3) by (auto simp: gone_set)
    ultimately show ?thesis unfolding st' by (rule removals_keep_settled [OF ok])
  qed
  then have "list_all (settled env sub user st') updated" by (simp add: list_all_iff)
  then have skipped: "sync_objects env sub user pre' updated (st', no_stats) = Some (st', no_stats\<lparr>cs_skipped := length updated\<rparr>)"
    using settled_all_skipped [of env sub user st' updated pre' no_stats] by (simp add: no_stats_def)
  have "hrefs sub st' = hrefs sub st1 - set (?gone st1)"
    using removals_ok [OF ok, of sub user "?gone st1" n1 sub] by (simp add: st')
  then have "set (?gone st') \<inter> hrefs sub st' = {}" by (auto simp: gone_set split: if_splits)
  note idle = removals_idle [OF this]
  show ?thesis by (simp add: reconcileContactSyncWithBaselines_def skipped idle)
qed

section \<open>Overwritten edits\<close>

lemma apply_import_user [simp]: "con_user (apply_import env c r) = con_user c"
  by (auto simp: apply_import_def SanitizeImportedContact_def ApplyRecordToContact_def Let_def applyAnniversaries_def applyAddresses_def
      applyLinks_def applyImpp_def applyPhones_def applyEmails_def applyTitles_def applyOrganization_def applyNickname_def applyName_def
      split: option.splits prod.splits)

lemma live_put_row:
  assumes "live_contact st user (con_id d) \<noteq> None" and "con_user d = user"
  shows "live_contact (put_row d st) user (con_id d) = Some d"
proof -
  have "\<exists>s. find (\<lambda>s. con_id (st_row s) = con_id d \<and> con_user (st_row s) = user \<and> \<not> st_deleted s)
      (map (\<lambda>s. if con_id (st_row s) = con_id d then s\<lparr>st_row := d\<rparr> else s) xs) = Some s \<and> st_row s = d"
    if "find (\<lambda>s. con_id (st_row s) = con_id d \<and> con_user (st_row s) = user \<and> \<not> st_deleted s) xs \<noteq> None" for xs
    using that by (induction xs) (auto simp: assms(2) split: if_splits)
  then show ?thesis using assms(1) by (fastforce simp: live_contact_def put_row_def)
qed

lemma save_contact_live:
  assumes "save_contact env st c = Some st'" and "live_contact st user (con_id c) \<noteq> None" and "con_user c = user"
  shows "live_contact st' user (con_id c) = Some ((se_save env c)\<lparr>con_id := con_id c, con_user := user\<rparr>)"
  using assms live_put_row [of st user "(se_save env c)\<lparr>con_id := con_id c, con_user := user\<rparr>"]
  by (auto simp: save_contact_def Let_def split: if_splits)

definition edit_kept_for_restore :: "nat \<Rightarrow> contact \<Rightarrow> string \<Rightarrow> sync_state \<Rightarrow> bool" where
  "edit_kept_for_restore user c k st \<longleftrightarrow> list_ex (\<lambda>x. sc_pending x \<and> sc_user x = user \<and> sc_contact x = con_id c \<and>
     sc_field x = k \<and> sc_local x = syncConflictFieldSnapshot c k) (ss_conflicts st)"

lemma recorded:
  assumes "k \<in> set (diffSyncConflictFields (syncConflictFieldSnapshot c) base remote)"
  shows "edit_kept_for_restore user c k (recordSyncConflicts sub user c base (syncConflictFieldSnapshot c) remote st)"
proof -
  let ?keys = "diffSyncConflictFields (syncConflictFieldSnapshot c) base remote"
  have "k \<in> snd ` set (zip [ss_next st..<ss_next st + length ?keys] ?keys)"
    using assms by (metis list.set_map map_snd_zip length_upt add_diff_cancel_left')
  then obtain i where i: "(i, k) \<in> set (zip [ss_next st..<ss_next st + length ?keys] ?keys)" by auto
  show ?thesis unfolding edit_kept_for_restore_def recordSyncConflicts_def Let_def list_ex_iff
    by simp (rule bexI [OF _ UnI2 [OF imageI [OF i]]], simp)
qed

text \<open>C32: No edit is lost to the remote without a trace. Take a linked live contact and a tracked field whose value the user
  changed since the value the last run wrote (or since the capture before the fetch, where the link has no baseline). After
  the card is handled, either the contact is as it was, or the row handed to the save still has the user's value, or a
  pending conflict of this contact and field holds it.
\<close>

theorem overwritten_edit_recorded:
  assumes "sync_object env sub user pre obj (st, n) = Some (st', n')"
    and "find_link st sub (ro_path obj) = Some l" and "live_contact st user (sl_contact l) = Some c" and "known_base pre l = Some b"
    and "k \<in> set syncConflictFieldKeys" and "syncConflictFieldSnapshot c k \<noteq> b k"
  shows "case live_contact st' user (sl_contact l) of None \<Rightarrow> False
    | Some c' \<Rightarrow> c' = c \<or> edit_kept_for_restore user c k st' \<or>
        (\<exists>m. c' = (se_save env m)\<lparr>con_id := con_id c, con_user := user\<rparr> \<and> syncConflictFieldSnapshot m k = syncConflictFieldSnapshot c k)"
  using assms(1)
proof (cases rule: sync_object_cases)
  case skip
  then show ?thesis using assms(3) by simp
next
  case (new raw r)
  then show ?thesis using assms(2) by (simp flip: find_link_None)
next
  case (known raw r l' c')
  have eq: "l' = l" "c' = c" using known(2,3) assms(2,3) by simp_all
  let ?m = "merge_incoming env c r"
  let ?st1 = "recordSyncConflicts sub user c (known_base pre l) (syncConflictFieldSnapshot c) (syncConflictFieldSnapshot ?m) st"
  let ?l = "l\<lparr>sl_etag := ro_etag obj, sl_hash := se_hash env raw, sl_synced := Some (syncConflictFieldSnapshot ?m)\<rparr>"
  obtain st2 where s: "save_contact env ?st1 ?m = Some st2" "st' = put_link ?l st2"
    using known(4) unfolding sync_known_iff eq by blast
  have id: "con_id ?m = sl_contact l" "con_user ?m = user" "con_id c = sl_contact l"
    using live_contact_id [OF assms(3)] by (simp_all add: merge_incoming_def)
  have "live_contact ?st1 user (con_id ?m) \<noteq> None" using assms(3) id(1) live_contact_same [of ?st1 st] by simp
  then have row: "live_contact st' user (sl_contact l) = Some ((se_save env ?m)\<lparr>con_id := con_id c, con_user := user\<rparr>)"
    using save_contact_live [OF s(1) _ id(2)] s(2) id by (simp add: put_link_def live_contact_def)
  show ?thesis
  proof (cases "syncConflictFieldSnapshot ?m k = syncConflictFieldSnapshot c k")
    case True
    then show ?thesis using row by auto
  next
    case False
    then have "k \<in> set (diffSyncConflictFields (syncConflictFieldSnapshot c) (known_base pre l) (syncConflictFieldSnapshot ?m))"
      using assms(4-6) by (simp add: diffSyncConflictFields_def)
    then have "edit_kept_for_restore user c k ?st1" by (rule recorded)
    moreover have "ss_conflicts st' = ss_conflicts ?st1" using save_contact_links [OF s(1)] s(2) by (simp add: put_link_def)
    ultimately show ?thesis using row by (simp add: edit_kept_for_restore_def)
  qed
qed

section \<open>A sample book\<close>

text \<open>One card is new, one linked card is gone; the importer reads every card as an empty record.\<close>

definition sample_env :: sync_env where
  "sample_env = \<lparr>se_nfc = (\<lambda>s. s), se_clean = (\<lambda>s. s), se_save = (\<lambda>c. c), se_uid = (\<lambda>_. ''u''), se_encode = Some,
     se_import = (\<lambda>_. Some \<lparr>rc_card = empty_card, rc_envelope = empty_envelope, rc_passthrough = empty_passthrough, rc_uid = [], rc_etag = []\<rparr>), se_hash = (\<lambda>s. s)\<rparr>"

definition sample_sync :: sync_state where
  "sample_sync = \<lparr>ss_contacts = [], ss_links = [\<lparr>sl_id = 5, sl_sub = 1, sl_user = 1, sl_href = ''old'', sl_contact = 4, sl_etag = [],
     sl_hash = ''h'', sl_synced = None\<rparr>], ss_conflicts = [], ss_next = 9\<rparr>"

definition sample_answer :: "remote_object list" where
  "sample_answer = [\<lparr>ro_path = ''a'', ro_etag = ''1'', ro_card = ''BEGIN:VCARD''\<rparr>]"

lemma sample_commits: "reconcileContactSyncWithBaselines sample_env 1 1 (\<lambda>_. None) sample_answer [] True sample_sync \<noteq> None"
  by (simp add: reconcileContactSyncWithBaselines_def sample_answer_def sync_object_def sample_env_def sample_sync_def find_link_def
      sync_new_def create_contact_def uid_taken_def Let_def)

lemma sample_links_ok: "links_ok sample_sync"
  by (simp add: links_ok_def sample_sync_def)

lemma run_refines_membership_witness:
  "hrefs 1 (fst (the (reconcileContactSyncWithBaselines sample_env 1 1 (\<lambda>_. None) sample_answer [] True sample_sync))) = {''a''}"
proof -
  obtain st n where r: "reconcileContactSyncWithBaselines sample_env 1 1 (\<lambda>_. None) sample_answer [] True sample_sync = Some (st, n)"
    using sample_commits by auto
  show ?thesis using run_refines_membership [OF sample_links_ok r, of 1] r
    by (auto simp: links_after_def sample_answer_def importable_def sample_env_def)
qed

lemma same_answer_witness:
  "\<exists>st. reconcileContactSyncWithBaselines sample_env 1 1 (\<lambda>_. None) sample_answer [] True st =
     Some (st, no_stats\<lparr>cs_skipped := 1\<rparr>)"
proof -
  obtain st n where r: "reconcileContactSyncWithBaselines sample_env 1 1 (\<lambda>_. None) sample_answer [] True sample_sync = Some (st, n)"
    using sample_commits by auto
  show ?thesis using same_answer_changes_nothing [OF sample_links_ok _ _ r, of "\<lambda>_. None"] by (auto simp: sample_answer_def)
qed

section \<open>Acting on a conflict\<close>

lemma tracked_cases:
  assumes "k \<in> set syncConflictFieldKeys"
  shows "k = ''firstname'' \<or> k = ''lastname'' \<or> k = ''middlename'' \<or> k = ''prefix'' \<or> k = ''suffix'' \<or> k = ''nickname'' \<or>
    k = ''organization'' \<or> k = ''department'' \<or> k = ''job_title'' \<or> k = ''role'' \<or> k = ''email'' \<or> k = ''phone'' \<or> k = ''address'' \<or>
    k = ''url'' \<or> k = ''impp'' \<or> k = ''birthday'' \<or> k = ''anniversary'' \<or> k = ''circles'' \<or> k = ''how_we_met'' \<or>
    k = ''work_information'' \<or> k = ''contact_information''"
  using assms by (simp add: syncConflictFieldKeys_def)

text \<open>Writing a field of one snapshot into another contact changes that field only.\<close>

lemma restore_field:
  assumes "k \<in> set syncConflictFieldKeys"
  shows "\<exists>w. restoreConflictFieldValue c k (syncConflictFieldSnapshot c0 k) = Some w \<and> con_id w = con_id c \<and> con_user w = con_user c \<and>
    syncConflictFieldSnapshot w = (syncConflictFieldSnapshot c)(k := syncConflictFieldSnapshot c0 k)"
  using tracked_cases [OF assms]
  by (elim disjE) (simp_all add: restoreConflictFieldValue_def syncConflictFieldSnapshot_def fun_eq_iff)

definition restored :: "sync_env \<Rightarrow> nat \<Rightarrow> contact \<Rightarrow> contact" where
  "restored env user w = (se_save env w)\<lparr>con_id := con_id w, con_user := user\<rparr>"

lemma restore_conflict_run:
  assumes "find (\<lambda>x. sc_id x = key \<and> sc_user x = user) (ss_conflicts st) = Some x" and "sc_pending x"
    and "live_contact st user (sc_contact x) = Some c" and "restoreConflictFieldValue c (sc_field x) (sc_local x) = Some w"
    and "con_id w = con_id c" and "con_user w = con_user c"
  shows "RestoreContactSyncConflict env user key st =
    (if uid_taken st (restored env user w) then Inl RestoreFailed
     else Inr (put_conflict (x\<lparr>sc_pending := False\<rparr>) (put_row (restored env user w) st)))"
  using assms live_contact_id [OF assms(3)]
  by (simp add: RestoreContactSyncConflict_def save_contact_def restored_def Let_def)

lemma resolved_found:
  assumes "find (\<lambda>x. sc_id x = key \<and> sc_user x = user) xs = Some x"
  shows "find (\<lambda>y. sc_id y = key \<and> sc_user y = user) (map (\<lambda>y. if sc_id y = sc_id x then x\<lparr>sc_pending := False\<rparr> else y) xs) =
    Some (x\<lparr>sc_pending := False\<rparr>)"
proof -
  have x: "sc_id x = key" "sc_user x = user" using assms by (auto simp: find_Some_iff)
  show ?thesis using assms by (induction xs) (auto simp: x split: if_splits)
qed

text \<open>C33: Taking a conflict back undoes exactly the overwriting it recorded. For a pending conflict of a tracked field, whose
  value was read off the contact as the user had left it, the row handed to the save has that value in that field and
  every other tracked field as it is now; the only way to fail is a live contact with the same UID. Afterwards the
  conflict is settled: taking it back again is refused as already resolved, and dismissing it changes nothing.
\<close>

theorem restored_edit_returns:
  assumes "find (\<lambda>x. sc_id x = key \<and> sc_user x = user) (ss_conflicts st) = Some x" and "sc_pending x"
    and "live_contact st user (sc_contact x) = Some c" and "sc_field x \<in> set syncConflictFieldKeys"
    and "sc_local x = syncConflictFieldSnapshot before (sc_field x)"
  shows "\<exists>w. syncConflictFieldSnapshot w = (syncConflictFieldSnapshot c)(sc_field x := syncConflictFieldSnapshot before (sc_field x)) \<and>
    (case RestoreContactSyncConflict env user key st of
       Inl e \<Rightarrow> e = RestoreFailed \<and> uid_taken st (restored env user w)
     | Inr st' \<Rightarrow> live_contact st' user (sc_contact x) = Some (restored env user w) \<and>
         RestoreContactSyncConflict env user key st' = Inl AlreadyResolved \<and> DismissContactSyncConflict user key st' = Inr st')"
proof -
  obtain w where w: "restoreConflictFieldValue c (sc_field x) (sc_local x) = Some w" "con_id w = con_id c" "con_user w = con_user c"
      "syncConflictFieldSnapshot w = (syncConflictFieldSnapshot c)(sc_field x := syncConflictFieldSnapshot before (sc_field x))"
    using restore_field [OF assms(4), of c before] assms(5) by auto
  let ?st = "put_conflict (x\<lparr>sc_pending := False\<rparr>) (put_row (restored env user w) st)"
  have f: "find (\<lambda>x. sc_id x = key \<and> sc_user x = user) (ss_conflicts ?st) = Some (x\<lparr>sc_pending := False\<rparr>)"
    using resolved_found [OF assms(1)] by (simp add: put_conflict_def)
  have id: "con_id (restored env user w) = sc_contact x" "con_user (restored env user w) = user"
    using live_contact_id [OF assms(3)] w(2) by (simp_all add: restored_def)
  have "live_contact ?st user (sc_contact x) = Some (restored env user w)"
    using live_put_row [of st user "restored env user w"] id assms(3) live_contact_same [of ?st "put_row (restored env user w) st"]
    by (simp add: put_conflict_def)
  then show ?thesis
    using restore_conflict_run [OF assms(1-3) w(1-3), of env] f w(4)
    by (intro exI [of _ w]) (simp add: RestoreContactSyncConflict_def [of env user key ?st] DismissContactSyncConflict_def)
qed

section \<open>Health\<close>

text \<open>When a run ended, how long it took, its counters and its error.\<close>

type_synonym run_outcome = "int \<times> int \<times> sync_stats \<times> sync_error option"

definition never_run :: sync_health where
  "never_run = \<lparr>sh_attempt = None, sh_success = None, sh_failure = None, sh_failures = 0, sh_incident = None, sh_duration = None,
     sh_stats = None, sh_terminal = None, sh_reason = []\<rparr>"

definition health_after :: "run_outcome list \<Rightarrow> sync_health" where
  "health_after runs = fold (\<lambda>(t, d, n, e) h. AdvanceForRun t d n e (classifySyncFailure e) h) runs never_run"

text \<open>The failed runs since the last success, in order.\<close>

definition streak :: "run_outcome list \<Rightarrow> run_outcome list" where
  "streak runs = rev (takeWhile (\<lambda>(t, d, n, e). e \<noteq> None) (rev runs))"

definition permanent :: "sync_error option \<Rightarrow> bool" where
  "permanent e \<longleftrightarrow> e \<in> {Some Unauthorized, Some NotFound}"

definition first_time :: "run_outcome list \<Rightarrow> int option" where
  "first_time runs = (case runs of [] \<Rightarrow> None | r # _ \<Rightarrow> Some (fst r))"

lemma permanent_reason: "classifySyncFailure e = [] \<longleftrightarrow> \<not> permanent e"
  by (auto simp: classifySyncFailure_def permanent_def split: option.splits sync_error.splits)

lemma streak_snoc: "streak (runs @ [(t, d, n, e)]) = (if e = None then [] else streak runs @ [(t, d, n, e)])"
  by (simp add: streak_def)

lemma first_time_snoc: "first_time (xs @ [x]) = (case first_time xs of None \<Rightarrow> Some (fst x) | Some t \<Rightarrow> Some t)"
  by (auto simp: first_time_def split: list.splits)

text \<open>C34: The health of a subscription is what its history says. After any sequence of runs, the failure count is the number
  of failed runs since the last success, the incident began at the first of them, and the subscription is terminal from
  the first run of that streak that failed for good (rejected credentials or a missing book), with a reason given exactly
  when it is terminal.
\<close>

theorem health_is_the_streak:
  "sh_failures (health_after runs) = length (streak runs) \<and>
   sh_incident (health_after runs) = first_time (streak runs) \<and>
   sh_terminal (health_after runs) = first_time (filter (\<lambda>(t, d, n, e). permanent e) (streak runs)) \<and>
   (sh_reason (health_after runs) = [] \<longleftrightarrow> sh_terminal (health_after runs) = None) \<and>
   sh_attempt (health_after runs) = map_option fst (if runs = [] then None else Some (last runs))"
proof (induction runs rule: rev_induct)
  case Nil
  then show ?case by (simp add: health_after_def never_run_def streak_def first_time_def)
next
  case (snoc run runs)
  obtain t d n e where r: "run = (t, d, n, e)" using prod_cases4 by blast
  have s: "health_after (runs @ [(t, d, n, e)]) = AdvanceForRun t d n e (classifySyncFailure e) (health_after runs)" by (simp add: health_after_def)
  have fresh: "first_time [] = None" by (simp add: first_time_def)
  show ?case
  proof (cases e)
    case None
    then show ?thesis unfolding r s streak_snoc by (simp add: AdvanceForRun_def fresh)
  next
    case (Some x)
    then show ?thesis using snoc.IH permanent_reason [of e] unfolding r s streak_snoc
      by (auto simp: AdvanceForRun_def Let_def first_time_snoc split: option.splits)
  qed
qed

section \<open>Where a subscription is stuck\<close>

text \<open>A card that is new here, with the UID of a contact that is live, fails the whole run, and every later run alike.\<close>

lemma uid_clash_blocks:
  assumes "se_encode env (ro_card obj) = Some raw" and "se_import env raw = Some r" and "find_link st sub (ro_path obj) = None"
    and "con_vcard_uid (se_save env (apply_import env (new_contact user) r)) = u" and "u \<noteq> []"
    and "s \<in> set (ss_contacts st)" and "\<not> st_deleted s" and "con_user (st_row s) = user" and "con_vcard_uid (st_row s) = u"
    and "con_id (st_row s) \<noteq> ss_next st"
  shows "reconcileContactSyncWithBaselines env sub user pre (obj # objs) deleted full st = None"
proof -
  have user: "con_user (new_contact user) = user" by (simp add: new_contact_def)
  have "create_contact env st (apply_import env (new_contact user) r) = None"
    using assms(4-10) by (auto simp: create_contact_def uid_taken_def Let_def user list_ex_iff intro!: bexI [of _ s])
  then show ?thesis using assms(1-3) by (simp add: reconcileContactSyncWithBaselines_def sync_object_def sync_new_def)
qed

text \<open>
  A server that answers an expired token with 403 (the \<open>valid-sync-token\<close> precondition) is taken for one that rejects
  the credentials: no fallback, the token stays, and so it does when the user saves the subscription again.
\<close>

lemma expired_token_sticks:
  assumes "status_error 403 = Some e" and "dc_report dc (sb_token sb) = Inl e"
    and "SyncSubscription env (Inr dc) now dur before_fetch st sb = (sb', st', res)"
  shows "sb_token sb' = sb_token sb" "st' = st" "res = Inl Unauthorized" "sh_terminal (sb_health sb') \<noteq> None"
    "in_url i = sb_url sb \<Longrightarrow> UpdateContactSubscription encrypt i sb' = Some sb'' \<Longrightarrow> sb_token sb'' = sb_token sb"
  using assms by (auto simp: status_error_def SyncSubscription_def syncSubscription_def fetchChanges_def isContactSyncSentinel_def
      AdvanceForRun_def classifySyncFailure_def UpdateContactSubscription_def Let_def split: option.splits)

text \<open>
  After a run that fell back to reading the whole book, the next run asks with no token. The answer lists the members and
  reports no deletions, so a card that went away in between stays linked and its contact is never archived.
\<close>

lemma fallback_drops_token:
  "dc_report dc token = Inl e \<Longrightarrow> \<not> isContactSyncSentinel e \<Longrightarrow> dc_query dc = Inr objs \<Longrightarrow>
     fetchChanges dc token = Inr \<lparr>ft_updated = objs, ft_deleted = [], ft_token = [], ft_full = True\<rparr>"
  by (simp add: fetchChanges_def full_refetch_def)

lemma fallback_misses_deletion:
  assumes "dc_report dc [] = Inr resp" and "cr_token resp \<noteq> []" and "cr_deleted resp = []"
    and "fetchChanges dc [] = Inr f" and "path \<in> hrefs sub st" and "links_ok st"
    and "reconcileContactSyncWithBaselines env sub user pre (ft_updated f) (ft_deleted f) (ft_full f) st = Some (st', n)"
  shows "path \<in> hrefs sub st'"
proof -
  have f: "ft_deleted f = []" "\<not> ft_full f" using assms(1-4) by (auto simp: fetchChanges_def split: if_splits sum.splits)
  obtain st1 n1 where r: "sync_objects env sub user pre (ft_updated f) (st, no_stats) = Some (st1, n1)" "st' = st1"
    using assms(7) f by (auto simp: reconcileContactSyncWithBaselines_def gone_paths_def split: option.splits)
  show ?thesis using sync_objects_ok [OF r(1) assms(6), of sub] assms(5) r(2) by auto
qed

section \<open>A sample edit\<close>

definition edited_contact :: contact where
  "edited_contact = (new_contact 1)\<lparr>con_id := 4, con_firstname := ''Ann''\<rparr>"

definition edited_sync :: sync_state where
  "edited_sync = \<lparr>ss_contacts = [\<lparr>st_row = edited_contact, st_deleted = False\<rparr>],
     ss_links = [\<lparr>sl_id = 5, sl_sub = 1, sl_user = 1, sl_href = ''a'', sl_contact = 4, sl_etag = [], sl_hash = ''h'',
       sl_synced = Some (syncConflictFieldSnapshot (new_contact 1))\<rparr>],
     ss_conflicts = [\<lparr>sc_id = 6, sc_user = 1, sc_sub = 1, sc_contact = 4, sc_field = ''nickname'', sc_local = Plain ''Annie'',
       sc_remote = Plain [], sc_pending = True\<rparr>], ss_next = 9\<rparr>"

lemma edited_ids [simp]: "con_id edited_contact = 4" "con_user edited_contact = 1" "con_firstname edited_contact = ''Ann''"
  by (simp_all add: edited_contact_def new_contact_def)

lemma edited_syncs: "sync_object sample_env 1 1 (\<lambda>_. None) \<lparr>ro_path = ''a'', ro_etag = ''1'', ro_card = ''BEGIN:VCARD''\<rparr> (edited_sync, no_stats) \<noteq> None"
  by (simp add: sync_object_def sample_env_def edited_sync_def find_link_def live_contact_def sync_known_def save_contact_def
      uid_taken_def recordSyncConflicts_def Let_def)

lemma overwritten_edit_witness:
  "live_contact (fst (the (sync_object sample_env 1 1 (\<lambda>_. None) \<lparr>ro_path = ''a'', ro_etag = ''1'', ro_card = ''BEGIN:VCARD''\<rparr>
     (edited_sync, no_stats)))) 1 4 \<noteq> None"
proof -
  obtain st n where s: "sync_object sample_env 1 1 (\<lambda>_. None) \<lparr>ro_path = ''a'', ro_etag = ''1'', ro_card = ''BEGIN:VCARD''\<rparr>
     (edited_sync, no_stats) = Some (st, n)" using edited_syncs by auto
  have live: "live_contact edited_sync 1 4 = Some edited_contact" by (simp add: live_contact_def edited_sync_def)
  show ?thesis
    using overwritten_edit_recorded [OF s, of "hd (ss_links edited_sync)" edited_contact "syncConflictFieldSnapshot (new_contact 1)" "''firstname''"] s live
    by (auto simp: edited_sync_def find_link_def known_base_def syncConflictFieldKeys_def syncConflictFieldSnapshot_def new_contact_def
        split: option.splits)
qed

lemma restored_edit_witness:
  "\<exists>w. syncConflictFieldSnapshot w = (syncConflictFieldSnapshot edited_contact)(''nickname'' := Plain ''Annie'') \<and>
    (case RestoreContactSyncConflict sample_env 1 6 edited_sync of
       Inl e \<Rightarrow> e = RestoreFailed \<and> uid_taken edited_sync (restored sample_env 1 w)
     | Inr st' \<Rightarrow> RestoreContactSyncConflict sample_env 1 6 st' = Inl AlreadyResolved)"
proof -
  have snap: "syncConflictFieldSnapshot (edited_contact\<lparr>con_nickname := ''Annie''\<rparr>) ''nickname'' = Plain ''Annie''"
    by (simp add: syncConflictFieldSnapshot_def)
  have "find (\<lambda>x. sc_id x = 6 \<and> sc_user x = 1) (ss_conflicts edited_sync) = Some (hd (ss_conflicts edited_sync))"
    "live_contact edited_sync 1 4 = Some edited_contact" by (simp_all add: edited_sync_def live_contact_def)
  note r = restored_edit_returns [OF this(1) _ _ _ , of edited_contact "edited_contact\<lparr>con_nickname := ''Annie''\<rparr>" sample_env]
  have f: "sc_field (hd (ss_conflicts edited_sync)) = ''nickname''" "sc_contact (hd (ss_conflicts edited_sync)) = 4"
    "sc_local (hd (ss_conflicts edited_sync)) = Plain ''Annie''" "sc_pending (hd (ss_conflicts edited_sync))"
    by (simp_all add: edited_sync_def)
  show ?thesis using r \<open>live_contact edited_sync 1 4 = Some edited_contact\<close>
    by (fastforce simp: f snap syncConflictFieldKeys_def split: sum.splits)
qed

end
