(* ===== verification/VCardText.thy ===== *)
theory VCardText imports ContactModel JsonText begin

text \<open>
  The structured values of a vCard and its fields (\<^verbatim>\<open>vcard4/components.go\<close> and the field helpers of \<^verbatim>\<open>vcard4/adapter.go\<close>).
  The parsed card is the map of field lists that package go-vcard builds and the adapter indexes: appending a field under a
  name, replacing the fields of a name, reading the first one and the parameters of a field are all that is used of it here.
  Writing a card as text and reading it back is that package's work and an argument where it matters.
\<close>

section \<open>Structured values\<close>

definition replace_char :: "char \<Rightarrow> string \<Rightarrow> string \<Rightarrow> string" where
  "replace_char c r s = concat (map (\<lambda>x. if x = c then r else [x]) s)"

definition escapeComponent :: "string \<Rightarrow> string" where
  "escapeComponent s = replace_char CHR '';'' [CHR 0x5C, CHR '';''] (replace_char CHR 0x5C [CHR 0x5C, CHR 0x5C] s)"

fun unescapeComponent :: "string \<Rightarrow> string" where
  "unescapeComponent [] = []"
| "unescapeComponent (c # cs) =
     (if c = CHR 0x5C \<and> cs \<noteq> [] then hd cs # unescapeComponent (tl cs) else c # unescapeComponent cs)"

fun split_from :: "string \<Rightarrow> string \<Rightarrow> string list" where
  "split_from cur [] = [rev cur]"
| "split_from cur (c # cs) =
     (if c = CHR 0x5C \<and> cs \<noteq> [] then split_from (hd cs # cur) (tl cs)
      else if c = CHR '';'' then rev cur # split_from [] cs
      else split_from (c # cur) cs)"

definition splitComponents :: "string \<Rightarrow> string list" where
  "splitComponents v = split_from [] v"

definition joinComponents :: "string list \<Rightarrow> string" where
  "joinComponents parts = join_with '';'' (map escapeComponent parts)"

definition component :: "string list \<Rightarrow> nat \<Rightarrow> string" where
  "component comps i = (if i < length comps then comps ! i else [])"

lemma escape_Nil [simp]: "escapeComponent [] = []"
  by (simp add: escapeComponent_def replace_char_def)

lemma escape_Cons: "escapeComponent (c # cs) =
    (if c = CHR 0x5C then [CHR 0x5C, CHR 0x5C] else if c = CHR '';'' then [CHR 0x5C, CHR '';''] else [c]) @ escapeComponent cs"
  by (simp add: escapeComponent_def replace_char_def)

lemma unescape_escape: "unescapeComponent (escapeComponent s) = s"
  by (induction s) (auto simp: escape_Cons)

lemma split_from_escape: "split_from cur (escapeComponent p @ rest) = split_from (rev p @ cur) rest"
  by (induction p arbitrary: cur) (auto simp: escape_Cons)

lemma split_from_join: "ps \<noteq> [] \<Longrightarrow> split_from cur (joinComponents ps) = (rev cur @ hd ps) # tl ps"
proof (induction ps arbitrary: cur)
  case (Cons p ps)
  show ?case
  proof (cases ps)
    case Nil
    then show ?thesis using split_from_escape [of cur p "[]"] by (simp add: joinComponents_def)
  next
    case C: (Cons q qs)
    have "joinComponents (p # ps) = escapeComponent p @ CHR '';'' # joinComponents ps" by (simp add: joinComponents_def C)
    then show ?thesis using Cons.IH [of "[]"] by (simp add: split_from_escape C)
  qed
qed simp

lemma split_join: "ps \<noteq> [] \<Longrightarrow> splitComponents (joinComponents ps) = ps"
  by (simp add: splitComponents_def split_from_join)

lemma splitComponents_not_Nil: "splitComponents v \<noteq> []"
proof -
  have "split_from cur v \<noteq> []" for cur by (induction cur v rule: split_from.induct) auto
  then show ?thesis by (simp add: splitComponents_def)
qed

record n_components =
  n_family :: string
  n_given :: string
  n_additional :: string
  n_prefix :: string
  n_suffix :: string
  n_surname2 :: string
  n_generation :: string

definition assembleN :: "n_components \<Rightarrow> string" where
  "assembleN n = joinComponents [n_family n, n_given n, n_additional n, n_prefix n, n_suffix n, n_surname2 n, n_generation n]"

definition disassembleN :: "string \<Rightarrow> n_components" where
  "disassembleN v =
     (let c = splitComponents v
      in \<lparr>n_family = component c 0, n_given = component c 1, n_additional = component c 2, n_prefix = component c 3,
          n_suffix = component c 4, n_surname2 = component c 5, n_generation = component c 6\<rparr>)"

record adr_components =
  a_pobox :: string
  a_ext :: string
  a_street :: string
  a_locality :: string
  a_region :: string
  a_code :: string
  a_country :: string
  a_room :: string
  a_apartment :: string
  a_floor :: string
  a_number :: string
  a_street_name :: string
  a_building :: string
  a_block :: string
  a_subdistrict :: string
  a_district :: string
  a_landmark :: string
  a_direction :: string

definition assembleAdr :: "adr_components \<Rightarrow> string" where
  "assembleAdr a = joinComponents [a_pobox a, a_ext a, a_street a, a_locality a, a_region a, a_code a, a_country a,
     a_room a, a_apartment a, a_floor a, a_number a, a_street_name a, a_building a, a_block a, a_subdistrict a,
     a_district a, a_landmark a, a_direction a]"

definition disassembleAdr :: "string \<Rightarrow> adr_components" where
  "disassembleAdr v =
     (let c = splitComponents v
      in \<lparr>a_pobox = component c 0, a_ext = component c 1, a_street = component c 2, a_locality = component c 3,
          a_region = component c 4, a_code = component c 5, a_country = component c 6, a_room = component c 7,
          a_apartment = component c 8, a_floor = component c 9, a_number = component c 10, a_street_name = component c 11,
          a_building = component c 12, a_block = component c 13, a_subdistrict = component c 14, a_district = component c 15,
          a_landmark = component c 16, a_direction = component c 17\<rparr>)"

lemma disassemble_N [simp]: "disassembleN (assembleN n) = n"
  by (simp add: disassembleN_def assembleN_def split_join component_def Let_def)

lemma disassemble_Adr [simp]: "disassembleAdr (assembleAdr a) = a"
  by (simp add: disassembleAdr_def assembleAdr_def split_join component_def Let_def)

section \<open>Fields and cards\<close>

record vfield =
  vf_value :: string
  vf_params :: "(string \<times> string) list"
  vf_group :: string

text \<open>The fields in the order they were added; the list under a name is those with the name.\<close>

type_synonym vcard = "(string \<times> vfield) list"

definition field :: "string \<Rightarrow> vfield" where
  "field v = \<lparr>vf_value = v, vf_params = [], vf_group = []\<rparr>"

definition card_fields :: "vcard \<Rightarrow> string \<Rightarrow> vfield list" where
  "card_fields vc p = map snd (filter (\<lambda>e. fst e = p) vc)"

definition card_value :: "vcard \<Rightarrow> string \<Rightarrow> string" where
  "card_value vc p = (case card_fields vc p of [] \<Rightarrow> [] | f # _ \<Rightarrow> vf_value f)"

definition card_add :: "string \<Rightarrow> vfield \<Rightarrow> vcard \<Rightarrow> vcard" where
  "card_add p f vc = vc @ [(p, f)]"

definition card_set_value :: "string \<Rightarrow> string \<Rightarrow> vcard \<Rightarrow> vcard" where
  "card_set_value p v vc = filter (\<lambda>e. fst e \<noteq> p) vc @ [(p, field v)]"

definition paramAll :: "vfield \<Rightarrow> string \<Rightarrow> string list" where
  "paramAll f key = map snd (filter (\<lambda>e. fst e = key) (vf_params f))"

definition paramValue :: "vfield \<Rightarrow> string \<Rightarrow> string" where
  "paramValue f key = (case paramAll f key of [] \<Rightarrow> [] | v # _ \<Rightarrow> v)"

definition equal_fold :: "string \<Rightarrow> string \<Rightarrow> bool" where
  "equal_fold a b \<longleftrightarrow> to_lower a = to_lower b"

definition paramIsTrue :: "vfield \<Rightarrow> string \<Rightarrow> bool" where
  "paramIsTrue f key \<longleftrightarrow> equal_fold (paramValue f key) ''TRUE''"

definition paramJoined :: "vfield \<Rightarrow> string \<Rightarrow> string" where
  "paramJoined f key = (if paramAll f key = [] then [] else join_with '','' (paramAll f key))"

definition setParam :: "string \<Rightarrow> string \<Rightarrow> vfield \<Rightarrow> vfield" where
  "setParam key v f = (if v = [] then f else f\<lparr>vf_params := filter (\<lambda>e. fst e \<noteq> key) (vf_params f) @ [(key, v)]\<rparr>)"

definition add_param :: "string \<Rightarrow> string \<Rightarrow> vfield \<Rightarrow> vfield" where
  "add_param key v f = f\<lparr>vf_params := vf_params f @ [(key, v)]\<rparr>"

definition quotedParam :: "string \<Rightarrow> string" where
  "quotedParam raw = [CHR 0x22] @ raw @ [CHR 0x22]"

definition prefOf :: "vfield \<Rightarrow> int option" where
  "prefOf f = (if paramValue f ''PREF'' = [] then None else atoi (paramValue f ''PREF''))"

definition setPref :: "int option \<Rightarrow> vfield \<Rightarrow> vfield" where
  "setPref pref f = (case pref of None \<Rightarrow> f | Some n \<Rightarrow> setParam ''PREF'' (show_int n) f)"

definition propID :: "vfield \<Rightarrow> string" where
  "propID f = paramValue f ''PROP-ID''"

text \<open>The one setter that also stores an empty value.\<close>

definition setPropID :: "string \<Rightarrow> vfield \<Rightarrow> vfield" where
  "setPropID i f = f\<lparr>vf_params := filter (\<lambda>e. fst e \<noteq> ''PROP-ID'') (vf_params f) @ [(''PROP-ID'', i)]\<rparr>"

definition splitTypeTokens :: "vfield \<Rightarrow> string list \<times> string list" where
  "splitTypeTokens f =
     (let toks = map to_lower (paramAll f ''TYPE'')
      in (List.map_filter (map_of type_token_to_context) toks, filter (\<lambda>t. map_of type_token_to_context t = None) toks))"

definition contextsToTypeTokens :: "string list \<Rightarrow> string list" where
  "contextsToTypeTokens cs = map (\<lambda>c. case map_of context_to_type_token (to_lower c) of Some t \<Rightarrow> t | None \<Rightarrow> to_lower c) cs"

definition addTypeTokens :: "string list \<Rightarrow> vfield \<Rightarrow> vfield" where
  "addTypeTokens toks f = fold (\<lambda>t f. if t = [] then f else add_param ''TYPE'' t f) toks f"

definition idOrSynthetic :: "string \<Rightarrow> string \<Rightarrow> nat \<Rightarrow> string" where
  "idOrSynthetic i prefix idx = (if i \<noteq> [] then i else prefix @ show_nat (idx + 1))"

section \<open>Labels\<close>

definition labelFromXABLabel :: "string \<Rightarrow> vfield list \<Rightarrow> string" where
  "labelFromXABLabel grp fs =
     (if grp = [] then []
      else case find (\<lambda>f. equal_fold (vf_group f) grp) fs of None \<Rightarrow> [] | Some f \<Rightarrow> trim_space (vf_value f))"

text \<open>\<open>_$!<\<close> and \<open>>!$_\<close> around the built-in labels of Apple.\<close>

definition apple_open :: string where "apple_open = [CHR 0x5F, CHR 0x24, CHR 0x21, CHR 0x3C]"
definition apple_close :: string where "apple_close = [CHR 0x3E, CHR 0x21, CHR 0x24, CHR 0x5F]"

text \<open>A text that is shorter than both marks together and still starts and ends with them has no slice between them.\<close>

definition normalizeAppleLabel :: "string \<Rightarrow> string option" where
  "normalizeAppleLabel label =
     (if has_prefix label apple_open \<and> has_prefix (rev label) (rev apple_close)
      then (if length label < 8 then None
            else let inner = to_lower (slice label 4 (length label - 4))
                 in Some (if inner = ''mobile'' then ''cell'' else inner))
      else Some label)"

lemma normalizeAppleLabel_total: "normalizeAppleLabel label \<noteq> None"
proof -
  have False if a: "has_prefix label apple_open" "has_prefix (rev label) (rev apple_close)" "length label < 8"
  proof -
    obtain r where r: "label = apple_open @ r" using a(1) by (auto simp: has_prefix_iff)
    obtain q where "rev label = rev apple_close @ q" using a(2) by (auto simp: has_prefix_iff)
    then have q: "label = rev q @ apple_close" by (metis rev_append rev_rev_ident)
    have "length r < 4" using a(3) r by (simp add: apple_open_def)
    moreover have "length q = length r" using arg_cong [OF q, of length] r by (simp add: apple_open_def apple_close_def)
    ultimately consider "q = []" | x where "q = [x]" | x y where "q = [x, y]" | x y z where "q = [x, y, z]"
      by (cases q; cases "tl q"; cases "tl (tl q)"; cases "tl (tl (tl q))") auto
    then show False using q unfolding r by cases (auto simp: apple_open_def apple_close_def)
  qed
  then show ?thesis by (auto simp: normalizeAppleLabel_def Let_def)
qed

end
