(* ===== verification/VCardDates.thy ===== *)
theory VCardDates imports VCardText GoTime "HOL-Library.Monad_Syntax" begin

text \<open>
  Dates and timestamps of a vCard (\<^verbatim>\<open>vcard4/adapter.go\<close>): reduced dates in both ISO forms, and the timestamps with a zone,
  over what \<^verbatim>\<open>time.Parse\<close> does for the layouts the adapter names. An instant is a number of seconds; a fraction is accepted
  and not kept, as every output has whole seconds.
\<close>

section \<open>Reduced dates\<close>

definition pair_at :: "string \<Rightarrow> nat \<Rightarrow> int option" where
  "pair_at s i = (if i + 2 \<le> length s then atoi (slice s i (i + 2)) else None)"

definition parsePartialDate :: "string \<Rightarrow> partial_date option" where
  "parsePartialDate v =
     (let pd = (\<lambda>y m d. Some \<lparr>pd_year = y, pd_month = m, pd_day = d, pd_scale = []\<rparr>)
      in if v = [] then None
         else if has_prefix v ''---'' then pd None None (pair_at (drop 3 v) 0)
         else if has_prefix v ''--'' then
           (let core = remove_char CHR ''-'' (drop 2 v) in pd None (pair_at core 0) (pair_at core 2))
         else
           (let digits = remove_char CHR ''-'' v
            in if length digits = 4 then pd (atoi digits) None None
               else if length digits = 6 then pd (atoi (take 4 digits)) (pair_at digits 4) None
               else if length digits = 8 then pd (atoi (take 4 digits)) (pair_at digits 4) (pair_at digits 6)
               else None))"

definition formatPartialDate :: "partial_date option \<Rightarrow> string" where
  "formatPartialDate p =
     (case p of None \<Rightarrow> []
      | Some p \<Rightarrow>
          (case (pd_year p, pd_month p, pd_day p) of
             (Some y, Some m, Some d) \<Rightarrow> fmt_0d 4 y @ ''-'' @ fmt_0d 2 m @ ''-'' @ fmt_0d 2 d
           | (Some y, Some m, None) \<Rightarrow> fmt_0d 4 y @ ''-'' @ fmt_0d 2 m
           | (Some y, None, _) \<Rightarrow> fmt_0d 4 y
           | (None, Some m, Some d) \<Rightarrow> ''--'' @ fmt_0d 2 m @ ''-'' @ fmt_0d 2 d
           | (None, Some m, None) \<Rightarrow> ''--'' @ fmt_0d 2 m
           | (None, None, Some d) \<Rightarrow> ''---'' @ fmt_0d 2 d
           | (None, None, None) \<Rightarrow> []))"

text \<open>The dates a text can carry: parts in range, none missing between two that are there.\<close>

definition part_ok :: "int \<Rightarrow> int option \<Rightarrow> bool" where
  "part_ok bound p \<longleftrightarrow> (case p of None \<Rightarrow> True | Some i \<Rightarrow> 0 \<le> i \<and> i < bound)"

definition writable_date :: "partial_date \<Rightarrow> bool" where
  "writable_date p \<longleftrightarrow> part_ok 10000 (pd_year p) \<and> part_ok 100 (pd_month p) \<and> part_ok 100 (pd_day p) \<and> pd_scale p = [] \<and>
     \<not> (pd_year p = None \<and> pd_month p = None \<and> pd_day p = None) \<and>
     \<not> (pd_year p \<noteq> None \<and> pd_month p = None \<and> pd_day p \<noteq> None)"

lemma pad_no_dash: "n < 100 \<Longrightarrow> remove_char CHR ''-'' (pad2 n) = pad2 n" "y < 10000 \<Longrightarrow> remove_char CHR ''-'' (pad4 y) = pad4 y"
  using digits_no_dash [OF digits_pad2 [of n]] digits_no_dash [OF digits_pad4 [of y]]
  by (auto simp: remove_char_def filter_id_conv)

lemma remove_char_append: "remove_char c (a @ b) = remove_char c a @ remove_char c b" "remove_char c [c] = []"
  by (simp_all add: remove_char_def)

lemma pad4_no_prefix: "y < 10000 \<Longrightarrow> \<not> has_prefix (pad4 y @ s) ''--''" "y < 10000 \<Longrightarrow> \<not> has_prefix (pad4 y @ s) ''---''"
  "y < 10000 \<Longrightarrow> pad4 y @ s \<noteq> []"
  using not_digit_sign [OF is_digit_digit_char [of "y div 1000"]] by (auto simp: pad4_def)

lemma pad2_no_prefix: "n < 100 \<Longrightarrow> \<not> has_prefix (''--'' @ pad2 n @ s) ''---''"
  using not_digit_sign [OF is_digit_digit_char [of "n div 10"]] by (auto simp: pad2_def)

lemma pair_at_pads [simp]: "n < 100 \<Longrightarrow> pair_at (pad2 n @ s) 0 = Some (int n)"
  "n < 100 \<Longrightarrow> pair_at (pad2 m @ pad2 n @ s) 2 = Some (int n)"
  "n < 100 \<Longrightarrow> pair_at (pad4 y @ pad2 n @ s) 4 = Some (int n)"
  "n < 100 \<Longrightarrow> pair_at (pad4 y @ pad2 m @ pad2 n @ s) 6 = Some (int n)"
  by (simp_all add: pair_at_def slice_def)

lemma pair_at_short [simp]: "pair_at (pad2 n) 2 = None"
  by (simp add: pair_at_def)

lemma part_nat: "part_ok (int b) (Some i) \<Longrightarrow> \<exists>n. i = int n \<and> n < b"
  by (auto simp: part_ok_def intro!: exI [of _ "nat i"])

definition mk_date :: "int option \<Rightarrow> int option \<Rightarrow> int option \<Rightarrow> partial_date" where
  "mk_date y m d = \<lparr>pd_year = y, pd_month = m, pd_day = d, pd_scale = []\<rparr>"

lemma remove_dash_Cons: "remove_char CHR ''-'' (CHR ''-'' # s) = remove_char CHR ''-'' s"
  by (simp add: remove_char_def)

lemma ymd_digits: "Y < 10000 \<Longrightarrow> M < 100 \<Longrightarrow> D < 100 \<Longrightarrow>
    remove_char CHR ''-'' (pad4 Y @ CHR ''-'' # pad2 M @ CHR ''-'' # pad2 D) = pad4 Y @ pad2 M @ pad2 D"
  "Y < 10000 \<Longrightarrow> M < 100 \<Longrightarrow> remove_char CHR ''-'' (pad4 Y @ CHR ''-'' # pad2 M) = pad4 Y @ pad2 M"
  "M < 100 \<Longrightarrow> D < 100 \<Longrightarrow> remove_char CHR ''-'' (pad2 M @ CHR ''-'' # pad2 D) = pad2 M @ pad2 D"
  by (simp_all only: remove_char_append(1) remove_dash_Cons pad_no_dash)

lemma parse_ymd: "Y < 10000 \<Longrightarrow> M < 100 \<Longrightarrow> D < 100 \<Longrightarrow>
    parsePartialDate (pad4 Y @ CHR ''-'' # pad2 M @ CHR ''-'' # pad2 D) = Some (mk_date (Some (int Y)) (Some (int M)) (Some (int D)))"
  using pair_at_pads(3) [of M Y "pad2 D"] pair_at_pads(4) [of D Y M "[]"]
  by (simp add: parsePartialDate_def Let_def pad4_no_prefix ymd_digits mk_date_def)

lemma parse_ym: "Y < 10000 \<Longrightarrow> M < 100 \<Longrightarrow>
    parsePartialDate (pad4 Y @ CHR ''-'' # pad2 M) = Some (mk_date (Some (int Y)) (Some (int M)) None)"
  using pair_at_pads(3) [of M Y "[]"] by (simp add: parsePartialDate_def Let_def pad4_no_prefix ymd_digits mk_date_def)

lemma parse_y: "Y < 10000 \<Longrightarrow> parsePartialDate (pad4 Y) = Some (mk_date (Some (int Y)) None None)"
  using pad4_no_prefix [of Y "[]"] by (simp add: parsePartialDate_def Let_def pad_no_dash mk_date_def)

lemma parse_md: "M < 100 \<Longrightarrow> D < 100 \<Longrightarrow>
    parsePartialDate (''--'' @ pad2 M @ CHR ''-'' # pad2 D) = Some (mk_date None (Some (int M)) (Some (int D)))"
  using pad2_no_prefix [of M "CHR ''-'' # pad2 D"] pair_at_pads(1) [of M "pad2 D"] pair_at_pads(2) [of D M "[]"]
  by (simp add: parsePartialDate_def Let_def ymd_digits mk_date_def)

lemma parse_m: "M < 100 \<Longrightarrow> parsePartialDate (''--'' @ pad2 M) = Some (mk_date None (Some (int M)) None)"
  using pad2_no_prefix [of M "[]"] pair_at_pads(1) [of M "[]"] by (simp add: parsePartialDate_def Let_def pad_no_dash mk_date_def)

lemma parse_d: "D < 100 \<Longrightarrow> parsePartialDate (''---'' @ pad2 D) = Some (mk_date None None (Some (int D)))"
  using pair_at_pads(1) [of D "[]"] by (simp add: parsePartialDate_def Let_def mk_date_def)

lemmas parse_dates = parse_ymd parse_ym parse_y parse_md parse_m parse_d

lemma part_cases: "part_ok (int b) p \<Longrightarrow> p = None \<or> (\<exists>n. p = Some (int n) \<and> n < b)"
  using part_nat by (cases p) auto

lemma parse_format_date:
  assumes "writable_date p"
  shows "parsePartialDate (formatPartialDate (Some p)) = Some p"
proof -
  obtain y m d where p: "p = mk_date y m d" using assms by (cases p) (auto simp: writable_date_def mk_date_def)
  have w: "part_ok (int 10000) y" "part_ok (int 100) m" "part_ok (int 100) d"
    and some: "\<not> (y = None \<and> m = None \<and> d = None)" "\<not> (y \<noteq> None \<and> m = None \<and> d \<noteq> None)"
    using assms by (simp_all add: writable_date_def p mk_date_def)
  have "parsePartialDate (formatPartialDate (Some (mk_date y m d))) = Some (mk_date y m d)"
    using part_cases [OF w(1)] part_cases [OF w(2)] part_cases [OF w(3)] some
    by (elim disjE exE conjE) (simp_all add: formatPartialDate_def parse_dates [unfolded mk_date_def, simplified] mk_date_def)
  then show ?thesis by (simp add: p)
qed

section \<open>Timestamps\<close>

text \<open>The pieces a layout is read with: a fixed number of digits, an hour of one or two, a literal, a fraction that no
  layout names but any seconds field accepts.\<close>

definition fixed_num :: "nat \<Rightarrow> string \<Rightarrow> (int \<times> string) option" where
  "fixed_num n s = (if n \<le> length s \<and> list_all is_digit (take n s) then Some (int (digits_val (take n s)), drop n s) else None)"

definition hour_num :: "string \<Rightarrow> (int \<times> string) option" where
  "hour_num s = (case fixed_num 2 s of Some r \<Rightarrow> Some r | None \<Rightarrow> fixed_num 1 s)"

definition literal :: "char \<Rightarrow> string \<Rightarrow> string option" where
  "literal c s = (case s of [] \<Rightarrow> None | x # r \<Rightarrow> if x = c then Some r else None)"

definition skip_fraction :: "string \<Rightarrow> string" where
  "skip_fraction s = (case s of p # d # r \<Rightarrow> if (p = CHR ''.'' \<or> p = CHR '','') \<and> is_digit d then dropWhile is_digit (d # r) else s | _ \<Rightarrow> s)"

datatype zone_form = Colon | Joined | Hours

definition read_zone :: "zone_form \<Rightarrow> string \<Rightarrow> (int \<times> string) option" where
  "read_zone form s =
     (case s of [] \<Rightarrow> None
      | c # r \<Rightarrow>
          if c = CHR ''Z'' then Some (0, r)
          else do {
            sgn \<leftarrow> (if c = CHR ''+'' then Some 1 else if c = CHR ''-'' then Some (- 1) else None);
            (hh, r) \<leftarrow> fixed_num 2 r;
            (mm, r) \<leftarrow> (case form of
                Colon \<Rightarrow> do { r \<leftarrow> literal CHR '':'' r; fixed_num 2 r }
              | Joined \<Rightarrow> fixed_num 2 r
              | Hours \<Rightarrow> Some (0, r));
            if hh > 24 \<or> mm > 60 then None else Some (sgn * (3600 * hh + 60 * mm), r) })"

definition read_date :: "bool \<Rightarrow> string \<Rightarrow> (int \<times> string) option" where
  "read_date dashed s = do {
     (y, r) \<leftarrow> fixed_num 4 s;
     r \<leftarrow> (if dashed then literal CHR ''-'' r else Some r);
     (m, r) \<leftarrow> fixed_num 2 r;
     if m < 1 \<or> m > 12 then None else do {
     r \<leftarrow> (if dashed then literal CHR ''-'' r else Some r);
     (d, r) \<leftarrow> fixed_num 2 r;
     if d < 1 \<or> d > days_in_month y m then None else Some (go_date y m d, r) }}"

definition read_clock :: "bool \<Rightarrow> string \<Rightarrow> (int \<times> string) option" where
  "read_clock dashed s = do {
     (h, r) \<leftarrow> hour_num s;
     r \<leftarrow> (if dashed then literal CHR '':'' r else Some r);
     (m, r) \<leftarrow> fixed_num 2 r;
     r \<leftarrow> (if dashed then literal CHR '':'' r else Some r);
     (sec, r) \<leftarrow> fixed_num 2 r;
     if h > 23 \<or> m > 59 \<or> sec > 59 then None else Some (3600 * h + 60 * m + sec, skip_fraction r) }"

definition time_parse :: "bool \<Rightarrow> zone_form \<Rightarrow> string \<Rightarrow> int option" where
  "time_parse dashed form s = do {
     (day, r) \<leftarrow> read_date dashed s;
     r \<leftarrow> literal CHR ''T'' r;
     (clock, r) \<leftarrow> read_clock dashed r;
     (off, r) \<leftarrow> read_zone form r;
     if r = [] then Some (86400 * day + clock - off) else None }"

text \<open>A year is written with four digits at least, its sign in front.\<close>

definition year_text :: "int \<Rightarrow> string" where
  "year_text y = (if y < 0 then CHR ''-'' # zero_pad 4 (show_nat (nat (- y))) else zero_pad 4 (show_nat (nat y)))"

definition format_utc :: "bool \<Rightarrow> int \<Rightarrow> string" where
  "format_utc dashed t =
     (let day = t div 86400; s = nat (t mod 86400);
          sep = (\<lambda>c. if dashed then [c] else [])
      in year_text (year_of day) @ sep CHR ''-'' @ pad2 (nat (month_of day)) @ sep CHR ''-'' @ pad2 (nat (day_of day)) @ ''T'' @
         pad2 (s div 3600) @ sep CHR '':'' @ pad2 (s div 60 mod 60) @ sep CHR '':'' @ pad2 (s mod 60) @ ''Z'')"

definition rfc3339ToVCardTimestamp :: "string \<Rightarrow> string" where
  "rfc3339ToVCardTimestamp s = (case time_parse True Colon s of None \<Rightarrow> s | Some t \<Rightarrow> format_utc False t)"

definition vcardDateTimeLayouts :: "(bool \<times> zone_form) list" where
  "vcardDateTimeLayouts = [(True, Colon), (True, Joined), (True, Hours), (False, Colon), (False, Joined), (False, Hours)]"

definition first_some :: "('a \<Rightarrow> 'b option) \<Rightarrow> 'a list \<Rightarrow> 'b option" where
  "first_some f xs = fold (\<lambda>x r. case r of Some y \<Rightarrow> Some y | None \<Rightarrow> f x) xs None"

definition parseVCardTimestamp :: "string \<Rightarrow> int option" where
  "parseVCardTimestamp v = first_some (\<lambda>(dashed, form). time_parse dashed form v) vcardDateTimeLayouts"

definition vcardTimestampToRFC3339 :: "string \<Rightarrow> string" where
  "vcardTimestampToRFC3339 v = (case parseVCardTimestamp v of Some t \<Rightarrow> format_utc True t | None \<Rightarrow> v)"

definition parseVCardDateAndOrTime :: "string \<Rightarrow> anniversary_date" where
  "parseVCardDateAndOrTime v =
     (if CHR ''T'' \<in> set v
      then \<lparr>an_partial = None, an_timestamp = Some (case parseVCardTimestamp v of Some t \<Rightarrow> format_utc True t | None \<Rightarrow> v)\<rparr>
      else \<lparr>an_partial = parsePartialDate v, an_timestamp = None\<rparr>)"

definition formatAnniversaryDate4 :: "anniversary_date \<Rightarrow> string" where
  "formatAnniversaryDate4 d =
     (if an_partial d \<noteq> None then formatPartialDate (an_partial d) else case an_timestamp d of Some t \<Rightarrow> t | None \<Rightarrow> [])"

definition isZeroAnniversaryDate :: "anniversary_date \<Rightarrow> bool" where
  "isZeroAnniversaryDate d \<longleftrightarrow> an_partial d = None \<and> an_timestamp d = None"

section \<open>A written timestamp reads back\<close>

lemma fixed_num_pad2 [simp]: "n < 100 \<Longrightarrow> fixed_num 2 (pad2 n @ r) = Some (int n, r)"
  by (simp add: fixed_num_def digits_val_pad2)

lemma fixed_num_pad4 [simp]: "n < 10000 \<Longrightarrow> fixed_num 4 (pad4 n @ r) = Some (int n, r)"
  by (simp add: fixed_num_def digits_val_pad4)

lemma hour_num_pad2 [simp]: "n < 100 \<Longrightarrow> hour_num (pad2 n @ r) = Some (int n, r)"
  by (simp add: hour_num_def)

lemma literal_Cons [simp]: "literal c (c # r) = Some r"
  by (simp add: literal_def)

lemma year_text_pad4: "0 \<le> y \<Longrightarrow> y < 10000 \<Longrightarrow> year_text y = pad4 (nat y)"
  using fmt_04d [of "nat y"] by (simp add: year_text_def fmt_0d_def)

definition in_years :: "int \<Rightarrow> bool" where
  "in_years t \<longleftrightarrow> 0 \<le> year_of (t div 86400) \<and> year_of (t div 86400) < 10000"

lemma read_date_pads:
  assumes "0 \<le> year_of n" and "year_of n < 10000"
  shows "read_date True (pad4 (nat (year_of n)) @ CHR ''-'' # pad2 (nat (month_of n)) @ CHR ''-'' # pad2 (nat (day_of n)) @ r) = Some (n, r)"
    and "read_date False (pad4 (nat (year_of n)) @ pad2 (nat (month_of n)) @ pad2 (nat (day_of n)) @ r) = Some (n, r)"
  using assms month_of_bounds [of n] day_of_bounds [of n] days_in_month_bounds(2) [of "year_of n" "month_of n"]
  by (simp_all add: read_date_def)

lemma clock_parts:
  fixes s :: nat assumes "s < 86400"
  shows "s div 3600 < 24" "s div 60 mod 60 < 60" "s mod 60 < 60" "3600 * (s div 3600) + 60 * (s div 60 mod 60) + s mod 60 = s"
proof -
  have "s div 3600 = s div 60 div 60" by (simp add: div_mult2_eq [symmetric])
  moreover have "60 * (s div 60) + s mod 60 = s" "60 * (s div 60 div 60) + s div 60 mod 60 = s div 60" by (rule mult_div_mod_eq)+
  ultimately show "3600 * (s div 3600) + 60 * (s div 60 mod 60) + s mod 60 = s" by linarith
qed (use assms in auto)

lemma read_clock_num:
  assumes "h < 24" and "m < 60" and "c < 60"
  shows "read_clock True (pad2 h @ CHR '':'' # pad2 m @ CHR '':'' # pad2 c @ ''Z'') = Some (3600 * int h + 60 * int m + int c, ''Z'')"
    and "read_clock False (pad2 h @ pad2 m @ pad2 c @ ''Z'') = Some (3600 * int h + 60 * int m + int c, ''Z'')"
  using assms by (simp_all add: read_clock_def skip_fraction_def)

lemma read_clock_pads:
  assumes "s < 86400"
  shows "read_clock True (pad2 (s div 3600) @ CHR '':'' # pad2 (s div 60 mod 60) @ CHR '':'' # pad2 (s mod 60) @ ''Z'') = Some (int s, ''Z'')"
    and "read_clock False (pad2 (s div 3600) @ pad2 (s div 60 mod 60) @ pad2 (s mod 60) @ ''Z'') = Some (int s, ''Z'')"
proof -
  note c = clock_parts [OF assms]
  have "3600 * int (s div 3600) + 60 * int (s div 60 mod 60) + int (s mod 60) = int (3600 * (s div 3600) + 60 * (s div 60 mod 60) + s mod 60)"
    by (simp only: of_nat_add of_nat_mult of_nat_numeral)
  then have e: "3600 * int (s div 3600) + 60 * int (s div 60 mod 60) + int (s mod 60) = int s" unfolding c(4) .
  show "read_clock True (pad2 (s div 3600) @ CHR '':'' # pad2 (s div 60 mod 60) @ CHR '':'' # pad2 (s mod 60) @ ''Z'') = Some (int s, ''Z'')"
    "read_clock False (pad2 (s div 3600) @ pad2 (s div 60 mod 60) @ pad2 (s mod 60) @ ''Z'') = Some (int s, ''Z'')"
    using read_clock_num [OF c(1-3)] unfolding e by simp_all
qed

lemma time_parse_format:
  assumes "in_years t"
  shows "time_parse dashed form (format_utc dashed t) = Some t"
proof -
  let ?day = "t div 86400" and ?s = "nat (t mod 86400)"
  have s: "?s < 86400" "int ?s = t mod 86400" by simp_all
  have t: "86400 * ?day + int ?s = t" using s(2) by simp
  note y = assms [unfolded in_years_def]
  show ?thesis
    using read_date_pads [OF y [THEN conjunct1] y [THEN conjunct2]] read_clock_pads [OF s(1)] t
    by (cases dashed) (simp_all add: time_parse_def format_utc_def Let_def year_text_pad4 y read_zone_def)
qed

text \<open>The stamps that a record holds in the form the adapter writes.\<close>

definition utc_stamp :: "string \<Rightarrow> bool" where
  "utc_stamp s \<longleftrightarrow> (case time_parse True Colon s of None \<Rightarrow> False | Some t \<Rightarrow> in_years t \<and> s = format_utc True t)"

lemma dashed_refuses_compact:
  assumes "in_years t"
  shows "time_parse True form (format_utc False t) = None"
proof -
  have "is_digit (hd (pad2 (nat (month_of (t div 86400)))))" using month_of_bounds [of "t div 86400"] by (simp add: pad2_def)
  then have "hd (pad2 (nat (month_of (t div 86400)))) \<noteq> CHR ''-''" using not_digit_sign by blast
  then have "literal CHR ''-'' (pad2 (nat (month_of (t div 86400))) @ r) = None" for r by (simp add: literal_def pad2_def)
  moreover have "0 \<le> year_of (t div 86400)" "year_of (t div 86400) < 10000" "nat (year_of (t div 86400)) < 10000"
    using assms by (simp_all add: in_years_def nat_less_iff)
  ultimately show ?thesis by (simp add: time_parse_def format_utc_def Let_def read_date_def year_text_pad4)
qed

lemma parse_stamp:
  assumes "in_years t"
  shows "parseVCardTimestamp (format_utc dashed t) = Some t"
  using time_parse_format [OF assms] dashed_refuses_compact [OF assms]
  by (cases dashed) (simp_all add: parseVCardTimestamp_def first_some_def vcardDateTimeLayouts_def)

text \<open>A stamp in the canonical form comes back from the compact form of the wire.\<close>

lemma stamp_roundtrip: "utc_stamp s \<Longrightarrow> vcardTimestampToRFC3339 (rfc3339ToVCardTimestamp s) = s"
  by (auto simp: utc_stamp_def rfc3339ToVCardTimestamp_def vcardTimestampToRFC3339_def parse_stamp split: option.splits)

lemma stamp_not_Nil: "utc_stamp s \<Longrightarrow> rfc3339ToVCardTimestamp s \<noteq> []"
  by (auto simp: utc_stamp_def rfc3339ToVCardTimestamp_def format_utc_def Let_def split: option.splits)

lemma stamp_has_T: "utc_stamp s \<Longrightarrow> CHR ''T'' \<in> set s"
  by (auto simp: utc_stamp_def format_utc_def Let_def split: option.splits)

text \<open>The dates of an anniversary that come back as they went out.\<close>

definition writable_anniversary_date :: "anniversary_date \<Rightarrow> bool" where
  "writable_anniversary_date d \<longleftrightarrow>
     (case (an_partial d, an_timestamp d) of
        (Some p, None) \<Rightarrow> writable_date p
      | (None, Some s) \<Rightarrow> utc_stamp s
      | _ \<Rightarrow> False)"

lemma partial_has_no_T:
  assumes "writable_date p"
  shows "CHR ''T'' \<notin> set (formatPartialDate (Some p))"
proof -
  obtain y m d where p: "p = mk_date y m d" using assms by (cases p) (auto simp: writable_date_def mk_date_def)
  have w: "part_ok (int 10000) y" "part_ok (int 100) m" "part_ok (int 100) d" using assms by (simp_all add: writable_date_def p mk_date_def)
  have no: "is_digit c \<Longrightarrow> c \<noteq> CHR ''T''" for c by (auto simp: is_digit_def)
  have "n < 100 \<Longrightarrow> CHR ''T'' \<notin> set (pad2 n)" "k < 10000 \<Longrightarrow> CHR ''T'' \<notin> set (pad4 k)" for n k
    using digits_pad2 [of n] digits_pad4 [of k] no by (auto simp: list_all_iff)
  then have "CHR ''T'' \<notin> set (formatPartialDate (Some (mk_date y m d)))"
    using part_cases [OF w(1)] part_cases [OF w(2)] part_cases [OF w(3)]
    by (elim disjE exE conjE) (simp_all add: formatPartialDate_def mk_date_def)
  then show ?thesis by (simp add: p)
qed

lemma vcard_date_roundtrip:
  assumes "writable_anniversary_date d"
  shows "parseVCardDateAndOrTime (formatAnniversaryDate4 d) = d" "\<not> isZeroAnniversaryDate d" "formatAnniversaryDate4 d \<noteq> []"
proof -
  consider (partial) p where "an_partial d = Some p" "an_timestamp d = None" "writable_date p"
    | (stamp) s where "an_partial d = None" "an_timestamp d = Some s" "utc_stamp s"
    using assms by (auto simp: writable_anniversary_date_def split: option.splits)
  then have "parseVCardDateAndOrTime (formatAnniversaryDate4 d) = d \<and> \<not> isZeroAnniversaryDate d \<and> formatAnniversaryDate4 d \<noteq> []"
  proof cases
    case partial
    have "formatPartialDate (Some p) \<noteq> []" using parse_format_date [OF partial(3)] by (auto simp: parsePartialDate_def)
    then show ?thesis using partial partial_has_no_T [OF partial(3)] parse_format_date [OF partial(3)]
      by (simp add: parseVCardDateAndOrTime_def formatAnniversaryDate4_def isZeroAnniversaryDate_def)
  next
    case stamp
    then obtain t where t: "in_years t" "s = format_utc True t" by (auto simp: utc_stamp_def split: option.splits)
    have "s \<noteq> []" using stamp_has_T [OF stamp(3)] by auto
    then show ?thesis using stamp stamp_has_T [OF stamp(3)] parse_stamp [OF t(1), of True] t(2)
      by (simp add: parseVCardDateAndOrTime_def formatAnniversaryDate4_def isZeroAnniversaryDate_def)
  qed
  then show "parseVCardDateAndOrTime (formatAnniversaryDate4 d) = d" "\<not> isZeroAnniversaryDate d" "formatAnniversaryDate4 d \<noteq> []" by simp_all
qed

end
