(* ===== verification/VCard4.thy ===== *)
theory VCard4 imports VCardDates begin

text \<open>
  The vCard 4.0 adapter (\<^verbatim>\<open>vcard4/adapter.go\<close>): the steps of \<^verbatim>\<open>Import\<close> and of \<^verbatim>\<open>Export\<close> between the neutral record and the
  fields of a card, in the order of the code. A diagnostic is its severity and its concept; the text is left out.
\<close>

type_synonym diagnostic = "string \<times> string"

section \<open>Identity\<close>

definition stamp_of :: "string \<Rightarrow> timestamp" where
  "stamp_of v = \<lparr>ts_utc = vcardTimestampToRFC3339 v\<rparr>"

definition importIdentity :: "vcard \<Rightarrow> card \<Rightarrow> card" where
  "importIdentity vc cd =
     (let keep = (\<lambda>p old. if card_value vc p \<noteq> [] then card_value vc p else old);
          stamp = (\<lambda>p old. if card_value vc p \<noteq> [] then Some (stamp_of (card_value vc p)) else old)
      in cd\<lparr>cd_uid := keep ''UID'' (cd_uid cd), cd_kind := keep ''KIND'' (cd_kind cd), cd_prod_id := keep ''PRODID'' (cd_prod_id cd),
            cd_updated := stamp ''REV'' (cd_updated cd), cd_created := stamp ''CREATED'' (cd_created cd),
            cd_language := keep ''LANGUAGE'' (cd_language cd)\<rparr>)"

definition set_unless_empty :: "string \<Rightarrow> string \<Rightarrow> vcard \<Rightarrow> vcard" where
  "set_unless_empty p v vc = (if v = [] then vc else card_set_value p v vc)"

definition set_stamp :: "string \<Rightarrow> timestamp option \<Rightarrow> vcard \<Rightarrow> vcard" where
  "set_stamp p t vc = (case t of None \<Rightarrow> vc | Some s \<Rightarrow> card_set_value p (rfc3339ToVCardTimestamp (ts_utc s)) vc)"

definition exportIdentity :: "card \<Rightarrow> vcard \<Rightarrow> vcard" where
  "exportIdentity cd = set_unless_empty ''LANGUAGE'' (cd_language cd) o set_stamp ''CREATED'' (cd_created cd) o
     set_stamp ''REV'' (cd_updated cd) o set_unless_empty ''PRODID'' (cd_prod_id cd) o
     set_unless_empty ''KIND'' (cd_kind cd) o set_unless_empty ''UID'' (cd_uid cd)"

section \<open>Names\<close>

definition n_kinds :: "(string \<times> (n_components \<Rightarrow> string)) list" where
  "n_kinds = [(''surname'', n_family), (''given'', n_given), (''given2'', n_additional), (''title'', n_prefix),
     (''credential'', n_suffix), (''surname2'', n_surname2), (''generation'', n_generation)]"

definition name_components_of :: "n_components \<Rightarrow> name_component list" where
  "name_components_of nc = List.map_filter (\<lambda>(k, get). if get nc = [] then None
     else Some \<lparr>nc_kind = k, nc_value = get nc, nc_phonetic = []\<rparr>) n_kinds"

text \<open>The first component of the kind takes the sound.\<close>

fun set_phonetic :: "string \<Rightarrow> string \<Rightarrow> name_component list \<Rightarrow> name_component list" where
  "set_phonetic kind v [] = []"
| "set_phonetic kind v (c # cs) = (if nc_kind c = kind then c\<lparr>nc_phonetic := v\<rparr> # cs else c # set_phonetic kind v cs)"

definition set_phonetics :: "n_components \<Rightarrow> name_component list \<Rightarrow> name_component list" where
  "set_phonetics pc cs = fold (\<lambda>(k, get) cs. if get pc = [] then cs else set_phonetic k (get pc) cs) n_kinds cs"

definition importName :: "vcard \<Rightarrow> card \<Rightarrow> card \<times> diagnostic list" where
  "importName vc cd =
     (let nFields = card_fields vc ''N''; fns = card_fields vc ''FN''
      in if nFields = [] \<and> fns = [] then (cd, [])
         else
           (let comps = (case find (\<lambda>f. paramValue f ''PHONETIC'' = []) nFields of
                           None \<Rightarrow> [] | Some f \<Rightarrow> name_components_of (disassembleN (vf_value f)));
                phonetic = find (\<lambda>f. paramValue f ''PHONETIC'' \<noteq> []) nFields;
                comps = (case phonetic of None \<Rightarrow> comps | Some f \<Rightarrow> set_phonetics (disassembleN (vf_value f)) comps);
                derived = (case fns of [] \<Rightarrow> False | f # _ \<Rightarrow> paramIsTrue f ''DERIVED'');
                name = \<lparr>nm_components = comps,
                        nm_full = (case fns of [] \<Rightarrow> [] | f # _ \<Rightarrow> if derived then [] else vf_value f),
                        nm_sort_as = None, nm_is_ordered = None, nm_separator = [],
                        nm_phonetic_system = (case phonetic of None \<Rightarrow> [] | Some f \<Rightarrow> paramValue f ''PHONETIC''),
                        nm_phonetic_script = (case phonetic of None \<Rightarrow> [] | Some f \<Rightarrow> paramValue f ''SCRIPT'')\<rparr>
            in (if comps \<noteq> [] \<or> nm_full name \<noteq> [] \<or> nm_phonetic_script name \<noteq> [] \<or> nm_phonetic_system name \<noteq> []
                then cd\<lparr>cd_name := Some name\<rparr> else cd,
                if derived then [(''info'', ''name.full'')] else [])))"

definition deriveFullName :: "n_components \<Rightarrow> string" where
  "deriveFullName nc = join_with '' '' (filter (\<lambda>p. p \<noteq> []) [n_prefix nc, n_given nc, n_additional nc, n_family nc, n_suffix nc,
     n_surname2 nc, n_generation nc])"

text \<open>The value of the first component of a kind, and the last sound that is not empty.\<close>

definition comp_value :: "name_component list \<Rightarrow> string \<Rightarrow> string" where
  "comp_value cs k = (case find (\<lambda>c. nc_kind c = k) cs of None \<Rightarrow> [] | Some c \<Rightarrow> nc_value c)"

definition comp_phonetic :: "name_component list \<Rightarrow> string \<Rightarrow> string" where
  "comp_phonetic cs k = (case filter (\<lambda>c. nc_kind c = k \<and> nc_phonetic c \<noteq> []) cs of [] \<Rightarrow> [] | ds \<Rightarrow> nc_phonetic (last ds))"

definition n_from :: "(string \<Rightarrow> string) \<Rightarrow> n_components" where
  "n_from g = \<lparr>n_family = g ''surname'', n_given = g ''given'', n_additional = g ''given2'', n_prefix = g ''title'',
     n_suffix = g ''credential'', n_surname2 = g ''surname2'', n_generation = g ''generation''\<rparr>"

definition exportName :: "card \<Rightarrow> vcard \<Rightarrow> vcard \<times> diagnostic list" where
  "exportName cd vc =
     (let n = (case cd_name cd of Some n \<Rightarrow> n
               | None \<Rightarrow> \<lparr>nm_components = [], nm_full = [], nm_sort_as = None, nm_is_ordered = None, nm_separator = [],
                          nm_phonetic_system = [], nm_phonetic_script = []\<rparr>);
          cs = nm_components n;
          nc = n_from (comp_value cs);
          pc = n_from (comp_phonetic cs);
          sounds = (nm_phonetic_script n \<noteq> [] \<or> nm_phonetic_system n \<noteq> []) \<and> list_ex (\<lambda>(k, get). get pc \<noteq> []) n_kinds;
          alt = (\<lambda>f. if sounds then setParam ''ALTID'' ''1'' f else f);
          full = (if nm_full n = [] \<and> cs \<noteq> [] then deriveFullName nc else nm_full n);
          derived = nm_full n = [] \<and> cs \<noteq> [] \<and> full \<noteq> [];
          fn = (if derived then setParam ''DERIVED'' ''TRUE'' else id) (field full);
          vc1 = (if cs \<noteq> [] then card_add ''N'' (alt (field (assembleN nc))) vc else vc);
          vc2 = card_add ''FN'' fn vc1
      in (if sounds
          then card_add ''N'' (setParam ''SCRIPT'' (nm_phonetic_script n) (setParam ''PHONETIC'' (nm_phonetic_system n)
                 (setParam ''ALTID'' ''1'' (field (assembleN pc))))) vc2
          else vc2,
          if full = [] then [(''warn'', ''name.full'')] else []))"

section \<open>Nicknames, organizations, titles\<close>

definition nickname_pieces :: "vcard \<Rightarrow> (vfield \<times> string) list" where
  "nickname_pieces vc = concat (map (\<lambda>f. map (Pair f) (filter (\<lambda>s. s \<noteq> []) (map trim_space (split_on CHR '','' (vf_value f)))))
     (card_fields vc ''NICKNAME''))"

definition importNicknames :: "vcard \<Rightarrow> card \<Rightarrow> card" where
  "importNicknames vc cd = cd\<lparr>cd_nicknames := cd_nicknames cd @ map (\<lambda>(i, f, s). \<lparr>nk_id = idOrSynthetic (propID f) ''nick'' i,
     nk_name = s, nk_contexts = fst (splitTypeTokens f), nk_pref = prefOf f\<rparr>) (enumerate 0 (nickname_pieces vc))\<rparr>"

definition nickname_field :: "nat \<Rightarrow> nickname \<Rightarrow> vfield" where
  "nickname_field i n = setPropID (idOrSynthetic (nk_id n) ''nick'' i) (setPref (nk_pref n)
     (addTypeTokens (contextsToTypeTokens (nk_contexts n)) (field (nk_name n))))"

definition exportNicknames :: "card \<Rightarrow> vcard \<Rightarrow> vcard" where
  "exportNicknames cd vc = vc @ List.map_filter (\<lambda>(i, n). if nk_name n = [] then None else Some (''NICKNAME'', nickname_field i n))
     (enumerate 0 (cd_nicknames cd))"

definition org_in :: "nat \<Rightarrow> vfield \<Rightarrow> organization" where
  "org_in i f =
     (let parts = splitComponents (vf_value f)
      in \<lparr>org_id = idOrSynthetic (propID f) ''org'' i, org_name = component parts 0,
          org_units = map (\<lambda>u. \<lparr>ou_name = u, ou_sort_as = []\<rparr>) (filter (\<lambda>u. u \<noteq> []) (tl parts)), org_sort_as = []\<rparr>)"

definition group_ids :: "vcard \<Rightarrow> (string \<times> string) list" where
  "group_ids vc = rev (List.map_filter (\<lambda>(i, f). if vf_group f = [] then None
     else Some (to_lower (vf_group f), idOrSynthetic (propID f) ''org'' i)) (enumerate 0 (card_fields vc ''ORG'')))"

definition importOrganizations :: "vcard \<Rightarrow> card \<Rightarrow> card \<times> (string \<times> string) list" where
  "importOrganizations vc cd =
     (cd\<lparr>cd_organizations := cd_organizations cd @ map (\<lambda>(i, f). org_in i f) (enumerate 0 (card_fields vc ''ORG''))\<rparr>, group_ids vc)"

definition title_in :: "(string \<times> string) list \<Rightarrow> nat \<Rightarrow> string \<times> vfield \<Rightarrow> title" where
  "title_in groups i = (\<lambda>(kind, f). \<lparr>ti_id = idOrSynthetic (propID f) ''title'' i, ti_name = vf_value f, ti_kind = kind,
     ti_organization = (if vf_group f = [] then [] else case map_of groups (to_lower (vf_group f)) of None \<Rightarrow> [] | Some g \<Rightarrow> g)\<rparr>)"

definition importTitles :: "vcard \<Rightarrow> (string \<times> string) list \<Rightarrow> card \<Rightarrow> card" where
  "importTitles vc groups cd = cd\<lparr>cd_titles := cd_titles cd @ map (\<lambda>(i, e). title_in groups i e)
     (enumerate 0 (map (Pair ''title'') (card_fields vc ''TITLE'') @ map (Pair ''role'') (card_fields vc ''ROLE'')))\<rparr>"

definition org_parts :: "organization \<Rightarrow> string list" where
  "org_parts o1 = org_name o1 # filter (\<lambda>u. u \<noteq> []) (map ou_name (org_units o1))"

definition org_step :: "title list \<Rightarrow> nat \<times> organization \<Rightarrow> nat \<times> (string \<times> string) list \<times> vcard \<Rightarrow>
  nat \<times> (string \<times> string) list \<times> vcard" where
  "org_step titles = (\<lambda>(i, o1) (n, groups, out).
     (let eid = idOrSynthetic (org_id o1) ''org'' i;
          refs = filter (\<lambda>x. x \<noteq> []) (map ti_organization titles)
      in if list_all (\<lambda>p. p = []) (org_parts o1) then (n, groups, out)
         else if org_id o1 \<in> set refs \<or> eid \<in> set refs
         then (n + 1, (eid, ''group'' @ show_nat (n + 1)) # (org_id o1, ''group'' @ show_nat (n + 1)) # groups,
               out @ [(''ORG'', setPropID eid \<lparr>vf_value = joinComponents (org_parts o1), vf_params = [],
                                              vf_group = ''group'' @ show_nat (n + 1)\<rparr>)])
         else (n, groups, out @ [(''ORG'', setPropID eid (field (joinComponents (org_parts o1))))])))"

definition exportOrganizations :: "card \<Rightarrow> vcard \<Rightarrow> vcard \<times> (string \<times> string) list" where
  "exportOrganizations cd vc =
     (case fold (org_step (cd_titles cd)) (enumerate 0 (cd_organizations cd)) (0, [], vc) of (n, groups, out) \<Rightarrow> (out, groups))"

definition title_field :: "(string \<times> string) list \<Rightarrow> nat \<Rightarrow> title \<Rightarrow> vfield" where
  "title_field groups i t = setPropID (idOrSynthetic (ti_id t) ''title'' i)
     \<lparr>vf_value = ti_name t, vf_params = [],
      vf_group = (if ti_organization t = [] then [] else case map_of groups (ti_organization t) of None \<Rightarrow> [] | Some g \<Rightarrow> g)\<rparr>"

definition exportTitles :: "card \<Rightarrow> (string \<times> string) list \<Rightarrow> vcard \<Rightarrow> vcard" where
  "exportTitles cd groups vc = vc @ map (\<lambda>(i, t). (if ti_kind t = ''role'' then ''ROLE'' else ''TITLE'', title_field groups i t))
     (enumerate 0 (cd_titles cd))"

section \<open>E-mails, phones, online services\<close>

definition email_in :: "nat \<Rightarrow> vfield \<Rightarrow> email" where
  "email_in i f = \<lparr>em_id = idOrSynthetic (propID f) ''email'' i, em_address = vf_value f, em_contexts = fst (splitTypeTokens f),
     em_pref = prefOf f, em_label = []\<rparr>"

definition importEmails :: "vcard \<Rightarrow> card \<Rightarrow> card" where
  "importEmails vc cd = cd\<lparr>cd_emails := cd_emails cd @ map (\<lambda>(i, f). email_in i f) (enumerate 0 (card_fields vc ''EMAIL''))\<rparr>"

definition email_field :: "nat \<Rightarrow> email \<Rightarrow> vfield" where
  "email_field i e = setPropID (idOrSynthetic (em_id e) ''email'' i) (setPref (em_pref e)
     (addTypeTokens (contextsToTypeTokens (em_contexts e)) (field (em_address e))))"

definition exportEmails :: "card \<Rightarrow> vcard \<Rightarrow> vcard \<times> diagnostic list" where
  "exportEmails cd vc = (vc @ map (\<lambda>(i, e). (''EMAIL'', email_field i e)) (enumerate 0 (cd_emails cd)),
     map (\<lambda>_. (''warn'', ''email.label'')) (filter (\<lambda>e. em_label e \<noteq> []) (cd_emails cd)))"

definition phone_in :: "nat \<Rightarrow> vfield \<Rightarrow> phone" where
  "phone_in i f = \<lparr>ph_id = idOrSynthetic (propID f) ''phone'' i, ph_number = vf_value f, ph_features = snd (splitTypeTokens f),
     ph_contexts = fst (splitTypeTokens f), ph_pref = prefOf f, ph_label = []\<rparr>"

definition importPhones :: "vcard \<Rightarrow> card \<Rightarrow> card" where
  "importPhones vc cd = cd\<lparr>cd_phones := cd_phones cd @ map (\<lambda>(i, f). phone_in i f) (enumerate 0 (card_fields vc ''TEL''))\<rparr>"

definition phone_field :: "nat \<Rightarrow> phone \<Rightarrow> vfield" where
  "phone_field i p = setPropID (idOrSynthetic (ph_id p) ''phone'' i) (setPref (ph_pref p)
     (addTypeTokens (ph_features p) (addTypeTokens (contextsToTypeTokens (ph_contexts p)) (field (ph_number p)))))"

definition exportPhones :: "card \<Rightarrow> vcard \<Rightarrow> vcard \<times> diagnostic list" where
  "exportPhones cd vc = (vc @ map (\<lambda>(i, p). (''TEL'', phone_field i p)) (enumerate 0 (cd_phones cd)),
     map (\<lambda>_. (''warn'', ''phone.label'')) (filter (\<lambda>p. ph_label p \<noteq> []) (cd_phones cd)))"

definition impp_in :: "nat \<Rightarrow> vfield \<Rightarrow> online_service" where
  "impp_in i f = \<lparr>os_id = idOrSynthetic (propID f) ''svc'' i, os_service = paramValue f ''SERVICE-TYPE'', os_uri = vf_value f,
     os_user = paramValue f ''USERNAME'', os_contexts = fst (splitTypeTokens f), os_pref = prefOf f, os_label = []\<rparr>"

definition social_in :: "nat \<Rightarrow> vfield \<Rightarrow> online_service" where
  "social_in i f =
     (let text = equal_fold (paramValue f ''VALUE'') ''text''
      in \<lparr>os_id = idOrSynthetic (propID f) ''svc'' i, os_service = paramValue f ''SERVICE-TYPE'',
          os_uri = (if text then [] else vf_value f), os_user = (if text then vf_value f else paramValue f ''USERNAME''),
          os_contexts = fst (splitTypeTokens f), os_pref = prefOf f, os_label = []\<rparr>)"

text \<open>The index goes on from the one array to the other.\<close>

definition importOnlineServices :: "vcard \<Rightarrow> card \<Rightarrow> card" where
  "importOnlineServices vc cd =
     (let impps = card_fields vc ''IMPP''
      in cd\<lparr>cd_impp := cd_impp cd @ map (\<lambda>(i, f). impp_in i f) (enumerate 0 impps),
            cd_social := cd_social cd @ map (\<lambda>(i, f). social_in i f) (enumerate (length impps) (card_fields vc ''SOCIALPROFILE''))\<rparr>)"

definition service_rest :: "nat \<Rightarrow> online_service \<Rightarrow> vfield \<Rightarrow> vfield" where
  "service_rest i s f = setPropID (idOrSynthetic (os_id s) ''svc'' i) (setPref (os_pref s)
     (addTypeTokens (contextsToTypeTokens (os_contexts s)) (setParam ''SERVICE-TYPE'' (os_service s) f)))"

definition impp_field :: "nat \<Rightarrow> online_service \<Rightarrow> vfield" where
  "impp_field i s = service_rest i s (setParam ''USERNAME'' (os_user s) (field (os_uri s)))"

definition social_field :: "nat \<Rightarrow> online_service \<Rightarrow> vfield" where
  "social_field i s = service_rest i s (if os_uri s \<noteq> [] then setParam ''USERNAME'' (os_user s) (field (os_uri s))
     else setParam ''VALUE'' ''text'' (field (os_user s)))"

definition exportOnlineServices :: "card \<Rightarrow> vcard \<Rightarrow> vcard \<times> diagnostic list" where
  "exportOnlineServices cd vc = (vc @ map (\<lambda>(i, s). (''IMPP'', impp_field i s)) (enumerate 0 (cd_impp cd)) @
     map (\<lambda>(i, s). (''SOCIALPROFILE'', social_field i s)) (enumerate 0 (cd_social cd)),
     map (\<lambda>_. (''warn'', ''onlineservice.other'')) (cd_other_online cd))"

section \<open>Addresses\<close>

definition adr_kinds :: "(string \<times> (adr_components \<Rightarrow> string)) list" where
  "adr_kinds = [(''postOfficeBox'', a_pobox), (''name'', \<lambda>a. if a_street_name a \<noteq> [] then a_street_name a else a_street a),
     (''locality'', a_locality), (''region'', a_region), (''postcode'', a_code), (''country'', a_country), (''room'', a_room),
     (''apartment'', a_apartment), (''floor'', a_floor), (''number'', a_number), (''building'', a_building), (''block'', a_block),
     (''subdistrict'', a_subdistrict), (''district'', a_district), (''landmark'', a_landmark), (''direction'', a_direction)]"

definition adrComponentsToKindValues :: "adr_components \<Rightarrow> address_component list \<times> diagnostic list" where
  "adrComponentsToKindValues ac =
     (List.map_filter (\<lambda>(k, get). if get ac = [] then None else Some \<lparr>ac_kind = k, ac_value = get ac, ac_phonetic = []\<rparr>) adr_kinds,
      if a_ext ac \<noteq> [] then [(''warn'', ''adr'')] else [])"

definition adr_value :: "address_component list \<Rightarrow> string \<Rightarrow> string" where
  "adr_value cs k = (case find (\<lambda>c. ac_kind c = k) cs of None \<Rightarrow> [] | Some c \<Rightarrow> ac_value c)"

definition kindValuesToAdrComponents :: "address_component list \<Rightarrow> adr_components" where
  "kindValuesToAdrComponents cs =
     (let g = adr_value cs
      in \<lparr>a_pobox = g ''postOfficeBox'', a_ext = [],
          a_street = (if g ''name'' = [] then [] else if g ''number'' \<noteq> [] then g ''number'' @ '' '' @ g ''name'' else g ''name''),
          a_locality = g ''locality'', a_region = g ''region'', a_code = g ''postcode'', a_country = g ''country'',
          a_room = g ''room'', a_apartment = g ''apartment'', a_floor = g ''floor'', a_number = g ''number'',
          a_street_name = g ''name'', a_building = g ''building'', a_block = g ''block'', a_subdistrict = g ''subdistrict'',
          a_district = g ''district'', a_landmark = g ''landmark'', a_direction = g ''direction''\<rparr>)"

definition address_in :: "nat \<Rightarrow> vfield \<Rightarrow> address" where
  "address_in i f = \<lparr>ad_id = idOrSynthetic (propID f) ''addr'' i,
     ad_components = fst (adrComponentsToKindValues (disassembleAdr (vf_value f))), ad_country_code = paramValue f ''CC'',
     ad_coordinates = paramJoined f ''GEO'', ad_time_zone = paramValue f ''TZ'', ad_contexts = fst (splitTypeTokens f),
     ad_pref = prefOf f, ad_full = paramValue f ''LABEL'', ad_is_ordered = None, ad_separator = [], ad_phonetic_system = [],
     ad_phonetic_script = [], ad_sensitivity = []\<rparr>"

definition importAddresses :: "vcard \<Rightarrow> card \<Rightarrow> card \<times> diagnostic list" where
  "importAddresses vc cd =
     (cd\<lparr>cd_addresses := cd_addresses cd @ map (\<lambda>(i, f). address_in i f) (enumerate 0 (card_fields vc ''ADR''))\<rparr>,
      concat (map (\<lambda>f. snd (adrComponentsToKindValues (disassembleAdr (vf_value f)))) (card_fields vc ''ADR'')))"

text \<open>A coordinate leaves as a mark that is replaced in the finished text: the text to find and the one to put in.\<close>

definition geo_sentinel :: "nat \<Rightarrow> string" where
  "geo_sentinel i = ''VCARD4GEOSENTINEL'' @ show_nat i"

definition geo_splice :: "nat \<Rightarrow> string \<Rightarrow> string \<times> string" where
  "geo_splice i coords = (''GEO='' @ geo_sentinel i, ''GEO='' @ quotedParam coords)"

definition address_field :: "nat \<Rightarrow> address \<Rightarrow> vfield" where
  "address_field i a =
     (let f = setPropID (idOrSynthetic (ad_id a) ''addr'' i) (setPref (ad_pref a)
            (addTypeTokens (contextsToTypeTokens (ad_contexts a)) (setParam ''LABEL'' (ad_full a) (setParam ''TZ'' (ad_time_zone a)
              (setParam ''CC'' (ad_country_code a) (field (assembleAdr (kindValuesToAdrComponents (ad_components a)))))))))
      in if ad_coordinates a \<noteq> [] then setParam ''GEO'' (geo_sentinel i) f else f)"

definition exportAddresses :: "card \<Rightarrow> vcard \<Rightarrow> vcard \<times> (string \<times> string) list" where
  "exportAddresses cd vc = (vc @ map (\<lambda>(i, a). (''ADR'', address_field i a)) (enumerate 0 (cd_addresses cd)),
     map (\<lambda>(i, a). geo_splice i (ad_coordinates a)) (filter (\<lambda>(i, a). ad_coordinates a \<noteq> []) (enumerate 0 (cd_addresses cd))))"

section \<open>Unknown properties\<close>

definition json_strings :: "string list \<Rightarrow> raw_json" where
  "json_strings xs = ''['' @ join_with '','' (map json_string xs) @ '']''"

text \<open>What is read of a parameter: a string, or the strings of an array.\<close>

function read_array :: "nat \<Rightarrow> string \<Rightarrow> string list" where
  "read_array 0 s = []"
| "read_array (Suc n) s =
     (case get_json_string s of None \<Rightarrow> []
      | Some (x, r) \<Rightarrow> x # (case r of c # r' \<Rightarrow> if c = CHR '','' then read_array n r' else [] | [] \<Rightarrow> []))"
  by pat_completeness auto
termination by (relation "measure fst") auto

definition raw_strings :: "raw_json \<Rightarrow> string list" where
  "raw_strings raw =
     (case raw of [] \<Rightarrow> []
      | c # r \<Rightarrow> if c = CHR ''['' then read_array (length r) r
                else case get_json_string raw of None \<Rightarrow> [] | Some (s, _) \<Rightarrow> [s])"

definition raw_single :: "raw_json \<Rightarrow> string" where
  "raw_single raw = (case get_json_string raw of None \<Rightarrow> [] | Some (s, _) \<Rightarrow> s)"

definition fieldToJCardProp :: "string \<Rightarrow> vfield \<Rightarrow> jcard_prop" where
  "fieldToJCardProp name f =
     (let params = map (\<lambda>k. (to_lower k, json_strings (paramAll f k))) (remdups (map fst (vf_params f)))
      in \<lparr>jc_name = to_lower name,
          jc_params = (if vf_group f = [] then params
                       else filter (\<lambda>e. fst e \<noteq> ''group'') params @ [(''group'', json_string (vf_group f))]),
          jc_type = ''text'', jc_value = json_string (vf_value f)\<rparr>)"

definition to_upper_char :: "char \<Rightarrow> char" where
  "to_upper_char c = (let n = (of_char c :: nat) in if 97 \<le> n \<and> n \<le> 122 then char_of (n - 32) else c)"

definition to_upper :: "string \<Rightarrow> string" where
  "to_upper s = map to_upper_char s"

text \<open>A value that is not a JSON string is kept as its text; \<open>null\<close> is the empty string.\<close>

definition raw_text :: "raw_json \<Rightarrow> string" where
  "raw_text raw = (if raw = ''null'' then []
     else case get_json_string raw of Some (s, []) \<Rightarrow> s | _ \<Rightarrow> raw)"

definition jCardPropToField :: "jcard_prop \<Rightarrow> string \<times> vfield" where
  "jCardPropToField p =
     (let grp = filter (\<lambda>e. equal_fold (fst e) ''group'') (jc_params p);
          rest = filter (\<lambda>e. \<not> equal_fold (fst e) ''group'') (jc_params p)
      in (to_upper (jc_name p),
          \<lparr>vf_value = raw_text (jc_value p),
           vf_params = concat (map (\<lambda>(k, raw). map (Pair (to_upper k)) (raw_strings raw)) rest),
           vf_group = (case grp of [] \<Rightarrow> [] | _ \<Rightarrow> raw_single (snd (last grp)))\<rparr>))"

section \<open>Anniversaries\<close>

definition anniversary_in :: "nat \<Rightarrow> string \<times> vfield \<Rightarrow> anniversary" where
  "anniversary_in i = (\<lambda>(kind, f).
     (let date = parseVCardDateAndOrTime (vf_value f); scale = paramValue f ''CALSCALE''
      in \<lparr>an_id = idOrSynthetic (propID f) ''anniv'' i, an_kind = kind,
          an_date = (if scale \<noteq> [] then date\<lparr>an_partial := map_option (\<lambda>p. p\<lparr>pd_scale := scale\<rparr>) (an_partial date)\<rparr> else date),
          an_place = None\<rparr>))"

definition place_of :: "vfield \<Rightarrow> address option" where
  "place_of f =
     (let blank = \<lparr>ad_id = [], ad_components = [], ad_country_code = [], ad_coordinates = [], ad_time_zone = [], ad_contexts = [],
            ad_pref = None, ad_full = [], ad_is_ordered = None, ad_separator = [], ad_phonetic_system = [], ad_phonetic_script = [],
            ad_sensitivity = []\<rparr>
      in if equal_fold (paramValue f ''VALUE'') ''uri''
         then (if has_prefix (vf_value f) ''geo:'' then Some (blank\<lparr>ad_coordinates := vf_value f\<rparr>) else None)
         else Some (blank\<lparr>ad_full := vf_value f\<rparr>))"

text \<open>The first anniversary of the kind that has no place takes it; without one a new anniversary does.\<close>

fun put_place :: "string \<Rightarrow> address \<Rightarrow> anniversary list \<Rightarrow> anniversary list option" where
  "put_place kind a [] = None"
| "put_place kind a (x # xs) =
     (if an_kind x = kind \<and> an_place x = None then Some (x\<lparr>an_place := Some a\<rparr> # xs) else map_option (Cons x) (put_place kind a xs))"

type_synonym place_state = "anniversary list \<times> nat \<times> jcard_prop list \<times> diagnostic list"

definition attach_place :: "string \<Rightarrow> string \<Rightarrow> vfield \<Rightarrow> place_state \<Rightarrow> place_state" where
  "attach_place kind prop f = (\<lambda>(as, idx, pts, ds).
     (case place_of f of
        None \<Rightarrow> (as, idx, pts @ [fieldToJCardProp prop f], ds @ [(''info'', ''anniversary.place'')])
      | Some a \<Rightarrow>
          (case put_place kind a as of
             Some as' \<Rightarrow> (as', idx, pts, ds)
           | None \<Rightarrow> (as @ [\<lparr>an_id = idOrSynthetic [] ''anniv'' idx, an_kind = kind,
                              an_date = \<lparr>an_partial = None, an_timestamp = None\<rparr>, an_place = Some a\<rparr>], idx + 1, pts, ds))))"

definition free_text :: "vfield \<Rightarrow> bool" where
  "free_text f \<longleftrightarrow> equal_fold (paramValue f ''VALUE'') ''text''"

definition importAnniversaries :: "vcard \<Rightarrow> card \<Rightarrow> card \<times> jcard_prop list \<times> diagnostic list" where
  "importAnniversaries vc cd =
     (let deaths = card_fields vc ''DEATHDATE'';
          dates = map (Pair ''birth'') (card_fields vc ''BDAY'') @ map (Pair ''wedding'') (card_fields vc ''ANNIVERSARY'') @
                  map (Pair ''death'') (filter (\<lambda>f. \<not> free_text f) deaths);
          start = (cd_anniversaries cd @ map (\<lambda>(i, e). anniversary_in i e) (enumerate 0 dates), length dates,
                   map (fieldToJCardProp ''DEATHDATE'') (filter free_text deaths),
                   map (\<lambda>_. (''info'', ''anniversary.death'')) (filter free_text deaths));
          births = fold (attach_place ''birth'' ''BIRTHPLACE'') (card_fields vc ''BIRTHPLACE'') start
      in case fold (attach_place ''death'' ''DEATHPLACE'') (card_fields vc ''DEATHPLACE'') births of
           (as, _, pts, ds) \<Rightarrow> (cd\<lparr>cd_anniversaries := as\<rparr>, pts, ds))"

definition addressToPlaceValue :: "address \<Rightarrow> string \<times> string" where
  "addressToPlaceValue a =
     (if ad_full a \<noteq> [] then (ad_full a, [])
      else if ad_coordinates a \<noteq> [] then (ad_coordinates a, ''uri'')
      else (join_with '', '' (filter (\<lambda>v. v \<noteq> []) (map ac_value (ad_components a))), []))"

definition date_props :: "(string \<times> string) list" where
  "date_props = [(''birth'', ''BDAY''), (''wedding'', ''ANNIVERSARY''), (''death'', ''DEATHDATE'')]"

definition place_props :: "(string \<times> string) list" where
  "place_props = [(''birth'', ''BIRTHPLACE''), (''death'', ''DEATHPLACE'')]"

definition date_field :: "anniversary_date \<Rightarrow> vfield" where
  "date_field d =
     (case an_partial d of
        Some p \<Rightarrow> if pd_scale p \<noteq> ''gregorian'' then setParam ''CALSCALE'' (pd_scale p) (field (formatAnniversaryDate4 d))
                  else field (formatAnniversaryDate4 d)
      | None \<Rightarrow> field (formatAnniversaryDate4 d))"

definition place_field :: "address \<Rightarrow> vfield" where
  "place_field a = setParam ''VALUE'' (snd (addressToPlaceValue a)) (field (fst (addressToPlaceValue a)))"

definition anniversary_fields :: "anniversary \<Rightarrow> vcard" where
  "anniversary_fields a =
     (case map_of date_props (an_kind a) of
        Some p \<Rightarrow> if isZeroAnniversaryDate (an_date a) then [] else [(p, date_field (an_date a))]
      | None \<Rightarrow> []) @
     (case (an_place a, map_of place_props (an_kind a)) of
        (Some pl, Some p) \<Rightarrow> if fst (addressToPlaceValue pl) = [] then [] else [(p, place_field pl)]
      | _ \<Rightarrow> [])"

definition place_diags :: "anniversary \<Rightarrow> diagnostic list" where
  "place_diags a =
     (case (an_place a, map_of place_props (an_kind a)) of
        (Some pl, Some p) \<Rightarrow>
          if fst (addressToPlaceValue pl) \<noteq> [] \<and> ad_full pl = [] \<and> ad_coordinates pl = [] \<and> ad_components pl \<noteq> []
          then [(''warn'', ''anniversary.place.'' @ an_kind a)] else []
      | _ \<Rightarrow> [])"

definition exportAnniversaries :: "card \<Rightarrow> vcard \<Rightarrow> vcard \<times> diagnostic list" where
  "exportAnniversaries cd vc = (vc @ concat (map anniversary_fields (cd_anniversaries cd)), concat (map place_diags (cd_anniversaries cd)))"

section \<open>How to address a person, personal information\<close>

definition gender_in :: "nat \<Rightarrow> vfield \<Rightarrow> grammatical_gender" where
  "gender_in i f = \<lparr>gg_id = idOrSynthetic (propID f) ''gg'' i, gg_value = to_lower (vf_value f), gg_language = paramValue f ''LANGUAGE''\<rparr>"

definition pronouns_in :: "nat \<Rightarrow> vfield \<Rightarrow> pronouns" where
  "pronouns_in i f = \<lparr>pr_id = idOrSynthetic (propID f) ''pron'' i, pr_pronouns = vf_value f, pr_contexts = fst (splitTypeTokens f),
     pr_pref = prefOf f\<rparr>"

definition importSpeakToAs :: "vcard \<Rightarrow> card \<Rightarrow> card \<times> diagnostic list" where
  "importSpeakToAs vc cd =
     (let gs = card_fields vc ''GRAMGENDER''; ps = card_fields vc ''PRONOUNS''
      in (if gs = [] \<and> ps = [] then cd
          else cd\<lparr>cd_speak_to_as := Some \<lparr>sp_genders = map (\<lambda>(i, f). gender_in i f) (enumerate 0 gs),
                                          sp_pronouns = map (\<lambda>(i, f). pronouns_in i f) (enumerate 0 ps)\<rparr>\<rparr>,
          map (\<lambda>_. (''info'', ''pronouns'')) (filter (\<lambda>f. paramValue f ''LANGUAGE'' \<noteq> []) ps)))"

definition gender_field :: "nat \<Rightarrow> grammatical_gender \<Rightarrow> vfield" where
  "gender_field i g = setPropID (idOrSynthetic (gg_id g) ''gg'' i) (setParam ''LANGUAGE'' (gg_language g) (field (to_lower (gg_value g))))"

definition pronouns_field :: "nat \<Rightarrow> pronouns \<Rightarrow> vfield" where
  "pronouns_field i p = setPropID (idOrSynthetic (pr_id p) ''pron'' i) (setPref (pr_pref p)
     (addTypeTokens (contextsToTypeTokens (pr_contexts p)) (field (pr_pronouns p))))"

definition exportSpeakToAs :: "card \<Rightarrow> vcard \<Rightarrow> vcard" where
  "exportSpeakToAs cd vc =
     (case cd_speak_to_as cd of None \<Rightarrow> vc
      | Some s \<Rightarrow> vc @ map (\<lambda>(i, g). (''GRAMGENDER'', gender_field i g)) (enumerate 0 (sp_genders s)) @
                  map (\<lambda>(i, p). (''PRONOUNS'', pronouns_field i p)) (enumerate 0 (sp_pronouns s)))"

definition levelToExpertise :: "string \<Rightarrow> string" where
  "levelToExpertise l = (case map_of [(''high'', ''expert''), (''medium'', ''average''), (''low'', ''beginner'')] (to_lower l) of
     Some v \<Rightarrow> v | None \<Rightarrow> to_lower l)"

definition expertiseToLevel :: "string \<Rightarrow> string" where
  "expertiseToLevel l = (case map_of [(''expert'', ''high''), (''average'', ''medium''), (''beginner'', ''low'')] (to_lower l) of
     Some v \<Rightarrow> v | None \<Rightarrow> to_lower l)"

definition info_kinds :: "(string \<times> string) list" where
  "info_kinds = [(''expertise'', ''EXPERTISE''), (''hobby'', ''HOBBY''), (''interest'', ''INTEREST'')]"

definition level_in :: "string \<Rightarrow> string \<Rightarrow> string" where
  "level_in kind l = (if kind = ''expertise'' then expertiseToLevel l else to_lower l)"

definition level_out :: "string \<Rightarrow> string \<Rightarrow> string" where
  "level_out kind l = (if kind = ''expertise'' then levelToExpertise l else to_lower l)"

definition index_of :: "vfield \<Rightarrow> int option" where
  "index_of f = (if paramValue f ''INDEX'' = [] then None else atoi (paramValue f ''INDEX''))"

definition info_in :: "nat \<Rightarrow> string \<times> vfield \<Rightarrow> personal_info" where
  "info_in i = (\<lambda>(kind, f). \<lparr>pi_id = idOrSynthetic (propID f) ''pi'' i, pi_kind = kind, pi_value = vf_value f,
     pi_level = (if paramValue f ''LEVEL'' = [] then [] else level_in kind (paramValue f ''LEVEL'')),
     pi_list_as = index_of f, pi_label = []\<rparr>)"

definition importPersonalInfo :: "vcard \<Rightarrow> card \<Rightarrow> card" where
  "importPersonalInfo vc cd = cd\<lparr>cd_personal_info := cd_personal_info cd @ map (\<lambda>(i, e). info_in i e)
     (enumerate 0 (concat (map (\<lambda>(kind, p). map (Pair kind) (card_fields vc p)) info_kinds)))\<rparr>"

definition info_field :: "nat \<Rightarrow> personal_info \<Rightarrow> vfield" where
  "info_field i x = setPropID (idOrSynthetic (pi_id x) ''pi'' i)
     ((case pi_list_as x of None \<Rightarrow> id | Some n \<Rightarrow> setParam ''INDEX'' (show_int n))
       (if pi_level x = [] then field (pi_value x) else setParam ''LEVEL'' (level_out (pi_kind x) (pi_level x)) (field (pi_value x))))"

definition exportPersonalInfo :: "card \<Rightarrow> vcard \<Rightarrow> vcard" where
  "exportPersonalInfo cd vc = vc @ List.map_filter (\<lambda>(i, x). map_option (\<lambda>p. (p, info_field i x)) (map_of info_kinds (pi_kind x)))
     (enumerate 0 (cd_personal_info cd))"

section \<open>Notes and keywords\<close>

definition note_in :: "nat \<Rightarrow> vfield \<Rightarrow> card_note" where
  "note_in i f = \<lparr>nt_id = idOrSynthetic (propID f) ''note'' i, nt_note = vf_value f,
     nt_author = (if paramValue f ''AUTHOR'' \<noteq> [] \<or> paramValue f ''AUTHOR-NAME'' \<noteq> []
       then Some \<lparr>au_name = paramValue f ''AUTHOR-NAME'', au_uri = paramValue f ''AUTHOR''\<rparr> else None),
     nt_created = (if paramValue f ''CREATED'' = [] then None else Some (stamp_of (paramValue f ''CREATED'')))\<rparr>"

definition importNotes :: "vcard \<Rightarrow> card \<Rightarrow> card" where
  "importNotes vc cd = cd\<lparr>cd_notes := cd_notes cd @ map (\<lambda>(i, f). note_in i f) (enumerate 0 (card_fields vc ''NOTE''))\<rparr>"

definition note_field :: "nat \<Rightarrow> card_note \<Rightarrow> vfield" where
  "note_field i n = setPropID (idOrSynthetic (nt_id n) ''note'' i)
     ((case nt_created n of None \<Rightarrow> id | Some t \<Rightarrow> setParam ''CREATED'' (rfc3339ToVCardTimestamp (ts_utc t)))
       (case nt_author n of None \<Rightarrow> field (nt_note n)
        | Some a \<Rightarrow> setParam ''AUTHOR-NAME'' (au_name a)
            (if au_uri a = [] then field (nt_note n) else setParam ''AUTHOR'' (quotedParam (au_uri a)) (field (nt_note n)))))"

definition exportNotes :: "card \<Rightarrow> vcard \<Rightarrow> vcard" where
  "exportNotes cd vc = vc @ map (\<lambda>(i, n). (''NOTE'', note_field i n)) (enumerate 0 (cd_notes cd))"

definition importKeywords :: "vcard \<Rightarrow> card \<Rightarrow> card" where
  "importKeywords vc cd = cd\<lparr>cd_keywords := cd_keywords cd @
     concat (map (\<lambda>f. filter (\<lambda>k. k \<noteq> []) (map trim_space (split_on CHR '','' (vf_value f)))) (card_fields vc ''CATEGORIES''))\<rparr>"

definition exportKeywords :: "card \<Rightarrow> vcard \<Rightarrow> vcard" where
  "exportKeywords cd vc =
     (let ks = filter (\<lambda>k. k \<noteq> []) (cd_keywords cd)
      in if ks = [] then vc else card_set_value ''CATEGORIES'' (join_with '','' ks) vc)"

section \<open>Resources, languages, relations, members\<close>

definition resource_in :: "string \<Rightarrow> bool \<Rightarrow> bool \<Rightarrow> nat \<Rightarrow> vfield \<Rightarrow> resource" where
  "resource_in kind withMediaType withIndex i f = \<lparr>rs_id = idOrSynthetic (propID f) ''res'' i, rs_kind = kind, rs_uri = vf_value f,
     rs_media_type = (if withMediaType then paramValue f ''MEDIATYPE'' else []), rs_label = [], rs_contexts = [], rs_pref = prefOf f,
     rs_list_as = (if withIndex then index_of f else None)\<rparr>"

definition importResourceInto :: "vcard \<Rightarrow> string \<Rightarrow> string \<Rightarrow> bool \<Rightarrow> bool \<Rightarrow> resource list \<Rightarrow> resource list" where
  "importResourceInto vc prop kind withMediaType withIndex dst = dst @ map (\<lambda>(i, f). resource_in kind withMediaType withIndex i f)
     (enumerate 0 (card_fields vc prop))"

definition resource_field :: "bool \<Rightarrow> bool \<Rightarrow> nat \<Rightarrow> resource \<Rightarrow> vfield" where
  "resource_field withMediaType withIndex i r = setPropID (idOrSynthetic (rs_id r) ''res'' i)
     ((case rs_list_as r of Some n \<Rightarrow> if withIndex then setParam ''INDEX'' (show_int n) else id | None \<Rightarrow> id)
       (setParam ''MEDIATYPE'' (if withMediaType then rs_media_type r else []) (setPref (rs_pref r) (field (rs_uri r)))))"

definition exportResourceFrom :: "string \<Rightarrow> resource list \<Rightarrow> string \<Rightarrow> bool \<Rightarrow> bool \<Rightarrow> vcard \<Rightarrow> vcard" where
  "exportResourceFrom prop src kind withMediaType withIndex vc = vc @ map (\<lambda>(i, r). (prop, resource_field withMediaType withIndex i r))
     (enumerate 0 (filter (\<lambda>r. rs_kind r = kind) src))"

definition importResources :: "vcard \<Rightarrow> card \<Rightarrow> card" where
  "importResources vc cd = cd\<lparr>
     cd_media := importResourceInto vc ''SOUND'' ''sound'' True False (importResourceInto vc ''LOGO'' ''logo'' True False
       (importResourceInto vc ''PHOTO'' ''photo'' True False (cd_media cd))),
     cd_calendars := importResourceInto vc ''CALURI'' [] False False (cd_calendars cd),
     cd_free_busy := importResourceInto vc ''FBURL'' [] False False (cd_free_busy cd),
     cd_scheduling := importResourceInto vc ''CALADRURI'' [] False False (cd_scheduling cd),
     cd_crypto_keys := importResourceInto vc ''KEY'' [] True False (cd_crypto_keys cd),
     cd_directories := importResourceInto vc ''SOURCE'' ''entry'' False False
       (importResourceInto vc ''ORG-DIRECTORY'' ''directory'' False True (cd_directories cd)),
     cd_links := importResourceInto vc ''URL'' [] False False (cd_links cd),
     cd_contact_uris := importResourceInto vc ''CONTACT-URI'' [] False False (cd_contact_uris cd)\<rparr>"

definition exportResources :: "card \<Rightarrow> vcard \<Rightarrow> vcard" where
  "exportResources cd =
     exportResourceFrom ''CONTACT-URI'' (cd_contact_uris cd) [] False False o
     exportResourceFrom ''URL'' (cd_links cd) [] False False o
     exportResourceFrom ''SOURCE'' (cd_directories cd) ''entry'' False False o
     exportResourceFrom ''ORG-DIRECTORY'' (cd_directories cd) ''directory'' False True o
     exportResourceFrom ''KEY'' (cd_crypto_keys cd) [] True False o
     exportResourceFrom ''CALADRURI'' (cd_scheduling cd) [] False False o
     exportResourceFrom ''FBURL'' (cd_free_busy cd) [] False False o
     exportResourceFrom ''CALURI'' (cd_calendars cd) [] False False o
     exportResourceFrom ''SOUND'' (cd_media cd) ''sound'' True False o
     exportResourceFrom ''LOGO'' (cd_media cd) ''logo'' True False o
     exportResourceFrom ''PHOTO'' (cd_media cd) ''photo'' True False"

definition language_in :: "nat \<Rightarrow> vfield \<Rightarrow> language_pref" where
  "language_in i f = \<lparr>lp_id = idOrSynthetic (propID f) ''lang'' i, lp_language = vf_value f, lp_contexts = fst (splitTypeTokens f),
     lp_pref = prefOf f\<rparr>"

definition relation_in :: "vfield \<Rightarrow> relation" where
  "relation_in f = \<lparr>rl_target = vf_value f, rl_relations = map to_lower (paramAll f ''TYPE'')\<rparr>"

definition importLangsRelatedMembers :: "vcard \<Rightarrow> card \<Rightarrow> card" where
  "importLangsRelatedMembers vc cd = cd\<lparr>
     cd_languages := cd_languages cd @ map (\<lambda>(i, f). language_in i f) (enumerate 0 (card_fields vc ''LANG'')),
     cd_related_to := cd_related_to cd @ map relation_in (card_fields vc ''RELATED''),
     cd_members := cd_members cd @ map vf_value (card_fields vc ''MEMBER'')\<rparr>"

definition language_field :: "nat \<Rightarrow> language_pref \<Rightarrow> vfield" where
  "language_field i l = setPropID (idOrSynthetic (lp_id l) ''lang'' i) (setPref (lp_pref l)
     (addTypeTokens (contextsToTypeTokens (lp_contexts l)) (field (lp_language l))))"

definition relation_field :: "relation \<Rightarrow> vfield" where
  "relation_field r = addTypeTokens (rl_relations r) (field (rl_target r))"

definition exportLangsRelatedMembers :: "card \<Rightarrow> vcard \<Rightarrow> vcard" where
  "exportLangsRelatedMembers cd vc = vc @ map (\<lambda>(i, l). (''LANG'', language_field i l)) (enumerate 0 (cd_languages cd)) @
     map (\<lambda>r. (''RELATED'', relation_field r)) (cd_related_to cd) @ map (\<lambda>m. (''MEMBER'', field m)) (cd_members cd)"

section \<open>The passthrough\<close>

text \<open>The property column of the correspondence table, without the indices of name parts.\<close>

definition mappedV4PropNames :: "string list" where
  "mappedV4PropNames = [''UID'', ''KIND'', ''PRODID'', ''REV'', ''CREATED'', ''LANGUAGE'', ''FN'', ''N'', ''NICKNAME'', ''ORG'',
     ''TITLE'', ''ROLE'', ''EMAIL'', ''TEL'', ''IMPP'', ''SOCIALPROFILE'', ''ADR'', ''BDAY'', ''ANNIVERSARY'', ''DEATHDATE'',
     ''BIRTHPLACE'', ''DEATHPLACE'', ''GRAMGENDER'', ''PRONOUNS'', ''EXPERTISE'', ''HOBBY'', ''INTEREST'', ''NOTE'', ''CATEGORIES'',
     ''PHOTO'', ''LOGO'', ''SOUND'', ''CALURI'', ''FBURL'', ''CALADRURI'', ''KEY'', ''ORG-DIRECTORY'', ''SOURCE'', ''URL'',
     ''CONTACT-URI'', ''LANG'', ''RELATED'', ''MEMBER'', ''JSPROP'']"

text \<open>Strings in byte order.\<close>

fun string_less :: "string \<Rightarrow> string \<Rightarrow> bool" where
  "string_less _ [] = False"
| "string_less [] (y # ys) = True"
| "string_less (x # xs) (y # ys) =
     ((of_char x :: nat) < of_char y \<or> x = y \<and> string_less xs ys)"

definition sorted_names :: "string list \<Rightarrow> string list" where
  "sorted_names xs = stable_sort_by string_less (remdups xs)"

text \<open>Whether a text is JSON, and the JSON without white space, are what package json says.\<close>

record json_lib =
  js_valid :: "string \<Rightarrow> bool"
  js_compact :: "string \<Rightarrow> string option"

definition jsprop_entries :: "json_lib \<Rightarrow> vfield list \<Rightarrow> (string \<times> raw_json) list" where
  "jsprop_entries js fs = List.map_filter (\<lambda>f. if paramValue f ''JSPTR'' = [] then None
     else Some (paramValue f ''JSPTR'', if js_valid js (vf_value f) then vf_value f else json_string (vf_value f))) fs"

definition importPassthrough :: "json_lib \<Rightarrow> vcard \<Rightarrow> passthrough \<Rightarrow> passthrough" where
  "importPassthrough js vc pt = fold (\<lambda>name pt.
     if equal_fold name ''VERSION'' then pt
     else if equal_fold name ''JSPROP'' then pt\<lparr>pt_jscontact := pt_jscontact pt ++ map_of (rev (jsprop_entries js (card_fields vc name)))\<rparr>
     else if to_upper name \<in> set mappedV4PropNames then pt
     else pt\<lparr>pt_vcard := pt_vcard pt @ map (fieldToJCardProp name) (card_fields vc name)\<rparr>) (sorted_names (map fst vc)) pt"

text \<open>The pointers of the map are listed by the caller; the code sorts them.\<close>

definition exportPassthrough :: "json_lib \<Rightarrow> string list \<Rightarrow> passthrough \<Rightarrow> vcard \<Rightarrow> vcard" where
  "exportPassthrough js ptrs pt vc = vc @
     map jCardPropToField (filter (\<lambda>p. to_upper (jc_name p) \<notin> set mappedV4PropNames) (pt_vcard pt)) @
     List.map_filter (\<lambda>ptr. map_option (\<lambda>raw. (''JSPROP'', setParam ''JSPTR'' ptr
       (field (case js_compact js raw of Some c \<Rightarrow> c | None \<Rightarrow> raw)))) (pt_jscontact pt ptr)) (sorted_names ptrs)"

section \<open>Import and export\<close>

definition blank_record :: contact_record where
  "blank_record = \<lparr>rc_card = empty_card, rc_envelope = empty_envelope,
     rc_passthrough = \<lparr>pt_vcard = [], pt_jscontact = Map.empty\<rparr>, rc_uid = [], rc_etag = []\<rparr>"

definition import_card :: "json_lib \<Rightarrow> vcard \<Rightarrow> contact_record \<times> diagnostic list" where
  "import_card js vc =
     (let c1 = importIdentity vc empty_card;
          (c2, d1) = importName vc c1;
          c3 = importNicknames vc c2;
          (c4, groups) = importOrganizations vc c3;
          c5 = importTitles vc groups c4;
          c6 = importOnlineServices vc (importPhones vc (importEmails vc c5));
          (c7, d2) = importAddresses vc c6;
          (c8, pts, d3) = importAnniversaries vc c7;
          (c9, d4) = importSpeakToAs vc c8;
          c10 = importLangsRelatedMembers vc (importResources vc (importKeywords vc (importNotes vc (importPersonalInfo vc c9))));
          pt = importPassthrough js vc \<lparr>pt_vcard = pts, pt_jscontact = Map.empty\<rparr>
      in (blank_record\<lparr>rc_card := c10, rc_passthrough := pt\<rparr>, d1 @ d2 @ d3 @ d4))"

definition export_card :: "json_lib \<Rightarrow> string list \<Rightarrow> contact_record \<Rightarrow> vcard \<times> (string \<times> string) list \<times> diagnostic list" where
  "export_card js ptrs r =
     (let cd = rc_card r;
          v1 = exportIdentity cd (card_set_value ''VERSION'' ''4.0'' []);
          (v2, d1) = exportName cd v1;
          v3 = exportNicknames cd v2;
          (v4, groups) = exportOrganizations cd v3;
          v5 = exportTitles cd groups v4;
          (v6, d2) = exportEmails cd v5;
          (v7, d3) = exportPhones cd v6;
          (v8, d4) = exportOnlineServices cd v7;
          (v9, splices) = exportAddresses cd v8;
          (v10, d5) = exportAnniversaries cd v9;
          v11 = exportKeywords cd (exportNotes cd (exportPersonalInfo cd (exportSpeakToAs cd v10)));
          v12 = exportLangsRelatedMembers cd (exportResources cd v11)
      in (exportPassthrough js ptrs (rc_passthrough r) v12, splices, d1 @ d2 @ d3 @ d4 @ d5))"

text \<open>
  The text in between: the decoder turns bytes into a card or refuses them, the encoder the other way, with the marks of
  the coordinates replaced one by one and the separators of the categories restored.
\<close>

record text_layer =
  tl_decode :: "string \<Rightarrow> vcard option"
  tl_encode :: "vcard \<Rightarrow> string option"

definition strip_bom :: "string \<Rightarrow> string" where
  "strip_bom raw = trim_prefix raw [CHR 0xEF, CHR 0xBB, CHR 0xBF]"

definition Import4 :: "text_layer \<Rightarrow> json_lib \<Rightarrow> string \<Rightarrow> (contact_record \<times> diagnostic list) option" where
  "Import4 tx js raw = map_option (import_card js) (tl_decode tx (strip_bom raw))"

text \<open>\<open>bytes.Replace\<close> with a count of one.\<close>

fun replace_first :: "string \<Rightarrow> string \<Rightarrow> string \<Rightarrow> string" where
  "replace_first find_s put_s [] = (if find_s = [] then put_s else [])"
| "replace_first find_s put_s (c # cs) =
     (if has_prefix (c # cs) find_s then put_s @ drop (length find_s) (c # cs) else c # replace_first find_s put_s cs)"

text \<open>Lines end in CR LF; the continuation of a folded line starts with a space. A rest without an end is a line too.\<close>

fun crlf_lines :: "string \<Rightarrow> string list" where
  "crlf_lines [] = [[]]"
| "crlf_lines (c # cs) =
     (if c = CHR 0x0D \<and> cs \<noteq> [] \<and> hd cs = CHR 0x0A then [] # crlf_lines (tl cs)
      else (case crlf_lines cs of [] \<Rightarrow> [[c]] | l # ls \<Rightarrow> (c # l) # ls))"

text \<open>\<open>\,\<close> becomes \<open>,\<close>.\<close>

fun raw_commas :: "string \<Rightarrow> string" where
  "raw_commas [] = []"
| "raw_commas (c # cs) = (if c = CHR 0x5C \<and> cs \<noteq> [] \<and> hd cs = CHR '','' then CHR '','' # raw_commas (tl cs) else c # raw_commas cs)"

definition categories_line :: "string \<Rightarrow> bool" where
  "categories_line l \<longleftrightarrow> has_prefix (to_upper l) ''CATEGORIES:''"

fun fix_lines :: "bool \<Rightarrow> string list \<Rightarrow> string list" where
  "fix_lines inside [] = []"
| "fix_lines inside [l] = [if inside then raw_commas l else l]"
| "fix_lines inside (l # m # ls) =
     (let inside = (if l \<noteq> [] \<and> hd l = CHR '' '' then inside else categories_line l)
      in (if inside then raw_commas l else l) # fix_lines inside (m # ls))"

definition fixCategoryListEscapes :: "string \<Rightarrow> string" where
  "fixCategoryListEscapes out = join_with [CHR 0x0D, CHR 0x0A] (fix_lines False (crlf_lines out))"

definition Export4 :: "text_layer \<Rightarrow> json_lib \<Rightarrow> string list \<Rightarrow> contact_record option \<Rightarrow> (string \<times> diagnostic list) option" where
  "Export4 tx js ptrs r =
     (case r of None \<Rightarrow> None
      | Some r \<Rightarrow>
          (case export_card js ptrs r of (vc, splices, ds) \<Rightarrow>
             map_option (\<lambda>out. (fixCategoryListEscapes (fold (\<lambda>(f, p). replace_first f p) splices out), ds)) (tl_encode tx vc)))"

end
