(* ===== verification/VCard3.thy ===== *)
theory VCard3 imports VCard4 begin

text \<open>
  The vCard 3.0 adapter (\<^verbatim>\<open>vcard3/adapter.go\<close>): what the export puts into the fields of a card, with a diagnostic for
  everything version 3.0 has no place for, and what the import makes of such a card. Entries that need several properties are
  tied together by a group whose number the export counts up. \<^verbatim>\<open>vcard3/components.go\<close> repeats the functions on structured
  values of the other adapter, so they are used from there.
\<close>

section \<open>Structured values of the older version\<close>

record n_components3 =
  n3_family :: string
  n3_given :: string
  n3_additional :: string
  n3_prefix :: string
  n3_suffix :: string

definition assembleN3 :: "n_components3 \<Rightarrow> string" where
  "assembleN3 n = joinComponents [n3_family n, n3_given n, n3_additional n, n3_prefix n, n3_suffix n]"

definition disassembleN3 :: "string \<Rightarrow> n_components3" where
  "disassembleN3 v = (let c = splitComponents v in \<lparr>n3_family = component c 0, n3_given = component c 1, n3_additional = component c 2,
     n3_prefix = component c 3, n3_suffix = component c 4\<rparr>)"

record adr_components3 =
  a3_pobox :: string
  a3_ext :: string
  a3_street :: string
  a3_locality :: string
  a3_region :: string
  a3_postal :: string
  a3_country :: string

definition assembleAdr3 :: "adr_components3 \<Rightarrow> string" where
  "assembleAdr3 a = joinComponents [a3_pobox a, a3_ext a, a3_street a, a3_locality a, a3_region a, a3_postal a, a3_country a]"

definition disassembleAdr3 :: "string \<Rightarrow> adr_components3" where
  "disassembleAdr3 v = (let c = splitComponents v in \<lparr>a3_pobox = component c 0, a3_ext = component c 1, a3_street = component c 2,
     a3_locality = component c 3, a3_region = component c 4, a3_postal = component c 5, a3_country = component c 6\<rparr>)"

section \<open>Types and preference\<close>

definition context_token3 :: "string \<Rightarrow> string option" where
  "context_token3 c = (if c = ''private'' then Some ''HOME'' else if c = ''work'' then Some ''WORK'' else None)"

definition contextTypeTokens :: "string list \<Rightarrow> string \<Rightarrow> string list \<times> diagnostic list" where
  "contextTypeTokens cs concept =
     (List.map_filter context_token3 cs, map (\<lambda>_. (''warn'', concept)) (filter (\<lambda>c. context_token3 c = None \<and> c \<noteq> []) cs))"

definition token_context3 :: "string \<Rightarrow> string option" where
  "token_context3 t = (let u = to_upper (trim_space t) in if u = ''HOME'' then Some ''private'' else if u = ''WORK'' then Some ''work'' else None)"

definition contextsAndPrefFromTokens :: "string list \<Rightarrow> string list \<times> int option" where
  "contextsAndPrefFromTokens toks = (List.map_filter token_context3 toks,
     if list_ex (\<lambda>t. to_upper (trim_space t) = ''PREF'') toks then Some 1 else None)"

definition isPreferred :: "int option \<Rightarrow> bool" where
  "isPreferred p \<longleftrightarrow> p = Some 1"

definition pref_token3 :: "int option \<Rightarrow> string list" where
  "pref_token3 p = (if isPreferred p then [''PREF''] else [])"

definition featToType :: "string \<Rightarrow> string" where
  "featToType f = (if equal_fold f ''mobile'' then ''CELL'' else to_upper f)"

definition telFeatureTokens :: "(string \<times> string) list" where
  "telFeatureTokens = [(''VOICE'', ''voice''), (''FAX'', ''fax''), (''CELL'', ''cell''), (''VIDEO'', ''video''), (''PAGER'', ''pager''),
     (''TEXT'', ''text''), (''TEXTPHONE'', ''textphone''), (''MAIN-NUMBER'', ''main-number'')]"

definition featuresFromTokens :: "string list \<Rightarrow> string list" where
  "featuresFromTokens toks = List.map_filter (\<lambda>t. map_of telFeatureTokens (to_upper (trim_space t))) toks"

definition newTypedField :: "string \<Rightarrow> string list \<Rightarrow> vfield" where
  "newTypedField v toks = \<lparr>vf_value = v, vf_params = map (Pair ''TYPE'') toks, vf_group = []\<rparr>"

definition typeTokens :: "vfield \<Rightarrow> string list" where
  "typeTokens f = paramAll f ''TYPE''"

text \<open>The fields that carry a value, their contexts and whether they are preferred.\<close>

definition typed :: "vfield \<Rightarrow> string list \<times> int option" where
  "typed f = contextsAndPrefFromTokens (typeTokens f)"

definition valued :: "vcard \<Rightarrow> string \<Rightarrow> vfield list" where
  "valued vc p = filter (\<lambda>f. vf_value f \<noteq> []) (card_fields vc p)"

section \<open>Dates, coordinates and inline data\<close>

definition formatDatePartial :: "anniversary_date \<Rightarrow> string" where
  "formatDatePartial d =
     (case an_timestamp d of
        Some t \<Rightarrow> if t \<noteq> [] then (if length t \<ge> 10 then take 10 t else t)
                  else (case an_partial d of None \<Rightarrow> [] | Some p \<Rightarrow> if pd_year p \<noteq> None \<and> pd_month p = None \<and> pd_day p \<noteq> None then [] else formatPartialDate (Some p))
      | None \<Rightarrow> (case an_partial d of None \<Rightarrow> [] | Some p \<Rightarrow> if pd_year p \<noteq> None \<and> pd_month p = None \<and> pd_day p \<noteq> None then [] else formatPartialDate (Some p)))"

definition isAllDigits :: "string \<Rightarrow> bool" where
  "isAllDigits s \<longleftrightarrow> s \<noteq> [] \<and> list_all is_digit s"

text \<open>A number that does not parse counts as zero.\<close>

definition atoi0 :: "string \<Rightarrow> int" where
  "atoi0 s = (case atoi s of None \<Rightarrow> 0 | Some i \<Rightarrow> i)"

definition tsToV3 :: "string \<Rightarrow> string" where
  "tsToV3 s = (case time_parse True Colon s of None \<Rightarrow> s | Some t \<Rightarrow> format_utc True t)"

definition time_parse_zoneless :: "string \<Rightarrow> int option" where
  "time_parse_zoneless s = do {
     (day, r) \<leftarrow> read_date True s;
     r \<leftarrow> literal CHR ''T'' r;
     (clock, r) \<leftarrow> read_clock True r;
     if r = [] then Some (86400 * day + clock) else None }"

definition v3ToTs :: "string \<Rightarrow> string option" where
  "v3ToTs v = map_option (format_utc True) (first_some (\<lambda>parse. parse v)
     [time_parse True Colon, time_parse True Joined, time_parse True Hours, time_parse_zoneless,
      time_parse False Colon, time_parse False Joined, time_parse False Hours])"

definition parseDatePartial :: "string \<Rightarrow> anniversary_date" where
  "parseDatePartial w =
     (let v = trim_space w;
          dash = (\<lambda>i. v ! i = CHR ''-'');
          n = (\<lambda>i j. Some (atoi0 (slice v i j)));
          partial = (\<lambda>y m d. \<lparr>an_partial = Some \<lparr>pd_year = y, pd_month = m, pd_day = d, pd_scale = []\<rparr>, an_timestamp = None\<rparr>)
      in if length v = 10 \<and> dash 4 \<and> dash 7 then partial (n 0 4) (n 5 7) (n 8 10)
         else if length v = 7 \<and> dash 0 \<and> dash 1 \<and> dash 4 then partial None (n 2 4) (n 5 7)
         else if length v = 8 \<and> dash 0 \<and> dash 1 \<and> dash 4 then partial None (n 2 4) (n 5 7)
         else if length v = 8 \<and> isAllDigits v then partial (n 0 4) (n 4 6) (n 6 8)
         else if length v = 6 \<and> dash 0 \<and> dash 1 then partial None (n 2 4) (n 4 6)
         else if length v = 5 \<and> dash 0 \<and> dash 1 \<and> dash 2 then partial None None (n 3 5)
         else if length v = 4 \<and> isAllDigits v then partial (n 0 4) None None
         else \<lparr>an_partial = None, an_timestamp = Some (case v3ToTs v of Some t \<Rightarrow> t | None \<Rightarrow> v)\<rparr>)"

text \<open>The text before the first separator and the one after it, where there is one.\<close>

fun cut_at :: "char \<Rightarrow> string \<Rightarrow> (string \<times> string) option" where
  "cut_at c [] = None"
| "cut_at c (x # xs) = (if x = c then Some ([], xs) else map_option (\<lambda>(a, b). (x # a, b)) (cut_at c xs))"

definition geoURIToLatLon :: "string \<Rightarrow> string option" where
  "geoURIToLatLon uri =
     (if \<not> has_prefix (to_lower uri) ''geo:'' then None
      else let r = drop 4 uri;
               r = (case cut_at CHR '';'' r of Some (a, _) \<Rightarrow> a | None \<Rightarrow> r)
           in case cut_at CHR '','' r of None \<Rightarrow> None
              | Some (a, b) \<Rightarrow> if a = [] \<or> b = [] then None else Some (a @ '';'' @ b))"

definition latLonToGeoURI :: "string \<Rightarrow> string option" where
  "latLonToGeoURI v = (case cut_at CHR '';'' v of None \<Rightarrow> None
     | Some (a, b) \<Rightarrow> if a = [] \<or> b = [] then None else Some (''geo:'' @ a @ '','' @ b))"

definition mtypeToV3Type :: "string \<Rightarrow> string" where
  "mtypeToV3Type mt = (let mt = trim_space mt in case cut_at CHR ''/'' mt of Some (_, b) \<Rightarrow> to_upper b | None \<Rightarrow> to_upper mt)"

definition mtypeFromV3 :: "string \<Rightarrow> string \<Rightarrow> string" where
  "mtypeFromV3 kind typ =
     (let t = to_lower typ
      in if kind = ''photo'' \<or> kind = ''logo'' then (if t = [] then ''image/jpeg'' else ''image/'' @ t)
         else if kind = ''sound'' then (if t = [] then ''audio/basic'' else ''audio/'' @ t)
         else (if t = [] then ''application/octet-stream'' else ''application/'' @ t))"

definition trim_suffix :: "string \<Rightarrow> string \<Rightarrow> string" where
  "trim_suffix s p = (if has_prefix (rev s) (rev p) then take (length s - length p) s else s)"

definition parseDataURI :: "string \<Rightarrow> (string \<times> string) option" where
  "parseDataURI uri =
     (if \<not> has_prefix uri ''data:'' then None
      else case cut_at CHR '','' (drop 5 uri) of None \<Rightarrow> None | Some (m, d) \<Rightarrow> Some (d, trim_suffix m '';base64''))"

definition exportMediaField :: "string \<Rightarrow> string \<Rightarrow> vfield" where
  "exportMediaField uri mediaType =
     (case parseDataURI uri of None \<Rightarrow> field uri
      | Some (d, mt) \<Rightarrow> setParam ''TYPE'' (mtypeToV3Type (if mt = [] then mediaType else mt)) (setParam ''ENCODING'' ''b'' (field d)))"

definition importMediaURI :: "vfield \<Rightarrow> string \<Rightarrow> string" where
  "importMediaURI f kind =
     (let enc = to_lower (paramValue f ''ENCODING'')
      in if enc = ''b'' \<or> enc = ''base64'' then ''data:'' @ mtypeFromV3 kind (paramValue f ''TYPE'') @ '';base64,'' @ vf_value f else vf_value f)"

definition occurs_in :: "string \<Rightarrow> string \<Rightarrow> bool" where
  "occurs_in p s \<longleftrightarrow> list_ex (\<lambda>k. has_prefix (drop k s) p) [0..<length s]"

definition looksLikeURI :: "string \<Rightarrow> bool" where
  "looksLikeURI s \<longleftrightarrow> occurs_in ''://'' s \<or> has_prefix s ''urn:'' \<or> has_prefix s ''mailto:''"

definition labelFromGroup :: "vfield list \<Rightarrow> string \<Rightarrow> string" where
  "labelFromGroup fs grp = (if grp = [] then [] else case find (\<lambda>f. equal_fold (vf_group f) grp) fs of None \<Rightarrow> [] | Some f \<Rightarrow> vf_value f)"

definition typeKey :: "string list \<Rightarrow> string" where
  "typeKey toks = join_with '','' (stable_sort_by string_less (map (\<lambda>t. to_upper (trim_space t)) toks))"

section \<open>Export\<close>

text \<open>A step adds fields and diagnostics; where groups are counted it also gives the last number used.\<close>

definition exportIdentity3 :: "card \<Rightarrow> vcard \<times> diagnostic list" where
  "exportIdentity3 c =
     ((''VERSION'', field ''3.0'') #
      (if cd_uid c \<noteq> [] then [(''UID'', field (cd_uid c))] else []) @
      (if cd_prod_id c \<noteq> [] then [(''PRODID'', field (cd_prod_id c))] else []) @
      (case cd_updated c of None \<Rightarrow> [] | Some t \<Rightarrow> if ts_utc t \<noteq> [] then [(''REV'', field (tsToV3 (ts_utc t)))] else []),
      (if cd_kind c \<noteq> [] then [(''warn'', ''kind'')] else []) @
      (if cd_created c \<noteq> None then [(''warn'', ''created'')] else []) @
      (if cd_language c \<noteq> [] then [(''warn'', ''language'')] else []))"

text \<open>The last component of a kind wins, an empty one too.\<close>

definition last_value :: "name_component list \<Rightarrow> string \<Rightarrow> string" where
  "last_value cs k = (case filter (\<lambda>c. nc_kind c = k) cs of [] \<Rightarrow> [] | ds \<Rightarrow> nc_value (last ds))"

definition n3_of :: "name_component list \<Rightarrow> n_components3" where
  "n3_of cs = \<lparr>n3_family = last_value cs ''surname'', n3_given = last_value cs ''given'', n3_additional = last_value cs ''given2'',
     n3_prefix = last_value cs ''title'', n3_suffix = last_value cs ''credential''\<rparr>"

definition deriveFN :: "n_components3 \<Rightarrow> string" where
  "deriveFN n = trim_space (join_with '' '' (filter (\<lambda>p. trim_space p \<noteq> []) [n3_prefix n, n3_given n, n3_additional n, n3_family n, n3_suffix n]))"

definition n3_empty :: "n_components3 \<Rightarrow> bool" where
  "n3_empty n \<longleftrightarrow> n3_family n = [] \<and> n3_given n = [] \<and> n3_additional n = [] \<and> n3_prefix n = [] \<and> n3_suffix n = []"

definition exportName3 :: "card_name option \<Rightarrow> vcard \<times> diagnostic list" where
  "exportName3 name =
     (let cs = (case name of None \<Rightarrow> [] | Some n \<Rightarrow> nm_components n);
          n3 = n3_of cs;
          full = (case name of None \<Rightarrow> [] | Some n \<Rightarrow> nm_full n)
      in ((''FN'', field (if full = [] then deriveFN n3 else full)) #
          (if n3_empty n3 then [] else [(''N'', field (assembleN3 n3))]),
          List.map_filter (\<lambda>c. if nc_value c \<noteq> [] \<and> nc_kind c = ''surname2'' then Some (''warn'', ''name.surname2'')
            else if nc_value c \<noteq> [] \<and> nc_kind c = ''generation'' then Some (''warn'', ''name.generation'') else None) cs @
          (case name of None \<Rightarrow> []
           | Some n \<Rightarrow> if nm_phonetic_script n \<noteq> [] \<or> nm_phonetic_system n \<noteq> [] then [(''warn'', ''name.phonetic'')] else [])))"

definition nickname3 :: "nickname \<Rightarrow> (string \<times> vfield) option" where
  "nickname3 n = (if nk_name n = [] then None
     else Some (''NICKNAME'', newTypedField (nk_name n) (fst (contextTypeTokens (nk_contexts n) ''nickname'') @ pref_token3 (nk_pref n))))"

definition organization3 :: "organization \<Rightarrow> (string \<times> vfield) option" where
  "organization3 o1 = (if list_all (\<lambda>p. p = []) (org_parts o1) then None else Some (''ORG'', field (joinComponents (org_parts o1))))"

definition title3 :: "title \<Rightarrow> (string \<times> vfield) option" where
  "title3 t = (if ti_name t = [] then None else if ti_kind t = ''title'' then Some (''TITLE'', field (ti_name t))
     else if ti_kind t = ''role'' then Some (''ROLE'', field (ti_name t)) else None)"

definition email3 :: "email \<Rightarrow> (string \<times> vfield) option" where
  "email3 e = (if em_address e = [] then None
     else Some (''EMAIL'', newTypedField (em_address e) (''INTERNET'' # fst (contextTypeTokens (em_contexts e) ''email'') @ pref_token3 (em_pref e))))"

definition phone3 :: "phone \<Rightarrow> (string \<times> vfield) option" where
  "phone3 p = (if ph_number p = [] then None
     else Some (''TEL'', newTypedField (ph_number p) (map featToType (ph_features p) @ fst (contextTypeTokens (ph_contexts p) ''phone'') @
       pref_token3 (ph_pref p))))"

definition email_diags3 :: "email \<Rightarrow> diagnostic list" where
  "email_diags3 e = (if em_address e = [] then [] else snd (contextTypeTokens (em_contexts e) ''email'') @
     (if em_label e \<noteq> [] then [(''warn'', ''email.label'')] else []))"

definition phone_diags3 :: "phone \<Rightarrow> diagnostic list" where
  "phone_diags3 p = (if ph_number p = [] then [] else snd (contextTypeTokens (ph_contexts p) ''phone'') @
     (if ph_label p \<noteq> [] then [(''warn'', ''phone.label'')] else []))"

definition item_group :: "nat \<Rightarrow> string" where
  "item_group n = ''item'' @ show_nat n"

definition in_group :: "string \<Rightarrow> vfield \<Rightarrow> vfield" where
  "in_group grp f = f\<lparr>vf_group := grp\<rparr>"

text \<open>The companions of a service share its group.\<close>

definition service_companions :: "string \<Rightarrow> online_service \<Rightarrow> vcard" where
  "service_companions grp s =
     (if os_service s \<noteq> [] then [(''X-SERVICE-TYPE'', in_group grp (field (os_service s)))] else []) @
     (if os_user s \<noteq> [] then [(''X-USERNAME'', in_group grp (field (os_user s)))] else [])"

definition service_field :: "online_service \<Rightarrow> string \<Rightarrow> vfield" where
  "service_field s concept = newTypedField (os_uri s) (fst (contextTypeTokens (os_contexts s) concept) @ pref_token3 (os_pref s))"

fun exportImpp3 :: "nat \<Rightarrow> online_service list \<Rightarrow> nat \<times> vcard" where
  "exportImpp3 n [] = (n, [])"
| "exportImpp3 n (s # ss) =
     (if os_uri s = [] then exportImpp3 n ss
      else if os_service s \<noteq> [] \<or> os_user s \<noteq> []
      then (let grp = item_group (n + 1); (k, out) = exportImpp3 (n + 1) ss
            in (k, (''IMPP'', in_group grp (service_field s ''impp'')) # service_companions grp s @ out))
      else (let (k, out) = exportImpp3 n ss in (k, (''IMPP'', service_field s ''impp'') # out)))"

fun exportSocial3 :: "nat \<Rightarrow> online_service list \<Rightarrow> nat \<times> vcard" where
  "exportSocial3 n [] = (n, [])"
| "exportSocial3 n (s # ss) =
     (if os_uri s = [] then exportSocial3 n ss
      else (let grp = item_group (n + 1); (k, out) = exportSocial3 (n + 1) ss
            in (k, (''X-SOCIALPROFILE'', in_group grp (service_field s ''social'')) # service_companions grp s @ out)))"

definition service_diags3 :: "string \<Rightarrow> online_service list \<Rightarrow> diagnostic list" where
  "service_diags3 concept ss = concat (map (\<lambda>s. if os_uri s = [] then [] else snd (contextTypeTokens (os_contexts s) concept)) ss)"

text \<open>The six components that an address of version 3.0 has a place for; the last of a kind wins.\<close>

definition adr_kinds3 :: "string list" where
  "adr_kinds3 = [''postOfficeBox'', ''name'', ''locality'', ''region'', ''postcode'', ''country'']"

definition last_part :: "address_component list \<Rightarrow> string \<Rightarrow> string" where
  "last_part cs k = (case filter (\<lambda>c. ac_kind c = k) cs of [] \<Rightarrow> [] | ds \<Rightarrow> ac_value (last ds))"

definition adr3_of :: "address_component list \<Rightarrow> adr_components3" where
  "adr3_of cs = \<lparr>a3_pobox = last_part cs ''postOfficeBox'', a3_ext = [], a3_street = last_part cs ''name'',
     a3_locality = last_part cs ''locality'', a3_region = last_part cs ''region'', a3_postal = last_part cs ''postcode'',
     a3_country = last_part cs ''country''\<rparr>"

definition has_mapped_kind :: "address \<Rightarrow> bool" where
  "has_mapped_kind a \<longleftrightarrow> list_ex (\<lambda>c. ac_kind c \<in> set adr_kinds3) (ad_components a)"

definition has_extra_kind :: "address \<Rightarrow> bool" where
  "has_extra_kind a \<longleftrightarrow> list_ex (\<lambda>c. ac_kind c \<notin> set adr_kinds3 \<and> ac_value c \<noteq> []) (ad_components a)"

definition skipped_address :: "address \<Rightarrow> bool" where
  "skipped_address a \<longleftrightarrow> \<not> has_mapped_kind a \<and> ad_full a = [] \<and> ad_coordinates a = [] \<and> ad_time_zone a = []"

definition adr_tokens3 :: "address \<Rightarrow> string list" where
  "adr_tokens3 a = fst (contextTypeTokens (ad_contexts a) ''adr'') @ pref_token3 (ad_pref a)"

definition geo3 :: "address \<Rightarrow> string option" where
  "geo3 a = (if ad_coordinates a = [] then None else geoURIToLatLon (ad_coordinates a))"

definition adr_companions :: "string \<Rightarrow> address \<Rightarrow> vcard" where
  "adr_companions grp a =
     (if ad_full a \<noteq> [] then [(''LABEL'', in_group grp (newTypedField (ad_full a) (adr_tokens3 a)))] else []) @
     (case geo3 a of None \<Rightarrow> [] | Some g \<Rightarrow> [(''GEO'', in_group grp (field g))]) @
     (if ad_time_zone a \<noteq> [] then [(''TZ'', in_group grp (field (ad_time_zone a)))] else [])"

fun exportAddresses3 :: "nat \<Rightarrow> address list \<Rightarrow> nat \<times> vcard" where
  "exportAddresses3 n [] = (n, [])"
| "exportAddresses3 n (a # as) =
     (if skipped_address a then exportAddresses3 n as
      else (let adr = newTypedField (assembleAdr3 (adr3_of (ad_components a))) (adr_tokens3 a)
            in if ad_full a \<noteq> [] \<or> geo3 a \<noteq> None \<or> ad_time_zone a \<noteq> []
               then (let grp = item_group (n + 1); (k, out) = exportAddresses3 (n + 1) as
                     in (k, (''ADR'', in_group grp adr) # adr_companions grp a @ out))
               else (let (k, out) = exportAddresses3 n as in (k, (''ADR'', adr) # out))))"

definition address_diags3 :: "address \<Rightarrow> diagnostic list" where
  "address_diags3 a = (if ad_country_code a \<noteq> [] then [(''warn'', ''adr'')] else []) @
     (if skipped_address a then [] else snd (contextTypeTokens (ad_contexts a) ''adr'')) @
     (if has_extra_kind a then [(''warn'', ''adr'')] else [])"

text \<open>The last birth with a date is the birthday; weddings have a name of their own and deaths none.\<close>

definition warn_if :: "bool \<Rightarrow> string \<Rightarrow> diagnostic list" where
  "warn_if b concept = (if b then [(''warn'', concept)] else [])"

definition exportAnniversary3 :: "anniversary \<Rightarrow> vcard \<times> diagnostic list \<Rightarrow> vcard \<times> diagnostic list" where
  "exportAnniversary3 a = (\<lambda>(vc, ds).
     (let v = formatDatePartial (an_date a); timed = an_timestamp (an_date a) \<noteq> None; placed = an_place a \<noteq> None
      in if an_kind a = ''birth''
         then (if v \<noteq> [] then card_set_value ''BDAY'' v vc else vc,
               ds @ warn_if timed ''anniversary.birth'' @ warn_if placed ''anniversary.place.birth'')
         else if an_kind a = ''wedding''
         then (if v \<noteq> [] then card_add ''X-ANNIVERSARY'' (field v) vc else vc,
               ds @ warn_if (v \<noteq> []) ''anniversary.wedding'' @ warn_if timed ''anniversary.wedding'')
         else if an_kind a = ''death''
         then (vc, ds @ warn_if (v \<noteq> []) ''anniversary.death'' @ warn_if placed ''anniversary.place.death'')
         else (vc, ds)))"

definition dropped_diags3 :: "card \<Rightarrow> diagnostic list" where
  "dropped_diags3 c =
     (case cd_speak_to_as c of None \<Rightarrow> []
      | Some s \<Rightarrow> warn_if (sp_genders s \<noteq> []) ''gramgender'' @ warn_if (sp_pronouns s \<noteq> []) ''pronouns'') @
     List.map_filter (\<lambda>x. if pi_kind x \<in> {''expertise'', ''hobby'', ''interest''} then Some (''warn'', pi_kind x) else None) (cd_personal_info c) @
     map (\<lambda>_. (''warn'', ''note'')) (filter (\<lambda>n. nt_author n \<noteq> None \<or> nt_created n \<noteq> None) (cd_notes c))"

definition note3 :: "card_note \<Rightarrow> (string \<times> vfield) option" where
  "note3 n = (if nt_note n = [] then None else Some (''NOTE'', field (nt_note n)))"

definition exportKeywords3 :: "card \<Rightarrow> vcard" where
  "exportKeywords3 c = (let ks = filter (\<lambda>k. k \<noteq> []) (cd_keywords c)
     in if ks = [] then [] else [(''CATEGORIES'', field (join_with '','' ks))])"

definition media_props3 :: "(string \<times> string) list" where
  "media_props3 = [(''photo'', ''PHOTO''), (''logo'', ''LOGO''), (''sound'', ''SOUND'')]"

definition media3 :: "resource \<Rightarrow> (string \<times> vfield) option" where
  "media3 m = (case map_of media_props3 (rs_kind m) of None \<Rightarrow> None
     | Some p \<Rightarrow> if rs_uri m = [] then None else Some (p, exportMediaField (rs_uri m) (rs_media_type m)))"

definition uri3 :: "string \<Rightarrow> resource \<Rightarrow> (string \<times> vfield) option" where
  "uri3 p r = (if rs_uri r = [] then None else Some (p, field (rs_uri r)))"

definition key3 :: "resource \<Rightarrow> (string \<times> vfield) option" where
  "key3 k = (if rs_uri k = [] then None else Some (''KEY'', exportMediaField (rs_uri k) (rs_media_type k)))"

definition entry3 :: "resource \<Rightarrow> (string \<times> vfield) option" where
  "entry3 d = (if rs_uri d \<noteq> [] \<and> rs_kind d = ''entry'' then Some (''SOURCE'', field (rs_uri d)) else None)"

definition link3 :: "resource \<Rightarrow> (string \<times> vfield) option" where
  "link3 l = (if rs_uri l = [] then None
     else Some (''URL'', newTypedField (rs_uri l) (fst (contextTypeTokens (rs_contexts l) ''link'') @ pref_token3 (rs_pref l))))"

definition agent3 :: "relation \<Rightarrow> (string \<times> vfield) option" where
  "agent3 r = (if rl_target r = [] then None
     else Some (''AGENT'', (field (rl_target r))\<lparr>vf_params := (if looksLikeURI (rl_target r) then [(''VALUE'', ''uri'')] else [])\<rparr>))"

definition late_diags3 :: "card \<Rightarrow> diagnostic list" where
  "late_diags3 c =
     map (\<lambda>_. (''warn'', ''directory'')) (filter (\<lambda>d. rs_uri d \<noteq> [] \<and> rs_kind d = ''directory'') (cd_directories c)) @
     concat (map (\<lambda>l. if rs_uri l = [] then [] else snd (contextTypeTokens (rs_contexts l) ''link'')) (cd_links c)) @
     map (\<lambda>_. (''warn'', ''contacturi'')) (cd_contact_uris c) @ warn_if (cd_languages c \<noteq> []) ''lang'' @
     map (\<lambda>_. (''warn'', ''related'')) (filter (\<lambda>r. rl_target r \<noteq> []) (cd_related_to c)) @ warn_if (cd_members c \<noteq> []) ''member''"

definition knownPropNames :: "string list" where
  "knownPropNames = [''BEGIN'', ''END'', ''VERSION'', ''UID'', ''PRODID'', ''REV'', ''FN'', ''N'', ''NICKNAME'', ''ORG'', ''TITLE'', ''ROLE'',
     ''EMAIL'', ''TEL'', ''IMPP'', ''ADR'', ''GEO'', ''TZ'', ''LABEL'', ''BDAY'', ''NOTE'', ''CATEGORIES'', ''PHOTO'', ''LOGO'', ''SOUND'',
     ''CALURI'', ''FBURL'', ''CALADRURI'', ''KEY'', ''SOURCE'', ''URL'', ''AGENT'', ''X-ANNIVERSARY'', ''X-SOCIALPROFILE'', ''X-SERVICE-TYPE'',
     ''X-USERNAME'', ''X-ABLabel'']"

text \<open>The unknown properties go through the same pair as in the other adapter, except that a parameter with one value is kept
  as a text and not as a list.\<close>

definition fieldToJCardProp3 :: "string \<Rightarrow> vfield \<Rightarrow> jcard_prop" where
  "fieldToJCardProp3 name f =
     (let params = map (\<lambda>k. (to_lower k, case paramAll f k of [v] \<Rightarrow> json_string v | vs \<Rightarrow> json_strings vs)) (remdups (map fst (vf_params f)))
      in \<lparr>jc_name = to_lower name,
          jc_params = (if vf_group f = [] then params
                       else filter (\<lambda>e. fst e \<noteq> ''group'') params @ [(''group'', json_string (vf_group f))]),
          jc_type = ''text'', jc_value = json_string (vf_value f)\<rparr>)"

definition exportPassthrough3 :: "passthrough \<Rightarrow> vcard" where
  "exportPassthrough3 pt = map jCardPropToField (filter (\<lambda>p. to_upper (jc_name p) \<notin> set knownPropNames) (pt_vcard pt))"

text \<open>The fields up to the anniversaries, those after them, and the whole card.\<close>

definition early_fields3 :: "card \<Rightarrow> vcard" where
  "early_fields3 c =
     (let (n1, impps) = exportImpp3 0 (cd_impp c); (n2, socials) = exportSocial3 n1 (cd_social c)
      in fst (exportIdentity3 c) @ fst (exportName3 (cd_name c)) @ List.map_filter nickname3 (cd_nicknames c) @
         List.map_filter organization3 (cd_organizations c) @ List.map_filter title3 (cd_titles c) @
         List.map_filter email3 (cd_emails c) @ List.map_filter phone3 (cd_phones c) @ impps @ socials @
         snd (exportAddresses3 n2 (cd_addresses c)))"

definition early_diags3 :: "card \<Rightarrow> diagnostic list" where
  "early_diags3 c = snd (exportIdentity3 c) @ snd (exportName3 (cd_name c)) @
     concat (map (\<lambda>n. if nk_name n = [] then [] else snd (contextTypeTokens (nk_contexts n) ''nickname'')) (cd_nicknames c)) @
     concat (map email_diags3 (cd_emails c)) @ concat (map phone_diags3 (cd_phones c)) @
     service_diags3 ''impp'' (cd_impp c) @ service_diags3 ''social'' (cd_social c) @
     map (\<lambda>_. (''warn'', ''onlineservice.other'')) (cd_other_online c) @ concat (map address_diags3 (cd_addresses c))"

definition late_fields3 :: "card \<Rightarrow> vcard" where
  "late_fields3 c =
     List.map_filter note3 (cd_notes c) @ exportKeywords3 c @ List.map_filter media3 (cd_media c) @
     List.map_filter (uri3 ''CALURI'') (cd_calendars c) @ List.map_filter (uri3 ''FBURL'') (cd_free_busy c) @
     List.map_filter (uri3 ''CALADRURI'') (cd_scheduling c) @ List.map_filter key3 (cd_crypto_keys c) @
     List.map_filter entry3 (cd_directories c) @ List.map_filter link3 (cd_links c) @ List.map_filter agent3 (cd_related_to c)"

text \<open>As before, the pointers of the map of unknown JSContact properties are listed by the caller.\<close>

definition export_card3 :: "string list \<Rightarrow> contact_record \<Rightarrow> vcard \<times> diagnostic list" where
  "export_card3 ptrs r =
     (let c = rc_card r; (vc, ds) = fold exportAnniversary3 (cd_anniversaries c) (early_fields3 c, early_diags3 c)
      in (vc @ late_fields3 c @ exportPassthrough3 (rc_passthrough r),
          ds @ dropped_diags3 c @ late_diags3 c @ warn_if (ptrs \<noteq> []) ''pt.jscontact''))"

section \<open>Import\<close>

definition importName3 :: "vcard \<Rightarrow> card_name option" where
  "importName3 vc =
     (let fn = card_value vc ''FN''; n = card_value vc ''N''; c = disassembleN3 n
      in if fn = [] \<and> n = [] then None
         else Some \<lparr>nm_components = (if n = [] then [] else List.map_filter (\<lambda>(k, v). if v = [] then None
                        else Some \<lparr>nc_kind = k, nc_value = v, nc_phonetic = []\<rparr>)
                      [(''surname'', n3_family c), (''given'', n3_given c), (''given2'', n3_additional c), (''title'', n3_prefix c),
                       (''credential'', n3_suffix c)]),
                    nm_full = fn, nm_sort_as = None, nm_is_ordered = None, nm_separator = [], nm_phonetic_system = [], nm_phonetic_script = []\<rparr>)"

definition nickname_in3 :: "vfield \<Rightarrow> nickname" where
  "nickname_in3 f = \<lparr>nk_id = [], nk_name = vf_value f, nk_contexts = fst (typed f), nk_pref = snd (typed f)\<rparr>"

definition organization_in3 :: "vfield \<Rightarrow> organization" where
  "organization_in3 f = (let comps = splitComponents (vf_value f)
     in \<lparr>org_id = [], org_name = component comps 0,
         org_units = map (\<lambda>u. \<lparr>ou_name = u, ou_sort_as = []\<rparr>) (filter (\<lambda>u. u \<noteq> []) (drop (min 1 (length comps)) comps)), org_sort_as = []\<rparr>)"

definition title_in3 :: "string \<Rightarrow> vfield \<Rightarrow> title" where
  "title_in3 kind f = \<lparr>ti_id = [], ti_name = vf_value f, ti_kind = kind, ti_organization = []\<rparr>"

definition email_in3 :: "vfield \<Rightarrow> email" where
  "email_in3 f = \<lparr>em_id = [], em_address = vf_value f, em_contexts = fst (typed f), em_pref = snd (typed f), em_label = []\<rparr>"

definition phone_in3 :: "vfield \<Rightarrow> phone" where
  "phone_in3 f = \<lparr>ph_id = [], ph_number = vf_value f, ph_features = featuresFromTokens (typeTokens f), ph_contexts = fst (typed f),
     ph_pref = snd (typed f), ph_label = []\<rparr>"

definition service_in3 :: "vcard \<Rightarrow> vfield \<Rightarrow> online_service" where
  "service_in3 vc f = \<lparr>os_id = [], os_service = labelFromGroup (card_fields vc ''X-SERVICE-TYPE'') (vf_group f), os_uri = vf_value f,
     os_user = labelFromGroup (card_fields vc ''X-USERNAME'') (vf_group f), os_contexts = fst (typed f), os_pref = snd (typed f), os_label = []\<rparr>"

text \<open>The first grouped field of a group.\<close>

definition companion :: "vfield list \<Rightarrow> string \<Rightarrow> vfield option" where
  "companion fs grp = (if grp = [] then None else find (\<lambda>f. vf_group f = grp) fs)"

definition adr_parts3 :: "adr_components3 \<Rightarrow> address_component list" where
  "adr_parts3 c = List.map_filter (\<lambda>(k, v). if v = [] then None else Some \<lparr>ac_kind = k, ac_value = v, ac_phonetic = []\<rparr>)
     [(''postOfficeBox'', a3_pobox c), (''name'', a3_street c), (''locality'', a3_locality c), (''region'', a3_region c),
      (''postcode'', a3_postal c), (''country'', a3_country c)]"

definition address_in3 :: "vcard \<Rightarrow> vfield \<Rightarrow> address" where
  "address_in3 vc f =
     \<lparr>ad_id = [], ad_components = adr_parts3 (disassembleAdr3 (vf_value f)), ad_country_code = [],
      ad_coordinates = (case companion (card_fields vc ''GEO'') (vf_group f) of None \<Rightarrow> []
        | Some g \<Rightarrow> (case latLonToGeoURI (vf_value g) of None \<Rightarrow> [] | Some u \<Rightarrow> u)),
      ad_time_zone = (case companion (card_fields vc ''TZ'') (vf_group f) of None \<Rightarrow> [] | Some t \<Rightarrow> vf_value t),
      ad_contexts = fst (typed f), ad_pref = snd (typed f),
      ad_full = (case companion (card_fields vc ''LABEL'') (vf_group f) of None \<Rightarrow> [] | Some l \<Rightarrow> vf_value l),
      ad_is_ordered = None, ad_separator = [], ad_phonetic_system = [], ad_phonetic_script = [], ad_sensitivity = []\<rparr>"

text \<open>
  A card of another client has no groups. A label goes to the one ungrouped address with its types if there is one and no
  other label has the types; coordinates and time zone go to the only address of the card.
\<close>

definition ungroupedFields :: "vfield list \<Rightarrow> vfield list" where
  "ungroupedFields fs = filter (\<lambda>f. vf_group f = []) fs"

definition key_of :: "vfield \<Rightarrow> string" where
  "key_of f = typeKey (typeTokens f)"

fun set_full :: "string \<Rightarrow> string \<Rightarrow> (vfield \<times> address) list \<Rightarrow> (vfield \<times> address) list" where
  "set_full k v [] = []"
| "set_full k v ((f, a) # as) = (if vf_group f = [] \<and> key_of f = k then (f, a\<lparr>ad_full := v\<rparr>) # as else (f, a) # set_full k v as)"

definition attach_label :: "vfield list \<Rightarrow> vfield list \<Rightarrow> vfield \<Rightarrow> (vfield \<times> address) list \<times> diagnostic list \<Rightarrow> (vfield \<times> address) list \<times> diagnostic list" where
  "attach_label adrs labels lf = (\<lambda>(as, ds).
     (let k = key_of lf; hits = (\<lambda>fs. length (filter (\<lambda>f. key_of f = k) fs))
      in if hits adrs = 1 \<and> hits labels = 1 then (set_full k (vf_value lf) as, ds) else (as, ds @ [(''warn'', ''adr.full'')])))"

definition attach_geo :: "vfield list \<Rightarrow> address \<Rightarrow> address \<times> diagnostic list" where
  "attach_geo geos a =
     (case geos of [] \<Rightarrow> (a, [])
      | g # gs \<Rightarrow> if ad_coordinates a \<noteq> [] then (a, [])
          else (case latLonToGeoURI (vf_value g) of Some u \<Rightarrow> (a\<lparr>ad_coordinates := u\<rparr>, warn_if (gs \<noteq> []) ''adr.geo'')
                | None \<Rightarrow> (a, (''warn'', ''adr.geo'') # warn_if (gs \<noteq> []) ''adr.geo'')))"

definition attach_zone :: "vfield list \<Rightarrow> address \<Rightarrow> address \<times> diagnostic list" where
  "attach_zone tzs a =
     (case tzs of [] \<Rightarrow> (a, [])
      | t # ts \<Rightarrow> if ad_time_zone a \<noteq> [] then (a, []) else (a\<lparr>ad_time_zone := vf_value t\<rparr>, warn_if (ts \<noteq> []) ''adr.tz''))"

definition importUngroupedAddressCompanions :: "vcard \<Rightarrow> (vfield \<times> address) list \<Rightarrow> address list \<times> diagnostic list" where
  "importUngroupedAddressCompanions vc adrs =
     (let labels = ungroupedFields (card_fields vc ''LABEL''); geos = ungroupedFields (card_fields vc ''GEO'');
          tzs = ungroupedFields (card_fields vc ''TZ''); plain_adrs = ungroupedFields (map fst adrs);
          (as, ds) = fold (attach_label plain_adrs labels) labels (adrs, [])
      in case as of
           [(f, a)] \<Rightarrow> (let (a1, d1) = attach_geo geos a; (a2, d2) = attach_zone tzs a1 in ([a2], ds @ d1 @ d2))
         | _ \<Rightarrow> (map snd as, ds @ warn_if (geos \<noteq> []) ''adr.geo'' @ warn_if (tzs \<noteq> []) ''adr.tz''))"

definition importAddresses3 :: "vcard \<Rightarrow> address list \<times> diagnostic list" where
  "importAddresses3 vc = importUngroupedAddressCompanions vc (map (\<lambda>f. (f, address_in3 vc f)) (card_fields vc ''ADR''))"

definition anniversary_in3 :: "string \<Rightarrow> string \<Rightarrow> anniversary" where
  "anniversary_in3 kind v = \<lparr>an_id = [], an_kind = kind, an_date = parseDatePartial v, an_place = None\<rparr>"

definition importAnniversaries3 :: "vcard \<Rightarrow> anniversary list" where
  "importAnniversaries3 vc = (if card_value vc ''BDAY'' = [] then [] else [anniversary_in3 ''birth'' (card_value vc ''BDAY'')]) @
     map (\<lambda>f. anniversary_in3 ''wedding'' (vf_value f)) (valued vc ''X-ANNIVERSARY'')"

definition importKeywords3 :: "vcard \<Rightarrow> string list" where
  "importKeywords3 vc = (if card_value vc ''CATEGORIES'' = [] then []
     else filter (\<lambda>k. k \<noteq> []) (map trim_space (split_on CHR '','' (card_value vc ''CATEGORIES''))))"

definition uri_resource :: "string \<Rightarrow> string \<Rightarrow> resource" where
  "uri_resource kind u = \<lparr>rs_id = [], rs_kind = kind, rs_uri = u, rs_media_type = [], rs_label = [], rs_contexts = [], rs_pref = None,
     rs_list_as = None\<rparr>"

definition media_in3 :: "vcard \<Rightarrow> string \<Rightarrow> string \<Rightarrow> resource list" where
  "media_in3 vc p kind = List.map_filter (\<lambda>f. if importMediaURI f kind = [] then None else Some (uri_resource kind (importMediaURI f kind))) (valued vc p)"

definition uris_in3 :: "vcard \<Rightarrow> string \<Rightarrow> string \<Rightarrow> resource list" where
  "uris_in3 vc p kind = map (\<lambda>f. uri_resource kind (vf_value f)) (valued vc p)"

definition link_in3 :: "vfield \<Rightarrow> resource" where
  "link_in3 f = (uri_resource [] (vf_value f))\<lparr>rs_contexts := fst (typed f), rs_pref := snd (typed f)\<rparr>"

definition updated_in3 :: "vcard \<Rightarrow> timestamp option" where
  "updated_in3 vc = (if card_value vc ''REV'' = [] then None else map_option (\<lambda>t. \<lparr>ts_utc = t\<rparr>) (v3ToTs (card_value vc ''REV'')))"

definition import_card3 :: "vcard \<Rightarrow> contact_record \<times> diagnostic list" where
  "import_card3 vc =
     (let (adrs, ds) = importAddresses3 vc;
          c = empty_card\<lparr>cd_uid := card_value vc ''UID'', cd_prod_id := card_value vc ''PRODID'', cd_updated := updated_in3 vc,
                cd_name := importName3 vc, cd_nicknames := map nickname_in3 (valued vc ''NICKNAME''),
                cd_organizations := map organization_in3 (valued vc ''ORG''),
                cd_titles := map (title_in3 ''title'') (valued vc ''TITLE'') @ map (title_in3 ''role'') (valued vc ''ROLE''),
                cd_emails := map email_in3 (valued vc ''EMAIL''), cd_phones := map phone_in3 (valued vc ''TEL''),
                cd_impp := map (service_in3 vc) (valued vc ''IMPP''), cd_social := map (service_in3 vc) (valued vc ''X-SOCIALPROFILE''),
                cd_addresses := adrs, cd_anniversaries := importAnniversaries3 vc,
                cd_notes := map (\<lambda>f. \<lparr>nt_id = [], nt_note = vf_value f, nt_author = None, nt_created = None\<rparr>) (valued vc ''NOTE''),
                cd_keywords := importKeywords3 vc,
                cd_media := media_in3 vc ''PHOTO'' ''photo'' @ media_in3 vc ''LOGO'' ''logo'' @ media_in3 vc ''SOUND'' ''sound'',
                cd_calendars := uris_in3 vc ''CALURI'' [], cd_free_busy := uris_in3 vc ''FBURL'' [],
                cd_scheduling := uris_in3 vc ''CALADRURI'' [],
                cd_crypto_keys := map (\<lambda>f. uri_resource [] (importMediaURI f ''key'')) (valued vc ''KEY''),
                cd_directories := uris_in3 vc ''SOURCE'' ''entry'', cd_links := map link_in3 (valued vc ''URL''),
                cd_related_to := map (\<lambda>f. \<lparr>rl_target = vf_value f, rl_relations = []\<rparr>) (valued vc ''AGENT'')\<rparr>;
          names = sorted_names (filter (\<lambda>p. p \<notin> set knownPropNames) (map fst vc))
      in (blank_record\<lparr>rc_card := c, rc_passthrough := \<lparr>pt_vcard = concat (map (\<lambda>p. map (fieldToJCardProp3 p) (card_fields vc p)) names),
            pt_jscontact = Map.empty\<rparr>\<rparr>, ds))"

text \<open>Reading and writing the text, as for the newer version; a missing record is an empty one.\<close>

definition Import3 :: "text_layer \<Rightarrow> string \<Rightarrow> (contact_record \<times> diagnostic list) option" where
  "Import3 tx raw = map_option import_card3 (tl_decode tx (strip_bom raw))"

definition Export3 :: "text_layer \<Rightarrow> string list \<Rightarrow> contact_record option \<Rightarrow> (string \<times> diagnostic list) option" where
  "Export3 tx ptrs r =
     (case export_card3 ptrs (case r of Some r \<Rightarrow> r | None \<Rightarrow> blank_record) of
        (vc, ds) \<Rightarrow> map_option (\<lambda>out. (fixCategoryListEscapes out, ds)) (tl_encode tx vc))"

end
