(* ===== verification/VCardWire.thy ===== *)
theory VCardWire imports VCard4 begin

text \<open>
  What a reader finds in the parameters of a written card. The text layer is not in the repository; what the adapter relies
  on is what its comments record of it: a plain parameter value comes back as it was, a quoted one is cut at its commas.
  The rules here say what each setter of the adapter contributes to what is read.
\<close>

section \<open>Plain values\<close>

definition special_chars :: "char list" where
  "special_chars = [CHR 0x22, CHR '','', CHR '';'', CHR '':'', CHR 0x5C, CHR 0x0A, CHR 0x0D]"

definition plain :: "string \<Rightarrow> bool" where
  "plain v \<longleftrightarrow> list_all (\<lambda>c. c \<notin> set special_chars) v"

text \<open>What may stand between quotes.\<close>

definition quotable :: "string \<Rightarrow> bool" where
  "quotable v \<longleftrightarrow> list_all (\<lambda>c. c \<notin> {CHR 0x22, CHR 0x5C, CHR 0x0A, CHR 0x0D}) v"

definition reads_params :: "(string \<Rightarrow> string list) \<Rightarrow> bool" where
  "reads_params rd \<longleftrightarrow> (\<forall>v. plain v \<longrightarrow> rd v = [v]) \<and> (\<forall>v. quotable v \<longrightarrow> rd (quotedParam v) = split_on CHR '','' v)"

definition read_param :: "(string \<Rightarrow> string list) \<Rightarrow> (string \<times> string) list \<Rightarrow> string \<Rightarrow> string \<Rightarrow> string list" where
  "read_param rd splices key v =
     (case map_of splices (key @ ''='' @ v) of None \<Rightarrow> rd v | Some r \<Rightarrow> rd (drop (length key + 1) r))"

definition wire_field :: "(string \<Rightarrow> string list) \<Rightarrow> (string \<times> string) list \<Rightarrow> vfield \<Rightarrow> vfield" where
  "wire_field rd splices f = f\<lparr>vf_params := concat (map (\<lambda>(k, v). map (Pair k) (read_param rd splices k v)) (vf_params f))\<rparr>"

definition wire :: "(string \<Rightarrow> string list) \<Rightarrow> (string \<times> string) list \<Rightarrow> vcard \<Rightarrow> vcard" where
  "wire rd splices vc = map (\<lambda>(p, f). (p, wire_field rd splices f)) vc"

definition geo_splices :: "(string \<times> string) list \<Rightarrow> bool" where
  "geo_splices splices \<longleftrightarrow> list_all (\<lambda>e. has_prefix (fst e) ''GEO='') splices"

lemma has_prefix_short: "has_prefix (a @ b) p \<Longrightarrow> length p \<le> length a \<Longrightarrow> has_prefix a p"
  by (induction a p rule: has_prefix.induct) (auto split: if_splits)

lemma read_plain:
  assumes "reads_params rd" and "geo_splices splices" and "\<not> has_prefix (key @ ''='' @ v) ''GEO=''" and "plain v"
  shows "read_param rd splices key v = [v]"
proof -
  have "map_of splices (key @ ''='' @ v) = None"
    using assms(2,3) unfolding geo_splices_def map_of_eq_None_iff by (fastforce simp: list_all_iff)
  then show ?thesis using assms(1,4) by (simp add: read_param_def reads_params_def)
qed

lemma read_quoted:
  assumes "reads_params rd" and "geo_splices splices" and "\<not> has_prefix (key @ ''='' @ quotedParam v) ''GEO=''" and "quotable v"
  shows "read_param rd splices key (quotedParam v) = split_on CHR '','' v"
proof -
  have "map_of splices (key @ ''='' @ quotedParam v) = None"
    using assms(2,3) unfolding geo_splices_def map_of_eq_None_iff by (fastforce simp: list_all_iff)
  then show ?thesis using assms(1,4) by (simp add: read_param_def reads_params_def)
qed

lemma plain_digits: "list_all is_digit s \<Longrightarrow> plain s"
  by (fastforce simp: plain_def special_chars_def list_all_iff is_digit_def)

lemma plain_show_nat [simp]: "plain (show_nat n)"
  using digits_show_nat plain_digits by blast

lemma plain_append [simp]: "plain (a @ b) \<longleftrightarrow> plain a \<and> plain b"
  by (simp add: plain_def)

lemma plain_show_int [simp]: "plain (show_int n)"
proof -
  have "plain (CHR ''-'' # s)" if "plain s" for s using that by (simp add: plain_def special_chars_def)
  then show ?thesis by (simp add: show_int_def)
qed

lemma show_nat_not_Nil [simp]: "show_nat n \<noteq> []"
  by (simp add: show_nat.simps [of n])

lemma show_int_not_Nil [simp]: "show_int n \<noteq> []"
  by (simp add: show_int_def)

lemma show_nat_inj [simp]: "show_nat a = show_nat b \<longleftrightarrow> a = b"
  using digits_show_nat by metis

lemma atoi_show_int:
  assumes "in_int64 n"
  shows "atoi (show_int n) = Some n"
proof -
  have d: "atoi_digits (show_nat k) = Some (int k)" for k
    using digits_show_nat [of k] by (simp add: atoi_digits_def)
  show ?thesis
  proof (cases "n < 0")
    case True
    then show ?thesis using assms d [of "nat (- n)"] by (simp add: atoi_def show_int_def)
  next
    case False
    obtain c cs where c: "show_nat (nat n) = c # cs" using show_nat_not_Nil by (meson list.exhaust)
    then have "is_digit c" using digits_show_nat [of "nat n"] by simp
    then show ?thesis using assms False d [of "nat n"] c not_digit_sign by (auto simp: atoi_def show_int_def)
  qed
qed

section \<open>Fields\<close>

lemma value_kept [simp]: "vf_value (setParam k v f) = vf_value f" "vf_value (setPref p f) = vf_value f" "vf_value (setPropID i f) = vf_value f"
  "vf_value (addTypeTokens toks f) = vf_value f" "vf_value (field s) = s" "vf_value (wire_field rd sp f) = vf_value f"
proof -
  show "vf_value (addTypeTokens toks f) = vf_value f" unfolding addTypeTokens_def
    by (induction toks arbitrary: f) (auto simp: add_param_def)
qed (auto simp: setParam_def setPref_def setPropID_def field_def wire_field_def split: option.splits)

lemma group_kept [simp]: "vf_group (setParam k v f) = vf_group f" "vf_group (setPref p f) = vf_group f" "vf_group (setPropID i f) = vf_group f"
  "vf_group (addTypeTokens toks f) = vf_group f" "vf_group (field s) = []" "vf_group (wire_field rd sp f) = vf_group f"
proof -
  show "vf_group (addTypeTokens toks f) = vf_group f" unfolding addTypeTokens_def
    by (induction toks arbitrary: f) (auto simp: add_param_def)
qed (auto simp: setParam_def setPref_def setPropID_def field_def wire_field_def split: option.splits)

lemma filter_other: "k \<noteq> k' \<Longrightarrow> filter (\<lambda>e. fst e \<noteq> k \<and> fst e = k') ps = filter (\<lambda>e. fst e = k') ps"
  by (rule filter_cong) auto

lemma params_setParam [simp]: "paramAll (setParam k v f) k' = (if v \<noteq> [] \<and> k = k' then [v] else paramAll f k')"
  by (auto simp: setParam_def paramAll_def filter_other)

lemma params_setPref [simp]: "paramAll (setPref p f) k = (if p \<noteq> None \<and> k = ''PREF'' then [show_int (the p)] else paramAll f k)"
  by (auto simp: setPref_def split: option.splits)

lemma params_setPropID [simp]: "paramAll (setPropID i f) k = (if k = ''PROP-ID'' then [i] else paramAll f k)"
  by (auto simp: setPropID_def paramAll_def filter_other)

lemma params_addTypeTokens [simp]:
  "paramAll (addTypeTokens toks f) k = (if k = ''TYPE'' then paramAll f k @ filter (\<lambda>t. t \<noteq> []) toks else paramAll f k)"
  unfolding addTypeTokens_def by (induction toks arbitrary: f) (auto simp: add_param_def paramAll_def)

lemma params_field [simp]: "paramAll (field s) k = []"
  by (simp add: field_def paramAll_def)

lemma params_plain [simp]: "paramAll \<lparr>vf_value = v, vf_params = [], vf_group = g\<rparr> k = []"
  by (simp add: paramAll_def)

lemma params_wire: "paramAll (wire_field rd sp f) k = concat (map (read_param rd sp k) (paramAll f k))"
proof -
  have "map snd (filter (\<lambda>e. fst e = k) (concat (map (\<lambda>(k, v). map (Pair k) (read_param rd sp k v)) ps))) =
      concat (map (read_param rd sp k) (map snd (filter (\<lambda>e. fst e = k) ps)))" for ps
    by (induction ps) (auto simp: filter_map o_def)
  then show ?thesis by (simp add: wire_field_def paramAll_def)
qed

lemma fields_append [simp]: "card_fields (a @ b) p = card_fields a p @ card_fields b p" "card_fields [] p = []"
  "card_fields (e # a) p = (if fst e = p then [snd e] else []) @ card_fields a p"
  by (simp_all add: card_fields_def)

lemma fields_map [simp]: "card_fields (map (\<lambda>x. (q, g x)) xs) p = (if q = p then map g xs else [])"
  by (induction xs) auto

lemma fields_map_pair [simp]: "card_fields (map (\<lambda>(i, x). (q, g i x)) xs) p = (if q = p then map (\<lambda>(i, x). g i x) xs else [])"
  by (induction xs) auto

lemma fields_set_value [simp]: "card_fields (card_set_value q v vc) p = (if q = p then [field v] else card_fields vc p)"
  by (auto simp: card_fields_def card_set_value_def filter_empty_conv filter_other)

lemma fields_add [simp]: "card_fields (card_add q f vc) p = card_fields vc p @ (if q = p then [f] else [])"
  by (simp add: card_add_def)

lemma fields_wire [simp]: "card_fields (wire rd sp vc) p = map (wire_field rd sp) (card_fields vc p)"
  by (induction vc) (auto simp: wire_def)

lemma fields_set_unless_empty [simp]:
  "card_fields (set_unless_empty q v vc) p = (if q = p \<and> v \<noteq> [] then [field v] else card_fields vc p)"
  by (simp add: set_unless_empty_def)

lemma fields_set_stamp [simp]:
  "card_fields (set_stamp q t vc) p = (case t of None \<Rightarrow> card_fields vc p
     | Some s \<Rightarrow> if q = p then [field (rfc3339ToVCardTimestamp (ts_utc s))] else card_fields vc p)"
  by (simp add: set_stamp_def split: option.splits)

end
