(* ===== verification/VCard4Items.thy ===== *)
theory VCard4Items imports VCardWire begin

text \<open>
  Reading back one written entry at a time: for each kind of entry of the neutral card, the condition under which the field
  that the adapter writes for it gives the entry again. The conditions are the adapter's contract: an entry outside them is
  changed or lost on the way.
\<close>

definition wire_ok :: "(string \<Rightarrow> string list) \<Rightarrow> (string \<times> string) list \<Rightarrow> bool" where
  "wire_ok rd sp \<longleftrightarrow> reads_params rd \<and> geo_splices sp"

definition safe_key :: "string \<Rightarrow> bool" where
  "safe_key k \<longleftrightarrow> \<not> has_prefix (k @ ''='') ''GEO=''"

named_theorems entry_defs "unfold the two directions of one entry and its condition"

section \<open>Parameters\<close>

lemma safe_key_any: "safe_key k \<Longrightarrow> CHR ''='' \<notin> set k \<Longrightarrow> \<not> has_prefix (k @ ''='' @ v) ''GEO=''"
proof -
  assume s: "safe_key k" and k: "CHR ''='' \<notin> set k"
  have "has_prefix (k @ CHR ''='' # v) (g @ ''='') \<Longrightarrow> CHR ''='' \<notin> set g \<Longrightarrow> k = g" for g
    using k
  proof (induction k g rule: has_prefix.induct)
    case (1 k) then show ?case by (cases k) auto
  qed (auto split: if_splits)
  from this [of "''GEO''"] have "has_prefix (k @ ''='' @ v) ''GEO='' \<Longrightarrow> k = ''GEO''" by simp
  then show ?thesis using s by (auto simp: safe_key_def)
qed

lemma read_one [simp]:
  assumes "wire_ok rd sp" and "safe_key k" and "CHR ''='' \<notin> set k" and "plain v"
  shows "read_param rd sp k v = [v]"
  using assms read_plain safe_key_any by (simp add: wire_ok_def)

lemma read_all:
  assumes "wire_ok rd sp" and "safe_key k" and "CHR ''='' \<notin> set k" and "list_all plain vs"
  shows "concat (map (read_param rd sp k) vs) = vs"
  using assms(4) by (induction vs) (simp_all add: assms(1-3))

lemma safe_keys [simp]: "safe_key ''PROP-ID''" "safe_key ''PREF''" "safe_key ''TYPE''" "safe_key ''SERVICE-TYPE''"
  "safe_key ''USERNAME''" "safe_key ''CC''" "safe_key ''TZ''" "safe_key ''LABEL''" "safe_key ''CALSCALE''" "safe_key ''LANGUAGE''"
  "safe_key ''LEVEL''" "safe_key ''INDEX''" "safe_key ''AUTHOR''" "safe_key ''AUTHOR-NAME''" "safe_key ''CREATED''"
  "safe_key ''MEDIATYPE''" "safe_key ''VALUE''" "safe_key ''PHONETIC''" "safe_key ''SCRIPT''" "safe_key ''ALTID''" "safe_key ''DERIVED''"
  by (simp_all add: safe_key_def)

lemma plain_Cons: "plain (c # s) \<longleftrightarrow> c \<notin> set special_chars \<and> plain s" "plain []"
  by (simp_all add: plain_def)

definition id_ok :: "string \<Rightarrow> bool" where
  "id_ok i \<longleftrightarrow> i \<noteq> [] \<and> plain i"

definition pref_ok :: "int option \<Rightarrow> bool" where
  "pref_ok p \<longleftrightarrow> (case p of None \<Rightarrow> True | Some n \<Rightarrow> in_int64 n)"

definition contexts_ok :: "string list \<Rightarrow> bool" where
  "contexts_ok cs \<longleftrightarrow> list_all (\<lambda>c. c \<in> {''private'', ''work'', ''billing'', ''delivery''}) cs"

text \<open>A feature of a phone is a lower-case token that is not one of the context tokens.\<close>

definition feature_ok :: "string \<Rightarrow> bool" where
  "feature_ok t \<longleftrightarrow> t \<noteq> [] \<and> plain t \<and> to_lower t = t \<and> map_of type_token_to_context t = None"

lemma pref_back [simp]: "pref_ok (Some n) \<Longrightarrow> atoi (show_int n) = Some n"
  by (simp add: pref_ok_def atoi_show_int)

lemma id_kept [simp]: "i \<noteq> [] \<Longrightarrow> idOrSynthetic i pre n = i"
  by (simp add: idOrSynthetic_def)

lemma context_cases: "c \<in> {''private'', ''work'', ''billing'', ''delivery''} \<Longrightarrow>
    \<exists>t. t \<noteq> [] \<and> plain t \<and> to_lower t = t \<and> map_of context_to_type_token (to_lower c) = Some t \<and> map_of type_token_to_context t = Some c"
  by (elim insertE) (simp_all add: context_to_type_token_def type_token_to_context_def to_lower_def to_lower_char_def
    plain_def special_chars_def)

lemma context_tokens:
  assumes "contexts_ok cs"
  shows "list_all plain (contextsToTypeTokens cs)" "filter (\<lambda>t. t \<noteq> []) (contextsToTypeTokens cs) = contextsToTypeTokens cs"
    "List.map_filter (map_of type_token_to_context) (map to_lower (contextsToTypeTokens cs)) = cs"
    "filter (\<lambda>t. map_of type_token_to_context t = None) (map to_lower (contextsToTypeTokens cs)) = []"
proof -
  have "list_all plain (contextsToTypeTokens cs) \<and> filter (\<lambda>t. t \<noteq> []) (contextsToTypeTokens cs) = contextsToTypeTokens cs \<and>
    List.map_filter (map_of type_token_to_context) (map to_lower (contextsToTypeTokens cs)) = cs \<and>
    filter (\<lambda>t. map_of type_token_to_context t = None) (map to_lower (contextsToTypeTokens cs)) = []"
    using assms
  proof (induction cs)
    case Nil then show ?case by (simp add: contextsToTypeTokens_def List.map_filter_simps)
  next
    case (Cons c cs)
    then obtain t where "t \<noteq> []" "plain t" "to_lower t = t" "map_of context_to_type_token (to_lower c) = Some t"
        "map_of type_token_to_context t = Some c"
      using context_cases [of c] unfolding contexts_ok_def by fastforce
    then show ?case using Cons by (simp add: contextsToTypeTokens_def List.map_filter_simps contexts_ok_def)
  qed
  then show "list_all plain (contextsToTypeTokens cs)" "filter (\<lambda>t. t \<noteq> []) (contextsToTypeTokens cs) = contextsToTypeTokens cs"
    "List.map_filter (map_of type_token_to_context) (map to_lower (contextsToTypeTokens cs)) = cs"
    "filter (\<lambda>t. map_of type_token_to_context t = None) (map to_lower (contextsToTypeTokens cs)) = []" by simp_all
qed

lemma feature_tokens:
  assumes "list_all feature_ok fs"
  shows "list_all plain fs" "filter (\<lambda>t. t \<noteq> []) fs = fs"
    "List.map_filter (map_of type_token_to_context) (map to_lower fs) = []"
    "filter (\<lambda>t. map_of type_token_to_context t = None) (map to_lower fs) = fs"
  using assms by (induction fs) (auto simp: feature_ok_def List.map_filter_simps)

lemma map_filter_cong: "(\<And>x. x \<in> set xs \<Longrightarrow> f x = g x) \<Longrightarrow> List.map_filter f xs = List.map_filter g xs"
  by (induction xs) (auto simp: List.map_filter_simps split: option.splits)

lemma map_filter_append: "List.map_filter f (xs @ ys) = List.map_filter f xs @ List.map_filter f ys"
  by (simp add: List.map_filter_def)

lemma read_context_tokens [simp]: "wire_ok rd sp \<Longrightarrow> contexts_ok cs \<Longrightarrow>
    concat (map (read_param rd sp ''TYPE'') (contextsToTypeTokens cs)) = contextsToTypeTokens cs"
  using context_tokens(1) by (intro read_all) simp_all

lemma read_feature_tokens [simp]: "wire_ok rd sp \<Longrightarrow> list_all feature_ok fs \<Longrightarrow>
    concat (map (read_param rd sp ''TYPE'') fs) = fs"
  using feature_tokens(1) by (intro read_all) simp_all

lemmas token_simps [simp] = context_tokens(2-4) feature_tokens(2-4)

lemmas reads [entry_defs] = propID_def prefOf_def paramValue_def params_wire splitTypeTokens_def Let_def map_filter_append id_ok_def

section \<open>E-mails and phones\<close>

definition email_ok :: "email \<Rightarrow> bool" where
  "email_ok e \<longleftrightarrow> id_ok (em_id e) \<and> contexts_ok (em_contexts e) \<and> pref_ok (em_pref e) \<and> em_label e = []"

lemma email_back: "wire_ok rd sp \<Longrightarrow> email_ok e \<Longrightarrow> email_in i (wire_field rd sp (email_field j e)) = e"
  by (cases "em_pref e") (simp_all add: entry_defs email_ok_def email_in_def email_field_def)

definition phone_ok :: "phone \<Rightarrow> bool" where
  "phone_ok p \<longleftrightarrow> id_ok (ph_id p) \<and> contexts_ok (ph_contexts p) \<and> list_all feature_ok (ph_features p) \<and> pref_ok (ph_pref p) \<and>
     ph_label p = []"

lemma phone_back: "wire_ok rd sp \<Longrightarrow> phone_ok p \<Longrightarrow> phone_in i (wire_field rd sp (phone_field j p)) = p"
  by (cases "ph_pref p") (simp_all add: entry_defs phone_ok_def phone_in_def phone_field_def)

section \<open>Online services and languages\<close>

definition service_ok :: "online_service \<Rightarrow> bool" where
  "service_ok s \<longleftrightarrow> id_ok (os_id s) \<and> contexts_ok (os_contexts s) \<and> pref_ok (os_pref s) \<and> plain (os_service s) \<and>
     plain (os_user s) \<and> os_label s = []"

lemma impp_back: "wire_ok rd sp \<Longrightarrow> service_ok s \<Longrightarrow> impp_in i (wire_field rd sp (impp_field j s)) = s"
  by (cases "os_pref s") (simp_all add: entry_defs service_ok_def impp_in_def impp_field_def service_rest_def)

lemma plain_text [simp]: "plain ''text''" "plain ''TRUE''" "plain ''1''" "plain ''uri''"
  by (simp_all add: plain_def special_chars_def)

lemma text_is_text [simp]: "equal_fold ''text'' ''text''" "\<not> equal_fold [] ''text''" "\<not> equal_fold ''uri'' ''text''"
  "equal_fold ''uri'' ''uri''" "\<not> equal_fold [] ''uri''"
  by (simp_all add: equal_fold_def to_lower_def to_lower_char_def)

lemma social_back: "wire_ok rd sp \<Longrightarrow> service_ok s \<Longrightarrow> social_in i (wire_field rd sp (social_field j s)) = s"
  by (cases "os_pref s"; cases "os_uri s") (simp_all add: entry_defs service_ok_def social_in_def social_field_def service_rest_def)

definition language_ok :: "language_pref \<Rightarrow> bool" where
  "language_ok l \<longleftrightarrow> id_ok (lp_id l) \<and> contexts_ok (lp_contexts l) \<and> pref_ok (lp_pref l)"

lemma language_back: "wire_ok rd sp \<Longrightarrow> language_ok l \<Longrightarrow> language_in i (wire_field rd sp (language_field j l)) = l"
  by (cases "lp_pref l") (simp_all add: entry_defs language_ok_def language_in_def language_field_def)

section \<open>Resources and relations\<close>

definition resource_ok :: "string \<Rightarrow> bool \<Rightarrow> bool \<Rightarrow> resource \<Rightarrow> bool" where
  "resource_ok kind withMediaType withIndex r \<longleftrightarrow> id_ok (rs_id r) \<and> rs_kind r = kind \<and> plain (rs_media_type r) \<and> pref_ok (rs_pref r) \<and>
     pref_ok (rs_list_as r) \<and> (withMediaType \<or> rs_media_type r = []) \<and> (withIndex \<or> rs_list_as r = None) \<and> rs_label r = [] \<and> rs_contexts r = []"

lemma resource_back: "wire_ok rd sp \<Longrightarrow> resource_ok kind mt ix r \<Longrightarrow>
    resource_in kind mt ix i (wire_field rd sp (resource_field mt ix j r)) = r"
  by (cases "rs_pref r"; cases "rs_list_as r"; cases mt; cases ix)
    (simp_all add: entry_defs resource_ok_def resource_in_def resource_field_def index_of_def)

definition relation_ok :: "relation \<Rightarrow> bool" where
  "relation_ok r \<longleftrightarrow> list_all (\<lambda>t. t \<noteq> [] \<and> plain t \<and> to_lower t = t) (rl_relations r)"

lemma lower_tokens: "list_all (\<lambda>t. t \<noteq> [] \<and> plain t \<and> to_lower t = t) ts \<Longrightarrow>
    list_all plain ts \<and> filter (\<lambda>t. t \<noteq> []) ts = ts \<and> map to_lower ts = ts"
  by (induction ts) auto

lemma relation_back: "wire_ok rd sp \<Longrightarrow> relation_ok r \<Longrightarrow> relation_in (wire_field rd sp (relation_field r)) = r"
  using lower_tokens [of "rl_relations r"] read_all [of rd sp "''TYPE''" "rl_relations r"]
  by (simp add: entry_defs relation_ok_def relation_in_def relation_field_def)

section \<open>How to address a person, personal information, notes\<close>

definition gender_ok :: "grammatical_gender \<Rightarrow> bool" where
  "gender_ok g \<longleftrightarrow> id_ok (gg_id g) \<and> to_lower (gg_value g) = gg_value g \<and> plain (gg_language g)"

lemma gender_back: "wire_ok rd sp \<Longrightarrow> gender_ok g \<Longrightarrow> gender_in i (wire_field rd sp (gender_field j g)) = g"
  by (simp add: entry_defs gender_ok_def gender_in_def gender_field_def)

definition pronouns_ok :: "pronouns \<Rightarrow> bool" where
  "pronouns_ok p \<longleftrightarrow> id_ok (pr_id p) \<and> contexts_ok (pr_contexts p) \<and> pref_ok (pr_pref p)"

lemma pronouns_back: "wire_ok rd sp \<Longrightarrow> pronouns_ok p \<Longrightarrow> pronouns_in i (wire_field rd sp (pronouns_field j p)) = p"
  by (cases "pr_pref p") (simp_all add: entry_defs pronouns_ok_def pronouns_in_def pronouns_field_def)

text \<open>A level in the words of the neutral record: an expertise that already has the words of vCard would be translated.\<close>

definition level_ok :: "string \<Rightarrow> string \<Rightarrow> bool" where
  "level_ok kind l \<longleftrightarrow> plain l \<and> to_lower l = l \<and> (kind = ''expertise'' \<longrightarrow> l \<notin> {''expert'', ''average'', ''beginner''})"

definition info_ok :: "personal_info \<Rightarrow> bool" where
  "info_ok x \<longleftrightarrow> id_ok (pi_id x) \<and> level_ok (pi_kind x) (pi_level x) \<and> pref_ok (pi_list_as x) \<and> pi_label x = []"

lemma level_back:
  assumes "level_ok kind l" and "l \<noteq> []"
  shows "level_in kind (level_out kind l) = l" "plain (level_out kind l)" "level_out kind l \<noteq> []"
proof -
  have w: "to_lower ''expert'' = ''expert''" "to_lower ''average'' = ''average''" "to_lower ''beginner'' = ''beginner''"
    "plain ''expert''" "plain ''average''" "plain ''beginner''"
    by (simp_all add: to_lower_def to_lower_char_def plain_def special_chars_def)
  show "level_in kind (level_out kind l) = l" "plain (level_out kind l)" "level_out kind l \<noteq> []"
    using assms w by (auto simp: level_ok_def level_in_def level_out_def levelToExpertise_def expertiseToLevel_def)
qed

lemma info_back: "wire_ok rd sp \<Longrightarrow> info_ok x \<Longrightarrow> info_in i (pi_kind x, wire_field rd sp (info_field j x)) = x"
  using level_back [of "pi_kind x" "pi_level x"]
  by (cases "pi_list_as x"; cases "pi_level x") (simp_all add: entry_defs info_ok_def info_in_def info_field_def index_of_def)

text \<open>An author has a name or an address on the web; the address stands between quotes and may not hold a comma.\<close>

definition author_ok :: "author \<Rightarrow> bool" where
  "author_ok a \<longleftrightarrow> (au_name a \<noteq> [] \<or> au_uri a \<noteq> []) \<and> plain (au_name a) \<and> quotable (au_uri a) \<and> CHR '','' \<notin> set (au_uri a)"

definition note_ok :: "card_note \<Rightarrow> bool" where
  "note_ok n \<longleftrightarrow> id_ok (nt_id n) \<and> (case nt_author n of None \<Rightarrow> True | Some a \<Rightarrow> author_ok a) \<and>
     (case nt_created n of None \<Rightarrow> True | Some t \<Rightarrow> utc_stamp (ts_utc t))"

lemma read_quoted_one [simp]: "wire_ok rd sp \<Longrightarrow> safe_key k \<Longrightarrow> CHR ''='' \<notin> set k \<Longrightarrow> quotable v \<Longrightarrow> CHR '','' \<notin> set v \<Longrightarrow>
    read_param rd sp k (quotedParam v) = [v]"
  using read_quoted [of rd sp k v] safe_key_any [of k] split_on_piece [of "CHR '',''" v] by (simp add: wire_ok_def)

lemma quoted_not_Nil [simp]: "quotedParam v \<noteq> []"
  by (simp add: quotedParam_def)

lemma plain_stamp: "utc_stamp s \<Longrightarrow> plain (rfc3339ToVCardTimestamp s)"
proof -
  assume "utc_stamp s"
  then obtain t where t: "time_parse True Colon s = Some t" "in_years t" by (auto simp: utc_stamp_def split: option.splits)
  let ?d = "t div 86400"
  have two: "n < 100 \<Longrightarrow> plain (pad2 n)" and four: "m < 10000 \<Longrightarrow> plain (pad4 m)" for n m by (simp_all add: plain_digits)
  have "plain (pad2 (nat (month_of ?d)))" using month_of_bounds [of ?d] by (intro two) linarith
  moreover have "plain (pad2 (nat (day_of ?d)))"
    using day_of_bounds [of ?d] days_in_month_bounds(2) [of "year_of ?d" "month_of ?d"] by (intro two) linarith
  moreover have "plain (pad2 (n div 3600)) \<and> plain (pad2 (n div 60 mod 60)) \<and> plain (pad2 (n mod 60))" if "n < 86400" for n :: nat
    using clock_parts [OF that] by (intro conjI two) linarith+
  moreover have "nat (t mod 86400) < 86400" by simp
  moreover have "plain (year_text (year_of ?d))" using t(2) four [of "nat (year_of ?d)"] by (simp add: in_years_def year_text_pad4 nat_less_iff)
  moreover have "plain ''T''" "plain ''Z''" by (simp_all add: plain_def special_chars_def)
  ultimately have "plain (format_utc False t)" unfolding format_utc_def Let_def by (simp only: plain_append if_False plain_Cons simp_thms)
  then show ?thesis using t(1) by (simp add: rfc3339ToVCardTimestamp_def)
qed

lemma note_back: "wire_ok rd sp \<Longrightarrow> note_ok n \<Longrightarrow> note_in i (wire_field rd sp (note_field j n)) = n"
  by (cases "nt_author n"; cases "nt_created n")
    (simp_all add: entry_defs note_ok_def author_ok_def note_in_def note_field_def plain_stamp stamp_of_def stamp_roundtrip stamp_not_Nil)

section \<open>Addresses\<close>

text \<open>The component kinds in the order of the property, each at most once and none empty.\<close>

definition adr_canonical :: "address_component list \<Rightarrow> bool" where
  "adr_canonical cs \<longleftrightarrow> cs = List.map_filter (\<lambda>(k, _). find (\<lambda>c. ac_kind c = k) cs) adr_kinds \<and>
     list_all (\<lambda>c. ac_value c \<noteq> [] \<and> ac_phonetic c = []) cs"

definition address_ok :: "address \<Rightarrow> bool" where
  "address_ok a \<longleftrightarrow> id_ok (ad_id a) \<and> adr_canonical (ad_components a) \<and> plain (ad_country_code a) \<and> quotable (ad_coordinates a) \<and>
     plain (ad_time_zone a) \<and> contexts_ok (ad_contexts a) \<and> pref_ok (ad_pref a) \<and> plain (ad_full a) \<and> ad_is_ordered a = None \<and>
     ad_separator a = [] \<and> ad_phonetic_system a = [] \<and> ad_phonetic_script a = [] \<and> ad_sensitivity a = []"

lemma adr_value_cases: "list_all (\<lambda>c. ac_value c \<noteq> [] \<and> ac_phonetic c = []) cs \<Longrightarrow>
    (if adr_value cs k = [] then None else Some \<lparr>ac_kind = k, ac_value = adr_value cs k, ac_phonetic = []\<rparr>) = find (\<lambda>c. ac_kind c = k) cs"
  by (induction cs) (auto simp: adr_value_def)

lemma adr_components_back:
  assumes "adr_canonical cs"
  shows "adrComponentsToKindValues (kindValuesToAdrComponents cs) = (cs, [])"
proof -
  let ?ac = "kindValuesToAdrComponents cs"
  have v: "list_all (\<lambda>c. ac_value c \<noteq> [] \<and> ac_phonetic c = []) cs" using assms by (simp add: adr_canonical_def)
  have get: "get ?ac = adr_value cs k" if "(k, get) \<in> set adr_kinds" for k get
    using that by (auto simp: adr_kinds_def kindValuesToAdrComponents_def Let_def)
  have "List.map_filter (\<lambda>(k, get). if get ?ac = [] then None else Some \<lparr>ac_kind = k, ac_value = get ?ac, ac_phonetic = []\<rparr>) adr_kinds =
      List.map_filter (\<lambda>(k, _). if adr_value cs k = [] then None else Some \<lparr>ac_kind = k, ac_value = adr_value cs k, ac_phonetic = []\<rparr>) adr_kinds"
    by (rule map_filter_cong) (auto simp: get)
  also have "... = List.map_filter (\<lambda>(k, _). find (\<lambda>c. ac_kind c = k) cs) adr_kinds"
    by (simp only: adr_value_cases [OF v])
  also have "... = cs" using assms by (simp add: adr_canonical_def)
  finally show ?thesis by (simp add: adrComponentsToKindValues_def) (simp add: kindValuesToAdrComponents_def Let_def)
qed

text \<open>A mark is replaced by the coordinates, which the reader cuts at their commas; the adapter joins them again.\<close>

lemma join_with_Cons: "join_with sep ((c # p) # ps) = c # join_with sep (p # ps)"
  by (cases ps) simp_all

lemma split_on_join: "join_with [c] (split_on c s) = s"
proof (induction c s rule: split_on.induct)
  case (2 sep c cs)
  obtain p ps where "split_on sep cs = p # ps" using split_on_not_Nil by (meson list.exhaust)
  then show ?case using 2 by (auto simp: join_with_Cons)
qed simp

lemma show_nat_sentinel [simp]: "geo_sentinel i = geo_sentinel j \<longleftrightarrow> i = j" "geo_sentinel i \<noteq> []"
  by (simp_all add: geo_sentinel_def)

text \<open>The mark of an address is found, and it is its own.\<close>

definition splices_for :: "(string \<times> string) list \<Rightarrow> nat \<Rightarrow> address \<Rightarrow> bool" where
  "splices_for sp j a \<longleftrightarrow> (ad_coordinates a \<noteq> [] \<longrightarrow> map_of sp (fst (geo_splice j [])) = Some (snd (geo_splice j (ad_coordinates a))))"

lemma coordinates_back:
  assumes "wire_ok rd sp" and "splices_for sp j a" and "quotable (ad_coordinates a)" and "ad_coordinates a \<noteq> []"
  shows "read_param rd sp ''GEO'' (geo_sentinel j) = split_on CHR '','' (ad_coordinates a)"
  using assms by (simp add: splices_for_def geo_splice_def read_param_def wire_ok_def reads_params_def)

lemma address_back:
  assumes "wire_ok rd sp" and "address_ok a" and "splices_for sp j a"
  shows "address_in i (wire_field rd sp (address_field j a)) = a"
proof -
  have geo: "paramJoined (wire_field rd sp (address_field j a)) ''GEO'' = ad_coordinates a"
    using coordinates_back [OF assms(1,3)] assms(2)
    by (cases "ad_coordinates a = []")
      (simp_all add: paramJoined_def params_wire address_field_def address_ok_def split_on_join Let_def del: split_on.simps)
  show ?thesis using assms(1,2) adr_components_back [of "ad_components a"]
    by (cases "ad_pref a"; cases "ad_coordinates a")
      (simp_all add: entry_defs address_ok_def address_in_def geo, simp_all add: entry_defs address_field_def)
qed

section \<open>Dates and places\<close>

definition date_ok :: "anniversary_date \<Rightarrow> bool" where
  "date_ok d \<longleftrightarrow> writable_anniversary_date (d\<lparr>an_partial := map_option (\<lambda>p. p\<lparr>pd_scale := []\<rparr>) (an_partial d)\<rparr>) \<and>
     (case an_partial d of None \<Rightarrow> True | Some p \<Rightarrow> plain (pd_scale p) \<and> pd_scale p \<noteq> ''gregorian'')"

lemma format_ignores_scale: "formatPartialDate (Some (p\<lparr>pd_scale := s\<rparr>)) = formatPartialDate (Some p)"
  by (simp add: formatPartialDate_def)

lemma date_back:
  assumes "wire_ok rd sp" and "date_ok d"
  shows "an_date (anniversary_in i (k, wire_field rd sp (date_field d))) = d"
proof (cases "an_partial d")
  case None
  then have w: "writable_anniversary_date d" using assms(2) by (cases d) (simp add: date_ok_def)
  show ?thesis using None vcard_date_roundtrip(1) [OF w]
    by (simp add: anniversary_in_def date_field_def paramValue_def params_wire Let_def)
next
  case (Some p)
  let ?d = "d\<lparr>an_partial := Some (p\<lparr>pd_scale := []\<rparr>)\<rparr>"
  have w: "writable_anniversary_date ?d" and s: "plain (pd_scale p)" "pd_scale p \<noteq> ''gregorian''"
    using assms(2) Some by (simp_all add: date_ok_def)
  have "formatAnniversaryDate4 ?d = formatAnniversaryDate4 d"
    using Some by (simp add: formatAnniversaryDate4_def format_ignores_scale)
  then have "parseVCardDateAndOrTime (formatAnniversaryDate4 d) = ?d" using vcard_date_roundtrip(1) [OF w] by simp
  then show ?thesis using Some s assms(1)
    by (cases "pd_scale p") (simp_all add: anniversary_in_def date_field_def paramValue_def params_wire Let_def)
qed

text \<open>A place is a text alone or coordinates with the scheme \<open>geo:\<close> alone.\<close>

definition place_ok :: "address \<Rightarrow> bool" where
  "place_ok a \<longleftrightarrow> ad_id a = [] \<and> ad_components a = [] \<and> ad_country_code a = [] \<and> ad_time_zone a = [] \<and> ad_contexts a = [] \<and>
     ad_pref a = None \<and> ad_is_ordered a = None \<and> ad_separator a = [] \<and> ad_phonetic_system a = [] \<and> ad_phonetic_script a = [] \<and>
     ad_sensitivity a = [] \<and> (ad_full a \<noteq> [] \<and> ad_coordinates a = [] \<or> ad_full a = [] \<and> has_prefix (ad_coordinates a) ''geo:'')"

lemma place_back:
  assumes "wire_ok rd sp" and "place_ok a"
  shows "place_of (wire_field rd sp (place_field a)) = Some a" "fst (addressToPlaceValue a) \<noteq> []"
  using assms by (auto simp: place_of_def place_field_def place_ok_def addressToPlaceValue_def paramValue_def params_wire Let_def)

section \<open>Nicknames and keywords\<close>

text \<open>A piece of a list of values: trimmed, not empty, without a comma.\<close>

definition piece_ok :: "string \<Rightarrow> bool" where
  "piece_ok s \<longleftrightarrow> s \<noteq> [] \<and> CHR '','' \<notin> set s \<and> trim_space s = s"

definition nickname_ok :: "nickname \<Rightarrow> bool" where
  "nickname_ok n \<longleftrightarrow> id_ok (nk_id n) \<and> contexts_ok (nk_contexts n) \<and> pref_ok (nk_pref n) \<and> piece_ok (nk_name n)"

definition nickname_in :: "nat \<Rightarrow> vfield \<times> string \<Rightarrow> nickname" where
  "nickname_in i = (\<lambda>(f, s). \<lparr>nk_id = idOrSynthetic (propID f) ''nick'' i, nk_name = s,
     nk_contexts = fst (splitTypeTokens f), nk_pref = prefOf f\<rparr>)"

lemma nickname_back: "wire_ok rd sp \<Longrightarrow> nickname_ok n \<Longrightarrow> nickname_in i (wire_field rd sp (nickname_field j n), nk_name n) = n"
  by (cases "nk_pref n") (simp_all add: entry_defs nickname_ok_def nickname_in_def nickname_field_def)

lemma pieces_of_join:
  assumes "list_all piece_ok ks" and "ks \<noteq> []"
  shows "filter (\<lambda>k. k \<noteq> []) (map trim_space (split_on CHR '','' (join_with '','' ks))) = ks"
  using assms
proof (induction ks)
  case (Cons k ks)
  show ?case
  proof (cases ks)
    case Nil then show ?thesis using Cons.prems by (simp add: piece_ok_def split_on_piece)
  next
    case C: (Cons x xs)
    have "split_on CHR '','' (join_with '','' (k # ks)) = k # split_on CHR '','' (join_with '','' ks)"
      using Cons.prems by (simp add: C piece_ok_def split_on_append)
    then show ?thesis using Cons C by (simp add: piece_ok_def)
  qed
qed simp

lemma one_piece: "piece_ok s \<Longrightarrow> filter (\<lambda>k. k \<noteq> []) (map trim_space (split_on CHR '','' s)) = [s]"
  using pieces_of_join [of "[s]"] by simp

end
