(* ===== verification/VCard4Names.thy ===== *)
theory VCard4Names imports VCard4Items begin

text \<open>
  Reading back the name of a card and its organizations with the titles that refer to them: the parts of a card where one
  entry of the neutral record is spread over several fields, or where fields are tied together by a group.
\<close>

section \<open>The name\<close>

text \<open>One component of each kind at most, in the order of the property, none empty.\<close>

definition n_canonical :: "name_component list \<Rightarrow> bool" where
  "n_canonical cs \<longleftrightarrow> cs = List.map_filter (\<lambda>(k, _). find (\<lambda>c. nc_kind c = k) cs) n_kinds \<and> list_all (\<lambda>c. nc_value c \<noteq> []) cs"

text \<open>Sounds need the system they are in: the property that carries them is told from the other one by it.\<close>

definition name_ok :: "card_name \<Rightarrow> bool" where
  "name_ok n \<longleftrightarrow> n_canonical (nm_components n) \<and> (nm_components n \<noteq> [] \<or> nm_full n \<noteq> []) \<and> nm_sort_as n = None \<and>
     nm_is_ordered n = None \<and> nm_separator n = [] \<and> plain (nm_phonetic_system n) \<and> plain (nm_phonetic_script n) \<and>
     (if nm_phonetic_system n = [] then nm_phonetic_script n = [] \<and> list_all (\<lambda>c. nc_phonetic c = []) (nm_components n)
      else list_ex (\<lambda>c. nc_phonetic c \<noteq> []) (nm_components n))"

lemma find_kind: "find (\<lambda>c. nc_kind c = k) cs = Some c \<Longrightarrow> nc_kind c = k \<and> c \<in> set cs"
  by (auto simp: find_Some_iff)

lemma n_kinds_distinct: "distinct (map fst n_kinds)"
  by (simp add: n_kinds_def)

lemma map_filter_kinds_distinct:
  assumes "distinct (map fst ks)" and kind: "\<And>k c. f k = Some c \<Longrightarrow> nc_kind c = k"
  shows "distinct (map nc_kind (List.map_filter (\<lambda>x. f (fst x)) ks)) \<and>
    set (map nc_kind (List.map_filter (\<lambda>x. f (fst x)) ks)) \<subseteq> set (map fst ks)"
  using assms(1)
proof (induction ks)
  case (Cons x ks)
  show ?case
  proof (cases "f (fst x)")
    case None then show ?thesis using Cons by (auto simp: List.map_filter_simps)
  next
    case (Some c)
    then have "nc_kind c = fst x" by (rule kind)
    then show ?thesis using Cons Some by (auto simp: List.map_filter_simps)
  qed
qed (simp add: List.map_filter_simps)

lemma canonical_distinct:
  assumes "n_canonical cs"
  shows "distinct (map nc_kind cs)" "set (map nc_kind cs) \<subseteq> set (map fst n_kinds)"
proof -
  have e: "List.map_filter (\<lambda>x. find (\<lambda>c. nc_kind c = fst x) cs) n_kinds = cs" using assms by (simp add: n_canonical_def split_def)
  have "find (\<lambda>c. nc_kind c = k) cs = Some c \<Longrightarrow> nc_kind c = k" for k c using find_kind by blast
  then show "distinct (map nc_kind cs)" "set (map nc_kind cs) \<subseteq> set (map fst n_kinds)"
    using map_filter_kinds_distinct [OF n_kinds_distinct, of "\<lambda>k. find (\<lambda>c. nc_kind c = k) cs"] unfolding e by blast+
qed

lemma n_from_get: "(k, get) \<in> set n_kinds \<Longrightarrow> get (n_from g) = g k"
  by (auto simp: n_kinds_def n_from_def)

lemma comp_value_cases: "list_all (\<lambda>c. nc_value c \<noteq> []) cs \<Longrightarrow>
    (if comp_value cs k = [] then None else Some \<lparr>nc_kind = k, nc_value = comp_value cs k, nc_phonetic = []\<rparr>) =
    map_option (\<lambda>c. c\<lparr>nc_phonetic := []\<rparr>) (find (\<lambda>c. nc_kind c = k) cs)"
  by (induction cs) (auto simp: comp_value_def)

lemma map_filter_map: "List.map_filter (\<lambda>x. map_option g (f x)) xs = map g (List.map_filter f xs)"
  by (induction xs) (auto simp: List.map_filter_simps split: option.splits)

lemma silent_components_back:
  assumes "n_canonical cs"
  shows "name_components_of (n_from (comp_value cs)) = map (\<lambda>c. c\<lparr>nc_phonetic := []\<rparr>) cs"
proof -
  have v: "list_all (\<lambda>c. nc_value c \<noteq> []) cs" using assms by (simp add: n_canonical_def)
  have "name_components_of (n_from (comp_value cs)) =
      List.map_filter (\<lambda>(k, _). if comp_value cs k = [] then None else Some \<lparr>nc_kind = k, nc_value = comp_value cs k, nc_phonetic = []\<rparr>) n_kinds"
    unfolding name_components_of_def by (rule map_filter_cong) (auto simp: n_from_get)
  also have "... = List.map_filter (\<lambda>x. map_option (\<lambda>c. c\<lparr>nc_phonetic := []\<rparr>) (find (\<lambda>c. nc_kind c = fst x) cs)) n_kinds"
    by (rule map_filter_cong) (auto simp: comp_value_cases [OF v])
  also have "... = map (\<lambda>c. c\<lparr>nc_phonetic := []\<rparr>) (List.map_filter (\<lambda>x. find (\<lambda>c. nc_kind c = fst x) cs) n_kinds)"
    by (rule map_filter_map)
  also have "List.map_filter (\<lambda>x. find (\<lambda>c. nc_kind c = fst x) cs) n_kinds = cs"
    using assms by (simp add: n_canonical_def split_def)
  finally show ?thesis .
qed

lemma set_phonetic_map: "distinct (map nc_kind cs) \<Longrightarrow>
    set_phonetic k v cs = map (\<lambda>c. if nc_kind c = k then c\<lparr>nc_phonetic := v\<rparr> else c) cs"
proof (induction cs)
  case (Cons c cs)
  have "nc_kind c \<notin> set (map nc_kind cs)" using Cons.prems by simp
  then have "map (\<lambda>d. if nc_kind d = nc_kind c then d\<lparr>nc_phonetic := v\<rparr> else d) cs = cs" by (intro map_idI) (metis image_eqI list.set_map)
  then show ?case using Cons by auto
qed simp

lemma kinds_kept: "map nc_kind (set_phonetic k v cs) = map nc_kind cs"
  by (induction cs) auto

lemma fold_phonetics:
  assumes "distinct (map fst ks)" and "distinct (map nc_kind cs)"
  shows "fold (\<lambda>(k, get) cs. if get pc = [] then cs else set_phonetic k (get pc) cs) ks cs =
    map (\<lambda>c. case map_of ks (nc_kind c) of None \<Rightarrow> c | Some get \<Rightarrow> if get pc = [] then c else c\<lparr>nc_phonetic := get pc\<rparr>) cs"
  using assms
proof (induction ks arbitrary: cs)
  case (Cons e ks)
  obtain k get where e: "e = (k, get)" by (cases e)
  let ?cs = "if get pc = [] then cs else set_phonetic k (get pc) cs"
  have k: "map_of ks k = None" using Cons.prems(1) by (simp add: e map_of_eq_None_iff)
  have "distinct (map nc_kind ?cs)" using Cons.prems(2) by (simp add: kinds_kept)
  moreover have "distinct (map fst ks)" using Cons.prems(1) by simp
  ultimately show ?case using Cons.IH [of ?cs] Cons.prems(2) k by (auto simp: e set_phonetic_map)
qed simp

lemma comp_phonetic_member:
  assumes "distinct (map nc_kind cs)" and "c \<in> set cs"
  shows "comp_phonetic cs (nc_kind c) = nc_phonetic c"
proof -
  have "filter (\<lambda>d. nc_kind d = nc_kind c \<and> nc_phonetic d \<noteq> []) cs = (if nc_phonetic c = [] then [] else [c])"
    using assms
  proof (induction cs)
    case (Cons d ds)
    show ?case
    proof (cases "d = c")
      case True
      have "filter (\<lambda>x. nc_kind x = nc_kind c \<and> nc_phonetic x \<noteq> []) ds = []" using Cons.prems(1) by (simp add: True filter_empty_conv) (metis image_eqI)
      then show ?thesis using True by simp
    next
      case False
      then show ?thesis using Cons by force
    qed
  qed simp
  then show ?thesis by (simp add: comp_phonetic_def)
qed

lemma sounding_components_back:
  assumes "n_canonical cs"
  shows "set_phonetics (n_from (comp_phonetic cs)) (map (\<lambda>c. c\<lparr>nc_phonetic := []\<rparr>) cs) = cs"
proof -
  note d = canonical_distinct [OF assms]
  let ?f = "\<lambda>c. case map_of n_kinds (nc_kind c) of None \<Rightarrow> c
      | Some get \<Rightarrow> if get (n_from (comp_phonetic cs)) = [] then c else c\<lparr>nc_phonetic := get (n_from (comp_phonetic cs))\<rparr>"
  have "?f (c\<lparr>nc_phonetic := []\<rparr>) = c" if c: "c \<in> set cs" for c
  proof -
    have "nc_kind c \<in> set (map fst n_kinds)" using d(2) c by auto
    then obtain get where g: "map_of n_kinds (nc_kind c) = Some get"
      by (metis map_of_eq_None_iff list.set_map option.exhaust)
    have "get (n_from (comp_phonetic cs)) = nc_phonetic c"
      using n_from_get [OF map_of_SomeD [OF g]] comp_phonetic_member [OF d(1) c] by simp
    then show ?thesis using g by (cases c) auto
  qed
  then have "map (?f \<circ> (\<lambda>c. c\<lparr>nc_phonetic := []\<rparr>)) cs = cs" by (intro map_idI) simp
  moreover have "distinct (map nc_kind (map (\<lambda>c. c\<lparr>nc_phonetic := []\<rparr>) cs))" using d(1) by (simp add: o_def)
  ultimately show ?thesis unfolding set_phonetics_def by (simp add: fold_phonetics [OF n_kinds_distinct])
qed

lemma comp_phonetic_from:
  assumes "comp_phonetic cs k \<noteq> []"
  shows "\<exists>c \<in> set cs. nc_phonetic c \<noteq> []"
proof -
  let ?L = "filter (\<lambda>c. nc_kind c = k \<and> nc_phonetic c \<noteq> []) cs"
  have "?L \<noteq> []" using assms by (auto simp: comp_phonetic_def)
  then have "last ?L \<in> set ?L" by (rule last_in_set)
  then show ?thesis by auto
qed

lemma sounds_exist:
  assumes "n_canonical cs"
  shows "list_ex (\<lambda>(k, get). get (n_from (comp_phonetic cs)) \<noteq> []) n_kinds \<longleftrightarrow> list_ex (\<lambda>c. nc_phonetic c \<noteq> []) cs"
proof
  assume "list_ex (\<lambda>(k, get). get (n_from (comp_phonetic cs)) \<noteq> []) n_kinds"
  then obtain k get where "(k, get) \<in> set n_kinds" "get (n_from (comp_phonetic cs)) \<noteq> []" by (auto simp: list_ex_iff)
  then have "comp_phonetic cs k \<noteq> []" by (simp add: n_from_get)
  then show "list_ex (\<lambda>c. nc_phonetic c \<noteq> []) cs" using comp_phonetic_from by (simp add: list_ex_iff)
next
  assume "list_ex (\<lambda>c. nc_phonetic c \<noteq> []) cs"
  then obtain c where c: "c \<in> set cs" "nc_phonetic c \<noteq> []" by (auto simp: list_ex_iff)
  note d = canonical_distinct [OF assms]
  have "nc_kind c \<in> fst ` set n_kinds" using d(2) c(1) by auto
  then obtain get where g: "(nc_kind c, get) \<in> set n_kinds" by auto
  then have "get (n_from (comp_phonetic cs)) \<noteq> []" using n_from_get [OF g, of "comp_phonetic cs"] comp_phonetic_member [OF d(1) c(1)] c(2) by simp
  then show "list_ex (\<lambda>(k, get). get (n_from (comp_phonetic cs)) \<noteq> []) n_kinds" using g by (auto simp: list_ex_iff)
qed

lemma exportName_appends: "fst (exportName cd vc) = vc @ fst (exportName cd [])"
  by (simp add: exportName_def Let_def card_add_def)

text \<open>The fields of a name that is written, and what the reader makes of them.\<close>

definition name_sounds :: "card_name \<Rightarrow> bool" where
  "name_sounds n \<longleftrightarrow> (nm_phonetic_script n \<noteq> [] \<or> nm_phonetic_system n \<noteq> []) \<and>
     list_ex (\<lambda>(k, get). get (n_from (comp_phonetic (nm_components n))) \<noteq> []) n_kinds"

lemma name_ok_sounds: "name_ok n \<Longrightarrow> name_sounds n \<longleftrightarrow> nm_phonetic_system n \<noteq> []"
  by (auto simp: name_ok_def name_sounds_def sounds_exist split: if_splits)

lemma name_fields:
  assumes "cd_name cd = Some n"
  shows "card_fields (fst (exportName cd [])) ''N'' =
      (if nm_components n = [] then []
       else [(if name_sounds n then setParam ''ALTID'' ''1'' else id) (field (assembleN (n_from (comp_value (nm_components n)))))]) @
      (if name_sounds n then [setParam ''SCRIPT'' (nm_phonetic_script n) (setParam ''PHONETIC'' (nm_phonetic_system n)
         (setParam ''ALTID'' ''1'' (field (assembleN (n_from (comp_phonetic (nm_components n)))))))] else [])"
    "\<exists>full. card_fields (fst (exportName cd [])) ''FN'' =
      [if nm_full n = [] \<and> full \<noteq> [] then setParam ''DERIVED'' ''TRUE'' (field full) else field full] \<and> (nm_full n \<noteq> [] \<longrightarrow> full = nm_full n)"
  using assms by (auto simp: exportName_def name_sounds_def Let_def)

lemma true_is_true [simp]: "equal_fold ''TRUE'' ''TRUE''" "\<not> equal_fold [] ''TRUE''"
  by (simp_all add: equal_fold_def to_lower_def to_lower_char_def)

lemma name_back:
  assumes "wire_ok rd sp" and "name_ok n" and "cd_name cd = Some n"
    and N: "card_fields vc ''N'' = map (wire_field rd sp) (card_fields (fst (exportName cd [])) ''N'')"
    and FN: "card_fields vc ''FN'' = map (wire_field rd sp) (card_fields (fst (exportName cd [])) ''FN'')"
  shows "fst (importName vc c) = c\<lparr>cd_name := Some n\<rparr>"
proof -
  note n = assms(2) [unfolded name_ok_def]
  let ?cs = "nm_components n"
  obtain full where full: "card_fields (fst (exportName cd [])) ''FN'' =
      [if nm_full n = [] \<and> full \<noteq> [] then setParam ''DERIVED'' ''TRUE'' (field full) else field full]" "nm_full n \<noteq> [] \<longrightarrow> full = nm_full n"
    using name_fields(2) [OF assms(3)] by blast
  have silent: "map (\<lambda>c. c\<lparr>nc_phonetic := []\<rparr>) ?cs = ?cs" if "nm_phonetic_system n = []"
    using n that by (intro map_idI) (auto simp: list_all_iff)
  have some: "?cs \<noteq> []" if "nm_phonetic_system n \<noteq> []" using n that by auto
  note again = silent_components_back [of ?cs] sounding_components_back [of ?cs]
  show ?thesis
    using n assms(1) name_ok_sounds [OF assms(2)] N FN full name_fields(1) [OF assms(3)] again silent some
    by (cases "nm_phonetic_system n = []"; cases "?cs = []"; cases "nm_full n = []"; cases "full = []"; cases n)
      (simp_all add: importName_def Let_def paramIsTrue_def paramValue_def params_wire)
qed

end
