(* ===== verification/VCard4Orgs.thy ===== *)
theory VCard4Orgs imports VCard4Names begin

text \<open>
  Organizations and the titles that refer to them. A referred organization gets a group of its own, its titles join the
  group, and the reader finds the organization of a title by the group.
\<close>

definition org_ok :: "organization \<Rightarrow> bool" where
  "org_ok o1 \<longleftrightarrow> id_ok (org_id o1) \<and> list_all (\<lambda>u. ou_name u \<noteq> [] \<and> ou_sort_as u = []) (org_units o1) \<and>
     (org_name o1 \<noteq> [] \<or> org_units o1 \<noteq> []) \<and> org_sort_as o1 = []"

definition title_ok :: "organization list \<Rightarrow> title \<Rightarrow> bool" where
  "title_ok orgs t \<longleftrightarrow> id_ok (ti_id t) \<and> (ti_organization t = [] \<or> ti_organization t \<in> set (map org_id orgs))"

text \<open>The titles come before the roles.\<close>

definition titles_in_order :: "title list \<Rightarrow> bool" where
  "titles_in_order ts \<longleftrightarrow> ts = filter (\<lambda>t. ti_kind t = ''title'') ts @ filter (\<lambda>t. ti_kind t = ''role'') ts"

definition group_name :: "nat \<Rightarrow> string" where
  "group_name k = ''group'' @ show_nat k"

definition group_for :: "(string \<times> string) list \<Rightarrow> string \<Rightarrow> string" where
  "group_for groups i = (if i = [] then [] else case map_of groups i of None \<Rightarrow> [] | Some g \<Rightarrow> g)"

definition org_field :: "(string \<times> string) list \<Rightarrow> organization \<Rightarrow> vfield" where
  "org_field groups o1 = setPropID (org_id o1) \<lparr>vf_value = joinComponents (org_parts o1), vf_params = [], vf_group = group_for groups (org_id o1)\<rparr>"

lemma group_name_inj [simp]: "group_name a = group_name b \<longleftrightarrow> a = b" "group_name k \<noteq> []"
  by (simp_all add: group_name_def)

lemma lower_group_name [simp]: "to_lower (group_name k) = group_name k"
proof -
  have "to_lower s = s" if "list_all is_digit s" for s
    using that by (induction s) (auto simp: to_lower_def to_lower_char_def is_digit_def)
  then have "to_lower (show_nat k) = show_nat k" using digits_show_nat by blast
  then show ?thesis by (simp add: group_name_def to_lower_def to_lower_char_def)
qed

lemma org_ok_parts: "org_ok o1 \<Longrightarrow> \<not> list_all (\<lambda>p. p = []) (org_parts o1)"
  by (cases "org_units o1") (auto simp: org_ok_def org_parts_def)

text \<open>The groups grow by one for every organization that a title refers to, and nothing else changes.\<close>

definition referred :: "title list \<Rightarrow> string \<Rightarrow> bool" where
  "referred ts i \<longleftrightarrow> i \<noteq> [] \<and> i \<in> set (map ti_organization ts)"

definition groups_fit :: "nat \<Rightarrow> (string \<times> string) list \<Rightarrow> bool" where
  "groups_fit n groups \<longleftrightarrow> (\<forall>i g. map_of groups i = Some g \<longrightarrow> (\<exists>k. 1 \<le> k \<and> k \<le> n \<and> g = group_name k)) \<and>
     (\<forall>i j g. map_of groups i = Some g \<and> map_of groups j = Some g \<longrightarrow> i = j)"

lemma org_step_value:
  assumes "org_ok o1"
  shows "org_step ts (i, o1) (n, groups, out) =
    (if referred ts (org_id o1)
     then (n + 1, (org_id o1, group_name (n + 1)) # (org_id o1, group_name (n + 1)) # groups,
           out @ [(''ORG'', setPropID (org_id o1) \<lparr>vf_value = joinComponents (org_parts o1), vf_params = [], vf_group = group_name (n + 1)\<rparr>)])
     else (n, groups, out @ [(''ORG'', setPropID (org_id o1) \<lparr>vf_value = joinComponents (org_parts o1), vf_params = [], vf_group = []\<rparr>)]))"
  using org_ok_parts [OF assms] assms
  by (auto simp: org_step_def Let_def referred_def org_ok_def id_ok_def group_name_def field_def)

lemma groups_fit_Cons:
  assumes "groups_fit n groups" and "map_of groups i = None"
  shows "groups_fit (n + 1) ((i, group_name (n + 1)) # (i, group_name (n + 1)) # groups)"
proof -
  have no: "map_of groups j \<noteq> Some (group_name (n + 1))" for j
    using assms(1) unfolding groups_fit_def by (metis Suc_eq_plus1 group_name_inj(1) not_less_eq_eq order_refl)
  show ?thesis unfolding groups_fit_def
  proof (intro conjI allI impI)
    fix j g assume "map_of ((i, group_name (n + 1)) # (i, group_name (n + 1)) # groups) j = Some g"
    then show "\<exists>k. 1 \<le> k \<and> k \<le> n + 1 \<and> g = group_name k"
      using assms(1) unfolding groups_fit_def by (auto split: if_splits) (metis le_SucI)+
  next
    fix j l g
    assume "map_of ((i, group_name (n + 1)) # (i, group_name (n + 1)) # groups) j = Some g \<and>
      map_of ((i, group_name (n + 1)) # (i, group_name (n + 1)) # groups) l = Some g"
    then show "j = l" using assms(1) no unfolding groups_fit_def by (auto split: if_splits)
  qed
qed

text \<open>What the walk over the organizations leaves.\<close>

definition walk_result :: "title list \<Rightarrow> organization list \<Rightarrow> (string \<times> string) list \<Rightarrow> vcard \<Rightarrow> nat \<times> (string \<times> string) list \<times> vcard \<Rightarrow> bool" where
  "walk_result ts orgs groups out = (\<lambda>(n', groups', out').
     groups_fit n' groups' \<and>
     (\<forall>i. i \<notin> set (map org_id orgs) \<longrightarrow> map_of groups' i = map_of groups i) \<and>
     (\<forall>o1 \<in> set orgs. map_of groups' (org_id o1) \<noteq> None \<longleftrightarrow> referred ts (org_id o1)) \<and>
     out' = out @ map (\<lambda>o1. (''ORG'', org_field groups' o1)) orgs)"

lemma org_walk:
  assumes "list_all org_ok orgs" and "distinct (map org_id orgs)" and "groups_fit n groups"
    and "\<And>o1. o1 \<in> set orgs \<Longrightarrow> map_of groups (org_id o1) = None"
  shows "walk_result ts orgs groups out (fold (org_step ts) (enumerate m orgs) (n, groups, out))"
  using assms
proof (induction orgs arbitrary: m n groups out)
  case Nil then show ?case by (simp add: walk_result_def)
next
  case (Cons o1 orgs)
  have ok: "org_ok o1" "list_all org_ok orgs" "distinct (map org_id orgs)" using Cons.prems(1,2) by simp_all
  have new: "map_of groups (org_id o1) = None" using Cons.prems(4) by simp
  obtain n1 groups1 out1 where s: "org_step ts (m, o1) (n, groups, out) = (n1, groups1, out1)" by (metis prod_cases3)
  have fit: "groups_fit n1 groups1" and same: "\<And>i. i \<noteq> org_id o1 \<Longrightarrow> map_of groups1 i = map_of groups i"
    and mine: "map_of groups1 (org_id o1) \<noteq> None \<longleftrightarrow> referred ts (org_id o1)" and out1: "out1 = out @ [(''ORG'', org_field groups1 o1)]"
    using s groups_fit_Cons [OF Cons.prems(3) new] Cons.prems(3) new ok(1)
    by (auto simp: org_step_value [OF ok(1)] org_field_def group_for_def org_ok_def id_ok_def split: if_splits)
  have "map_of groups1 (org_id x) = None" if "x \<in> set orgs" for x
    using that Cons.prems(2,4) same [of "org_id x"] by (metis distinct.simps(2) image_eqI list.set_intros(2) list.set_map list.simps(9))
  then have w: "walk_result ts orgs groups1 out1 (fold (org_step ts) (enumerate (Suc m) orgs) (n1, groups1, out1))"
    by (rule Cons.IH [OF ok(2,3) fit])
  obtain n2 groups2 out2 where r: "fold (org_step ts) (enumerate (Suc m) orgs) (n1, groups1, out1) = (n2, groups2, out2)" by (metis prod_cases3)
  have keep: "map_of groups2 (org_id o1) = map_of groups1 (org_id o1)" using w r Cons.prems(2) by (simp add: walk_result_def)
  then have "org_field groups2 o1 = org_field groups1 o1" by (simp add: org_field_def group_for_def)
  then show ?case using w r s keep mine same out1 by (simp add: walk_result_def)
qed

lemma exportOrganizations_walk:
  assumes "list_all org_ok (cd_organizations cd)" and "distinct (map org_id (cd_organizations cd))"
    and "exportOrganizations cd vc = (out, groups)"
  shows "\<exists>n. walk_result (cd_titles cd) (cd_organizations cd) [] vc (n, groups, out)"
proof -
  obtain n g o1 where f: "fold (org_step (cd_titles cd)) (enumerate 0 (cd_organizations cd)) (0, [], vc) = (n, g, o1)" by (metis prod_cases3)
  have "groups_fit 0 []" by (simp add: groups_fit_def)
  from org_walk [OF assms(1,2) this, of "cd_titles cd" vc 0]
  have "walk_result (cd_titles cd) (cd_organizations cd) [] vc (n, g, o1)" by (simp add: f)
  then show ?thesis using assms(3) f by (auto simp: exportOrganizations_def)
qed

text \<open>Reading the organizations.\<close>

lemma org_back:
  assumes "wire_ok rd sp" and "org_ok o1"
  shows "org_in i (wire_field rd sp (org_field groups o1)) = o1"
proof -
  have u: "filter (\<lambda>u. u \<noteq> []) (map ou_name (org_units o1)) = map ou_name (org_units o1)"
    using assms(2) by (auto simp: org_ok_def list_all_iff filter_id_conv)
  have "map (\<lambda>x. \<lparr>ou_name = ou_name x, ou_sort_as = []\<rparr>) (org_units o1) = org_units o1"
    using assms(2) by (intro map_idI) (auto simp: org_ok_def list_all_iff)
  then show ?thesis using assms
    by (simp add: org_in_def org_field_def org_parts_def split_join u component_def org_ok_def id_ok_def Let_def propID_def
      paramValue_def params_wire o_def)
qed

lemma group_ids_mem:
  assumes "wire_ok rd sp" and "list_all org_ok orgs" and "groups_fit n groups"
    and "card_fields vc ''ORG'' = map (\<lambda>o1. wire_field rd sp (org_field groups o1)) orgs"
  shows "(g, i) \<in> set (group_ids vc) \<longleftrightarrow> g \<noteq> [] \<and> (\<exists>o1 \<in> set orgs. g = group_for groups (org_id o1) \<and> i = org_id o1)"
proof -
  have low: "to_lower (group_for groups i) = group_for groups i" for i
  proof (cases "group_for groups i = []")
    case False
    then have "map_of groups i = Some (group_for groups i)" by (auto simp: group_for_def split: option.splits if_splits)
    then obtain k where "group_for groups i = group_name k" using assms(3) unfolding groups_fit_def by blast
    then show ?thesis by simp
  qed (simp add: to_lower_def)
  have id: "idOrSynthetic (propID (wire_field rd sp (org_field groups o1))) ''org'' j = org_id o1" if "o1 \<in> set orgs" for o1 j
    using that assms(1,2) by (simp add: propID_def paramValue_def params_wire org_field_def list_all_iff org_ok_def id_ok_def)
  have grp: "vf_group (org_field groups o1) = group_for groups (org_id o1)" for o1 by (simp add: org_field_def)
  have "(g, i) \<in> set (List.map_filter (\<lambda>(j, f). if vf_group f = [] then None else Some (to_lower (vf_group f), idOrSynthetic (propID f) ''org'' j))
      (enumerate m (map (\<lambda>o1. wire_field rd sp (org_field groups o1)) xs))) \<longleftrightarrow>
      g \<noteq> [] \<and> (\<exists>o1 \<in> set xs. g = group_for groups (org_id o1) \<and> i = org_id o1)" if "set xs \<subseteq> set orgs" for m xs
    using that by (induction xs arbitrary: m) (auto simp: List.map_filter_simps grp low id)
  then show ?thesis by (simp add: group_ids_def assms(4))
qed

lemma map_of_only: "(k, v) \<in> set xs \<Longrightarrow> (\<And>w. (k, w) \<in> set xs \<Longrightarrow> w = v) \<Longrightarrow> map_of xs k = Some v"
proof (induction xs)
  case (Cons e xs)
  show ?case
  proof (cases "fst e = k")
    case True then show ?thesis using Cons.prems(2) [of "snd e"] by (cases e) simp
  next
    case False
    then have "(k, v) \<in> set xs" using Cons.prems(1) by (cases e) auto
    then have "map_of xs k = Some v" using Cons.IH Cons.prems(2) by (meson list.set_intros(2))
    then show ?thesis using False by (cases e) auto
  qed
qed simp

lemma title_back:
  assumes "wire_ok rd sp" and "list_all org_ok orgs" and w: "walk_result ts orgs [] out (n, groups, out')"
    and "card_fields vc ''ORG'' = map (\<lambda>o1. wire_field rd sp (org_field groups o1)) orgs"
    and "title_ok orgs t" and "t \<in> set ts"
  shows "title_in (group_ids vc) i (ti_kind t, wire_field rd sp (title_field groups j t)) = t"
proof -
  have fit: "groups_fit n groups" using w by (simp add: walk_result_def)
  note mem = group_ids_mem [OF assms(1,2) fit assms(4)]
  have id: "propID (wire_field rd sp (title_field groups j t)) = ti_id t" "ti_id t \<noteq> []"
    using assms(1,5) by (simp_all add: propID_def paramValue_def params_wire title_field_def title_ok_def id_ok_def)
  have grp: "vf_group (title_field groups j t) = group_for groups (ti_organization t)" by (simp add: title_field_def group_for_def)
  show ?thesis
  proof (cases "ti_organization t = []")
    case True
    then show ?thesis using id by (simp add: title_in_def grp group_for_def) (simp add: title_field_def)
  next
    case False
    then obtain o1 where o1: "o1 \<in> set orgs" "ti_organization t = org_id o1" using assms(5) by (auto simp: title_ok_def)
    have "referred ts (org_id o1)" using False o1(2) assms(6) by (simp add: referred_def) (metis imageI)
    then obtain g where g: "map_of groups (org_id o1) = Some g" using w o1(1) by (auto simp: walk_result_def)
    then obtain k where k: "g = group_name k" using fit by (auto simp: groups_fit_def)
    have gf: "group_for groups (org_id o1) = g" using False o1(2) g by (simp add: group_for_def)
    have "map_of (group_ids vc) g = Some (org_id o1)"
    proof (rule map_of_only)
      show "(g, org_id o1) \<in> set (group_ids vc)" using o1(1) gf k unfolding mem by (metis group_name_inj(2))
      fix i assume "(g, i) \<in> set (group_ids vc)"
      then obtain o2 where "o2 \<in> set orgs" "g = group_for groups (org_id o2)" "i = org_id o2" by (auto simp: mem)
      moreover from this k have "map_of groups i = Some g" by (auto simp: group_for_def split: option.splits if_splits)
      ultimately show "i = org_id o1" using fit g unfolding groups_fit_def by blast
    qed
    then show ?thesis using id o1(2) gf k by (simp add: title_in_def grp) (simp add: title_field_def)
  qed
qed

end
