(* ===== verification/VCard3Entries.thy ===== *)
theory VCard3Entries imports VCard3 VCard4Orgs begin

text \<open>
  What a single entry keeps on its way through vCard 3.0. The loss is stated entry by entry: identifiers, labels, contexts
  other than home and work, and every preference but the first are gone; values, companions and the two contexts remain.
\<close>

section \<open>What is kept\<close>

definition ctx3 :: "string list \<Rightarrow> string list" where
  "ctx3 cs = filter (\<lambda>c. c = ''private'' \<or> c = ''work'') cs"

definition pref3 :: "int option \<Rightarrow> int option" where
  "pref3 p = (if p = Some 1 then Some 1 else None)"

definition kept_nickname :: "nickname \<Rightarrow> nickname" where
  "kept_nickname n = n\<lparr>nk_id := [], nk_contexts := ctx3 (nk_contexts n), nk_pref := pref3 (nk_pref n)\<rparr>"

definition kept_org :: "organization \<Rightarrow> organization" where
  "kept_org o1 = \<lparr>org_id = [], org_name = org_name o1,
     org_units = map (\<lambda>u. \<lparr>ou_name = ou_name u, ou_sort_as = []\<rparr>) (filter (\<lambda>u. ou_name u \<noteq> []) (org_units o1)), org_sort_as = []\<rparr>"

definition kept_title :: "title \<Rightarrow> title" where
  "kept_title t = t\<lparr>ti_id := [], ti_organization := []\<rparr>"

definition kept_email :: "email \<Rightarrow> email" where
  "kept_email e = e\<lparr>em_id := [], em_contexts := ctx3 (em_contexts e), em_pref := pref3 (em_pref e), em_label := []\<rparr>"

definition kept_phone :: "phone \<Rightarrow> phone" where
  "kept_phone p = p\<lparr>ph_id := [], ph_contexts := ctx3 (ph_contexts p), ph_pref := pref3 (ph_pref p), ph_label := []\<rparr>"

definition kept_service :: "online_service \<Rightarrow> online_service" where
  "kept_service s = s\<lparr>os_id := [], os_contexts := ctx3 (os_contexts s), os_pref := pref3 (os_pref s), os_label := []\<rparr>"

text \<open>Of coordinates a latitude and a longitude remain; of the components the last of each kind that has a place.\<close>

definition kept_coordinates :: "string \<Rightarrow> string" where
  "kept_coordinates u = (case Option.bind (geoURIToLatLon u) latLonToGeoURI of None \<Rightarrow> [] | Some v \<Rightarrow> v)"

definition kept_parts :: "address_component list \<Rightarrow> address_component list" where
  "kept_parts cs = List.map_filter (\<lambda>k. if last_part cs k = [] then None
     else Some \<lparr>ac_kind = k, ac_value = last_part cs k, ac_phonetic = []\<rparr>) adr_kinds3"

definition kept_address :: "address \<Rightarrow> address" where
  "kept_address a = \<lparr>ad_id = [], ad_components = kept_parts (ad_components a), ad_country_code = [],
     ad_coordinates = kept_coordinates (ad_coordinates a), ad_time_zone = ad_time_zone a, ad_contexts = ctx3 (ad_contexts a),
     ad_pref = pref3 (ad_pref a), ad_full = ad_full a, ad_is_ordered = None, ad_separator = [], ad_phonetic_system = [],
     ad_phonetic_script = [], ad_sensitivity = []\<rparr>"

text \<open>A name keeps the five components that have a place and its full form, which is derived where there is none.\<close>

definition n3_kinds :: "string list" where
  "n3_kinds = [''surname'', ''given'', ''given2'', ''title'', ''credential'']"

definition kept_name_parts :: "name_component list \<Rightarrow> name_component list" where
  "kept_name_parts cs = List.map_filter (\<lambda>k. if last_value cs k = [] then None
     else Some \<lparr>nc_kind = k, nc_value = last_value cs k, nc_phonetic = []\<rparr>) n3_kinds"

definition kept_full :: "card_name \<Rightarrow> string" where
  "kept_full n = (if nm_full n = [] then deriveFN (n3_of (nm_components n)) else nm_full n)"

definition kept_name :: "card_name option \<Rightarrow> card_name option" where
  "kept_name name = (case name of None \<Rightarrow> None
     | Some n \<Rightarrow> if kept_full n = [] \<and> kept_name_parts (nm_components n) = [] then None
        else Some \<lparr>nm_components = kept_name_parts (nm_components n), nm_full = kept_full n, nm_sort_as = None, nm_is_ordered = None,
          nm_separator = [], nm_phonetic_system = [], nm_phonetic_script = []\<rparr>)"

text \<open>Inline data keeps its bytes under the media type of the property; a keyword with commas falls apart.\<close>

definition inline_type :: "resource \<Rightarrow> string \<Rightarrow> string" where
  "inline_type r mt = mtypeToV3Type (if mt = [] then rs_media_type r else mt)"

definition kept_media_uri :: "string \<Rightarrow> resource \<Rightarrow> string" where
  "kept_media_uri kind r = (case parseDataURI (rs_uri r) of None \<Rightarrow> rs_uri r
     | Some (d, mt) \<Rightarrow> ''data:'' @ mtypeFromV3 kind (inline_type r mt) @ '';base64,'' @ d)"

definition carries_media :: "resource \<Rightarrow> bool" where
  "carries_media r \<longleftrightarrow> rs_uri r \<noteq> [] \<and> (case parseDataURI (rs_uri r) of None \<Rightarrow> True | Some (d, mt) \<Rightarrow> d \<noteq> [])"

definition kept_keywords :: "string list \<Rightarrow> string list" where
  "kept_keywords ks = concat (map (\<lambda>k. filter (\<lambda>w. w \<noteq> []) (map trim_space (split_on CHR '','' k))) ks)"

definition kept_anniversary :: "anniversary \<Rightarrow> anniversary" where
  "kept_anniversary a = a\<lparr>an_id := [], an_place := None\<rparr>"

definition kept_link :: "resource \<Rightarrow> resource" where
  "kept_link l = (uri_resource [] (rs_uri l))\<lparr>rs_contexts := ctx3 (rs_contexts l), rs_pref := pref3 (rs_pref l)\<rparr>"

section \<open>Tokens\<close>

definition neutral_token :: "string \<Rightarrow> bool" where
  "neutral_token t \<longleftrightarrow> plain t \<and> to_upper (trim_space t) \<notin> {''HOME'', ''WORK'', ''PREF''}"

lemma own_words [simp]: "to_upper (trim_space ''HOME'') = ''HOME''" "to_upper (trim_space ''WORK'') = ''WORK''"
  "to_upper (trim_space ''PREF'') = ''PREF''" "to_upper (trim_space ''INTERNET'') = ''INTERNET''"
  by code_simp+

lemma token_context_words [simp]: "token_context3 ''HOME'' = Some ''private''" "token_context3 ''WORK'' = Some ''work''" "token_context3 ''PREF'' = None"
  by (simp_all add: token_context3_def)

lemma plain_words [simp]: "plain ''HOME''" "plain ''WORK''" "plain ''PREF''" "plain ''INTERNET''" "plain ''b''"
  by (simp_all add: plain_def special_chars_def)

lemma context_tokens_back: "List.map_filter token_context3 (List.map_filter context_token3 cs) = ctx3 cs"
  "list_all plain (List.map_filter context_token3 cs)"
  "\<not> list_ex (\<lambda>t. to_upper (trim_space t) = ''PREF'') (List.map_filter context_token3 cs)"
  by (induction cs) (auto simp: List.map_filter_simps context_token3_def ctx3_def)

lemma neutral_tokens: "list_all neutral_token ts \<Longrightarrow> List.map_filter token_context3 ts = []"
  "list_all neutral_token ts \<Longrightarrow> \<not> list_ex (\<lambda>t. to_upper (trim_space t) = ''PREF'') ts" "list_all neutral_token ts \<Longrightarrow> list_all plain ts"
  by (induction ts) (auto simp: List.map_filter_simps neutral_token_def token_context3_def Let_def)

lemma tokens_back:
  assumes "list_all neutral_token ts"
  shows "contextsAndPrefFromTokens (ts @ fst (contextTypeTokens cs k) @ pref_token3 p) = (ctx3 cs, pref3 p)"
    "list_all plain (ts @ fst (contextTypeTokens cs k) @ pref_token3 p)"
  using neutral_tokens [OF assms] context_tokens_back [of cs]
  by (auto simp: contextsAndPrefFromTokens_def contextTypeTokens_def map_filter_append pref_token3_def isPreferred_def pref3_def List.map_filter_simps)

lemma typeTokens_wire:
  assumes "wire_ok rd sp" and "list_all plain toks"
  shows "typeTokens (wire_field rd sp (newTypedField v toks)) = toks" "typeTokens (wire_field rd sp (in_group g (newTypedField v toks))) = toks"
proof -
  have p: "paramAll (newTypedField v toks) ''TYPE'' = toks" by (simp add: newTypedField_def paramAll_def filter_map o_def)
  moreover have "paramAll (in_group g (newTypedField v toks)) ''TYPE'' = toks" using p by (simp add: in_group_def paramAll_def)
  ultimately show "typeTokens (wire_field rd sp (newTypedField v toks)) = toks" "typeTokens (wire_field rd sp (in_group g (newTypedField v toks))) = toks"
    using assms by (simp_all add: typeTokens_def params_wire read_all)
qed

lemma typed_wire:
  assumes "wire_ok rd sp" and "list_all neutral_token ts"
  shows "typed (wire_field rd sp (newTypedField v (ts @ fst (contextTypeTokens cs k) @ pref_token3 p))) = (ctx3 cs, pref3 p)"
    "typed (wire_field rd sp (in_group g (newTypedField v (ts @ fst (contextTypeTokens cs k) @ pref_token3 p)))) = (ctx3 cs, pref3 p)"
  using typeTokens_wire [OF assms(1) tokens_back(2) [OF assms(2)]] tokens_back(1) [OF assms(2)] by (simp_all add: typed_def)

lemmas typed_wire_plain = typed_wire [of _ _ "[]", simplified]

lemma typed_value [simp]: "vf_value (newTypedField v toks) = v" "vf_group (newTypedField v toks) = []" "vf_value (in_group g f) = vf_value f"
  "vf_group (in_group g f) = g"
  by (simp_all add: newTypedField_def in_group_def)

section \<open>Entries\<close>

lemma kept_entries:
  assumes "\<And>x. x \<in> set xs \<Longrightarrow> (case g x of None \<Rightarrow> \<not> keep x | Some f \<Rightarrow> (keep x \<longleftrightarrow> vf_value f \<noteq> []) \<and> (keep x \<longrightarrow> inp (w f) = strip x))"
  shows "map inp (map w (filter (\<lambda>f. vf_value f \<noteq> []) (List.map_filter g xs))) = map strip (filter keep xs)"
  using assms
proof (induction xs)
  case (Cons x xs)
  have "map inp (map w (filter (\<lambda>f. vf_value f \<noteq> []) (List.map_filter g xs))) = map strip (filter keep xs)"
    by (rule Cons.IH) (use Cons.prems in auto)
  then show ?case using Cons.prems [of x] by (auto simp: List.map_filter_simps split: option.splits)
qed (simp add: List.map_filter_simps)

lemma nickname_kept: "wire_ok rd sp \<Longrightarrow> nickname3 n = Some (p, f) \<Longrightarrow> nickname_in3 (wire_field rd sp f) = kept_nickname n"
  by (auto simp: nickname3_def nickname_in3_def kept_nickname_def typed_wire_plain split: if_splits)

lemma organization_kept:
  assumes "organization3 o1 = Some (p, f)"
  shows "organization_in3 (wire_field rd sp f) = kept_org o1" "vf_value f \<noteq> []"
proof -
  have n: "org_parts o1 \<noteq> []" by (simp add: org_parts_def)
  have f: "f = field (joinComponents (org_parts o1))" "\<not> list_all (\<lambda>p. p = []) (org_parts o1)"
    using assms by (auto simp: organization3_def split: if_splits)
  have "joinComponents (org_parts o1) \<noteq> []"
  proof
    assume "joinComponents (org_parts o1) = []"
    then have "org_parts o1 = [[]]" using split_join [OF n] by (simp add: splitComponents_def)
    then show False using f(2) by simp
  qed
  then show "vf_value f \<noteq> []" using f(1) by simp
  show "organization_in3 (wire_field rd sp f) = kept_org o1"
    by (simp add: f(1) organization_in3_def kept_org_def split_join [OF n] Let_def component_def) (simp add: org_parts_def filter_map o_def)
qed

lemma email_kept: "wire_ok rd sp \<Longrightarrow> email3 e = Some (p, f) \<Longrightarrow> email_in3 (wire_field rd sp f) = kept_email e"
  using typed_wire(1) [of rd sp "[''INTERNET'']"]
  by (auto simp: email3_def email_in3_def kept_email_def neutral_token_def split: if_splits)

text \<open>The features that both directions know.\<close>

definition phone_fits3 :: "phone \<Rightarrow> bool" where
  "phone_fits3 p \<longleftrightarrow> list_all (\<lambda>f. f \<in> set (map snd telFeatureTokens)) (ph_features p)"

lemma feature_words: "f \<in> set (map snd telFeatureTokens) \<Longrightarrow> neutral_token (featToType f) \<and> map_of telFeatureTokens (to_upper (trim_space (featToType f))) = Some f"
proof -
  have "list_all (\<lambda>f. neutral_token (featToType f) \<and> map_of telFeatureTokens (to_upper (trim_space (featToType f))) = Some f) (map snd telFeatureTokens)"
    by code_simp
  then show "f \<in> set (map snd telFeatureTokens) \<Longrightarrow> neutral_token (featToType f) \<and> map_of telFeatureTokens (to_upper (trim_space (featToType f))) = Some f"
    by (simp only: list_all_iff)
qed

lemma feature_list: "list_all (\<lambda>f. f \<in> set (map snd telFeatureTokens)) fs \<Longrightarrow>
    list_all neutral_token (map featToType fs) \<and> featuresFromTokens (map featToType fs) = fs"
  using feature_words by (induction fs) (auto simp: featuresFromTokens_def List.map_filter_simps)

lemma no_features: "featuresFromTokens (fst (contextTypeTokens cs k) @ pref_token3 p) = []"
proof -
  have w: "map_of telFeatureTokens ''HOME'' = None" "map_of telFeatureTokens ''WORK'' = None" "map_of telFeatureTokens ''PREF'' = None"
    by (simp_all add: telFeatureTokens_def)
  have "List.map_filter (\<lambda>t. map_of telFeatureTokens (to_upper (trim_space t))) (List.map_filter context_token3 cs) = []"
    using w by (induction cs) (auto simp: List.map_filter_simps context_token3_def)
  then show ?thesis using w
    by (simp add: featuresFromTokens_def contextTypeTokens_def map_filter_append pref_token3_def List.map_filter_simps)
qed

lemma phone_kept:
  assumes "wire_ok rd sp" and "phone_fits3 p" and "phone3 p = Some (q, f)"
  shows "phone_in3 (wire_field rd sp f) = kept_phone p"
proof -
  note l = feature_list [OF assms(2) [unfolded phone_fits3_def]]
  have f: "f = newTypedField (ph_number p) (map featToType (ph_features p) @ fst (contextTypeTokens (ph_contexts p) ''phone'') @ pref_token3 (ph_pref p))"
    using assms(3) by (auto simp: phone3_def split: if_splits)
  have "featuresFromTokens (typeTokens (wire_field rd sp f)) = ph_features p"
    using typeTokens_wire(1) [OF assms(1) tokens_back(2)] l no_features
    by (simp add: f) (simp add: featuresFromTokens_def map_filter_append)
  then show ?thesis using typed_wire(1) [OF assms(1)] l by (simp add: phone_in3_def kept_phone_def f)
qed

section \<open>Links, media and notes\<close>

lemma link_kept: "wire_ok rd sp \<Longrightarrow> link3 l = Some (p, f) \<Longrightarrow> link_in3 (wire_field rd sp f) = kept_link l"
  by (auto simp: link3_def link_in3_def kept_link_def typed_wire_plain split: if_splits)

definition media_fits3 :: "resource \<Rightarrow> bool" where
  "media_fits3 r \<longleftrightarrow> (case parseDataURI (rs_uri r) of None \<Rightarrow> True | Some (d, mt) \<Rightarrow> plain (inline_type r mt))"

lemma safe_encoding [simp]: "safe_key ''ENCODING''"
  by (simp add: safe_key_def)

lemma media_kept:
  assumes "wire_ok rd sp" and "media_fits3 r" and "rs_uri r \<noteq> []"
  shows "importMediaURI (wire_field rd sp (exportMediaField (rs_uri r) (rs_media_type r))) kind = kept_media_uri kind r"
    "vf_value (exportMediaField (rs_uri r) (rs_media_type r)) \<noteq> [] \<longleftrightarrow> carries_media r"
proof -
  have b: "to_lower ''b'' = ''b''" "to_lower [] = []" by code_simp+
  show "importMediaURI (wire_field rd sp (exportMediaField (rs_uri r) (rs_media_type r))) kind = kept_media_uri kind r"
  proof (cases "parseDataURI (rs_uri r)")
    case None
    then show ?thesis by (simp add: importMediaURI_def exportMediaField_def kept_media_uri_def paramValue_def params_wire b)
  next
    case (Some e)
    then show ?thesis using assms
      by (cases e, cases "inline_type r (snd e) = []")
        (auto simp: importMediaURI_def exportMediaField_def kept_media_uri_def media_fits3_def paramValue_def params_wire b inline_type_def Let_def)
  qed
  show "vf_value (exportMediaField (rs_uri r) (rs_media_type r)) \<noteq> [] \<longleftrightarrow> carries_media r"
    using assms(3) by (auto simp: exportMediaField_def carries_media_def split: option.splits)
qed

lemma keywords_kept:
  assumes "ks \<noteq> []"
  shows "filter (\<lambda>w. w \<noteq> []) (map trim_space (split_on CHR '','' (join_with '','' ks))) = kept_keywords ks"
proof -
  have split_join_with: "split_on c (p @ c # s) = split_on c p @ split_on c s" for c :: char and p s
  proof (induction p)
    case (Cons x p)
    obtain q qs where "split_on c p = q # qs" using split_on_not_Nil by (meson list.exhaust)
    then show ?case using Cons by simp
  qed simp
  have "split_on CHR '','' (join_with '','' ks) = concat (map (split_on CHR '','') ks)" using assms
  proof (induction ks)
    case (Cons k ks)
    then show ?case by (cases ks) (simp_all add: split_join_with)
  qed simp
  then show ?thesis by (simp add: kept_keywords_def filter_concat map_concat o_def)
qed

lemma no_keywords: "kept_keywords (filter (\<lambda>k. k \<noteq> []) ks) = kept_keywords ks"
  by (induction ks) (auto simp: kept_keywords_def trim_space_def)

section \<open>Names and addresses\<close>

lemma disassemble_assembleN3: "disassembleN3 (assembleN3 n) = n"
  by (cases n) (simp add: disassembleN3_def assembleN3_def split_join component_def Let_def)

lemma disassemble_assembleAdr3: "disassembleAdr3 (assembleAdr3 a) = a"
  by (cases a) (simp add: disassembleAdr3_def assembleAdr3_def split_join component_def Let_def)

lemma assembleN3_not_Nil: "\<not> n3_empty n \<Longrightarrow> assembleN3 n \<noteq> []"
proof
  assume e: "\<not> n3_empty n" "assembleN3 n = []"
  have "n = disassembleN3 []" using disassemble_assembleN3 [of n] e(2) by simp
  then show False using e(1) by (simp add: disassembleN3_def n3_empty_def component_def splitComponents_def Let_def)
qed

lemma name_parts_back: "List.map_filter (\<lambda>(k, v). if v = [] then None else Some \<lparr>nc_kind = k, nc_value = v, nc_phonetic = []\<rparr>)
    [(''surname'', n3_family (n3_of cs)), (''given'', n3_given (n3_of cs)), (''given2'', n3_additional (n3_of cs)),
     (''title'', n3_prefix (n3_of cs)), (''credential'', n3_suffix (n3_of cs))] = kept_name_parts cs"
  by (simp add: kept_name_parts_def n3_kinds_def n3_of_def List.map_filter_simps)

lemma no_name_parts: "n3_empty (n3_of cs) \<longleftrightarrow> kept_name_parts cs = []"
  by (auto simp: kept_name_parts_def n3_kinds_def n3_of_def n3_empty_def List.map_filter_simps)

lemma adr_parts_back: "adr_parts3 (adr3_of cs) = kept_parts cs"
  by (simp add: adr_parts3_def adr3_of_def kept_parts_def adr_kinds3_def List.map_filter_simps)

section \<open>Dates and stamps\<close>

text \<open>Dates that the reader knows the form of: a year with month and day, a month with a day, a day alone, a year alone.\<close>

definition date_fits3 :: "anniversary_date \<Rightarrow> bool" where
  "date_fits3 d \<longleftrightarrow> an_timestamp d = None \<and>
     (case an_partial d of None \<Rightarrow> True | Some p \<Rightarrow> writable_date p \<and> (pd_month p = None \<or> pd_day p \<noteq> None))"

lemma dates_trimmed:
  assumes "Y < 10000" and "M < 100" and "D < 100"
  shows "trim_space (pad4 Y @ CHR ''-'' # pad2 M @ CHR ''-'' # pad2 D) = pad4 Y @ CHR ''-'' # pad2 M @ CHR ''-'' # pad2 D"
    "trim_space (''--'' @ pad2 M @ CHR ''-'' # pad2 D) = ''--'' @ pad2 M @ CHR ''-'' # pad2 D"
    "trim_space (''---'' @ pad2 D) = ''---'' @ pad2 D" "trim_space (pad4 Y) = pad4 Y"
proof -
  have "\<not> is_space (hd (pad4 Y))" "\<not> is_space (last (pad4 Y))" using digits_pad4 [OF assms(1)] digit_not_space by (simp_all add: pad4_def)
  moreover have "pad4 Y \<noteq> []" "pad2 D \<noteq> []" by (simp_all add: pad4_def pad2_def)
  moreover have "\<not> is_space (last (pad2 D))" using digits_pad2 [OF assms(3)] digit_not_space by (simp add: pad2_def)
  moreover have "\<not> is_space CHR ''-''" by (simp add: is_space_def)
  ultimately show "trim_space (pad4 Y @ CHR ''-'' # pad2 M @ CHR ''-'' # pad2 D) = pad4 Y @ CHR ''-'' # pad2 M @ CHR ''-'' # pad2 D"
    "trim_space (''--'' @ pad2 M @ CHR ''-'' # pad2 D) = ''--'' @ pad2 M @ CHR ''-'' # pad2 D"
    "trim_space (''---'' @ pad2 D) = ''---'' @ pad2 D" "trim_space (pad4 Y) = pad4 Y"
    by (auto intro!: trim_space_id)
qed

lemma atoi0_pads [simp]: "n < 100 \<Longrightarrow> atoi0 (pad2 n) = int n" "n < 10000 \<Longrightarrow> atoi0 (pad4 n) = int n"
  by (simp_all add: atoi0_def)

lemma date_slices:
  "slice (pad4 Y @ CHR ''-'' # pad2 M @ CHR ''-'' # pad2 D) 0 4 = pad4 Y" "slice (pad4 Y @ CHR ''-'' # pad2 M @ CHR ''-'' # pad2 D) 5 7 = pad2 M"
  "slice (pad4 Y @ CHR ''-'' # pad2 M @ CHR ''-'' # pad2 D) 8 10 = pad2 D" "slice (''--'' @ pad2 M @ CHR ''-'' # pad2 D) 2 4 = pad2 M"
  "slice (''--'' @ pad2 M @ CHR ''-'' # pad2 D) 5 7 = pad2 D" "slice (''---'' @ pad2 D) 3 5 = pad2 D" "slice (pad4 Y) 0 4 = pad4 Y"
  by (simp_all add: slice_def pad4_def pad2_def)

lemma date_dashes:
  "(pad4 Y @ CHR ''-'' # pad2 M @ CHR ''-'' # pad2 D) ! 4 = CHR ''-''" "(pad4 Y @ CHR ''-'' # pad2 M @ CHR ''-'' # pad2 D) ! 7 = CHR ''-''"
  "(''--'' @ pad2 M @ CHR ''-'' # pad2 D) ! 0 = CHR ''-''" "(''--'' @ pad2 M @ CHR ''-'' # pad2 D) ! 1 = CHR ''-''"
  "(''--'' @ pad2 M @ CHR ''-'' # pad2 D) ! 4 = CHR ''-''"
  "(''---'' @ pad2 D) ! 0 = CHR ''-''" "(''---'' @ pad2 D) ! 1 = CHR ''-''" "(''---'' @ pad2 D) ! 2 = CHR ''-''"
  by (simp_all add: pad4_def pad2_def)

lemma date_lengths:
  "length (pad4 Y @ CHR ''-'' # pad2 M @ CHR ''-'' # pad2 D) = 10" "length (''--'' @ pad2 M @ CHR ''-'' # pad2 D) = 7"
  "length (''---'' @ pad2 D) = 5" "length (pad4 Y) = 4"
  by (simp_all add: pad4_def pad2_def)

text \<open>The four branches of the reader that a written date takes.\<close>

definition date_of_parts :: "int option \<Rightarrow> int option \<Rightarrow> int option \<Rightarrow> anniversary_date" where
  "date_of_parts y m d = \<lparr>an_partial = Some (mk_date y m d), an_timestamp = None\<rparr>"

lemma date_branches:
  assumes "trim_space v = v"
  shows "length v = 10 \<Longrightarrow> v ! 4 = CHR ''-'' \<Longrightarrow> v ! 7 = CHR ''-'' \<Longrightarrow>
      parseDatePartial v = date_of_parts (Some (atoi0 (slice v 0 4))) (Some (atoi0 (slice v 5 7))) (Some (atoi0 (slice v 8 10)))"
    "length v = 7 \<Longrightarrow> v ! 0 = CHR ''-'' \<Longrightarrow> v ! 1 = CHR ''-'' \<Longrightarrow> v ! 4 = CHR ''-'' \<Longrightarrow>
      parseDatePartial v = date_of_parts None (Some (atoi0 (slice v 2 4))) (Some (atoi0 (slice v 5 7)))"
    "length v = 5 \<Longrightarrow> v ! 0 = CHR ''-'' \<Longrightarrow> v ! 1 = CHR ''-'' \<Longrightarrow> v ! 2 = CHR ''-'' \<Longrightarrow>
      parseDatePartial v = date_of_parts None None (Some (atoi0 (slice v 3 5)))"
    "length v = 4 \<Longrightarrow> isAllDigits v \<Longrightarrow> parseDatePartial v = date_of_parts (Some (atoi0 (slice v 0 4))) None None"
  by (simp_all add: parseDatePartial_def assms date_of_parts_def mk_date_def)

lemma formatted_dates:
  assumes "Y < 10000" and "M < 100" and "D < 100"
  shows "parseDatePartial (pad4 Y @ CHR ''-'' # pad2 M @ CHR ''-'' # pad2 D) = date_of_parts (Some (int Y)) (Some (int M)) (Some (int D))"
    "parseDatePartial (''--'' @ pad2 M @ CHR ''-'' # pad2 D) = date_of_parts None (Some (int M)) (Some (int D))"
    "parseDatePartial (''---'' @ pad2 D) = date_of_parts None None (Some (int D))"
    "parseDatePartial (pad4 Y) = date_of_parts (Some (int Y)) None None"
proof -
  have digits: "isAllDigits (pad4 Y)" using digits_pad4 [OF assms(1)] by (simp add: isAllDigits_def) (simp add: pad4_def)
  show "parseDatePartial (pad4 Y @ CHR ''-'' # pad2 M @ CHR ''-'' # pad2 D) = date_of_parts (Some (int Y)) (Some (int M)) (Some (int D))"
    using date_branches(1) [OF dates_trimmed(1) [OF assms] date_lengths(1) date_dashes(1,2)] assms by (simp only: date_slices atoi0_pads)
  show "parseDatePartial (''--'' @ pad2 M @ CHR ''-'' # pad2 D) = date_of_parts None (Some (int M)) (Some (int D))"
    using date_branches(2) [OF dates_trimmed(2) [OF assms] date_lengths(2) date_dashes(3-5)] assms by (simp only: date_slices atoi0_pads)
  show "parseDatePartial (''---'' @ pad2 D) = date_of_parts None None (Some (int D))"
    using date_branches(3) [OF dates_trimmed(3) [OF assms] date_lengths(3) date_dashes(6-8)] assms by (simp only: date_slices atoi0_pads)
  show "parseDatePartial (pad4 Y) = date_of_parts (Some (int Y)) None None"
    using date_branches(4) [OF dates_trimmed(4) [OF assms] date_lengths(4) digits] assms by (simp only: date_slices atoi0_pads)
qed

lemma written_dates:
  assumes "Y < 10000" and "M < 100" and "D < 100"
  shows "formatPartialDate (Some (mk_date (Some (int Y)) (Some (int M)) (Some (int D)))) = pad4 Y @ CHR ''-'' # pad2 M @ CHR ''-'' # pad2 D"
    "formatPartialDate (Some (mk_date None (Some (int M)) (Some (int D)))) = ''--'' @ pad2 M @ CHR ''-'' # pad2 D"
    "formatPartialDate (Some (mk_date None None (Some (int D)))) = ''---'' @ pad2 D"
    "formatPartialDate (Some (mk_date (Some (int Y)) None None)) = pad4 Y"
  using assms by (simp_all add: formatPartialDate_def mk_date_def)

lemma date_forms:
  assumes "Y < 10000" and "M < 100" and "D < 100"
  shows "parseDatePartial (formatPartialDate (Some (mk_date (Some (int Y)) (Some (int M)) (Some (int D))))) = date_of_parts (Some (int Y)) (Some (int M)) (Some (int D))"
    "parseDatePartial (formatPartialDate (Some (mk_date None (Some (int M)) (Some (int D))))) = date_of_parts None (Some (int M)) (Some (int D))"
    "parseDatePartial (formatPartialDate (Some (mk_date None None (Some (int D))))) = date_of_parts None None (Some (int D))"
    "parseDatePartial (formatPartialDate (Some (mk_date (Some (int Y)) None None))) = date_of_parts (Some (int Y)) None None"
  by (simp_all only: written_dates [OF assms] formatted_dates [OF assms])

lemma date_kept:
  assumes "date_fits3 d" and "formatDatePartial d \<noteq> []"
  shows "parseDatePartial (formatDatePartial d) = d"
proof -
  obtain p where d: "d = \<lparr>an_partial = Some p, an_timestamp = None\<rparr>" and w: "writable_date p" "pd_month p = None \<or> pd_day p \<noteq> None"
    using assms by (cases d) (auto simp: date_fits3_def formatDatePartial_def split: option.splits)
  obtain y m dd where p: "p = mk_date y m dd" using w(1) by (cases p) (auto simp: writable_date_def mk_date_def)
  have parts: "part_ok (int 10000) y" "part_ok (int 100) m" "part_ok (int 100) dd"
    and some: "\<not> (y = None \<and> m = None \<and> dd = None)" "\<not> (y \<noteq> None \<and> m = None \<and> dd \<noteq> None)" "m = None \<or> dd \<noteq> None"
    using w by (simp_all add: writable_date_def p mk_date_def)
  have "parseDatePartial (formatPartialDate (Some (mk_date y m dd))) = date_of_parts y m dd"
    using part_cases [OF parts(1)] part_cases [OF parts(2)] part_cases [OF parts(3)] some date_forms date_forms(2-3) [of 0]
      date_forms(3) [of 0 0] date_forms(4) [of _ 0 0]
    by (elim disjE exE conjE) simp_all
  moreover have "formatDatePartial d = formatPartialDate (Some (mk_date y m dd))"
    using some(2) by (auto simp: formatDatePartial_def d p mk_date_def)
  ultimately show ?thesis by (simp add: d p date_of_parts_def)
qed

lemma stamp_kept3: "utc_stamp s \<Longrightarrow> v3ToTs (tsToV3 s) = Some s"
  by (auto simp: utc_stamp_def tsToV3_def v3ToTs_def first_some_def time_parse_format split: option.splits)

lemma stamp_written3: "utc_stamp s \<Longrightarrow> tsToV3 s \<noteq> []"
  by (auto simp: utc_stamp_def tsToV3_def format_utc_def Let_def split: option.splits)

end
