(* ===== verification/VCard3Groups.thy ===== *)
theory VCard3Groups imports VCard3Entries begin

text \<open>
  The groups of a card of version 3.0. An export hands out group numbers in the order of the entries that need one, so a
  group belongs to one entry, and what stands under it in another property is a companion of this entry.
\<close>

section \<open>Numbered entries\<close>

fun numbered :: "('a \<Rightarrow> bool) \<Rightarrow> nat \<Rightarrow> 'a list \<Rightarrow> (string \<times> 'a) list" where
  "numbered P n [] = []"
| "numbered P n (x # xs) = (if P x then (item_group (n + 1), x) # numbered P (n + 1) xs else ([], x) # numbered P n xs)"

definition last_number :: "('a \<Rightarrow> bool) \<Rightarrow> nat \<Rightarrow> 'a list \<Rightarrow> nat" where
  "last_number P n xs = n + length (filter P xs)"

lemma item_group_inj [simp]: "item_group a = item_group b \<longleftrightarrow> a = b" "item_group k \<noteq> []"
  by (simp_all add: item_group_def)

lemma lower_item_group [simp]: "to_lower (item_group k) = item_group k"
proof -
  have "to_lower (show_nat k) = show_nat k" using lower_group_name [of k] by (simp add: group_name_def to_lower_def)
  then show ?thesis by (simp add: item_group_def to_lower_def to_lower_char_def)
qed

lemma numbered_snd [simp]: "map snd (numbered P n xs) = xs"
  by (induction xs arbitrary: n) auto

lemma numbered_in: "(g, x) \<in> set (numbered P n xs) \<Longrightarrow>
    g = [] \<and> \<not> P x \<or> P x \<and> (\<exists>i. g = item_group i \<and> n < i \<and> i \<le> last_number P n xs)"
proof (induction xs arbitrary: n)
  case (Cons y ys)
  then consider "P y" "(g, x) = (item_group (n + 1), y)" | "\<not> P y" "(g, x) = ([], y)" | "P y" "(g, x) \<in> set (numbered P (n + 1) ys)"
    | "\<not> P y" "(g, x) \<in> set (numbered P n ys)"
    by (auto split: if_splits)
  then show ?case
  proof cases
    case 3 then show ?thesis using Cons.IH [of "n + 1"] by (fastforce simp: last_number_def)
  next
    case 4 then show ?thesis using Cons.IH [of n] by (fastforce simp: last_number_def)
  qed (auto simp: last_number_def)
qed simp

text \<open>A group that is given out belongs to one entry.\<close>

definition own_groups :: "(string \<times> 'a) list \<Rightarrow> bool" where
  "own_groups L \<longleftrightarrow> (\<forall>g x h y. (g, x) \<in> set L \<longrightarrow> (h, y) \<in> set L \<longrightarrow> g \<noteq> [] \<longrightarrow> equal_fold h g \<longrightarrow> x = y)"

definition groups_between :: "nat \<Rightarrow> nat \<Rightarrow> (string \<times> 'a) list \<Rightarrow> bool" where
  "groups_between lo hi L \<longleftrightarrow> (\<forall>g x. (g, x) \<in> set L \<longrightarrow> g = [] \<or> (\<exists>i. g = item_group i \<and> lo < i \<and> i \<le> hi))"

lemma numbered_between: "groups_between n (last_number P n xs) (numbered P n xs)"
  unfolding groups_between_def
proof (intro allI impI)
  fix g x assume "(g, x) \<in> set (numbered P n xs)"
  from numbered_in [OF this] show "g = [] \<or> (\<exists>i. g = item_group i \<and> n < i \<and> i \<le> last_number P n xs)" by blast
qed

lemma fold_groups: "equal_fold (item_group i) (item_group j) \<longleftrightarrow> i = j" "\<not> equal_fold [] (item_group i)" "\<not> equal_fold (item_group i) []" "equal_fold g g"
proof -
  have "to_lower [] = []" by (simp add: to_lower_def)
  then show "\<not> equal_fold [] (item_group i)" "\<not> equal_fold (item_group i) []" unfolding equal_fold_def lower_item_group
    using item_group_inj(2) by metis+
qed (simp_all add: equal_fold_def)

lemma apart:
  assumes "groups_between a b L" and "groups_between b c M" and "(g, x) \<in> set L" and "(h, y) \<in> set M" and "g \<noteq> [] \<or> h \<noteq> []"
  shows "\<not> equal_fold g h" "\<not> equal_fold h g"
proof -
  have "g = [] \<or> (\<exists>i. g = item_group i \<and> i \<le> b)" "h = [] \<or> (\<exists>i. h = item_group i \<and> b < i)"
    using assms(1-4) unfolding groups_between_def by blast+
  then show "\<not> equal_fold g h" "\<not> equal_fold h g" using assms(5) by (auto simp: fold_groups)
qed

lemma own_append:
  assumes "own_groups L" and "own_groups M" and "groups_between a b L" and "groups_between b c M"
  shows "own_groups (L @ M)"
  using assms(1,2) apart [OF assms(3,4)] unfolding own_groups_def set_append Un_iff by blast

lemma between_Cons: "groups_between a b ((g, x) # L) \<longleftrightarrow> (g = [] \<or> (\<exists>i. g = item_group i \<and> a < i \<and> i \<le> b)) \<and> groups_between a b L"
  "groups_between a b []"
  unfolding groups_between_def by auto

lemma own_one: "own_groups [(g, x)]" "own_groups []"
  by (simp_all add: own_groups_def)

lemma numbered_own: "own_groups (numbered P n xs)"
proof (induction xs arbitrary: n)
  case (Cons x xs)
  have "own_groups ([(item_group (n + 1), x)] @ numbered P (n + 1) xs)"
    by (rule own_append [OF own_one(1) Cons.IH _ numbered_between, of n]) (simp add: between_Cons)
  moreover have "own_groups ([([], x)] @ numbered P n xs)"
    by (rule own_append [OF own_one(1) Cons.IH _ numbered_between, of n]) (simp add: between_Cons)
  ultimately show ?case by simp
qed (simp add: own_one)

section \<open>Companions\<close>

text \<open>The companion field of an entry is there where it has a value, and stands in the group of the entry.\<close>

definition companion_of :: "(string \<Rightarrow> 'a \<Rightarrow> vfield option) \<Rightarrow> ('a \<Rightarrow> string) \<Rightarrow> bool" where
  "companion_of h get \<longleftrightarrow> (\<forall>g x. case h g x of None \<Rightarrow> get x = [] | Some f \<Rightarrow> get x \<noteq> [] \<and> vf_value f = get x \<and> vf_group f = g)"

lemma companion_member:
  assumes "companion_of h get" and "own_groups L" and "(g, x) \<in> set L" and "g \<noteq> []"
    and "f \<in> set (map (wire_field rd sp) (List.map_filter (\<lambda>(g, x). h g x) L))" and "equal_fold (vf_group f) g"
  shows "vf_value f = get x" "get x \<noteq> []"
proof -
  obtain g' y f' where m: "(g', y) \<in> set L" "h g' y = Some f'" "f = wire_field rd sp f'"
    using assms(5) by (auto simp: map_filter_def)
  have "case h g' y of None \<Rightarrow> get y = [] | Some f \<Rightarrow> get y \<noteq> [] \<and> vf_value f = get y \<and> vf_group f = g'"
    using assms(1) unfolding companion_of_def by blast
  then have f: "get y \<noteq> []" "vf_value f = get y" "vf_group f = g'" using m(2,3) by simp_all
  have "x = y" using assms(2,3,4,6) m(1) f(3) unfolding own_groups_def by blast
  then show "vf_value f = get x" "get x \<noteq> []" using f by simp_all
qed

lemma companion_exists:
  assumes "companion_of h get" and "(g, x) \<in> set L" and "get x \<noteq> []"
  shows "\<exists>f \<in> set (map (wire_field rd sp) (List.map_filter (\<lambda>(g, x). h g x) L)). vf_group f = g"
proof -
  have "case h g x of None \<Rightarrow> get x = [] | Some f \<Rightarrow> get x \<noteq> [] \<and> vf_value f = get x \<and> vf_group f = g"
    using assms(1) unfolding companion_of_def by blast
  then obtain f where f: "h g x = Some f" "vf_group f = g" using assms(3) by (auto split: option.splits)
  then have "f \<in> set (List.map_filter (\<lambda>(g, x). h g x) L)" using assms(2) by (force simp: map_filter_def)
  then show ?thesis using f(2) by (auto intro!: bexI [of _ f])
qed

lemma find_some_value:
  assumes "\<exists>f \<in> set fs. vf_group f = g" and "Q g" and "\<And>f. f \<in> set fs \<Longrightarrow> Q (vf_group f) \<Longrightarrow> vf_value f = v"
  shows "\<exists>f. find (\<lambda>f. Q (vf_group f)) fs = Some f \<and> vf_value f = v"
  using assms by (induction fs) auto

lemma find_none: "(\<And>f. f \<in> set fs \<Longrightarrow> \<not> Q f) \<Longrightarrow> find Q fs = None"
  by (induction fs) auto

lemma label_found:
  assumes "companion_of h get" and "own_groups L" and "(g, x) \<in> set L" and "g = [] \<Longrightarrow> get x = []"
  shows "labelFromGroup (map (wire_field rd sp) (List.map_filter (\<lambda>(g, x). h g x) L)) g = get x"
proof (cases "g = []")
  case False
  note m = companion_member [OF assms(1-3) False, of _ rd sp]
  show ?thesis
  proof (cases "get x = []")
    case True
    then have "find (\<lambda>f. equal_fold (vf_group f) g) (map (wire_field rd sp) (List.map_filter (\<lambda>(g, x). h g x) L)) = None"
      by (intro find_none notI) (use m(2) in blast)
    then show ?thesis using False True by (simp add: labelFromGroup_def)
  next
    case some: False
    have "\<exists>f. find (\<lambda>f. equal_fold (vf_group f) g) (map (wire_field rd sp) (List.map_filter (\<lambda>(g, x). h g x) L)) = Some f \<and> vf_value f = get x"
      by (rule find_some_value [where Q = "\<lambda>h. equal_fold h g", OF companion_exists [OF assms(1,3) some] fold_groups(4) m(1)])
    then show ?thesis using False by (auto simp: labelFromGroup_def)
  qed
qed (simp add: labelFromGroup_def assms(4))

lemma companion_found:
  assumes "companion_of h get" and "own_groups L" and "(g, x) \<in> set L" and "g = [] \<Longrightarrow> get x = []"
  shows "map_option vf_value (companion (map (wire_field rd sp) (List.map_filter (\<lambda>(g, x). h g x) L)) g) = (if get x = [] then None else Some (get x))"
proof (cases "g = []")
  case False
  note m = companion_member [OF assms(1-3) False, of _ rd sp]
  show ?thesis
  proof (cases "get x = []")
    case True
    then have "find (\<lambda>f. vf_group f = g) (map (wire_field rd sp) (List.map_filter (\<lambda>(g, x). h g x) L)) = None"
      by (intro find_none notI) (use m(2) fold_groups(4) in blast)
    then show ?thesis using False True by (simp add: companion_def)
  next
    case some: False
    have "\<exists>f. find (\<lambda>f. vf_group f = g) (map (wire_field rd sp) (List.map_filter (\<lambda>(g, x). h g x) L)) = Some f \<and> vf_value f = get x"
      by (rule find_some_value [where Q = "\<lambda>h. h = g", OF companion_exists [OF assms(1,3) some] refl m(1)]) (assumption, simp add: fold_groups(4))
    then show ?thesis using False some by (auto simp: companion_def)
  qed
qed (simp add: companion_def assms(4))

end
