(* ===== verification/VCard4Rules.thy ===== *)
theory VCard4Rules imports VCard4Orgs begin

text \<open>
  The whole card: what the adapter exports and a reader imports again is the same neutral card, for every card inside the
  contract of the adapter. The steps of the export only add fields under names of their own, so that each step of the
  import finds what its counterpart wrote.
\<close>

section \<open>Lists of entries\<close>

lemma enumerate_back:
  assumes "\<And>i j x. (j, x) \<in> set (enumerate m xs) \<Longrightarrow> inp i (out j x) = x"
  shows "map (\<lambda>(i, f). inp i f) (enumerate n (map (\<lambda>(j, x). out j x) (enumerate m xs))) = xs"
  using assms
proof (induction xs arbitrary: n m)
  case (Cons x xs)
  have "inp n (out m x) = x" by (rule Cons.prems) simp
  moreover have "map (\<lambda>(i, f). inp i f) (enumerate (Suc n) (map (\<lambda>(j, x). out j x) (enumerate (Suc m) xs))) = xs"
    by (rule Cons.IH) (use Cons.prems in auto)
  ultimately show ?case by simp
qed simp

lemma enumerate_mem: "(j, x) \<in> set (enumerate m xs) \<Longrightarrow> x \<in> set xs"
  by (metis enumerate_eq_zip in_set_zipE)

lemma map_filter_enumerate_all: "list_all P xs \<Longrightarrow> (\<And>x. P x \<Longrightarrow> \<not> Q x) \<Longrightarrow>
    List.map_filter (\<lambda>(i, x). if Q x then None else Some (g i x)) (enumerate m xs) = map (\<lambda>(i, x). g i x) (enumerate m xs)"
  by (induction xs arbitrary: m) (auto simp: List.map_filter_simps)

section \<open>The fields of each step\<close>

lemma fields_exportIdentity: "card_fields (exportIdentity cd vc) P =
   (if P = ''LANGUAGE'' \<and> cd_language cd \<noteq> [] then [field (cd_language cd)]
    else if P = ''CREATED'' \<and> cd_created cd \<noteq> None then [field (rfc3339ToVCardTimestamp (ts_utc (the (cd_created cd))))]
    else if P = ''REV'' \<and> cd_updated cd \<noteq> None then [field (rfc3339ToVCardTimestamp (ts_utc (the (cd_updated cd))))]
    else if P = ''PRODID'' \<and> cd_prod_id cd \<noteq> [] then [field (cd_prod_id cd)]
    else if P = ''KIND'' \<and> cd_kind cd \<noteq> [] then [field (cd_kind cd)]
    else if P = ''UID'' \<and> cd_uid cd \<noteq> [] then [field (cd_uid cd)] else card_fields vc P)"
  by (simp add: exportIdentity_def split: option.splits)

lemma fields_exportName: "card_fields (fst (exportName cd vc)) P = card_fields vc P @ card_fields (fst (exportName cd [])) P"
  by (subst exportName_appends) simp

lemma fields_exportName_other: "P \<noteq> ''N'' \<Longrightarrow> P \<noteq> ''FN'' \<Longrightarrow> card_fields (fst (exportName cd [])) P = []"
  by (simp add: exportName_def Let_def)

lemma fields_exportNicknames: "list_all nickname_ok (cd_nicknames cd) \<Longrightarrow> card_fields (exportNicknames cd vc) P = card_fields vc P @
    (if P = ''NICKNAME'' then map (\<lambda>(i, n). nickname_field i n) (enumerate 0 (cd_nicknames cd)) else [])"
  using map_filter_enumerate_all [of nickname_ok "cd_nicknames cd" "\<lambda>n. nk_name n = []" "\<lambda>i n. (''NICKNAME'', nickname_field i n)" 0]
  by (simp add: exportNicknames_def nickname_ok_def piece_ok_def)

lemma fields_exportTitles: "card_fields (exportTitles cd groups vc) P = card_fields vc P @
    map (\<lambda>(i, t). title_field groups i t) (filter (\<lambda>(i, t). (if ti_kind t = ''role'' then ''ROLE'' else ''TITLE'') = P) (enumerate 0 (cd_titles cd)))"
proof -
  have "card_fields (map (\<lambda>(i, t). (if ti_kind t = ''role'' then ''ROLE'' else ''TITLE'', title_field groups i t)) L) P =
      map (\<lambda>(i, t). title_field groups i t) (filter (\<lambda>(i, t). (if ti_kind t = ''role'' then ''ROLE'' else ''TITLE'') = P) L)" for L
    by (induction L) auto
  then show ?thesis by (simp add: exportTitles_def)
qed

lemma fields_exportEmails: "card_fields (fst (exportEmails cd vc)) P = card_fields vc P @
    (if P = ''EMAIL'' then map (\<lambda>(i, e). email_field i e) (enumerate 0 (cd_emails cd)) else [])"
  by (simp add: exportEmails_def)

lemma fields_exportPhones: "card_fields (fst (exportPhones cd vc)) P = card_fields vc P @
    (if P = ''TEL'' then map (\<lambda>(i, e). phone_field i e) (enumerate 0 (cd_phones cd)) else [])"
  by (simp add: exportPhones_def)

lemma fields_exportOnlineServices: "card_fields (fst (exportOnlineServices cd vc)) P = card_fields vc P @
    (if P = ''IMPP'' then map (\<lambda>(i, s). impp_field i s) (enumerate 0 (cd_impp cd)) else []) @
    (if P = ''SOCIALPROFILE'' then map (\<lambda>(i, s). social_field i s) (enumerate 0 (cd_social cd)) else [])"
  by (simp add: exportOnlineServices_def)

lemma fields_exportAddresses: "card_fields (fst (exportAddresses cd vc)) P = card_fields vc P @
    (if P = ''ADR'' then map (\<lambda>(i, a). address_field i a) (enumerate 0 (cd_addresses cd)) else [])"
  by (simp add: exportAddresses_def)

lemma fields_concat: "card_fields (concat xss) P = concat (map (\<lambda>xs. card_fields xs P) xss)"
  by (induction xss) simp_all

lemma fields_exportAnniversaries: "card_fields (fst (exportAnniversaries cd vc)) P = card_fields vc P @
    concat (map (\<lambda>a. card_fields (anniversary_fields a) P) (cd_anniversaries cd))"
  by (simp add: exportAnniversaries_def fields_concat o_def)

lemma fields_exportSpeakToAs: "card_fields (exportSpeakToAs cd vc) P = card_fields vc P @
    (case cd_speak_to_as cd of None \<Rightarrow> []
     | Some s \<Rightarrow> (if P = ''GRAMGENDER'' then map (\<lambda>(i, g). gender_field i g) (enumerate 0 (sp_genders s)) else []) @
                 (if P = ''PRONOUNS'' then map (\<lambda>(i, p). pronouns_field i p) (enumerate 0 (sp_pronouns s)) else []))"
  by (simp add: exportSpeakToAs_def split: option.splits)

lemma fields_exportPersonalInfo: "card_fields (exportPersonalInfo cd vc) P = card_fields vc P @
    map (\<lambda>(i, x). info_field i x) (filter (\<lambda>(i, x). map_of info_kinds (pi_kind x) = Some P) (enumerate 0 (cd_personal_info cd)))"
proof -
  have "card_fields (List.map_filter (\<lambda>(i, x). map_option (\<lambda>p. (p, info_field i x)) (map_of info_kinds (pi_kind x))) L) P =
      map (\<lambda>(i, x). info_field i x) (filter (\<lambda>(i, x). map_of info_kinds (pi_kind x) = Some P) L)" for L
    by (induction L) (auto simp: List.map_filter_simps split: option.splits)
  then show ?thesis by (simp add: exportPersonalInfo_def)
qed

lemma fields_exportNotes: "card_fields (exportNotes cd vc) P = card_fields vc P @
    (if P = ''NOTE'' then map (\<lambda>(i, n). note_field i n) (enumerate 0 (cd_notes cd)) else [])"
  by (simp add: exportNotes_def)

lemma fields_exportKeywords: "list_all piece_ok (cd_keywords cd) \<Longrightarrow> card_fields (exportKeywords cd vc) P =
    (if P = ''CATEGORIES'' \<and> cd_keywords cd \<noteq> [] then [field (join_with '','' (cd_keywords cd))] else card_fields vc P)"
proof -
  assume "list_all piece_ok (cd_keywords cd)"
  then have "filter (\<lambda>k. k \<noteq> []) (cd_keywords cd) = cd_keywords cd" by (auto simp: filter_id_conv list_all_iff piece_ok_def)
  then show ?thesis by (simp add: exportKeywords_def Let_def)
qed

lemma fields_exportResourceFrom: "card_fields (exportResourceFrom prop src kind mt ix vc) P = card_fields vc P @
    (if P = prop then map (\<lambda>(i, r). resource_field mt ix i r) (enumerate 0 (filter (\<lambda>r. rs_kind r = kind) src)) else [])"
  by (simp add: exportResourceFrom_def)

lemma fields_exportLangs: "card_fields (exportLangsRelatedMembers cd vc) P = card_fields vc P @
    (if P = ''LANG'' then map (\<lambda>(i, l). language_field i l) (enumerate 0 (cd_languages cd)) else []) @
    (if P = ''RELATED'' then map relation_field (cd_related_to cd) else []) @ (if P = ''MEMBER'' then map field (cd_members cd) else [])"
  by (simp add: exportLangsRelatedMembers_def)

text \<open>The unknown properties that ride along never stand under a name that an import step reads.\<close>

lemma fields_exportPassthrough:
  assumes "P \<in> set mappedV4PropNames" and "P \<noteq> ''JSPROP''"
  shows "card_fields (exportPassthrough js ptrs pt vc) P = card_fields vc P"
proof -
  have "card_fields (map jCardPropToField (filter (\<lambda>p. to_upper (jc_name p) \<notin> set mappedV4PropNames) ps)) P = []" for ps
    using assms(1) by (induction ps) (auto simp: jCardPropToField_def Let_def)
  moreover have "card_fields (List.map_filter (\<lambda>ptr. map_option (\<lambda>raw. (''JSPROP'', g ptr raw)) (f ptr)) qs) P = []" for g f and qs :: "string list"
    using assms(2) by (induction qs) (auto simp: List.map_filter_simps split: option.splits)
  ultimately show ?thesis by (simp add: exportPassthrough_def)
qed

section \<open>Anniversaries\<close>

text \<open>
  Births, weddings and deaths in this order, one birth and one death at most, as only these have places and the reader gives
  a place to the first that has none; the identifiers are the ones the reader counts, since none is written.
\<close>

definition anniversary_ok :: "anniversary \<Rightarrow> bool" where
  "anniversary_ok a \<longleftrightarrow> date_ok (an_date a) \<and>
     (case an_place a of None \<Rightarrow> True | Some pl \<Rightarrow> place_ok pl \<and> an_kind a \<noteq> ''wedding'')"

definition of_kind :: "string \<Rightarrow> anniversary list \<Rightarrow> anniversary list" where
  "of_kind k as = filter (\<lambda>a. an_kind a = k) as"

definition anniversaries_ok :: "anniversary list \<Rightarrow> bool" where
  "anniversaries_ok as \<longleftrightarrow> as = of_kind ''birth'' as @ of_kind ''wedding'' as @ of_kind ''death'' as \<and>
     length (of_kind ''birth'' as) \<le> 1 \<and> length (of_kind ''death'' as) \<le> 1 \<and> list_all anniversary_ok as \<and>
     map an_id as = map (\<lambda>i. ''anniv'' @ show_nat (i + 1)) [0..<length as]"

lemma anniversary_one:
  assumes "anniversary_ok a"
  shows "map_of date_props (an_kind a) = Some q \<Longrightarrow> q \<in> set (map snd date_props) \<Longrightarrow> P \<in> set (map snd date_props) \<Longrightarrow>
      card_fields (anniversary_fields a) P = (if P = q then [date_field (an_date a)] else [])"
    and "P \<in> set (map snd place_props) \<Longrightarrow> card_fields (anniversary_fields a) P =
      (case an_place a of None \<Rightarrow> [] | Some pl \<Rightarrow> if map_of place_props (an_kind a) = Some P then [place_field pl] else [])"
proof -
  have z: "\<not> isZeroAnniversaryDate (an_date a)"
    using assms by (cases "an_date a") (auto simp: anniversary_ok_def date_ok_def isZeroAnniversaryDate_def writable_anniversary_date_def split: option.splits)
  have pl: "fst (addressToPlaceValue pl) \<noteq> []" if "an_place a = Some pl" for pl
    using assms that by (auto simp: anniversary_ok_def place_ok_def addressToPlaceValue_def)
  show "map_of date_props (an_kind a) = Some q \<Longrightarrow> q \<in> set (map snd date_props) \<Longrightarrow> P \<in> set (map snd date_props) \<Longrightarrow>
      card_fields (anniversary_fields a) P = (if P = q then [date_field (an_date a)] else [])"
    using z by (auto simp: anniversary_fields_def date_props_def place_props_def split: option.splits if_splits)
  show "P \<in> set (map snd place_props) \<Longrightarrow> card_fields (anniversary_fields a) P =
      (case an_place a of None \<Rightarrow> [] | Some pl \<Rightarrow> if map_of place_props (an_kind a) = Some P then [place_field pl] else [])"
    using z pl by (auto simp: anniversary_fields_def date_props_def place_props_def split: option.splits if_splits)
qed

lemma anniversary_dates:
  assumes "list_all anniversary_ok xs" and "list_all (\<lambda>a. an_kind a = k) xs" and "map_of date_props k = Some q" and "P \<in> set (map snd date_props)"
  shows "concat (map (\<lambda>a. card_fields (anniversary_fields a) P) xs) = (if P = q then map (\<lambda>a. date_field (an_date a)) xs else [])"
proof -
  have "q \<in> set (map snd date_props)" using assms(3) by (force dest: map_of_SomeD)
  then show ?thesis using assms by (induction xs) (auto simp: anniversary_one(1))
qed

lemma anniversary_places:
  assumes "list_all anniversary_ok xs" and "list_all (\<lambda>a. an_kind a = k) xs" and "P \<in> set (map snd place_props)"
  shows "concat (map (\<lambda>a. card_fields (anniversary_fields a) P) xs) =
    (if map_of place_props k = Some P then map place_field (List.map_filter an_place xs) else [])"
  using assms by (induction xs) (auto simp: anniversary_one(2) List.map_filter_simps split: option.splits)

lemma anniversary_read:
  assumes "wire_ok rd sp" and "list_all anniversary_ok xs" and "map an_id xs = map (\<lambda>i. ''anniv'' @ show_nat (i + 1)) [m..<m + length xs]"
  shows "map (\<lambda>(i, e). anniversary_in i e) (enumerate m (map (\<lambda>a. (an_kind a, wire_field rd sp (date_field (an_date a)))) xs)) =
    map (\<lambda>a. a\<lparr>an_place := None\<rparr>) xs"
  using assms(2,3)
proof (induction xs arbitrary: m)
  case (Cons a xs)
  have u: "[m..<m + length (a # xs)] = m # [Suc m..<Suc m + length xs]" by (simp add: upt_conv_Cons del: upt_Suc)
  have i: "an_id a = ''anniv'' @ show_nat (m + 1)" "map an_id xs = map (\<lambda>i. ''anniv'' @ show_nat (i + 1)) [Suc m..<Suc m + length xs]"
    using Cons.prems(2) unfolding u by (simp_all del: upt_Suc)
  have ok: "date_ok (an_date a)" using Cons.prems(1) by (simp add: anniversary_ok_def)
  have "paramAll (date_field (an_date a)) ''PROP-ID'' = []" by (simp add: date_field_def split: option.splits)
  then have "propID (wire_field rd sp (date_field (an_date a))) = []" by (simp add: propID_def paramValue_def params_wire)
  then have "anniversary_in m (an_kind a, wire_field rd sp (date_field (an_date a))) = a\<lparr>an_place := None\<rparr>"
    using date_back [OF assms(1) ok, of m "an_kind a"] i(1) by (cases a) (simp add: anniversary_in_def Let_def idOrSynthetic_def)
  then show ?case using Cons.IH [of "Suc m"] Cons.prems(1) i(2) by simp
qed simp

lemma put_place_at: "list_all (\<lambda>x. an_kind x \<noteq> kind) xs \<Longrightarrow> an_kind y = kind \<Longrightarrow> an_place y = None \<Longrightarrow>
    put_place kind a (xs @ y # ys) = Some (xs @ y\<lparr>an_place := Some a\<rparr> # ys)"
  by (induction xs) auto

lemma dates_have_no_value: "\<not> free_text (wire_field rd sp (date_field d))"
proof -
  have "paramAll (date_field d) ''VALUE'' = []" by (simp add: date_field_def split: option.splits)
  then show ?thesis by (simp add: free_text_def paramValue_def params_wire)
qed

text \<open>Attaching the places of the one birth or the one death.\<close>

lemma attach_back:
  assumes "wire_ok rd sp" and "list_all anniversary_ok bs" and "length bs \<le> 1" and "list_all (\<lambda>a. an_kind a = kind) bs"
    and "list_all (\<lambda>x. an_kind x \<noteq> kind) xs" and "kind \<noteq> ''wedding''"
  shows "fst (fold (attach_place kind pn) (map (wire_field rd sp) (map place_field (List.map_filter an_place bs)))
      (xs @ map (\<lambda>a. a\<lparr>an_place := None\<rparr>) bs @ ys, rest)) = xs @ bs @ ys"
proof (cases bs)
  case Nil then show ?thesis by (simp add: List.map_filter_simps)
next
  case (Cons b bs')
  then have b: "bs = [b]" "an_kind b = kind" "anniversary_ok b" using assms(2-4) by auto
  obtain idx pts ds where rest: "rest = (idx, pts, ds)" by (cases rest)
  show ?thesis
  proof (cases "an_place b")
    case None then show ?thesis by (cases b) (simp add: b(1) List.map_filter_simps)
  next
    case (Some pl)
    then have "place_ok pl" using b(3) by (simp add: anniversary_ok_def)
    then have "place_of (wire_field rd sp (place_field pl)) = Some pl" by (rule place_back(1) [OF assms(1)])
    moreover have "put_place kind pl (xs @ b\<lparr>an_place := None\<rparr> # ys) = Some (xs @ b\<lparr>an_place := Some pl\<rparr> # ys)"
      using put_place_at [OF assms(5), of "b\<lparr>an_place := None\<rparr>" pl ys] b(2) by simp
    ultimately show ?thesis using Some by (cases b) (simp add: b(1) List.map_filter_simps attach_place_def rest)
  qed
qed

lemma anniversaries_back:
  assumes w: "wire_ok rd sp" and ok: "anniversaries_ok as" and "cd_anniversaries c = []"
    and vc: "\<And>P. P \<in> set (map snd date_props @ map snd place_props) \<Longrightarrow>
      card_fields vc P = map (wire_field rd sp) (concat (map (\<lambda>a. card_fields (anniversary_fields a) P) as))"
  shows "fst (importAnniversaries vc c) = c\<lparr>cd_anniversaries := as\<rparr>"
proof -
  define bs where b: "bs = of_kind ''birth'' as"
  define ws where m: "ws = of_kind ''wedding'' as"
  define ds where d: "ds = of_kind ''death'' as"
  note parts = b m d
  have as: "as = bs @ ws @ ds" and len: "length bs \<le> 1" "length ds \<le> 1" and all: "list_all anniversary_ok as"
    and ids: "map an_id as = map (\<lambda>i. ''anniv'' @ show_nat (i + 1)) [0..<length as]"
    using ok unfolding anniversaries_ok_def parts by blast+
  have k: "list_all (\<lambda>a. an_kind a = ''birth'') bs" "list_all (\<lambda>a. an_kind a = ''wedding'') ws" "list_all (\<lambda>a. an_kind a = ''death'') ds"
    by (simp_all add: parts of_kind_def list_all_iff)
  have oks: "list_all anniversary_ok bs" "list_all anniversary_ok ws" "list_all anniversary_ok ds"
    using all by (simp_all add: as)
  let ?wf = "\<lambda>a. wire_field rd sp (date_field (an_date a))"
  let ?pl = "\<lambda>xs. map (wire_field rd sp) (map place_field (List.map_filter an_place xs))"
  have props: "map_of date_props ''birth'' = Some ''BDAY''" "map_of date_props ''wedding'' = Some ''ANNIVERSARY''"
    "map_of date_props ''death'' = Some ''DEATHDATE''" "map_of place_props ''birth'' = Some ''BIRTHPLACE''"
    "map_of place_props ''wedding'' = None" "map_of place_props ''death'' = Some ''DEATHPLACE''"
    by (simp_all add: date_props_def place_props_def)
  note dates = anniversary_dates [OF oks(1) k(1) props(1)] anniversary_dates [OF oks(2) k(2) props(2)] anniversary_dates [OF oks(3) k(3) props(3)]
  note places = anniversary_places [OF oks(1) k(1)] anniversary_places [OF oks(2) k(2)] anniversary_places [OF oks(3) k(3)]
  have f: "card_fields vc ''BDAY'' = map ?wf bs" "card_fields vc ''ANNIVERSARY'' = map ?wf ws" "card_fields vc ''DEATHDATE'' = map ?wf ds"
    "card_fields vc ''BIRTHPLACE'' = ?pl bs" "card_fields vc ''DEATHPLACE'' = ?pl ds"
    by (simp_all add: vc date_props_def place_props_def as dates [unfolded date_props_def] places [unfolded place_props_def] o_def)
  have pair: "map (Pair kd) (map ?wf xs) = map (\<lambda>a. (an_kind a, ?wf a)) xs" if "list_all (\<lambda>a. an_kind a = kd) xs" for kd xs
    using that by (auto simp: list_all_iff)
  have "map (\<lambda>(i, e). anniversary_in i e) (enumerate 0 (map (Pair ''birth'') (map ?wf bs) @ map (Pair ''wedding'') (map ?wf ws) @
      map (Pair ''death'') (map ?wf ds))) = map (\<lambda>a. a\<lparr>an_place := None\<rparr>) as"
    using anniversary_read [OF w all, of 0] ids unfolding pair [OF k(1)] pair [OF k(2)] pair [OF k(3)] by (simp add: as)
  moreover have "map (\<lambda>a. a\<lparr>an_place := None\<rparr>) ws = ws"
    using oks(2) k(2) by (intro map_idI) (auto simp: list_all_iff anniversary_ok_def split: option.splits)
  ultimately have read: "map (\<lambda>(i, e). anniversary_in i e) (enumerate 0 (map (Pair ''birth'') (map ?wf bs) @ map (Pair ''wedding'') (map ?wf ws) @
      map (Pair ''death'') (map ?wf ds))) = map (\<lambda>a. a\<lparr>an_place := None\<rparr>) bs @ ws @ map (\<lambda>a. a\<lparr>an_place := None\<rparr>) ds"
    by (simp add: as)
  have nb: "list_all (\<lambda>x. an_kind x \<noteq> ''death'') (bs @ ws)" using k(1,2) by (auto simp: list_all_iff)
  note births = attach_back [OF w oks(1) len(1) k(1), where xs = "[]" and pn = "''BIRTHPLACE''" and ys = "ws @ map (\<lambda>a. a\<lparr>an_place := None\<rparr>) ds"]
  note deaths = attach_back [OF w oks(3) len(2) k(3) nb, where pn = "''DEATHPLACE''" and ys = "[]"]
  have free: "filter free_text (map ?wf ds) = []" "filter (\<lambda>f. \<not> free_text f) (map ?wf ds) = map ?wf ds"
    by (auto simp: dates_have_no_value filter_empty_conv filter_id_conv)
  obtain st1 r1 where s1: "fold (attach_place ''birth'' ''BIRTHPLACE'') (?pl bs)
      (map (\<lambda>a. a\<lparr>an_place := None\<rparr>) bs @ ws @ map (\<lambda>a. a\<lparr>an_place := None\<rparr>) ds, length as, [], []) = (st1, r1)" by (metis surj_pair)
  have st1: "st1 = (bs @ ws) @ map (\<lambda>a. a\<lparr>an_place := None\<rparr>) ds" using births [of "(length as, [], [])"] s1 by simp
  obtain st2 i2 p2 d2 where s2: "fold (attach_place ''death'' ''DEATHPLACE'') (?pl ds) (st1, r1) = (st2, i2, p2, d2)" by (metis prod_cases4)
  have st2: "st2 = as" using deaths [of r1] s2 st1 by (simp add: as)
  have n: "length (map (Pair ''birth'') (map ?wf bs) @ map (Pair ''wedding'') (map ?wf ws) @ map (Pair ''death'') (map ?wf ds)) = length as"
    by (simp add: as)
  show ?thesis unfolding importAnniversaries_def f Let_def free
    using s1 s2 st2 assms(3) unfolding read n by simp
qed

end
