(* ===== verification/VCard4Card.thy ===== *)
theory VCard4Card imports VCard4Rules begin

text \<open>
  The round trip of a whole card through the vCard 4.0 adapter: the contract a card has to meet, what each import step makes
  of the fields its counterpart wrote, and the composition of all of them.
\<close>

section \<open>The contract\<close>

definition stamp_ok :: "timestamp option \<Rightarrow> bool" where
  "stamp_ok t \<longleftrightarrow> (case t of None \<Rightarrow> True | Some s \<Rightarrow> utc_stamp (ts_utc s))"

definition speak_ok :: "speak_to_as option \<Rightarrow> bool" where
  "speak_ok s \<longleftrightarrow> (case s of None \<Rightarrow> True
     | Some s \<Rightarrow> (sp_genders s \<noteq> [] \<or> sp_pronouns s \<noteq> []) \<and> list_all gender_ok (sp_genders s) \<and> list_all pronouns_ok (sp_pronouns s))"

definition infos_ok :: "personal_info list \<Rightarrow> bool" where
  "infos_ok xs \<longleftrightarrow> list_all info_ok xs \<and>
     xs = concat (map (\<lambda>(kind, p). filter (\<lambda>x. pi_kind x = kind) xs) info_kinds)"

definition media_kinds :: "string list" where
  "media_kinds = [''photo'', ''logo'', ''sound'']"

text \<open>Resources of several kinds are listed kind by kind.\<close>

definition by_kinds :: "string list \<Rightarrow> resource list \<Rightarrow> resource list" where
  "by_kinds ks rs = concat (map (\<lambda>k. filter (\<lambda>r. rs_kind r = k) rs) ks)"

definition media_ok :: "resource list \<Rightarrow> bool" where
  "media_ok rs \<longleftrightarrow> rs = by_kinds media_kinds rs \<and> list_all (\<lambda>r. resource_ok (rs_kind r) True False r) rs"

definition directories_ok :: "resource list \<Rightarrow> bool" where
  "directories_ok rs \<longleftrightarrow> rs = by_kinds [''directory'', ''entry''] rs \<and>
     list_all (\<lambda>r. resource_ok (rs_kind r) False (rs_kind r = ''directory'') r) rs"

definition vcard4_domain :: "card \<Rightarrow> bool" where
  "vcard4_domain c \<longleftrightarrow>
     stamp_ok (cd_created c) \<and> stamp_ok (cd_updated c) \<and> (case cd_name c of None \<Rightarrow> True | Some n \<Rightarrow> name_ok n) \<and>
     list_all nickname_ok (cd_nicknames c) \<and>
     list_all org_ok (cd_organizations c) \<and> distinct (map org_id (cd_organizations c)) \<and>
     titles_in_order (cd_titles c) \<and> list_all (title_ok (cd_organizations c)) (cd_titles c) \<and>
     list_all email_ok (cd_emails c) \<and> list_all phone_ok (cd_phones c) \<and>
     list_all service_ok (cd_impp c) \<and> list_all service_ok (cd_social c) \<and>
     list_all address_ok (cd_addresses c) \<and> anniversaries_ok (cd_anniversaries c) \<and> speak_ok (cd_speak_to_as c) \<and>
     infos_ok (cd_personal_info c) \<and> list_all note_ok (cd_notes c) \<and> list_all piece_ok (cd_keywords c) \<and>
     media_ok (cd_media c) \<and> list_all (resource_ok [] False False) (cd_calendars c) \<and>
     list_all (resource_ok [] False False) (cd_free_busy c) \<and> list_all (resource_ok [] False False) (cd_scheduling c) \<and>
     list_all (resource_ok [] True False) (cd_crypto_keys c) \<and> directories_ok (cd_directories c) \<and>
     list_all (resource_ok [] False False) (cd_links c) \<and> list_all (resource_ok [] False False) (cd_contact_uris c) \<and>
     list_all language_ok (cd_languages c) \<and> list_all relation_ok (cd_related_to c)"

section \<open>Each step of the import\<close>

lemma read_entries:
  assumes "\<And>i j x. (j, x) \<in> set (enumerate m xs) \<Longrightarrow> inp i (wire_field rd sp (out j x)) = x"
  shows "map (\<lambda>(i, f). inp i f) (enumerate n (map (wire_field rd sp) (map (\<lambda>(j, x). out j x) (enumerate m xs)))) = xs"
  using enumerate_back [of m xs inp "\<lambda>j x. wire_field rd sp (out j x)" n] assms by (simp add: split_def o_def)

lemma read_ok_entries:
  assumes "list_all ok xs" and "\<And>i j x. ok x \<Longrightarrow> inp i (wire_field rd sp (out j x)) = x"
  shows "map (\<lambda>(i, f). inp i f) (enumerate n (map (wire_field rd sp) (map (\<lambda>(j, x). out j x) (enumerate m xs)))) = xs"
proof (rule read_entries)
  fix i j x assume "(j, x) \<in> set (enumerate m xs)"
  then have "ok x" using assms(1) enumerate_mem by (fastforce simp: list_all_iff)
  then show "inp i (wire_field rd sp (out j x)) = x" by (rule assms(2))
qed

text \<open>The fields that a reader of the exported card finds under a name.\<close>

definition finds :: "(string \<Rightarrow> string list) \<Rightarrow> (string \<times> string) list \<Rightarrow> vcard \<Rightarrow> string \<Rightarrow> vfield list \<Rightarrow> bool" where
  "finds rd sp vc P fs \<longleftrightarrow> card_fields vc P = map (wire_field rd sp) fs"

definition entry_fields :: "(nat \<Rightarrow> 'a \<Rightarrow> vfield) \<Rightarrow> 'a list \<Rightarrow> vfield list" where
  "entry_fields out xs = map (\<lambda>(j, x). out j x) (enumerate 0 xs)"

lemma emails_read: "wire_ok rd sp \<Longrightarrow> list_all email_ok xs \<Longrightarrow> finds rd sp vc ''EMAIL'' (entry_fields email_field xs) \<Longrightarrow>
    importEmails vc c = c\<lparr>cd_emails := cd_emails c @ xs\<rparr>"
  using read_ok_entries [of email_ok xs email_in rd sp email_field 0 0] email_back
  by (simp add: importEmails_def finds_def entry_fields_def)

lemma phones_read: "wire_ok rd sp \<Longrightarrow> list_all phone_ok xs \<Longrightarrow> finds rd sp vc ''TEL'' (entry_fields phone_field xs) \<Longrightarrow>
    importPhones vc c = c\<lparr>cd_phones := cd_phones c @ xs\<rparr>"
  using read_ok_entries [of phone_ok xs phone_in rd sp phone_field 0 0] phone_back
  by (simp add: importPhones_def finds_def entry_fields_def)

lemma services_read: "wire_ok rd sp \<Longrightarrow> list_all service_ok xs \<Longrightarrow> list_all service_ok ys \<Longrightarrow>
    finds rd sp vc ''IMPP'' (entry_fields impp_field xs) \<Longrightarrow> finds rd sp vc ''SOCIALPROFILE'' (entry_fields social_field ys) \<Longrightarrow>
    importOnlineServices vc c = c\<lparr>cd_impp := cd_impp c @ xs, cd_social := cd_social c @ ys\<rparr>"
  using read_ok_entries [of service_ok xs impp_in rd sp impp_field 0 0] impp_back
    read_ok_entries [of service_ok ys social_in rd sp social_field "length xs" 0] social_back
  by (simp add: importOnlineServices_def finds_def entry_fields_def Let_def)

lemma notes_read: "wire_ok rd sp \<Longrightarrow> list_all note_ok xs \<Longrightarrow> finds rd sp vc ''NOTE'' (entry_fields note_field xs) \<Longrightarrow>
    importNotes vc c = c\<lparr>cd_notes := cd_notes c @ xs\<rparr>"
  using read_ok_entries [of note_ok xs note_in rd sp note_field 0 0] note_back
  by (simp add: importNotes_def finds_def entry_fields_def)

lemma langs_read: "wire_ok rd sp \<Longrightarrow> list_all language_ok xs \<Longrightarrow> list_all relation_ok rs \<Longrightarrow>
    finds rd sp vc ''LANG'' (entry_fields language_field xs) \<Longrightarrow> finds rd sp vc ''RELATED'' (map relation_field rs) \<Longrightarrow>
    finds rd sp vc ''MEMBER'' (map field ms) \<Longrightarrow>
    importLangsRelatedMembers vc c = c\<lparr>cd_languages := cd_languages c @ xs, cd_related_to := cd_related_to c @ rs, cd_members := cd_members c @ ms\<rparr>"
  using read_ok_entries [of language_ok xs language_in rd sp language_field 0 0] language_back
    map_idI [of rs "\<lambda>r. relation_in (wire_field rd sp (relation_field r))"] relation_back
  by (simp add: importLangsRelatedMembers_def finds_def entry_fields_def o_def list_all_iff)

lemma resources_read_one: "wire_ok rd sp \<Longrightarrow> list_all (resource_ok kind mt ix) xs \<Longrightarrow> finds rd sp vc P (entry_fields (resource_field mt ix) xs) \<Longrightarrow>
    importResourceInto vc P kind mt ix dst = dst @ xs"
  using read_ok_entries [of "resource_ok kind mt ix" xs "resource_in kind mt ix" rd sp "resource_field mt ix" 0 0] resource_back
  by (simp add: importResourceInto_def finds_def entry_fields_def)

lemma nicknames_read: "wire_ok rd sp \<Longrightarrow> list_all nickname_ok xs \<Longrightarrow> finds rd sp vc ''NICKNAME'' (entry_fields nickname_field xs) \<Longrightarrow>
    importNicknames vc c = c\<lparr>cd_nicknames := cd_nicknames c @ xs\<rparr>"
proof -
  assume w: "wire_ok rd sp" and ok: "list_all nickname_ok xs" and f: "finds rd sp vc ''NICKNAME'' (entry_fields nickname_field xs)"
  have "concat (map (\<lambda>f. map (Pair f) (filter (\<lambda>s. s \<noteq> []) (map trim_space (split_on CHR '','' (vf_value f)))))
      (map (wire_field rd sp) (map (\<lambda>(j, x). nickname_field j x) (enumerate m xs)))) =
      map (\<lambda>(j, x). (wire_field rd sp (nickname_field j x), nk_name x)) (enumerate m xs)" for m
    using ok by (induction xs arbitrary: m) (simp_all add: nickname_field_def nickname_ok_def one_piece)
  then have p: "nickname_pieces vc = map (\<lambda>(j, x). (wire_field rd sp (nickname_field j x), nk_name x)) (enumerate 0 xs)"
    using f by (simp add: nickname_pieces_def finds_def entry_fields_def)
  have "map (\<lambda>(i, f). nickname_in i f) (enumerate 0 (map (\<lambda>(j, x). (wire_field rd sp (nickname_field j x), nk_name x)) (enumerate 0 xs))) = xs"
  proof (rule enumerate_back)
    fix i j x assume "(j, x) \<in> set (enumerate 0 xs)"
    then have "nickname_ok x" using ok enumerate_mem by (fastforce simp: list_all_iff)
    then show "nickname_in i (wire_field rd sp (nickname_field j x), nk_name x) = x" by (rule nickname_back [OF w])
  qed
  then show ?thesis unfolding importNicknames_def p by (simp add: nickname_in_def split_def)
qed

lemma keywords_read: "list_all piece_ok ks \<Longrightarrow> finds rd sp vc ''CATEGORIES'' (if ks = [] then [] else [field (join_with '','' ks)]) \<Longrightarrow>
    importKeywords vc c = c\<lparr>cd_keywords := cd_keywords c @ ks\<rparr>"
  using pieces_of_join [of ks] by (cases "ks = []") (simp_all add: importKeywords_def finds_def)

lemma orgs_read: "wire_ok rd sp \<Longrightarrow> list_all org_ok xs \<Longrightarrow> finds rd sp vc ''ORG'' (map (org_field groups) xs) \<Longrightarrow>
    importOrganizations vc c = (c\<lparr>cd_organizations := cd_organizations c @ xs\<rparr>, group_ids vc)"
proof -
  assume w: "wire_ok rd sp" and ok: "list_all org_ok xs" and f: "finds rd sp vc ''ORG'' (map (org_field groups) xs)"
  have "map (\<lambda>(i, f). org_in i f) (enumerate n (map (wire_field rd sp) (map (org_field groups) xs))) = xs" for n
    using ok by (induction xs arbitrary: n) (simp_all add: org_back [OF w])
  then show ?thesis using f by (simp add: importOrganizations_def finds_def)
qed

lemma filter_enumerate: "list_all P zs \<Longrightarrow> filter (\<lambda>(i, x). P x) (enumerate k zs) = enumerate k zs"
  "list_all (\<lambda>x. \<not> P x) zs \<Longrightarrow> filter (\<lambda>(i, x). P x) (enumerate k zs) = []"
  by (induction zs arbitrary: k) auto

text \<open>The titles and the roles leave under two names and are counted on from the one to the other.\<close>

definition title_prop :: "title \<Rightarrow> string" where
  "title_prop t = (if ti_kind t = ''role'' then ''ROLE'' else ''TITLE'')"

definition title_fields :: "(string \<times> string) list \<Rightarrow> title list \<Rightarrow> string \<Rightarrow> vfield list" where
  "title_fields groups ts P = map (\<lambda>(i, t). title_field groups i t) (filter (\<lambda>(i, t). title_prop t = P) (enumerate 0 ts))"

lemma titles_read:
  assumes "wire_ok rd sp" and "list_all org_ok orgs" and "walk_result ts orgs [] out (n, groups, out')"
    and "finds rd sp vc ''ORG'' (map (org_field groups) orgs)" and "list_all (title_ok orgs) ts" and o: "titles_in_order ts"
    and f: "finds rd sp vc ''TITLE'' (title_fields groups ts ''TITLE'')" "finds rd sp vc ''ROLE'' (title_fields groups ts ''ROLE'')"
  shows "importTitles vc (group_ids vc) c = c\<lparr>cd_titles := cd_titles c @ ts\<rparr>"
proof -
  define as where a: "as = filter (\<lambda>t. ti_kind t = ''title'') ts"
  define bs where b: "bs = filter (\<lambda>t. ti_kind t = ''role'') ts"
  have ts: "ts = as @ bs" using o unfolding titles_in_order_def a b .
  have k: "list_all (\<lambda>t. ti_kind t = ''title'') as" "list_all (\<lambda>t. ti_kind t = ''role'') bs" by (simp_all add: a b list_all_iff)
  have kp: "list_all (\<lambda>t. title_prop t = ''TITLE'') as" "list_all (\<lambda>t. \<not> title_prop t = ''TITLE'') bs"
    "list_all (\<lambda>t. title_prop t = ''ROLE'') bs" "list_all (\<lambda>t. \<not> title_prop t = ''ROLE'') as"
    using k by (auto simp: list_all_iff title_prop_def)
  have sets: "title_fields groups ts ''TITLE'' = map (\<lambda>(i, t). title_field groups i t) (enumerate 0 as)"
    "title_fields groups ts ''ROLE'' = map (\<lambda>(i, t). title_field groups i t) (enumerate (length as) bs)"
    by (simp_all add: title_fields_def ts enumerate_append_eq filter_enumerate(1) [OF kp(1)] filter_enumerate(2) [OF kp(2)]
      filter_enumerate(1) [OF kp(3)] filter_enumerate(2) [OF kp(4)])
  have pair: "map (Pair kd) (map (wire_field rd sp) (map (\<lambda>(i, t). title_field groups i t) (enumerate m xs))) =
      map (\<lambda>(i, t). (ti_kind t, wire_field rd sp (title_field groups i t))) (enumerate m xs)" if "list_all (\<lambda>t. ti_kind t = kd) xs" for kd m xs
    using that by (induction xs arbitrary: m) auto
  have "map (\<lambda>(i, e). title_in (group_ids vc) i e) (enumerate 0 (map (\<lambda>(i, t). (ti_kind t, wire_field rd sp (title_field groups i t))) (enumerate 0 ts))) = ts"
  proof (rule enumerate_back)
    fix i j t assume "(j, t) \<in> set (enumerate 0 ts)"
    then have t: "t \<in> set ts" by (rule enumerate_mem)
    have "card_fields vc ''ORG'' = map (\<lambda>o1. wire_field rd sp (org_field groups o1)) orgs" using assms(4) by (simp add: finds_def o_def)
    then show "title_in (group_ids vc) i (ti_kind t, wire_field rd sp (title_field groups j t)) = t"
      using title_back [OF assms(1-3)] assms(5) t by (simp add: list_all_iff)
  qed
  moreover have "map (\<lambda>(i, t). (ti_kind t, wire_field rd sp (title_field groups i t))) (enumerate 0 as) @
      map (\<lambda>(i, t). (ti_kind t, wire_field rd sp (title_field groups i t))) (enumerate (length as) bs) =
      map (\<lambda>(i, t). (ti_kind t, wire_field rd sp (title_field groups i t))) (enumerate 0 ts)" by (simp add: ts enumerate_append_eq)
  ultimately show ?thesis unfolding importTitles_def f [unfolded finds_def sets] pair [OF k(1)] pair [OF k(2)] by (simp only:)
qed

text \<open>Personal information leaves under three names, one per kind, with the place of each entry in the whole list.\<close>

definition info_prop :: "personal_info \<Rightarrow> string option" where
  "info_prop x = map_of info_kinds (pi_kind x)"

definition info_fields :: "personal_info list \<Rightarrow> string \<Rightarrow> vfield list" where
  "info_fields xs P = map (\<lambda>(i, x). info_field i x) (filter (\<lambda>(i, x). info_prop x = Some P) (enumerate 0 xs))"

lemma infos_read:
  assumes w: "wire_ok rd sp" and ok: "infos_ok xs"
    and f: "\<And>P. P \<in> set (map snd info_kinds) \<Longrightarrow> finds rd sp vc P (info_fields xs P)"
  shows "importPersonalInfo vc c = c\<lparr>cd_personal_info := cd_personal_info c @ xs\<rparr>"
proof -
  define es where es: "es = filter (\<lambda>x. pi_kind x = ''expertise'') xs"
  define hs where hs: "hs = filter (\<lambda>x. pi_kind x = ''hobby'') xs"
  define js where js: "js = filter (\<lambda>x. pi_kind x = ''interest'') xs"
  have xs: "xs = es @ hs @ js" using ok unfolding infos_ok_def es hs js by (simp add: info_kinds_def)
  have kinds: "list_all (\<lambda>x. pi_kind x = ''expertise'') es" "list_all (\<lambda>x. pi_kind x = ''hobby'') hs" "list_all (\<lambda>x. pi_kind x = ''interest'') js"
    by (simp_all add: es hs js list_all_iff)
  have ip: "list_all (\<lambda>x. info_prop x = Some ''EXPERTISE'') es" "list_all (\<lambda>x. \<not> info_prop x = Some ''HOBBY'') es"
    "list_all (\<lambda>x. \<not> info_prop x = Some ''INTEREST'') es" "list_all (\<lambda>x. \<not> info_prop x = Some ''EXPERTISE'') hs"
    "list_all (\<lambda>x. info_prop x = Some ''HOBBY'') hs" "list_all (\<lambda>x. \<not> info_prop x = Some ''INTEREST'') hs"
    "list_all (\<lambda>x. \<not> info_prop x = Some ''EXPERTISE'') js" "list_all (\<lambda>x. \<not> info_prop x = Some ''HOBBY'') js"
    "list_all (\<lambda>x. info_prop x = Some ''INTEREST'') js"
    using kinds by (auto simp: list_all_iff info_prop_def info_kinds_def)
  have sets: "info_fields xs ''EXPERTISE'' = map (\<lambda>(i, x). info_field i x) (enumerate 0 es)"
    "info_fields xs ''HOBBY'' = map (\<lambda>(i, x). info_field i x) (enumerate (length es) hs)"
    "info_fields xs ''INTEREST'' = map (\<lambda>(i, x). info_field i x) (enumerate (length es + length hs) js)"
    by (simp_all add: info_fields_def xs enumerate_append_eq ip(1,5,9) [THEN filter_enumerate(1)] ip(2-4,6-8) [THEN filter_enumerate(2)])
  have pair: "map (Pair kd) (map (wire_field rd sp) (map (\<lambda>(i, x). info_field i x) (enumerate m ys))) =
      map (\<lambda>(i, x). (pi_kind x, wire_field rd sp (info_field i x))) (enumerate m ys)" if "list_all (\<lambda>x. pi_kind x = kd) ys" for kd m ys
    using that by (induction ys arbitrary: m) auto
  have cards: "card_fields vc ''EXPERTISE'' = map (wire_field rd sp) (map (\<lambda>(i, x). info_field i x) (enumerate 0 es))"
    "card_fields vc ''HOBBY'' = map (wire_field rd sp) (map (\<lambda>(i, x). info_field i x) (enumerate (length es) hs))"
    "card_fields vc ''INTEREST'' = map (wire_field rd sp) (map (\<lambda>(i, x). info_field i x) (enumerate (length es + length hs) js))"
    using f by (simp_all only: info_kinds_def finds_def sets [symmetric] list.map list.set snd_conv insertI1 insertI2)
  have all: "concat (map (\<lambda>(kind, p). map (Pair kind) (card_fields vc p)) info_kinds) =
      map (\<lambda>(i, x). (pi_kind x, wire_field rd sp (info_field i x))) (enumerate 0 xs)"
    unfolding info_kinds_def list.map prod.case cards pair [OF kinds(1)] pair [OF kinds(2)] pair [OF kinds(3)]
    by (simp add: xs enumerate_append_eq)
  have "map (\<lambda>(i, e). info_in i e) (enumerate 0 (map (\<lambda>(i, x). (pi_kind x, wire_field rd sp (info_field i x))) (enumerate 0 xs))) = xs"
  proof (rule enumerate_back)
    fix i j x assume "(j, x) \<in> set (enumerate 0 xs)"
    then have "x \<in> set xs" by (rule enumerate_mem)
    then show "info_in i (pi_kind x, wire_field rd sp (info_field j x)) = x" using info_back [OF w] ok by (simp add: infos_ok_def list_all_iff)
  qed
  then show ?thesis by (simp add: importPersonalInfo_def all)
qed

end
