(* ===== verification/VCard3Trip.thy ===== *)
theory VCard3Trip imports VCard3Groups VCard4Card begin

text \<open>
  A card on its way through version 3.0 and back. The fields under each name of an export are counted off, the import reads
  them, and the result is the card with what version 3.0 has no place for left out.
\<close>

section \<open>Services and addresses of an export\<close>

definition needs_group :: "online_service \<Rightarrow> bool" where
  "needs_group s \<longleftrightarrow> os_service s \<noteq> [] \<or> os_user s \<noteq> []"

definition address_needs_group :: "address \<Rightarrow> bool" where
  "address_needs_group a \<longleftrightarrow> ad_full a \<noteq> [] \<or> geo3 a \<noteq> None \<or> ad_time_zone a \<noteq> []"

definition with_uri :: "online_service list \<Rightarrow> online_service list" where
  "with_uri ss = filter (\<lambda>s. os_uri s \<noteq> []) ss"

definition written_addresses :: "address list \<Rightarrow> address list" where
  "written_addresses as = filter (\<lambda>a. \<not> skipped_address a) as"

definition service_entry :: "string \<Rightarrow> string \<Rightarrow> string \<times> online_service \<Rightarrow> vcard" where
  "service_entry p concept = (\<lambda>(g, s). (p, in_group g (service_field s concept)) # service_companions g s)"

definition address_entry :: "string \<times> address \<Rightarrow> vcard" where
  "address_entry = (\<lambda>(g, a). (''ADR'', in_group g (newTypedField (assembleAdr3 (adr3_of (ad_components a))) (adr_tokens3 a))) # adr_companions g a)"

lemma no_group [simp]: "in_group [] (newTypedField v toks) = newTypedField v toks" "in_group [] (service_field s k) = service_field s k"
  by (simp_all add: in_group_def newTypedField_def service_field_def)

lemma impp_entries: "exportImpp3 n ss = (last_number needs_group n (with_uri ss), concat (map (service_entry ''IMPP'' ''impp'') (numbered needs_group n (with_uri ss))))"
proof (induction ss arbitrary: n)
  case (Cons s ss)
  show ?case using Cons [of n] Cons [of "n + 1"]
    by (auto simp: with_uri_def last_number_def needs_group_def service_entry_def service_companions_def Let_def)
qed (simp add: with_uri_def last_number_def)

lemma social_entries: "exportSocial3 n ss =
    (last_number (\<lambda>_. True) n (with_uri ss), concat (map (service_entry ''X-SOCIALPROFILE'' ''social'') (numbered (\<lambda>_. True) n (with_uri ss))))"
proof (induction ss arbitrary: n)
  case (Cons s ss)
  show ?case using Cons [of n] Cons [of "n + 1"] by (auto simp: with_uri_def last_number_def service_entry_def Let_def)
qed (simp add: with_uri_def last_number_def)

lemma address_entries: "exportAddresses3 n as =
    (last_number address_needs_group n (written_addresses as), concat (map address_entry (numbered address_needs_group n (written_addresses as))))"
proof (induction as arbitrary: n)
  case (Cons a as)
  show ?case using Cons [of n] Cons [of "n + 1"]
    by (auto simp: written_addresses_def last_number_def address_needs_group_def address_entry_def adr_companions_def Let_def)
qed (simp add: written_addresses_def last_number_def)

text \<open>The numbered services and addresses of a card.\<close>

definition impp_numbers :: "card \<Rightarrow> (string \<times> online_service) list" where
  "impp_numbers c = numbered needs_group 0 (with_uri (cd_impp c))"

definition social_start :: "card \<Rightarrow> nat" where
  "social_start c = last_number needs_group 0 (with_uri (cd_impp c))"

definition social_numbers :: "card \<Rightarrow> (string \<times> online_service) list" where
  "social_numbers c = numbered (\<lambda>_. True) (social_start c) (with_uri (cd_social c))"

definition address_numbers :: "card \<Rightarrow> (string \<times> address) list" where
  "address_numbers c = numbered address_needs_group (last_number (\<lambda>_. True) (social_start c) (with_uri (cd_social c))) (written_addresses (cd_addresses c))"

definition service_type_field :: "string \<Rightarrow> online_service \<Rightarrow> vfield option" where
  "service_type_field g s = (if os_service s = [] then None else Some (in_group g (field (os_service s))))"

definition user_field :: "string \<Rightarrow> online_service \<Rightarrow> vfield option" where
  "user_field g s = (if os_user s = [] then None else Some (in_group g (field (os_user s))))"

definition label_field :: "string \<Rightarrow> address \<Rightarrow> vfield option" where
  "label_field g a = (if ad_full a = [] then None else Some (in_group g (newTypedField (ad_full a) (adr_tokens3 a))))"

definition geo_field :: "string \<Rightarrow> address \<Rightarrow> vfield option" where
  "geo_field g a = map_option (\<lambda>v. in_group g (field v)) (geo3 a)"

definition zone_field :: "string \<Rightarrow> address \<Rightarrow> vfield option" where
  "zone_field g a = (if ad_time_zone a = [] then None else Some (in_group g (field (ad_time_zone a))))"

lemma fields_of_concat: "card_fields (concat (map e xs)) p = concat (map (\<lambda>x. card_fields (e x) p) xs)"
  by (induction xs) simp_all

lemma concat_optional: "concat (map (\<lambda>x. case h x of None \<Rightarrow> [] | Some f \<Rightarrow> [f]) xs) = List.map_filter h xs"
  by (induction xs) (auto simp: List.map_filter_simps split: option.splits)

lemma service_one:
  "''X-SERVICE-TYPE'' \<noteq> p \<Longrightarrow> ''X-USERNAME'' \<noteq> p \<Longrightarrow> card_fields (service_entry p k x) p = [in_group (fst x) (service_field (snd x) k)]"
  "p \<noteq> ''X-SERVICE-TYPE'' \<Longrightarrow> card_fields (service_entry p k x) ''X-SERVICE-TYPE'' = (case (case x of (g, s) \<Rightarrow> service_type_field g s) of None \<Rightarrow> [] | Some f \<Rightarrow> [f])"
  "p \<noteq> ''X-USERNAME'' \<Longrightarrow> card_fields (service_entry p k x) ''X-USERNAME'' = (case (case x of (g, s) \<Rightarrow> user_field g s) of None \<Rightarrow> [] | Some f \<Rightarrow> [f])"
  "p \<noteq> q \<Longrightarrow> ''X-SERVICE-TYPE'' \<noteq> q \<Longrightarrow> ''X-USERNAME'' \<noteq> q \<Longrightarrow> card_fields (service_entry p k x) q = []"
  by (cases x, simp add: service_entry_def service_companions_def service_type_field_def user_field_def)+

lemma service_fields:
  "''X-SERVICE-TYPE'' \<noteq> p \<Longrightarrow> ''X-USERNAME'' \<noteq> p \<Longrightarrow>
    card_fields (concat (map (service_entry p k) L)) p = map (\<lambda>x. in_group (fst x) (service_field (snd x) k)) L"
  "p \<noteq> ''X-SERVICE-TYPE'' \<Longrightarrow> card_fields (concat (map (service_entry p k) L)) ''X-SERVICE-TYPE'' = List.map_filter (\<lambda>(g, s). service_type_field g s) L"
  "p \<noteq> ''X-USERNAME'' \<Longrightarrow> card_fields (concat (map (service_entry p k) L)) ''X-USERNAME'' = List.map_filter (\<lambda>(g, s). user_field g s) L"
  "p \<noteq> q \<Longrightarrow> ''X-SERVICE-TYPE'' \<noteq> q \<Longrightarrow> ''X-USERNAME'' \<noteq> q \<Longrightarrow> card_fields (concat (map (service_entry p k) L)) q = []"
proof -
  show "''X-SERVICE-TYPE'' \<noteq> p \<Longrightarrow> ''X-USERNAME'' \<noteq> p \<Longrightarrow>
      card_fields (concat (map (service_entry p k) L)) p = map (\<lambda>x. in_group (fst x) (service_field (snd x) k)) L"
    by (induction L) (simp_all add: service_one(1))
  show "p \<noteq> q \<Longrightarrow> ''X-SERVICE-TYPE'' \<noteq> q \<Longrightarrow> ''X-USERNAME'' \<noteq> q \<Longrightarrow> card_fields (concat (map (service_entry p k) L)) q = []"
    by (induction L) (simp_all add: service_one(4))
qed (unfold fields_of_concat, simp_all only: service_one(2,3) not_False_eq_True concat_optional)

lemma address_one:
  "card_fields (address_entry x) ''ADR'' = [in_group (fst x) (newTypedField (assembleAdr3 (adr3_of (ad_components (snd x)))) (adr_tokens3 (snd x)))]"
  "card_fields (address_entry x) ''LABEL'' = (case (case x of (g, a) \<Rightarrow> label_field g a) of None \<Rightarrow> [] | Some f \<Rightarrow> [f])"
  "card_fields (address_entry x) ''GEO'' = (case (case x of (g, a) \<Rightarrow> geo_field g a) of None \<Rightarrow> [] | Some f \<Rightarrow> [f])"
  "card_fields (address_entry x) ''TZ'' = (case (case x of (g, a) \<Rightarrow> zone_field g a) of None \<Rightarrow> [] | Some f \<Rightarrow> [f])"
  "''ADR'' \<noteq> q \<Longrightarrow> ''LABEL'' \<noteq> q \<Longrightarrow> ''GEO'' \<noteq> q \<Longrightarrow> ''TZ'' \<noteq> q \<Longrightarrow> card_fields (address_entry x) q = []"
  by (cases x, cases "geo3 (snd x)", simp_all add: address_entry_def adr_companions_def label_field_def geo_field_def zone_field_def)+

lemma address_fields:
  "card_fields (concat (map address_entry L)) ''ADR'' =
    map (\<lambda>x. in_group (fst x) (newTypedField (assembleAdr3 (adr3_of (ad_components (snd x)))) (adr_tokens3 (snd x)))) L"
  "card_fields (concat (map address_entry L)) ''LABEL'' = List.map_filter (\<lambda>(g, a). label_field g a) L"
  "card_fields (concat (map address_entry L)) ''GEO'' = List.map_filter (\<lambda>(g, a). geo_field g a) L"
  "card_fields (concat (map address_entry L)) ''TZ'' = List.map_filter (\<lambda>(g, a). zone_field g a) L"
  "''ADR'' \<noteq> q \<Longrightarrow> ''LABEL'' \<noteq> q \<Longrightarrow> ''GEO'' \<noteq> q \<Longrightarrow> ''TZ'' \<noteq> q \<Longrightarrow> card_fields (concat (map address_entry L)) q = []"
proof -
  show "card_fields (concat (map address_entry L)) ''ADR'' =
      map (\<lambda>x. in_group (fst x) (newTypedField (assembleAdr3 (adr3_of (ad_components (snd x)))) (adr_tokens3 (snd x)))) L"
    by (induction L) (simp_all add: address_one(1))
  show "''ADR'' \<noteq> q \<Longrightarrow> ''LABEL'' \<noteq> q \<Longrightarrow> ''GEO'' \<noteq> q \<Longrightarrow> ''TZ'' \<noteq> q \<Longrightarrow> card_fields (concat (map address_entry L)) q = []"
    by (induction L) (simp_all add: address_one(5))
qed (unfold fields_of_concat, simp_all only: address_one(2-4) concat_optional)

lemma companions: "companion_of service_type_field os_service" "companion_of user_field os_user" "companion_of label_field ad_full"
  "companion_of zone_field ad_time_zone"
  by (simp_all add: companion_of_def service_type_field_def user_field_def label_field_def zone_field_def)

section \<open>The fields of an export\<close>

lemma step_fields:
  assumes "\<And>x p f. g x = Some (p, f) \<Longrightarrow> p = q"
  shows "card_fields (List.map_filter g xs) q = List.map_filter (\<lambda>x. map_option snd (g x)) xs"
    "q \<noteq> p' \<Longrightarrow> card_fields (List.map_filter g xs) p' = []"
  using assms by (induction xs) (auto simp: List.map_filter_simps split: option.splits)

lemma two_step_fields:
  "card_fields (List.map_filter g xs) q = List.map_filter (\<lambda>x. case g x of None \<Rightarrow> None | Some (p, f) \<Rightarrow> if p = q then Some f else None) xs"
  by (induction xs) (auto simp: List.map_filter_simps split: option.splits)

lemma nickname_names: "nickname3 x = Some (p, f) \<Longrightarrow> p = ''NICKNAME''" by (simp add: nickname3_def split: if_splits)
lemma organization_names: "organization3 x = Some (p, f) \<Longrightarrow> p = ''ORG''" by (simp add: organization3_def split: if_splits)
lemma email_names: "email3 x = Some (p, f) \<Longrightarrow> p = ''EMAIL''" by (simp add: email3_def split: if_splits)
lemma phone_names: "phone3 x = Some (p, f) \<Longrightarrow> p = ''TEL''" by (simp add: phone3_def split: if_splits)
lemma note_names: "note3 x = Some (p, f) \<Longrightarrow> p = ''NOTE''" by (simp add: note3_def split: if_splits)
lemma uri_names: "uri3 q x = Some (p, f) \<Longrightarrow> p = q" by (simp add: uri3_def split: if_splits)
lemma key_names: "key3 x = Some (p, f) \<Longrightarrow> p = ''KEY''" by (simp add: key3_def split: if_splits)
lemma entry_names: "entry3 x = Some (p, f) \<Longrightarrow> p = ''SOURCE''" by (simp add: entry3_def split: if_splits)
lemma link_names: "link3 x = Some (p, f) \<Longrightarrow> p = ''URL''" by (simp add: link3_def split: if_splits)
lemma agent_names: "agent3 x = Some (p, f) \<Longrightarrow> p = ''AGENT''" by (simp add: agent3_def split: if_splits)

text \<open>Every step writes under its own names only.\<close>

lemmas own_fields = nickname_names [THEN step_fields(1)] organization_names [THEN step_fields(1)] email_names [THEN step_fields(1)]
  phone_names [THEN step_fields(1)] note_names [THEN step_fields(1)] uri_names [THEN step_fields(1)] key_names [THEN step_fields(1)]
  entry_names [THEN step_fields(1)] link_names [THEN step_fields(1)] agent_names [THEN step_fields(1)]

lemmas other_fields = nickname_names [THEN step_fields(2)] organization_names [THEN step_fields(2)] email_names [THEN step_fields(2)]
  phone_names [THEN step_fields(2)] note_names [THEN step_fields(2)] uri_names [THEN step_fields(2)] key_names [THEN step_fields(2)]
  entry_names [THEN step_fields(2)] link_names [THEN step_fields(2)] agent_names [THEN step_fields(2)]

lemma title_fields3:
  "card_fields (List.map_filter title3 ts) ''TITLE'' = List.map_filter (\<lambda>t. if ti_name t \<noteq> [] \<and> ti_kind t = ''title'' then Some (field (ti_name t)) else None) ts"
  "card_fields (List.map_filter title3 ts) ''ROLE'' = List.map_filter (\<lambda>t. if ti_name t \<noteq> [] \<and> ti_kind t = ''role'' then Some (field (ti_name t)) else None) ts"
  "''TITLE'' \<noteq> q \<Longrightarrow> ''ROLE'' \<noteq> q \<Longrightarrow> card_fields (List.map_filter title3 ts) q = []"
  by (induction ts) (auto simp: List.map_filter_simps title3_def)

lemma media_fields3:
  "card_fields (List.map_filter media3 rs) ''PHOTO'' =
    List.map_filter (\<lambda>r. if rs_uri r \<noteq> [] \<and> rs_kind r = ''photo'' then Some (exportMediaField (rs_uri r) (rs_media_type r)) else None) rs"
  "card_fields (List.map_filter media3 rs) ''LOGO'' =
    List.map_filter (\<lambda>r. if rs_uri r \<noteq> [] \<and> rs_kind r = ''logo'' then Some (exportMediaField (rs_uri r) (rs_media_type r)) else None) rs"
  "card_fields (List.map_filter media3 rs) ''SOUND'' =
    List.map_filter (\<lambda>r. if rs_uri r \<noteq> [] \<and> rs_kind r = ''sound'' then Some (exportMediaField (rs_uri r) (rs_media_type r)) else None) rs"
  "''PHOTO'' \<noteq> q \<Longrightarrow> ''LOGO'' \<noteq> q \<Longrightarrow> ''SOUND'' \<noteq> q \<Longrightarrow> card_fields (List.map_filter media3 rs) q = []"
  by (induction rs) (auto simp: List.map_filter_simps media3_def media_props3_def)

lemma identity_fields:
  "card_fields (fst (exportIdentity3 c)) ''UID'' = (if cd_uid c \<noteq> [] then [field (cd_uid c)] else [])"
  "card_fields (fst (exportIdentity3 c)) ''PRODID'' = (if cd_prod_id c \<noteq> [] then [field (cd_prod_id c)] else [])"
  "card_fields (fst (exportIdentity3 c)) ''REV'' =
    (case cd_updated c of None \<Rightarrow> [] | Some t \<Rightarrow> if ts_utc t \<noteq> [] then [field (tsToV3 (ts_utc t))] else [])"
  "''VERSION'' \<noteq> q \<Longrightarrow> ''UID'' \<noteq> q \<Longrightarrow> ''PRODID'' \<noteq> q \<Longrightarrow> ''REV'' \<noteq> q \<Longrightarrow> card_fields (fst (exportIdentity3 c)) q = []"
  by (simp_all add: exportIdentity3_def split: option.split)

lemma name_fields3:
  "card_fields (fst (exportName3 name)) ''FN'' = [field (case name of None \<Rightarrow> [] | Some n \<Rightarrow> kept_full n)]"
  "card_fields (fst (exportName3 name)) ''N'' = (case name of None \<Rightarrow> []
     | Some n \<Rightarrow> if kept_name_parts (nm_components n) = [] then [] else [field (assembleN3 (n3_of (nm_components n)))])"
  "''FN'' \<noteq> q \<Longrightarrow> ''N'' \<noteq> q \<Longrightarrow> card_fields (fst (exportName3 name)) q = []"
proof -
  have "deriveFN (n3_of []) = []" "n3_empty (n3_of [])" by code_simp+
  then show "card_fields (fst (exportName3 name)) ''FN'' = [field (case name of None \<Rightarrow> [] | Some n \<Rightarrow> kept_full n)]"
    "card_fields (fst (exportName3 name)) ''N'' = (case name of None \<Rightarrow> []
       | Some n \<Rightarrow> if kept_name_parts (nm_components n) = [] then [] else [field (assembleN3 (n3_of (nm_components n)))])"
    by (simp_all add: exportName3_def kept_full_def no_name_parts Let_def split: option.split)
qed (simp add: exportName3_def Let_def)

lemma keyword_fields:
  "card_fields (exportKeywords3 c) ''CATEGORIES'' =
    (if filter (\<lambda>k. k \<noteq> []) (cd_keywords c) = [] then [] else [field (join_with '','' (filter (\<lambda>k. k \<noteq> []) (cd_keywords c)))])"
  "''CATEGORIES'' \<noteq> q \<Longrightarrow> card_fields (exportKeywords3 c) q = []"
  by (simp_all add: exportKeywords3_def Let_def)

text \<open>The dates: one birthday, the last of the births that have a date, and all weddings.\<close>

definition with_date :: "string \<Rightarrow> anniversary list \<Rightarrow> anniversary list" where
  "with_date k as = filter (\<lambda>a. an_kind a = k \<and> formatDatePartial (an_date a) \<noteq> []) as"

definition last_one :: "'a list \<Rightarrow> 'a list" where
  "last_one xs = (if xs = [] then [] else [last xs])"

lemma anniversary_step:
  assumes "exportAnniversary3 a (vc, ds) = (vc', ds')"
  shows "card_fields vc' ''BDAY'' = (if with_date ''birth'' [a] = [] then card_fields vc ''BDAY'' else [field (formatDatePartial (an_date a))])"
    "card_fields vc' ''X-ANNIVERSARY'' = card_fields vc ''X-ANNIVERSARY'' @ map (\<lambda>a. field (formatDatePartial (an_date a))) (with_date ''wedding'' [a])"
    "''BDAY'' \<noteq> q \<Longrightarrow> ''X-ANNIVERSARY'' \<noteq> q \<Longrightarrow> card_fields vc' q = card_fields vc q"
  using assms by (auto simp: exportAnniversary3_def with_date_def Let_def split: if_splits)

lemma with_date_Cons: "with_date k (a # as) = with_date k [a] @ with_date k as" "with_date k [a] = [] \<or> with_date k [a] = [a]"
  by (simp_all add: with_date_def)

lemma anniversary_steps:
  "card_fields (fst (fold exportAnniversary3 as (vc, ds))) ''BDAY'' =
    (if with_date ''birth'' as = [] then card_fields vc ''BDAY'' else [field (formatDatePartial (an_date (last (with_date ''birth'' as))))]) \<and>
   card_fields (fst (fold exportAnniversary3 as (vc, ds))) ''X-ANNIVERSARY'' =
    card_fields vc ''X-ANNIVERSARY'' @ map (\<lambda>a. field (formatDatePartial (an_date a))) (with_date ''wedding'' as) \<and>
   (''BDAY'' \<noteq> q \<longrightarrow> ''X-ANNIVERSARY'' \<noteq> q \<longrightarrow> card_fields (fst (fold exportAnniversary3 as (vc, ds))) q = card_fields vc q)"
proof (induction as arbitrary: vc ds)
  case (Cons a as)
  obtain vc' ds' where s: "exportAnniversary3 a (vc, ds) = (vc', ds')" by fastforce
  have f: "fold exportAnniversary3 (a # as) (vc, ds) = fold exportAnniversary3 as (vc', ds')" by (simp add: s)
  show ?case using with_date_Cons(2) [of "''birth''" a]
    unfolding f with_date_Cons(1) [of _ a as] using anniversary_step [OF s] Cons.IH [of vc' ds'] by (elim disjE) simp_all
qed (simp_all add: with_date_def)

section \<open>The whole export\<close>

lemma early_split: "card_fields (early_fields3 c) q = card_fields (fst (exportIdentity3 c)) q @ card_fields (fst (exportName3 (cd_name c))) q @
    card_fields (List.map_filter nickname3 (cd_nicknames c)) q @ card_fields (List.map_filter organization3 (cd_organizations c)) q @
    card_fields (List.map_filter title3 (cd_titles c)) q @ card_fields (List.map_filter email3 (cd_emails c)) q @
    card_fields (List.map_filter phone3 (cd_phones c)) q @ card_fields (concat (map (service_entry ''IMPP'' ''impp'') (impp_numbers c))) q @
    card_fields (concat (map (service_entry ''X-SOCIALPROFILE'' ''social'') (social_numbers c))) q @
    card_fields (concat (map address_entry (address_numbers c))) q"
  by (simp add: early_fields3_def impp_entries social_entries address_entries impp_numbers_def social_numbers_def address_numbers_def social_start_def)

lemma late_split: "card_fields (late_fields3 c) q = card_fields (List.map_filter note3 (cd_notes c)) q @ card_fields (exportKeywords3 c) q @
    card_fields (List.map_filter media3 (cd_media c)) q @ card_fields (List.map_filter (uri3 ''CALURI'') (cd_calendars c)) q @
    card_fields (List.map_filter (uri3 ''FBURL'') (cd_free_busy c)) q @ card_fields (List.map_filter (uri3 ''CALADRURI'') (cd_scheduling c)) q @
    card_fields (List.map_filter key3 (cd_crypto_keys c)) q @ card_fields (List.map_filter entry3 (cd_directories c)) q @
    card_fields (List.map_filter link3 (cd_links c)) q @ card_fields (List.map_filter agent3 (cd_related_to c)) q"
  by (simp add: late_fields3_def)

lemma passthrough_other: "q \<in> set knownPropNames \<Longrightarrow> card_fields (exportPassthrough3 pt) q = []"
proof -
  assume q: "q \<in> set knownPropNames"
  have name: "fst (jCardPropToField p) = to_upper (jc_name p)" for p by (simp add: jCardPropToField_def Let_def)
  have "card_fields (map jCardPropToField (filter (\<lambda>p. to_upper (jc_name p) \<notin> set knownPropNames) ps)) q = []" for ps
    using q by (induction ps) (auto simp: name)
  then show ?thesis by (simp add: exportPassthrough3_def)
qed

text \<open>What stands under each name, in the order of the import.\<close>

lemma export_fields3:
  assumes "q \<in> set knownPropNames"
  shows "''BDAY'' \<noteq> q \<Longrightarrow> ''X-ANNIVERSARY'' \<noteq> q \<Longrightarrow>
      card_fields (fst (export_card3 ptrs r)) q = card_fields (early_fields3 (rc_card r)) q @ card_fields (late_fields3 (rc_card r)) q"
    "card_fields (fst (export_card3 ptrs r)) ''BDAY'' = (if with_date ''birth'' (cd_anniversaries (rc_card r)) = [] then []
      else [field (formatDatePartial (an_date (last (with_date ''birth'' (cd_anniversaries (rc_card r))))))])"
    "card_fields (fst (export_card3 ptrs r)) ''X-ANNIVERSARY'' =
      map (\<lambda>a. field (formatDatePartial (an_date a))) (with_date ''wedding'' (cd_anniversaries (rc_card r)))"
proof -
  have e: "card_fields (fst (export_card3 ptrs r)) p =
      card_fields (fst (fold exportAnniversary3 (cd_anniversaries (rc_card r)) (early_fields3 (rc_card r), early_diags3 (rc_card r)))) p @
      card_fields (late_fields3 (rc_card r)) p @ card_fields (exportPassthrough3 (rc_passthrough r)) p" for p
    by (simp add: export_card3_def Let_def split: prod.split)
  have known: "''BDAY'' \<in> set knownPropNames" "''X-ANNIVERSARY'' \<in> set knownPropNames" by (simp_all add: knownPropNames_def)
  have bday: "card_fields (early_fields3 (rc_card r)) ''BDAY'' = []" "card_fields (late_fields3 (rc_card r)) ''BDAY'' = []"
    and ann: "card_fields (early_fields3 (rc_card r)) ''X-ANNIVERSARY'' = []" "card_fields (late_fields3 (rc_card r)) ''X-ANNIVERSARY'' = []"
    by (simp_all add: early_split late_split other_fields title_fields3 media_fields3 identity_fields name_fields3 keyword_fields
        service_fields address_fields)
  show "''BDAY'' \<noteq> q \<Longrightarrow> ''X-ANNIVERSARY'' \<noteq> q \<Longrightarrow>
      card_fields (fst (export_card3 ptrs r)) q = card_fields (early_fields3 (rc_card r)) q @ card_fields (late_fields3 (rc_card r)) q"
    using e [of q] anniversary_steps passthrough_other [OF assms] by simp
  show "card_fields (fst (export_card3 ptrs r)) ''BDAY'' = (if with_date ''birth'' (cd_anniversaries (rc_card r)) = [] then []
      else [field (formatDatePartial (an_date (last (with_date ''birth'' (cd_anniversaries (rc_card r))))))])"
    using e [of "''BDAY''"] anniversary_steps passthrough_other [OF known(1)] bday by simp
  show "card_fields (fst (export_card3 ptrs r)) ''X-ANNIVERSARY'' =
      map (\<lambda>a. field (formatDatePartial (an_date a))) (with_date ''wedding'' (cd_anniversaries (rc_card r)))"
    using e [of "''X-ANNIVERSARY''"] anniversary_steps passthrough_other [OF known(2)] ann by simp
qed

lemmas counted_off = early_split late_split own_fields other_fields title_fields3 media_fields3 identity_fields name_fields3 keyword_fields
  service_fields address_fields

definition exported :: "string list \<Rightarrow> contact_record \<Rightarrow> string \<Rightarrow> vfield list" where
  "exported ptrs r q = card_fields (fst (export_card3 ptrs r)) q"

lemma exported_known: "q \<in> set knownPropNames \<Longrightarrow> ''BDAY'' \<noteq> q \<Longrightarrow> ''X-ANNIVERSARY'' \<noteq> q \<Longrightarrow>
    exported ptrs r q = card_fields (early_fields3 (rc_card r)) q @ card_fields (late_fields3 (rc_card r)) q"
  unfolding exported_def by (rule export_fields3(1))

lemma exported_scalars:
  "exported ptrs r ''UID'' = (if cd_uid (rc_card r) \<noteq> [] then [field (cd_uid (rc_card r))] else [])"
  "exported ptrs r ''PRODID'' = (if cd_prod_id (rc_card r) \<noteq> [] then [field (cd_prod_id (rc_card r))] else [])"
  "exported ptrs r ''REV'' = (case cd_updated (rc_card r) of None \<Rightarrow> [] | Some t \<Rightarrow> if ts_utc t \<noteq> [] then [field (tsToV3 (ts_utc t))] else [])"
  "exported ptrs r ''FN'' = [field (case cd_name (rc_card r) of None \<Rightarrow> [] | Some n \<Rightarrow> kept_full n)]"
  "exported ptrs r ''N'' = (case cd_name (rc_card r) of None \<Rightarrow> []
     | Some n \<Rightarrow> if kept_name_parts (nm_components n) = [] then [] else [field (assembleN3 (n3_of (nm_components n)))])"
  "exported ptrs r ''CATEGORIES'' = (if filter (\<lambda>k. k \<noteq> []) (cd_keywords (rc_card r)) = [] then []
     else [field (join_with '','' (filter (\<lambda>k. k \<noteq> []) (cd_keywords (rc_card r))))])"
  by (simp_all add: exported_known knownPropNames_def counted_off split: option.split)

lemma exported_entries:
  "exported ptrs r ''NICKNAME'' = List.map_filter (\<lambda>x. map_option snd (nickname3 x)) (cd_nicknames (rc_card r))"
  "exported ptrs r ''ORG'' = List.map_filter (\<lambda>x. map_option snd (organization3 x)) (cd_organizations (rc_card r))"
  "exported ptrs r ''TITLE'' = List.map_filter (\<lambda>t. if ti_name t \<noteq> [] \<and> ti_kind t = ''title'' then Some (field (ti_name t)) else None) (cd_titles (rc_card r))"
  "exported ptrs r ''ROLE'' = List.map_filter (\<lambda>t. if ti_name t \<noteq> [] \<and> ti_kind t = ''role'' then Some (field (ti_name t)) else None) (cd_titles (rc_card r))"
  "exported ptrs r ''EMAIL'' = List.map_filter (\<lambda>x. map_option snd (email3 x)) (cd_emails (rc_card r))"
  "exported ptrs r ''TEL'' = List.map_filter (\<lambda>x. map_option snd (phone3 x)) (cd_phones (rc_card r))"
  "exported ptrs r ''NOTE'' = List.map_filter (\<lambda>x. map_option snd (note3 x)) (cd_notes (rc_card r))"
  "exported ptrs r ''CALURI'' = List.map_filter (\<lambda>x. map_option snd (uri3 ''CALURI'' x)) (cd_calendars (rc_card r))"
  "exported ptrs r ''FBURL'' = List.map_filter (\<lambda>x. map_option snd (uri3 ''FBURL'' x)) (cd_free_busy (rc_card r))"
  "exported ptrs r ''CALADRURI'' = List.map_filter (\<lambda>x. map_option snd (uri3 ''CALADRURI'' x)) (cd_scheduling (rc_card r))"
  "exported ptrs r ''KEY'' = List.map_filter (\<lambda>x. map_option snd (key3 x)) (cd_crypto_keys (rc_card r))"
  "exported ptrs r ''SOURCE'' = List.map_filter (\<lambda>x. map_option snd (entry3 x)) (cd_directories (rc_card r))"
  "exported ptrs r ''URL'' = List.map_filter (\<lambda>x. map_option snd (link3 x)) (cd_links (rc_card r))"
  "exported ptrs r ''AGENT'' = List.map_filter (\<lambda>x. map_option snd (agent3 x)) (cd_related_to (rc_card r))"
  by (simp_all add: exported_known knownPropNames_def counted_off)

lemma exported_media:
  "exported ptrs r ''PHOTO'' =
    List.map_filter (\<lambda>m. if rs_uri m \<noteq> [] \<and> rs_kind m = ''photo'' then Some (exportMediaField (rs_uri m) (rs_media_type m)) else None) (cd_media (rc_card r))"
  "exported ptrs r ''LOGO'' =
    List.map_filter (\<lambda>m. if rs_uri m \<noteq> [] \<and> rs_kind m = ''logo'' then Some (exportMediaField (rs_uri m) (rs_media_type m)) else None) (cd_media (rc_card r))"
  "exported ptrs r ''SOUND'' =
    List.map_filter (\<lambda>m. if rs_uri m \<noteq> [] \<and> rs_kind m = ''sound'' then Some (exportMediaField (rs_uri m) (rs_media_type m)) else None) (cd_media (rc_card r))"
  by (simp_all add: exported_known knownPropNames_def counted_off)

lemma exported_services:
  "exported ptrs r ''IMPP'' = map (\<lambda>x. in_group (fst x) (service_field (snd x) ''impp'')) (impp_numbers (rc_card r))"
  "exported ptrs r ''X-SOCIALPROFILE'' = map (\<lambda>x. in_group (fst x) (service_field (snd x) ''social'')) (social_numbers (rc_card r))"
  "exported ptrs r ''X-SERVICE-TYPE'' = List.map_filter (\<lambda>(g, s). service_type_field g s) (impp_numbers (rc_card r) @ social_numbers (rc_card r))"
  "exported ptrs r ''X-USERNAME'' = List.map_filter (\<lambda>(g, s). user_field g s) (impp_numbers (rc_card r) @ social_numbers (rc_card r))"
  by (simp_all add: exported_known knownPropNames_def counted_off map_filter_append)

lemma exported_addresses:
  "exported ptrs r ''ADR'' =
    map (\<lambda>x. in_group (fst x) (newTypedField (assembleAdr3 (adr3_of (ad_components (snd x)))) (adr_tokens3 (snd x)))) (address_numbers (rc_card r))"
  "exported ptrs r ''LABEL'' = List.map_filter (\<lambda>(g, a). label_field g a) (address_numbers (rc_card r))"
  "exported ptrs r ''GEO'' = List.map_filter (\<lambda>(g, a). geo_field g a) (address_numbers (rc_card r))"
  "exported ptrs r ''TZ'' = List.map_filter (\<lambda>(g, a). zone_field g a) (address_numbers (rc_card r))"
  by (simp_all add: exported_known knownPropNames_def counted_off)

section \<open>Services and addresses back\<close>

lemma ungrouped_plain: "([], x) \<in> set (numbered P n xs) \<Longrightarrow> \<not> P x"
  using numbered_in [of "[]" x P n xs] item_group_inj(2) by metis

lemma service_groups: "own_groups (impp_numbers c @ social_numbers c)"
  unfolding impp_numbers_def social_numbers_def social_start_def
  by (rule own_append [OF numbered_own numbered_own numbered_between numbered_between])

lemma impp_ungrouped: "([], s) \<in> set (impp_numbers c @ social_numbers c) \<Longrightarrow> os_service s = [] \<and> os_user s = []"
proof -
  assume "([], s) \<in> set (impp_numbers c @ social_numbers c)"
  then have "([], s) \<in> set (impp_numbers c) \<or> ([], s) \<in> set (social_numbers c)" by simp
  then show "os_service s = [] \<and> os_user s = []"
    using ungrouped_plain [of s needs_group] ungrouped_plain [of s "\<lambda>_. True"]
    by (auto simp: impp_numbers_def social_numbers_def needs_group_def)
qed

lemma service_back3:
  assumes "wire_ok rd sp" and "(g, s) \<in> set (impp_numbers (rc_card r) @ social_numbers (rc_card r))"
  shows "service_in3 (wire rd sp (fst (export_card3 ptrs r))) (wire_field rd sp (in_group g (service_field s k))) = kept_service s"
proof -
  note e = exported_services(3,4) [of ptrs r, unfolded exported_def]
  have own: "os_service s = []" "os_user s = []" if "g = []" using impp_ungrouped assms(2) that by blast+
  show ?thesis
    using label_found [OF companions(1) service_groups assms(2) own(1), of rd sp] label_found [OF companions(2) service_groups assms(2) own(2), of rd sp]
      typed_wire_plain(2) [OF assms(1), of g "os_uri s" "os_contexts s" k "os_pref s"]
    by (simp add: service_in3_def e service_field_def kept_service_def)
qed

definition geo_text :: "address \<Rightarrow> string" where
  "geo_text a = (case geo3 a of None \<Rightarrow> [] | Some g \<Rightarrow> g)"

lemma geo_not_Nil: "geoURIToLatLon u = Some g \<Longrightarrow> g \<noteq> []"
  by (auto simp: geoURIToLatLon_def Let_def split: if_splits option.splits)

lemma geo_companion: "companion_of geo_field geo_text"
  using geo_not_Nil by (auto simp: companion_of_def geo_field_def geo_text_def geo3_def in_group_def split: option.splits if_splits)

lemma address_groups: "own_groups (address_numbers c)" "([], a) \<in> set (address_numbers c) \<Longrightarrow> ad_full a = [] \<and> geo_text a = [] \<and> ad_time_zone a = []"
proof -
  show "own_groups (address_numbers c)" unfolding address_numbers_def by (rule numbered_own)
  assume "([], a) \<in> set (address_numbers c)"
  then have "\<not> address_needs_group a" unfolding address_numbers_def by (rule ungrouped_plain)
  then show "ad_full a = [] \<and> geo_text a = [] \<and> ad_time_zone a = []" by (auto simp: address_needs_group_def geo_text_def)
qed

lemma coordinates_kept: "(if geo_text a = [] then [] else case latLonToGeoURI (geo_text a) of None \<Rightarrow> [] | Some u \<Rightarrow> u) = kept_coordinates (ad_coordinates a)"
proof (cases "geo3 a")
  case None
  then have "geoURIToLatLon (ad_coordinates a) = None"
    by (cases "ad_coordinates a = []") (simp_all add: geo3_def geoURIToLatLon_def to_lower_def)
  then show ?thesis using None by (simp add: geo_text_def kept_coordinates_def)
next
  case (Some g)
  then have "geoURIToLatLon (ad_coordinates a) = Some g" by (auto simp: geo3_def split: if_splits)
  then show ?thesis using Some geo_not_Nil by (auto simp: geo_text_def kept_coordinates_def)
qed

lemma text_found:
  assumes "companion_of h get" and "own_groups L" and "(g, x) \<in> set L" and "g = [] \<Longrightarrow> get x = []"
  shows "(case companion (map (wire_field rd sp) (List.map_filter (\<lambda>(g, x). h g x) L)) g of None \<Rightarrow> [] | Some f \<Rightarrow> t (vf_value f)) =
    (if get x = [] then [] else t (get x))"
  using companion_found [OF assms, of rd sp] by (auto split: option.splits if_splits)

lemma address_back3:
  assumes "wire_ok rd sp" and "(g, a) \<in> set (address_numbers (rc_card r))"
  shows "address_in3 (wire rd sp (fst (export_card3 ptrs r)))
    (wire_field rd sp (in_group g (newTypedField (assembleAdr3 (adr3_of (ad_components a))) (adr_tokens3 a)))) = kept_address a"
proof -
  note e = exported_addresses(2-4) [of ptrs r, unfolded exported_def]
  note own = address_groups(2) [of a "rc_card r"]
  note found = text_found [OF companions(3) address_groups(1) assms(2), where rd = rd and sp = sp and t = "\<lambda>v. v"]
    text_found [OF geo_companion address_groups(1) assms(2), where rd = rd and sp = sp and t = "\<lambda>v. case latLonToGeoURI v of None \<Rightarrow> [] | Some u \<Rightarrow> u"]
    text_found [OF companions(4) address_groups(1) assms(2), where rd = rd and sp = sp and t = "\<lambda>v. v"]
  have u: "g = [] \<Longrightarrow> ad_full a = []" "g = [] \<Longrightarrow> geo_text a = []" "g = [] \<Longrightarrow> ad_time_zone a = []" using own assms(2) by blast+
  have t: "typed (wire_field rd sp (in_group g (newTypedField v (adr_tokens3 a)))) = (ctx3 (ad_contexts a), pref3 (ad_pref a))" for v
    unfolding adr_tokens3_def by (rule typed_wire_plain(2) [OF assms(1)])
  show ?thesis
    unfolding address_in3_def fields_wire e kept_address_def value_kept(6) group_kept(6) typed_value t disassemble_assembleAdr3 adr_parts_back
    by (simp add: found(1) [OF u(1)] found(2) [OF u(2)] found(3) [OF u(3)] coordinates_kept)
qed

end
