(* ===== verification/VCard4Trip.thy ===== *)
theory VCard4Trip imports VCard4Card begin

text \<open>
  The composition of the export with the import: every name that the import reads holds exactly the fields of its own
  export step, and reading all of them gives the card back.
\<close>

section \<open>What the export leaves under each name\<close>

definition when_name :: "string \<Rightarrow> string \<Rightarrow> vfield list \<Rightarrow> vfield list" where
  "when_name P q fs = (if P = q then fs else [])"

lemma when_name_simps [simp]: "when_name P P fs = fs" "P \<noteq> q \<Longrightarrow> when_name P q fs = []"
  by (simp_all add: when_name_def)

definition resources_under :: "card \<Rightarrow> string \<Rightarrow> vfield list" where
  "resources_under c P =
     (let sel = (\<lambda>k. filter (\<lambda>r. rs_kind r = k))
      in when_name P ''PHOTO'' (entry_fields (resource_field True False) (sel ''photo'' (cd_media c))) @
         when_name P ''LOGO'' (entry_fields (resource_field True False) (sel ''logo'' (cd_media c))) @
         when_name P ''SOUND'' (entry_fields (resource_field True False) (sel ''sound'' (cd_media c))) @
         when_name P ''CALURI'' (entry_fields (resource_field False False) (sel [] (cd_calendars c))) @
         when_name P ''FBURL'' (entry_fields (resource_field False False) (sel [] (cd_free_busy c))) @
         when_name P ''CALADRURI'' (entry_fields (resource_field False False) (sel [] (cd_scheduling c))) @
         when_name P ''KEY'' (entry_fields (resource_field True False) (sel [] (cd_crypto_keys c))) @
         when_name P ''ORG-DIRECTORY'' (entry_fields (resource_field False True) (sel ''directory'' (cd_directories c))) @
         when_name P ''SOURCE'' (entry_fields (resource_field False False) (sel ''entry'' (cd_directories c))) @
         when_name P ''URL'' (entry_fields (resource_field False False) (sel [] (cd_links c))) @
         when_name P ''CONTACT-URI'' (entry_fields (resource_field False False) (sel [] (cd_contact_uris c))))"

definition speak_under :: "card \<Rightarrow> string \<Rightarrow> vfield list" where
  "speak_under c P = (case cd_speak_to_as c of None \<Rightarrow> []
     | Some s \<Rightarrow> when_name P ''GRAMGENDER'' (entry_fields gender_field (sp_genders s)) @
                 when_name P ''PRONOUNS'' (entry_fields pronouns_field (sp_pronouns s)))"

definition anniversaries_under :: "card \<Rightarrow> string \<Rightarrow> vfield list" where
  "anniversaries_under c P = concat (map (\<lambda>a. card_fields (anniversary_fields a) P) (cd_anniversaries c))"

definition fields_under :: "card \<Rightarrow> (string \<times> string) list \<Rightarrow> string \<Rightarrow> vfield list" where
  "fields_under c groups P =
     card_fields (exportIdentity c []) P @ card_fields (fst (exportName c [])) P @
     when_name P ''NICKNAME'' (entry_fields nickname_field (cd_nicknames c)) @
     when_name P ''ORG'' (map (org_field groups) (cd_organizations c)) @ title_fields groups (cd_titles c) P @
     when_name P ''EMAIL'' (entry_fields email_field (cd_emails c)) @ when_name P ''TEL'' (entry_fields phone_field (cd_phones c)) @
     when_name P ''IMPP'' (entry_fields impp_field (cd_impp c)) @ when_name P ''SOCIALPROFILE'' (entry_fields social_field (cd_social c)) @
     when_name P ''ADR'' (entry_fields address_field (cd_addresses c)) @ anniversaries_under c P @ speak_under c P @
     info_fields (cd_personal_info c) P @ when_name P ''NOTE'' (entry_fields note_field (cd_notes c)) @
     when_name P ''CATEGORIES'' (if cd_keywords c = [] then [] else [field (join_with '','' (cd_keywords c))]) @
     resources_under c P @ when_name P ''LANG'' (entry_fields language_field (cd_languages c)) @
     when_name P ''RELATED'' (map relation_field (cd_related_to c)) @ when_name P ''MEMBER'' (map field (cd_members c))"

lemma fields_exportResources: "card_fields (exportResources c vc) P = card_fields vc P @ resources_under c P"
  by (simp add: exportResources_def fields_exportResourceFrom resources_under_def when_name_def entry_fields_def Let_def)

lemma anniversary_names:
  assumes "P \<notin> set (map snd date_props @ map snd place_props)"
  shows "card_fields (anniversary_fields a) P = []"
proof -
  have "map_of date_props k \<noteq> Some P" "map_of place_props k \<noteq> Some P" for k
    using assms by (force dest: map_of_SomeD)+
  then show ?thesis by (auto simp: anniversary_fields_def split: option.splits)
qed

text \<open>The names that one step alone writes; nothing stands there before it.\<close>

lemma other_names [simp]: "P \<noteq> ''TITLE'' \<Longrightarrow> P \<noteq> ''ROLE'' \<Longrightarrow> title_fields groups ts P = []"
  "P \<notin> set (map snd info_kinds) \<Longrightarrow> info_fields xs P = []"
  "P \<notin> set (map snd date_props @ map snd place_props) \<Longrightarrow> anniversaries_under c P = []"
proof -
  show "P \<noteq> ''TITLE'' \<Longrightarrow> P \<noteq> ''ROLE'' \<Longrightarrow> title_fields groups ts P = []" by (auto simp: title_fields_def title_prop_def filter_empty_conv)
  have "P \<notin> set (map snd info_kinds) \<Longrightarrow> map_of info_kinds k \<noteq> Some P" for k by (force dest: map_of_SomeD)
  then show "P \<notin> set (map snd info_kinds) \<Longrightarrow> info_fields xs P = []"
    by (simp add: info_fields_def info_prop_def filter_empty_conv split_def)
  show "P \<notin> set (map snd date_props @ map snd place_props) \<Longrightarrow> anniversaries_under c P = []"
    by (simp add: anniversaries_under_def anniversary_names)
qed

lemma fields_speak: "card_fields (exportSpeakToAs c vc) P = card_fields vc P @ speak_under c P"
  by (simp add: fields_exportSpeakToAs speak_under_def when_name_def entry_fields_def split: option.splits)

lemma fields_info: "card_fields (exportPersonalInfo c vc) P = card_fields vc P @ info_fields (cd_personal_info c) P"
  by (simp add: fields_exportPersonalInfo info_fields_def info_prop_def)

lemma fields_of_notes: "card_fields (exportNotes c vc) P = card_fields vc P @ when_name P ''NOTE'' (entry_fields note_field (cd_notes c))"
  by (simp add: fields_exportNotes when_name_def entry_fields_def)

lemma fields_anniversaries: "card_fields (fst (exportAnniversaries c vc)) P = card_fields vc P @ anniversaries_under c P"
  by (simp add: fields_exportAnniversaries anniversaries_under_def)

lemma fields_langs: "card_fields (exportLangsRelatedMembers c vc) P = card_fields vc P @
    when_name P ''LANG'' (entry_fields language_field (cd_languages c)) @
    when_name P ''RELATED'' (map relation_field (cd_related_to c)) @ when_name P ''MEMBER'' (map field (cd_members c))"
  by (simp add: fields_exportLangs when_name_def entry_fields_def)

lemma fields_keywords:
  assumes "list_all piece_ok (cd_keywords c)" and "card_fields vc ''CATEGORIES'' = []"
  shows "card_fields (exportKeywords c vc) P = card_fields vc P @
    when_name P ''CATEGORIES'' (if cd_keywords c = [] then [] else [field (join_with '','' (cd_keywords c))])"
  using assms(2) by (simp add: fields_exportKeywords [OF assms(1)] when_name_def)

text \<open>The contact steps up to the addresses.\<close>

lemma fields_contact:
  assumes "list_all nickname_ok (cd_nicknames c)"
    and v4: "\<And>P. card_fields v4 P = card_fields (exportNicknames c (fst (exportName c v1))) P @ when_name P ''ORG'' (map (org_field groups) (cd_organizations c))"
  shows "card_fields (fst (exportAddresses c (fst (exportOnlineServices c (fst (exportPhones c (fst (exportEmails c (exportTitles c groups v4)))))))) ) P =
    card_fields v1 P @ card_fields (fst (exportName c [])) P @
        when_name P ''NICKNAME'' (entry_fields nickname_field (cd_nicknames c)) @
        when_name P ''ORG'' (map (org_field groups) (cd_organizations c)) @ title_fields groups (cd_titles c) P @
        when_name P ''EMAIL'' (entry_fields email_field (cd_emails c)) @ when_name P ''TEL'' (entry_fields phone_field (cd_phones c)) @
        when_name P ''IMPP'' (entry_fields impp_field (cd_impp c)) @ when_name P ''SOCIALPROFILE'' (entry_fields social_field (cd_social c)) @
        when_name P ''ADR'' (entry_fields address_field (cd_addresses c))"
  by (simp add: fields_exportAddresses fields_exportOnlineServices fields_exportPhones fields_exportEmails fields_exportTitles v4
    fields_exportNicknames [OF assms(1)] fields_exportName [of c v1] when_name_def entry_fields_def title_fields_def title_prop_def)

lemma exported_fields:
  assumes dom: "vcard4_domain (rc_card r)" and e: "export_card js ptrs r = (vc, sp, ds)"
  obtains n groups out out' where "walk_result (cd_titles (rc_card r)) (cd_organizations (rc_card r)) [] out (n, groups, out')"
    and "\<And>P. P \<in> set mappedV4PropNames \<Longrightarrow> P \<noteq> ''JSPROP'' \<Longrightarrow> card_fields vc P = fields_under (rc_card r) groups P"
    and "sp = map (\<lambda>(i, a). geo_splice i (ad_coordinates a)) (filter (\<lambda>(i, a). ad_coordinates a \<noteq> []) (enumerate 0 (cd_addresses (rc_card r))))"
proof -
  let ?c = "rc_card r"
  let ?v1 = "exportIdentity ?c (card_set_value ''VERSION'' ''4.0'' [])"
  let ?v3 = "exportNicknames ?c (fst (exportName ?c ?v1))"
  obtain v4 groups where o: "exportOrganizations ?c ?v3 = (v4, groups)" by (metis surj_pair)
  have orgs: "list_all org_ok (cd_organizations ?c)" "distinct (map org_id (cd_organizations ?c))" using dom by (simp_all add: vcard4_domain_def)
  obtain n where w: "walk_result (cd_titles ?c) (cd_organizations ?c) [] ?v3 (n, groups, v4)" using exportOrganizations_walk [OF orgs o] by blast
  have nk: "list_all nickname_ok (cd_nicknames ?c)" and ks: "list_all piece_ok (cd_keywords ?c)" using dom by (simp_all add: vcard4_domain_def)
  let ?v9 = "fst (exportAddresses ?c (fst (exportOnlineServices ?c (fst (exportPhones ?c (fst (exportEmails ?c (exportTitles ?c groups v4))))))))"
  let ?before = "exportNotes ?c (exportPersonalInfo ?c (exportSpeakToAs ?c (fst (exportAnniversaries ?c ?v9))))"
  let ?v12 = "exportLangsRelatedMembers ?c (exportResources ?c (exportKeywords ?c ?before))"
  have vc: "vc = exportPassthrough js ptrs (rc_passthrough r) ?v12" and sp: "sp = snd (exportAddresses ?c (fst (exportOnlineServices ?c
      (fst (exportPhones ?c (fst (exportEmails ?c (exportTitles ?c groups v4))))))))"
    using e by (auto simp: export_card_def Let_def o split_def)
  have v4: "card_fields v4 P = card_fields ?v3 P @ when_name P ''ORG'' (map (org_field groups) (cd_organizations ?c))" for P
    using w by (simp add: walk_result_def when_name_def) 
  show ?thesis
  proof (rule that [OF w])
    fix P assume P: "P \<in> set mappedV4PropNames" "P \<noteq> ''JSPROP''"
    have v: "P \<noteq> ''VERSION''" using P(1) by (auto simp: mappedV4PropNames_def)
    have id: "card_fields ?v1 P = card_fields (exportIdentity ?c []) P" using v by (simp add: fields_exportIdentity)
    note contact = fields_contact [OF nk v4]
    have "card_fields ?before ''CATEGORIES'' = []"
      by (simp add: fields_of_notes fields_info fields_speak fields_anniversaries contact fields_exportIdentity fields_exportName_other
        speak_under_def date_props_def place_props_def info_kinds_def split: option.splits)
    then show "card_fields vc P = fields_under ?c groups P" unfolding vc fields_exportPassthrough [OF P]
      by (simp add: fields_langs fields_exportResources fields_keywords [OF ks] fields_of_notes fields_info fields_speak fields_anniversaries
        contact id fields_under_def)
  next
    show "sp = map (\<lambda>(i, a). geo_splice i (ad_coordinates a)) (filter (\<lambda>(i, a). ad_coordinates a \<noteq> []) (enumerate 0 (cd_addresses ?c)))"
      unfolding sp by (simp add: exportAddresses_def)
  qed
qed

section \<open>Reading the card\<close>

definition reads_card :: "(string \<Rightarrow> string list) \<Rightarrow> (string \<times> string) list \<Rightarrow> (string \<times> string) list \<Rightarrow> card \<Rightarrow> vcard \<Rightarrow> bool" where
  "reads_card rd sp groups c vc \<longleftrightarrow> (\<forall>P \<in> set mappedV4PropNames. P \<noteq> ''JSPROP'' \<longrightarrow> finds rd sp vc P (fields_under c groups P))"

lemma reads_cardD: "reads_card rd sp groups c vc \<Longrightarrow> P \<in> set mappedV4PropNames \<Longrightarrow> P \<noteq> ''JSPROP'' \<Longrightarrow>
    card_fields vc P = map (wire_field rd sp) (fields_under c groups P)"
  by (simp add: reads_card_def finds_def)

lemmas under_defs = fields_under_def fields_exportIdentity fields_exportName_other resources_under_def speak_under_def
  date_props_def place_props_def info_kinds_def

lemma identity_found:
  assumes "reads_card rd sp groups c vc"
  shows "card_value vc ''UID'' = cd_uid c" "card_value vc ''KIND'' = cd_kind c" "card_value vc ''PRODID'' = cd_prod_id c"
    "card_value vc ''LANGUAGE'' = cd_language c"
    "card_value vc ''REV'' = (case cd_updated c of None \<Rightarrow> [] | Some t \<Rightarrow> rfc3339ToVCardTimestamp (ts_utc t))"
    "card_value vc ''CREATED'' = (case cd_created c of None \<Rightarrow> [] | Some t \<Rightarrow> rfc3339ToVCardTimestamp (ts_utc t))"
  using reads_cardD [OF assms, of "''UID''"] reads_cardD [OF assms, of "''KIND''"] reads_cardD [OF assms, of "''PRODID''"]
    reads_cardD [OF assms, of "''LANGUAGE''"] reads_cardD [OF assms, of "''REV''"] reads_cardD [OF assms, of "''CREATED''"]
  by (simp_all add: card_value_def mappedV4PropNames_def under_defs split: option.splits)

lemma identity_read:
  assumes "reads_card rd sp groups c vc" and "stamp_ok (cd_created c)" and "stamp_ok (cd_updated c)"
  shows "importIdentity vc empty_card = empty_card\<lparr>cd_uid := cd_uid c, cd_kind := cd_kind c, cd_prod_id := cd_prod_id c,
     cd_updated := cd_updated c, cd_created := cd_created c, cd_language := cd_language c\<rparr>"
proof -
  have "stamp_ok t \<Longrightarrow> (if (case t of None \<Rightarrow> [] | Some s \<Rightarrow> rfc3339ToVCardTimestamp (ts_utc s)) \<noteq> []
      then Some (stamp_of (case t of None \<Rightarrow> [] | Some s \<Rightarrow> rfc3339ToVCardTimestamp (ts_utc s))) else None) = t" for t
    by (cases t) (simp_all add: stamp_ok_def stamp_of_def stamp_roundtrip stamp_not_Nil)
  from this [OF assms(2)] this [OF assms(3)] show ?thesis
    by (simp add: importIdentity_def identity_found [OF assms(1)] empty_card_def Let_def cong: if_cong)
qed

lemma name_read:
  assumes "wire_ok rd sp" and r: "reads_card rd sp groups c vc" and ok: "case cd_name c of None \<Rightarrow> True | Some n \<Rightarrow> name_ok n"
    and none: "cd_name c0 = None"
  shows "fst (importName vc c0) = c0\<lparr>cd_name := cd_name c\<rparr>"
proof -
  have N: "card_fields vc ''N'' = map (wire_field rd sp) (card_fields (fst (exportName c [])) ''N'')"
    and FN: "card_fields vc ''FN'' = map (wire_field rd sp) (card_fields (fst (exportName c [])) ''FN'')"
    using reads_cardD [OF r, of "''N''"] reads_cardD [OF r, of "''FN''"] by (simp_all add: mappedV4PropNames_def under_defs split: option.splits)
  show ?thesis
  proof (cases "cd_name c")
    case None
    then have "card_fields vc ''N'' = []" "card_fields vc ''FN'' = [wire_field rd sp (field [])]"
      using N FN by (simp_all add: exportName_def n_from_def comp_phonetic_def comp_value_def)
    then show ?thesis using None none by (cases c0) (simp add: importName_def Let_def paramIsTrue_def paramValue_def params_wire)
  next
    case (Some n)
    then show ?thesis using name_back [OF assms(1) _ Some N FN] ok by simp
  qed
qed

lemma speak_read:
  assumes w: "wire_ok rd sp" and r: "reads_card rd sp groups c vc" and ok: "speak_ok (cd_speak_to_as c)" and none: "cd_speak_to_as c0 = None"
  shows "fst (importSpeakToAs vc c0) = c0\<lparr>cd_speak_to_as := cd_speak_to_as c\<rparr>"
proof -
  have f: "card_fields vc ''GRAMGENDER'' = map (wire_field rd sp) (speak_under c ''GRAMGENDER'')"
    "card_fields vc ''PRONOUNS'' = map (wire_field rd sp) (speak_under c ''PRONOUNS'')"
    using reads_cardD [OF r, of "''GRAMGENDER''"] reads_cardD [OF r, of "''PRONOUNS''"]
    by (simp_all add: mappedV4PropNames_def under_defs split: option.splits)
  show ?thesis
  proof (cases "cd_speak_to_as c")
    case None
    then show ?thesis using f none by (cases c0) (simp add: importSpeakToAs_def speak_under_def Let_def)
  next
    case (Some s)
    then have s: "sp_genders s \<noteq> [] \<or> sp_pronouns s \<noteq> []" "list_all gender_ok (sp_genders s)" "list_all pronouns_ok (sp_pronouns s)"
      using ok by (simp_all add: speak_ok_def)
    have g: "map (\<lambda>(i, f). gender_in i f) (enumerate 0 (map (wire_field rd sp) (entry_fields gender_field (sp_genders s)))) = sp_genders s"
      "map (\<lambda>(i, f). pronouns_in i f) (enumerate 0 (map (wire_field rd sp) (entry_fields pronouns_field (sp_pronouns s)))) = sp_pronouns s"
      using read_ok_entries [OF s(2) gender_back [OF w]] read_ok_entries [OF s(3) pronouns_back [OF w]] by (simp_all only: entry_fields_def)
    have f': "card_fields vc ''GRAMGENDER'' = map (wire_field rd sp) (entry_fields gender_field (sp_genders s))"
      "card_fields vc ''PRONOUNS'' = map (wire_field rd sp) (entry_fields pronouns_field (sp_pronouns s))"
      using f Some by (simp_all add: speak_under_def)
    have "entry_fields gender_field (sp_genders s) \<noteq> [] \<or> entry_fields pronouns_field (sp_pronouns s) \<noteq> []"
      using s(1) by (cases "sp_genders s"; cases "sp_pronouns s") (simp_all add: entry_fields_def)
    then show ?thesis using Some g unfolding importSpeakToAs_def Let_def f' by (cases s) auto
  qed
qed

end
