(* ===== verification/VCard4Whole.thy ===== *)
theory VCard4Whole imports VCard4Trip begin

text \<open>
  The last steps of the import and the round trip of the card as a whole, with the concrete reader and the record that show
  the contract can be met.
\<close>

section \<open>Resources and addresses\<close>

lemma resources_found:
  assumes "reads_card rd sp groups c vc"
  shows "finds rd sp vc ''PHOTO'' (entry_fields (resource_field True False) (filter (\<lambda>r. rs_kind r = ''photo'') (cd_media c)))"
    "finds rd sp vc ''LOGO'' (entry_fields (resource_field True False) (filter (\<lambda>r. rs_kind r = ''logo'') (cd_media c)))"
    "finds rd sp vc ''SOUND'' (entry_fields (resource_field True False) (filter (\<lambda>r. rs_kind r = ''sound'') (cd_media c)))"
    "finds rd sp vc ''CALURI'' (entry_fields (resource_field False False) (filter (\<lambda>r. rs_kind r = []) (cd_calendars c)))"
    "finds rd sp vc ''FBURL'' (entry_fields (resource_field False False) (filter (\<lambda>r. rs_kind r = []) (cd_free_busy c)))"
    "finds rd sp vc ''CALADRURI'' (entry_fields (resource_field False False) (filter (\<lambda>r. rs_kind r = []) (cd_scheduling c)))"
    "finds rd sp vc ''KEY'' (entry_fields (resource_field True False) (filter (\<lambda>r. rs_kind r = []) (cd_crypto_keys c)))"
    "finds rd sp vc ''ORG-DIRECTORY'' (entry_fields (resource_field False True) (filter (\<lambda>r. rs_kind r = ''directory'') (cd_directories c)))"
    "finds rd sp vc ''SOURCE'' (entry_fields (resource_field False False) (filter (\<lambda>r. rs_kind r = ''entry'') (cd_directories c)))"
    "finds rd sp vc ''URL'' (entry_fields (resource_field False False) (filter (\<lambda>r. rs_kind r = []) (cd_links c)))"
    "finds rd sp vc ''CONTACT-URI'' (entry_fields (resource_field False False) (filter (\<lambda>r. rs_kind r = []) (cd_contact_uris c)))"
  by (simp_all add: finds_def reads_cardD [OF assms] mappedV4PropNames_def under_defs split: option.splits)

lemma kindless: "list_all (resource_ok [] mt ix) rs \<Longrightarrow> filter (\<lambda>r. rs_kind r = []) rs = rs"
  by (auto simp: filter_id_conv list_all_iff resource_ok_def)

lemma of_one_kind: "list_all (\<lambda>r. resource_ok (rs_kind r) mt (ix (rs_kind r)) r) rs \<Longrightarrow>
    list_all (resource_ok k mt (ix k)) (filter (\<lambda>r. rs_kind r = k) rs)"
  by (auto simp: list_all_iff)

lemma resources_read:
  assumes w: "wire_ok rd sp" and r: "reads_card rd sp groups c vc" and d: "vcard4_domain c"
  shows "importResources vc c0 = c0\<lparr>cd_media := cd_media c0 @ cd_media c, cd_calendars := cd_calendars c0 @ cd_calendars c,
     cd_free_busy := cd_free_busy c0 @ cd_free_busy c, cd_scheduling := cd_scheduling c0 @ cd_scheduling c,
     cd_crypto_keys := cd_crypto_keys c0 @ cd_crypto_keys c, cd_directories := cd_directories c0 @ cd_directories c,
     cd_links := cd_links c0 @ cd_links c, cd_contact_uris := cd_contact_uris c0 @ cd_contact_uris c\<rparr>"
proof -
  have plain_lists: "list_all (resource_ok [] False False) (cd_calendars c)" "list_all (resource_ok [] False False) (cd_free_busy c)"
    "list_all (resource_ok [] False False) (cd_scheduling c)" "list_all (resource_ok [] True False) (cd_crypto_keys c)"
    "list_all (resource_ok [] False False) (cd_links c)" "list_all (resource_ok [] False False) (cd_contact_uris c)"
    using d by (simp_all add: vcard4_domain_def)
  have m: "list_all (\<lambda>r. resource_ok (rs_kind r) True False r) (cd_media c)"
    and ms: "cd_media c = filter (\<lambda>r. rs_kind r = ''photo'') (cd_media c) @ filter (\<lambda>r. rs_kind r = ''logo'') (cd_media c) @
        filter (\<lambda>r. rs_kind r = ''sound'') (cd_media c)"
    using d by (simp_all add: vcard4_domain_def media_ok_def by_kinds_def media_kinds_def)
  have e: "list_all (\<lambda>r. resource_ok (rs_kind r) False (rs_kind r = ''directory'') r) (cd_directories c)"
    and ds: "cd_directories c = filter (\<lambda>r. rs_kind r = ''directory'') (cd_directories c) @ filter (\<lambda>r. rs_kind r = ''entry'') (cd_directories c)"
    using d by (simp_all add: vcard4_domain_def directories_ok_def by_kinds_def)
  note one = resources_read_one [OF w]
  note f = resources_found [OF r]
  note media = of_one_kind [where mt = True and ix = "\<lambda>_. False", OF m]
  note dirs = of_one_kind [where mt = False and ix = "\<lambda>k. k = ''directory''", OF e]
  show ?thesis
    unfolding importResources_def
    using one [OF media [of "''photo''"] f(1)] one [OF media [of "''logo''"] f(2)] one [OF media [of "''sound''"] f(3)]
      one [OF plain_lists(1) f(4) [unfolded kindless [OF plain_lists(1)]]] one [OF plain_lists(2) f(5) [unfolded kindless [OF plain_lists(2)]]]
      one [OF plain_lists(3) f(6) [unfolded kindless [OF plain_lists(3)]]] one [OF plain_lists(4) f(7) [unfolded kindless [OF plain_lists(4)]]]
      one [OF dirs [of "''directory''", simplified] f(8)] one [OF dirs [of "''entry''", simplified] f(9)]
      one [OF plain_lists(5) f(10) [unfolded kindless [OF plain_lists(5)]]] one [OF plain_lists(6) f(11) [unfolded kindless [OF plain_lists(6)]]]
    by (simp add: ms [symmetric] ds [symmetric])
qed

lemma splices_found:
  assumes "(j, a) \<in> set (enumerate 0 as)"
  shows "splices_for (map (\<lambda>(i, a). geo_splice i (ad_coordinates a)) (filter (\<lambda>(i, a). ad_coordinates a \<noteq> []) (enumerate 0 as))) j a"
  unfolding splices_for_def
proof (intro impI map_of_only)
  assume c: "ad_coordinates a \<noteq> []"
  have pair: "geo_splice i x = (fst (geo_splice i []), snd (geo_splice i x))" for i x by (simp add: geo_splice_def)
  show "(fst (geo_splice j []), snd (geo_splice j (ad_coordinates a))) \<in>
      set (map (\<lambda>(i, a). geo_splice i (ad_coordinates a)) (filter (\<lambda>(i, a). ad_coordinates a \<noteq> []) (enumerate 0 as)))"
    using assms c by (force simp: geo_splice_def)
  fix v assume "(fst (geo_splice j []), v) \<in>
      set (map (\<lambda>(i, a). geo_splice i (ad_coordinates a)) (filter (\<lambda>(i, a). ad_coordinates a \<noteq> []) (enumerate 0 as)))"
  then obtain b where b: "(j, b) \<in> set (enumerate 0 as)" "v = snd (geo_splice j (ad_coordinates b))"
    by (auto simp: geo_splice_def)
  have "a = b" using assms b(1) by (simp add: in_set_enumerate_eq)
  then show "v = snd (geo_splice j (ad_coordinates a))" using b(2) by simp
qed

lemma addresses_read:
  assumes "wire_ok rd sp" and "reads_card rd sp groups c vc" and "list_all address_ok (cd_addresses c)"
    and sp: "sp = map (\<lambda>(i, a). geo_splice i (ad_coordinates a)) (filter (\<lambda>(i, a). ad_coordinates a \<noteq> []) (enumerate 0 (cd_addresses c)))"
  shows "fst (importAddresses vc c0) = c0\<lparr>cd_addresses := cd_addresses c0 @ cd_addresses c\<rparr>"
proof -
  have f: "card_fields vc ''ADR'' = map (wire_field rd sp) (entry_fields address_field (cd_addresses c))"
    using reads_cardD [OF assms(2), of "''ADR''"] by (simp add: mappedV4PropNames_def under_defs split: option.splits)
  have "map (\<lambda>(i, f). address_in i f) (enumerate 0 (map (wire_field rd sp) (map (\<lambda>(j, a). address_field j a) (enumerate 0 (cd_addresses c))))) = cd_addresses c"
  proof (rule read_entries)
    fix i j a assume m: "(j, a) \<in> set (enumerate 0 (cd_addresses c))"
    then have "address_ok a" using assms(3) enumerate_mem by (fastforce simp: list_all_iff)
    moreover have "splices_for sp j a" using splices_found [OF m] unfolding sp .
    ultimately show "address_in i (wire_field rd sp (address_field j a)) = a" by (rule address_back [OF assms(1)])
  qed
  then show ?thesis by (simp add: importAddresses_def f entry_fields_def)
qed

section \<open>The round trip\<close>

lemma entries_found:
  assumes "reads_card rd sp groups c vc"
  shows "finds rd sp vc ''NICKNAME'' (entry_fields nickname_field (cd_nicknames c))" "finds rd sp vc ''ORG'' (map (org_field groups) (cd_organizations c))"
    "finds rd sp vc ''TITLE'' (title_fields groups (cd_titles c) ''TITLE'')" "finds rd sp vc ''ROLE'' (title_fields groups (cd_titles c) ''ROLE'')"
    "finds rd sp vc ''EMAIL'' (entry_fields email_field (cd_emails c))" "finds rd sp vc ''TEL'' (entry_fields phone_field (cd_phones c))"
    "finds rd sp vc ''IMPP'' (entry_fields impp_field (cd_impp c))" "finds rd sp vc ''SOCIALPROFILE'' (entry_fields social_field (cd_social c))"
    "finds rd sp vc ''NOTE'' (entry_fields note_field (cd_notes c))"
    "finds rd sp vc ''CATEGORIES'' (if cd_keywords c = [] then [] else [field (join_with '','' (cd_keywords c))])"
    "finds rd sp vc ''LANG'' (entry_fields language_field (cd_languages c))" "finds rd sp vc ''RELATED'' (map relation_field (cd_related_to c))"
    "finds rd sp vc ''MEMBER'' (map field (cd_members c))"
  by (simp_all add: finds_def reads_cardD [OF assms] mappedV4PropNames_def under_defs split: option.splits)

lemma info_found:
  assumes "reads_card rd sp groups c vc" and "P \<in> set (map snd info_kinds)"
  shows "finds rd sp vc P (info_fields (cd_personal_info c) P)"
proof -
  have "P \<in> {''EXPERTISE'', ''HOBBY'', ''INTEREST''}" using assms(2) by (auto simp: info_kinds_def)
  then show ?thesis
    by (elim insertE) (simp_all add: finds_def reads_cardD [OF assms(1)] mappedV4PropNames_def under_defs split: option.splits)
qed

lemma anniversaries_found:
  assumes "reads_card rd sp groups c vc" and "P \<in> set (map snd date_props @ map snd place_props)"
  shows "card_fields vc P = map (wire_field rd sp) (concat (map (\<lambda>a. card_fields (anniversary_fields a) P) (cd_anniversaries c)))"
proof -
  have "P \<in> {''BDAY'', ''ANNIVERSARY'', ''DEATHDATE'', ''BIRTHPLACE'', ''DEATHPLACE''}" using assms(2) by (auto simp: date_props_def place_props_def)
  then have "card_fields vc P = map (wire_field rd sp) (anniversaries_under c P)"
    by (elim insertE) (simp_all add: reads_cardD [OF assms(1)] mappedV4PropNames_def under_defs split: option.splits)
  then show ?thesis by (simp add: anniversaries_under_def)
qed

lemma blank_lists: "cd_name empty_card = None" "cd_nicknames empty_card = []" "cd_organizations empty_card = []" "cd_titles empty_card = []"
  "cd_emails empty_card = []" "cd_phones empty_card = []" "cd_impp empty_card = []" "cd_social empty_card = []" "cd_addresses empty_card = []"
  "cd_anniversaries empty_card = []" "cd_speak_to_as empty_card = None" "cd_personal_info empty_card = []" "cd_notes empty_card = []"
  "cd_keywords empty_card = []" "cd_media empty_card = []" "cd_calendars empty_card = []" "cd_free_busy empty_card = []"
  "cd_scheduling empty_card = []" "cd_crypto_keys empty_card = []" "cd_directories empty_card = []" "cd_links empty_card = []"
  "cd_contact_uris empty_card = []" "cd_languages empty_card = []" "cd_related_to empty_card = []" "cd_members empty_card = []"
  by (simp_all add: empty_card_def)

text \<open>What the import makes of all the fields of a card inside the contract.\<close>

lemma import_reads:
  assumes w: "wire_ok rd sp" and r: "reads_card rd sp groups c vc" and d: "vcard4_domain c"
    and walk: "walk_result (cd_titles c) (cd_organizations c) [] out (n, groups, out')"
    and sp: "sp = map (\<lambda>(i, a). geo_splice i (ad_coordinates a)) (filter (\<lambda>(i, a). ad_coordinates a \<noteq> []) (enumerate 0 (cd_addresses c)))"
  shows "rc_card (fst (import_card js vc)) = c\<lparr>cd_other_online := [], cd_localizations := Map.empty\<rparr>"
proof -
  note d' = d [unfolded vcard4_domain_def]
  note f = entries_found [OF r]
  have name: "fst (importName vc c0) = c0\<lparr>cd_name := cd_name c\<rparr>" if "cd_name c0 = None" for c0
    using name_read [OF w r _ that] d' by blast
  have nick: "importNicknames vc c0 = c0\<lparr>cd_nicknames := cd_nicknames c0 @ cd_nicknames c\<rparr>" for c0
    using nicknames_read [OF w _ f(1)] d' by blast
  have orgs: "importOrganizations vc c0 = (c0\<lparr>cd_organizations := cd_organizations c0 @ cd_organizations c\<rparr>, group_ids vc)" for c0
    using orgs_read [OF w _ f(2)] d' by blast
  have titles: "importTitles vc (group_ids vc) c0 = c0\<lparr>cd_titles := cd_titles c0 @ cd_titles c\<rparr>" for c0
    using titles_read [OF w _ walk f(2) _ _ f(3,4)] d' by blast
  have online: "importOnlineServices vc (importPhones vc (importEmails vc c0)) = c0\<lparr>cd_emails := cd_emails c0 @ cd_emails c,
      cd_phones := cd_phones c0 @ cd_phones c, cd_impp := cd_impp c0 @ cd_impp c, cd_social := cd_social c0 @ cd_social c\<rparr>" for c0
    using emails_read [OF w _ f(5)] phones_read [OF w _ f(6)] services_read [OF w _ _ f(7,8)] d' by simp
  have adr: "fst (importAddresses vc c0) = c0\<lparr>cd_addresses := cd_addresses c0 @ cd_addresses c\<rparr>" for c0
    using addresses_read [OF w r _ sp] d' by blast
  have ann: "fst (importAnniversaries vc c0) = c0\<lparr>cd_anniversaries := cd_anniversaries c\<rparr>" if "cd_anniversaries c0 = []" for c0
    using anniversaries_back [OF w _ that anniversaries_found [OF r]] d' by blast
  have speak: "fst (importSpeakToAs vc c0) = c0\<lparr>cd_speak_to_as := cd_speak_to_as c\<rparr>" if "cd_speak_to_as c0 = None" for c0
    using speak_read [OF w r _ that] d' by blast
  have rest: "importKeywords vc (importNotes vc (importPersonalInfo vc c0)) = c0\<lparr>cd_personal_info := cd_personal_info c0 @ cd_personal_info c,
      cd_notes := cd_notes c0 @ cd_notes c, cd_keywords := cd_keywords c0 @ cd_keywords c\<rparr>" for c0
    using infos_read [OF w _ info_found [OF r]] notes_read [OF w _ f(9)] keywords_read [OF _ f(10)] d' by simp
  note res = resources_read [OF w r d]
  have langs: "importLangsRelatedMembers vc c0 = c0\<lparr>cd_languages := cd_languages c0 @ cd_languages c,
      cd_related_to := cd_related_to c0 @ cd_related_to c, cd_members := cd_members c0 @ cd_members c\<rparr>" for c0
    using langs_read [OF w _ _ f(11-13)] d' by blast
  have ident: "importIdentity vc empty_card = empty_card\<lparr>cd_uid := cd_uid c, cd_kind := cd_kind c, cd_prod_id := cd_prod_id c,
     cd_updated := cd_updated c, cd_created := cd_created c, cd_language := cd_language c\<rparr>"
    using identity_read [OF r] d' by blast
  show ?thesis
    by (simp add: import_card_def blank_record_def Let_def split_def ident name nick orgs titles online adr ann speak rest res langs blank_lists)
      (cases c, simp add: empty_card_def)
qed


section \<open>A reader and a card\<close>

definition plain_reader :: "string \<Rightarrow> string list" where
  "plain_reader v = (if has_prefix v [CHR 0x22] then split_on CHR '','' (butlast (tl v)) else [v])"

lemma plain_reader_reads: "reads_params plain_reader"
proof -
  have "\<not> has_prefix v [CHR 0x22]" if "plain v" for v using that by (cases v) (auto simp: plain_def special_chars_def)
  then show ?thesis by (simp add: reads_params_def plain_reader_def quotedParam_def butlast_append)
qed

definition sample_json :: json_lib where
  "sample_json = \<lparr>js_valid = (\<lambda>_. True), js_compact = Some\<rparr>"

definition sample_name :: card_name where
  "sample_name = \<lparr>nm_components = [\<lparr>nc_kind = ''surname'', nc_value = ''Li'', nc_phonetic = ''lee''\<rparr>,
       \<lparr>nc_kind = ''given'', nc_value = ''A;B'', nc_phonetic = []\<rparr>], nm_full = [], nm_sort_as = None, nm_is_ordered = None,
     nm_separator = [], nm_phonetic_system = ''ipa'', nm_phonetic_script = []\<rparr>"

definition sample_org :: organization where
  "sample_org = \<lparr>org_id = ''o1'', org_name = ''Org'', org_units = [], org_sort_as = []\<rparr>"

definition sample_title :: title where
  "sample_title = \<lparr>ti_id = ''t1'', ti_name = ''Lead'', ti_kind = ''role'', ti_organization = ''o1''\<rparr>"

definition sample_mail :: email where
  "sample_mail = \<lparr>em_id = ''e1'', em_address = ''a@b'', em_contexts = [''private''], em_pref = Some 1, em_label = []\<rparr>"

definition sample_birth :: anniversary where
  "sample_birth = \<lparr>an_id = ''anniv1'', an_kind = ''birth'',
     an_date = \<lparr>an_partial = Some \<lparr>pd_year = None, pd_month = Some 2, pd_day = Some 29, pd_scale = []\<rparr>, an_timestamp = None\<rparr>,
     an_place = None\<rparr>"

definition sample_person :: card where
  "sample_person = empty_card\<lparr>cd_uid := ''p1'', cd_created := Some \<lparr>ts_utc = ''2024-02-29T12:30:00Z''\<rparr>, cd_name := Some sample_name,
     cd_organizations := [sample_org], cd_titles := [sample_title], cd_emails := [sample_mail], cd_anniversaries := [sample_birth],
     cd_keywords := [''x'', ''y'']\<rparr>"

lemma sample_day: "go_date 2024 2 29 = 738944" by code_simp

lemma sample_civil: "year_of 738944 = 2024" "month_of 738944 = 2" "day_of 738944 = 29"
  using go_date_valid [of 2 29 2024] by (simp_all add: sample_day days_in_month_def is_leap_def month_start_def)

lemma sample_digits: "pad4 2024 = ''2024''" "pad2 2 = ''02''" "pad2 29 = ''29''" "pad2 12 = ''12''" "pad2 30 = ''30''" "pad2 0 = ''00''"
  "show_nat (Suc 0) = ''1''"
  by code_simp+

lemma sample_format: "format_utc True (86400 * 738944 + 45000) = ''2024-02-29T12:30:00Z''"
  by (simp add: format_utc_def Let_def sample_civil year_text_pad4 sample_digits)

lemma sample_stamp: "utc_stamp ''2024-02-29T12:30:00Z''"
  using time_parse_format [of "86400 * 738944 + 45000" True Colon] unfolding sample_format by (simp add: utc_stamp_def in_years_def sample_civil sample_format [simplified])

lemma sample_name_fits: "name_ok sample_name"
  by (simp add: name_ok_def sample_name_def n_canonical_def n_kinds_def List.map_filter_simps plain_def special_chars_def)

lemma sample_org_fits: "org_ok sample_org" "org_id sample_org = ''o1''"
  by (simp_all add: org_ok_def sample_org_def id_ok_def plain_def special_chars_def)

lemma sample_title_fits: "title_ok [sample_org] sample_title" "titles_in_order [sample_title]"
  by (simp_all add: title_ok_def titles_in_order_def sample_title_def sample_org_def id_ok_def plain_def special_chars_def)

lemma sample_mail_fits: "email_ok sample_mail"
  by (simp add: email_ok_def sample_mail_def id_ok_def contexts_ok_def pref_ok_def in_int64_def plain_def special_chars_def)

lemma sample_birth_fits: "anniversaries_ok [sample_birth]"
  by (simp add: anniversaries_ok_def sample_birth_def of_kind_def anniversary_ok_def date_ok_def writable_anniversary_date_def
    writable_date_def part_ok_def plain_def sample_digits)

lemma sample_person_fits: "vcard4_domain sample_person"
  by (simp add: vcard4_domain_def sample_person_def empty_card_def stamp_ok_def speak_ok_def infos_ok_def info_kinds_def media_ok_def
    by_kinds_def media_kinds_def directories_ok_def sample_stamp sample_name_fits sample_org_fits sample_title_fits sample_mail_fits
    sample_birth_fits piece_ok_def) (simp add: trim_space_def is_space_def)


section \<open>What the contract leaves out\<close>

text \<open>A birthday in words is neither in the card nor among the unknown properties, and no diagnostic names it; the same words as
  the date of death ride along.\<close>

definition in_words :: "string \<Rightarrow> vcard" where
  "in_words p = [(p, \<lparr>vf_value = ''circa 1800'', vf_params = [(''VALUE'', ''text'')], vf_group = []\<rparr>)]"

lemma birthday_in_words_lost:
  "exportAnniversaries (fst (importAnniversaries (in_words ''BDAY'') empty_card)) [] = ([], [])"
  "snd (importAnniversaries (in_words ''BDAY'') empty_card) = ([], [])"
  "fst (snd (importAnniversaries (in_words ''DEATHDATE'') empty_card)) \<noteq> []"
  by (simp_all add: importAnniversaries_def in_words_def exportAnniversaries_def anniversary_fields_def place_diags_def anniversary_in_def
    parseVCardDateAndOrTime_def parsePartialDate_def remove_char_def isZeroAnniversaryDate_def empty_card_def Let_def date_props_def
    place_props_def free_text_def paramValue_def paramAll_def)

text \<open>What the import sets aside of a mapped property is held back by the export, whose guard against duplicates knows only names.\<close>

lemma set_aside_is_lost:
  "to_upper (to_lower name) \<in> set mappedV4PropNames \<Longrightarrow>
    exportPassthrough js [] \<lparr>pt_vcard = [fieldToJCardProp name f], pt_jscontact = Map.empty\<rparr> vc = vc"
  by (simp add: exportPassthrough_def fieldToJCardProp_def sorted_names_def Let_def List.map_filter_simps)

lemma death_in_words_lost:
  "exportPassthrough js [] \<lparr>pt_vcard = [fieldToJCardProp ''DEATHDATE'' f], pt_jscontact = Map.empty\<rparr> vc = vc"
proof (rule set_aside_is_lost)
  have "to_upper (to_lower ''DEATHDATE'') = ''DEATHDATE''" by code_simp
  then show "to_upper (to_lower ''DEATHDATE'') \<in> set mappedV4PropNames" by (simp add: mappedV4PropNames_def)
qed

lemma anniversary_id_not_written: "paramAll (date_field d) ''PROP-ID'' = []"
  by (simp add: date_field_def split: option.splits)

text \<open>The parameters that hold free text leave unquoted, whatever characters they have.\<close>

lemma free_text_unquoted: "ad_full a \<noteq> [] \<Longrightarrow> paramAll (address_field j a) ''LABEL'' = [ad_full a]"
  "ad_time_zone a \<noteq> [] \<Longrightarrow> paramAll (address_field j a) ''TZ'' = [ad_time_zone a]"
  "os_user s \<noteq> [] \<Longrightarrow> paramAll (impp_field j s) ''USERNAME'' = [os_user s]"
  by (simp_all add: address_field_def impp_field_def service_rest_def Let_def)

section \<open>The lines of the categories\<close>

lemma fix_lines_untouched: "list_all (\<lambda>l. \<not> categories_line l) ls \<Longrightarrow> fix_lines False ls = ls"
  by (induction False ls rule: fix_lines.induct) (auto simp: Let_def)

lemma crlf_lines_join: "join_with [CHR 0x0D, CHR 0x0A] (crlf_lines s) = s" "crlf_lines s \<noteq> []"
proof -
  have "crlf_lines s \<noteq> [] \<and> join_with [CHR 0x0D, CHR 0x0A] (crlf_lines s) = s"
  proof (induction s rule: crlf_lines.induct)
    case (2 c cs)
    show ?case
    proof (cases "c = CHR 0x0D \<and> cs \<noteq> [] \<and> hd cs = CHR 0x0A")
      case True
      then obtain r where "cs = CHR 0x0A # r" by (cases cs) auto
      moreover obtain l ls where "crlf_lines r = l # ls" using 2(1) True calculation by (auto simp: neq_Nil_conv)
      ultimately show ?thesis using 2(1) True by simp
    next
      case False
      then obtain l ls where l: "crlf_lines cs = l # ls" using 2(2) by (auto simp: neq_Nil_conv)
      then show ?thesis using 2(2) False by (auto simp: join_with_Cons)
    qed
  qed simp
  then show "join_with [CHR 0x0D, CHR 0x0A] (crlf_lines s) = s" "crlf_lines s \<noteq> []" by simp_all
qed

text \<open>The last step of the export rewrites nothing but the list of categories: a text in which no line starts that
  property leaves as the encoder wrote it, byte for byte.\<close>

lemma other_lines_untouched:
  assumes "list_all (\<lambda>l. \<not> categories_line l) (crlf_lines out)"
  shows "fixCategoryListEscapes out = out"
  by (simp add: fixCategoryListEscapes_def fix_lines_untouched [OF assms] crlf_lines_join(1))

end
