(* ===== verification/VCard3Whole.thy ===== *)
theory VCard3Whole imports VCard3Trip VCard4Whole begin

text \<open>
  What a card keeps of itself on its way through version 3.0 and back, as one function on cards, and the theorem that export
  and import together compute it.
\<close>

section \<open>The card that is left\<close>

definition has_org :: "organization \<Rightarrow> bool" where
  "has_org o1 \<longleftrightarrow> org_name o1 \<noteq> [] \<or> list_ex (\<lambda>u. ou_name u \<noteq> []) (org_units o1)"

definition titles_of :: "string \<Rightarrow> title list \<Rightarrow> title list" where
  "titles_of k ts = map kept_title (filter (\<lambda>t. ti_name t \<noteq> [] \<and> ti_kind t = k) ts)"

definition dated :: "string \<Rightarrow> anniversary list \<Rightarrow> anniversary list" where
  "dated k as = filter (\<lambda>a. an_kind a = k \<and> an_partial (an_date a) \<noteq> None) as"

definition kept_media :: "string \<Rightarrow> resource list \<Rightarrow> resource list" where
  "kept_media k rs = map (\<lambda>r. uri_resource k (kept_media_uri k r)) (filter (\<lambda>r. rs_kind r = k \<and> carries_media r) rs)"

definition kept_uris :: "resource list \<Rightarrow> resource list" where
  "kept_uris rs = map (\<lambda>r. uri_resource [] (rs_uri r)) (filter (\<lambda>r. rs_uri r \<noteq> []) rs)"

definition kept_note :: "card_note \<Rightarrow> card_note" where
  "kept_note n = \<lparr>nt_id = [], nt_note = nt_note n, nt_author = None, nt_created = None\<rparr>"

definition kept_relation :: "relation \<Rightarrow> relation" where
  "kept_relation r = \<lparr>rl_target = rl_target r, rl_relations = []\<rparr>"

definition kept_updated :: "timestamp option \<Rightarrow> timestamp option" where
  "kept_updated t = (case t of None \<Rightarrow> None | Some t \<Rightarrow> if ts_utc t = [] then None else Some t)"

text \<open>Of the births the last one with a date is kept; titles come before roles, photos before logos before sounds.\<close>

definition kept_card :: "card \<Rightarrow> card" where
  "kept_card c = empty_card\<lparr>cd_uid := cd_uid c, cd_prod_id := cd_prod_id c, cd_updated := kept_updated (cd_updated c),
     cd_name := kept_name (cd_name c), cd_nicknames := map kept_nickname (filter (\<lambda>n. nk_name n \<noteq> []) (cd_nicknames c)),
     cd_organizations := map kept_org (filter has_org (cd_organizations c)),
     cd_titles := titles_of ''title'' (cd_titles c) @ titles_of ''role'' (cd_titles c),
     cd_emails := map kept_email (filter (\<lambda>e. em_address e \<noteq> []) (cd_emails c)),
     cd_phones := map kept_phone (filter (\<lambda>p. ph_number p \<noteq> []) (cd_phones c)),
     cd_impp := map kept_service (with_uri (cd_impp c)), cd_social := map kept_service (with_uri (cd_social c)),
     cd_addresses := map kept_address (written_addresses (cd_addresses c)),
     cd_anniversaries := map kept_anniversary (last_one (dated ''birth'' (cd_anniversaries c)) @ dated ''wedding'' (cd_anniversaries c)),
     cd_notes := map kept_note (filter (\<lambda>n. nt_note n \<noteq> []) (cd_notes c)), cd_keywords := kept_keywords (cd_keywords c),
     cd_media := kept_media ''photo'' (cd_media c) @ kept_media ''logo'' (cd_media c) @ kept_media ''sound'' (cd_media c),
     cd_calendars := kept_uris (cd_calendars c), cd_free_busy := kept_uris (cd_free_busy c), cd_scheduling := kept_uris (cd_scheduling c),
     cd_crypto_keys := map (\<lambda>r. uri_resource [] (kept_media_uri ''key'' r)) (filter carries_media (cd_crypto_keys c)),
     cd_directories := map (\<lambda>r. uri_resource ''entry'' (rs_uri r)) (filter (\<lambda>r. rs_uri r \<noteq> [] \<and> rs_kind r = ''entry'') (cd_directories c)),
     cd_links := map kept_link (filter (\<lambda>l. rs_uri l \<noteq> []) (cd_links c)),
     cd_related_to := map kept_relation (filter (\<lambda>r. rl_target r \<noteq> []) (cd_related_to c))\<rparr>"

text \<open>The cards whose stamps, phone features, dates and media types version 3.0 can write down.\<close>

definition vcard3_domain :: "card \<Rightarrow> bool" where
  "vcard3_domain c \<longleftrightarrow> (case cd_updated c of None \<Rightarrow> True | Some t \<Rightarrow> ts_utc t = [] \<or> utc_stamp (ts_utc t)) \<and>
     list_all phone_fits3 (cd_phones c) \<and> list_all (\<lambda>a. an_kind a \<in> {''birth'', ''wedding''} \<longrightarrow> date_fits3 (an_date a)) (cd_anniversaries c) \<and>
     list_all media_fits3 (cd_media c) \<and> list_all media_fits3 (cd_crypto_keys c)"

section \<open>The lists\<close>

text \<open>What the import reads under a name of an exported card.\<close>

definition read_back :: "(string \<Rightarrow> string list) \<Rightarrow> string list \<Rightarrow> contact_record \<Rightarrow> vcard" where
  "read_back rd ptrs r = wire rd [] (fst (export_card3 ptrs r))"

lemma valued_back: "valued (read_back rd ptrs r) q = map (wire_field rd []) (filter (\<lambda>f. vf_value f \<noteq> []) (exported ptrs r q))"
  by (simp add: valued_def read_back_def exported_def filter_map o_def)

lemma fields_back: "card_fields (read_back rd ptrs r) q = map (wire_field rd []) (exported ptrs r q)"
  by (simp add: read_back_def exported_def)

lemma value_back: "card_value (read_back rd ptrs r) q = (case exported ptrs r q of [] \<Rightarrow> [] | f # fs \<Rightarrow> vf_value f)"
  by (simp add: card_value_def fields_back split: list.split)

lemma wire_plain: "reads_params rd \<Longrightarrow> wire_ok rd []"
  by (simp add: wire_ok_def geo_splices_def)

lemma nicknames_back:
  assumes "wire_ok rd []"
  shows "map nickname_in3 (valued (read_back rd ptrs r) ''NICKNAME'') = map kept_nickname (filter (\<lambda>n. nk_name n \<noteq> []) (cd_nicknames (rc_card r)))"
  unfolding valued_back exported_entries
  by (rule kept_entries) (use nickname_kept [OF assms] in \<open>auto simp: nickname3_def split: if_splits\<close>)

lemma orgs_back:
  "map organization_in3 (valued (read_back rd ptrs r) ''ORG'') = map kept_org (filter has_org (cd_organizations (rc_card r)))"
  unfolding valued_back exported_entries
proof (rule kept_entries)
  fix o1
  have h: "has_org o1 \<longleftrightarrow> \<not> list_all (\<lambda>p. p = []) (org_parts o1)"
    by (auto simp: has_org_def org_parts_def list_all_iff list_ex_iff)
  show "case map_option snd (organization3 o1) of None \<Rightarrow> \<not> has_org o1
    | Some f \<Rightarrow> (has_org o1 \<longleftrightarrow> vf_value f \<noteq> []) \<and> (has_org o1 \<longrightarrow> organization_in3 (wire_field rd [] f) = kept_org o1)"
  proof (cases "organization3 o1")
    case None then show ?thesis using h by (simp add: organization3_def split: if_splits)
  next
    case (Some e)
    then show ?thesis using h organization_kept [of o1 "fst e" "snd e"] by (simp add: organization3_def split: if_splits)
  qed
qed

lemma titles_back: "k = ''title'' \<and> q = ''TITLE'' \<or> k = ''role'' \<and> q = ''ROLE'' \<Longrightarrow>
    map (title_in3 k) (valued (read_back rd ptrs r) q) = titles_of k (cd_titles (rc_card r))"
  unfolding titles_of_def valued_back
  by (elim disjE conjE; simp only: exported_entries; rule kept_entries; auto simp: title_in3_def kept_title_def)

lemma emails_back:
  assumes "wire_ok rd []"
  shows "map email_in3 (valued (read_back rd ptrs r) ''EMAIL'') = map kept_email (filter (\<lambda>e. em_address e \<noteq> []) (cd_emails (rc_card r)))"
  unfolding valued_back exported_entries
  by (rule kept_entries) (use email_kept [OF assms] in \<open>auto simp: email3_def split: if_splits\<close>)

lemma phones_back:
  assumes "wire_ok rd []" and "list_all phone_fits3 (cd_phones (rc_card r))"
  shows "map phone_in3 (valued (read_back rd ptrs r) ''TEL'') = map kept_phone (filter (\<lambda>p. ph_number p \<noteq> []) (cd_phones (rc_card r)))"
  unfolding valued_back exported_entries
  by (rule kept_entries) (use phone_kept [OF assms(1)] assms(2) in \<open>auto simp: phone3_def list_all_iff split: if_splits\<close>)

lemma links_back:
  assumes "wire_ok rd []"
  shows "map link_in3 (valued (read_back rd ptrs r) ''URL'') = map kept_link (filter (\<lambda>l. rs_uri l \<noteq> []) (cd_links (rc_card r)))"
  unfolding valued_back exported_entries
  by (rule kept_entries) (use link_kept [OF assms] in \<open>auto simp: link3_def split: if_splits\<close>)

lemma plain_entries_back:
  "map (\<lambda>f. \<lparr>nt_id = [], nt_note = vf_value f, nt_author = None, nt_created = None\<rparr>) (valued (read_back rd ptrs r) ''NOTE'') =
    map kept_note (filter (\<lambda>n. nt_note n \<noteq> []) (cd_notes (rc_card r)))"
  "map (\<lambda>f. \<lparr>rl_target = vf_value f, rl_relations = []\<rparr>) (valued (read_back rd ptrs r) ''AGENT'') =
    map kept_relation (filter (\<lambda>r. rl_target r \<noteq> []) (cd_related_to (rc_card r)))"
  "uris_in3 (read_back rd ptrs r) ''CALURI'' [] = kept_uris (cd_calendars (rc_card r))"
  "uris_in3 (read_back rd ptrs r) ''FBURL'' [] = kept_uris (cd_free_busy (rc_card r))"
  "uris_in3 (read_back rd ptrs r) ''CALADRURI'' [] = kept_uris (cd_scheduling (rc_card r))"
  "uris_in3 (read_back rd ptrs r) ''SOURCE'' ''entry'' =
    map (\<lambda>r. uri_resource ''entry'' (rs_uri r)) (filter (\<lambda>r. rs_uri r \<noteq> [] \<and> rs_kind r = ''entry'') (cd_directories (rc_card r)))"
  unfolding valued_back exported_entries uris_in3_def kept_uris_def
  by (rule kept_entries; auto simp: note3_def kept_note_def agent3_def kept_relation_def uri3_def entry3_def split: if_splits)+

lemma media_uri_back: "media_fits3 m \<Longrightarrow> carries_media m \<Longrightarrow> kept_media_uri k m \<noteq> []"
  by (auto simp: kept_media_uri_def carries_media_def split: option.splits)

lemma media_back:
  assumes "wire_ok rd []" and "list_all media_fits3 (cd_media (rc_card r))"
    and "k = ''photo'' \<and> q = ''PHOTO'' \<or> k = ''logo'' \<and> q = ''LOGO'' \<or> k = ''sound'' \<and> q = ''SOUND''"
  shows "media_in3 (read_back rd ptrs r) q k = kept_media k (cd_media (rc_card r))"
proof -
  let ?m = "cd_media (rc_card r)"
  let ?out = "\<lambda>m. if rs_uri m \<noteq> [] \<and> rs_kind m = k then Some (exportMediaField (rs_uri m) (rs_media_type m)) else None"
  have x: "exported ptrs r q = List.map_filter ?out ?m" using assms(3) by (auto simp: exported_media)
  have read: "map (\<lambda>f. importMediaURI f k) (map (wire_field rd []) (filter (\<lambda>f. vf_value f \<noteq> []) (List.map_filter ?out ?m))) =
      map (kept_media_uri k) (filter (\<lambda>r. rs_kind r = k \<and> carries_media r) ?m)"
    by (rule kept_entries) (use media_kept [OF assms(1)] assms(2) in \<open>auto simp: list_all_iff carries_media_def split: if_splits\<close>)
  have drop: "List.map_filter (\<lambda>f. if importMediaURI f k = [] then None else Some (uri_resource k (importMediaURI f k))) fs =
      map (uri_resource k) (filter (\<lambda>u. u \<noteq> []) (map (\<lambda>f. importMediaURI f k) fs))" for fs
    by (induction fs) (simp_all add: List.map_filter_simps)
  have all: "filter (\<lambda>u. u \<noteq> []) (map (kept_media_uri k) (filter (\<lambda>r. rs_kind r = k \<and> carries_media r) ?m)) =
      map (kept_media_uri k) (filter (\<lambda>r. rs_kind r = k \<and> carries_media r) ?m)"
    using assms(2) media_uri_back by (auto simp: filter_id_conv list_all_iff)
  show ?thesis unfolding media_in3_def valued_back drop x read all kept_media_def by simp
qed

lemma keys_back:
  assumes "wire_ok rd []" and "list_all media_fits3 (cd_crypto_keys (rc_card r))"
  shows "map (\<lambda>f. uri_resource [] (importMediaURI f ''key'')) (valued (read_back rd ptrs r) ''KEY'') =
    map (\<lambda>r. uri_resource [] (kept_media_uri ''key'' r)) (filter carries_media (cd_crypto_keys (rc_card r)))"
  unfolding valued_back exported_entries
  by (rule kept_entries) (use media_kept [OF assms(1)] assms(2) in \<open>auto simp: key3_def list_all_iff carries_media_def split: if_splits\<close>)

text \<open>Numbered entries: nothing without a URI is exported, so every field carries a value.\<close>

lemma numbered_map: "(\<And>g x. (g, x) \<in> set (numbered P n xs) \<Longrightarrow> f (g, x) = h x) \<Longrightarrow> map f (numbered P n xs) = map h xs"
proof -
  assume "\<And>g x. (g, x) \<in> set (numbered P n xs) \<Longrightarrow> f (g, x) = h x"
  then have "map f (numbered P n xs) = map (h \<circ> snd) (numbered P n xs)" by auto
  then show ?thesis by (simp flip: map_map)
qed

lemma numbered_mem: "(g, x) \<in> set (numbered P n xs) \<Longrightarrow> x \<in> set xs"
  using numbered_snd [of P n xs] by (metis snd_conv image_eqI set_map)

lemma services_back:
  assumes "wire_ok rd []"
  shows "map (service_in3 (read_back rd ptrs r)) (valued (read_back rd ptrs r) ''IMPP'') = map kept_service (with_uri (cd_impp (rc_card r)))"
    "map (service_in3 (read_back rd ptrs r)) (valued (read_back rd ptrs r) ''X-SOCIALPROFILE'') = map kept_service (with_uri (cd_social (rc_card r)))"
proof -
  have v: "filter (\<lambda>f. vf_value f \<noteq> []) (map (\<lambda>x. in_group (fst x) (service_field (snd x) k)) (numbered P n (with_uri ss))) =
      map (\<lambda>x. in_group (fst x) (service_field (snd x) k)) (numbered P n (with_uri ss))" for k P n ss
    by (auto simp: filter_id_conv service_field_def with_uri_def dest!: numbered_mem)
  show "map (service_in3 (read_back rd ptrs r)) (valued (read_back rd ptrs r) ''IMPP'') = map kept_service (with_uri (cd_impp (rc_card r)))"
    unfolding valued_back exported_services impp_numbers_def v map_map
    by (rule numbered_map) (simp add: read_back_def service_back3 [OF assms] impp_numbers_def)
  show "map (service_in3 (read_back rd ptrs r)) (valued (read_back rd ptrs r) ''X-SOCIALPROFILE'') = map kept_service (with_uri (cd_social (rc_card r)))"
    unfolding valued_back exported_services social_numbers_def v map_map
    by (rule numbered_map) (simp add: read_back_def service_back3 [OF assms] social_numbers_def)
qed

lemma no_ungrouped_companions:
  assumes "companion_of h get" and "\<And>x. ([], x) \<in> set L \<Longrightarrow> get x = []"
  shows "ungroupedFields (map (wire_field rd sp) (List.map_filter (\<lambda>(g, x). h g x) L)) = []"
  unfolding ungroupedFields_def filter_empty_conv
proof (intro ballI notI)
  fix f assume "f \<in> set (map (wire_field rd sp) (List.map_filter (\<lambda>(g, x). h g x) L))" and g: "vf_group f = []"
  then obtain g' x f' where m: "(g', x) \<in> set L" "h g' x = Some f'" "f = wire_field rd sp f'" by (auto simp: map_filter_def)
  have "case h g' x of None \<Rightarrow> get x = [] | Some f \<Rightarrow> get x \<noteq> [] \<and> vf_value f = get x \<and> vf_group f = g'"
    using assms(1) unfolding companion_of_def by blast
  then show False using m g assms(2) by auto
qed

lemma nothing_to_attach:
  assumes "ungroupedFields (card_fields vc ''LABEL'') = []" and "ungroupedFields (card_fields vc ''GEO'') = []"
    and "ungroupedFields (card_fields vc ''TZ'') = []"
  shows "importUngroupedAddressCompanions vc as = (map snd as, [])"
proof -
  consider "as = []" | f a where "as = [(f, a)]" | e1 e2 es where "as = e1 # e2 # es" by (metis list.exhaust surj_pair)
  then show ?thesis by cases (simp_all add: importUngroupedAddressCompanions_def assms attach_geo_def attach_zone_def warn_if_def)
qed

lemma addresses_back:
  assumes "wire_ok rd []"
  shows "importAddresses3 (read_back rd ptrs r) = (map kept_address (written_addresses (cd_addresses (rc_card r))), [])"
proof -
  note own = address_groups(2) [of _ "rc_card r"]
  note e = exported_addresses [of ptrs r, unfolded exported_def]
  have none: "ungroupedFields (card_fields (read_back rd ptrs r) ''LABEL'') = []" "ungroupedFields (card_fields (read_back rd ptrs r) ''GEO'') = []"
    "ungroupedFields (card_fields (read_back rd ptrs r) ''TZ'') = []"
    unfolding fields_back exported_addresses
    by (rule no_ungrouped_companions [OF companions(3)] no_ungrouped_companions [OF geo_companion] no_ungrouped_companions [OF companions(4)];
        use own in blast)+
  have "map (address_in3 (read_back rd ptrs r)) (card_fields (read_back rd ptrs r) ''ADR'') = map kept_address (written_addresses (cd_addresses (rc_card r)))"
    unfolding fields_back exported_addresses address_numbers_def map_map
    by (rule numbered_map) (simp add: read_back_def address_back3 [OF assms] address_numbers_def)
  then show ?thesis unfolding importAddresses3_def nothing_to_attach [OF none] by (simp add: o_def)
qed

section \<open>Dates, names and the rest\<close>

lemma dated_written:
  assumes "list_all (\<lambda>a. an_kind a \<in> {''birth'', ''wedding''} \<longrightarrow> date_fits3 (an_date a)) as" and "k \<in> {''birth'', ''wedding''}"
  shows "with_date k as = dated k as" "a \<in> set (dated k as) \<Longrightarrow> parseDatePartial (formatDatePartial (an_date a)) = an_date a"
    "a \<in> set (dated k as) \<Longrightarrow> formatDatePartial (an_date a) \<noteq> []" "a \<in> set (dated k as) \<Longrightarrow> an_kind a = k"
proof -
  have shown: "formatDatePartial d \<noteq> [] \<longleftrightarrow> an_partial d \<noteq> None" if "date_fits3 d" for d
  proof (cases "an_partial d")
    case None then show ?thesis using that by (simp add: formatDatePartial_def date_fits3_def)
  next
    case (Some p)
    then have w: "writable_date p" and t: "an_timestamp d = None" using that by (simp_all add: date_fits3_def)
    have "formatPartialDate (Some p) \<noteq> []" using parse_format_date [OF w] by (auto simp: parsePartialDate_def)
    then show ?thesis using Some w t by (auto simp: formatDatePartial_def writable_date_def)
  qed
  have fits: "date_fits3 (an_date a)" if "a \<in> set as" "an_kind a = k" for a using assms that by (auto simp: list_all_iff)
  show "with_date k as = dated k as" unfolding with_date_def dated_def using shown fits by (auto intro!: filter_cong)
  assume "a \<in> set (dated k as)"
  then have a: "date_fits3 (an_date a)" "an_partial (an_date a) \<noteq> None" "an_kind a = k" using fits by (auto simp: dated_def)
  then show "formatDatePartial (an_date a) \<noteq> []" "an_kind a = k" using shown by blast+
  then show "parseDatePartial (formatDatePartial (an_date a)) = an_date a" using date_kept a(1) by blast
qed

lemma anniversaries_back3:
  assumes "list_all (\<lambda>a. an_kind a \<in> {''birth'', ''wedding''} \<longrightarrow> date_fits3 (an_date a)) (cd_anniversaries (rc_card r))"
  shows "importAnniversaries3 (read_back rd ptrs r) =
    map kept_anniversary (last_one (dated ''birth'' (cd_anniversaries (rc_card r))) @ dated ''wedding'' (cd_anniversaries (rc_card r)))"
proof -
  let ?as = "cd_anniversaries (rc_card r)"
  note b = dated_written [OF assms, of "''birth''", simplified]
  note w = dated_written [OF assms, of "''wedding''", simplified]
  have kept: "anniversary_in3 (an_kind a) (formatDatePartial (an_date a)) = kept_anniversary a" if "parseDatePartial (formatDatePartial (an_date a)) = an_date a" for a
    using that by (simp add: anniversary_in3_def kept_anniversary_def)
  have one: "exported ptrs r ''BDAY'' = map (\<lambda>a. field (formatDatePartial (an_date a))) (last_one (dated ''birth'' ?as))"
    and many: "exported ptrs r ''X-ANNIVERSARY'' = map (\<lambda>a. field (formatDatePartial (an_date a))) (dated ''wedding'' ?as)"
    using export_fields3(2,3) [where q = "''UID''" and ptrs = ptrs and r = r] by (simp_all add: exported_def b(1) w(1) last_one_def knownPropNames_def)
  have birth: "(if card_value (read_back rd ptrs r) ''BDAY'' = [] then [] else [anniversary_in3 ''birth'' (card_value (read_back rd ptrs r) ''BDAY'')]) =
      map kept_anniversary (last_one (dated ''birth'' ?as))"
    unfolding value_back one using b(2-4) [of "last (dated ''birth'' ?as)"] kept [of "last (dated ''birth'' ?as)"] by (auto simp: last_one_def)
  have "map (\<lambda>f. anniversary_in3 ''wedding'' (vf_value f)) (valued (read_back rd ptrs r) ''X-ANNIVERSARY'') = map kept_anniversary (dated ''wedding'' ?as)"
    unfolding valued_back many using w(2-4) kept by (auto simp: filter_map o_def) (metis filter_True w(3))
  then show ?thesis unfolding importAnniversaries3_def birth by simp
qed

lemma keywords_back: "importKeywords3 (read_back rd ptrs r) = kept_keywords (cd_keywords (rc_card r))"
proof (cases "filter (\<lambda>k. k \<noteq> []) (cd_keywords (rc_card r)) = []")
  case True
  then show ?thesis using no_keywords [of "cd_keywords (rc_card r)"]
    by (simp add: importKeywords3_def value_back exported_scalars) (simp add: kept_keywords_def)
next
  case False
  have "join_with '','' (filter (\<lambda>k. k \<noteq> []) (cd_keywords (rc_card r))) = [] \<Longrightarrow> kept_keywords (cd_keywords (rc_card r)) = []"
    using keywords_kept [OF False] no_keywords [of "cd_keywords (rc_card r)"] by (simp add: trim_space_def)
  then show ?thesis using False keywords_kept [OF False] no_keywords [of "cd_keywords (rc_card r)"]
    by (simp add: importKeywords3_def value_back exported_scalars)
qed

lemma name_back3: "importName3 (read_back rd ptrs r) = kept_name (cd_name (rc_card r))"
proof (cases "cd_name (rc_card r)")
  case None then show ?thesis by (simp add: importName3_def value_back exported_scalars kept_name_def Let_def)
next
  case (Some n)
  have v: "card_value (read_back rd ptrs r) ''FN'' = kept_full n"
    "card_value (read_back rd ptrs r) ''N'' = (if kept_name_parts (nm_components n) = [] then [] else assembleN3 (n3_of (nm_components n)))"
    using Some by (simp_all add: value_back exported_scalars)
  have "kept_name_parts (nm_components n) \<noteq> [] \<Longrightarrow> assembleN3 (n3_of (nm_components n)) \<noteq> []"
    using assembleN3_not_Nil no_name_parts by blast
  then show ?thesis unfolding importName3_def v Let_def
    by (simp add: Some kept_name_def disassemble_assembleN3 name_parts_back del: List.map_filter_simps)
qed

lemma updated_back:
  assumes "case cd_updated (rc_card r) of None \<Rightarrow> True | Some t \<Rightarrow> ts_utc t = [] \<or> utc_stamp (ts_utc t)"
  shows "updated_in3 (read_back rd ptrs r) = kept_updated (cd_updated (rc_card r))"
  using assms stamp_kept3 stamp_written3
  by (auto simp: updated_in3_def value_back exported_scalars kept_updated_def split: option.splits)

section \<open>The whole card\<close>

lemma import_card3_card: "rc_card (fst (import_card3 vc)) = (let (adrs, ds) = importAddresses3 vc in empty_card\<lparr>cd_uid := card_value vc ''UID'',
    cd_prod_id := card_value vc ''PRODID'', cd_updated := updated_in3 vc,
    cd_name := importName3 vc, cd_nicknames := map nickname_in3 (valued vc ''NICKNAME''),
    cd_organizations := map organization_in3 (valued vc ''ORG''),
    cd_titles := map (title_in3 ''title'') (valued vc ''TITLE'') @ map (title_in3 ''role'') (valued vc ''ROLE''),
    cd_emails := map email_in3 (valued vc ''EMAIL''), cd_phones := map phone_in3 (valued vc ''TEL''),
    cd_impp := map (service_in3 vc) (valued vc ''IMPP''), cd_social := map (service_in3 vc) (valued vc ''X-SOCIALPROFILE''),
    cd_addresses := adrs, cd_anniversaries := importAnniversaries3 vc,
    cd_notes := map (\<lambda>f. \<lparr>nt_id = [], nt_note = vf_value f, nt_author = None, nt_created = None\<rparr>) (valued vc ''NOTE''),
    cd_keywords := importKeywords3 vc,
    cd_media := media_in3 vc ''PHOTO'' ''photo'' @ media_in3 vc ''LOGO'' ''logo'' @ media_in3 vc ''SOUND'' ''sound'',
    cd_calendars := uris_in3 vc ''CALURI'' [], cd_free_busy := uris_in3 vc ''FBURL'' [],
    cd_scheduling := uris_in3 vc ''CALADRURI'' [],
    cd_crypto_keys := map (\<lambda>f. uri_resource [] (importMediaURI f ''key'')) (valued vc ''KEY''),
    cd_directories := uris_in3 vc ''SOURCE'' ''entry'', cd_links := map link_in3 (valued vc ''URL''),
    cd_related_to := map (\<lambda>f. \<lparr>rl_target = vf_value f, rl_relations = []\<rparr>) (valued vc ''AGENT'')\<rparr>)"
  "snd (import_card3 vc) = snd (importAddresses3 vc)"
  by (simp_all add: import_card3_def Let_def split: prod.split)

lemma card_kept:
  assumes "reads_params rd" and d: "vcard3_domain (rc_card r)"
  shows "rc_card (fst (import_card3 (read_back rd ptrs r))) = kept_card (rc_card r)" "snd (import_card3 (read_back rd ptrs r)) = []"
proof -
  note w = wire_plain [OF assms(1)]
  have doms: "case cd_updated (rc_card r) of None \<Rightarrow> True | Some t \<Rightarrow> ts_utc t = [] \<or> utc_stamp (ts_utc t)" "list_all phone_fits3 (cd_phones (rc_card r))"
    "list_all (\<lambda>a. an_kind a \<in> {''birth'', ''wedding''} \<longrightarrow> date_fits3 (an_date a)) (cd_anniversaries (rc_card r))"
    "list_all media_fits3 (cd_media (rc_card r))" "list_all media_fits3 (cd_crypto_keys (rc_card r))"
    using d unfolding vcard3_domain_def by blast+
  have scalars: "card_value (read_back rd ptrs r) ''UID'' = cd_uid (rc_card r)" "card_value (read_back rd ptrs r) ''PRODID'' = cd_prod_id (rc_card r)"
    by (simp_all add: value_back exported_scalars)
  show "rc_card (fst (import_card3 (read_back rd ptrs r))) = kept_card (rc_card r)"
    unfolding import_card3_card(1) kept_card_def addresses_back [OF w] scalars updated_back [OF doms(1)] name_back3 nicknames_back [OF w] orgs_back
      titles_back [where k = "''title''" and q = "''TITLE''", simplified] titles_back [where k = "''role''" and q = "''ROLE''", simplified]
      emails_back [OF w] phones_back [OF w doms(2)] services_back [OF w] anniversaries_back3 [OF doms(3)] plain_entries_back keywords_back
      media_back [OF w doms(4), where k = "''photo''" and q = "''PHOTO''", simplified] media_back [OF w doms(4), where k = "''logo''" and q = "''LOGO''", simplified]
      media_back [OF w doms(4), where k = "''sound''" and q = "''SOUND''", simplified] keys_back [OF w doms(5)] links_back [OF w]
    by simp
  show "snd (import_card3 (read_back rd ptrs r)) = []" by (simp add: import_card3_card(2) addresses_back [OF w])
qed


lemma sample_person_fits3: "vcard3_domain sample_person"
  by (simp add: vcard3_domain_def sample_person_def empty_card_def sample_birth_def date_fits3_def writable_date_def part_ok_def)


end
