(* ===== verification/VCard3Settled.thy ===== *)
theory VCard3Settled imports VCard3Whole begin

text \<open>
  A second trip through version 3.0 changes nothing any more, so a card that is converted again and again does not wear
  away; and the entries for which the adapter does less than its comments say.
\<close>

section \<open>Entries\<close>

lemma settle_list:
  assumes "\<And>x. k (k x) = k x" and "\<And>x. P (k x) = P x"
  shows "map k (filter P (map k (filter P xs))) = map k (filter P xs)"
  using assms by (induction xs) auto

lemma settled_words [simp]: "ctx3 (ctx3 cs) = ctx3 cs" "pref3 (pref3 p) = pref3 p"
  by (simp_all add: ctx3_def pref3_def)

lemma settled_entries [simp]: "kept_nickname (kept_nickname n) = kept_nickname n" "kept_org (kept_org o1) = kept_org o1"
  "kept_email (kept_email e) = kept_email e" "kept_phone (kept_phone p) = kept_phone p" "kept_service (kept_service s) = kept_service s"
  "kept_link (kept_link l) = kept_link l" "kept_note (kept_note nt) = kept_note nt" "kept_relation (kept_relation r) = kept_relation r"
  by (simp_all add: kept_nickname_def kept_org_def kept_email_def kept_phone_def kept_service_def kept_link_def kept_note_def kept_relation_def
      uri_resource_def filter_map o_def)

lemma carried_entries [simp]: "nk_name (kept_nickname n) = nk_name n" "em_address (kept_email e) = em_address e" "ph_number (kept_phone p) = ph_number p"
  "os_uri (kept_service s) = os_uri s" "rs_uri (kept_link l) = rs_uri l" "nt_note (kept_note nt) = nt_note nt" "rl_target (kept_relation r) = rl_target r"
  by (simp_all add: kept_nickname_def kept_email_def kept_phone_def kept_service_def kept_link_def kept_note_def kept_relation_def uri_resource_def)

lemma carried_org [simp]: "has_org (kept_org o1) = has_org o1"
  by (auto simp: has_org_def kept_org_def list_ex_iff)

lemma settled_titles: "titles_of ''title'' (titles_of ''title'' ts @ titles_of ''role'' ts) = titles_of ''title'' ts"
  "titles_of ''role'' (titles_of ''title'' ts @ titles_of ''role'' ts) = titles_of ''role'' ts"
  by (simp_all add: titles_of_def kept_title_def filter_map o_def conj_commute)

lemma settled_uris: "kept_uris (kept_uris rs) = kept_uris rs"
  by (simp add: kept_uris_def uri_resource_def filter_map o_def)

lemma last_dated: "dated k as \<noteq> [] \<Longrightarrow> an_kind (last (dated k as)) = k \<and> an_partial (an_date (last (dated k as))) \<noteq> None"
  using last_in_set [of "dated k as"] by (auto simp: dated_def)

lemma settled_dates: "map kept_anniversary (last_one (dated ''birth'' xs) @ dated ''wedding'' xs) =
    map kept_anniversary (last_one (dated ''birth'' as) @ dated ''wedding'' as)"
  if "xs = map kept_anniversary (last_one (dated ''birth'' as) @ dated ''wedding'' as)"
proof -
  have d: "dated k (map kept_anniversary zs) = map kept_anniversary (dated k zs)" "dated k (ys @ zs) = dated k ys @ dated k zs" for k ys zs
    by (simp_all add: dated_def kept_anniversary_def filter_map o_def)
  have one: "dated k [a] = (if an_kind a = k \<and> an_partial (an_date a) \<noteq> None then [a] else [])" "dated k [] = []" for k a by (simp_all add: dated_def)
  have k: "dated ''birth'' (dated ''wedding'' as) = []" "dated ''wedding'' (dated ''wedding'' as) = dated ''wedding'' as"
    by (simp_all add: dated_def filter_empty_conv)
  have b: "dated ''birth'' (last_one (dated ''birth'' as)) = last_one (dated ''birth'' as)" "dated ''wedding'' (last_one (dated ''birth'' as)) = []"
    using last_dated [of "''birth''" as] by (auto simp: last_one_def one)
  have l: "last_one (map f ys) = map f (last_one ys)" "last_one (last_one ys) = last_one ys" for f :: "anniversary \<Rightarrow> anniversary" and ys :: "anniversary list"
    by (simp_all add: last_one_def last_map)
  have kk: "kept_anniversary (kept_anniversary a) = kept_anniversary a" for a by (simp add: kept_anniversary_def)
  show ?thesis using that by (simp add: d k b l kk o_def)
qed

section \<open>Names, addresses and keywords\<close>

lemma last_of_kinds:
  assumes "distinct ks" and "\<And>k x. mk k = Some x \<Longrightarrow> kind x = k"
  shows "filter (\<lambda>x. kind x = k) (List.map_filter mk ks) = (if k \<in> set ks then case mk k of None \<Rightarrow> [] | Some x \<Rightarrow> [x] else [])"
  using assms by (induction ks) (auto simp: List.map_filter_simps split: option.splits)

lemma last_value_kept: "last_value (kept_name_parts cs) k = (if k \<in> set n3_kinds then last_value cs k else [])"
proof -
  have "distinct n3_kinds" by (simp add: n3_kinds_def)
  then show ?thesis unfolding last_value_def [of "kept_name_parts cs"] unfolding kept_name_parts_def by (subst last_of_kinds) (auto split: if_splits)
qed

lemma last_part_kept: "last_part (kept_parts cs) k = (if k \<in> set adr_kinds3 then last_part cs k else [])"
proof -
  have "distinct adr_kinds3" by (simp add: adr_kinds3_def)
  then show ?thesis unfolding last_part_def [of "kept_parts cs"] unfolding kept_parts_def by (subst last_of_kinds) (auto split: if_splits)
qed

lemma settled_name: "kept_name (kept_name n) = kept_name n"
proof (cases n)
  case (Some m)
  have p: "kept_name_parts (kept_name_parts cs) = kept_name_parts cs" for cs
    unfolding kept_name_parts_def [of "kept_name_parts cs"] last_value_kept unfolding kept_name_parts_def by (rule map_filter_cong) simp
  have "n3_of (kept_name_parts cs) = n3_of cs" for cs by (simp add: n3_of_def last_value_kept n3_kinds_def)
  note p = p this
  show ?thesis using Some by (auto simp: kept_name_def p kept_full_def)
qed (simp add: kept_name_def)

lemma settled_parts: "kept_parts (kept_parts cs) = kept_parts cs"
  unfolding kept_parts_def [of "kept_parts cs"] last_part_kept unfolding kept_parts_def by (rule map_filter_cong) simp

lemma cut_at_append: "c \<notin> set a \<Longrightarrow> cut_at c (a @ c # b) = Some (a, b)"
  by (induction a) auto

lemma cut_at_parts: "cut_at c s = Some (a, b) \<Longrightarrow> c \<notin> set a \<and> s = a @ c # b" "cut_at c s = None \<Longrightarrow> c \<notin> set s"
  by (induction c s arbitrary: a b rule: cut_at.induct) (auto split: if_splits option.splits)

lemma cut_at_none: "cut_at c s = None \<longleftrightarrow> c \<notin> set s"
  by (induction c s rule: cut_at.induct) auto

lemma geo_parts:
  assumes "geoURIToLatLon u = Some g"
  shows "\<exists>a b. g = a @ CHR '';'' # b \<and> CHR '';'' \<notin> set a \<and> CHR '';'' \<notin> set b \<and> CHR '','' \<notin> set a \<and> a \<noteq> [] \<and> b \<noteq> []"
proof -
  define t where "t = (case cut_at CHR '';'' (drop 4 u) of Some (a, _) \<Rightarrow> a | None \<Rightarrow> drop 4 u)"
  have t: "CHR '';'' \<notin> set t" using cut_at_parts [of "CHR '';''" "drop 4 u"] by (auto simp: t_def split: option.splits)
  obtain a b where c: "cut_at CHR '','' t = Some (a, b)" "a \<noteq> []" "b \<noteq> []" "g = a @ '';'' @ b"
    using assms by (auto simp: geoURIToLatLon_def t_def [symmetric] split: if_splits option.splits)
  then show ?thesis using t cut_at_parts(1) [OF c(1)] by auto
qed

lemma settled_coordinates: "kept_coordinates (kept_coordinates u) = kept_coordinates u"
proof (cases "geoURIToLatLon u")
  case None then show ?thesis by (simp add: kept_coordinates_def) (simp add: geoURIToLatLon_def to_lower_def)
next
  case (Some g)
  then obtain a b where g: "g = a @ CHR '';'' # b" "CHR '';'' \<notin> set a" "CHR '';'' \<notin> set b" "CHR '','' \<notin> set a" "a \<noteq> []" "b \<noteq> []"
    using geo_parts by blast
  have l: "latLonToGeoURI g = Some (''geo:'' @ a @ '','' @ b)" using g by (simp add: latLonToGeoURI_def cut_at_append)
  have n: "cut_at CHR '';'' (a @ CHR '','' # b) = None"
    using g by (simp add: cut_at_none)
  have p: "has_prefix (to_lower (''geo:'' @ s)) ''geo:''" for s by (simp add: to_lower_def to_lower_char_def)
  have "geoURIToLatLon (''geo:'' @ a @ '','' @ b) = Some g"
    using g p n by (simp add: geoURIToLatLon_def cut_at_append)
  then show ?thesis using Some l by (simp add: kept_coordinates_def)
qed

lemma settled_address [simp]: "kept_address (kept_address a) = kept_address a"
  by (simp add: kept_address_def settled_parts settled_coordinates)

text \<open>An address that is written although nothing of it can be: components without a value, or coordinates that are not a
  latitude and a longitude.\<close>

definition hollow :: "address \<Rightarrow> bool" where
  "hollow a \<longleftrightarrow> \<not> skipped_address a \<and> skipped_address (kept_address a)"

lemma settled_addresses: "list_all (\<lambda>a. \<not> hollow a) as \<Longrightarrow>
    map kept_address (written_addresses (map kept_address (written_addresses as))) = map kept_address (written_addresses as)"
  by (induction as) (auto simp: written_addresses_def hollow_def)

lemma trim_space_twice: "trim_space (trim_space s) = trim_space s" "set (trim_space s) \<subseteq> set s"
proof -
  have t: "dropWhile is_space (rev (dropWhile is_space (rev (dropWhile is_space s)))) = rev (dropWhile is_space (rev (dropWhile is_space s)))" for s
  proof -
    have "dropWhile is_space s = [] \<or> \<not> is_space (hd (dropWhile is_space s))" using hd_dropWhile by blast
    moreover have "rev (dropWhile is_space (rev u)) = [] \<or> hd (rev (dropWhile is_space (rev u))) = hd u" for u :: string
      by (induction u) (auto simp: dropWhile_append)
    ultimately show ?thesis by (metis dropWhile_eq_self_iff dropWhile.simps(1) rev.simps(1))
  qed
  show "trim_space (trim_space s) = trim_space s" by (simp add: trim_space_def t)
  show "set (trim_space s) \<subseteq> set s" by (auto simp: trim_space_def dest!: set_dropWhileD)
qed

lemma split_pieces: "p \<in> set (split_on c s) \<Longrightarrow> c \<notin> set p"
proof (induction s arbitrary: p)
  case (Cons x s)
  obtain q qs where "split_on c s = q # qs" using split_on_not_Nil by (meson list.exhaust)
  then show ?case using Cons by (auto split: if_splits)
qed simp

lemma settled_keywords: "kept_keywords (kept_keywords ks) = kept_keywords ks"
proof -
  have "piece_ok w" if "w \<in> set (kept_keywords ks)" for w
    using that trim_space_twice split_pieces by (fastforce simp: kept_keywords_def piece_ok_def)
  then have "concat (map (\<lambda>k. filter (\<lambda>w. w \<noteq> []) (map trim_space (split_on CHR '','' k))) ws) = ws" if "set ws \<subseteq> set (kept_keywords ks)" for ws
    using that one_piece by (induction ws) auto
  then show ?thesis unfolding kept_keywords_def [of "kept_keywords ks"] by blast
qed

section \<open>Inline data\<close>

lemma char_cases: "to_upper_char (to_lower_char (to_upper_char c)) = to_upper_char c" "to_lower_char (to_upper_char (to_lower_char c)) = to_lower_char c"
  "is_space (to_lower_char c) = is_space c" "is_space (to_upper_char c) = is_space c" "to_lower_char c = CHR '','' \<longleftrightarrow> c = CHR '',''"
proof -
  define n :: nat where "n = of_char c"
  have n: "n < 256" "c = char_of n" by (simp_all add: n_def)
  show "to_upper_char (to_lower_char (to_upper_char c)) = to_upper_char c" "to_lower_char (to_upper_char (to_lower_char c)) = to_lower_char c"
    "is_space (to_lower_char c) = is_space c" "is_space (to_upper_char c) = is_space c"
    using n by (auto simp: to_upper_char_def to_lower_char_def Let_def is_space_def)
  have same: "d = e \<longleftrightarrow> (of_char d :: nat) = of_char e" for d e :: char by (simp only: of_char_eq_iff)
  show "to_lower_char c = CHR '','' \<longleftrightarrow> c = CHR '',''"
    unfolding same [of "to_lower_char c"] same [of c] using n by (auto simp: to_lower_char_def Let_def)
qed

text \<open>A type that was written once is written the same way again.\<close>

definition settled_type :: "string \<Rightarrow> bool" where
  "settled_type t \<longleftrightarrow> CHR '','' \<notin> set t \<and> to_upper (to_lower t) = t \<and> (t = [] \<or> \<not> is_space (last t))"

lemma last_trim: "trim_space s \<noteq> [] \<Longrightarrow> \<not> is_space (last (trim_space s))"
proof -
  assume n: "trim_space s \<noteq> []"
  then have "dropWhile is_space (rev (dropWhile is_space s)) \<noteq> []" by (simp add: trim_space_def)
  then have "\<not> is_space (hd (dropWhile is_space (rev (dropWhile is_space s))))" by (rule hd_dropWhile)
  then show ?thesis by (simp add: trim_space_def last_rev)
qed

lemma inline_settled: "plain (inline_type r mt) \<Longrightarrow> settled_type (inline_type r mt)"
proof -
  let ?m = "trim_space (if mt = [] then rs_media_type r else mt)"
  obtain b where b: "inline_type r mt = to_upper b" "b = [] \<or> last b = last ?m \<and> ?m \<noteq> []"
  proof (cases "cut_at CHR ''/'' ?m")
    case None
    then show ?thesis using that [of ?m] by (auto simp: inline_type_def mtypeToV3Type_def)
  next
    case (Some e)
    then have "?m = fst e @ CHR ''/'' # snd e" using cut_at_parts(1) [of _ ?m "fst e" "snd e"] by simp
    then have "snd e = [] \<or> last (snd e) = last ?m \<and> ?m \<noteq> []" by (metis last_ConsR last_appendR list.distinct(1) append_is_Nil_conv)
    then show ?thesis using that [of "snd e"] Some by (simp add: inline_type_def mtypeToV3Type_def split: prod.splits)
  qed
  assume "plain (inline_type r mt)"
  then have c: "CHR '','' \<notin> set (to_upper b)" using b(1) by (auto simp: plain_def special_chars_def list_all_iff)
  have s: "b = [] \<or> \<not> is_space (last (to_upper b))" using b(2) last_trim by (auto simp: to_upper_def last_map char_cases)
  have u: "to_upper (to_lower (to_upper b)) = to_upper b" by (simp add: to_upper_def to_lower_def o_def char_cases)
  show ?thesis unfolding settled_type_def b(1) using c s u by (auto simp: to_upper_def)
qed

lemma settled_mtype:
  assumes "settled_type t"
  shows "CHR '','' \<notin> set (mtypeFromV3 k t)" "mtypeFromV3 k t \<noteq> []" "mtypeFromV3 k (mtypeToV3Type (mtypeFromV3 k t)) = mtypeFromV3 k t"
    "settled_type (mtypeToV3Type (mtypeFromV3 k t))" "mtypeToV3Type (mtypeFromV3 k t) \<in> {t, ''JPEG'', ''BASIC'', ''OCTET-STREAM''}"
proof -
  have trim: "mtypeToV3Type (c # p @ CHR ''/'' # to_lower t) = t" if "CHR ''/'' \<notin> set (c # p)" "\<not> is_space c" "t \<noteq> []" for c p
  proof -
    have l: "\<not> is_space (last (to_lower t))" "to_lower t \<noteq> []"
      using assms that(3) by (auto simp: settled_type_def to_lower_def last_map char_cases)
    have "trim_space (c # p @ CHR ''/'' # to_lower t) = c # p @ CHR ''/'' # to_lower t"
      by (rule trim_space_id) (use that l in auto)
    then show ?thesis using cut_at_append [OF that(1), of "to_lower t"] assms by (simp add: mtypeToV3Type_def Let_def settled_type_def)
  qed
  have words: "mtypeToV3Type ''image/jpeg'' = ''JPEG''" "mtypeToV3Type ''audio/basic'' = ''BASIC''"
    "mtypeToV3Type ''application/octet-stream'' = ''OCTET-STREAM''" "to_lower ''JPEG'' = ''jpeg''" "to_lower ''BASIC'' = ''basic''"
    "to_lower ''OCTET-STREAM'' = ''octet-stream''" "settled_type ''JPEG''" "settled_type ''BASIC''" "settled_type ''OCTET-STREAM''"
    "to_lower [] = []" "\<not> is_space CHR ''i''" "\<not> is_space CHR ''a''"
    by code_simp+
  have pre: "t \<noteq> [] \<Longrightarrow> mtypeToV3Type (''image/'' @ to_lower t) = t" "t \<noteq> [] \<Longrightarrow> mtypeToV3Type (''audio/'' @ to_lower t) = t"
    "t \<noteq> [] \<Longrightarrow> mtypeToV3Type (''application/'' @ to_lower t) = t"
    using trim [of "CHR ''i''" "''mage''"] trim [of "CHR ''a''" "''udio''"] trim [of "CHR ''a''" "''pplication''"] words by simp_all
  have c: "CHR '','' \<notin> set (to_lower t)" using assms by (auto simp: settled_type_def to_lower_def) (metis char_cases(5))
  have e: "to_lower t = [] \<longleftrightarrow> t = []" by (simp add: to_lower_def)
  show "CHR '','' \<notin> set (mtypeFromV3 k t)" "mtypeFromV3 k t \<noteq> []" using c by (auto simp: mtypeFromV3_def Let_def)
  show "mtypeFromV3 k (mtypeToV3Type (mtypeFromV3 k t)) = mtypeFromV3 k t" using pre words
    by (cases "t = []") (auto simp: mtypeFromV3_def Let_def e)
  show "settled_type (mtypeToV3Type (mtypeFromV3 k t))" "mtypeToV3Type (mtypeFromV3 k t) \<in> {t, ''JPEG'', ''BASIC'', ''OCTET-STREAM''}"
    using pre words assms by (cases "t = []"; auto simp: mtypeFromV3_def Let_def e)+
qed

lemma trim_suffix_append: "trim_suffix (s @ p) p = s"
  by (simp add: trim_suffix_def)

lemma parse_written: "CHR '','' \<notin> set m \<Longrightarrow> parseDataURI (''data:'' @ m @ '';base64,'' @ d) = Some (d, m)"
proof -
  assume m: "CHR '','' \<notin> set m"
  have "cut_at CHR '','' ((m @ '';base64'') @ CHR '','' # d) = Some (m @ '';base64'', d)" by (rule cut_at_append) (use m in simp)
  then show ?thesis using trim_suffix_append [of m "'';base64''"] by (simp add: parseDataURI_def)
qed

lemma settled_media:
  assumes "media_fits3 r" and "carries_media r"
  shows "carries_media (uri_resource k' (kept_media_uri k r))" "kept_media_uri k (uri_resource k' (kept_media_uri k r)) = kept_media_uri k r"
    "media_fits3 (uri_resource k' (kept_media_uri k r))"
proof -
  have sel: "rs_uri (uri_resource k' u) = u" "rs_media_type (uri_resource k' u) = []" for u by (simp_all add: uri_resource_def)
  have "carries_media (uri_resource k' (kept_media_uri k r)) \<and> kept_media_uri k (uri_resource k' (kept_media_uri k r)) = kept_media_uri k r \<and>
      media_fits3 (uri_resource k' (kept_media_uri k r))"
  proof (cases "parseDataURI (rs_uri r)")
    case None
    then show ?thesis using assms by (simp add: kept_media_uri_def carries_media_def media_fits3_def sel)
  next
    case (Some e)
    obtain d mt where e: "e = (d, mt)" by fastforce
    have d: "d \<noteq> []" and t: "plain (inline_type r mt)" using assms Some by (simp_all add: carries_media_def media_fits3_def e)
    note m = settled_mtype [OF inline_settled [OF t], of k]
    let ?m = "mtypeFromV3 k (inline_type r mt)"
    have u: "kept_media_uri k r = ''data:'' @ ?m @ '';base64,'' @ d" using Some by (simp add: kept_media_uri_def e)
    note p = parse_written [OF m(1), of d]
    have i: "inline_type (uri_resource k' (kept_media_uri k r)) ?m = mtypeToV3Type ?m" using m(2) by (simp add: inline_type_def)
    have "plain ''JPEG''" "plain ''BASIC''" "plain ''OCTET-STREAM''" by (simp_all add: plain_def special_chars_def)
    then have "plain (mtypeToV3Type ?m)" using m(5) t by auto
    then have "media_fits3 (uri_resource k' (kept_media_uri k r))" unfolding media_fits3_def sel using p i by (simp add: u)
    moreover have "kept_media_uri k (uri_resource k' (kept_media_uri k r)) = kept_media_uri k r"
      unfolding kept_media_uri_def [of k "uri_resource k' (kept_media_uri k r)"] sel using p i m(3) by (simp add: u)
    moreover have "carries_media (uri_resource k' (kept_media_uri k r))" unfolding carries_media_def sel using p d by (simp add: u)
    ultimately show ?thesis by simp
  qed
  then show "carries_media (uri_resource k' (kept_media_uri k r))" "kept_media_uri k (uri_resource k' (kept_media_uri k r)) = kept_media_uri k r"
    "media_fits3 (uri_resource k' (kept_media_uri k r))" by blast+
qed

lemma kept_media_kind: "m \<in> set (kept_media k rs) \<Longrightarrow> rs_kind m = k"
  by (auto simp: kept_media_def uri_resource_def)

lemma kept_media_append: "kept_media k (as @ bs) = kept_media k as @ kept_media k bs"
  by (simp add: kept_media_def)

lemma kept_media_other: "k \<noteq> l \<Longrightarrow> kept_media k (kept_media l rs) = []"
proof -
  assume "k \<noteq> l"
  then have "filter (\<lambda>r. rs_kind r = k \<and> carries_media r) (kept_media l rs) = []"
    unfolding filter_empty_conv using kept_media_kind [of _ l rs] by blast
  then show ?thesis by (simp add: kept_media_def [of k])
qed

lemma kept_media_same: "list_all media_fits3 rs \<Longrightarrow> kept_media k (kept_media k rs) = kept_media k rs"
proof (induction rs)
  case (Cons r rs)
  then show ?case using settled_media(1,2) [of r k k] by (auto simp: kept_media_def) (simp_all add: uri_resource_def)
qed (simp add: kept_media_def)

lemma settled_keys: "list_all media_fits3 rs \<Longrightarrow> map (\<lambda>r. uri_resource [] (kept_media_uri ''key'' r)) (filter carries_media
    (map (\<lambda>r. uri_resource [] (kept_media_uri ''key'' r)) (filter carries_media rs))) = map (\<lambda>r. uri_resource [] (kept_media_uri ''key'' r)) (filter carries_media rs)"
  by (induction rs) (auto simp: settled_media)

section \<open>The card\<close>

lemma kept_card_sel:
  "cd_uid (kept_card c) = cd_uid c"
  "cd_prod_id (kept_card c) = cd_prod_id c"
  "cd_updated (kept_card c) = kept_updated (cd_updated c)"
  "cd_name (kept_card c) = kept_name (cd_name c)"
  "cd_nicknames (kept_card c) = map kept_nickname (filter (\<lambda>n. nk_name n \<noteq> []) (cd_nicknames c))"
  "cd_organizations (kept_card c) = map kept_org (filter has_org (cd_organizations c))"
  "cd_titles (kept_card c) = titles_of ''title'' (cd_titles c) @ titles_of ''role'' (cd_titles c)"
  "cd_emails (kept_card c) = map kept_email (filter (\<lambda>e. em_address e \<noteq> []) (cd_emails c))"
  "cd_phones (kept_card c) = map kept_phone (filter (\<lambda>p. ph_number p \<noteq> []) (cd_phones c))"
  "cd_impp (kept_card c) = map kept_service (with_uri (cd_impp c))"
  "cd_social (kept_card c) = map kept_service (with_uri (cd_social c))"
  "cd_addresses (kept_card c) = map kept_address (written_addresses (cd_addresses c))"
  "cd_anniversaries (kept_card c) = map kept_anniversary (last_one (dated ''birth'' (cd_anniversaries c)) @ dated ''wedding'' (cd_anniversaries c))"
  "cd_notes (kept_card c) = map kept_note (filter (\<lambda>n. nt_note n \<noteq> []) (cd_notes c))"
  "cd_keywords (kept_card c) = kept_keywords (cd_keywords c)"
  "cd_media (kept_card c) = kept_media ''photo'' (cd_media c) @ kept_media ''logo'' (cd_media c) @ kept_media ''sound'' (cd_media c)"
  "cd_calendars (kept_card c) = kept_uris (cd_calendars c)"
  "cd_free_busy (kept_card c) = kept_uris (cd_free_busy c)"
  "cd_scheduling (kept_card c) = kept_uris (cd_scheduling c)"
  "cd_crypto_keys (kept_card c) = map (\<lambda>r. uri_resource [] (kept_media_uri ''key'' r)) (filter carries_media (cd_crypto_keys c))"
  "cd_directories (kept_card c) = map (\<lambda>r. uri_resource ''entry'' (rs_uri r)) (filter (\<lambda>r. rs_uri r \<noteq> [] \<and> rs_kind r = ''entry'') (cd_directories c))"
  "cd_links (kept_card c) = map kept_link (filter (\<lambda>l. rs_uri l \<noteq> []) (cd_links c))"
  "cd_related_to (kept_card c) = map kept_relation (filter (\<lambda>r. rl_target r \<noteq> []) (cd_related_to c))"
  by (simp_all add: kept_card_def)

lemma settled_card:
  assumes "vcard3_domain c" and "list_all (\<lambda>a. \<not> hollow a) (cd_addresses c)"
  shows "kept_card (kept_card c) = kept_card c"
proof -
  have m: "list_all media_fits3 (cd_media c)" "list_all media_fits3 (cd_crypto_keys c)" using assms(1) by (simp_all add: vcard3_domain_def)
  have media: "kept_media k (kept_media ''photo'' (cd_media c) @ kept_media ''logo'' (cd_media c) @ kept_media ''sound'' (cd_media c)) = kept_media k (cd_media c)"
    if "k \<in> {''photo'', ''logo'', ''sound''}" for k
    using that by (auto simp: kept_media_append kept_media_same [OF m(1)] kept_media_other)
  have entries: "map (\<lambda>r. uri_resource ''entry'' (rs_uri r)) (filter (\<lambda>r. rs_uri r \<noteq> [] \<and> rs_kind r = ''entry'')
      (map (\<lambda>r. uri_resource ''entry'' (rs_uri r)) (filter (\<lambda>r. rs_uri r \<noteq> [] \<and> rs_kind r = ''entry'') rs))) =
      map (\<lambda>r. uri_resource ''entry'' (rs_uri r)) (filter (\<lambda>r. rs_uri r \<noteq> [] \<and> rs_kind r = ''entry'') rs)" for rs
    by (induction rs) (simp_all add: uri_resource_def)
  have lists: "map kept_nickname (filter (\<lambda>n. nk_name n \<noteq> []) (map kept_nickname (filter (\<lambda>n. nk_name n \<noteq> []) ns))) = map kept_nickname (filter (\<lambda>n. nk_name n \<noteq> []) ns)"
    "map kept_org (filter has_org (map kept_org (filter has_org orgs))) = map kept_org (filter has_org orgs)"
    "map kept_email (filter (\<lambda>e. em_address e \<noteq> []) (map kept_email (filter (\<lambda>e. em_address e \<noteq> []) es))) = map kept_email (filter (\<lambda>e. em_address e \<noteq> []) es)"
    "map kept_phone (filter (\<lambda>p. ph_number p \<noteq> []) (map kept_phone (filter (\<lambda>p. ph_number p \<noteq> []) ps))) = map kept_phone (filter (\<lambda>p. ph_number p \<noteq> []) ps)"
    "map kept_service (with_uri (map kept_service (with_uri ss))) = map kept_service (with_uri ss)"
    "map kept_link (filter (\<lambda>l. rs_uri l \<noteq> []) (map kept_link (filter (\<lambda>l. rs_uri l \<noteq> []) ls))) = map kept_link (filter (\<lambda>l. rs_uri l \<noteq> []) ls)"
    "map kept_note (filter (\<lambda>n. nt_note n \<noteq> []) (map kept_note (filter (\<lambda>n. nt_note n \<noteq> []) nts))) = map kept_note (filter (\<lambda>n. nt_note n \<noteq> []) nts)"
    "map kept_relation (filter (\<lambda>r. rl_target r \<noteq> []) (map kept_relation (filter (\<lambda>r. rl_target r \<noteq> []) rs))) = map kept_relation (filter (\<lambda>r. rl_target r \<noteq> []) rs)"
    for ns orgs es ps ss ls nts rs
    unfolding with_uri_def by (rule settle_list; simp)+
  have u: "kept_updated (kept_updated t) = kept_updated t" for t by (simp add: kept_updated_def split: option.split)
  show ?thesis
    unfolding kept_card_def [of "kept_card c"] kept_card_sel lists settled_titles settled_name settled_uris settled_dates [OF refl]
      settled_addresses [OF assms(2)] settled_keywords settled_keys [OF m(2)] entries u media [of "''photo''", simplified]
      media [of "''logo''", simplified] media [of "''sound''", simplified]
    by (simp only: kept_card_def)
qed

lemma settled_domain:
  assumes "vcard3_domain c"
  shows "vcard3_domain (kept_card c)"
proof -
  have d: "case cd_updated c of None \<Rightarrow> True | Some t \<Rightarrow> ts_utc t = [] \<or> utc_stamp (ts_utc t)" "list_all phone_fits3 (cd_phones c)"
    "list_all (\<lambda>a. an_kind a \<in> {''birth'', ''wedding''} \<longrightarrow> date_fits3 (an_date a)) (cd_anniversaries c)"
    "list_all media_fits3 (cd_media c)" "list_all media_fits3 (cd_crypto_keys c)"
    using assms unfolding vcard3_domain_def by blast+
  have "case cd_updated (kept_card c) of None \<Rightarrow> True | Some t \<Rightarrow> ts_utc t = [] \<or> utc_stamp (ts_utc t)"
    using d(1) by (auto simp: kept_card_sel kept_updated_def split: option.splits)
  moreover have "list_all phone_fits3 (cd_phones (kept_card c))"
    using d(2) by (auto simp: kept_card_sel list_all_iff phone_fits3_def kept_phone_def)
  moreover have "list_all (\<lambda>a. an_kind a \<in> {''birth'', ''wedding''} \<longrightarrow> date_fits3 (an_date a)) (cd_anniversaries (kept_card c))"
  proof -
    have "set (last_one (dated ''birth'' (cd_anniversaries c)) @ dated ''wedding'' (cd_anniversaries c)) \<subseteq> set (cd_anniversaries c)"
    proof -
      have "set (dated k as) \<subseteq> set as" "set (last_one as) \<subseteq> set as" for k as by (auto simp: dated_def last_one_def)
      then show ?thesis by fastforce
    qed
    then show ?thesis using d(3) by (auto simp: kept_card_sel(13) list_all_iff kept_anniversary_def)
  qed
  moreover have "list_all media_fits3 (kept_media k (cd_media c))" for k
    using d(4) settled_media(3) by (auto simp: kept_media_def list_all_iff)
  then have "list_all media_fits3 (cd_media (kept_card c))" by (simp add: kept_card_sel)
  moreover have "list_all media_fits3 (cd_crypto_keys (kept_card c))"
    using d(5) settled_media(3) by (auto simp: kept_card_sel list_all_iff)
  ultimately show ?thesis unfolding vcard3_domain_def by blast
qed



section \<open>Where the adapter does less than it says\<close>

text \<open>A year with a month, and a month alone, are written but not read: they come back as a timestamp that is none.\<close>

lemma year_month_mangled:
  "parseDatePartial (formatDatePartial \<lparr>an_partial = Some (mk_date (Some 2024) (Some 6) None), an_timestamp = None\<rparr>) =
    \<lparr>an_partial = None, an_timestamp = Some ''2024-06''\<rparr>"
  "parseDatePartial (formatDatePartial \<lparr>an_partial = Some (mk_date None (Some 6) None), an_timestamp = None\<rparr>) =
    \<lparr>an_partial = None, an_timestamp = Some ''--06''\<rparr>"
  by code_simp+

text \<open>An address with coordinates alone that are no latitude and longitude is written as an empty line without a diagnostic, read
  back as an empty address, and gone after the second trip.\<close>

definition lost_place :: address where
  "lost_place = \<lparr>ad_id = [], ad_components = [], ad_country_code = [], ad_coordinates = ''52.5 13.4'', ad_time_zone = [], ad_contexts = [],
     ad_pref = None, ad_full = [], ad_is_ordered = None, ad_separator = [], ad_phonetic_system = [], ad_phonetic_script = [], ad_sensitivity = []\<rparr>"

lemma hollow_address_written: "hollow lost_place" "address_diags3 lost_place = []"
  "exportAddresses3 0 [lost_place] = (0, [(''ADR'', field '';;;;;;'')])" "exportAddresses3 0 [kept_address lost_place] = (0, [])"
  by code_simp+

text \<open>A profile or messenger with a user name and no address disappears without a diagnostic.\<close>

lemma nameless_service_lost: "os_uri s = [] \<Longrightarrow> exportSocial3 n [s] = (n, []) \<and> exportImpp3 n [s] = (n, []) \<and>
    service_diags3 ''social'' [s] = [] \<and> service_diags3 ''impp'' [s] = []"
  by (simp add: service_diags3_def)

text \<open>Inline data that is not base64 is labelled as if it were.\<close>

definition plain_data :: resource where
  "plain_data = (uri_resource ''photo'' ''data:text/plain,hi'')"

lemma plain_data_relabelled: "importMediaURI (exportMediaField (rs_uri plain_data) []) ''photo'' = ''data:image/plain;base64,hi''"
  by code_simp

end
