(* ===== verification/Spec2Isabelle.thy ===== *)
theory Spec2Isabelle imports Recurrence PlainSave Normalize SharingRules Occasions Ambient SelfContact Dispatch AuditTrail Lockout Idempotency Purge MergeCommit ImageMeta ContactSyncRules VCard3Settled begin

text \<open>
  A verification library for the server of the Mycorrhizal CRM (Go, under \<open>src/backend/\<close>): a self-hosted
  contact manager that keeps one neutral record per contact, shows and edits it through flat legacy columns,
  shares it over CardDAV, reminds its users of birthdays, cadences and reminders, and runs on a database
  that several instances may open. The definitions are translations of the Go functions of the same name;
  every one evaluates, and the theorems are about those definitions.

  \<^bold>\<open>Foundations.\<close> \<open>Prelude\<close> holds the Go string operations, the stable sort and the facts on lists, options and
  maps every part shares. \<open>GoTime\<close> is the part of package \<open>time\<close> the source uses: the calendar over day
  numbers, instants as nanoseconds, zones as offset functions, the saturating \<open>Sub\<close>. \<open>JsonText\<close> is
  what is used of \<open>encoding/json\<close>; its locale \<open>front_codec\<close> (an encoder whose output can be read back from
  the front of a longer text) is interpreted for strings and numbers and yields the injectivity the hash
  chain needs.

  \<^bold>\<open>The contact record.\<close> \<open>ContactModel\<close> (\<open>contactmodel/\<close>): the card, the envelope, partial dates, periods,
  the projection. \<open>Normalize\<close> (\<open>contactmodel/normalize.go\<close>): the field walk around an NFC transform that is a
  parameter. \<open>ContactFlat\<close> (\<open>models/contact.go\<close>, \<open>contact_record.go\<close>, \<open>contact_record_reverse.go\<close>): the stored
  contact and both mappings between flat columns and record. \<open>CardMerge\<close> and \<open>PlainSave\<close>
  (\<open>models/contact_card_merge.go\<close>): the merge a plain save performs, and the theorems that it keeps what it does
  not own and that the mappings round-trip.

  \<^bold>\<open>What leaves the instance.\<close> \<open>Sharing\<close> and \<open>SharingRules\<close> (\<open>models/field_selection.go\<close>, the projections of
  \<open>contact_record.go\<close>, the write-back of \<open>contact_card_merge.go\<close> and \<open>contact_personal_info.go\<close>): the locale
  \<open>default_deny\<close> states what a filter that keeps normal entries promises, with the model's filters as its
  interpretations; the properties say that a sync client sees exactly what is at normal sensitivity and that
  its writes lose nothing it was not shown. \<open>RelationGraph\<close> (\<open>relationship_type_registry.go\<close>,
  \<open>graph_traversal.go\<close>): the registry of relation types and the bounded traversal, against reachability.

  \<^bold>\<open>Dates and reminders.\<close> \<open>Recurrence\<close> (\<open>services/reminder_service.go\<close>), \<open>Birthdays\<close>
  (\<open>birthday_service.go\<close>), \<open>Occasions\<close> (\<open>occasion_service.go\<close>), \<open>Cadence\<close> (\<open>cadence_service.go\<close>), \<open>Ambient\<close>
  (\<open>ambient_contacts.go\<close>), \<open>SelfContact\<close> (\<open>self_contact.go\<close>). Each gives the functions, the calendar facts
  that make them right, and the exact content of the lists they produce.

  \<^bold>\<open>Jobs and delivery.\<close> \<open>JobLock\<close> (\<open>services/job_lock.go\<close>): the two transactions and an inductive relation of all
  interleavings of instances that acquire, release and die, with mutual exclusion, spacing and progress.
  \<open>Dispatch\<close> (\<open>sendRemindersAt\<close> and the four senders of \<open>notification_service.go\<close>): the locale
  \<open>notification_sender\<close> is the contract a channel has with the run and every sender interprets it; at most
  one message per occurrence and delivery despite failures follow for all histories.

  \<^bold>\<open>Deletion.\<close> \<open>Store\<close> gives tables of rows and the SQL statements on them. \<open>Cascade\<close>
  (\<open>services/contact_delete.go\<close>): the registry of the thirty-four steps and the walk over it; the locale
  \<open>registry_walk\<close> says what such a walk does when every step keeps to its table, and the cascade here and the
  sweep of a purge are its interpretations. \<open>Trash\<close> (\<open>services/contact_trash.go\<close>): the snapshot, restore, and the
  round trip of both. \<open>Purge\<close>: the permanent purge and the emptied trash, also with a second contact of the same
  vCard UID.

  \<^bold>\<open>Merge.\<close> \<open>services/contact_merge_service.go\<close> over the same tables. \<open>MergeFields\<close>: the six unions are one loop
  with a key per kind, and the scalars with their conflicts. \<open>Merge\<close>: the statements of the repoint, one
  definition per shape, composed in the order of the code. \<open>MergeEdges\<close>: what is left of the relationship edges.
  \<open>MergeTables\<close>: one equation per table for repoint and sweep, and that no live row is lost. \<open>MergeCommit\<close>: the
  commit of the controller with its errors. Saving the keeper is the plain save of \<open>CardMerge\<close>; the counts and the
  text of the audit note are left out.

  \<^bold>\<open>Subscribed address books.\<close> \<open>ContactSync\<close> (\<open>services/contact_sync_service.go\<close>, \<open>sync_conflict_service.go\<close>,
  \<open>models/sync_health.go\<close>): the fetch with its two fallbacks, the reconcile transaction over contacts, links and
  conflicts, what the user can do with a conflict, the health of a subscription. \<open>ContactSyncRules\<close>: the set
  specification a committed run refines, that a repeated answer changes nothing, that an overwritten edit is recorded and
  comes back, that the health is the streak of failures; and three ways in which a subscription gets stuck. The CardDAV
  client, the vCard adapters, the text cleaner and the save hook are fields of \<open>sync_env\<close> and \<open>dav_client\<close>; the photo
  files of an imported card are left out.

  \<^bold>\<open>Uploaded images.\<close> \<open>ByteWalk\<close>: byte slices with partial reads, where no value is a panic, and a loop over them as a
  partial function; the locale \<open>forward_body\<close> says when such a loop returns. \<open>ExifStrip\<close>
  (\<open>attachments/exif_strip.go\<close>) and \<open>ImageMeta\<close> (\<open>imaging/exif.go\<close>) interpret it: stripping returns on every input and
  removes exactly the EXIF parts, and the reader of the gallery never leaves the file.

  \<^bold>\<open>vCard 4.0.\<close> \<open>VCardText\<close> and \<open>VCardDates\<close>: structured values, parameters, reduced dates and timestamps
  (\<open>vcard4/components.go\<close>, the helpers of \<open>vcard4/adapter.go\<close>). \<open>VCard4\<close>: every import and export step of the adapter in
  the order of the code. \<open>VCardWire\<close> is what a reader finds in the parameters of a written card, as far as the comments of
  the adapter record it of the text layer; \<open>VCard4Items\<close>, \<open>VCard4Names\<close> and \<open>VCard4Orgs\<close> read one entry back each, under
  the condition that makes it possible; \<open>VCard4Rules\<close> to \<open>VCard4Whole\<close> compose them: a card inside the contract
  \<open>vcard4_domain\<close> comes back as it was. The decoder and the encoder of go-vcard are arguments.

  \<^bold>\<open>vCard 3.0.\<close> \<open>VCard3\<close> (\<open>vcard3/adapter.go\<close>, \<open>vcard3/components.go\<close>): export with its diagnostics and import of the
  older version, which has no place for much of a card and ties companions to entries by groups. \<open>VCard3Entries\<close> states
  entry by entry what is kept, \<open>VCard3Groups\<close> that a group belongs to one entry, \<open>VCard3Trip\<close> which fields stand under
  which name of an export; \<open>VCard3Whole\<close> composes them: export and import together compute the specification
  \<open>kept_card\<close>. \<open>VCard3Settled\<close>: a second trip changes nothing, and the four places where the adapter does less than it says.
  The domain excludes media types with reserved characters, unknown phone features, months without a day, and timestamps as
  anniversaries.

  \<^bold>\<open>Protection.\<close> \<open>AuditTrail\<close> (\<open>models/audit_chain.go\<close>, \<open>audit_recorder.go\<close>, \<open>audit.go\<close>): the hash chain over an
  arbitrary digest function; the security statements name the collision they would need. \<open>Lockout\<close>
  (\<open>middleware/rate_limiter.go\<close>, \<open>login_lockout.go\<close>, \<open>auth_velocity.go\<close>): locks per account and source, with the
  64-bit back-off as \<open>64 word\<close>, and the failure log against a sliding window. \<open>Idempotency\<close>
  (\<open>middleware/idempotency.go\<close>): keyed requests as a step relation over claims, handlers, bookkeeping that may
  fail, process death and purges.

  \<^bold>\<open>Parameters and bounds.\<close> SHA-256, Unicode NFC, time zones and everything a transport answers are arguments of
  the definitions. Loops over slices are folds and need no fuel; the recursive query of the traversal is
  unrolled to its depth limit, and the retry loop of the job lock counts its attempts. Instants are integers,
  as \<open>time.Time\<close> covers far more than any stored value; durations saturate where \<open>Sub\<close> does. Database reads
  return what the tables hold; where a failing statement changes the outcome it is an argument (the writes
  of the idempotency bookkeeping, the busy retry of the job lock, the read before an audit append).

  \<^bold>\<open>Not modelled.\<close> HTTP routing and the controllers (request parsing around the services), the OpenAPI text,
  configuration parsing, migrations and GORM itself; the JSContact codec, the import service, duplicate detection, sessions and
  the second factor; the CardDAV and CalDAV servers, glue over go-webdav; the transports (SMTP, ntfy, Gotify, web push, webhooks)
  and third-party clients (Immich, Seafile, Paperless, geocoders, Monica and Meerkat importers); image
  decoding and scaling, encryption at rest, OIDC and WebAuthn, which are calls into libraries; the command line tools;
  the test support under \<open>internal/\<close>; the web and Android clients, which are not Go.
\<close>

end
